(* ===== verification/Prelude.thy ===== *)
theory Prelude
  imports Main "HOL-Library.Word"
begin

text \<open>
  Shared vocabulary of the development: the machine types of the C sources, the errno
  values its functions return, the two combinators that stand for the idiom
  \<^verbatim>\<open>if (rc) return rc;\<close>, byte images with positional reads and writes (the
  host file behind \<^verbatim>\<open>pread\<close>/\<^verbatim>\<open>pwrite\<close>), and bit maps stored in byte
  arrays (bit \<open>i\<close> is bit \<open>i & 7\<close> of byte \<open>i >> 3\<close>).
\<close>

unbundle bit_operations_syntax

named_theorems codec_simps \<open>round-trip and frame facts of the on-disk field codecs\<close>
named_theorems img_simps \<open>reads of an image after a write to it\<close>
named_theorems bitmap_simps \<open>bit tests after a bit update\<close>
named_theorems frame_simps \<open>state components an operation leaves alone\<close>

section \<open>Machine types and errors\<close>

type_synonym byte = "8 word"
type_synonym u16 = "16 word"
type_synonym u32 = "32 word"

text \<open>
  The errno values the sources return (negated) and one value of our own: \<open>UB\<close> is the
  outcome of a C access outside its array, which the sources do not detect.
\<close>

datatype errno =
    EIO | EINVAL | ENOSPC | EROFS | ENOENT | ENAMETOOLONG | EFBIG | EEXIST | ENOTDIR
  | EISDIR | ENOTEMPTY | EPERM | ELOOP | ENOMEM | ENOSYS | EBUSY | E2BIG | EILSEQ | ENFILE | EACCES | UB

text \<open>
  A fallible operation on a state \<open>'s\<close> returns its result and the state it leaves, on
  the error path as well: the C code mutates the mount before it returns an error.
\<close>

type_synonym ('s, 'a) outcome = "(errno + 'a) \<times> 's"

definition try_op :: "('s, 'a) outcome \<Rightarrow> ('a \<Rightarrow> 's \<Rightarrow> ('s, 'b) outcome) \<Rightarrow> ('s, 'b) outcome" where
  "try_op m k = (case m of (Inl e, s) \<Rightarrow> (Inl e, s) | (Inr x, s) \<Rightarrow> k x s)"

text \<open>The same, with the error replaced: \<^verbatim>\<open>if (f(...)) return -EIO;\<close>\<close>

definition try_as :: "errno \<Rightarrow> ('s, 'a) outcome \<Rightarrow> ('a \<Rightarrow> 's \<Rightarrow> ('s, 'b) outcome) \<Rightarrow> ('s, 'b) outcome" where
  "try_as e m k = (case m of (Inl _, s) \<Rightarrow> (Inl e, s) | (Inr x, s) \<Rightarrow> k x s)"

lemma try_op_simps [simp]:
  "try_op (Inl e, s) k = (Inl e, s)"
  "try_op (Inr x, s) k = k x s"
  by (simp_all add: try_op_def)

lemma try_as_simps [simp]:
  "try_as e (Inl e', s) k = (Inl e, s)"
  "try_as e (Inr x, s) k = k x s"
  by (simp_all add: try_as_def)

lemma try_op_cong [fundef_cong]:
  assumes "m = m'" and "\<And>x s. m' = (Inr x, s) \<Longrightarrow> k x s = k' x s"
  shows "try_op m k = try_op m' k'"
  using assms by (auto simp: try_op_def split: prod.splits sum.splits)

lemma try_as_cong [fundef_cong]:
  assumes "m = m'" and "\<And>x s. m' = (Inr x, s) \<Longrightarrow> k x s = k' x s"
  shows "try_as e m k = try_as e m' k'"
  using assms by (auto simp: try_as_def split: prod.splits sum.splits)

lemma try_op_eq_Inr:
  "try_op m k = (Inr y, t) \<longleftrightarrow> (\<exists>x s. m = (Inr x, s) \<and> k x s = (Inr y, t))"
  by (cases m; cases "fst m") (auto simp: try_op_def split: sum.splits)

lemma try_op_eq_Inl:
  "try_op m k = (Inl e, t) \<longleftrightarrow> m = (Inl e, t) \<or> (\<exists>x s. m = (Inr x, s) \<and> k x s = (Inl e, t))"
  by (cases m; cases "fst m") (auto simp: try_op_def split: sum.splits)

lemma try_as_eq_Inr:
  "try_as d m k = (Inr y, t) \<longleftrightarrow> (\<exists>x s. m = (Inr x, s) \<and> k x s = (Inr y, t))"
  by (cases m; cases "fst m") (auto simp: try_as_def split: sum.splits)

lemma snd_try_op:
  "snd (try_op m k) = (case fst m of Inl e \<Rightarrow> snd m | Inr x \<Rightarrow> snd (k x (snd m)))"
  by (cases m) (auto simp: try_op_def split: sum.splits)

lemma snd_try_as:
  "snd (try_as e m k) = (case fst m of Inl _ \<Rightarrow> snd m | Inr x \<Rightarrow> snd (k x (snd m)))"
  by (cases m) (auto simp: try_as_def split: sum.splits)

text \<open>
  Loops that stop at the first error: over a value, and over a value and the state an
  operation leaves.
\<close>

fun fold_e :: "('x \<Rightarrow> 'b \<Rightarrow> errno + 'b) \<Rightarrow> 'x list \<Rightarrow> 'b \<Rightarrow> errno + 'b" where
  "fold_e f [] b = Inr b"
| "fold_e f (x # xs) b = (case f x b of Inl e \<Rightarrow> Inl e | Inr b \<Rightarrow> fold_e f xs b)"

fun fold_op :: "('x \<Rightarrow> 'b \<Rightarrow> 's \<Rightarrow> ('s, 'b) outcome) \<Rightarrow> 'x list \<Rightarrow> 'b \<Rightarrow> 's \<Rightarrow> ('s, 'b) outcome" where
  "fold_op f [] b s = (Inr b, s)"
| "fold_op f (x # xs) b s = try_op (f x b s) (fold_op f xs)"

lemma fold_e_cong [fundef_cong]:
  "b = b' \<Longrightarrow> xs = ys \<Longrightarrow> (\<And>x c. x \<in> set ys \<Longrightarrow> f x c = g x c) \<Longrightarrow> fold_e f xs b = fold_e g ys b'"
  by (induction ys arbitrary: xs b b') (auto split: sum.split)

lemma fold_op_cong [fundef_cong]:
  "b = b' \<Longrightarrow> s = s' \<Longrightarrow> xs = ys \<Longrightarrow> (\<And>x c t. x \<in> set ys \<Longrightarrow> f x c t = g x c t) \<Longrightarrow>
   fold_op f xs b s = fold_op g ys b' s'"
proof (induction ys arbitrary: xs b b' s s')
  case (Cons y ys)
  have "fold_op f ys c t = fold_op g ys c t" for c t using Cons.prems(4) by (intro Cons.IH) auto
  then show ?case using Cons.prems by (auto intro!: try_op_cong)
qed simp

section \<open>Byte images\<close>

type_synonym image = "nat \<Rightarrow> byte"

definition img_read :: "image \<Rightarrow> nat \<Rightarrow> nat \<Rightarrow> byte list" where
  "img_read im off n = map im [off..<off + n]"

definition img_write :: "image \<Rightarrow> nat \<Rightarrow> byte list \<Rightarrow> image" where
  "img_write im off bs = (\<lambda>a. if off \<le> a \<and> a < off + length bs then bs ! (a - off) else im a)"

lemma length_img_read [simp]: "length (img_read im off n) = n"
  by (simp add: img_read_def)

lemma nth_img_read [simp]: "i < n \<Longrightarrow> img_read im off n ! i = im (off + i)"
  by (simp add: img_read_def)

lemma img_write_outside: "a < off \<or> off + length bs \<le> a \<Longrightarrow> img_write im off bs a = im a"
  by (auto simp: img_write_def)

lemma img_read_write_same [img_simps]: "length bs = n \<Longrightarrow> img_read (img_write im off bs) off n = bs"
  by (rule nth_equalityI) (auto simp: img_write_def)

lemma img_read_write_disjoint [img_simps]:
  "off + n \<le> off' \<or> off' + length bs \<le> off \<Longrightarrow>
   img_read (img_write im off' bs) off n = img_read im off n"
  by (rule nth_equalityI) (auto simp: img_write_def)

lemma img_write_write_same [img_simps]:
  "length bs = length cs \<Longrightarrow> img_write (img_write im off bs) off cs = img_write im off cs"
  by (auto simp: img_write_def fun_eq_iff)

lemma img_write_read_id: "img_write im off (img_read im off n) = im"
  by (auto simp: img_write_def fun_eq_iff)

lemma img_write_commute:
  "off + length bs \<le> off' \<or> off' + length cs \<le> off \<Longrightarrow>
   img_write (img_write im off bs) off' cs = img_write (img_write im off' cs) off bs"
  by (auto simp: img_write_def fun_eq_iff)

text \<open>Two aligned records of the same size are the same record or do not overlap.\<close>

lemma aligned_disjoint:
  fixes a b s :: nat
  assumes "a \<noteq> b"
  shows "a * s + s \<le> b * s \<or> b * s + s \<le> a * s"
proof -
  have "Suc a \<le> b \<or> Suc b \<le> a" using assms by linarith
  then show ?thesis
    by (metis mult_Suc mult_le_mono1 add.commute)
qed

section \<open>Bit maps in byte arrays\<close>

text \<open>\<^verbatim>\<open>m[i >> 3] & (1u << (i & 7))\<close>\<close>

definition bm_test :: "byte list \<Rightarrow> nat \<Rightarrow> bool" where
  "bm_test m i \<longleftrightarrow> bit (m ! (i div 8)) (i mod 8)"

text \<open>\<^verbatim>\<open>m[i >> 3] |= (uint8_t)(1u << (i & 7))\<close>\<close>

definition bm_set :: "byte list \<Rightarrow> nat \<Rightarrow> byte list" where
  "bm_set m i = m[i div 8 := (m ! (i div 8)) OR push_bit (i mod 8) 1]"

text \<open>\<^verbatim>\<open>m[i >> 3] &= (uint8_t)~(1u << (i & 7))\<close>\<close>

definition bm_clear :: "byte list \<Rightarrow> nat \<Rightarrow> byte list" where
  "bm_clear m i = m[i div 8 := (m ! (i div 8)) AND NOT (push_bit (i mod 8) 1)]"

lemma length_bm [simp]: "length (bm_set m i) = length m" "length (bm_clear m i) = length m"
  by (simp_all add: bm_set_def bm_clear_def)

lemma div_mod8_eq: "(i::nat) div 8 = j div 8 \<Longrightarrow> i mod 8 = j mod 8 \<Longrightarrow> i = j"
  by (metis div_mult_mod_eq)

lemma bm_test_set [bitmap_simps]:
  assumes "i div 8 < length m"
  shows "bm_test (bm_set m i) j \<longleftrightarrow> j = i \<or> bm_test m j"
proof (cases "j div 8 = i div 8")
  case True
  have "bit (push_bit (i mod 8) (1::byte)) (j mod 8) \<longleftrightarrow> j mod 8 = i mod 8"
    by (auto simp: bit_simps)
  with True assms show ?thesis
    by (auto simp: bm_test_def bm_set_def bit_or_iff dest: div_mod8_eq)
next
  case False
  then show ?thesis by (auto simp: bm_test_def bm_set_def nth_list_update)
qed

lemma bm_test_clear [bitmap_simps]:
  assumes "i div 8 < length m"
  shows "bm_test (bm_clear m i) j \<longleftrightarrow> j \<noteq> i \<and> bm_test m j"
proof (cases "j div 8 = i div 8")
  case True
  have "bit (NOT (push_bit (i mod 8) (1::byte))) (j mod 8) \<longleftrightarrow> j mod 8 \<noteq> i mod 8"
    by (auto simp: bit_simps)
  with True assms show ?thesis
    by (auto simp: bm_test_def bm_clear_def bit_and_iff dest: div_mod8_eq)
next
  case False
  then show ?thesis by (auto simp: bm_test_def bm_clear_def nth_list_update)
qed

lemma bm_test_replicate0 [simp]: "i div 8 < n \<Longrightarrow> \<not> bm_test (replicate n 0) i"
  by (simp add: bm_test_def)

lemma bm_index_in_range: "length m = (n + 7) div 8 \<Longrightarrow> i < n \<Longrightarrow> i div 8 < length m"
  by simp

text \<open>A loop that sets some of the bits, and a loop that collects some bits into a word.\<close>

lemma length_foldl_bm_set [simp]:
  "length (foldl (\<lambda>m b. if P b then bm_set m (g b) else m) m bs) = length m"
  by (induction bs arbitrary: m) simp_all

lemma bm_test_foldl_set [bitmap_simps]:
  assumes "\<forall>b \<in> set bs. P b \<longrightarrow> g b div 8 < length m"
  shows "bm_test (foldl (\<lambda>m b. if P b then bm_set m (g b) else m) m bs) i \<longleftrightarrow>
    bm_test m i \<or> (\<exists>b \<in> set bs. P b \<and> g b = i)"
  using assms by (induction bs arbitrary: m) (auto simp: bm_test_set)

lemma length_foldl_bm_sets [simp]: "length (foldl (\<lambda>m b. bm_set m (g b)) m bs) = length m"
  by (induction bs arbitrary: m) simp_all

lemma bm_test_foldl_sets [bitmap_simps]:
  "\<forall>b \<in> set bs. g b div 8 < length m \<Longrightarrow>
   bm_test (foldl (\<lambda>m b. bm_set m (g b)) m bs) i \<longleftrightarrow> bm_test m i \<or> (\<exists>b \<in> set bs. g b = i)"
  by (induction bs arbitrary: m) (auto simp: bm_test_set)

lemma bit_foldl_or [bitmap_simps]:
  "bit (foldl (\<lambda>w b. if P b then w OR push_bit b 1 else w) (w0 :: 'a::len word) bs) k \<longleftrightarrow>
     bit w0 k \<or> (k \<in> set bs \<and> P k \<and> k < LENGTH('a))"
  by (induction bs arbitrary: w0) (auto simp: bit_simps)

section \<open>Words and their natural-number readings\<close>

lemma unat_sub_le: "(b::'a::len word) \<le> a \<Longrightarrow> unat (a - b) = unat a - unat b"
  by (rule unat_sub)

lemma unat_of_nat_lt: "n < 2 ^ LENGTH('a) \<Longrightarrow> unat (of_nat n :: 'a::len word) = n"
  by (simp add: unat_of_nat take_bit_nat_eq_self)

lemma unat_u16_bound: "unat (x :: u16) < 65536"
  using unsigned_less [of x] by simp

lemma unat_u32_bound: "unat (x :: u32) < 4294967296"
  using unsigned_less [of x] by simp

lemma unat_ucast_u16_u32 [simp]: "unat (ucast (x :: u16) :: u32) = unat x"
proof -
  have "unat x < 2 ^ 32" using unat_u16_bound [of x] by simp
  then show ?thesis by (simp add: unsigned_ucast_eq take_bit_nat_eq_self)
qed

lemma ucast_u16_u32_u16 [simp]: "ucast (ucast (x :: u16) :: u32) = x"
  by (rule bit_word_eqI) (auto simp: bit_simps)

lemma unat_byte_bound: "unat (x :: byte) < 256"
  using unsigned_less [of x] by simp

lemma less_mask_take_bit_u16: "(b :: u32) < 65536 \<Longrightarrow> take_bit 16 b = b"
  by (simp add: take_bit_eq_mod mod_word_less)

lemma ucast_ucast_eq_take_bit_u16: "ucast (ucast (b :: u32) :: u16) = take_bit 16 b"
  by (rule bit_word_eqI) (auto simp: bit_simps)

lemma ucast_u16_id: "(b :: u32) < 65536 \<Longrightarrow> ucast (ucast b :: u16) = b"
  using less_mask_take_bit_u16 [of b]
  by (simp add: ucast_ucast_eq_take_bit_u16)

end
