(* ===== verification/Byteorder.thy ===== *)
theory Byteorder
  imports Prelude
begin

text \<open>
  The byte-order primitives of \<^verbatim>\<open>byteorder.c\<close>: 16, 24 and 32-bit fields in
  little-endian, big-endian and PDP-11 middle-endian order, and the packed 18-bit word
  stream of PDP-7 platter dumps.  A C pointer \<open>p\<close> into a buffer is the pair of the
  buffer (a byte list) and an offset.  The locale \<open>field_codec\<close> states what every
  client of a codec relies on; it is interpreted for each order and each width, and for
  the dispatch through a descriptor's byte order.
\<close>

section \<open>Little-endian\<close>

definition bo_get16le :: "byte list \<Rightarrow> nat \<Rightarrow> u16" where
  "bo_get16le p o' = ucast (p ! o') OR push_bit 8 (ucast (p ! (o' + 1)))"

definition bo_put16le :: "byte list \<Rightarrow> nat \<Rightarrow> u16 \<Rightarrow> byte list" where
  "bo_put16le p o' v = p[o' := ucast (v AND 0xff), o' + 1 := ucast (drop_bit 8 v)]"

definition bo_get24le :: "byte list \<Rightarrow> nat \<Rightarrow> u32" where
  "bo_get24le p o' = ucast (p ! o') OR push_bit 8 (ucast (p ! (o' + 1)))
     OR push_bit 16 (ucast (p ! (o' + 2)))"

definition bo_put24le :: "byte list \<Rightarrow> nat \<Rightarrow> u32 \<Rightarrow> byte list" where
  "bo_put24le p o' v = p[o' := ucast (v AND 0xff), o' + 1 := ucast (drop_bit 8 v AND 0xff),
     o' + 2 := ucast (drop_bit 16 v AND 0xff)]"

definition bo_get32le :: "byte list \<Rightarrow> nat \<Rightarrow> u32" where
  "bo_get32le p o' = ucast (p ! o') OR push_bit 8 (ucast (p ! (o' + 1)))
     OR push_bit 16 (ucast (p ! (o' + 2))) OR push_bit 24 (ucast (p ! (o' + 3)))"

definition bo_put32le :: "byte list \<Rightarrow> nat \<Rightarrow> u32 \<Rightarrow> byte list" where
  "bo_put32le p o' v = p[o' := ucast v, o' + 1 := ucast (drop_bit 8 v),
     o' + 2 := ucast (drop_bit 16 v), o' + 3 := ucast (drop_bit 24 v)]"

section \<open>Big-endian\<close>

definition bo_get16be :: "byte list \<Rightarrow> nat \<Rightarrow> u16" where
  "bo_get16be p o' = push_bit 8 (ucast (p ! o')) OR ucast (p ! (o' + 1))"

definition bo_put16be :: "byte list \<Rightarrow> nat \<Rightarrow> u16 \<Rightarrow> byte list" where
  "bo_put16be p o' v = p[o' := ucast (drop_bit 8 v), o' + 1 := ucast (v AND 0xff)]"

definition bo_get24be :: "byte list \<Rightarrow> nat \<Rightarrow> u32" where
  "bo_get24be p o' = push_bit 16 (ucast (p ! o')) OR push_bit 8 (ucast (p ! (o' + 1)))
     OR ucast (p ! (o' + 2))"

definition bo_put24be :: "byte list \<Rightarrow> nat \<Rightarrow> u32 \<Rightarrow> byte list" where
  "bo_put24be p o' v = p[o' := ucast (drop_bit 16 v AND 0xff),
     o' + 1 := ucast (drop_bit 8 v AND 0xff), o' + 2 := ucast (v AND 0xff)]"

definition bo_get32be :: "byte list \<Rightarrow> nat \<Rightarrow> u32" where
  "bo_get32be p o' = push_bit 24 (ucast (p ! o')) OR push_bit 16 (ucast (p ! (o' + 1)))
     OR push_bit 8 (ucast (p ! (o' + 2))) OR ucast (p ! (o' + 3))"

definition bo_put32be :: "byte list \<Rightarrow> nat \<Rightarrow> u32 \<Rightarrow> byte list" where
  "bo_put32be p o' v = p[o' := ucast (drop_bit 24 v), o' + 1 := ucast (drop_bit 16 v),
     o' + 2 := ucast (drop_bit 8 v), o' + 3 := ucast v]"

section \<open>Middle-endian (PDP-11)\<close>

definition bo_get16me :: "byte list \<Rightarrow> nat \<Rightarrow> u16" where
  "bo_get16me p o' = bo_get16le p o'"

definition bo_put16me :: "byte list \<Rightarrow> nat \<Rightarrow> u16 \<Rightarrow> byte list" where
  "bo_put16me p o' v = bo_put16le p o' v"

text \<open>A 24-bit block number is packed as hi, lo, mid.\<close>

definition bo_get24me :: "byte list \<Rightarrow> nat \<Rightarrow> u32" where
  "bo_get24me p o' = ucast (p ! (o' + 1)) OR push_bit 8 (ucast (p ! (o' + 2)))
     OR push_bit 16 (ucast (p ! o'))"

definition bo_put24me :: "byte list \<Rightarrow> nat \<Rightarrow> u32 \<Rightarrow> byte list" where
  "bo_put24me p o' v = p[o' := ucast (drop_bit 16 v AND 0xff), o' + 1 := ucast (v AND 0xff),
     o' + 2 := ucast (drop_bit 8 v AND 0xff)]"

text \<open>High 16-bit word first, each word little-endian.\<close>

definition bo_get32me :: "byte list \<Rightarrow> nat \<Rightarrow> u32" where
  "bo_get32me p o' = push_bit 16 (ucast (bo_get16le p o')) OR ucast (bo_get16le p (o' + 2))"

definition bo_put32me :: "byte list \<Rightarrow> nat \<Rightarrow> u32 \<Rightarrow> byte list" where
  "bo_put32me p o' v =
     bo_put16le (bo_put16le p o' (ucast (drop_bit 16 v))) (o' + 2) (ucast (v AND 0xffff))"

section \<open>One table per byte order\<close>

text \<open>
  The tables \<^verbatim>\<open>bo_le\<close>, \<^verbatim>\<open>bo_be\<close> and \<^verbatim>\<open>bo_me\<close> are compared by address in
  the sources, so a table is a constructor and its six slots are the six functions below.
\<close>

datatype byte_order = LE | BE | ME

fun bo_get16 :: "byte_order \<Rightarrow> byte list \<Rightarrow> nat \<Rightarrow> u16" where
  "bo_get16 LE = bo_get16le"
| "bo_get16 BE = bo_get16be"
| "bo_get16 ME = bo_get16me"

fun bo_put16 :: "byte_order \<Rightarrow> byte list \<Rightarrow> nat \<Rightarrow> u16 \<Rightarrow> byte list" where
  "bo_put16 LE = bo_put16le"
| "bo_put16 BE = bo_put16be"
| "bo_put16 ME = bo_put16me"

fun bo_get24 :: "byte_order \<Rightarrow> byte list \<Rightarrow> nat \<Rightarrow> u32" where
  "bo_get24 LE = bo_get24le"
| "bo_get24 BE = bo_get24be"
| "bo_get24 ME = bo_get24me"

fun bo_put24 :: "byte_order \<Rightarrow> byte list \<Rightarrow> nat \<Rightarrow> u32 \<Rightarrow> byte list" where
  "bo_put24 LE = bo_put24le"
| "bo_put24 BE = bo_put24be"
| "bo_put24 ME = bo_put24me"

fun bo_get32 :: "byte_order \<Rightarrow> byte list \<Rightarrow> nat \<Rightarrow> u32" where
  "bo_get32 LE = bo_get32le"
| "bo_get32 BE = bo_get32be"
| "bo_get32 ME = bo_get32me"

fun bo_put32 :: "byte_order \<Rightarrow> byte list \<Rightarrow> nat \<Rightarrow> u32 \<Rightarrow> byte list" where
  "bo_put32 LE = bo_put32le"
| "bo_put32 BE = bo_put32be"
| "bo_put32 ME = bo_put32me"

text \<open>The tables are told apart by their constructor, which is what makes equality executable.\<close>

section \<open>Packed 18-bit words\<close>

text \<open>Word \<open>i\<close> occupies bits \<open>[18 i, 18 i + 18)\<close> of the stream, most significant first.\<close>

definition packed_bit :: "byte list \<Rightarrow> nat \<Rightarrow> bool" where
  "packed_bit p pos \<longleftrightarrow> bit (p ! (pos div 8)) (7 - pos mod 8)"

definition bo_get18packed :: "byte list \<Rightarrow> nat \<Rightarrow> u32" where
  "bo_get18packed p i =
     foldl (\<lambda>v b. push_bit 1 v OR
              (ucast (drop_bit (7 - (i * 18 + b) mod 8) (p ! ((i * 18 + b) div 8))) AND 1))
       0 [0..<18]"

definition put18_step :: "nat \<Rightarrow> u32 \<Rightarrow> byte list \<Rightarrow> nat \<Rightarrow> byte list" where
  "put18_step bit0 v p b =
     (let pos = bit0 + b; mask = push_bit (7 - pos mod 8) 1
      in if drop_bit (17 - b) v AND 1 \<noteq> 0
         then p[pos div 8 := (p ! (pos div 8)) OR mask]
         else p[pos div 8 := (p ! (pos div 8)) AND NOT mask])"

definition bo_put18packed :: "byte list \<Rightarrow> nat \<Rightarrow> u32 \<Rightarrow> byte list" where
  "bo_put18packed p i v = foldl (put18_step (i * 18) v) p [0..<18]"

section \<open>Runs of fields\<close>

text \<open>
  \<^verbatim>\<open>for (i = 0; i < n; i++) put(p + off + w * i, vs[i])\<close> and the loop that
  loads such a run.
\<close>

fun put_array :: "(byte list \<Rightarrow> nat \<Rightarrow> 'a \<Rightarrow> byte list) \<Rightarrow> nat \<Rightarrow> byte list \<Rightarrow> nat \<Rightarrow> 'a list \<Rightarrow> byte list" where
  "put_array put w p off [] = p"
| "put_array put w p off (v # vs) = put_array put w (put p off v) (off + w) vs"

definition get_array :: "(byte list \<Rightarrow> nat \<Rightarrow> 'a) \<Rightarrow> nat \<Rightarrow> byte list \<Rightarrow> nat \<Rightarrow> nat \<Rightarrow> 'a list" where
  "get_array get w p off n = map (\<lambda>i. get p (off + w * i)) [0..<n]"

lemma length_get_array [simp]: "length (get_array g w p off n) = n"
  by (simp add: get_array_def)

lemma get_array_Suc: "get_array g w p off (Suc n) = g p off # get_array g w p (off + w) n"
  by (simp add: get_array_def upt_conv_Cons map_Suc_upt [symmetric] add.assoc del: upt_Suc)

section \<open>The codec interface\<close>

text \<open>
  What a client relies on: a stored field reads back, a store keeps the buffer's length and
  every byte outside the field, and a load looks at the bytes of its field only.
  \<open>valid\<close> is the range a field of this width can hold.
\<close>

locale field_codec =
  fixes get :: "byte list \<Rightarrow> nat \<Rightarrow> 'a::len word"
    and put :: "byte list \<Rightarrow> nat \<Rightarrow> 'a word \<Rightarrow> byte list"
    and width :: nat
    and valid :: "'a word \<Rightarrow> bool"
  assumes get_put: "off + width \<le> length p \<Longrightarrow> valid v \<Longrightarrow> get (put p off v) off = v"
    and length_put: "length (put p off v) = length p"
    and nth_put: "i < off \<or> off + width \<le> i \<Longrightarrow> put p off v ! i = p ! i"
    and get_cong: "(\<And>i. off \<le> i \<Longrightarrow> i < off + width \<Longrightarrow> p ! i = q ! i) \<Longrightarrow> get p off = get q off"
begin

lemma get_put_other:
  assumes "off + width \<le> off' \<or> off' + width \<le> off"
  shows "get (put p off' v) off = get p off"
  using assms by (intro get_cong nth_put) auto

lemma get_list_update [codec_simps]:
  assumes "i < off \<or> off + width \<le> i"
  shows "get (p[i := x]) off = get p off"
  using assms by (intro get_cong) (auto simp: nth_list_update)

lemma get_append [codec_simps]:
  assumes "off + width \<le> length p"
  shows "get (p @ q) off = get p off"
  using assms by (intro get_cong) (auto simp: nth_append)

lemma length_put_array [simp]: "length (put_array put width p off vs) = length p"
  by (induction vs arbitrary: p off) (simp_all add: length_put)

lemma nth_put_array:
  "i < off \<or> off + width * length vs \<le> i \<Longrightarrow> put_array put width p off vs ! i = p ! i"
proof (induction vs arbitrary: p off)
  case (Cons v vs)
  then show ?case by (auto simp: nth_put algebra_simps)
qed simp

lemma get_put_array:
  assumes "off + width * length vs \<le> length p" and "\<forall>v \<in> set vs. valid v"
  shows "get_array get width (put_array put width p off vs) off (length vs) = vs"
  using assms
proof (induction vs arbitrary: p off)
  case (Cons v vs)
  have "get (put_array put width (put p off v) (off + width) vs) off = get (put p off v) off"
    by (intro get_cong) (auto simp: nth_put_array)
  then have hd: "get (put_array put width (put p off v) (off + width) vs) off = v"
    using Cons.prems by (simp add: get_put)
  have "get_array get width (put_array put width (put p off v) (off + width) vs) (off + width)
          (length vs) = vs"
    using Cons.prems by (intro Cons.IH) (auto simp: length_put algebra_simps)
  with hd show ?case by (simp add: get_array_Suc)
qed (simp add: get_array_def)

lemma get_array_cong:
  assumes "\<And>i. off \<le> i \<Longrightarrow> i < off + width * n \<Longrightarrow> p ! i = q ! i"
  shows "get_array get width p off n = get_array get width q off n"
proof -
  have "get p (off + width * j) = get q (off + width * j)" if "j < n" for j
  proof (rule get_cong)
    fix i assume "off + width * j \<le> i" "i < off + width * j + width"
    moreover have "width * j + width \<le> width * n"
      using that by (metis Suc_leI mult_Suc_right mult_le_mono2 add.commute)
    ultimately show "p ! i = q ! i" using assms by simp
  qed
  then show ?thesis by (simp add: get_array_def)
qed

lemma get_array_list_update [codec_simps]:
  "i < off \<or> off + width * n \<le> i \<Longrightarrow> get_array get width (p[i := x]) off n = get_array get width p off n"
  by (intro get_array_cong) (auto simp: nth_list_update)

end

section \<open>Bytes of a field\<close>

lemma mask_numerals:
  "(0xff :: 'a::len word) = mask 8" "(0xffff :: 'a::len word) = mask 16"
  "(0x3f :: 'a::len word) = mask 6" "(0x7f :: 'a::len word) = mask 7"
  "(0x3ffff :: 'a::len word) = mask 18"
  by (simp_all add: mask_eq_exp_minus_1)

lemmas bo_defs = bo_get16le_def bo_put16le_def bo_get24le_def bo_put24le_def bo_get32le_def
  bo_put32le_def bo_get16be_def bo_put16be_def bo_get24be_def bo_put24be_def bo_get32be_def
  bo_put32be_def bo_get16me_def bo_put16me_def bo_get24me_def bo_put24me_def bo_get32me_def
  bo_put32me_def

lemma bytes16: "ucast (ucast (v AND 0xff) :: byte) OR push_bit 8 (ucast (ucast (drop_bit 8 v) :: byte)) = (v :: u16)"
  by (rule bit_word_eqI) (auto simp: mask_numerals bit_simps not_less)

lemma bytes24:
  assumes "v < 0x1000000"
  shows "ucast (ucast (v AND 0xff) :: byte) OR push_bit 8 (ucast (ucast (drop_bit 8 v AND 0xff) :: byte))
    OR push_bit 16 (ucast (ucast (drop_bit 16 v AND 0xff) :: byte)) = (v :: u32)"
proof -
  have "take_bit 24 v = v" using assms
    by (simp add: take_bit_eq_mod mod_word_less)
  then have hi: "\<not> bit v n" if "24 \<le> n" for n
    using that by (metis bit_take_bit_iff not_less)
  show ?thesis
  proof (rule bit_word_eqI, goal_cases)
    case (1 n)
    consider "n < 8" | "8 \<le> n" "n < 16" | "16 \<le> n" "n < 24" | "24 \<le> n" by linarith
    then show ?case using 1 by cases (auto simp: mask_numerals bit_simps hi)
  qed
qed

lemma bytes32:
  "ucast (ucast v :: byte) OR push_bit 8 (ucast (ucast (drop_bit 8 v) :: byte))
    OR push_bit 16 (ucast (ucast (drop_bit 16 v) :: byte))
    OR push_bit 24 (ucast (ucast (drop_bit 24 v) :: byte)) = (v :: u32)"
proof (rule bit_word_eqI, goal_cases)
  case (1 n)
  consider "n < 8" | "8 \<le> n" "n < 16" | "16 \<le> n" "n < 24" | "24 \<le> n" by linarith
  then show ?case using 1 by cases (auto simp: bit_simps)
qed

lemma words32: "push_bit 16 (ucast (ucast (drop_bit 16 v) :: u16)) OR ucast (ucast (v AND 0xffff) :: u16) = (v::u32)"
  by (rule bit_word_eqI) (auto simp: mask_numerals bit_simps not_less)

section \<open>The three orders provide it\<close>

interpretation le16: field_codec bo_get16le bo_put16le 2 "\<lambda>_. True"
  by unfold_locales (auto simp: bo_defs bytes16)

interpretation be16: field_codec bo_get16be bo_put16be 2 "\<lambda>_. True"
  by unfold_locales (auto simp: bo_defs bytes16 ac_simps)

interpretation me16: field_codec bo_get16me bo_put16me 2 "\<lambda>_. True"
  unfolding bo_get16me_def [abs_def] bo_put16me_def [abs_def] by (rule le16.field_codec_axioms)

definition fits24 :: "u32 \<Rightarrow> bool" where
  "fits24 v \<longleftrightarrow> v < 0x1000000"

interpretation le24: field_codec bo_get24le bo_put24le 3 fits24
  by unfold_locales (auto simp: bo_defs bytes24 fits24_def)

interpretation be24: field_codec bo_get24be bo_put24be 3 fits24
  by unfold_locales (auto simp: bo_defs bytes24 fits24_def ac_simps)

interpretation me24: field_codec bo_get24me bo_put24me 3 fits24
  by unfold_locales (auto simp: bo_defs bytes24 fits24_def ac_simps)

interpretation le32: field_codec bo_get32le bo_put32le 4 "\<lambda>_. True"
  by unfold_locales (auto simp: bo_defs bytes32)

interpretation be32: field_codec bo_get32be bo_put32be 4 "\<lambda>_. True"
  by unfold_locales (auto simp: bo_defs bytes32 ac_simps)

interpretation me32: field_codec bo_get32me bo_put32me 4 "\<lambda>_. True"
proof
  fix off :: nat and p :: "byte list" and v :: u32
  assume "off + 4 \<le> length p"
  then show "bo_get32me (bo_put32me p off v) off = v"
    by (simp add: bo_get32me_def bo_put32me_def le16.get_put le16.get_put_other le16.length_put words32)
qed (auto simp: bo_defs)

section \<open>The dispatch through a byte-order table provides it\<close>

interpretation bo16: field_codec "bo_get16 bo" "bo_put16 bo" 2 "\<lambda>_. True" for bo
  by (cases bo) (simp_all add: le16.field_codec_axioms be16.field_codec_axioms me16.field_codec_axioms)

interpretation bo24: field_codec "bo_get24 bo" "bo_put24 bo" 3 fits24 for bo
  by (cases bo) (simp_all add: le24.field_codec_axioms be24.field_codec_axioms me24.field_codec_axioms)

interpretation bo32: field_codec "bo_get32 bo" "bo_put32 bo" 4 "\<lambda>_. True" for bo
  by (cases bo) (simp_all add: le32.field_codec_axioms be32.field_codec_axioms me32.field_codec_axioms)

lemma length_bo_put [simp]:
  "length (bo_put16 bo p off v) = length p" "length (bo_put24 bo p off w) = length p"
  "length (bo_put32 bo p off w) = length p"
  by (rule bo16.length_put bo24.length_put bo32.length_put)+

text \<open>A load never sees a store to another field, whatever the two widths are.\<close>

lemma bo_get16_other [codec_simps]:
  "a + 2 \<le> b \<or> b + 2 \<le> a \<Longrightarrow> bo_get16 bo (bo_put16 bo' p b v) a = bo_get16 bo p a"
  "a + 2 \<le> b \<or> b + 3 \<le> a \<Longrightarrow> bo_get16 bo (bo_put24 bo' p b w) a = bo_get16 bo p a"
  "a + 2 \<le> b \<or> b + 4 \<le> a \<Longrightarrow> bo_get16 bo (bo_put32 bo' p b w) a = bo_get16 bo p a"
  by (auto intro!: bo16.get_cong simp: bo16.nth_put bo24.nth_put bo32.nth_put)

lemma bo_get24_other [codec_simps]:
  "a + 3 \<le> b \<or> b + 2 \<le> a \<Longrightarrow> bo_get24 bo (bo_put16 bo' p b v) a = bo_get24 bo p a"
  "a + 3 \<le> b \<or> b + 3 \<le> a \<Longrightarrow> bo_get24 bo (bo_put24 bo' p b w) a = bo_get24 bo p a"
  "a + 3 \<le> b \<or> b + 4 \<le> a \<Longrightarrow> bo_get24 bo (bo_put32 bo' p b w) a = bo_get24 bo p a"
  by (auto intro!: bo24.get_cong simp: bo16.nth_put bo24.nth_put bo32.nth_put)

lemma bo_get32_other [codec_simps]:
  "a + 4 \<le> b \<or> b + 2 \<le> a \<Longrightarrow> bo_get32 bo (bo_put16 bo' p b v) a = bo_get32 bo p a"
  "a + 4 \<le> b \<or> b + 3 \<le> a \<Longrightarrow> bo_get32 bo (bo_put24 bo' p b w) a = bo_get32 bo p a"
  "a + 4 \<le> b \<or> b + 4 \<le> a \<Longrightarrow> bo_get32 bo (bo_put32 bo' p b w) a = bo_get32 bo p a"
  by (auto intro!: bo32.get_cong simp: bo16.nth_put bo24.nth_put bo32.nth_put)

lemmas bo_nth_put [codec_simps] = bo16.nth_put bo24.nth_put bo32.nth_put
lemmas bo_get_put [codec_simps] = bo16.get_put bo24.get_put bo32.get_put
lemmas bo_nth_put_array [codec_simps] = bo16.nth_put_array bo24.nth_put_array bo32.nth_put_array

text \<open>Loads and stores of single fields and of runs of fields do not see each other.\<close>

lemma bo_get_put_array_other [codec_simps]:
  "a + 2 \<le> b \<or> b + 2 * length vs \<le> a \<Longrightarrow> bo_get16 bo (put_array (bo_put16 bo') 2 p b vs) a = bo_get16 bo p a"
  "a + 2 \<le> b \<or> b + 3 * length ws \<le> a \<Longrightarrow> bo_get16 bo (put_array (bo_put24 bo') 3 p b ws) a = bo_get16 bo p a"
  "a + 2 \<le> b \<or> b + 4 * length ws \<le> a \<Longrightarrow> bo_get16 bo (put_array (bo_put32 bo') 4 p b ws) a = bo_get16 bo p a"
  "a + 4 \<le> b \<or> b + 2 * length vs \<le> a \<Longrightarrow> bo_get32 bo (put_array (bo_put16 bo') 2 p b vs) a = bo_get32 bo p a"
  "a + 4 \<le> b \<or> b + 3 * length ws \<le> a \<Longrightarrow> bo_get32 bo (put_array (bo_put24 bo') 3 p b ws) a = bo_get32 bo p a"
  "a + 4 \<le> b \<or> b + 4 * length ws \<le> a \<Longrightarrow> bo_get32 bo (put_array (bo_put32 bo') 4 p b ws) a = bo_get32 bo p a"
  by (auto intro!: bo16.get_cong bo32.get_cong simp: bo_nth_put_array)

lemma bo_get_array_other [codec_simps]:
  "a + 2 * n \<le> b \<or> b + 2 \<le> a \<Longrightarrow> get_array (bo_get16 bo) 2 (bo_put16 bo' p b v) a n = get_array (bo_get16 bo) 2 p a n"
  "a + 2 * n \<le> b \<or> b + 4 \<le> a \<Longrightarrow> get_array (bo_get16 bo) 2 (bo_put32 bo' p b w) a n = get_array (bo_get16 bo) 2 p a n"
  "a + 3 * n \<le> b \<or> b + 2 \<le> a \<Longrightarrow> get_array (bo_get24 bo) 3 (bo_put16 bo' p b v) a n = get_array (bo_get24 bo) 3 p a n"
  "a + 3 * n \<le> b \<or> b + 4 \<le> a \<Longrightarrow> get_array (bo_get24 bo) 3 (bo_put32 bo' p b w) a n = get_array (bo_get24 bo) 3 p a n"
  "a + 4 * n \<le> b \<or> b + 2 \<le> a \<Longrightarrow> get_array (bo_get32 bo) 4 (bo_put16 bo' p b v) a n = get_array (bo_get32 bo) 4 p a n"
  "a + 4 * n \<le> b \<or> b + 4 \<le> a \<Longrightarrow> get_array (bo_get32 bo) 4 (bo_put32 bo' p b w) a n = get_array (bo_get32 bo) 4 p a n"
  by (auto intro!: bo16.get_array_cong bo24.get_array_cong bo32.get_array_cong simp: bo_nth_put)

lemma bo_get_array_put_array_other [codec_simps]:
  "a + 2 * n \<le> b \<or> b + 2 * length vs \<le> a \<Longrightarrow>
     get_array (bo_get16 bo) 2 (put_array (bo_put16 bo') 2 p b vs) a n = get_array (bo_get16 bo) 2 p a n"
  "a + 2 * n \<le> b \<or> b + 4 * length ws \<le> a \<Longrightarrow>
     get_array (bo_get16 bo) 2 (put_array (bo_put32 bo') 4 p b ws) a n = get_array (bo_get16 bo) 2 p a n"
  "a + 4 * n \<le> b \<or> b + 2 * length vs \<le> a \<Longrightarrow>
     get_array (bo_get32 bo) 4 (put_array (bo_put16 bo') 2 p b vs) a n = get_array (bo_get32 bo) 4 p a n"
  by (auto intro!: bo16.get_array_cong bo32.get_array_cong simp: bo_nth_put_array)

lemma bo_get_put_array [codec_simps]:
  "off + 2 * length vs \<le> length p \<Longrightarrow> n = length vs \<Longrightarrow>
     get_array (bo_get16 bo) 2 (put_array (bo_put16 bo) 2 p off vs) off n = vs"
  "off + 3 * length ws \<le> length p \<Longrightarrow> n = length ws \<Longrightarrow> \<forall>w \<in> set ws. fits24 w \<Longrightarrow>
     get_array (bo_get24 bo) 3 (put_array (bo_put24 bo) 3 p off ws) off n = ws"
  "off + 4 * length ws \<le> length p \<Longrightarrow> n = length ws \<Longrightarrow>
     get_array (bo_get32 bo) 4 (put_array (bo_put32 bo) 4 p off ws) off n = ws"
  by (simp_all add: bo16.get_put_array bo24.get_put_array bo32.get_put_array)

section \<open>Packed words round-trip\<close>

lemma packed_bit_test: "packed_bit p pos \<longleftrightarrow> drop_bit (7 - pos mod 8) (p ! (pos div 8)) AND 1 \<noteq> 0"
  by (simp add: packed_bit_def bit_iff_odd_drop_bit and_one_eq odd_iff_mod_2_eq_one)

lemma length_put18_step [simp]: "length (put18_step o' v p b) = length p"
  by (simp add: put18_step_def Let_def)

lemma packed_bit_put18_step:
  assumes "(o' + b) div 8 < length p"
  shows "packed_bit (put18_step o' v p b) pos = (if pos = o' + b then bit v (17 - b) else packed_bit p pos)"
proof (cases "pos div 8 = (o' + b) div 8")
  case True
  have same: "7 - pos mod 8 = 7 - (o' + b) mod 8 \<longleftrightarrow> pos = o' + b"
  proof
    assume "7 - pos mod 8 = 7 - (o' + b) mod 8"
    moreover have "pos mod 8 < 8" "(o' + b) mod 8 < 8" by simp_all
    ultimately have "pos mod 8 = (o' + b) mod 8" by linarith
    with True show "pos = o' + b" by (rule div_mod8_eq)
  qed simp
  have m: "bit (push_bit (7 - (o' + b) mod 8) (1::byte)) (7 - pos mod 8) \<longleftrightarrow> pos = o' + b"
    using same by (auto simp: bit_simps)
  have t: "drop_bit (17 - b) v AND 1 \<noteq> 0 \<longleftrightarrow> bit v (17 - b)"
    by (simp add: bit_iff_odd_drop_bit and_one_eq odd_iff_mod_2_eq_one)
  show ?thesis
    using True assms m t
    by (auto simp: packed_bit_def put18_step_def Let_def bit_or_iff bit_and_iff bit_not_iff)
next
  case False
  then show ?thesis
    by (auto simp: packed_bit_def put18_step_def Let_def)
qed

lemma length_bo_put18packed [simp]: "length (bo_put18packed p i v) = length p"
proof -
  have "length (foldl (put18_step o' v) p bs) = length p" for o' bs
    by (induction bs arbitrary: p) simp_all
  then show ?thesis by (simp add: bo_put18packed_def)
qed

lemma packed_bit_foldl_put18:
  assumes "\<forall>b \<in> set bs. (o' + b) div 8 < length p"
  shows "packed_bit (foldl (put18_step o' v) p bs) pos =
    (if o' \<le> pos \<and> pos - o' \<in> set bs then bit v (17 - (pos - o')) else packed_bit p pos)"
  using assms
proof (induction bs arbitrary: p)
  case (Cons b bs)
  then show ?case by (auto simp: packed_bit_put18_step)
qed simp

text \<open>The bits of the stream after one store: those of word \<open>i\<close> are the value's, the rest stay.\<close>

lemma packed_bit_put18packed:
  assumes "i * 18 + 18 \<le> 8 * length p"
  shows "packed_bit (bo_put18packed p i v) pos =
    (if i * 18 \<le> pos \<and> pos < i * 18 + 18 then bit v (17 - (pos - i * 18)) else packed_bit p pos)"
proof -
  have "\<forall>b \<in> set [0..<18]. (i * 18 + b) div 8 < length p"
    using assms by (auto simp: less_mult_imp_div_less)
  then show ?thesis
    by (auto simp: bo_put18packed_def packed_bit_foldl_put18 simp del: upt_Suc)
qed

lemma bit_shift_in:
  "bit (push_bit (Suc 0) (v::u32) OR (if c then 1 else 0)) k \<longleftrightarrow>
     (if k = 0 then c else k < 32 \<and> bit v (k - 1))"
proof (cases k)
  case 0
  then show ?thesis by (cases c) (simp_all add: bit_or_iff bit_push_bit_iff bit_1_iff del: push_bit_Suc)
next
  case (Suc k')
  then show ?thesis
    by (auto simp: bit_or_iff bit_push_bit_iff bit_1_iff simp del: push_bit_Suc)
qed

lemma bit_foldl_packed:
  "bit (foldl (\<lambda>v b. push_bit (Suc 0) v OR (if packed_bit p (o' + b) then 1 else 0)) (0::u32) [0..<n]) k
     \<longleftrightarrow> k < n \<and> k < 32 \<and> packed_bit p (o' + (n - Suc k))"
proof (induction n arbitrary: k)
  case (Suc n)
  show ?case
    unfolding upt_Suc by (cases k) (auto simp: bit_shift_in Suc.IH simp del: push_bit_Suc)
qed simp

lemma bo_get18packed_alt:
  "bo_get18packed p i = foldl (\<lambda>v b. push_bit 1 v OR (if packed_bit p (i * 18 + b) then 1 else 0)) 0 [0..<18]"
proof -
  have "(ucast (drop_bit (7 - pos mod 8) (p ! (pos div 8))) AND 1 :: u32) = (if packed_bit p pos then 1 else 0)" for pos
  proof (rule bit_word_eqI)
    fix n :: nat
    show "bit (ucast (drop_bit (7 - pos mod 8) (p ! (pos div 8))) AND 1 :: u32) n \<longleftrightarrow>
      bit (if packed_bit p pos then 1 else (0 :: u32)) n"
      by (cases n) (auto simp: packed_bit_def bit_simps)
  qed
  then show ?thesis by (simp add: bo_get18packed_def)
qed

lemma bit_bo_get18packed:
  "bit (bo_get18packed p i) k \<longleftrightarrow> k < 18 \<and> packed_bit p (i * 18 + (17 - k))"
  using bit_foldl_packed [of p "i * 18" 18 k]
  by (auto simp: bo_get18packed_alt simp del: upt_Suc)

lemma bo_get_put18packed:
  assumes "i * 18 + 18 \<le> 8 * length p"
  shows "bo_get18packed (bo_put18packed p i v) j = (if j = i then take_bit 18 v else bo_get18packed p j)"
proof (rule bit_word_eqI)
  fix k :: nat
  have range: "j * 18 + (17 - k) < i * 18 \<or> i * 18 + 18 \<le> j * 18 + (17 - k)" if "j \<noteq> i" "k < 18"
    using that aligned_disjoint [of j i 18] by linarith
  show "bit (bo_get18packed (bo_put18packed p i v) j) k \<longleftrightarrow>
    bit (if j = i then take_bit 18 v else bo_get18packed p j) k"
    using range
    by (auto simp: bit_bo_get18packed packed_bit_put18packed [OF assms] bit_take_bit_iff)
qed

end
