(* ===== verification/Engine.thy ===== *)
theory Engine
  imports Byteorder
begin

text \<open>
  The engine types of \<^verbatim>\<open>filsys_engine.h\<close>, \<^verbatim>\<open>filsys_common.h\<close> and
  \<^verbatim>\<open>check.h\<close>: the decoded inode, the format descriptor, the allocator states and the
  per-mount state, together with the host behind the byte-slice transport
  \<^verbatim>\<open>filsys_io_t\<close>.  A vtable pointer of the descriptor is a constructor that names the
  table; the functions that call through it dispatch on the constructor.
\<close>

section \<open>The decoded inode\<close>

record filsys_inode =
  ip_ino :: u32
  ip_mode :: u32
  ip_nlink :: u16
  ip_uid :: u16
  ip_gid :: u16
  ip_size :: u32
  ip_addr :: "u32 list"
  ip_atime :: u32
  ip_mtime :: u32
  ip_ctime :: u32

text \<open>\<^verbatim>\<open>memset(ip, 0, sizeof *ip); ip->ino = ino;\<close>\<close>

definition zero_inode :: "u32 \<Rightarrow> filsys_inode" where
  "zero_inode ino = \<lparr>ip_ino = ino, ip_mode = 0, ip_nlink = 0, ip_uid = 0, ip_gid = 0,
     ip_size = 0, ip_addr = replicate 13 0, ip_atime = 0, ip_mtime = 0, ip_ctime = 0\<rparr>"

section \<open>The format descriptor\<close>

datatype backend = V6fs_ops | V7fs_ops | V1fs_ops | P7fs_ops | Bsd211fs_ops

datatype alloc_table = Freelist_alloc_ops | V8_bitmap_alloc_ops | Bitmap_alloc_ops | Pdp7_alloc_ops

datatype word_codec = Word_rb09 | Word_packed18 | Word_rim

datatype freemap_form = Freemap_list | Freemap_bitmap | Freemap_bigmap

text \<open>
  The mode-conversion slots: all \<open>NULL\<close> (derive from the type constants), V1's five
  functions, PDP-7's five, or V9/V10's override of \<^verbatim>\<open>to_posix_mode\<close> alone.
\<close>

datatype mode_table = Mode_derived | Mode_v1 | Mode_p7 | Mode_v910

record filsys_desc =
  d_ops :: "backend option"
  d_alloc :: alloc_table
  d_name :: string
  d_bo :: byte_order
  d_bsize :: nat
  d_nicfree :: nat
  d_nicinod :: nat
  d_pack4 :: bool
  d_interleave :: bool
  d_magic :: u32
  d_magic_off :: nat
  d_dyn_bsize :: bool
  d_has_dinfo :: bool
  d_has_state :: bool
  d_ignore_magic :: bool
  d_fmod_back :: nat
  d_has_fmod :: bool
  d_size_bits :: nat
  d_rootino :: u32
  d_inode_size :: nat
  d_ndaddr :: nat
  d_niaddr :: nat
  d_addr_width :: nat
  d_daddr_wid :: nat
  d_df_nfree_wid :: nat
  d_isize_count :: bool
  d_nindir :: nat
  d_ilarg_mask :: u32
  d_iallocated :: u32
  d_large_single :: nat
  d_large_double :: nat
  d_badino :: u32
  d_word :: "word_codec option"
  d_max_namlen :: nat
  d_dirent_size :: nat
  d_synth_dot :: bool
  d_freemap :: freemap_form
  d_ifmt :: u32
  d_ifdir :: u32
  d_ifreg :: u32
  d_ifchr :: u32
  d_ifblk :: u32
  d_iflnk :: u32
  d_ifsock :: u32
  d_ifmpc :: u32
  d_ifmpb :: u32
  d_mode :: mode_table
  d_sb_codec :: bool

section \<open>Allocator states\<close>

record freelist_state =
  nfree :: u16
  ninode :: u16
  free_cache :: "u32 list"
  inode_cache :: "u16 list"
  tfree :: u32
  tinode :: u32

record bitmap_state =
  freemap_bytes :: u16
  inodemap_bytes :: u16
  freemap :: "byte list"
  inodemap :: "byte list"
  bm_tfree :: u32
  bm_tinode :: u32

section \<open>The host\<close>

text \<open>
  The image file and what the host does to positional I/O on it: \<open>h_rd_err off n\<close> says a
  read of that range fails or comes back short; \<open>h_wr_short k\<close> is the number of bytes the
  \<open>k\<close>-th write transfers when it is a short one.  \<open>h_wlog\<close> lists the transfers that
  reached the file, oldest first, \<open>h_now\<close> is what \<^verbatim>\<open>time(NULL)\<close> returns and
  \<open>h_alloc n\<close> says that the allocator grants a request of \<open>n\<close> bytes.
\<close>

record host =
  h_img :: image
  h_len :: nat
  h_rd_err :: "nat \<Rightarrow> nat \<Rightarrow> bool"
  h_wr_short :: "nat \<Rightarrow> nat option"
  h_nwr :: nat
  h_wlog :: "(nat \<times> byte list) list"
  h_now :: u32
  h_alloc :: "nat \<Rightarrow> bool"

section \<open>The per-mount state\<close>

record filsys_edition =
  fs_desc :: filsys_desc
  fs_readonly :: bool
  fs_base :: nat
  fs_imgsize :: nat
  fs_isize :: u16
  fs_fsize :: u32
  fs_maxino :: u32
  fs_freelist :: u32
  fs_fl :: freelist_state
  fs_bm :: bitmap_state
  fs_time :: u32
  fs_m :: u16
  fs_n :: u16
  fs_unique :: u32
  fs_fmod :: nat
  fs_fl_dirty :: bool
  v8_bits :: "byte list"
  v8_nbits :: u32
  v8_base :: u32
  v8_nblks :: u32
  v8_blk_start :: u32
  fs_host :: host

type_synonym 'a op = "(filsys_edition, 'a) outcome"

section \<open>The directory iterator\<close>

text \<open>
  \<^verbatim>\<open>filsys_iter_state_t\<close> less its mount pointer, which the iterating functions take as
  an argument, and what one step of an iterator hands out: inode number, name, resume token.
\<close>

record filsys_iter_state =
  it_ip :: filsys_inode
  it_buf :: "byte list"
  it_buf_off :: nat
  it_next :: nat

type_synonym dir_entry = "u32 \<times> byte list \<times> nat"

section \<open>The integrity-check types\<close>

record filsys_check =
  ck_free_blocks :: u32
  ck_used_blocks :: u32
  ck_missing_blocks :: u32
  ck_dup_blocks :: u32
  ck_inodes :: u32
  ck_used_inodes :: u32
  ck_orphaned :: u32
  ck_errors :: u32

record filsys_chkctx =
  cx_bmap :: "byte list"
  cx_owner :: "u32 list option"
  cx_nblk :: u32
  cx_used_blocks :: u32
  cx_dup_blocks :: u32
  cx_bad_blocks :: u32
  cx_errors :: u32
  cx_ino :: u32

text \<open>The failure classes, cleanest first: A clean, C inconsistent, B leak, D aliasing.\<close>

datatype fail_class = CK_A | CK_C | CK_B | CK_D

definition filsys_classify :: "filsys_check \<Rightarrow> fail_class" where
  "filsys_classify rep =
     (if ck_dup_blocks rep > 0 then CK_D
      else if ck_missing_blocks rep > 0 \<or> ck_orphaned rep > 0 then CK_B
      else if ck_errors rep > 0 then CK_C
      else CK_A)"

text \<open>The checker's inode states \<^verbatim>\<open>FILSYS_IN_*\<close>.\<close>

abbreviation (input) "IN_UNALLOC \<equiv> (0x00 :: byte)"
abbreviation (input) "IN_UNKNOWN \<equiv> (0x01 :: byte)"
abbreviation (input) "IN_IDIR \<equiv> (0x02 :: byte)"
abbreviation (input) "IN_IREG \<equiv> (0x03 :: byte)"
abbreviation (input) "IN_ICHR \<equiv> (0x04 :: byte)"
abbreviation (input) "IN_IBLK \<equiv> (0x05 :: byte)"
abbreviation (input) "IN_IPIPE \<equiv> (0x06 :: byte)"

section \<open>Block-size dependent quantities\<close>

definition v7_inopb :: "filsys_edition \<Rightarrow> u32" where
  "v7_inopb fs = of_nat (d_bsize (fs_desc fs)) div of_nat (d_inode_size (fs_desc fs))"

definition v7_itod :: "filsys_edition \<Rightarrow> u32 \<Rightarrow> u32" where
  "v7_itod fs ino = 2 + (ino - 1) div v7_inopb fs"

definition v7_itoo :: "filsys_edition \<Rightarrow> u32 \<Rightarrow> u32" where
  "v7_itoo fs ino = (ino - 1) mod v7_inopb fs"

text \<open>V6 stores the number of i-list blocks in \<^verbatim>\<open>s_isize\<close>, V7 the first data block.\<close>

definition v7_data_first :: "filsys_edition \<Rightarrow> u32" where
  "v7_data_first fs = ucast (fs_isize fs) + (if d_isize_count (fs_desc fs) then 2 else 0)"

definition v7_maxinode :: "filsys_edition \<Rightarrow> u32" where
  "v7_maxinode fs =
     (ucast (fs_isize fs) - (if d_isize_count (fs_desc fs) then 0 else 2)) * v7_inopb fs"

definition v7_get_daddr :: "filsys_edition \<Rightarrow> byte list \<Rightarrow> nat \<Rightarrow> u32" where
  "v7_get_daddr fs p off =
     (if d_daddr_wid (fs_desc fs) = 2 then ucast (bo_get16le p off)
      else bo_get32 (d_bo (fs_desc fs)) p off)"

definition v7_put_daddr :: "filsys_edition \<Rightarrow> byte list \<Rightarrow> nat \<Rightarrow> u32 \<Rightarrow> byte list" where
  "v7_put_daddr fs p off v =
     (if d_daddr_wid (fs_desc fs) = 2 then bo_put16le p off (ucast (v AND 0xFFFF))
      else bo_put32 (d_bo (fs_desc fs)) p off v)"

definition fb_free_off :: "bool \<Rightarrow> nat" where
  "fb_free_off pack4 = (if pack4 then 4 else 2)"

definition v7_chain_free_off :: "filsys_edition \<Rightarrow> nat" where
  "v7_chain_free_off fs =
     (if d_df_nfree_wid (fs_desc fs) = 4 then 4 else fb_free_off (d_pack4 (fs_desc fs)))"

definition v7_ind_get :: "filsys_edition \<Rightarrow> byte list \<Rightarrow> nat \<Rightarrow> u32" where
  "v7_ind_get fs p i =
     (if d_daddr_wid (fs_desc fs) = 2 then ucast (bo_get16le p (2 * i))
      else bo_get32 (d_bo (fs_desc fs)) p (4 * i))"

definition v7_ind_put :: "filsys_edition \<Rightarrow> byte list \<Rightarrow> nat \<Rightarrow> u32 \<Rightarrow> byte list" where
  "v7_ind_put fs p i v =
     (if d_daddr_wid (fs_desc fs) = 2 then bo_put16le p (2 * i) (ucast (v AND 0xFFFF))
      else bo_put32 (d_bo (fs_desc fs)) p (4 * i) v)"

text \<open>
  The level of an address slot: -1 direct, 0 single indirect, 1 double, 2 triple.  Under the
  large-file bit of V6, V1 and the PDP-7 the slots are reinterpreted.
\<close>

definition filsys_slot_level :: "filsys_edition \<Rightarrow> u32 \<Rightarrow> nat \<Rightarrow> int" where
  "filsys_slot_level fs mode slot =
     (let d = fs_desc fs in
      if d_ilarg_mask d \<noteq> 0 \<and> mode AND d_ilarg_mask d \<noteq> 0
      then (if slot < d_large_single d then 0
            else if slot < d_large_single d + d_large_double d then 1
            else -1)
      else if slot < d_ndaddr d then -1
      else int slot - int (d_ndaddr d))"

section \<open>The byte-slice transport\<close>

text \<open>
  \<^verbatim>\<open>pread\<close> of a range that is not inside the file comes back short, and so do the
  reads the host fails; both are \<open>EIO\<close>.  A short \<^verbatim>\<open>pwrite\<close> has transferred a prefix.
\<close>

definition io_file_read :: "filsys_edition \<Rightarrow> nat \<Rightarrow> nat \<Rightarrow> errno + byte list" where
  "io_file_read fs n off =
     (let h = fs_host fs in
      if off + n \<le> h_len h \<and> \<not> h_rd_err h off n then Inr (img_read (h_img h) off n)
      else Inl EIO)"

definition host_write :: "host \<Rightarrow> byte list \<Rightarrow> nat \<Rightarrow> host" where
  "host_write h bs off =
     h\<lparr>h_img := img_write (h_img h) off bs, h_len := max (h_len h) (off + length bs),
       h_nwr := Suc (h_nwr h), h_wlog := h_wlog h @ [(off, bs)]\<rparr>"

definition io_file_write :: "filsys_edition \<Rightarrow> byte list \<Rightarrow> nat \<Rightarrow> unit op" where
  "io_file_write fs bs off =
     (let h = fs_host fs;
          r = (case h_wr_short h (h_nwr h) of None \<Rightarrow> length bs | Some j \<Rightarrow> min j (length bs))
      in (if r = length bs then Inr () else Inl EIO,
          fs\<lparr>fs_host := host_write h (take r bs) off\<rparr>))"

definition filsys_check_range :: "filsys_edition \<Rightarrow> nat \<Rightarrow> nat \<Rightarrow> bool" where
  "filsys_check_range fs off n \<longleftrightarrow>
     fs_imgsize fs = 0 \<or> (off \<le> fs_imgsize fs \<and> n \<le> fs_imgsize fs - off)"

end
