(* ===== verification/Block_IO.thy ===== *)
theory Block_IO
  imports Engine
begin

text \<open>
  Block access of the V7 engine (\<^verbatim>\<open>v7fs_read_block\<close>, \<^verbatim>\<open>v7fs_write_block\<close>):
  the range check against the image size, the read-only guard and the transport.  The
  locale \<open>block_device\<close> is the contract the allocators and the block tree rely on; the
  V7 engine's block layer is an interpretation of it.
\<close>

section \<open>Operations\<close>

definition blk_off :: "filsys_edition \<Rightarrow> u32 \<Rightarrow> nat" where
  "blk_off fs bno = fs_base fs + unat bno * d_bsize (fs_desc fs)"

definition v7fs_read_block :: "filsys_edition \<Rightarrow> u32 \<Rightarrow> errno + byte list" where
  "v7fs_read_block fs bno =
     (let off = blk_off fs bno in
      if \<not> filsys_check_range fs off (d_bsize (fs_desc fs)) then Inl EINVAL
      else io_file_read fs (d_bsize (fs_desc fs)) off)"

definition v7fs_write_block :: "filsys_edition \<Rightarrow> u32 \<Rightarrow> byte list \<Rightarrow> unit op" where
  "v7fs_write_block fs bno buf =
     (if fs_readonly fs then (Inl EROFS, fs)
      else let off = blk_off fs bno in
        if \<not> filsys_check_range fs off (d_bsize (fs_desc fs)) then (Inl EINVAL, fs)
        else io_file_write fs (take (d_bsize (fs_desc fs)) buf) off)"

lemma take_min_length [simp]: "take (min (length xs) n) xs = take n xs" "take (min n (length xs)) xs = take n xs"
  by (auto simp: min_def)

section \<open>The fault-free host\<close>

text \<open>
  A host that neither fails a read nor cuts a write short, holding an image at least as long
  as the size the mount recorded when it opened it.
\<close>

definition host_ok :: "filsys_edition \<Rightarrow> bool" where
  "host_ok fs \<longleftrightarrow> (\<forall>off n. \<not> h_rd_err (fs_host fs) off n) \<and>
     (\<forall>k. h_wr_short (fs_host fs) k = None) \<and>
     0 < fs_imgsize fs \<and> fs_imgsize fs \<le> h_len (fs_host fs)"

definition blk_in_image :: "filsys_edition \<Rightarrow> u32 \<Rightarrow> bool" where
  "blk_in_image fs bno \<longleftrightarrow> blk_off fs bno + d_bsize (fs_desc fs) \<le> fs_imgsize fs"

text \<open>The contents of a block, and the mount after a block has been stored.\<close>

definition blk_data :: "filsys_edition \<Rightarrow> u32 \<Rightarrow> byte list" where
  "blk_data fs bno = img_read (h_img (fs_host fs)) (blk_off fs bno) (d_bsize (fs_desc fs))"

definition blk_store :: "filsys_edition \<Rightarrow> u32 \<Rightarrow> byte list \<Rightarrow> filsys_edition" where
  "blk_store fs bno buf =
     fs\<lparr>fs_host := host_write (fs_host fs) (take (d_bsize (fs_desc fs)) buf) (blk_off fs bno)\<rparr>"

lemma check_range_iff [simp]:
  "0 < fs_imgsize fs \<Longrightarrow> filsys_check_range fs off n \<longleftrightarrow> off + n \<le> fs_imgsize fs"
  by (auto simp: filsys_check_range_def)

lemma read_block_ok:
  "host_ok fs \<Longrightarrow> blk_in_image fs bno \<Longrightarrow> v7fs_read_block fs bno = Inr (blk_data fs bno)"
  by (simp add: v7fs_read_block_def host_ok_def blk_in_image_def io_file_read_def blk_data_def
      Let_def)

lemma read_block_outside:
  "host_ok fs \<Longrightarrow> \<not> blk_in_image fs bno \<Longrightarrow> v7fs_read_block fs bno = Inl EINVAL"
  by (simp add: v7fs_read_block_def host_ok_def blk_in_image_def Let_def)

lemma write_block_ok:
  "host_ok fs \<Longrightarrow> blk_in_image fs bno \<Longrightarrow> \<not> fs_readonly fs \<Longrightarrow>
   v7fs_write_block fs bno buf = (Inr (), blk_store fs bno buf)"
  by (simp add: take_min_length v7fs_write_block_def host_ok_def blk_in_image_def io_file_write_def blk_store_def
      Let_def)

lemma write_block_outside:
  "host_ok fs \<Longrightarrow> \<not> blk_in_image fs bno \<Longrightarrow> \<not> fs_readonly fs \<Longrightarrow>
   v7fs_write_block fs bno buf = (Inl EINVAL, fs)"
  by (simp add: v7fs_write_block_def host_ok_def blk_in_image_def Let_def)

lemma write_block_readonly [simp]:
  "fs_readonly fs \<Longrightarrow> v7fs_write_block fs bno buf = (Inl EROFS, fs)"
  by (simp add: v7fs_write_block_def)

section \<open>What a store changes\<close>

lemma blk_store_fields [simp]:
  "fs_desc (blk_store fs b buf) = fs_desc fs"
  "fs_readonly (blk_store fs b buf) = fs_readonly fs"
  "fs_base (blk_store fs b buf) = fs_base fs"
  "fs_imgsize (blk_store fs b buf) = fs_imgsize fs"
  "fs_isize (blk_store fs b buf) = fs_isize fs"
  "fs_fsize (blk_store fs b buf) = fs_fsize fs"
  "fs_maxino (blk_store fs b buf) = fs_maxino fs"
  "fs_freelist (blk_store fs b buf) = fs_freelist fs"
  "fs_fl (blk_store fs b buf) = fs_fl fs"
  "fs_bm (blk_store fs b buf) = fs_bm fs"
  "fs_fmod (blk_store fs b buf) = fs_fmod fs"
  "fs_fl_dirty (blk_store fs b buf) = fs_fl_dirty fs"
  "v8_bits (blk_store fs b buf) = v8_bits fs"
  "v8_nbits (blk_store fs b buf) = v8_nbits fs"
  "v8_base (blk_store fs b buf) = v8_base fs"
  "v8_nblks (blk_store fs b buf) = v8_nblks fs"
  "v8_blk_start (blk_store fs b buf) = v8_blk_start fs"
  by (simp_all add: blk_store_def)

lemma blk_off_store [simp]: "blk_off (blk_store fs b buf) c = blk_off fs c"
  by (simp add: blk_off_def)

lemma blk_in_image_store [simp]: "blk_in_image (blk_store fs b buf) c = blk_in_image fs c"
  by (simp add: blk_in_image_def)

lemma host_ok_store [simp]: "host_ok (blk_store fs b buf)" if "blk_in_image fs b" "host_ok fs"
proof -
  have "blk_off fs b + min (length buf) (d_bsize (fs_desc fs)) \<le> fs_imgsize fs"
    using that by (auto simp: blk_in_image_def)
  with that show ?thesis
    by (auto simp: host_ok_def blk_store_def host_write_def)
qed

lemma blk_data_store_same [simp]:
  "length buf = d_bsize (fs_desc fs) \<Longrightarrow> blk_data (blk_store fs b buf) b = buf"
  by (simp add: blk_data_def) (simp add: blk_store_def host_write_def img_simps)

text \<open>Distinct blocks do not overlap, so a store is seen at its own block only.\<close>

lemma blk_data_store_other [simp]:
  assumes "c \<noteq> b"
  shows "blk_data (blk_store fs b buf) c = blk_data fs c"
proof -
  have "unat c \<noteq> unat b" using assms by (simp add: word_unat_eq_iff)
  from aligned_disjoint [OF this, of "d_bsize (fs_desc fs)"]
  have "blk_off fs c + d_bsize (fs_desc fs) \<le> blk_off fs b \<or>
        blk_off fs b + length (take (d_bsize (fs_desc fs)) buf) \<le> blk_off fs c"
    by (auto simp: blk_off_def)
  then show ?thesis
    by (simp add: blk_data_def) (simp add: blk_store_def host_write_def img_simps)
qed

lemma length_blk_data [simp]: "length (blk_data fs b) = d_bsize (fs_desc fs)"
  by (simp add: blk_data_def)

lemma wlog_blk_store [simp]:
  "h_wlog (fs_host (blk_store fs b buf)) =
     h_wlog (fs_host fs) @ [(blk_off fs b, take (d_bsize (fs_desc fs)) buf)]"
  by (simp add: blk_store_def host_write_def)

section \<open>Writes stay inside the image\<close>

text \<open>
  Whatever the host does, a block write changes bytes of its own block only, and only bytes
  inside the recorded image.
\<close>

lemma io_file_write_state:
  "\<exists>j. snd (io_file_write fs bs off) = fs\<lparr>fs_host := host_write (fs_host fs) (take j bs) off\<rparr>"
  unfolding io_file_write_def Let_def snd_conv by blast

lemma write_block_cases:
  "v7fs_write_block fs bno buf = (r, fs') \<Longrightarrow>
     fs' = fs \<or>
     (\<exists>j. fs' = fs\<lparr>fs_host := host_write (fs_host fs) (take j (take (d_bsize (fs_desc fs)) buf)) (blk_off fs bno)\<rparr>
        \<and> \<not> fs_readonly fs \<and> filsys_check_range fs (blk_off fs bno) (d_bsize (fs_desc fs)))"
  using io_file_write_state [of fs "take (d_bsize (fs_desc fs)) buf" "blk_off fs bno"]
  by (auto simp: v7fs_write_block_def Let_def split: if_splits)

lemma host_write_outside:
  "a < off \<or> off + length bs \<le> a \<Longrightarrow> h_img (host_write h bs off) a = h_img h a"
  by (simp add: host_write_def img_write_outside)

lemma write_block_frame:
  assumes "v7fs_write_block fs bno buf = (r, fs')"
    and "a < blk_off fs bno \<or> blk_off fs bno + d_bsize (fs_desc fs) \<le> a"
  shows "h_img (fs_host fs') a = h_img (fs_host fs) a"
  using write_block_cases [OF assms(1)] assms(2)
  by (auto intro!: host_write_outside)

lemma write_block_inside:
  assumes "v7fs_write_block fs bno buf = (r, fs')" and "0 < fs_imgsize fs" and "fs_imgsize fs \<le> a"
  shows "h_img (fs_host fs') a = h_img (fs_host fs) a"
  using write_block_cases [OF assms(1)] assms(2,3)
  by (auto intro!: host_write_outside)

lemma write_block_keeps [frame_simps]:
  assumes "v7fs_write_block fs bno buf = (r, fs')"
  shows "fs_desc fs' = fs_desc fs" "fs_readonly fs' = fs_readonly fs" "fs_fl fs' = fs_fl fs"
    "fs_imgsize fs' = fs_imgsize fs" "fs_base fs' = fs_base fs" "fs_bm fs' = fs_bm fs"
  using write_block_cases [OF assms] by auto

end
