(* ===== verification/Superblock.thy ===== *)
theory Superblock
  imports Block_IO
begin

text \<open>
  Superblock persistence: the field offsets of \<^verbatim>\<open>v7fs.h\<close>, the three superblock
  layouts (V6, the V7 family, the rearranged V8 family), \<^verbatim>\<open>v7fs_super_write\<close>, the
  V8-family bitmap load and flush of \<^verbatim>\<open>alloc_v8bitmap.c\<close>, and the flush, sync and
  clean/dirty transitions of \<^verbatim>\<open>v7fs.c\<close>.  The decoders are the parts of
  \<^verbatim>\<open>v7fs_open\<close> that read the same bytes back.
\<close>

section \<open>Field offsets\<close>

definition sb_fsize_off :: "bool \<Rightarrow> nat" where
  "sb_fsize_off pack4 = (if pack4 then 4 else 2)"

definition sb_nfree_off :: "bool \<Rightarrow> nat" where
  "sb_nfree_off pack4 = (if pack4 then 8 else 6)"

definition sb_free_off :: "bool \<Rightarrow> nat" where
  "sb_free_off pack4 = (if pack4 then 12 else 8)"

definition sb_ninode_off :: "bool \<Rightarrow> nat \<Rightarrow> nat" where
  "sb_ninode_off pack4 nicfree = sb_free_off pack4 + 4 * nicfree"

definition sb_inode_off :: "bool \<Rightarrow> nat \<Rightarrow> nat" where
  "sb_inode_off pack4 nicfree = sb_ninode_off pack4 nicfree + 2"

definition sb_time_off :: "bool \<Rightarrow> nat \<Rightarrow> nat" where
  "sb_time_off pack4 nicfree = sb_inode_off pack4 nicfree + 2 * 100 + 4 + (if pack4 then 2 else 0)"

definition sb_tfree_off :: "bool \<Rightarrow> nat \<Rightarrow> bool \<Rightarrow> nat" where
  "sb_tfree_off pack4 nicfree has_dinfo = sb_time_off pack4 nicfree + 4 + (if has_dinfo then 8 else 0)"

lemmas sb_off_defs = sb_fsize_off_def sb_nfree_off_def sb_free_off_def sb_ninode_off_def
  sb_inode_off_def sb_time_off_def sb_tfree_off_def

section \<open>The V6 layout\<close>

definition v6_super_encode :: "filsys_edition \<Rightarrow> byte list \<Rightarrow> byte list" where
  "v6_super_encode fs sb =
     (let d = fs_desc fs; bo = d_bo d; fl = fs_fl fs;
          sb = bo_put16 bo sb 0 (fs_isize fs);
          sb = bo_put16 bo sb 2 (ucast (fs_fsize fs));
          sb = bo_put16 bo sb 4 (nfree fl);
          sb = put_array (bo_put16 bo) 2 sb 6 (map ucast (take (d_nicfree d) (free_cache fl)));
          sb = bo_put16 bo sb 206 (ninode fl);
          sb = put_array (bo_put16 bo) 2 sb 208 (take (d_nicinod d) (inode_cache fl));
          sb = bo_put32 bo sb 412 (h_now (fs_host fs))
      in sb[410 := (if fs_fmod fs \<noteq> 0 then 1 else 0)])"

definition v6_super_decode :: "filsys_edition \<Rightarrow> byte list \<Rightarrow> filsys_edition" where
  "v6_super_decode fs sb =
     (let d = fs_desc fs; bo = d_bo d in
      fs\<lparr>fs_isize := bo_get16 bo sb 0,
         fs_fsize := ucast (bo_get16 bo sb 2),
         fs_fl := (fs_fl fs)\<lparr>
           nfree := bo_get16 bo sb 4,
           free_cache := map ucast (get_array (bo_get16 bo) 2 sb 6 (d_nicfree d)),
           ninode := bo_get16 bo sb 206,
           inode_cache := get_array (bo_get16 bo) 2 sb 208 (d_nicinod d)\<rparr>,
         fs_time := bo_get32 bo sb 412,
         fs_fmod := unat (sb ! 410)\<rparr>)"

section \<open>The V7-family layout\<close>

definition v7_super_core :: "filsys_edition \<Rightarrow> byte list \<Rightarrow> byte list" where
  "v7_super_core fs sb =
     (let d = fs_desc fs; bo = d_bo d; p4 = d_pack4 d; nf = d_nicfree d; fl = fs_fl fs;
          tm = sb_time_off p4 nf;
          sb = bo_put16 bo sb 0 (fs_isize fs);
          sb = bo_put32 bo sb (sb_fsize_off p4) (fs_fsize fs);
          sb = bo_put16 bo sb (sb_nfree_off p4) (nfree fl);
          sb = put_array (bo_put32 bo) 4 sb (sb_free_off p4) (take nf (free_cache fl));
          sb = bo_put16 bo sb (sb_ninode_off p4 nf) (ninode fl);
          sb = put_array (bo_put16 bo) 2 sb (sb_inode_off p4 nf) (take 100 (inode_cache fl));
          sb = bo_put32 bo sb tm (h_now (fs_host fs))
      in sb[tm - d_fmod_back d := (if fs_fmod fs \<noteq> 0 then 1 else 0)])"

definition v7_super_tail :: "filsys_edition \<Rightarrow> byte list \<Rightarrow> byte list" where
  "v7_super_tail fs sb =
     (let d = fs_desc fs; bo = d_bo d; p4 = d_pack4 d; nf = d_nicfree d; fl = fs_fl fs;
          toff = sb_tfree_off p4 nf (d_has_dinfo d); tm = sb_time_off p4 nf;
          sb = (if d_has_state d
                then bo_put32 bo sb 500 (if fs_fmod fs \<noteq> 0 then 0x5e72d81a else 0x7c269d38)
                else sb);
          sb = (if \<not> p4 \<or> d_magic d \<noteq> 0
                then bo_put16 bo (bo_put32 bo sb toff (tfree fl)) (toff + 4) (ucast (tinode fl))
                else sb)
      in if d_interleave d
         then bo_put32 bo (bo_put16 bo (bo_put16 bo sb (tm + 10) (fs_m fs)) (tm + 12) (fs_n fs))
                (tm + 26) (fs_unique fs)
         else sb)"

definition v7_super_encode :: "filsys_edition \<Rightarrow> byte list \<Rightarrow> byte list" where
  "v7_super_encode fs sb = v7_super_tail fs (v7_super_core fs sb)"

definition v7_super_decode :: "filsys_edition \<Rightarrow> byte list \<Rightarrow> filsys_edition" where
  "v7_super_decode fs sb =
     (let d = fs_desc fs; bo = d_bo d; p4 = d_pack4 d; nf = d_nicfree d in
      fs\<lparr>fs_isize := bo_get16 bo sb 0,
         fs_fsize := bo_get32 bo sb (sb_fsize_off p4),
         fs_fl := (fs_fl fs)\<lparr>
           nfree := bo_get16 bo sb (sb_nfree_off p4),
           free_cache := get_array (bo_get32 bo) 4 sb (sb_free_off p4) nf,
           ninode := bo_get16 bo sb (sb_ninode_off p4 nf),
           inode_cache := get_array (bo_get16 bo) 2 sb (sb_inode_off p4 nf) 100\<rparr>,
         fs_time := bo_get32 bo sb (sb_time_off p4 nf),
         fs_fmod := unat (sb ! (sb_time_off p4 nf - d_fmod_back d))\<rparr>)"

text \<open>The totals and Coherent's interleave pair, read after the cache counts are checked.\<close>

definition v7_totals_decode :: "filsys_edition \<Rightarrow> byte list \<Rightarrow> filsys_edition" where
  "v7_totals_decode fs sb =
     (let d = fs_desc fs; toff = sb_tfree_off (d_pack4 d) (d_nicfree d) (d_has_dinfo d) in
      fs\<lparr>fs_fl := (fs_fl fs)\<lparr>tfree := bo_get32 (d_bo d) sb toff,
                             tinode := ucast (bo_get16 (d_bo d) sb (toff + 4))\<rparr>\<rparr>)"

definition v7_interleave_decode :: "filsys_edition \<Rightarrow> byte list \<Rightarrow> filsys_edition" where
  "v7_interleave_decode fs sb =
     (let d = fs_desc fs; tm = sb_time_off (d_pack4 d) (d_nicfree d) in
      if d_interleave d
      then fs\<lparr>fs_m := bo_get16 (d_bo d) sb (tm + 10), fs_n := bo_get16 (d_bo d) sb (tm + 12),
              fs_unique := bo_get32 (d_bo d) sb (tm + 26)\<rparr>
      else fs)"

section \<open>The V8-family layout\<close>

definition v8_sb_decode :: "filsys_edition \<Rightarrow> byte list \<Rightarrow> unit op" where
  "v8_sb_decode fs sb =
     (let d = fs_desc fs; bo = d_bo d;
          fs = fs\<lparr>fs_isize := bo_get16 bo sb 0,
                  fs_fsize := bo_get32 bo sb 4,
                  fs_fl := (fs_fl fs)\<lparr>
                    ninode := bo_get16 bo sb 8,
                    inode_cache := get_array (bo_get16 bo) 2 sb 10 100,
                    tfree := bo_get32 bo sb 220,
                    tinode := ucast (bo_get16 bo sb 224)\<rparr>,
                  fs_time := bo_get32 bo sb 216,
                  fs_fmod := unat (sb ! 212)\<rparr>;
          fs = (if d_freemap d = Freemap_list
                then fs\<lparr>fs_fl := (fs_fl fs)\<lparr>nfree := bo_get16 bo sb 248,
                           free_cache := get_array (bo_get32 bo) 4 sb 252 (d_nicfree d)\<rparr>\<rparr>
                else fs\<lparr>fs_fl := (fs_fl fs)\<lparr>nfree := 0\<rparr>\<rparr>)
      in (if unat (nfree (fs_fl fs)) > d_nicfree d \<or> unat (ninode (fs_fl fs)) > d_nicinod d
          then Inl EINVAL else Inr (), fs))"

text \<open>One longword of the in-superblock bitmap: bit \<open>b\<close> of word \<open>w\<close> is block \<open>32 w + b\<close>.\<close>

definition v8_bits_word :: "filsys_edition \<Rightarrow> nat \<Rightarrow> u32" where
  "v8_bits_word fs w =
     foldl (\<lambda>word b. if w * 32 + b < unat (v8_nbits fs) \<and> bm_test (v8_bits fs) (w * 32 + b)
                     then word OR push_bit b 1 else word) 0 [0..<32]"

definition v8_sb_encode :: "filsys_edition \<Rightarrow> byte list \<Rightarrow> byte list" where
  "v8_sb_encode fs sb =
     (let d = fs_desc fs; bo = d_bo d; fl = fs_fl fs;
          sb = bo_put16 bo sb 0 (fs_isize fs);
          sb = bo_put32 bo sb 4 (fs_fsize fs);
          sb = bo_put16 bo sb 8 (ninode fl);
          sb = put_array (bo_put16 bo) 2 sb 10 (take 100 (inode_cache fl));
          sb = bo_put32 bo sb 216 (h_now (fs_host fs));
          sb = sb[212 := (if fs_fmod fs \<noteq> 0 then 1 else 0)];
          sb = bo_put32 bo sb 220 (tfree fl);
          sb = bo_put16 bo sb 224 (ucast (tinode fl))
      in case d_freemap d of
           Freemap_list \<Rightarrow>
             put_array (bo_put32 bo) 4 (bo_put16 bo sb 248 (nfree fl)) 252
               (take (d_nicfree d) (free_cache fl))
         | Freemap_bitmap \<Rightarrow>
             put_array (bo_put32 bo) 4 (sb[248 := 1]) 252 (map (v8_bits_word fs) [0..<961])
         | Freemap_bigmap \<Rightarrow>
             bo_put32 bo (sb[248 := 1, 249 := 1]) 252 (of_nat (d_bsize d * 8)))"

section \<open>Writing the superblock\<close>

text \<open>System V keeps a 512-byte superblock at byte 512 whatever the block size is.\<close>

definition super_read :: "filsys_edition \<Rightarrow> errno + byte list" where
  "super_read fs =
     (if d_dyn_bsize (fs_desc fs) then io_file_read fs 512 (512 + fs_base fs)
      else v7fs_read_block fs 1)"

definition super_store :: "filsys_edition \<Rightarrow> byte list \<Rightarrow> unit op" where
  "super_store fs sb =
     (if d_dyn_bsize (fs_desc fs) then io_file_write fs (take 512 sb) (512 + fs_base fs)
      else v7fs_write_block fs 1 sb)"

definition super_encode :: "filsys_edition \<Rightarrow> byte list \<Rightarrow> byte list" where
  "super_encode fs sb =
     (if d_sb_codec (fs_desc fs) then v8_sb_encode fs sb
      else if d_isize_count (fs_desc fs) then v6_super_encode fs sb
      else v7_super_encode fs sb)"

definition v7fs_super_write :: "filsys_edition \<Rightarrow> unit op" where
  "v7fs_super_write fs =
     (if fs_readonly fs then (Inr (), fs)
      else case super_read fs of
        Inl _ \<Rightarrow> (Inl EIO, fs)
      | Inr sb \<Rightarrow> try_as EIO (super_store fs (super_encode fs sb))
          (\<lambda>_ fs. (Inr (), fs\<lparr>fs_fl_dirty := False\<rparr>)))"

section \<open>The out-of-superblock bitmap and the flush\<close>

text \<open>The bytes of bitmap block \<open>k\<close>: a full block, or the tail of the map in the last one.\<close>

definition v8_blk_nbytes :: "filsys_edition \<Rightarrow> nat \<Rightarrow> nat" where
  "v8_blk_nbytes fs k =
     (if k = unat (v8_nblks fs - 1)
      then unat ((v8_nbits fs - of_nat k * of_nat (d_bsize (fs_desc fs)) * 8 + 7) div 8)
      else d_bsize (fs_desc fs))"

definition v8_blk_image :: "filsys_edition \<Rightarrow> nat \<Rightarrow> byte list" where
  "v8_blk_image fs k =
     (let bs = d_bsize (fs_desc fs); part = take (v8_blk_nbytes fs k) (drop (k * bs) (v8_bits fs))
      in part @ replicate (bs - length part) 0)"

fun v8_write_map :: "filsys_edition \<Rightarrow> nat list \<Rightarrow> unit op" where
  "v8_write_map fs [] = (Inr (), fs)"
| "v8_write_map fs (k # ks) =
     try_as EIO (v7fs_write_block fs (v8_blk_start fs + of_nat k) (v8_blk_image fs k))
       (\<lambda>_ fs. v8_write_map fs ks)"

definition v8_bitmap_sync :: "filsys_edition \<Rightarrow> unit op" where
  "v8_bitmap_sync fs =
     (if fs_readonly fs then (Inr (), fs)
      else if d_freemap (fs_desc fs) = Freemap_bigmap
      then try_op (v8_write_map fs [0..<unat (v8_nblks fs)]) (\<lambda>_ fs. v7fs_super_write fs)
      else v7fs_super_write fs)"

definition flush_fs :: "filsys_edition \<Rightarrow> unit op" where
  "flush_fs fs =
     (if d_freemap (fs_desc fs) \<noteq> Freemap_list then v8_bitmap_sync fs else v7fs_super_write fs)"

definition v7fs_sync :: "filsys_edition \<Rightarrow> unit op" where
  "v7fs_sync fs = (if fs_readonly fs then (Inr (), fs) else flush_fs fs)"

definition v7fs_mark_dirty :: "filsys_edition \<Rightarrow> unit op" where
  "v7fs_mark_dirty fs = (if fs_readonly fs then (Inr (), fs) else flush_fs (fs\<lparr>fs_fmod := 1\<rparr>))"

definition v7fs_mark_clean :: "filsys_edition \<Rightarrow> unit op" where
  "v7fs_mark_clean fs = (if fs_readonly fs then (Inr (), fs) else flush_fs (fs\<lparr>fs_fmod := 0\<rparr>))"

text \<open>
  \<^verbatim>\<open>v7fs_close\<close> on an open mount; closing the descriptor and releasing the map do not
  touch the image.
\<close>

definition v7fs_close :: "filsys_edition \<Rightarrow> unit op" where
  "v7fs_close fs =
     (let (rc, fs) = (if fs_readonly fs then (Inr (), fs) else flush_fs fs)
      in (rc, fs\<lparr>v8_bits := []\<rparr>))"

section \<open>Loading the bitmap\<close>

definition v8_load_word :: "u32 \<Rightarrow> u32 \<Rightarrow> nat \<Rightarrow> byte list \<Rightarrow> byte list" where
  "v8_load_word nbits word w bits =
     foldl (\<lambda>bits b. if w * 32 + b < unat nbits \<and> bit word b then bm_set bits (w * 32 + b) else bits)
       bits [0..<32]"

fun v8_load_words :: "filsys_edition \<Rightarrow> byte list \<Rightarrow> nat list \<Rightarrow> byte list \<Rightarrow> byte list" where
  "v8_load_words fs sb [] bits = bits"
| "v8_load_words fs sb (w # ws) bits =
     v8_load_words fs sb ws
       (v8_load_word (v8_nbits fs) (bo_get32 (d_bo (fs_desc fs)) sb (252 + 4 * w)) w bits)"

text \<open>\<^verbatim>\<open>memcpy(fs->v8_bits + k * bsize, blk, nbytes)\<close>\<close>

definition memcpy_at :: "byte list \<Rightarrow> nat \<Rightarrow> byte list \<Rightarrow> byte list" where
  "memcpy_at xs off ys = take off xs @ ys @ drop (off + length ys) xs"

fun v8_load_blocks :: "filsys_edition \<Rightarrow> nat list \<Rightarrow> byte list \<Rightarrow> errno + byte list" where
  "v8_load_blocks fs [] bits = Inr bits"
| "v8_load_blocks fs (k # ks) bits =
     (case v7fs_read_block fs (v8_blk_start fs + of_nat k) of
        Inl _ \<Rightarrow> Inl EIO
      | Inr blk \<Rightarrow> v8_load_blocks fs ks
          (memcpy_at bits (k * d_bsize (fs_desc fs)) (take (v8_blk_nbytes fs k) blk)))"

definition v8_map_geometry :: "filsys_edition \<Rightarrow> filsys_edition" where
  "v8_map_geometry fs =
     (if d_freemap (fs_desc fs) = Freemap_bigmap
      then let bpb = of_nat (d_bsize (fs_desc fs) * 8);
               nb = (fs_fsize fs + bpb - 1) div bpb
           in fs\<lparr>v8_base := 0, v8_nbits := fs_fsize fs, v8_nblks := nb,
                 v8_blk_start := fs_fsize fs - nb\<rparr>
      else fs\<lparr>v8_base := ucast (fs_isize fs), v8_nbits := fs_fsize fs - ucast (fs_isize fs),
              v8_nblks := 0\<rparr>)"

definition v8_bitmap_load :: "filsys_edition \<Rightarrow> byte list \<Rightarrow> unit op" where
  "v8_bitmap_load fs sb =
     (let fs = v8_map_geometry fs; n = unat ((v8_nbits fs + 7)) div 8 in
      if d_freemap (fs_desc fs) \<noteq> Freemap_bigmap \<and> v8_nbits fs > 30752 then (Inl E2BIG, fs)
      else if \<not> h_alloc (fs_host fs) n then (Inl ENOMEM, fs\<lparr>v8_bits := []\<rparr>)
      else if d_freemap (fs_desc fs) = Freemap_bitmap
      then (Inr (), fs\<lparr>v8_bits :=
              v8_load_words fs sb [0..<unat ((v8_nbits fs + 31) div 32)] (replicate n 0)\<rparr>)
      else case v8_load_blocks fs [0..<unat (v8_nblks fs)] (replicate n 0) of
        Inl e \<Rightarrow> (Inl e, fs)
      | Inr bits \<Rightarrow> (Inr (), fs\<lparr>v8_bits := bits\<rparr>))"

section \<open>Round trips of the layouts\<close>

text \<open>
  The in-core caches have the depths the descriptor names, and the fields of the layout fit
  the superblock without overlapping.
\<close>

definition caches_wf :: "filsys_edition \<Rightarrow> bool" where
  "caches_wf fs \<longleftrightarrow> length (free_cache (fs_fl fs)) = d_nicfree (fs_desc fs) \<and>
     length (inode_cache (fs_fl fs)) = d_nicinod (fs_desc fs)"

definition v7_layout :: "filsys_desc \<Rightarrow> nat \<Rightarrow> bool" where
  "v7_layout d n \<longleftrightarrow>
     (let toff = sb_tfree_off (d_pack4 d) (d_nicfree d) (d_has_dinfo d) in
      d_nicinod d = 100 \<and> toff + 6 \<le> n \<and> 1 \<le> d_fmod_back d \<and> d_fmod_back d \<le> 4 \<and>
      (d_has_state d \<longrightarrow> toff + 6 \<le> 500 \<and> 504 \<le> n) \<and>
      (d_interleave d \<longrightarrow> \<not> d_has_dinfo d \<and> \<not> d_has_state d \<and>
         sb_time_off (d_pack4 d) (d_nicfree d) + 30 \<le> n))"

definition fmod_flag :: "nat \<Rightarrow> nat" where
  "fmod_flag f = (if f \<noteq> 0 then 1 else 0)"

lemma length_v7_super [simp]:
  "length (v7_super_core fs sb) = length sb"
  "length (v7_super_tail fs sb) = length sb"
  by (simp_all add: v7_super_core_def v7_super_tail_def Let_def)

lemma length_super_encode [simp]:
  "length (v6_super_encode fs sb) = length sb"
  "length (v7_super_encode fs sb) = length sb"
  "length (v8_sb_encode fs sb) = length sb"
  "length (super_encode fs sb) = length sb"
  by (simp_all add: v6_super_encode_def v7_super_encode_def v8_sb_encode_def super_encode_def
      Let_def split: freemap_form.split)

text \<open>The order of the V7-family fields, independent of the packing.\<close>

lemma v7_field_order:
  "2 \<le> sb_fsize_off p4" "sb_fsize_off p4 + 4 = sb_nfree_off p4"
  "sb_nfree_off p4 + 2 \<le> sb_free_off p4" "sb_free_off p4 + 4 * nf = sb_ninode_off p4 nf"
  "sb_ninode_off p4 nf + 2 = sb_inode_off p4 nf" "sb_inode_off p4 nf + 204 \<le> sb_time_off p4 nf"
  "sb_time_off p4 nf + 4 \<le> sb_tfree_off p4 nf di"
  by (simp_all add: sb_off_defs)

lemma v7_tail_keeps:
  assumes "v7_layout (fs_desc fs) (length sb)"
    and "i < sb_time_off (d_pack4 (fs_desc fs)) (d_nicfree (fs_desc fs)) + 4"
  shows "v7_super_tail fs sb ! i = sb ! i"
proof -
  let ?tm = "sb_time_off (d_pack4 (fs_desc fs)) (d_nicfree (fs_desc fs))"
  let ?to = "sb_tfree_off (d_pack4 (fs_desc fs)) (d_nicfree (fs_desc fs)) (d_has_dinfo (fs_desc fs))"
  have "i < ?to" "d_has_state (fs_desc fs) \<Longrightarrow> i < 500" "i < ?tm + 10" "i < ?tm + 12" "i < ?tm + 26" "i < ?to + 4"
    using assms v7_field_order(7) [of "d_pack4 (fs_desc fs)" "d_nicfree (fs_desc fs)" "d_has_dinfo (fs_desc fs)"]
    by (auto simp: v7_layout_def Let_def)
  then show ?thesis
    by (simp add: v7_super_tail_def Let_def codec_simps)
qed

lemma v7_decode_cong:
  fixes fs :: filsys_edition
  defines "d \<equiv> fs_desc fs"
  assumes same: "\<And>i. i < sb_time_off (d_pack4 d) (d_nicfree d) + 4 \<Longrightarrow> p ! i = q ! i"
    and fback: "1 \<le> d_fmod_back d"
  shows "v7_super_decode fs p = v7_super_decode fs q"
proof -
  note o' = v7_field_order(1-3) [of "d_pack4 d"] v7_field_order(4-6) [of "d_pack4 d" "d_nicfree d"]
  have w16: "bo_get16 bo p a = bo_get16 bo q a" if "a + 2 \<le> sb_time_off (d_pack4 d) (d_nicfree d) + 4" for bo a
    using that same by (intro bo16.get_cong) auto
  have w32: "bo_get32 bo p a = bo_get32 bo q a" if "a + 4 \<le> sb_time_off (d_pack4 d) (d_nicfree d) + 4" for bo a
    using that same by (intro bo32.get_cong) auto
  have a16: "get_array (bo_get16 bo) 2 p a n = get_array (bo_get16 bo) 2 q a n"
    if "a + 2 * n \<le> sb_time_off (d_pack4 d) (d_nicfree d) + 4" for bo a n
    using that same by (intro bo16.get_array_cong) auto
  have a32: "get_array (bo_get32 bo) 4 p a n = get_array (bo_get32 bo) 4 q a n"
    if "a + 4 * n \<le> sb_time_off (d_pack4 d) (d_nicfree d) + 4" for bo a n
    using that same by (intro bo32.get_array_cong) auto
  have b: "p ! (sb_time_off (d_pack4 d) (d_nicfree d) - d_fmod_back d) =
           q ! (sb_time_off (d_pack4 d) (d_nicfree d) - d_fmod_back d)"
    using fback by (intro same) simp
  show ?thesis
    using o' b unfolding v7_super_decode_def Let_def d_def [symmetric]
    by (simp add: w16 w32 a16 a32)
qed

lemma v7_core_roundtrip:
  fixes fs :: filsys_edition
  defines "d \<equiv> fs_desc fs"
  assumes "sb_time_off (d_pack4 d) (d_nicfree d) + 4 \<le> length sb"
    and "1 \<le> d_fmod_back d" "d_fmod_back d \<le> 4"
    and "length (free_cache (fs_fl fs)) = d_nicfree d" "length (inode_cache (fs_fl fs)) = 100"
    and "fs_desc fs0 = d"
  shows "v7_super_decode fs0 (v7_super_core fs sb) =
    fs0\<lparr>fs_isize := fs_isize fs, fs_fsize := fs_fsize fs,
        fs_fl := (fs_fl fs0)\<lparr>nfree := nfree (fs_fl fs), free_cache := free_cache (fs_fl fs),
          ninode := ninode (fs_fl fs), inode_cache := inode_cache (fs_fl fs)\<rparr>,
        fs_time := h_now (fs_host fs), fs_fmod := fmod_flag (fs_fmod fs)\<rparr>"
proof -
  define tm where "tm = sb_time_off (d_pack4 d) (d_nicfree d)"
  define fm where "fm = tm - d_fmod_back d"
  note o' = v7_field_order(1-3) [of "d_pack4 d"]
    v7_field_order(4-6) [of "d_pack4 d" "d_nicfree d", folded tm_def]
  have fm: "sb_inode_off (d_pack4 d) (d_nicfree d) + 200 \<le> fm" "fm < tm"
    using o' assms(3,4) by (simp_all add: fm_def)
  have len: "tm + 4 \<le> length sb" "fm < length sb"
    using assms(2) fm by (simp_all add: tm_def)
  show ?thesis
    using assms(5-7) o' fm len
    unfolding v7_super_decode_def v7_super_core_def Let_def d_def [symmetric] assms(7)
      tm_def [symmetric] fm_def [symmetric]
    by (simp add: codec_simps fmod_flag_def)
qed

lemma v7_super_roundtrip:
  assumes "v7_layout (fs_desc fs) (length sb)" and "caches_wf fs" and "fs_desc fs0 = fs_desc fs"
  shows "v7_super_decode fs0 (v7_super_encode fs sb) =
    fs0\<lparr>fs_isize := fs_isize fs, fs_fsize := fs_fsize fs,
        fs_fl := (fs_fl fs0)\<lparr>nfree := nfree (fs_fl fs), free_cache := free_cache (fs_fl fs),
          ninode := ninode (fs_fl fs), inode_cache := inode_cache (fs_fl fs)\<rparr>,
        fs_time := h_now (fs_host fs), fs_fmod := fmod_flag (fs_fmod fs)\<rparr>"
proof -
  have lay: "v7_layout (fs_desc fs) (length (v7_super_core fs sb))" using assms(1) by simp
  have "v7_super_decode fs0 (v7_super_encode fs sb) = v7_super_decode fs0 (v7_super_core fs sb)"
    unfolding v7_super_encode_def
    using assms(1,3) v7_tail_keeps [OF lay] by (intro v7_decode_cong) (auto simp: v7_layout_def Let_def)
  also have "\<dots> = fs0\<lparr>fs_isize := fs_isize fs, fs_fsize := fs_fsize fs,
        fs_fl := (fs_fl fs0)\<lparr>nfree := nfree (fs_fl fs), free_cache := free_cache (fs_fl fs),
          ninode := ninode (fs_fl fs), inode_cache := inode_cache (fs_fl fs)\<rparr>,
        fs_time := h_now (fs_host fs), fs_fmod := fmod_flag (fs_fmod fs)\<rparr>"
    using assms v7_field_order(7) [of "d_pack4 (fs_desc fs)" "d_nicfree (fs_desc fs)" "d_has_dinfo (fs_desc fs)"]
    by (intro v7_core_roundtrip) (auto simp: v7_layout_def caches_wf_def Let_def)
  finally show ?thesis .
qed

lemma v7_totals_roundtrip:
  assumes "v7_layout (fs_desc fs) (length sb)" and "fs_desc fs0 = fs_desc fs"
    and "\<not> d_pack4 (fs_desc fs) \<or> d_magic (fs_desc fs) \<noteq> 0"
  shows "v7_totals_decode fs0 (v7_super_encode fs sb) =
    fs0\<lparr>fs_fl := (fs_fl fs0)\<lparr>tfree := tfree (fs_fl fs), tinode := ucast (ucast (tinode (fs_fl fs)) :: u16)\<rparr>\<rparr>"
proof -
  let ?d = "fs_desc fs"
  define tm where "tm = sb_time_off (d_pack4 ?d) (d_nicfree ?d)"
  define toff where "toff = sb_tfree_off (d_pack4 ?d) (d_nicfree ?d) (d_has_dinfo ?d)"
  have "toff = tm + 4" if "d_interleave ?d"
    using assms(1) that by (simp add: v7_layout_def Let_def toff_def tm_def sb_tfree_off_def)
  moreover have "toff + 6 \<le> length sb"
    using assms(1) by (simp add: v7_layout_def Let_def toff_def)
  ultimately show ?thesis
    using assms(2,3)
    by (cases "d_interleave ?d") (simp_all add: v7_totals_decode_def v7_super_encode_def v7_super_tail_def Let_def
        tm_def [symmetric] toff_def [symmetric] codec_simps)
qed

lemma v7_interleave_roundtrip:
  assumes "v7_layout (fs_desc fs) (length sb)" and "fs_desc fs0 = fs_desc fs" and "d_interleave (fs_desc fs)"
  shows "v7_interleave_decode fs0 (v7_super_encode fs sb) =
    fs0\<lparr>fs_m := fs_m fs, fs_n := fs_n fs, fs_unique := fs_unique fs\<rparr>"
proof -
  let ?d = "fs_desc fs"
  define tm where "tm = sb_time_off (d_pack4 ?d) (d_nicfree ?d)"
  have "tm + 30 \<le> length sb" using assms by (simp add: v7_layout_def Let_def tm_def)
  then show ?thesis
    using assms(2,3)
    by (simp add: v7_interleave_decode_def v7_super_encode_def v7_super_tail_def Let_def
        tm_def [symmetric] codec_simps)
qed

text \<open>The V6 layout stores 16-bit block numbers.\<close>

lemma v6_super_roundtrip:
  assumes "416 \<le> length sb" and "d_nicfree (fs_desc fs) = 100" "d_nicinod (fs_desc fs) = 100"
    and "caches_wf fs" and "fs_desc fs0 = fs_desc fs"
    and "fs_fsize fs < 65536" and "\<forall>b \<in> set (free_cache (fs_fl fs)). b < 65536"
  shows "v6_super_decode fs0 (v6_super_encode fs sb) =
    fs0\<lparr>fs_isize := fs_isize fs, fs_fsize := fs_fsize fs,
        fs_fl := (fs_fl fs0)\<lparr>nfree := nfree (fs_fl fs), free_cache := free_cache (fs_fl fs),
          ninode := ninode (fs_fl fs), inode_cache := inode_cache (fs_fl fs)\<rparr>,
        fs_time := h_now (fs_host fs), fs_fmod := fmod_flag (fs_fmod fs)\<rparr>"
proof -
  have low: "ucast (ucast b :: u16) = b" if "b < 65536" for b :: u32
    using that by (rule ucast_u16_id)
  have cache: "map (\<lambda>b. ucast (ucast b :: u16)) (free_cache (fs_fl fs)) = free_cache (fs_fl fs)"
    using assms(7) low by (simp add: map_idI)
  show ?thesis
    using assms(1-6) cache
    by (simp add: v6_super_decode_def v6_super_encode_def Let_def codec_simps caches_wf_def
        fmod_flag_def low o_def)
qed

lemma v8_sb_roundtrip:
  assumes "252 + 4 * d_nicfree (fs_desc fs) \<le> length sb" and "d_nicinod (fs_desc fs) = 100"
    and "caches_wf fs" and "fs_desc fs0 = fs_desc fs" and "d_freemap (fs_desc fs) = Freemap_list"
    and "unat (nfree (fs_fl fs)) \<le> d_nicfree (fs_desc fs)" "unat (ninode (fs_fl fs)) \<le> 100"
  shows "v8_sb_decode fs0 (v8_sb_encode fs sb) =
    (Inr (), fs0\<lparr>fs_isize := fs_isize fs, fs_fsize := fs_fsize fs,
        fs_fl := (fs_fl fs)\<lparr>tinode := ucast (ucast (tinode (fs_fl fs)) :: u16)\<rparr>,
        fs_time := h_now (fs_host fs), fs_fmod := fmod_flag (fs_fmod fs)\<rparr>)"
  using assms
  by (simp add: v8_sb_decode_def v8_sb_encode_def Let_def codec_simps caches_wf_def fmod_flag_def)

section \<open>The in-superblock bitmap\<close>

lemma bit_v8_bits_word:
  "bit (v8_bits_word fs w) b \<longleftrightarrow> b < 32 \<and> w * 32 + b < unat (v8_nbits fs) \<and> bm_test (v8_bits fs) (w * 32 + b)"
  by (auto simp: v8_bits_word_def bit_foldl_or simp del: upt_Suc)

lemma length_v8_load_word [simp]: "length (v8_load_word nbits word w bits) = length bits"
  by (simp add: v8_load_word_def)

lemma bm_test_v8_load_word:
  assumes "unat nbits \<le> 8 * length bits"
  shows "bm_test (v8_load_word nbits word w bits) i \<longleftrightarrow>
    bm_test bits i \<or> (i div 32 = w \<and> i < unat nbits \<and> bit word (i mod 32))"
proof -
  have "\<forall>b \<in> set [0..<32]. w * 32 + b < unat nbits \<and> bit word b \<longrightarrow> (w * 32 + b) div 8 < length bits"
    using assms by (auto simp: div_less_iff_less_mult)
  moreover have "(\<exists>b \<in> set [0..<32]. (w * 32 + b < unat nbits \<and> bit word b) \<and> w * 32 + b = i) \<longleftrightarrow>
    i div 32 = w \<and> i < unat nbits \<and> bit word (i mod 32)"
    by (auto simp: algebra_simps intro!: bexI [of _ "i mod 32"])
  ultimately show ?thesis
    unfolding v8_load_word_def by (subst bm_test_foldl_set) simp_all
qed

lemma bm_test_v8_load_words:
  assumes "unat (v8_nbits fs) \<le> 8 * length bits"
  shows "bm_test (v8_load_words fs sb ws bits) i \<longleftrightarrow>
    bm_test bits i \<or> (i div 32 \<in> set ws \<and> i < unat (v8_nbits fs) \<and>
      bit (bo_get32 (d_bo (fs_desc fs)) sb (252 + 4 * (i div 32))) (i mod 32))"
  using assms by (induction ws arbitrary: bits) (auto simp: bm_test_v8_load_word)

lemma length_v8_load_words [simp]: "length (v8_load_words fs sb ws bits) = length bits"
  by (induction ws arbitrary: bits) simp_all

lemma get_put_array_nth32:
  assumes "off + 4 * length vs \<le> length p" and "i < length vs"
  shows "bo_get32 bo (put_array (bo_put32 bo) 4 p off vs) (off + 4 * i) = vs ! i"
proof -
  have "get_array (bo_get32 bo) 4 (put_array (bo_put32 bo) 4 p off vs) off (length vs) ! i = vs ! i"
    using assms by (simp add: codec_simps)
  then show ?thesis using assms(2) by (simp add: get_array_def)
qed

text \<open>What the encoder writes for a data block is what the loader finds for it.\<close>

lemma v8_bits_roundtrip:
  assumes "4096 \<le> length sb" and "d_freemap (fs_desc fs) = Freemap_bitmap"
    and "v8_nbits fs \<le> 30752" and "fs_desc fs0 = fs_desc fs" "v8_nbits fs0 = v8_nbits fs"
    and "i < unat (v8_nbits fs)"
  shows "bm_test (v8_load_words fs0 (v8_sb_encode fs sb)
      [0..<unat ((v8_nbits fs0 + 31) div 32)] (replicate (unat (v8_nbits fs0 + 7) div 8) 0)) i
    = bm_test (v8_bits fs) i"
proof -
  let ?n = "v8_nbits fs"
  have n: "unat ?n \<le> 30752" using assms(3) by (simp add: word_le_nat_alt)
  have n7: "unat (?n + 7) = unat ?n + 7" and n31: "unat ((?n + 31) div 32) = (unat ?n + 31) div 32"
    using n by (simp_all add: unat_div unat_word_ariths)
  have cover: "unat ?n \<le> 8 * (unat (?n + 7) div 8)" unfolding n7 by linarith
  have w: "i div 32 < 961" "i div 32 < (unat ?n + 31) div 32"
    using assms(6) n by linarith+
  have i: "i div 32 * 32 + i mod 32 = i" by simp
  have "bo_get32 (d_bo (fs_desc fs)) (v8_sb_encode fs sb) (252 + 4 * (i div 32)) = v8_bits_word fs (i div 32)"
    using assms(1,2) w
    by (simp add: v8_sb_encode_def Let_def get_put_array_nth32)
  then show ?thesis
    using assms(4-6) w cover
    by (subst bm_test_v8_load_words) (simp_all add: n31 bit_v8_bits_word i bm_test_replicate0 n7)
qed

section \<open>The superblock write on a fault-free host\<close>

definition super_off :: "filsys_edition \<Rightarrow> nat" where
  "super_off fs = (if d_dyn_bsize (fs_desc fs) then 512 + fs_base fs else blk_off fs 1)"

definition super_len :: "filsys_edition \<Rightarrow> nat" where
  "super_len fs = (if d_dyn_bsize (fs_desc fs) then 512 else d_bsize (fs_desc fs))"

definition super_data :: "filsys_edition \<Rightarrow> byte list" where
  "super_data fs = img_read (h_img (fs_host fs)) (super_off fs) (super_len fs)"

definition super_in_image :: "filsys_edition \<Rightarrow> bool" where
  "super_in_image fs \<longleftrightarrow> super_off fs + super_len fs \<le> fs_imgsize fs"

text \<open>The mount after a successful superblock write.\<close>

definition super_stored :: "filsys_edition \<Rightarrow> filsys_edition" where
  "super_stored fs =
     fs\<lparr>fs_host := host_write (fs_host fs) (super_encode fs (super_data fs)) (super_off fs),
        fs_fl_dirty := False\<rparr>"

lemma length_super_data [simp]: "length (super_data fs) = super_len fs"
  by (simp add: super_data_def)

lemma super_read_ok:
  "host_ok fs \<Longrightarrow> super_in_image fs \<Longrightarrow> super_read fs = Inr (super_data fs)"
  by (cases "d_dyn_bsize (fs_desc fs)")
    (simp_all add: super_read_def super_in_image_def super_off_def super_len_def super_data_def
      host_ok_def io_file_read_def v7fs_read_block_def Let_def)

lemma super_write_ok:
  assumes "host_ok fs" "super_in_image fs" "\<not> fs_readonly fs"
  shows "v7fs_super_write fs = (Inr (), super_stored fs)"
proof -
  have "super_store fs (super_encode fs (super_data fs)) =
    (Inr (), fs\<lparr>fs_host := host_write (fs_host fs) (super_encode fs (super_data fs)) (super_off fs)\<rparr>)"
    using assms
    by (cases "d_dyn_bsize (fs_desc fs)")
      (simp_all add: super_store_def super_in_image_def super_off_def super_len_def host_ok_def
        io_file_write_def v7fs_write_block_def Let_def)
  then show ?thesis
    using assms by (simp add: v7fs_super_write_def super_read_ok super_stored_def)
qed

lemma super_stored_fields [simp]:
  "fs_desc (super_stored fs) = fs_desc fs" "fs_readonly (super_stored fs) = fs_readonly fs"
  "fs_base (super_stored fs) = fs_base fs" "fs_imgsize (super_stored fs) = fs_imgsize fs"
  "fs_isize (super_stored fs) = fs_isize fs" "fs_fsize (super_stored fs) = fs_fsize fs"
  "fs_fl (super_stored fs) = fs_fl fs" "fs_fl_dirty (super_stored fs) = False"
  "v8_bits (super_stored fs) = v8_bits fs" "v8_nbits (super_stored fs) = v8_nbits fs"
  "v8_base (super_stored fs) = v8_base fs" "fs_fmod (super_stored fs) = fs_fmod fs"
  by (simp_all add: super_stored_def)

lemma blk_off_super_stored [simp]: "blk_off (super_stored fs) b = blk_off fs b"
  by (simp add: blk_off_def)

lemma super_area_stored [simp]:
  "super_off (super_stored fs) = super_off fs" "super_len (super_stored fs) = super_len fs"
  "super_in_image (super_stored fs) = super_in_image fs"
  by (simp_all add: super_off_def super_len_def super_in_image_def)

lemma blk_in_image_super_stored [simp]: "blk_in_image (super_stored fs) b = blk_in_image fs b"
  by (simp add: blk_in_image_def)

lemma host_ok_super_stored [simp]:
  "host_ok fs \<Longrightarrow> super_in_image fs \<Longrightarrow> host_ok (super_stored fs)"
  by (auto simp: host_ok_def super_stored_def host_write_def super_in_image_def)

lemma wlog_super_stored [simp]:
  "h_wlog (fs_host (super_stored fs)) =
     h_wlog (fs_host fs) @ [(super_off fs, super_encode fs (super_data fs))]"
  by (simp add: super_stored_def host_write_def)

text \<open>The superblock area and a data block never overlap.\<close>

lemma super_blk_disjoint:
  assumes "2 \<le> b" and "512 \<le> d_bsize (fs_desc fs)"
  shows "super_off fs + super_len fs \<le> blk_off fs b"
proof -
  define q where "q = unat b * d_bsize (fs_desc fs)"
  have "2 \<le> unat b" using assms(1) by (simp add: word_le_nat_alt)
  then have "2 * d_bsize (fs_desc fs) \<le> q" unfolding q_def by (rule mult_le_mono1)
  then show ?thesis
    using assms(2) by (simp add: super_off_def super_len_def blk_off_def q_def [symmetric])
qed

lemma blk_data_super_stored [simp]:
  "2 \<le> b \<Longrightarrow> 512 \<le> d_bsize (fs_desc fs) \<Longrightarrow> blk_data (super_stored fs) b = blk_data fs b"
  using super_blk_disjoint [of b fs]
  by (simp add: blk_data_def) (simp add: super_stored_def host_write_def img_simps)

lemma super_data_stored:
  "super_data (super_stored fs) = super_encode fs (super_data fs)"
  by (simp add: super_data_def [of "super_stored fs"])
    (simp add: super_stored_def host_write_def img_simps)

text \<open>Whatever the host does, the write leaves the in-core state alone but for the dirty mark.\<close>

lemma super_store_state: "\<exists>h. snd (super_store fs sb) = fs\<lparr>fs_host := h\<rparr>"
proof (cases "d_dyn_bsize (fs_desc fs)")
  case True
  then show ?thesis
    using io_file_write_state [of fs "take 512 sb" "512 + fs_base fs"] by (auto simp: super_store_def)
next
  case False
  obtain r fs' where w: "v7fs_write_block fs 1 sb = (r, fs')" by fastforce
  have "\<exists>h. fs' = fs\<lparr>fs_host := h\<rparr>"
  proof (cases "fs' = fs")
    case True
    then have "fs' = fs\<lparr>fs_host := fs_host fs\<rparr>" by simp
    then show ?thesis by blast
  next
    case False
    then show ?thesis using write_block_cases [OF w] by blast
  qed
  then show ?thesis using False w by (simp add: super_store_def)
qed

lemma super_write_state:
  "\<exists>h d. snd (v7fs_super_write fs) = fs\<lparr>fs_host := h, fs_fl_dirty := d\<rparr>"
proof (cases "fs_readonly fs \<or> (\<exists>e. super_read fs = Inl e)")
  case True
  have "fs = fs\<lparr>fs_host := fs_host fs, fs_fl_dirty := fs_fl_dirty fs\<rparr>" by simp
  moreover have "snd (v7fs_super_write fs) = fs"
    using True by (auto simp: v7fs_super_write_def)
  ultimately show ?thesis by metis
next
  case False
  then obtain sb where sb: "super_read fs = Inr sb" "\<not> fs_readonly fs" by (cases "super_read fs") auto
  obtain h where h: "snd (super_store fs (super_encode fs sb)) = fs\<lparr>fs_host := h\<rparr>"
    using super_store_state by blast
  have keep: "fs\<lparr>fs_host := h\<rparr> = fs\<lparr>fs_host := h, fs_fl_dirty := fs_fl_dirty fs\<rparr>" by simp
  show ?thesis
  proof (cases "fst (super_store fs (super_encode fs sb))")
    case (Inl e)
    have "snd (v7fs_super_write fs) = fs\<lparr>fs_host := h\<rparr>"
      using sb Inl h by (simp add: v7fs_super_write_def snd_try_as)
    with keep show ?thesis by metis
  next
    case (Inr u)
    have "snd (v7fs_super_write fs) = fs\<lparr>fs_host := h, fs_fl_dirty := False\<rparr>"
      using sb Inr h by (simp add: v7fs_super_write_def snd_try_as)
    then show ?thesis by blast
  qed
qed

end
