(* ===== verification/Allocator.thy ===== *)
theory Allocator
  imports Prelude
begin

text \<open>
  The contract of a block allocator, the slot pair \<^verbatim>\<open>balloc\<close>/\<^verbatim>\<open>bfree\<close> of
  \<^verbatim>\<open>filsys_alloc_ops_t\<close>: a state invariant, the set of free blocks it stands for, and
  what the two operations do to that set.  The client lemmas are proved once here; the free
  list of the V7 family, the V8-family bitmap and the V1 bitmap are interpretations.
\<close>

locale block_allocator =
  fixes inv :: "'s \<Rightarrow> bool"
    and frees :: "'s \<Rightarrow> u32 set"
    and area :: "'s \<Rightarrow> u32 set"
    and balloc :: "'s \<Rightarrow> ('s, u32) outcome"
    and bfree :: "'s \<Rightarrow> u32 \<Rightarrow> 's"
  assumes frees_area: "inv s \<Longrightarrow> frees s \<subseteq> area s"
    and frees_finite: "inv s \<Longrightarrow> finite (frees s)"
    and balloc_empty: "inv s \<Longrightarrow> frees s = {} \<Longrightarrow> fst (balloc s) = Inl ENOSPC"
    and balloc_some: "inv s \<Longrightarrow> frees s \<noteq> {} \<Longrightarrow>
      \<exists>b s'. balloc s = (Inr b, s') \<and> b \<in> frees s \<and> inv s' \<and> frees s' = frees s - {b} \<and> area s' = area s"
    and bfree_free: "inv s \<Longrightarrow> b \<in> area s \<Longrightarrow> b \<notin> frees s \<Longrightarrow>
      inv (bfree s b) \<and> frees (bfree s b) = insert b (frees s) \<and> area (bfree s b) = area s"
begin

text \<open>Allocating \<open>n\<close> blocks in a row, the newest last.\<close>

fun balloc_n :: "nat \<Rightarrow> 's \<Rightarrow> ('s, u32 list) outcome" where
  "balloc_n 0 s = (Inr [], s)"
| "balloc_n (Suc n) s = try_op (balloc s) (\<lambda>b s. try_op (balloc_n n s) (\<lambda>bs s. (Inr (b # bs), s)))"

lemma balloc_success:
  assumes "inv s" and "balloc s = (Inr b, s')"
  shows "b \<in> frees s" "inv s'" "frees s' = frees s - {b}" "area s' = area s"
proof -
  have "frees s \<noteq> {}" using assms balloc_empty [of s] by auto
  from balloc_some [OF assms(1) this] assms(2)
  show "b \<in> frees s" "inv s'" "frees s' = frees s - {b}" "area s' = area s" by auto
qed

text \<open>No block is handed out twice, and exactly the free blocks can be handed out.\<close>

lemma balloc_n_distinct:
  assumes "inv s" and "balloc_n n s = (Inr bs, s')"
  shows "distinct bs \<and> length bs = n \<and> set bs \<subseteq> frees s \<and> frees s' = frees s - set bs \<and> inv s' \<and> area s' = area s"
  using assms
proof (induction n arbitrary: s bs)
  case (Suc n)
  from Suc.prems(2) obtain b s1 cs where
    1: "balloc s = (Inr b, s1)" "balloc_n n s1 = (Inr cs, s')" "bs = b # cs"
    by (auto simp: try_op_eq_Inr)
  note b = balloc_success [OF Suc.prems(1) 1(1)]
  from Suc.IH [OF b(2) 1(2)] b 1(3) show ?case by auto
qed simp

lemma balloc_n_total:
  assumes "inv s" and "n \<le> card (frees s)"
  shows "\<exists>bs s'. balloc_n n s = (Inr bs, s')"
  using assms
proof (induction n arbitrary: s)
  case (Suc n)
  then have "frees s \<noteq> {}" by auto
  from balloc_some [OF Suc.prems(1) this] obtain b s1 where
    b: "balloc s = (Inr b, s1)" "b \<in> frees s" "inv s1" "frees s1 = frees s - {b}" by blast
  then have "n \<le> card (frees s1)" using Suc.prems frees_finite [of s] by simp
  from Suc.IH [OF b(3) this] obtain cs s' where "balloc_n n s1 = (Inr cs, s')" by blast
  then show ?case using b(1) by (auto simp: try_op_eq_Inr)
qed simp

lemma balloc_n_exhausts:
  assumes "inv s" and "card (frees s) < n"
  shows "\<exists>s'. balloc_n n s = (Inl ENOSPC, s')"
  using assms
proof (induction n arbitrary: s)
  case (Suc n)
  show ?case
  proof (cases "frees s = {}")
    case True
    then show ?thesis using balloc_empty [OF Suc.prems(1)] by (cases "balloc s") auto
  next
    case False
    from balloc_some [OF Suc.prems(1) this] obtain b s1 where
      b: "balloc s = (Inr b, s1)" "b \<in> frees s" "inv s1" "frees s1 = frees s - {b}" by blast
    have "card (frees s1) < card (frees s)"
      unfolding b(4) using frees_finite [OF Suc.prems(1)] b(2) by (rule card_Diff1_less)
    then have "card (frees s1) < n" using Suc.prems(2) by simp
    with Suc.IH [OF b(3)] b(1) show ?thesis by auto
  qed
qed simp

text \<open>A freed block can be allocated again: the free set is back where it was.\<close>

lemma balloc_bfree:
  assumes "inv s" and "balloc s = (Inr b, s')"
  shows "inv (bfree s' b) \<and> frees (bfree s' b) = frees s \<and> area (bfree s' b) = area s"
proof -
  note b = balloc_success [OF assms]
  have "b \<in> area s'" using b frees_area [OF assms(1)] by auto
  with bfree_free [OF b(2), of b] b show ?thesis by auto
qed

text \<open>Releasing a list of allocated blocks, as the deferred list is drained.\<close>

lemma bfree_foldl:
  assumes "inv s" and "distinct bs" and "set bs \<subseteq> area s - frees s"
  shows "inv (foldl bfree s bs) \<and> frees (foldl bfree s bs) = frees s \<union> set bs \<and>
    area (foldl bfree s bs) = area s"
  using assms
proof (induction bs arbitrary: s)
  case (Cons b bs)
  have "inv (bfree s b) \<and> frees (bfree s b) = insert b (frees s) \<and> area (bfree s b) = area s"
    using Cons.prems by (intro bfree_free) auto
  with Cons.IH [of "bfree s b"] Cons.prems show ?case by auto
qed simp

end

end
