(* ===== verification/Alloc_V8bitmap.thy ===== *)
theory Alloc_V8bitmap
  imports Superblock Allocator
begin

text \<open>
  The V8-family bitmap allocator (\<^verbatim>\<open>alloc_v8bitmap.c\<close>): bit \<open>i\<close> of the in-core
  map is set when block \<open>v8_base + i\<close> is free.  \<^verbatim>\<open>v8_bitmap_balloc\<close> hands out the
  free block with the least number.
\<close>

section \<open>Operations\<close>

text \<open>The scan \<^verbatim>\<open>for (i = 0; i < nbits; i++) if (bit i set)\<close>: the first hit from \<open>i\<close> on.\<close>

fun bm_scan :: "byte list \<Rightarrow> nat \<Rightarrow> nat \<Rightarrow> nat option" where
  "bm_scan m i 0 = None"
| "bm_scan m i (Suc k) = (if bm_test m i then Some i else bm_scan m (Suc i) k)"

definition v8_bitmap_balloc :: "filsys_edition \<Rightarrow> u32 op" where
  "v8_bitmap_balloc fs =
     (case bm_scan (v8_bits fs) 0 (unat (v8_nbits fs)) of
        None \<Rightarrow> (Inl ENOSPC, fs)
      | Some i \<Rightarrow>
          let fs = fs\<lparr>v8_bits := bm_clear (v8_bits fs) i\<rparr>;
              blk = v8_base fs + of_nat i
          in try_as EIO (v7fs_write_block fs blk (replicate (d_bsize (fs_desc fs)) 0))
               (\<lambda>_ fs. (Inr blk,
                  fs\<lparr>fs_fl := (fs_fl fs)\<lparr>tfree := (if tfree (fs_fl fs) \<noteq> 0 then tfree (fs_fl fs) - 1
                                                     else tfree (fs_fl fs))\<rparr>,
                     fs_fl_dirty := True\<rparr>)))"

definition v8_bitmap_bfree :: "filsys_edition \<Rightarrow> u32 \<Rightarrow> filsys_edition" where
  "v8_bitmap_bfree fs bno =
     (if bno < v8_base fs \<or> v8_base fs + v8_nbits fs \<le> bno then fs
      else fs\<lparr>v8_bits := bm_set (v8_bits fs) (unat (bno - v8_base fs)),
              fs_fl := (fs_fl fs)\<lparr>tfree := tfree (fs_fl fs) + 1\<rparr>,
              fs_fl_dirty := True\<rparr>)"

section \<open>The scan\<close>

lemma bm_scan_some:
  "bm_scan m i k = Some j \<longleftrightarrow> i \<le> j \<and> j < i + k \<and> bm_test m j \<and> (\<forall>l. i \<le> l \<and> l < j \<longrightarrow> \<not> bm_test m l)"
proof (induction k arbitrary: i)
  case (Suc k)
  show ?case
  proof (cases "bm_test m i")
    case True
    then show ?thesis by (auto simp: not_less le_less)
  next
    case False
    have "(i \<le> l \<and> l < j \<longrightarrow> \<not> bm_test m l) \<longleftrightarrow> (Suc i \<le> l \<and> l < j \<longrightarrow> \<not> bm_test m l)" for l
      using False by (cases "l = i") auto
    with False Suc.IH [of "Suc i"] show ?thesis by (auto simp: Suc_le_eq le_less)
  qed
qed simp

lemma bm_scan_none: "bm_scan m i k = None \<longleftrightarrow> (\<forall>l. i \<le> l \<and> l < i + k \<longrightarrow> \<not> bm_test m l)"
proof (induction k arbitrary: i)
  case (Suc k)
  show ?case
    using Suc.IH [of "Suc i"] by (auto simp: Suc_le_eq) (metis le_neq_implies_less)
qed auto

section \<open>The bitmap is a block allocator\<close>

definition v8_area :: "filsys_edition \<Rightarrow> u32 set" where
  "v8_area fs = {b. v8_base fs \<le> b \<and> b < v8_base fs + v8_nbits fs}"

definition v8_frees :: "filsys_edition \<Rightarrow> u32 set" where
  "v8_frees fs = {b \<in> v8_area fs. bm_test (v8_bits fs) (unat (b - v8_base fs))}"

definition v8_inv :: "filsys_edition \<Rightarrow> bool" where
  "v8_inv fs \<longleftrightarrow> host_ok fs \<and> \<not> fs_readonly fs \<and>
     unat (v8_base fs) + unat (v8_nbits fs) < 2 ^ 32 \<and>
     unat (v8_nbits fs) \<le> 8 * length (v8_bits fs) \<and>
     (\<forall>b \<in> v8_area fs. blk_in_image fs b)"

text \<open>Block numbers and bit indices correspond.\<close>

lemma v8_index:
  assumes "v8_inv fs" and "i < unat (v8_nbits fs)"
  shows "v8_base fs + of_nat i \<in> v8_area fs" and "unat (v8_base fs + of_nat i - v8_base fs) = i"
proof -
  have "i < 2 ^ 32" "unat (v8_base fs) + i < 2 ^ 32"
    using assms by (auto simp: v8_inv_def)
  moreover have "unat (of_nat i :: u32) = i" using \<open>i < 2 ^ 32\<close> by (intro unat_of_nat_lt) simp
  ultimately show "v8_base fs + of_nat i \<in> v8_area fs" "unat (v8_base fs + of_nat i - v8_base fs) = i"
    using assms by (auto simp: v8_area_def v8_inv_def word_le_nat_alt word_less_nat_alt unat_word_ariths)
qed

lemma v8_area_index:
  assumes "v8_inv fs" and "b \<in> v8_area fs"
  shows "unat (b - v8_base fs) < unat (v8_nbits fs)" and "v8_base fs + of_nat (unat (b - v8_base fs)) = b"
proof -
  have "v8_base fs \<le> b" "b < v8_base fs + v8_nbits fs" using assms(2) by (auto simp: v8_area_def)
  moreover have "unat (v8_base fs + v8_nbits fs) = unat (v8_base fs) + unat (v8_nbits fs)"
    using assms(1) by (auto simp: v8_inv_def unat_word_ariths)
  ultimately show "unat (b - v8_base fs) < unat (v8_nbits fs)"
    by (auto simp: unat_sub_le word_le_nat_alt word_less_nat_alt)
  show "v8_base fs + of_nat (unat (b - v8_base fs)) = b" by simp
qed

lemma v8_bit_byte: "v8_inv fs \<Longrightarrow> i < unat (v8_nbits fs) \<Longrightarrow> i div 8 < length (v8_bits fs)"
  by (auto simp: v8_inv_def)

text \<open>The state a successful allocation of bit \<open>i\<close> leaves.\<close>

definition v8_taken :: "filsys_edition \<Rightarrow> nat \<Rightarrow> filsys_edition" where
  "v8_taken fs i =
     (let s = blk_store (fs\<lparr>v8_bits := bm_clear (v8_bits fs) i\<rparr>) (v8_base fs + of_nat i)
                (replicate (d_bsize (fs_desc fs)) 0)
      in s\<lparr>fs_fl := (fs_fl fs)\<lparr>tfree := (if tfree (fs_fl fs) \<noteq> 0 then tfree (fs_fl fs) - 1
                                       else tfree (fs_fl fs))\<rparr>, fs_fl_dirty := True\<rparr>)"

lemma v8_taken_fields [simp]:
  "v8_bits (v8_taken fs i) = bm_clear (v8_bits fs) i" "v8_nbits (v8_taken fs i) = v8_nbits fs"
  "v8_base (v8_taken fs i) = v8_base fs" "fs_readonly (v8_taken fs i) = fs_readonly fs"
  "v8_area (v8_taken fs i) = v8_area fs" "fs_fl_dirty (v8_taken fs i)"
  "fs_desc (v8_taken fs i) = fs_desc fs"
  by (simp_all add: v8_taken_def Let_def v8_area_def)

lemma v8_other_fields [simp]:
  "host_ok (fs\<lparr>v8_bits := m\<rparr>) = host_ok fs" "blk_in_image (fs\<lparr>v8_bits := m\<rparr>) b = blk_in_image fs b"
  "host_ok (fs\<lparr>fs_fl := x, fs_fl_dirty := y\<rparr>) = host_ok fs"
  "blk_in_image (fs\<lparr>fs_fl := x, fs_fl_dirty := y\<rparr>) b = blk_in_image fs b"
  by (simp_all add: host_ok_def blk_in_image_def blk_off_def)

lemma v8_taken_inv:
  assumes "v8_inv fs" and "i < unat (v8_nbits fs)"
  shows "v8_inv (v8_taken fs i)"
proof -
  have b: "blk_in_image fs (v8_base fs + of_nat i)"
    using assms v8_index(1) [OF assms] by (auto simp: v8_inv_def)
  have "host_ok (v8_taken fs i)" "\<And>c. blk_in_image (v8_taken fs i) c = blk_in_image fs c"
    using assms b by (simp_all add: v8_taken_def Let_def v8_inv_def)
  then show ?thesis using assms(1) by (simp add: v8_inv_def)
qed

lemma v8_balloc_cases:
  assumes "v8_inv fs"
  obtains "v8_frees fs = {}" "v8_bitmap_balloc fs = (Inl ENOSPC, fs)"
  | i where "i < unat (v8_nbits fs)" "bm_test (v8_bits fs) i" "\<forall>l < i. \<not> bm_test (v8_bits fs) l"
      "v8_bitmap_balloc fs = (Inr (v8_base fs + of_nat i), v8_taken fs i)"
proof (cases "bm_scan (v8_bits fs) 0 (unat (v8_nbits fs))")
  case None
  then have "v8_frees fs = {}"
    using v8_area_index(1) [OF assms] by (auto simp: bm_scan_none v8_frees_def)
  with None show thesis using that(1) by (simp add: v8_bitmap_balloc_def)
next
  case (Some i)
  then have i: "i < unat (v8_nbits fs)" "bm_test (v8_bits fs) i" "\<forall>l < i. \<not> bm_test (v8_bits fs) l"
    by (auto simp: bm_scan_some)
  have "blk_in_image fs (v8_base fs + of_nat i)"
    using assms v8_index(1) [OF assms i(1)] by (auto simp: v8_inv_def)
  then have "v7fs_write_block (fs\<lparr>v8_bits := bm_clear (v8_bits fs) i\<rparr>) (v8_base fs + of_nat i)
      (replicate (d_bsize (fs_desc fs)) 0) =
    (Inr (), blk_store (fs\<lparr>v8_bits := bm_clear (v8_bits fs) i\<rparr>) (v8_base fs + of_nat i)
      (replicate (d_bsize (fs_desc fs)) 0))"
    using assms by (intro write_block_ok) (simp_all add: v8_inv_def)
  then have "v8_bitmap_balloc fs = (Inr (v8_base fs + of_nat i), v8_taken fs i)"
    using Some by (simp add: v8_bitmap_balloc_def v8_taken_def Let_def)
  with i show thesis by (rule that(2))
qed

lemma v8_frees_taken:
  assumes "v8_inv fs" and "i < unat (v8_nbits fs)"
  shows "v8_frees (v8_taken fs i) = v8_frees fs - {v8_base fs + of_nat i}"
proof -
  have "unat (b - v8_base fs) \<noteq> i \<longleftrightarrow> b \<noteq> v8_base fs + of_nat i" if "b \<in> v8_area fs" for b
    using v8_area_index(2) [OF assms(1) that] v8_index(2) [OF assms] by auto
  then show ?thesis
    using bm_test_clear [OF v8_bit_byte [OF assms]] by (auto simp: v8_frees_def)
qed

lemma v8_taken_zeroed: "blk_data (v8_taken fs i) (v8_base fs + of_nat i) = replicate (d_bsize (fs_desc fs)) 0"
proof -
  let ?b = "v8_base fs + of_nat i"
  have "blk_data (v8_taken fs i) ?b = blk_data (blk_store (fs\<lparr>v8_bits := bm_clear (v8_bits fs) i\<rparr>) ?b (replicate (d_bsize (fs_desc fs)) 0)) ?b"
    by (simp add: v8_taken_def Let_def blk_data_def blk_off_def)
  then show ?thesis by simp
qed

lemma v8_balloc_least:
  assumes "v8_inv fs"
  shows "(v8_frees fs = {} \<and> v8_bitmap_balloc fs = (Inl ENOSPC, fs)) \<or>
    (\<exists>b fs'. v8_bitmap_balloc fs = (Inr b, fs') \<and> b \<in> v8_frees fs \<and> (\<forall>c \<in> v8_frees fs. b \<le> c) \<and>
      v8_inv fs' \<and> v8_frees fs' = v8_frees fs - {b} \<and> blk_data fs' b = replicate (d_bsize (fs_desc fs)) 0)"
proof (rule v8_balloc_cases [OF assms])
  fix i assume i: "i < unat (v8_nbits fs)" "bm_test (v8_bits fs) i" "\<forall>l < i. \<not> bm_test (v8_bits fs) l"
    "v8_bitmap_balloc fs = (Inr (v8_base fs + of_nat i), v8_taken fs i)"
  note n = v8_index [OF assms i(1)]
  have "v8_base fs + of_nat i \<le> c" if "c \<in> v8_frees fs" for c
  proof -
    have c: "c \<in> v8_area fs" "i \<le> unat (c - v8_base fs)"
      using that i(3) by (auto simp: v8_frees_def not_less [symmetric])
    have le: "v8_base fs \<le> c" "v8_base fs \<le> v8_base fs + of_nat i" using c(1) n(1) by (simp_all add: v8_area_def)
    have "unat (v8_base fs + of_nat i) - unat (v8_base fs) = i" using n(2) unat_sub_le [OF le(2)] by simp
    moreover have "i \<le> unat c - unat (v8_base fs)" using c(2) unat_sub_le [OF le(1)] by simp
    ultimately show ?thesis using le unfolding word_le_nat_alt by linarith
  qed
  moreover have "v8_base fs + of_nat i \<in> v8_frees fs" using n i(2) by (simp add: v8_frees_def)
  ultimately show ?thesis
    using i(4) v8_taken_inv [OF assms i(1)] v8_frees_taken [OF assms i(1)] v8_taken_zeroed by blast
qed simp

lemma v8_bfree_ok:
  assumes "v8_inv fs" and "b \<in> v8_area fs"
  shows "v8_inv (v8_bitmap_bfree fs b)" "v8_frees (v8_bitmap_bfree fs b) = insert b (v8_frees fs)"
    "v8_area (v8_bitmap_bfree fs b) = v8_area fs"
    "tfree (fs_fl (v8_bitmap_bfree fs b)) = tfree (fs_fl fs) + 1"
proof -
  let ?i = "unat (b - v8_base fs)"
  have eq: "v8_bitmap_bfree fs b = fs\<lparr>v8_bits := bm_set (v8_bits fs) ?i,
      fs_fl := (fs_fl fs)\<lparr>tfree := tfree (fs_fl fs) + 1\<rparr>, fs_fl_dirty := True\<rparr>"
    using assms(2) by (auto simp: v8_bitmap_bfree_def v8_area_def)
  show area: "v8_area (v8_bitmap_bfree fs b) = v8_area fs" by (simp add: eq v8_area_def)
  note i = v8_area_index [OF assms]
  have "?i = unat (c - v8_base fs) \<longleftrightarrow> c = b" if "c \<in> v8_area fs" for c
    using i(2) v8_area_index(2) [OF assms(1) that] by metis
  then have same: "unat (c - v8_base fs) = ?i \<longleftrightarrow> c = b" if "c \<in> v8_area fs" for c
    using that by metis
  show "v8_frees (v8_bitmap_bfree fs b) = insert b (v8_frees fs)"
    using bm_test_set [OF v8_bit_byte [OF assms(1) i(1)]] same assms(2)
    unfolding v8_frees_def area by (auto simp: eq)
  have "host_ok (v8_bitmap_bfree fs b)" "\<And>c. blk_in_image (v8_bitmap_bfree fs b) c = blk_in_image fs c"
    using assms(1) by (simp_all add: eq v8_inv_def host_ok_def blk_in_image_def blk_off_def)
  then show "v8_inv (v8_bitmap_bfree fs b)"
    using assms(1) unfolding v8_inv_def area by (simp add: eq)
  show "tfree (fs_fl (v8_bitmap_bfree fs b)) = tfree (fs_fl fs) + 1" by (simp add: eq)
qed

interpretation v8map: block_allocator v8_inv v8_frees v8_area v8_bitmap_balloc v8_bitmap_bfree
proof
  fix fs assume inv: "v8_inv fs"
  show "v8_frees fs \<subseteq> v8_area fs" by (auto simp: v8_frees_def)
  show "finite (v8_frees fs)" by simp
  show "fst (v8_bitmap_balloc fs) = Inl ENOSPC" if "v8_frees fs = {}"
  proof (rule v8_balloc_cases [OF inv])
    fix i assume "i < unat (v8_nbits fs)" "bm_test (v8_bits fs) i"
    then have "v8_base fs + of_nat i \<in> v8_frees fs"
      using v8_index [OF inv, of i] by (simp add: v8_frees_def)
    with that show ?thesis by simp
  qed simp
  show "\<exists>b fs'. v8_bitmap_balloc fs = (Inr b, fs') \<and> b \<in> v8_frees fs \<and> v8_inv fs' \<and>
      v8_frees fs' = v8_frees fs - {b} \<and> v8_area fs' = v8_area fs" if ne: "v8_frees fs \<noteq> {}"
  proof (rule v8_balloc_cases [OF inv])
    fix i assume i: "i < unat (v8_nbits fs)" "bm_test (v8_bits fs) i"
      "v8_bitmap_balloc fs = (Inr (v8_base fs + of_nat i), v8_taken fs i)"
    then show ?thesis
      using v8_index [OF inv i(1)] v8_taken_inv [OF inv i(1)] v8_frees_taken [OF inv i(1)]
      by (auto simp: v8_frees_def)
  qed (use ne in simp)
  fix b assume "b \<in> v8_area fs"
  then show "v8_inv (v8_bitmap_bfree fs b) \<and> v8_frees (v8_bitmap_bfree fs b) = insert b (v8_frees fs) \<and>
      v8_area (v8_bitmap_bfree fs b) = v8_area fs"
    using v8_bfree_ok [OF inv] by simp
qed

end
