(* ===== verification/Inode_IO.thy ===== *)
theory Inode_IO
  imports Superblock
begin

text \<open>
  The on-disk inodes of the V7 engine (\<^verbatim>\<open>v7fs.c\<close>): the 64-byte inode of V7 and its
  variants (with three-byte or, for 2.11BSD, four-byte addresses) and the 32-byte inode of V6.
  Before an inode is written a dirty free list is flushed, so that the reference to a newly
  allocated block never reaches the disk ahead of the superblock that takes it off the list.
\<close>

section \<open>The 64-byte inode\<close>

text \<open>\<^verbatim>\<open>d = raw + off * inode_size\<close> is the pair of the block and the byte offset \<open>o'\<close>.\<close>

definition v7_inode_decode :: "filsys_edition \<Rightarrow> u32 \<Rightarrow> byte list \<Rightarrow> nat \<Rightarrow> filsys_inode" where
  "v7_inode_decode fs ino raw o' =
     (let d = fs_desc fs; bo = d_bo d in
      (zero_inode ino)\<lparr>
        ip_mode := ucast (bo_get16 bo raw (o' + 0)),
        ip_nlink := bo_get16 bo raw (o' + 2),
        ip_uid := bo_get16 bo raw (o' + 4),
        ip_gid := bo_get16 bo raw (o' + 6),
        ip_size := bo_get32 bo raw (o' + 8),
        ip_addr := (if d_addr_width d = 4
                    then get_array (bo_get32 bo) 4 raw (o' + 12) (d_niaddr d)
                    else get_array (bo_get24 bo) 3 raw (o' + 12) (d_niaddr d))
                   @ replicate (13 - d_niaddr d) 0,
        ip_atime := bo_get32 bo raw (o' + 52),
        ip_mtime := bo_get32 bo raw (o' + 56),
        ip_ctime := bo_get32 bo raw (o' + 60)\<rparr>)"

definition v7_inode_encode :: "filsys_edition \<Rightarrow> byte list \<Rightarrow> nat \<Rightarrow> filsys_inode \<Rightarrow> byte list" where
  "v7_inode_encode fs raw o' ip =
     (let d = fs_desc fs; bo = d_bo d; ad = take (d_niaddr d) (ip_addr ip);
          raw = bo_put16 bo raw (o' + 0) (ucast (ip_mode ip));
          raw = bo_put16 bo raw (o' + 2) (ip_nlink ip);
          raw = bo_put16 bo raw (o' + 4) (ip_uid ip);
          raw = bo_put16 bo raw (o' + 6) (ip_gid ip);
          raw = bo_put32 bo raw (o' + 8) (ip_size ip);
          raw = (if d_addr_width d = 4 then put_array (bo_put32 bo) 4 raw (o' + 12) ad
                 else put_array (bo_put24 bo) 3 raw (o' + 12) ad);
          raw = bo_put32 bo raw (o' + 52) (ip_atime ip);
          raw = bo_put32 bo raw (o' + 56) (ip_mtime ip)
      in bo_put32 bo raw (o' + 60) (ip_ctime ip))"

definition inode_off :: "filsys_edition \<Rightarrow> u32 \<Rightarrow> nat" where
  "inode_off fs ino = unat (v7_itoo fs ino) * d_inode_size (fs_desc fs)"

definition v7fs_read_inode :: "filsys_edition \<Rightarrow> u32 \<Rightarrow> errno + filsys_inode" where
  "v7fs_read_inode fs ino =
     (if ino = 0 then Inl EINVAL
      else let bno = v7_itod fs ino in
        if ucast (fs_isize fs) \<le> bno then Inl EINVAL
        else case v7fs_read_block fs bno of
          Inl _ \<Rightarrow> Inl EIO
        | Inr raw \<Rightarrow> Inr (v7_inode_decode fs ino raw (inode_off fs ino)))"

text \<open>The guard shared by both inode writers: flush a dirty allocator first.\<close>

definition flush_dirty :: "filsys_edition \<Rightarrow> unit op" where
  "flush_dirty fs = (if fs_fl_dirty fs then v7fs_super_write fs else (Inr (), fs))"

definition v7fs_write_inode :: "filsys_edition \<Rightarrow> u32 \<Rightarrow> filsys_inode \<Rightarrow> unit op" where
  "v7fs_write_inode fs ino ip =
     (if ino = 0 then (Inl EINVAL, fs)
      else try_op (flush_dirty fs) (\<lambda>_ fs.
        let bno = v7_itod fs ino in
        if ucast (fs_isize fs) \<le> bno then (Inl EINVAL, fs)
        else case v7fs_read_block fs bno of
          Inl _ \<Rightarrow> (Inl EIO, fs)
        | Inr raw \<Rightarrow> v7fs_write_block fs bno (v7_inode_encode fs raw (inode_off fs ino) ip)))"

section \<open>The V6 inode\<close>

definition v6_data_start :: "u32 \<Rightarrow> u32" where
  "v6_data_start isize = isize + 2"

definition v6_inode_decode :: "filsys_edition \<Rightarrow> u32 \<Rightarrow> byte list \<Rightarrow> nat \<Rightarrow> filsys_inode" where
  "v6_inode_decode fs ino raw o' =
     (let d = fs_desc fs; bo = d_bo d in
      (zero_inode ino)\<lparr>
        ip_mode := ucast (bo_get16 bo raw (o' + 0)),
        ip_nlink := ucast (raw ! (o' + 2)),
        ip_uid := ucast (raw ! (o' + 3)),
        ip_gid := ucast (raw ! (o' + 4)),
        ip_size := push_bit 16 (ucast (raw ! (o' + 5))) OR ucast (bo_get16 bo raw (o' + 6)),
        ip_addr := map ucast (get_array (bo_get16 bo) 2 raw (o' + 8) (d_niaddr d))
                   @ replicate (13 - d_niaddr d) 0,
        ip_atime := bo_get32 bo raw (o' + 24),
        ip_mtime := bo_get32 bo raw (o' + 28),
        ip_ctime := bo_get32 bo raw (o' + 28)\<rparr>)"

definition v6_inode_encode :: "filsys_edition \<Rightarrow> byte list \<Rightarrow> nat \<Rightarrow> filsys_inode \<Rightarrow> byte list" where
  "v6_inode_encode fs raw o' ip =
     (let d = fs_desc fs; bo = d_bo d;
          raw = bo_put16 bo raw (o' + 0) (ucast (ip_mode ip));
          raw = raw[o' + 2 := ucast (ip_nlink ip), o' + 3 := ucast (ip_uid ip),
                    o' + 4 := ucast (ip_gid ip), o' + 5 := ucast (drop_bit 16 (ip_size ip) AND 0xff)];
          raw = bo_put16 bo raw (o' + 6) (ucast (ip_size ip AND 0xffff));
          raw = put_array (bo_put16 bo) 2 raw (o' + 8) (map ucast (take (d_niaddr d) (ip_addr ip)));
          raw = bo_put32 bo raw (o' + 24) (ip_atime ip)
      in bo_put32 bo raw (o' + 28) (ip_mtime ip))"

definition v6_read_inode :: "filsys_edition \<Rightarrow> u32 \<Rightarrow> errno + filsys_inode" where
  "v6_read_inode fs ino =
     (if ino = 0 then Inl EINVAL
      else let bno = v7_itod fs ino in
        if v6_data_start (ucast (fs_isize fs)) \<le> bno then Inl EINVAL
        else case v7fs_read_block fs bno of
          Inl _ \<Rightarrow> Inl EIO
        | Inr raw \<Rightarrow> Inr (v6_inode_decode fs ino raw (inode_off fs ino)))"

definition v6_write_inode :: "filsys_edition \<Rightarrow> u32 \<Rightarrow> filsys_inode \<Rightarrow> unit op" where
  "v6_write_inode fs ino ip =
     (if ino = 0 then (Inl EINVAL, fs)
      else try_op (flush_dirty fs) (\<lambda>_ fs.
        let bno = v7_itod fs ino in
        if v6_data_start (ucast (fs_isize fs)) \<le> bno then (Inl EINVAL, fs)
        else case v7fs_read_block fs bno of
          Inl _ \<Rightarrow> (Inl EIO, fs)
        | Inr raw \<Rightarrow> v7fs_write_block fs bno (v6_inode_encode fs raw (inode_off fs ino) ip)))"

section \<open>The codecs round-trip\<close>

text \<open>
  A decoded inode has thirteen address slots, those past the edition's own being zero; what
  the 64-byte form can hold is a 16-bit mode and addresses of its width.
\<close>

definition v7_ip_fits :: "filsys_desc \<Rightarrow> filsys_inode \<Rightarrow> bool" where
  "v7_ip_fits d ip \<longleftrightarrow> ip_mode ip < 65536 \<and> length (ip_addr ip) = 13 \<and>
     drop (d_niaddr d) (ip_addr ip) = replicate (13 - d_niaddr d) 0 \<and>
     (d_addr_width d \<noteq> 4 \<longrightarrow> (\<forall>a \<in> set (ip_addr ip). fits24 a))"

definition v7_inode_layout :: "filsys_desc \<Rightarrow> bool" where
  "v7_inode_layout d \<longleftrightarrow> d_niaddr d \<le> 13 \<and> d_inode_size d = 64 \<and>
     (if d_addr_width d = 4 then 4 else 3) * d_niaddr d \<le> 40"

lemma v7_inode_roundtrip:
  assumes "v7_inode_layout (fs_desc fs)" and "v7_ip_fits (fs_desc fs) ip" and "o' + 64 \<le> length raw"
  shows "v7_inode_decode fs ino (v7_inode_encode fs raw o' ip) o' = ip\<lparr>ip_ino := ino\<rparr>"
proof -
  let ?d = "fs_desc fs"
  have len: "length (take (d_niaddr ?d) (ip_addr ip)) = d_niaddr ?d"
    using assms(1,2) by (simp add: v7_inode_layout_def v7_ip_fits_def)
  have tail: "take (d_niaddr ?d) (ip_addr ip) @ replicate (13 - d_niaddr ?d) 0 = ip_addr ip"
    using assms(2) by (metis append_take_drop_id v7_ip_fits_def)
  have vals: "d_addr_width ?d \<noteq> 4 \<Longrightarrow> \<forall>a \<in> set (take (d_niaddr ?d) (ip_addr ip)). fits24 a"
    using assms(2) by (auto simp: v7_ip_fits_def dest: in_set_takeD)
  have mode: "ucast (ucast (ip_mode ip) :: u16) = ip_mode ip"
    using assms(2) by (simp add: v7_ip_fits_def ucast_u16_id)
  have lay: "d_addr_width ?d = 4 \<Longrightarrow> 4 * d_niaddr ?d \<le> 40" "d_addr_width ?d \<noteq> 4 \<Longrightarrow> 3 * d_niaddr ?d \<le> 40"
    using assms(1) by (simp_all add: v7_inode_layout_def)
  show ?thesis
    using assms(3) len tail vals lay mode
    by (cases "d_addr_width ?d = 4"; cases ip)
      (simp_all add: v7_inode_decode_def v7_inode_encode_def Let_def codec_simps zero_inode_def)
qed

text \<open>The V6 form holds 8-bit counts and owners, a 24-bit size and no change time.\<close>

definition v6_ip_fits :: "filsys_desc \<Rightarrow> filsys_inode \<Rightarrow> bool" where
  "v6_ip_fits d ip \<longleftrightarrow> ip_mode ip < 65536 \<and> ip_nlink ip < 256 \<and> ip_uid ip < 256 \<and> ip_gid ip < 256 \<and>
     ip_size ip < 0x1000000 \<and> length (ip_addr ip) = 13 \<and>
     drop (d_niaddr d) (ip_addr ip) = replicate (13 - d_niaddr d) 0 \<and> (\<forall>a \<in> set (ip_addr ip). a < 65536)"

definition v6_inode_layout :: "filsys_desc \<Rightarrow> bool" where
  "v6_inode_layout d \<longleftrightarrow> d_niaddr d \<le> 8 \<and> d_inode_size d = 32"

lemma ucast_byte_id: "(x :: u16) < 256 \<Longrightarrow> ucast (ucast x :: byte) = x"
proof -
  assume "x < 256"
  then have "take_bit 8 x = x" by (simp add: take_bit_eq_mod mod_word_less)
  moreover have "ucast (ucast x :: byte) = take_bit 8 x" by (rule bit_word_eqI) (auto simp: bit_simps)
  ultimately show ?thesis by simp
qed

lemma v6_size_bytes:
  assumes "s < (0x1000000 :: u32)"
  shows "push_bit 16 (ucast (ucast (drop_bit 16 s AND 0xff) :: byte)) OR ucast (ucast (s AND 0xffff) :: u16) = s"
proof -
  have "take_bit 24 s = s" using assms by (simp add: take_bit_eq_mod mod_word_less)
  then have hi: "\<not> bit s n" if "24 \<le> n" for n using that by (metis bit_take_bit_iff not_less)
  show ?thesis
  proof (rule bit_word_eqI, goal_cases)
    case (1 n)
    consider "n < 16" | "16 \<le> n" "n < 24" | "24 \<le> n" by linarith
    then show ?case using 1 by cases (auto simp: mask_numerals bit_simps hi)
  qed
qed

lemma v6_inode_roundtrip:
  assumes "v6_inode_layout (fs_desc fs)" and "v6_ip_fits (fs_desc fs) ip" and "o' + 32 \<le> length raw"
  shows "v6_inode_decode fs ino (v6_inode_encode fs raw o' ip) o' = ip\<lparr>ip_ino := ino, ip_ctime := ip_mtime ip\<rparr>"
proof -
  let ?d = "fs_desc fs"
  have len: "length (take (d_niaddr ?d) (ip_addr ip)) = d_niaddr ?d" "d_niaddr ?d \<le> 8"
    using assms(1,2) by (simp_all add: v6_inode_layout_def v6_ip_fits_def)
  have "map (\<lambda>a. ucast (ucast a :: u16)) (take (d_niaddr ?d) (ip_addr ip)) = take (d_niaddr ?d) (ip_addr ip)"
    using assms(2) by (intro map_idI) (auto simp: v6_ip_fits_def ucast_u16_id dest: in_set_takeD)
  moreover have "take (d_niaddr ?d) (ip_addr ip) @ replicate (13 - d_niaddr ?d) 0 = ip_addr ip"
    using assms(2) by (metis append_take_drop_id v6_ip_fits_def)
  ultimately have ad: "map (ucast \<circ> (ucast :: u32 \<Rightarrow> u16)) (take (d_niaddr ?d) (ip_addr ip))
      @ replicate (13 - d_niaddr ?d) 0 = ip_addr ip" by (simp add: o_def)
  have mode: "ucast (ucast (ip_mode ip) :: u16) = ip_mode ip"
    using assms(2) by (simp add: v6_ip_fits_def ucast_u16_id)
  have bytes: "ucast (ucast (ip_nlink ip) :: byte) = ip_nlink ip" "ucast (ucast (ip_uid ip) :: byte) = ip_uid ip"
    "ucast (ucast (ip_gid ip) :: byte) = ip_gid ip"
    using assms(2) by (simp_all add: v6_ip_fits_def ucast_byte_id)
  have size: "push_bit 16 (ucast (ucast (drop_bit 16 (ip_size ip) AND 0xff) :: byte))
      OR ucast (ucast (ip_size ip AND 0xffff) :: u16) = ip_size ip"
    using assms(2) by (intro v6_size_bytes) (simp add: v6_ip_fits_def)
  show ?thesis
    using assms(3) len ad mode bytes size
    by (cases ip) (simp add: v6_inode_decode_def v6_inode_encode_def Let_def codec_simps zero_inode_def)
qed

text \<open>The owner is cut to eight bits on a V6 volume, whatever the caller checked.\<close>

lemma v6_uid_truncates:
  assumes "o' + 32 \<le> length raw" and "length (take (d_niaddr (fs_desc fs)) (ip_addr ip)) \<le> 8"
  shows "ip_uid (v6_inode_decode fs ino (v6_inode_encode fs raw o' ip) o') = take_bit 8 (ip_uid ip)"
proof -
  have "ucast (ucast (ip_uid ip) :: byte) = take_bit 8 (ip_uid ip)" by (rule bit_word_eqI) (auto simp: bit_simps)
  then show ?thesis
    using assms by (simp add: v6_inode_decode_def v6_inode_encode_def Let_def codec_simps zero_inode_def)
qed

section \<open>Inodes on the i-list\<close>

text \<open>
  Both backends read and write an inode the same way around their codec; \<open>limit\<close> is the
  first block past the i-list.
\<close>

definition gen_read_inode ::
    "(filsys_edition \<Rightarrow> u32 \<Rightarrow> byte list \<Rightarrow> nat \<Rightarrow> filsys_inode) \<Rightarrow> (filsys_edition \<Rightarrow> u32) \<Rightarrow>
     filsys_edition \<Rightarrow> u32 \<Rightarrow> errno + filsys_inode" where
  "gen_read_inode dec limit fs ino =
     (if ino = 0 then Inl EINVAL
      else if limit fs \<le> v7_itod fs ino then Inl EINVAL
      else case v7fs_read_block fs (v7_itod fs ino) of
        Inl _ \<Rightarrow> Inl EIO
      | Inr raw \<Rightarrow> Inr (dec fs ino raw (inode_off fs ino)))"

definition gen_write_inode ::
    "(filsys_edition \<Rightarrow> byte list \<Rightarrow> nat \<Rightarrow> filsys_inode \<Rightarrow> byte list) \<Rightarrow> (filsys_edition \<Rightarrow> u32) \<Rightarrow>
     filsys_edition \<Rightarrow> u32 \<Rightarrow> filsys_inode \<Rightarrow> unit op" where
  "gen_write_inode enc limit fs ino ip =
     (if ino = 0 then (Inl EINVAL, fs)
      else try_op (flush_dirty fs) (\<lambda>_ fs.
        if limit fs \<le> v7_itod fs ino then (Inl EINVAL, fs)
        else case v7fs_read_block fs (v7_itod fs ino) of
          Inl _ \<Rightarrow> (Inl EIO, fs)
        | Inr raw \<Rightarrow> v7fs_write_block fs (v7_itod fs ino) (enc fs raw (inode_off fs ino) ip)))"

abbreviation v7_limit :: "filsys_edition \<Rightarrow> u32" where
  "v7_limit fs \<equiv> ucast (fs_isize fs)"

abbreviation v6_limit :: "filsys_edition \<Rightarrow> u32" where
  "v6_limit fs \<equiv> v6_data_start (ucast (fs_isize fs))"

lemma v7_inode_gen:
  "v7fs_read_inode = gen_read_inode v7_inode_decode v7_limit"
  "v7fs_write_inode = gen_write_inode v7_inode_encode v7_limit"
  by (simp_all add: fun_eq_iff v7fs_read_inode_def v7fs_write_inode_def gen_read_inode_def
      gen_write_inode_def Let_def)

lemma v6_inode_gen:
  "v6_read_inode = gen_read_inode v6_inode_decode v6_limit"
  "v6_write_inode = gen_write_inode v6_inode_encode v6_limit"
  by (simp_all add: fun_eq_iff v6_read_inode_def v6_write_inode_def gen_read_inode_def
      gen_write_inode_def Let_def)

text \<open>The mount after the flush that precedes an inode write.\<close>

definition flushed :: "filsys_edition \<Rightarrow> filsys_edition" where
  "flushed fs = (if fs_fl_dirty fs then super_stored fs else fs)"

definition ino_geom :: "(filsys_edition \<Rightarrow> u32) \<Rightarrow> filsys_edition \<Rightarrow> bool" where
  "ino_geom limit fs \<longleftrightarrow>
     (let d = fs_desc fs in
      host_ok fs \<and> \<not> fs_readonly fs \<and> super_in_image fs \<and> 512 \<le> d_bsize d \<and> d_bsize d \<le> 8192 \<and>
      0 < d_inode_size d \<and> 2 * d_inode_size d \<le> d_bsize d \<and> (\<forall>b. b < limit fs \<longrightarrow> blk_in_image fs b))"

lemma v7_inopb_nat:
  assumes "ino_geom limit fs"
  shows "unat (v7_inopb fs) = d_bsize (fs_desc fs) div d_inode_size (fs_desc fs)"
    and "2 \<le> unat (v7_inopb fs)"
proof -
  let ?b = "d_bsize (fs_desc fs)" and ?i = "d_inode_size (fs_desc fs)"
  have g: "0 < ?i" "2 * ?i \<le> ?b" "?b \<le> 8192" using assms by (auto simp: ino_geom_def Let_def)
  have "unat (of_nat ?b :: u32) = ?b" "unat (of_nat ?i :: u32) = ?i"
    using g by (intro unat_of_nat_lt; simp)+
  then show 1: "unat (v7_inopb fs) = ?b div ?i" by (simp add: v7_inopb_def unat_div)
  have "2 * ?i div ?i \<le> ?b div ?i" using g(2) by (rule div_le_mono)
  then show "2 \<le> unat (v7_inopb fs)" using g(1) by (simp add: 1)
qed

text \<open>Block and slot determine the inode number, and a slot lies inside its block.\<close>

lemma itod_nat:
  assumes "ino_geom limit fs"
  shows "unat (v7_itod fs ino) = 2 + unat (ino - 1) div unat (v7_inopb fs)"
proof -
  have "unat (ino - 1) div unat (v7_inopb fs) \<le> unat (ino - 1) div 2"
    using v7_inopb_nat(2) [OF assms] by (simp add: div_le_mono2)
  moreover have "unat (ino - 1) < 4294967296" by (rule unat_u32_bound)
  ultimately have "2 + unat (ino - 1) div unat (v7_inopb fs) < 4294967296" by linarith
  then show ?thesis by (simp add: v7_itod_def unat_word_ariths unat_div)
qed

lemma ino_slot_inj:
  assumes "ino_geom limit fs" and "v7_itod fs i = v7_itod fs j" and "v7_itoo fs i = v7_itoo fs j"
  shows "i = j"
proof -
  let ?n = "unat (v7_inopb fs)"
  have "unat (i - 1) div ?n = unat (j - 1) div ?n"
    using assms(2) itod_nat [OF assms(1), of i] itod_nat [OF assms(1), of j] by simp
  moreover have "unat (i - 1) mod ?n = unat (j - 1) mod ?n"
    using assms(3) by (metis v7_itoo_def unat_mod)
  ultimately have "unat (i - 1) = unat (j - 1)" by (metis div_mult_mod_eq)
  then have "i - 1 = j - 1" by (simp add: word_unat_eq_iff)
  then show ?thesis by simp
qed

lemma inode_off_inside:
  assumes "ino_geom limit fs"
  shows "inode_off fs ino + d_inode_size (fs_desc fs) \<le> d_bsize (fs_desc fs)"
proof -
  let ?b = "d_bsize (fs_desc fs)" and ?i = "d_inode_size (fs_desc fs)"
  have "unat (v7_itoo fs ino) < unat (v7_inopb fs)"
    using v7_inopb_nat(2) [OF assms] by (simp add: v7_itoo_def unat_mod)
  then have "Suc (unat (v7_itoo fs ino)) \<le> ?b div ?i" using v7_inopb_nat(1) [OF assms] by simp
  then have "Suc (unat (v7_itoo fs ino)) * ?i \<le> ?b div ?i * ?i" by (rule mult_le_mono1)
  also have "\<dots> \<le> ?b" by (rule div_times_less_eq_dividend)
  finally show ?thesis by (simp add: inode_off_def)
qed

lemma inode_off_disjoint:
  assumes "ino_geom limit fs" and "v7_itod fs i = v7_itod fs j" and "i \<noteq> j"
  shows "inode_off fs i + d_inode_size (fs_desc fs) \<le> inode_off fs j \<or>
    inode_off fs j + d_inode_size (fs_desc fs) \<le> inode_off fs i"
proof -
  have "unat (v7_itoo fs i) \<noteq> unat (v7_itoo fs j)"
    using ino_slot_inj [OF assms(1,2)] assms(3) by (auto simp: word_unat_eq_iff)
  from aligned_disjoint [OF this] show ?thesis by (simp add: inode_off_def)
qed

lemma itod_ge2: "ino_geom limit fs \<Longrightarrow> 2 \<le> v7_itod fs ino"
  using itod_nat [of limit fs ino] by (simp add: word_le_nat_alt)

text \<open>
  What a client of an inode codec relies on: the decoded inode is the one encoded (up to what
  the form cannot hold, \<open>norm\<close>), a store keeps the buffer's length and every other slot, and
  the codec reads nothing of the mount but its descriptor.
\<close>

locale inode_codec =
  fixes dec :: "filsys_edition \<Rightarrow> u32 \<Rightarrow> byte list \<Rightarrow> nat \<Rightarrow> filsys_inode"
    and enc :: "filsys_edition \<Rightarrow> byte list \<Rightarrow> nat \<Rightarrow> filsys_inode \<Rightarrow> byte list"
    and limit :: "filsys_edition \<Rightarrow> u32"
    and layout :: "filsys_desc \<Rightarrow> bool"
    and fits :: "filsys_desc \<Rightarrow> filsys_inode \<Rightarrow> bool"
    and norm :: "u32 \<Rightarrow> filsys_inode \<Rightarrow> filsys_inode"
  assumes dec_enc: "layout (fs_desc fs) \<Longrightarrow> fits (fs_desc fs) ip \<Longrightarrow>
      off + d_inode_size (fs_desc fs) \<le> length raw \<Longrightarrow>
      dec fs ino (enc fs raw off ip) off = norm ino ip"
    and length_enc: "length (enc fs raw off ip) = length raw"
    and dec_enc_other: "layout (fs_desc fs) \<Longrightarrow> length (ip_addr ip) = 13 \<Longrightarrow>
      off + d_inode_size (fs_desc fs) \<le> off' \<or> off' + d_inode_size (fs_desc fs) \<le> off \<Longrightarrow>
      dec fs ino (enc fs raw off' ip) off = dec fs ino raw off"
    and dec_desc: "fs_desc fs' = fs_desc fs \<Longrightarrow> dec fs' = dec fs"
    and enc_desc: "fs_desc fs' = fs_desc fs \<Longrightarrow> enc fs' = enc fs"
    and limit_cong: "fs_desc fs' = fs_desc fs \<Longrightarrow> fs_isize fs' = fs_isize fs \<Longrightarrow> limit fs' = limit fs"
begin

abbreviation "rd \<equiv> gen_read_inode dec limit"
abbreviation "wr \<equiv> gen_write_inode enc limit"

definition stored :: "filsys_edition \<Rightarrow> u32 \<Rightarrow> filsys_inode \<Rightarrow> filsys_edition" where
  "stored fs ino ip =
     blk_store (flushed fs) (v7_itod fs ino)
       (enc fs (blk_data fs (v7_itod fs ino)) (inode_off fs ino) ip)"

lemma flushed_facts:
  assumes "ino_geom limit fs"
  shows "flush_dirty fs = (Inr (), flushed fs)" "fs_desc (flushed fs) = fs_desc fs"
    "fs_isize (flushed fs) = fs_isize fs" "host_ok (flushed fs)" "\<not> fs_readonly (flushed fs)"
    "blk_in_image (flushed fs) b = blk_in_image fs b" "blk_off (flushed fs) b = blk_off fs b"
    "2 \<le> b \<Longrightarrow> blk_data (flushed fs) b = blk_data fs b"
  using assms by (simp_all add: flushed_def flush_dirty_def ino_geom_def Let_def super_write_ok)

lemma geom_cong:
  assumes "fs_desc fs' = fs_desc fs" "fs_isize fs' = fs_isize fs"
  shows "limit fs' = limit fs" "v7_itod fs' ino = v7_itod fs ino" "inode_off fs' ino = inode_off fs ino"
  using assms limit_cong [OF assms]
  by (simp_all add: v7_itod_def v7_inopb_def v7_itoo_def inode_off_def)

lemma wr_ok:
  assumes "ino_geom limit fs" and "ino \<noteq> 0" and "v7_itod fs ino < limit fs"
  shows "wr fs ino ip = (Inr (), stored fs ino ip)"
proof -
  note f = flushed_facts [OF assms(1)]
  note g = geom_cong [OF f(2,3)]
  have img: "blk_in_image (flushed fs) (v7_itod fs ino)"
    using assms by (simp add: f(6) ino_geom_def Let_def)
  have "v7fs_read_block (flushed fs) (v7_itod fs ino) = Inr (blk_data fs (v7_itod fs ino))"
    using read_block_ok [OF f(4) img] f(8) [OF itod_ge2 [OF assms(1)]] by simp
  then show ?thesis
    using assms f g write_block_ok [OF f(4) img f(5)] enc_desc [OF f(2)]
    by (simp add: gen_write_inode_def stored_def)
qed

lemma rd_ok:
  assumes "ino_geom limit fs" and "ino \<noteq> 0" and "v7_itod fs ino < limit fs"
  shows "rd fs ino = Inr (dec fs ino (blk_data fs (v7_itod fs ino)) (inode_off fs ino))"
  using assms read_block_ok [of fs "v7_itod fs ino"]
  by (simp add: gen_read_inode_def ino_geom_def Let_def)

lemma stored_facts:
  assumes "ino_geom limit fs" and "v7_itod fs ino < limit fs"
  shows "fs_desc (stored fs ino ip) = fs_desc fs" "fs_isize (stored fs ino ip) = fs_isize fs"
    "ino_geom limit (stored fs ino ip)"
    "2 \<le> b \<Longrightarrow> b \<noteq> v7_itod fs ino \<Longrightarrow> blk_data (stored fs ino ip) b = blk_data fs b"
    "blk_data (stored fs ino ip) (v7_itod fs ino) =
       enc fs (blk_data fs (v7_itod fs ino)) (inode_off fs ino) ip"
    "fs_fl_dirty (stored fs ino ip) = False"
proof -
  note f = flushed_facts [OF assms(1)]
  have img: "blk_in_image (flushed fs) (v7_itod fs ino)"
    using assms by (simp add: f(6) ino_geom_def Let_def)
  show d: "fs_desc (stored fs ino ip) = fs_desc fs" "fs_isize (stored fs ino ip) = fs_isize fs"
    by (simp_all add: stored_def f)
  have area: "super_in_image (stored fs ino ip) = super_in_image fs" "fs_imgsize (stored fs ino ip) = fs_imgsize fs"
    by (simp_all add: stored_def super_in_image_def super_off_def super_len_def f blk_off_def flushed_def)
  have "host_ok (stored fs ino ip)" using f(4) img by (simp add: stored_def)
  moreover have "blk_in_image (stored fs ino ip) b = blk_in_image fs b" for b by (simp add: stored_def f(6))
  moreover have "\<not> fs_readonly (stored fs ino ip)" using f(5) by (simp add: stored_def)
  ultimately show "ino_geom limit (stored fs ino ip)"
    using assms(1) limit_cong [OF d] area by (simp add: ino_geom_def Let_def d)
  show "2 \<le> b \<Longrightarrow> b \<noteq> v7_itod fs ino \<Longrightarrow> blk_data (stored fs ino ip) b = blk_data fs b"
    by (simp add: stored_def f(8))
  show "blk_data (stored fs ino ip) (v7_itod fs ino) =
       enc fs (blk_data fs (v7_itod fs ino)) (inode_off fs ino) ip"
    by (simp add: stored_def length_enc f(2))
  show "fs_fl_dirty (stored fs ino ip) = False" by (simp add: stored_def flushed_def)
qed

text \<open>An inode written is the inode read back.\<close>

lemma read_after_write:
  assumes "ino_geom limit fs" and "ino \<noteq> 0" and "v7_itod fs ino < limit fs"
    and "layout (fs_desc fs)" and "fits (fs_desc fs) ip"
  shows "rd (stored fs ino ip) ino = Inr (norm ino ip)"
proof -
  let ?s = "stored fs ino ip"
  note s = stored_facts [OF assms(1,3), where ip = ip]
  note g = geom_cong [OF s(1,2)]
  have "rd ?s ino = Inr (dec ?s ino (blk_data ?s (v7_itod ?s ino)) (inode_off ?s ino))"
    using assms s(3) g by (intro rd_ok) simp_all
  also have "\<dots> = Inr (norm ino ip)"
    using dec_enc [OF assms(4,5), of "inode_off fs ino" "blk_data fs (v7_itod fs ino)" ino]
      inode_off_inside [OF assms(1)] dec_desc [OF s(1)] s(5) g by simp
  finally show ?thesis .
qed

text \<open>Every other inode, in the same block or elsewhere, is left alone.\<close>

lemma read_other:
  assumes "ino_geom limit fs" and "ino \<noteq> 0" and "v7_itod fs ino < limit fs"
    and "layout (fs_desc fs)" and "length (ip_addr ip) = 13" and "other \<noteq> ino"
  shows "rd (stored fs ino ip) other = rd fs other"
proof (cases "other = 0 \<or> limit fs \<le> v7_itod fs other")
  case True
  then show ?thesis
    using geom_cong [OF stored_facts(1,2) [OF assms(1,3), where ip = ip]] by (auto simp: gen_read_inode_def)
next
  case False
  let ?s = "stored fs ino ip"
  note s = stored_facts [OF assms(1,3), where ip = ip]
  note g = geom_cong [OF s(1,2)]
  have f: "other \<noteq> 0" "v7_itod fs other < limit fs" using False by auto
  have r: "rd ?s other = Inr (dec fs other (blk_data ?s (v7_itod fs other)) (inode_off fs other))"
    using rd_ok [OF s(3) f(1)] f g dec_desc [OF s(1)] by simp
  show ?thesis
  proof (cases "v7_itod fs other = v7_itod fs ino")
    case True
    have "dec fs other (enc fs (blk_data fs (v7_itod fs ino)) (inode_off fs ino) ip) (inode_off fs other)
        = dec fs other (blk_data fs (v7_itod fs ino)) (inode_off fs other)"
      using inode_off_disjoint [OF assms(1) True assms(6)] assms(4,5) by (intro dec_enc_other) auto
    then show ?thesis using r rd_ok [OF assms(1) f] s(5) True by simp
  next
    case False
    then show ?thesis using r rd_ok [OF assms(1) f] s(4) itod_ge2 [OF assms(1)] by simp
  qed
qed

text \<open>The superblock that takes new blocks off the free list goes out before the inode.\<close>

lemma write_order:
  assumes "ino_geom limit fs" and "ino \<noteq> 0" and "v7_itod fs ino < limit fs"
  shows "\<exists>blk. h_wlog (fs_host (snd (wr fs ino ip))) = h_wlog (fs_host fs) @
    (if fs_fl_dirty fs then [(super_off fs, super_encode fs (super_data fs))] else []) @
    [(blk_off fs (v7_itod fs ino), blk)]"
  using flushed_facts(7) [OF assms(1)]
  by (simp add: wr_ok [OF assms] stored_def) (auto simp: flushed_def)

end

section \<open>Both inode forms provide the interface\<close>

lemma v7_encode_nth:
  assumes "v7_inode_layout (fs_desc fs)" "length (ip_addr ip) = 13" "i < o' \<or> o' + 64 \<le> i"
  shows "v7_inode_encode fs raw o' ip ! i = raw ! i"
  using assms
  by (cases "d_addr_width (fs_desc fs) = 4")
    (auto simp: v7_inode_encode_def Let_def codec_simps v7_inode_layout_def)

lemma v7_decode_cong_bytes:
  assumes "v7_inode_layout (fs_desc fs)" and same: "\<And>i. o' \<le> i \<Longrightarrow> i < o' + 64 \<Longrightarrow> p ! i = q ! i"
  shows "v7_inode_decode fs ino p o' = v7_inode_decode fs ino q o'"
proof -
  let ?bo = "d_bo (fs_desc fs)" and ?n = "d_niaddr (fs_desc fs)"
  have w16: "bo_get16 ?bo p (o' + a) = bo_get16 ?bo q (o' + a)" if "a + 2 \<le> 64" for a
    using that same by (intro bo16.get_cong) auto
  have w32: "bo_get32 ?bo p (o' + a) = bo_get32 ?bo q (o' + a)" if "a + 4 \<le> 64" for a
    using that same by (intro bo32.get_cong) auto
  have a32: "get_array (bo_get32 ?bo) 4 p (o' + 12) ?n = get_array (bo_get32 ?bo) 4 q (o' + 12) ?n"
    if "d_addr_width (fs_desc fs) = 4"
    using that same assms(1) by (intro bo32.get_array_cong) (auto simp: v7_inode_layout_def)
  have a24: "get_array (bo_get24 ?bo) 3 p (o' + 12) ?n = get_array (bo_get24 ?bo) 3 q (o' + 12) ?n"
    if "d_addr_width (fs_desc fs) \<noteq> 4"
    using that same assms(1) by (intro bo24.get_array_cong) (auto simp: v7_inode_layout_def)
  show ?thesis
    using a32 a24 w16 [of 0] w16 [of 2] w16 [of 4] w16 [of 6] w32 [of 8] w32 [of 52] w32 [of 56] w32 [of 60]
    by (simp add: v7_inode_decode_def Let_def)
qed

lemma v6_encode_nth:
  assumes "v6_inode_layout (fs_desc fs)" "length (ip_addr ip) = 13" "i < o' \<or> o' + 32 \<le> i"
  shows "v6_inode_encode fs raw o' ip ! i = raw ! i"
  using assms by (auto simp: v6_inode_encode_def Let_def codec_simps v6_inode_layout_def)

lemma v6_decode_cong_bytes:
  assumes "v6_inode_layout (fs_desc fs)" and same: "\<And>i. o' \<le> i \<Longrightarrow> i < o' + 32 \<Longrightarrow> p ! i = q ! i"
  shows "v6_inode_decode fs ino p o' = v6_inode_decode fs ino q o'"
proof -
  let ?bo = "d_bo (fs_desc fs)" and ?n = "d_niaddr (fs_desc fs)"
  have w16: "bo_get16 ?bo p (o' + a) = bo_get16 ?bo q (o' + a)" if "a + 2 \<le> 32" for a
    using that same by (intro bo16.get_cong) auto
  have w32: "bo_get32 ?bo p (o' + a) = bo_get32 ?bo q (o' + a)" if "a + 4 \<le> 32" for a
    using that same by (intro bo32.get_cong) auto
  have a16: "get_array (bo_get16 ?bo) 2 p (o' + 8) ?n = get_array (bo_get16 ?bo) 2 q (o' + 8) ?n"
    using same assms(1) by (intro bo16.get_array_cong) (auto simp: v6_inode_layout_def)
  show ?thesis
    using a16 w16 [of 0] w16 [of 6] w32 [of 24] w32 [of 28] same [of "o' + 2"] same [of "o' + 3"]
      same [of "o' + 4"] same [of "o' + 5"]
    by (simp add: v6_inode_decode_def Let_def)
qed

interpretation v7ino: inode_codec v7_inode_decode v7_inode_encode v7_limit v7_inode_layout v7_ip_fits
  "\<lambda>ino ip. ip\<lparr>ip_ino := ino\<rparr>"
proof
  show "v7_inode_decode fs ino (v7_inode_encode fs raw off ip) off = ip\<lparr>ip_ino := ino\<rparr>"
    if "v7_inode_layout (fs_desc fs)" "v7_ip_fits (fs_desc fs) ip" "off + d_inode_size (fs_desc fs) \<le> length raw"
    for fs ip off raw ino
    using that by (intro v7_inode_roundtrip) (auto simp: v7_inode_layout_def)
  show "length (v7_inode_encode fs raw off ip) = length raw" for fs raw off ip
    by (simp add: v7_inode_encode_def Let_def)
  show "v7_inode_decode fs ino (v7_inode_encode fs raw off' ip) off = v7_inode_decode fs ino raw off"
    if "v7_inode_layout (fs_desc fs)" "length (ip_addr ip) = 13"
      "off + d_inode_size (fs_desc fs) \<le> off' \<or> off' + d_inode_size (fs_desc fs) \<le> off" for fs ip off off' ino raw
    using that by (intro v7_decode_cong_bytes v7_encode_nth) (auto simp: v7_inode_layout_def)
qed (simp_all add: fun_eq_iff v7_inode_decode_def v7_inode_encode_def)

interpretation v6ino: inode_codec v6_inode_decode v6_inode_encode v6_limit v6_inode_layout v6_ip_fits
  "\<lambda>ino ip. ip\<lparr>ip_ino := ino, ip_ctime := ip_mtime ip\<rparr>"
proof
  show "v6_inode_decode fs ino (v6_inode_encode fs raw off ip) off = ip\<lparr>ip_ino := ino, ip_ctime := ip_mtime ip\<rparr>"
    if "v6_inode_layout (fs_desc fs)" "v6_ip_fits (fs_desc fs) ip" "off + d_inode_size (fs_desc fs) \<le> length raw"
    for fs ip off raw ino
    using that by (intro v6_inode_roundtrip) (auto simp: v6_inode_layout_def)
  show "length (v6_inode_encode fs raw off ip) = length raw" for fs raw off ip
    by (simp add: v6_inode_encode_def Let_def)
  show "v6_inode_decode fs ino (v6_inode_encode fs raw off' ip) off = v6_inode_decode fs ino raw off"
    if "v6_inode_layout (fs_desc fs)" "length (ip_addr ip) = 13"
      "off + d_inode_size (fs_desc fs) \<le> off' \<or> off' + d_inode_size (fs_desc fs) \<le> off" for fs ip off off' ino raw
    using that by (intro v6_decode_cong_bytes v6_encode_nth) (auto simp: v6_inode_layout_def)
qed (simp_all add: fun_eq_iff v6_inode_decode_def v6_inode_encode_def)

section \<open>The out-of-superblock bitmap is not flushed\<close>

text \<open>
  The flush in front of an inode write is \<^verbatim>\<open>v7fs_super_write\<close>, also for the V10 form
  whose bitmap lives in blocks of its own: those blocks keep their old contents while the
  dirty mark is cleared.
\<close>

lemma bigmap_flush_skips_map:
  assumes "ino_geom v7_limit fs" and "d_freemap (fs_desc fs) = Freemap_bigmap" and "fs_fl_dirty fs"
    and "ino \<noteq> 0" and "v7_itod fs ino < v7_limit fs"
    and "2 \<le> b" and "v7_limit fs \<le> b"
  shows "\<exists>fs'. v7fs_write_inode fs ino ip = (Inr (), fs') \<and> blk_data fs' b = blk_data fs b \<and>
    \<not> fs_fl_dirty fs' \<and> v8_bits fs' = v8_bits fs"
proof -
  have "b \<noteq> v7_itod fs ino" using assms(5,7) by auto
  then have "blk_data (v7ino.stored fs ino ip) b = blk_data fs b"
    using v7ino.stored_facts(4) [OF assms(1,5,6)] by blast
  then show ?thesis
    unfolding v7_inode_gen v7ino.wr_ok [OF assms(1,4,5)]
    using v7ino.stored_facts(6) [OF assms(1,5)] by (simp add: v7ino.stored_def flushed_def)
qed

end
