(* ===== verification/Formats.thy ===== *)
theory Formats
  imports Superblock
begin

text \<open>
  The per-format descriptor table of \<^verbatim>\<open>filsys_format.c\<close>, the edition names of
  \<^verbatim>\<open>filsys_names.c\<close>, the mode conversions (V1's, the PDP-7's, V9/V10's, and the
  derivation from the type constants in \<^verbatim>\<open>filsys.c\<close>), the V8-family geometry
  overrides and the byte-order resolution from the superblock magic.  Diagnostic strings are
  not modelled.
\<close>

section \<open>The descriptor rows\<close>

definition zero_desc :: filsys_desc where
  "zero_desc =
     \<lparr>d_ops = None, d_alloc = Freelist_alloc_ops, d_name = '''', d_bo = LE, d_bsize = 0,
       d_nicfree = 0, d_nicinod = 0, d_pack4 = False, d_interleave = False, d_magic = 0,
       d_magic_off = 0, d_dyn_bsize = False, d_has_dinfo = False, d_has_state = False,
       d_ignore_magic = False, d_fmod_back = 0, d_has_fmod = False, d_size_bits = 0,
       d_rootino = 0, d_inode_size = 0, d_ndaddr = 0, d_niaddr = 0, d_addr_width = 0,
       d_daddr_wid = 0, d_df_nfree_wid = 0, d_isize_count = False, d_nindir = 0,
       d_ilarg_mask = 0, d_iallocated = 0, d_large_single = 0, d_large_double = 0, d_badino = 0,
       d_word = None, d_max_namlen = 0, d_dirent_size = 0, d_synth_dot = False,
       d_freemap = Freemap_list, d_ifmt = 0, d_ifdir = 0, d_ifreg = 0, d_ifchr = 0, d_ifblk = 0,
       d_iflnk = 0, d_ifsock = 0, d_ifmpc = 0, d_ifmpb = 0, d_mode = Mode_derived,
       d_sb_codec = False\<rparr>"

definition v7_desc :: filsys_desc where
  "v7_desc =
     \<lparr>d_ops = Some V7fs_ops, d_alloc = Freelist_alloc_ops, d_name = ''v7'', d_bo = ME,
       d_bsize = 512, d_nicfree = 50, d_nicinod = 100, d_pack4 = False, d_interleave = False,
       d_magic = 0, d_magic_off = 0, d_dyn_bsize = False, d_has_dinfo = False,
       d_has_state = False, d_ignore_magic = False, d_fmod_back = 2, d_has_fmod = True,
       d_size_bits = 0, d_rootino = 2, d_inode_size = 64, d_ndaddr = 10, d_niaddr = 13,
       d_addr_width = 3, d_daddr_wid = 4, d_df_nfree_wid = 2, d_isize_count = False,
       d_nindir = 128, d_ilarg_mask = 0, d_iallocated = 0, d_large_single = 0,
       d_large_double = 0, d_badino = 1, d_word = None, d_max_namlen = 14, d_dirent_size = 16,
       d_synth_dot = False, d_freemap = Freemap_list, d_ifmt = 0xF000, d_ifdir = 0x4000,
       d_ifreg = 0x8000, d_ifchr = 0x2000, d_ifblk = 0x6000, d_iflnk = 0, d_ifsock = 0,
       d_ifmpc = 0x3000, d_ifmpb = 0x7000, d_mode = Mode_derived, d_sb_codec = False\<rparr>"

definition v6_desc :: filsys_desc where
  "v6_desc =
     \<lparr>d_ops = Some V6fs_ops, d_alloc = Freelist_alloc_ops, d_name = ''v6'', d_bo = ME,
       d_bsize = 512, d_nicfree = 100, d_nicinod = 100, d_pack4 = False, d_interleave = False,
       d_magic = 0, d_magic_off = 0, d_dyn_bsize = False, d_has_dinfo = False,
       d_has_state = False, d_ignore_magic = False, d_fmod_back = 0, d_has_fmod = True,
       d_size_bits = 24, d_rootino = 1, d_inode_size = 32, d_ndaddr = 8, d_niaddr = 8,
       d_addr_width = 0, d_daddr_wid = 2, d_df_nfree_wid = 2, d_isize_count = True,
       d_nindir = 256, d_ilarg_mask = 0x1000, d_iallocated = 0x8000, d_large_single = 7,
       d_large_double = 1, d_badino = 0, d_word = None, d_max_namlen = 14, d_dirent_size = 16,
       d_synth_dot = False, d_freemap = Freemap_list, d_ifmt = 0x6000, d_ifdir = 0x4000,
       d_ifreg = 0, d_ifchr = 0x2000, d_ifblk = 0x6000, d_iflnk = 0, d_ifsock = 0, d_ifmpc = 0,
       d_ifmpb = 0, d_mode = Mode_derived, d_sb_codec = False\<rparr>"

definition v1_desc :: filsys_desc where
  "v1_desc =
     \<lparr>d_ops = Some V1fs_ops, d_alloc = Bitmap_alloc_ops, d_name = ''v1'', d_bo = ME,
       d_bsize = 512, d_nicfree = 0, d_nicinod = 0, d_pack4 = False, d_interleave = False,
       d_magic = 0, d_magic_off = 0, d_dyn_bsize = False, d_has_dinfo = False,
       d_has_state = False, d_ignore_magic = False, d_fmod_back = 0, d_has_fmod = False,
       d_size_bits = 16, d_rootino = 41, d_inode_size = 32, d_ndaddr = 8, d_niaddr = 8,
       d_addr_width = 0, d_daddr_wid = 2, d_df_nfree_wid = 0, d_isize_count = False,
       d_nindir = 256, d_ilarg_mask = 0x1000, d_iallocated = 0, d_large_single = 8,
       d_large_double = 0, d_badino = 0, d_word = None, d_max_namlen = 8, d_dirent_size = 10,
       d_synth_dot = False, d_freemap = Freemap_list, d_ifmt = 0, d_ifdir = 0, d_ifreg = 0,
       d_ifchr = 0, d_ifblk = 0, d_iflnk = 0, d_ifsock = 0, d_ifmpc = 0, d_ifmpb = 0,
       d_mode = Mode_v1, d_sb_codec = False\<rparr>"

definition pdp7_desc :: filsys_desc where
  "pdp7_desc =
     \<lparr>d_ops = Some P7fs_ops, d_alloc = Pdp7_alloc_ops, d_name = ''pdp7'', d_bo = ME,
       d_bsize = 128, d_nicfree = 0, d_nicinod = 0, d_pack4 = False, d_interleave = False,
       d_magic = 0, d_magic_off = 0, d_dyn_bsize = False, d_has_dinfo = False,
       d_has_state = False, d_ignore_magic = False, d_fmod_back = 0, d_has_fmod = False,
       d_size_bits = 0, d_rootino = 4, d_inode_size = 12, d_ndaddr = 7, d_niaddr = 7,
       d_addr_width = 0, d_daddr_wid = 0, d_df_nfree_wid = 0, d_isize_count = False,
       d_nindir = 64, d_ilarg_mask = 0x10000, d_iallocated = 0, d_large_single = 7,
       d_large_double = 0, d_badino = 0, d_word = Some Word_rb09, d_max_namlen = 8,
       d_dirent_size = 8, d_synth_dot = True, d_freemap = Freemap_list, d_ifmt = 0, d_ifdir = 0,
       d_ifreg = 0, d_ifchr = 0, d_ifblk = 0, d_iflnk = 0, d_ifsock = 0, d_ifmpc = 0,
       d_ifmpb = 0, d_mode = Mode_p7, d_sb_codec = False\<rparr>"

definition bsd211_desc :: filsys_desc where
  "bsd211_desc =
     \<lparr>d_ops = Some Bsd211fs_ops, d_alloc = Freelist_alloc_ops, d_name = ''bsd211'',
       d_bo = ME, d_bsize = 1024, d_nicfree = 50, d_nicinod = 100, d_pack4 = False,
       d_interleave = False, d_magic = 0, d_magic_off = 0, d_dyn_bsize = False,
       d_has_dinfo = False, d_has_state = False, d_ignore_magic = False, d_fmod_back = 3,
       d_has_fmod = False, d_size_bits = 0, d_rootino = 2, d_inode_size = 64, d_ndaddr = 4,
       d_niaddr = 7, d_addr_width = 4, d_daddr_wid = 4, d_df_nfree_wid = 2,
       d_isize_count = False, d_nindir = 256, d_ilarg_mask = 0, d_iallocated = 0,
       d_large_single = 0, d_large_double = 0, d_badino = 1, d_word = None, d_max_namlen = 63,
       d_dirent_size = 0, d_synth_dot = False, d_freemap = Freemap_list, d_ifmt = 0xF000,
       d_ifdir = 0x4000, d_ifreg = 0x8000, d_ifchr = 0x2000, d_ifblk = 0x6000, d_iflnk = 0xA000,
       d_ifsock = 0xC000, d_ifmpc = 0, d_ifmpb = 0, d_mode = Mode_derived,
       d_sb_codec = False\<rparr>"

definition v8_desc :: filsys_desc where
  "v8_desc =
     \<lparr>d_ops = Some V7fs_ops, d_alloc = Freelist_alloc_ops, d_name = ''v8'', d_bo = LE,
       d_bsize = 1024, d_nicfree = 178, d_nicinod = 100, d_pack4 = False, d_interleave = False,
       d_magic = 0, d_magic_off = 0, d_dyn_bsize = False, d_has_dinfo = False,
       d_has_state = False, d_ignore_magic = False, d_fmod_back = 0, d_has_fmod = True,
       d_size_bits = 0, d_rootino = 2, d_inode_size = 64, d_ndaddr = 10, d_niaddr = 13,
       d_addr_width = 3, d_daddr_wid = 4, d_df_nfree_wid = 4, d_isize_count = False,
       d_nindir = 256, d_ilarg_mask = 0, d_iallocated = 0, d_large_single = 0,
       d_large_double = 0, d_badino = 0, d_word = None, d_max_namlen = 14, d_dirent_size = 16,
       d_synth_dot = False, d_freemap = Freemap_list, d_ifmt = 0xF000, d_ifdir = 0x4000,
       d_ifreg = 0x8000, d_ifchr = 0x2000, d_ifblk = 0x6000, d_iflnk = 0xA000, d_ifsock = 0,
       d_ifmpc = 0, d_ifmpb = 0, d_mode = Mode_derived, d_sb_codec = True\<rparr>"

section \<open>The fields of the rows\<close>

lemma zero_desc_fields [simp]:
  "d_ops zero_desc = None" "d_alloc zero_desc = Freelist_alloc_ops" "d_name zero_desc = ''''"
  "d_bo zero_desc = LE" "d_bsize zero_desc = 0" "d_nicfree zero_desc = 0" "d_nicinod zero_desc = 0"
  "d_pack4 zero_desc = False" "d_interleave zero_desc = False" "d_magic zero_desc = 0"
  "d_magic_off zero_desc = 0" "d_dyn_bsize zero_desc = False" "d_has_dinfo zero_desc = False"
  "d_has_state zero_desc = False" "d_ignore_magic zero_desc = False" "d_fmod_back zero_desc = 0"
  "d_has_fmod zero_desc = False" "d_size_bits zero_desc = 0" "d_rootino zero_desc = 0"
  "d_inode_size zero_desc = 0" "d_ndaddr zero_desc = 0" "d_niaddr zero_desc = 0"
  "d_addr_width zero_desc = 0" "d_daddr_wid zero_desc = 0" "d_df_nfree_wid zero_desc = 0"
  "d_isize_count zero_desc = False" "d_nindir zero_desc = 0" "d_ilarg_mask zero_desc = 0"
  "d_iallocated zero_desc = 0" "d_large_single zero_desc = 0" "d_large_double zero_desc = 0"
  "d_badino zero_desc = 0" "d_word zero_desc = None" "d_max_namlen zero_desc = 0"
  "d_dirent_size zero_desc = 0" "d_synth_dot zero_desc = False"
  "d_freemap zero_desc = Freemap_list" "d_ifmt zero_desc = 0" "d_ifdir zero_desc = 0"
  "d_ifreg zero_desc = 0" "d_ifchr zero_desc = 0" "d_ifblk zero_desc = 0" "d_iflnk zero_desc = 0"
  "d_ifsock zero_desc = 0" "d_ifmpc zero_desc = 0" "d_ifmpb zero_desc = 0"
  "d_mode zero_desc = Mode_derived" "d_sb_codec zero_desc = False"
  by (simp_all add: zero_desc_def)

lemma v7_desc_fields [simp]:
  "d_ops v7_desc = Some V7fs_ops" "d_alloc v7_desc = Freelist_alloc_ops" "d_name v7_desc = ''v7''"
  "d_bo v7_desc = ME" "d_bsize v7_desc = 512" "d_nicfree v7_desc = 50" "d_nicinod v7_desc = 100"
  "d_pack4 v7_desc = False" "d_interleave v7_desc = False" "d_magic v7_desc = 0"
  "d_magic_off v7_desc = 0" "d_dyn_bsize v7_desc = False" "d_has_dinfo v7_desc = False"
  "d_has_state v7_desc = False" "d_ignore_magic v7_desc = False" "d_fmod_back v7_desc = 2"
  "d_has_fmod v7_desc = True" "d_size_bits v7_desc = 0" "d_rootino v7_desc = 2"
  "d_inode_size v7_desc = 64" "d_ndaddr v7_desc = 10" "d_niaddr v7_desc = 13"
  "d_addr_width v7_desc = 3" "d_daddr_wid v7_desc = 4" "d_df_nfree_wid v7_desc = 2"
  "d_isize_count v7_desc = False" "d_nindir v7_desc = 128" "d_ilarg_mask v7_desc = 0"
  "d_iallocated v7_desc = 0" "d_large_single v7_desc = 0" "d_large_double v7_desc = 0"
  "d_badino v7_desc = 1" "d_word v7_desc = None" "d_max_namlen v7_desc = 14"
  "d_dirent_size v7_desc = 16" "d_synth_dot v7_desc = False" "d_freemap v7_desc = Freemap_list"
  "d_ifmt v7_desc = 0xF000" "d_ifdir v7_desc = 0x4000" "d_ifreg v7_desc = 0x8000"
  "d_ifchr v7_desc = 0x2000" "d_ifblk v7_desc = 0x6000" "d_iflnk v7_desc = 0"
  "d_ifsock v7_desc = 0" "d_ifmpc v7_desc = 0x3000" "d_ifmpb v7_desc = 0x7000"
  "d_mode v7_desc = Mode_derived" "d_sb_codec v7_desc = False"
  by (simp_all add: v7_desc_def)

lemma v6_desc_fields [simp]:
  "d_ops v6_desc = Some V6fs_ops" "d_alloc v6_desc = Freelist_alloc_ops" "d_name v6_desc = ''v6''"
  "d_bo v6_desc = ME" "d_bsize v6_desc = 512" "d_nicfree v6_desc = 100" "d_nicinod v6_desc = 100"
  "d_pack4 v6_desc = False" "d_interleave v6_desc = False" "d_magic v6_desc = 0"
  "d_magic_off v6_desc = 0" "d_dyn_bsize v6_desc = False" "d_has_dinfo v6_desc = False"
  "d_has_state v6_desc = False" "d_ignore_magic v6_desc = False" "d_fmod_back v6_desc = 0"
  "d_has_fmod v6_desc = True" "d_size_bits v6_desc = 24" "d_rootino v6_desc = 1"
  "d_inode_size v6_desc = 32" "d_ndaddr v6_desc = 8" "d_niaddr v6_desc = 8"
  "d_addr_width v6_desc = 0" "d_daddr_wid v6_desc = 2" "d_df_nfree_wid v6_desc = 2"
  "d_isize_count v6_desc = True" "d_nindir v6_desc = 256" "d_ilarg_mask v6_desc = 0x1000"
  "d_iallocated v6_desc = 0x8000" "d_large_single v6_desc = 7" "d_large_double v6_desc = 1"
  "d_badino v6_desc = 0" "d_word v6_desc = None" "d_max_namlen v6_desc = 14"
  "d_dirent_size v6_desc = 16" "d_synth_dot v6_desc = False" "d_freemap v6_desc = Freemap_list"
  "d_ifmt v6_desc = 0x6000" "d_ifdir v6_desc = 0x4000" "d_ifreg v6_desc = 0"
  "d_ifchr v6_desc = 0x2000" "d_ifblk v6_desc = 0x6000" "d_iflnk v6_desc = 0"
  "d_ifsock v6_desc = 0" "d_ifmpc v6_desc = 0" "d_ifmpb v6_desc = 0"
  "d_mode v6_desc = Mode_derived" "d_sb_codec v6_desc = False"
  by (simp_all add: v6_desc_def)

lemma v1_desc_fields [simp]:
  "d_ops v1_desc = Some V1fs_ops" "d_alloc v1_desc = Bitmap_alloc_ops" "d_name v1_desc = ''v1''"
  "d_bo v1_desc = ME" "d_bsize v1_desc = 512" "d_nicfree v1_desc = 0" "d_nicinod v1_desc = 0"
  "d_pack4 v1_desc = False" "d_interleave v1_desc = False" "d_magic v1_desc = 0"
  "d_magic_off v1_desc = 0" "d_dyn_bsize v1_desc = False" "d_has_dinfo v1_desc = False"
  "d_has_state v1_desc = False" "d_ignore_magic v1_desc = False" "d_fmod_back v1_desc = 0"
  "d_has_fmod v1_desc = False" "d_size_bits v1_desc = 16" "d_rootino v1_desc = 41"
  "d_inode_size v1_desc = 32" "d_ndaddr v1_desc = 8" "d_niaddr v1_desc = 8"
  "d_addr_width v1_desc = 0" "d_daddr_wid v1_desc = 2" "d_df_nfree_wid v1_desc = 0"
  "d_isize_count v1_desc = False" "d_nindir v1_desc = 256" "d_ilarg_mask v1_desc = 0x1000"
  "d_iallocated v1_desc = 0" "d_large_single v1_desc = 8" "d_large_double v1_desc = 0"
  "d_badino v1_desc = 0" "d_word v1_desc = None" "d_max_namlen v1_desc = 8"
  "d_dirent_size v1_desc = 10" "d_synth_dot v1_desc = False" "d_freemap v1_desc = Freemap_list"
  "d_ifmt v1_desc = 0" "d_ifdir v1_desc = 0" "d_ifreg v1_desc = 0" "d_ifchr v1_desc = 0"
  "d_ifblk v1_desc = 0" "d_iflnk v1_desc = 0" "d_ifsock v1_desc = 0" "d_ifmpc v1_desc = 0"
  "d_ifmpb v1_desc = 0" "d_mode v1_desc = Mode_v1" "d_sb_codec v1_desc = False"
  by (simp_all add: v1_desc_def)

lemma pdp7_desc_fields [simp]:
  "d_ops pdp7_desc = Some P7fs_ops" "d_alloc pdp7_desc = Pdp7_alloc_ops"
  "d_name pdp7_desc = ''pdp7''" "d_bo pdp7_desc = ME" "d_bsize pdp7_desc = 128"
  "d_nicfree pdp7_desc = 0" "d_nicinod pdp7_desc = 0" "d_pack4 pdp7_desc = False"
  "d_interleave pdp7_desc = False" "d_magic pdp7_desc = 0" "d_magic_off pdp7_desc = 0"
  "d_dyn_bsize pdp7_desc = False" "d_has_dinfo pdp7_desc = False" "d_has_state pdp7_desc = False"
  "d_ignore_magic pdp7_desc = False" "d_fmod_back pdp7_desc = 0" "d_has_fmod pdp7_desc = False"
  "d_size_bits pdp7_desc = 0" "d_rootino pdp7_desc = 4" "d_inode_size pdp7_desc = 12"
  "d_ndaddr pdp7_desc = 7" "d_niaddr pdp7_desc = 7" "d_addr_width pdp7_desc = 0"
  "d_daddr_wid pdp7_desc = 0" "d_df_nfree_wid pdp7_desc = 0" "d_isize_count pdp7_desc = False"
  "d_nindir pdp7_desc = 64" "d_ilarg_mask pdp7_desc = 0x10000" "d_iallocated pdp7_desc = 0"
  "d_large_single pdp7_desc = 7" "d_large_double pdp7_desc = 0" "d_badino pdp7_desc = 0"
  "d_word pdp7_desc = Some Word_rb09" "d_max_namlen pdp7_desc = 8" "d_dirent_size pdp7_desc = 8"
  "d_synth_dot pdp7_desc = True" "d_freemap pdp7_desc = Freemap_list" "d_ifmt pdp7_desc = 0"
  "d_ifdir pdp7_desc = 0" "d_ifreg pdp7_desc = 0" "d_ifchr pdp7_desc = 0" "d_ifblk pdp7_desc = 0"
  "d_iflnk pdp7_desc = 0" "d_ifsock pdp7_desc = 0" "d_ifmpc pdp7_desc = 0" "d_ifmpb pdp7_desc = 0"
  "d_mode pdp7_desc = Mode_p7" "d_sb_codec pdp7_desc = False"
  by (simp_all add: pdp7_desc_def)

lemma bsd211_desc_fields [simp]:
  "d_ops bsd211_desc = Some Bsd211fs_ops" "d_alloc bsd211_desc = Freelist_alloc_ops"
  "d_name bsd211_desc = ''bsd211''" "d_bo bsd211_desc = ME" "d_bsize bsd211_desc = 1024"
  "d_nicfree bsd211_desc = 50" "d_nicinod bsd211_desc = 100" "d_pack4 bsd211_desc = False"
  "d_interleave bsd211_desc = False" "d_magic bsd211_desc = 0" "d_magic_off bsd211_desc = 0"
  "d_dyn_bsize bsd211_desc = False" "d_has_dinfo bsd211_desc = False"
  "d_has_state bsd211_desc = False" "d_ignore_magic bsd211_desc = False"
  "d_fmod_back bsd211_desc = 3" "d_has_fmod bsd211_desc = False" "d_size_bits bsd211_desc = 0"
  "d_rootino bsd211_desc = 2" "d_inode_size bsd211_desc = 64" "d_ndaddr bsd211_desc = 4"
  "d_niaddr bsd211_desc = 7" "d_addr_width bsd211_desc = 4" "d_daddr_wid bsd211_desc = 4"
  "d_df_nfree_wid bsd211_desc = 2" "d_isize_count bsd211_desc = False" "d_nindir bsd211_desc = 256"
  "d_ilarg_mask bsd211_desc = 0" "d_iallocated bsd211_desc = 0" "d_large_single bsd211_desc = 0"
  "d_large_double bsd211_desc = 0" "d_badino bsd211_desc = 1" "d_word bsd211_desc = None"
  "d_max_namlen bsd211_desc = 63" "d_dirent_size bsd211_desc = 0" "d_synth_dot bsd211_desc = False"
  "d_freemap bsd211_desc = Freemap_list" "d_ifmt bsd211_desc = 0xF000"
  "d_ifdir bsd211_desc = 0x4000" "d_ifreg bsd211_desc = 0x8000" "d_ifchr bsd211_desc = 0x2000"
  "d_ifblk bsd211_desc = 0x6000" "d_iflnk bsd211_desc = 0xA000" "d_ifsock bsd211_desc = 0xC000"
  "d_ifmpc bsd211_desc = 0" "d_ifmpb bsd211_desc = 0" "d_mode bsd211_desc = Mode_derived"
  "d_sb_codec bsd211_desc = False"
  by (simp_all add: bsd211_desc_def)

lemma v8_desc_fields [simp]:
  "d_ops v8_desc = Some V7fs_ops" "d_alloc v8_desc = Freelist_alloc_ops" "d_name v8_desc = ''v8''"
  "d_bo v8_desc = LE" "d_bsize v8_desc = 1024" "d_nicfree v8_desc = 178" "d_nicinod v8_desc = 100"
  "d_pack4 v8_desc = False" "d_interleave v8_desc = False" "d_magic v8_desc = 0"
  "d_magic_off v8_desc = 0" "d_dyn_bsize v8_desc = False" "d_has_dinfo v8_desc = False"
  "d_has_state v8_desc = False" "d_ignore_magic v8_desc = False" "d_fmod_back v8_desc = 0"
  "d_has_fmod v8_desc = True" "d_size_bits v8_desc = 0" "d_rootino v8_desc = 2"
  "d_inode_size v8_desc = 64" "d_ndaddr v8_desc = 10" "d_niaddr v8_desc = 13"
  "d_addr_width v8_desc = 3" "d_daddr_wid v8_desc = 4" "d_df_nfree_wid v8_desc = 4"
  "d_isize_count v8_desc = False" "d_nindir v8_desc = 256" "d_ilarg_mask v8_desc = 0"
  "d_iallocated v8_desc = 0" "d_large_single v8_desc = 0" "d_large_double v8_desc = 0"
  "d_badino v8_desc = 0" "d_word v8_desc = None" "d_max_namlen v8_desc = 14"
  "d_dirent_size v8_desc = 16" "d_synth_dot v8_desc = False" "d_freemap v8_desc = Freemap_list"
  "d_ifmt v8_desc = 0xF000" "d_ifdir v8_desc = 0x4000" "d_ifreg v8_desc = 0x8000"
  "d_ifchr v8_desc = 0x2000" "d_ifblk v8_desc = 0x6000" "d_iflnk v8_desc = 0xA000"
  "d_ifsock v8_desc = 0" "d_ifmpc v8_desc = 0" "d_ifmpb v8_desc = 0"
  "d_mode v8_desc = Mode_derived" "d_sb_codec v8_desc = True"
  by (simp_all add: v8_desc_def)

section \<open>Editions\<close>

datatype edition =
    FILSYS_PDP7 | FILSYS_V1 | FILSYS_V6 | FILSYS_V7 | FILSYS_V8 | FILSYS_V9 | FILSYS_V10
  | FILSYS_32V | FILSYS_COHERENT | FILSYS_XENIX | FILSYS_BSD29 | FILSYS_BSD211
  | FILSYS_SYSIII | FILSYS_SVR2 | FILSYS_SVR4 | FILSYS_UNIX

fun filsys_getformat :: "edition \<Rightarrow> filsys_desc" where
  "filsys_getformat FILSYS_PDP7 = pdp7_desc"
| "filsys_getformat FILSYS_V1 = v1_desc"
| "filsys_getformat FILSYS_V6 = v6_desc"
| "filsys_getformat FILSYS_BSD211 = bsd211_desc"
| "filsys_getformat FILSYS_V7 = v7_desc"
| "filsys_getformat FILSYS_V8 = v8_desc"
| "filsys_getformat FILSYS_V9 =
     v8_desc\<lparr>d_name := ''v9'', d_bsize := 8192, d_bo := BE, d_nicfree := 946,
             d_nindir := 2048, d_mode := Mode_v910\<rparr>"
| "filsys_getformat FILSYS_V10 = v8_desc\<lparr>d_name := ''v10'', d_mode := Mode_v910\<rparr>"
| "filsys_getformat FILSYS_32V = v7_desc\<lparr>d_name := ''vax32'', d_bo := LE, d_pack4 := True\<rparr>"
| "filsys_getformat FILSYS_COHERENT =
     v7_desc\<lparr>d_name := ''coherent'', d_nicfree := 64, d_interleave := True\<rparr>"
| "filsys_getformat FILSYS_XENIX =
     v7_desc\<lparr>d_name := ''xenix'', d_bsize := 1024, d_bo := LE, d_nicfree := 100,
             d_nindir := 256, d_magic := 0x2b5544, d_magic_off := 0x3F8\<rparr>"
| "filsys_getformat FILSYS_BSD29 =
     v7_desc\<lparr>d_name := ''bsd29'', d_bsize := 1024, d_ndaddr := 4, d_niaddr := 7, d_nindir := 256\<rparr>"
| "filsys_getformat FILSYS_SYSIII =
     v7_desc\<lparr>d_name := ''sysiii'', d_bo := LE, d_pack4 := True, d_has_dinfo := True\<rparr>"
| "filsys_getformat FILSYS_SVR2 =
     v7_desc\<lparr>d_name := ''sysvr2'', d_bo := LE, d_pack4 := True, d_magic := 0xfd187e20,
             d_magic_off := 504, d_dyn_bsize := True, d_has_dinfo := True\<rparr>"
| "filsys_getformat FILSYS_SVR4 =
     v7_desc\<lparr>d_name := ''sysvr4'', d_bo := LE, d_pack4 := True, d_magic := 0xfd187e20,
             d_magic_off := 504, d_dyn_bsize := True, d_has_state := True, d_has_dinfo := True\<rparr>"
| "filsys_getformat FILSYS_UNIX = zero_desc"

section \<open>Edition and architecture names\<close>

definition formats :: "(edition \<times> string \<times> string list) list" where
  "formats =
     [(FILSYS_PDP7, ''pdp7'', [''0'', ''p7'']),
      (FILSYS_V1, ''v1'', [''1'', ''2'', ''3'']),
      (FILSYS_V6, ''v6'', [''4'', ''5'', ''6'', ''usgpg3'']),
      (FILSYS_V7, ''v7'', [''7'', ''sysvr1'']),
      (FILSYS_V8, ''v8'', [''8'']),
      (FILSYS_V9, ''v9'', [''9'']),
      (FILSYS_V10, ''v10'', [''10'']),
      (FILSYS_32V, ''vax32'', [''32v'', ''32'']),
      (FILSYS_COHERENT, ''coherent'', [''coh'', ''33'']),
      (FILSYS_XENIX, ''xenix'', [''34'']),
      (FILSYS_BSD29, ''bsd29'', [''35'']),
      (FILSYS_BSD211, ''bsd211'', [''36'']),
      (FILSYS_SYSIII, ''sysiii'', [''sys3'']),
      (FILSYS_SVR2, ''sysvr2'', [''sys5'', ''s5'', ''sysv2'', ''sysv'', ''sysvax'', ''sysv386'']),
      (FILSYS_SVR4, ''sysvr4'', [''svr4'', ''sysv4'', ''s5r4''])]"

fun find_format :: "string \<Rightarrow> (edition \<times> string \<times> string list) list \<Rightarrow> edition option" where
  "find_format name [] = None"
| "find_format name ((e, n, aliases) # fs) =
     (if name = n then Some e
      else if name \<in> set aliases then Some e
      else find_format name fs)"

definition filsys_edition_by_name :: "string option \<Rightarrow> edition option" where
  "filsys_edition_by_name nm =
     (case nm of
        None \<Rightarrow> None
      | Some name \<Rightarrow>
          if name = ''vax32'' \<or> name = ''VAX32'' then Some FILSYS_32V
          else if name = ''unix'' \<or> name = ''auto'' \<or> name = ''any'' then Some FILSYS_UNIX
          else find_format
                 (case name of [] \<Rightarrow> [] | c # cs \<Rightarrow> if c = CHR ''v'' \<or> c = CHR ''V'' then cs else name)
                 formats)"

definition filsys_arch_bo :: "string option \<Rightarrow> byte_order option" where
  "filsys_arch_bo arch =
     (case arch of
        None \<Rightarrow> None
      | Some a \<Rightarrow> map_of
          [(''pdp11'', ME),
           (''vax'', LE), (''x86'', LE), (''386'', LE), (''i386'', LE),
           (''ns32k'', LE), (''ns32000'', LE), (''i860'', LE), (''clipper'', LE),
           (''3b2'', BE), (''3b20'', BE), (''we32000'', BE),
           (''68k'', BE), (''m68k'', BE), (''68000'', BE),
           (''sparc'', BE), (''mips'', BE),
           (''parisc'', BE), (''hppa'', BE), (''powerpc'', BE), (''ppc'', BE)] a)"

section \<open>Mode conversion\<close>

datatype ftype = FT_REG | FT_DIR | FT_CHR | FT_BLK | FT_LNK

text \<open>The host's \<^verbatim>\<open>sys/stat.h\<close> bits.\<close>

abbreviation "S_IFDIR \<equiv> (0x4000 :: u32)"
abbreviation "S_IFREG \<equiv> (0x8000 :: u32)"
abbreviation "S_IFCHR \<equiv> (0x2000 :: u32)"
abbreviation "S_IFBLK \<equiv> (0x6000 :: u32)"
abbreviation "S_IFLNK \<equiv> (0xA000 :: u32)"
abbreviation "S_IFSOCK \<equiv> (0xC000 :: u32)"

definition has :: "u32 \<Rightarrow> u32 \<Rightarrow> bool" where
  "has m b \<longleftrightarrow> m AND b \<noteq> 0"

definition flag :: "bool \<Rightarrow> u32 \<Rightarrow> u32" where
  "flag c b = (if c then b else 0)"

definition to_v1_mode :: "u32 \<Rightarrow> bool \<Rightarrow> u32" where
  "to_v1_mode m isdir =
     0x8000 OR flag isdir 0x4000
     OR flag (has m 0x100) 0x8 OR flag (has m 0x80) 0x4 OR flag (has m 0x40) 0x10
     OR flag (has m 0x20 \<or> has m 0x4) 0x2 OR flag (has m 0x10 \<or> has m 0x2) 0x1
     OR flag (has m 0x800) 0x20"

definition to_p7_mode :: "u32 \<Rightarrow> bool \<Rightarrow> u32" where
  "to_p7_mode m isdir =
     0x20000 OR flag isdir 0x10
     OR flag (has m 0x100) 0x8 OR flag (has m 0x80) 0x4
     OR flag (has m 0x20 \<or> has m 0x4) 0x2 OR flag (has m 0x10 \<or> has m 0x2) 0x1"

definition v1_to_posix_mode :: "filsys_inode \<Rightarrow> u32" where
  "v1_to_posix_mode ip =
     (let m = ip_mode ip in
      (if has m 0x4000 then S_IFDIR else S_IFREG)
      OR flag (has m 0x8) 0x100 OR flag (has m 0x4) 0x80 OR flag (has m 0x10) 0x49
      OR flag (has m 0x2) 0x24 OR flag (has m 0x1) 0x12 OR flag (has m 0x20) 0x800)"

definition v1_is_dir :: "filsys_inode \<Rightarrow> bool" where
  "v1_is_dir ip \<longleftrightarrow> has (ip_mode ip) 0x4000"

definition v1_is_device :: "filsys_inode \<Rightarrow> bool" where
  "v1_is_device ip \<longleftrightarrow> ip_ino ip < 41"

definition v1_to_disk_mode :: "u32 \<Rightarrow> ftype \<Rightarrow> u32" where
  "v1_to_disk_mode m type = to_v1_mode m (type = FT_DIR)"

definition v1_chmod_mode :: "u32 \<Rightarrow> u32 \<Rightarrow> u32" where
  "v1_chmod_mode old m =
     (let bits = to_v1_mode m False AND 0x3F;
          bits = (if has old 0x4000 then bits AND NOT (0x20 OR 0x10) else bits)
      in (old AND 0xFFC0) OR bits)"

definition p7_to_posix_mode :: "filsys_inode \<Rightarrow> u32" where
  "p7_to_posix_mode ip =
     (let m = ip_mode ip in
      (if has m 0x10 then S_IFDIR else if has m 0x20 then S_IFCHR else S_IFREG)
      OR flag (has m 0x8) 0x100 OR flag (has m 0x4) 0x80
      OR flag (has m 0x2) 0x24 OR flag (has m 0x1) 0x12)"

definition p7_is_dir :: "filsys_inode \<Rightarrow> bool" where
  "p7_is_dir ip \<longleftrightarrow> has (ip_mode ip) 0x10"

definition p7_is_device :: "filsys_inode \<Rightarrow> bool" where
  "p7_is_device ip \<longleftrightarrow> has (ip_mode ip) 0x20"

definition p7_to_disk_mode :: "u32 \<Rightarrow> ftype \<Rightarrow> u32" where
  "p7_to_disk_mode m type =
     to_p7_mode m (type = FT_DIR) OR flag (type = FT_CHR \<or> type = FT_BLK) 0x20"

definition p7_chmod_mode :: "u32 \<Rightarrow> u32 \<Rightarrow> u32" where
  "p7_chmod_mode old m = (old AND NOT 0xF) OR (to_p7_mode m False AND 0xF)"

text \<open>The type bits of the V7 family, read through the descriptor's constants.\<close>

definition v910_type_bits :: "filsys_desc \<Rightarrow> u32 \<Rightarrow> u32" where
  "v910_type_bits d t =
     (if t = d_ifdir d then S_IFDIR
      else if t = d_ifchr d \<or> (d_ifmpc d \<noteq> 0 \<and> t = d_ifmpc d) then S_IFCHR
      else if t = d_ifblk d \<or> (d_ifmpb d \<noteq> 0 \<and> t = d_ifmpb d) then S_IFBLK
      else if d_iflnk d \<noteq> 0 \<and> t = d_iflnk d then S_IFLNK
      else S_IFREG)"

definition v910_to_posix_mode :: "filsys_desc \<Rightarrow> filsys_inode \<Rightarrow> u32" where
  "v910_to_posix_mode d ip =
     (let m = ip_mode ip in
      (m AND 0x1FF) OR flag (\<not> has m 0x200 \<and> has m 0x800) 0x800
      OR flag (\<not> has m 0x200 \<and> has m 0x400) 0x400
      OR v910_type_bits d (m AND d_ifmt d))"

definition mode_to_posix :: "filsys_desc \<Rightarrow> filsys_inode \<Rightarrow> u32" where
  "mode_to_posix d ip =
     (case d_mode d of
        Mode_v1 \<Rightarrow> v1_to_posix_mode ip
      | Mode_p7 \<Rightarrow> p7_to_posix_mode ip
      | Mode_v910 \<Rightarrow> v910_to_posix_mode d ip
      | Mode_derived \<Rightarrow>
          let t = ip_mode ip AND d_ifmt d in
          (ip_mode ip AND 0xFFF) OR
          (if t = d_ifdir d then S_IFDIR
           else if t = d_ifchr d \<or> (d_ifmpc d \<noteq> 0 \<and> t = d_ifmpc d) then S_IFCHR
           else if t = d_ifblk d \<or> (d_ifmpb d \<noteq> 0 \<and> t = d_ifmpb d) then S_IFBLK
           else if d_iflnk d \<noteq> 0 \<and> t = d_iflnk d then S_IFLNK
           else if d_ifsock d \<noteq> 0 \<and> t = d_ifsock d then S_IFSOCK
           else S_IFREG))"

definition mode_is_dir :: "filsys_desc \<Rightarrow> filsys_inode \<Rightarrow> bool" where
  "mode_is_dir d ip \<longleftrightarrow>
     (case d_mode d of
        Mode_v1 \<Rightarrow> v1_is_dir ip
      | Mode_p7 \<Rightarrow> p7_is_dir ip
      | _ \<Rightarrow> ip_mode ip AND d_ifmt d = d_ifdir d)"

definition mode_is_device :: "filsys_desc \<Rightarrow> filsys_inode \<Rightarrow> bool" where
  "mode_is_device d ip \<longleftrightarrow>
     (case d_mode d of
        Mode_v1 \<Rightarrow> v1_is_device ip
      | Mode_p7 \<Rightarrow> p7_is_device ip
      | _ \<Rightarrow> let t = ip_mode ip AND d_ifmt d in
          t = d_ifchr d \<or> t = d_ifblk d \<or> (d_ifmpc d \<noteq> 0 \<and> t = d_ifmpc d) \<or>
          (d_ifmpb d \<noteq> 0 \<and> t = d_ifmpb d))"

definition mode_to_disk :: "filsys_desc \<Rightarrow> u32 \<Rightarrow> ftype \<Rightarrow> u32" where
  "mode_to_disk d m type =
     (case d_mode d of
        Mode_v1 \<Rightarrow> v1_to_disk_mode m type
      | Mode_p7 \<Rightarrow> p7_to_disk_mode m type
      | _ \<Rightarrow>
          let base = (m AND 0xFFF) OR d_iallocated d in
          (case type of
             FT_DIR \<Rightarrow> base OR d_ifdir d
           | FT_CHR \<Rightarrow> base OR d_ifchr d
           | FT_BLK \<Rightarrow> base OR d_ifblk d
           | FT_LNK \<Rightarrow> base OR d_iflnk d
           | FT_REG \<Rightarrow> if d_ifreg d \<noteq> 0 then base OR d_ifreg d else base))"

definition mode_chmod :: "filsys_desc \<Rightarrow> u32 \<Rightarrow> u32 \<Rightarrow> u32" where
  "mode_chmod d old m =
     (case d_mode d of
        Mode_v1 \<Rightarrow> v1_chmod_mode old m
      | Mode_p7 \<Rightarrow> p7_chmod_mode old m
      | _ \<Rightarrow> (old AND NOT 0xFFF) OR (m AND 0xFFF))"

definition uidgid_fit :: "u32 \<Rightarrow> u32 \<Rightarrow> errno + unit" where
  "uidgid_fit uid gid = (if uid > 32767 \<or> gid > 32767 then Inl EINVAL else Inr ())"

section \<open>Size limit, clean flag, geometry overrides\<close>

definition filsys_is_clean :: "filsys_edition \<Rightarrow> bool" where
  "filsys_is_clean fs \<longleftrightarrow> d_has_fmod (fs_desc fs) \<and> fs_fmod fs = 0"

definition filsys_max_file_op :: "filsys_desc \<Rightarrow> nat" where
  "filsys_max_file_op d =
     (let n = d_nindir d;
          cap = (d_ndaddr d + n + n * n + n * n * n) * d_bsize d;
          cap = (if cap > 4294967295 then 4294967295 else cap)
      in if d_size_bits d \<noteq> 0 \<and> cap > 2 ^ d_size_bits d - 1 then 2 ^ d_size_bits d - 1 else cap)"

record filsys_geom =
  g_blocksize :: nat
  g_freemap :: "freemap_form option"
  g_byteorder :: "string option"

definition geom_check :: "edition \<Rightarrow> nat \<Rightarrow> freemap_form \<Rightarrow> bool" where
  "geom_check ed bs fm \<longleftrightarrow>
     \<not> (fm = Freemap_bigmap \<and> ed \<noteq> FILSYS_V10) \<and>
     (if ed = FILSYS_V9 then bs = 8192
      else \<not> (bs = 1024 \<and> fm \<noteq> Freemap_list) \<and> \<not> (bs = 4096 \<and> fm = Freemap_list) \<and>
           (bs = 1024 \<or> bs = 4096))"

definition filsys_apply_geom :: "filsys_desc \<Rightarrow> edition \<Rightarrow> filsys_geom \<Rightarrow> errno + filsys_desc" where
  "filsys_apply_geom d ed g =
     (let bs = (if g_blocksize g \<noteq> 0 then g_blocksize g else d_bsize d);
          fm = (case g_freemap g of Some f \<Rightarrow> f
                | None \<Rightarrow> if bs = 4096 then Freemap_bitmap else Freemap_list)
      in if \<not> geom_check ed bs fm then Inl EINVAL
         else case (case g_byteorder g of
                      None \<Rightarrow> Some (d_bo d)
                    | Some s \<Rightarrow> if s = ''le'' then Some LE else if s = ''be'' then Some BE else None) of
           None \<Rightarrow> Inl EINVAL
         | Some bo \<Rightarrow> Inr (d\<lparr>d_bo := bo, d_bsize := bs, d_nindir := bs div 4, d_freemap := fm,
               d_alloc := (if fm = Freemap_list then Freelist_alloc_ops else V8_bitmap_alloc_ops)\<rparr>))"

section \<open>Byte order from the magic word\<close>

definition magic_byte_offset :: "filsys_desc \<Rightarrow> nat" where
  "magic_byte_offset d = (if d_dyn_bsize d then 512 else d_bsize d) + d_magic_off d"

text \<open>
  \<open>opened\<close> is what \<^verbatim>\<open>open\<close> of the image path yields: an errno or the host holding it.
\<close>

definition filsys_resolve_byteorder ::
    "filsys_desc \<Rightarrow> errno + host \<Rightarrow> nat \<Rightarrow> string option \<Rightarrow> bool \<Rightarrow> errno + filsys_desc" where
  "filsys_resolve_byteorder d opened offset arch force =
     (let arch_bo = filsys_arch_bo arch in
      if arch \<noteq> None \<and> arch_bo = None then Inl EINVAL
      else let d = (if arch_bo = Some ME then d\<lparr>d_pack4 := False\<rparr> else d) in
        if d_magic d = 0 then Inr (case arch_bo of None \<Rightarrow> d | Some bo \<Rightarrow> d\<lparr>d_bo := bo\<rparr>)
        else case opened of
          Inl e \<Rightarrow> Inl e
        | Inr h \<Rightarrow>
            let moff = magic_byte_offset d + offset in
            if h_len h < moff + 4 \<or> h_rd_err h moff 4 then Inl EIO
            else let m = img_read (h_img h) moff 4;
                     hit = (\<lambda>bo. bo_get32 bo m 0 = d_magic d) in
              (case arch_bo of
                 Some bo \<Rightarrow>
                   if hit bo then Inr (d\<lparr>d_bo := bo\<rparr>)
                   else if hit LE \<or> hit BE \<or> hit ME then Inl EINVAL
                   else if force then Inr (d\<lparr>d_bo := bo, d_ignore_magic := True\<rparr>)
                   else Inl EILSEQ
               | None \<Rightarrow>
                   if hit LE then Inr (d\<lparr>d_bo := LE\<rparr>)
                   else if hit BE then Inr (d\<lparr>d_bo := BE\<rparr>)
                   else if hit ME then Inr (d\<lparr>d_bo := ME\<rparr>)
                   else Inl EILSEQ))"

definition filsys_word_codec_by_name :: "string \<Rightarrow> word_codec option" where
  "filsys_word_codec_by_name name =
     (if name = ''rb09'' \<or> name = ''simh'' then Some Word_rb09
      else if name = ''packed18'' \<or> name = ''packed'' then Some Word_packed18
      else if name = ''rim'' then Some Word_rim else None)"

section \<open>Every row is well formed\<close>

definition v7_family :: "edition list" where
  "v7_family = [FILSYS_V7, FILSYS_32V, FILSYS_COHERENT, FILSYS_XENIX, FILSYS_BSD29, FILSYS_BSD211,
     FILSYS_SYSIII, FILSYS_SVR2, FILSYS_SVR4]"

text \<open>The superblock bytes of a row: 512 for System V, a block otherwise.\<close>

definition desc_super_len :: "filsys_desc \<Rightarrow> nat" where
  "desc_super_len d = (if d_dyn_bsize d then 512 else d_bsize d)"

lemma v7_family_layout:
  "\<forall>e \<in> set v7_family. v7_layout (filsys_getformat e) (desc_super_len (filsys_getformat e))"
  by (simp add: v7_family_def v7_layout_def desc_super_len_def sb_off_defs)

lemma v7_family_layout_pdp11:
  "\<forall>e \<in> set v7_family.
     v7_layout ((filsys_getformat e)\<lparr>d_pack4 := False\<rparr>) (desc_super_len (filsys_getformat e))"
  by (simp add: v7_family_def v7_layout_def desc_super_len_def sb_off_defs)

text \<open>Names: a canonical name and every alias select their own row.\<close>

lemma edition_names_resolve:
  "\<forall>(e, n, aliases) \<in> set formats. \<forall>s \<in> set (n # aliases). filsys_edition_by_name (Some s) = Some e"
  unfolding formats_def by (simp add: filsys_edition_by_name_def formats_def)

section \<open>Mode conversion laws\<close>

lemmas mask_algebra = bit.conj_disj_distrib2 bit.conj_disj_distrib and.assoc

lemma mode_chmod_bits:
  assumes "d_mode d = Mode_derived \<or> d_mode d = Mode_v910"
  shows "mode_chmod d old m AND 0xFFF = m AND 0xFFF"
    and "mode_chmod d old m AND NOT 0xFFF = old AND NOT 0xFFF"
  using assms by (auto simp: mode_chmod_def mask_algebra)

fun posix_type :: "ftype \<Rightarrow> u32" where
  "posix_type FT_REG = S_IFREG"
| "posix_type FT_DIR = S_IFDIR"
| "posix_type FT_CHR = S_IFCHR"
| "posix_type FT_BLK = S_IFBLK"
| "posix_type FT_LNK = S_IFLNK"

definition has_type :: "filsys_desc \<Rightarrow> ftype \<Rightarrow> bool" where
  "has_type d t \<longleftrightarrow> t \<noteq> FT_LNK \<or> d_iflnk d \<noteq> 0"

lemma mode_roundtrip_derived:
  assumes "e \<in> {FILSYS_V6, FILSYS_V8} \<union> set v7_family" and "has_type (filsys_getformat e) t"
  shows "mode_to_posix (filsys_getformat e) (ip\<lparr>ip_mode := mode_to_disk (filsys_getformat e) m t\<rparr>)
    = (m AND 0xFFF) OR posix_type t"
  using assms
  by (cases t)
    (auto simp: v7_family_def has_type_def mode_to_posix_def mode_to_disk_def mask_algebra)

lemma mode_dir_iff:
  assumes "e \<in> {FILSYS_V6, FILSYS_V8, FILSYS_V9, FILSYS_V10} \<union> set v7_family" and "has_type (filsys_getformat e) t"
  shows "mode_is_dir (filsys_getformat e) (ip\<lparr>ip_mode := mode_to_disk (filsys_getformat e) m t\<rparr>) \<longleftrightarrow> t = FT_DIR"
  using assms
  by (cases t)
    (auto simp: v7_family_def has_type_def mode_is_dir_def mode_to_disk_def mask_algebra)

end
