(* ===== verification/V1fs.thy ===== *)
theory V1fs
  imports Alloc_V8bitmap Inode_IO Formats
begin

text \<open>
  The V1 backend (\<^verbatim>\<open>v1fs.c\<close>): a superblock of two blocks holding a free-block map (bit set:
  free) and an inode map (bit clear: free, bit 0 is inode 41), 32-byte inodes with 8-bit owner
  and 60 Hz times, and the first-fit bitmap allocators for blocks and inodes.
\<close>

section \<open>Geometry and block access\<close>

definition v1_itod :: "u32 \<Rightarrow> u32" where
  "v1_itod ino = drop_bit 4 (ino + 31)"

definition v1_itoo :: "u32 \<Rightarrow> u32" where
  "v1_itoo ino = (ino + 31) AND 15"

definition v1_data_start :: "u32 \<Rightarrow> u32" where
  "v1_data_start maxino = (maxino + 31) div 16 + 1"

definition v1_blk_off :: "filsys_edition \<Rightarrow> u32 \<Rightarrow> nat" where
  "v1_blk_off fs bno = fs_base fs + unat bno * 512"

definition v1fs_read_block :: "filsys_edition \<Rightarrow> u32 \<Rightarrow> errno + byte list" where
  "v1fs_read_block fs bno =
     (let off = v1_blk_off fs bno in
      if \<not> filsys_check_range fs off 512 then Inl EINVAL else io_file_read fs 512 off)"

definition v1fs_write_block :: "filsys_edition \<Rightarrow> u32 \<Rightarrow> byte list \<Rightarrow> unit op" where
  "v1fs_write_block fs bno buf =
     (if fs_readonly fs then (Inl EROFS, fs)
      else let off = v1_blk_off fs bno in
        if \<not> filsys_check_range fs off 512 then (Inl EINVAL, fs)
        else io_file_write fs (take 512 buf) off)"

section \<open>The superblock\<close>

definition v1_read_super :: "filsys_edition \<Rightarrow> errno + byte list" where
  "v1_read_super fs =
     (case v1fs_read_block fs 0 of Inl _ \<Rightarrow> Inl EIO
      | Inr b0 \<Rightarrow> (case v1fs_read_block fs 1 of Inl _ \<Rightarrow> Inl EIO | Inr b1 \<Rightarrow> Inr (b0 @ b1)))"

text \<open>\<^verbatim>\<open>memcpy(p + off, src, n)\<close> inside the buffer.\<close>

definition buf_copy :: "byte list \<Rightarrow> nat \<Rightarrow> byte list \<Rightarrow> byte list" where
  "buf_copy p off src = take off p @ src @ drop (off + length src) p"

definition v1_super_image :: "filsys_edition \<Rightarrow> byte list \<Rightarrow> byte list" where
  "v1_super_image fs sb =
     (let fb = unat (freemap_bytes (fs_bm fs)); ib = unat (inodemap_bytes (fs_bm fs));
          sb = buf_copy sb 2 (take fb (freemap (fs_bm fs)))
      in buf_copy sb (2 + fb + 2) (take ib (inodemap (fs_bm fs))))"

definition v1_super_write :: "filsys_edition \<Rightarrow> unit op" where
  "v1_super_write fs =
     (if fs_readonly fs then (Inr (), fs)
      else case v1_read_super fs of
        Inl e \<Rightarrow> (Inl e, fs)
      | Inr sb \<Rightarrow>
          let sb = v1_super_image fs sb in
          try_as EIO (v1fs_write_block fs 0 (take 512 sb)) (\<lambda>_ fs.
            try_as EIO (v1fs_write_block fs 1 (drop 512 sb)) (\<lambda>_ fs.
              (Inr (), fs\<lparr>fs_fl_dirty := False\<rparr>))))"

definition v1_count :: "(nat \<Rightarrow> bool) \<Rightarrow> nat list \<Rightarrow> u32" where
  "v1_count P is = of_nat (length (filter P is))"

text \<open>
  Opening: the image is the file behind the mount's host.  The length of the inode map is read
  at an offset the free map's length gives, before that length is checked: past the 1024-byte
  buffer it is an out-of-bounds access.
\<close>

definition v1fs_open :: "filsys_edition \<Rightarrow> bool \<Rightarrow> filsys_desc \<Rightarrow> nat \<Rightarrow> unit op" where
  "v1fs_open fs ro proto offset =
     (let fs = fs\<lparr>fs_desc := proto, fs_readonly := ro, fs_base := offset\<rparr> in
      case v1_read_super fs of
        Inl e \<Rightarrow> (Inl e, fs)
      | Inr sb \<Rightarrow>
          let fb = bo_get16le sb 0;
              fs = fs\<lparr>fs_bm := (fs_bm fs)\<lparr>freemap_bytes := fb\<rparr>\<rparr>;
              ioff = 2 + unat fb in
          if 1024 < ioff + 2 then (Inl UB, fs)
          else
            let ib = bo_get16le sb ioff;
                fs = fs\<lparr>fs_bm := (fs_bm fs)\<lparr>inodemap_bytes := ib\<rparr>\<rparr> in
            if fb = 0 \<or> 1024 < ioff + 2 + unat ib then (Inl EINVAL, fs)
            else
              let fs = fs\<lparr>fs_fsize := ucast fb * 8, fs_maxino := ucast ib * 8\<rparr> in
              if fs_base fs + unat (fs_fsize fs) * 512 > h_len (fs_host fs) \<or>
                 fs_fsize fs \<le> v1_data_start (fs_maxino fs)
              then (Inl EINVAL, fs)
              else
                let fs = fs\<lparr>fs_imgsize := h_len (fs_host fs)\<rparr> in
                if \<not> (h_alloc (fs_host fs) (unat fb) \<and> h_alloc (fs_host fs) (unat ib)) then (Inl ENOMEM, fs)
                else
                  let fm = take (unat fb) (drop 2 sb);
                      im = take (unat ib) (drop (ioff + 2) sb)
                  in (Inr (), fs\<lparr>fs_bm := (fs_bm fs)\<lparr>
                       freemap := fm, inodemap := im,
                       bm_tfree := bm_tfree (fs_bm fs) +
                         v1_count (bm_test fm) [unat (v1_data_start (fs_maxino fs))..<unat (fs_fsize fs)],
                       bm_tinode := bm_tinode (fs_bm fs) +
                         v1_count (\<lambda>i. \<not> bm_test im (i - 41)) [41..<Suc (unat (fs_maxino fs))]\<rparr>\<rparr>))"

definition v1fs_close :: "filsys_edition \<Rightarrow> unit op" where
  "v1fs_close fs =
     (let (rc, fs) = (if fs_readonly fs then (Inr (), fs) else v1_super_write fs)
      in (rc, fs\<lparr>fs_bm := (fs_bm fs)\<lparr>freemap := [], inodemap := []\<rparr>\<rparr>))"

definition v1fs_sync :: "filsys_edition \<Rightarrow> unit op" where
  "v1fs_sync fs = (if fs_readonly fs then (Inr (), fs) else v1_super_write fs)"

section \<open>Inodes\<close>

definition v1_inode_decode :: "u32 \<Rightarrow> byte list \<Rightarrow> nat \<Rightarrow> filsys_inode" where
  "v1_inode_decode ino raw o' =
     (zero_inode ino)\<lparr>
        ip_mode := ucast (bo_get16le raw (o' + 0)),
        ip_nlink := ucast (raw ! (o' + 2)),
        ip_uid := ucast (raw ! (o' + 3)),
        ip_gid := 0,
        ip_size := ucast (bo_get16le raw (o' + 4)),
        ip_addr := map ucast (get_array bo_get16le 2 raw (o' + 6) 8) @ replicate 5 0,
        ip_ctime := bo_get32me raw (o' + 22) div 60,
        ip_mtime := bo_get32me raw (o' + 26) div 60,
        ip_atime := bo_get32me raw (o' + 26) div 60\<rparr>"

definition v1_inode_encode :: "byte list \<Rightarrow> nat \<Rightarrow> filsys_inode \<Rightarrow> byte list" where
  "v1_inode_encode raw o' ip =
     (let raw = bo_put16le raw (o' + 0) (ucast (ip_mode ip));
          raw = raw[o' + 2 := ucast (ip_nlink ip), o' + 3 := ucast (ip_uid ip)];
          raw = bo_put16le raw (o' + 4) (ucast (ip_size ip));
          raw = put_array bo_put16le 2 raw (o' + 6) (map ucast (take 8 (ip_addr ip)));
          raw = bo_put32me raw (o' + 22) (ip_ctime ip * 60)
      in bo_put32me raw (o' + 26) (ip_mtime ip * 60))"

definition v1fs_read_inode :: "filsys_edition \<Rightarrow> u32 \<Rightarrow> errno + filsys_inode" where
  "v1fs_read_inode fs ino =
     (if ino = 0 \<or> fs_maxino fs < ino then Inl EINVAL
      else case v1fs_read_block fs (v1_itod ino) of
        Inl _ \<Rightarrow> Inl EIO
      | Inr raw \<Rightarrow> Inr (v1_inode_decode ino raw (unat (v1_itoo ino) * 32)))"

definition v1fs_write_inode :: "filsys_edition \<Rightarrow> u32 \<Rightarrow> filsys_inode \<Rightarrow> unit op" where
  "v1fs_write_inode fs ino ip =
     (if ino = 0 \<or> fs_maxino fs < ino then (Inl EINVAL, fs)
      else try_op (if fs_fl_dirty fs then v1_super_write fs else (Inr (), fs)) (\<lambda>_ fs.
        case v1fs_read_block fs (v1_itod ino) of
          Inl _ \<Rightarrow> (Inl EIO, fs)
        | Inr raw \<Rightarrow> v1fs_write_block fs (v1_itod ino)
            (v1_inode_encode raw (unat (v1_itoo ino) * 32) ip)))"

section \<open>Allocation\<close>

definition v1fs_balloc :: "filsys_edition \<Rightarrow> u32 op" where
  "v1fs_balloc fs =
     (let ds = unat (v1_data_start (fs_maxino fs)); bm = fs_bm fs in
      case bm_scan (freemap bm) ds (unat (fs_fsize fs) - ds) of
        None \<Rightarrow> (Inl ENOSPC, fs)
      | Some b \<Rightarrow>
          let fs = fs\<lparr>fs_bm := bm\<lparr>freemap := bm_clear (freemap bm) b,
                                 bm_tfree := (if bm_tfree bm \<noteq> 0 then bm_tfree bm - 1 else bm_tfree bm)\<rparr>\<rparr>
          in try_as EIO (v1fs_write_block fs (of_nat b) (replicate 512 0))
               (\<lambda>_ fs. (Inr (of_nat b), fs\<lparr>fs_fl_dirty := True\<rparr>)))"

definition v1fs_bfree :: "filsys_edition \<Rightarrow> u32 \<Rightarrow> filsys_edition" where
  "v1fs_bfree fs bno =
     (if bno < v1_data_start (fs_maxino fs) \<or> fs_fsize fs \<le> bno then fs
      else fs\<lparr>fs_bm := (fs_bm fs)\<lparr>freemap := bm_set (freemap (fs_bm fs)) (unat bno),
                                   bm_tfree := bm_tfree (fs_bm fs) + 1\<rparr>\<rparr>)"

text \<open>The scan for a clear bit of the inode map, \<open>k\<close> inodes from \<open>i\<close> on.\<close>

fun v1_iscan :: "byte list \<Rightarrow> nat \<Rightarrow> nat \<Rightarrow> nat option" where
  "v1_iscan m i 0 = None"
| "v1_iscan m i (Suc k) = (if \<not> bm_test m (i - 41) then Some i else v1_iscan m (Suc i) k)"

definition v1fs_ialloc :: "filsys_edition \<Rightarrow> u32 op" where
  "v1fs_ialloc fs =
     (let bm = fs_bm fs in
      case v1_iscan (inodemap bm) 41 (Suc (unat (fs_maxino fs)) - 41) of
        None \<Rightarrow> (Inl ENOSPC, fs)
      | Some i \<Rightarrow> (Inr (of_nat i),
          fs\<lparr>fs_bm := bm\<lparr>inodemap := bm_set (inodemap bm) (i - 41),
                         bm_tinode := (if bm_tinode bm \<noteq> 0 then bm_tinode bm - 1 else bm_tinode bm)\<rparr>,
             fs_fl_dirty := True\<rparr>))"

definition v1fs_ifree :: "filsys_edition \<Rightarrow> u32 \<Rightarrow> filsys_edition" where
  "v1fs_ifree fs ino =
     (if ino < 41 \<or> fs_maxino fs < ino then fs
      else fs\<lparr>fs_bm := (fs_bm fs)\<lparr>inodemap := bm_clear (inodemap (fs_bm fs)) (unat (ino - 41)),
                                   bm_tinode := bm_tinode (fs_bm fs) + 1\<rparr>\<rparr>)"

section \<open>The checker's callbacks\<close>

definition v1fs_makefree :: "filsys_edition \<Rightarrow> byte list \<Rightarrow> u32 \<times> filsys_edition" where
  "v1fs_makefree fs used =
     (let ds = unat (v1_data_start (fs_maxino fs)); bm = fs_bm fs;
          free = (\<lambda>b. \<not> bm_test used (b - ds));
          blocks = [ds..<unat (fs_fsize fs)];
          fm = foldl (\<lambda>m b. if free b then bm_set m b else m)
                 (replicate (unat (freemap_bytes bm)) 0) blocks;
          n = v1_count free blocks;
          fs = fs\<lparr>fs_bm := bm\<lparr>freemap := fm, bm_tfree := n\<rparr>\<rparr>
      in (n, snd (v1_super_write fs)))"

definition v1_inode_state :: "u32 \<Rightarrow> u32 \<Rightarrow> byte" where
  "v1_inode_state ino mode =
     (if mode = 0 then IN_UNALLOC
      else if ino < 41 then IN_ICHR
      else if mode AND 0x4000 \<noteq> 0 then IN_IDIR
      else IN_IREG)"

definition v1_walk_step :: "nat \<Rightarrow> byte list \<Rightarrow> filsys_chkctx \<times> filsys_check \<Rightarrow> nat \<Rightarrow> filsys_chkctx \<times> filsys_check" where
  "v1_walk_step ds fm s b =
     (case s of (cx, rep) \<Rightarrow>
      if \<not> bm_test fm b then (cx, rep)
      else let rep = rep\<lparr>ck_free_blocks := ck_free_blocks rep + 1\<rparr> in
        if bm_test (cx_bmap cx) (b - ds)
        then (cx\<lparr>cx_dup_blocks := cx_dup_blocks cx + 1\<rparr>, rep\<lparr>ck_errors := ck_errors rep + 1\<rparr>)
        else (cx\<lparr>cx_bmap := bm_set (cx_bmap cx) (b - ds)\<rparr>, rep))"

definition v1_chk_walk_free ::
    "filsys_edition \<Rightarrow> filsys_chkctx \<Rightarrow> filsys_check \<Rightarrow> filsys_chkctx \<times> filsys_check" where
  "v1_chk_walk_free fs cx rep =
     (let ds = unat (v1_data_start (fs_maxino fs)) in
      foldl (v1_walk_step ds (freemap (fs_bm fs))) (cx, rep) [ds..<unat (fs_fsize fs)])"

section \<open>Block access agrees with the shared engine\<close>

lemma v1_block_eq:
  assumes "d_bsize (fs_desc fs) = 512"
  shows "v1_blk_off fs = blk_off fs" "v1fs_read_block fs = v7fs_read_block fs"
    "v1fs_write_block fs = v7fs_write_block fs"
  using assms
  by (simp_all add: fun_eq_iff v1_blk_off_def blk_off_def v1fs_read_block_def v7fs_read_block_def
      v1fs_write_block_def v7fs_write_block_def Let_def)

section \<open>The block map is a block allocator\<close>

definition v1_area :: "filsys_edition \<Rightarrow> u32 set" where
  "v1_area fs = {b. v1_data_start (fs_maxino fs) \<le> b \<and> b < fs_fsize fs}"

definition v1_frees :: "filsys_edition \<Rightarrow> u32 set" where
  "v1_frees fs = {b \<in> v1_area fs. bm_test (freemap (fs_bm fs)) (unat b)}"

definition v1_inv :: "filsys_edition \<Rightarrow> bool" where
  "v1_inv fs \<longleftrightarrow> host_ok fs \<and> \<not> fs_readonly fs \<and> d_bsize (fs_desc fs) = 512 \<and>
     unat (fs_fsize fs) \<le> 8 * length (freemap (fs_bm fs)) \<and>
     (\<forall>b \<in> v1_area fs. blk_in_image fs b)"

definition v1_taken :: "filsys_edition \<Rightarrow> u32 \<Rightarrow> filsys_edition" where
  "v1_taken fs b =
     (let bm = fs_bm fs;
          s = blk_store (fs\<lparr>fs_bm := bm\<lparr>freemap := bm_clear (freemap bm) (unat b),
                bm_tfree := (if bm_tfree bm \<noteq> 0 then bm_tfree bm - 1 else bm_tfree bm)\<rparr>\<rparr>) b (replicate 512 0)
      in s\<lparr>fs_fl_dirty := True\<rparr>)"

lemma v1_upd_simps [simp]:
  "host_ok (fs\<lparr>fs_bm := x\<rparr>) = host_ok fs" "blk_in_image (fs\<lparr>fs_bm := x\<rparr>) b = blk_in_image fs b"
  "host_ok (fs\<lparr>fs_fl_dirty := y\<rparr>) = host_ok fs" "blk_in_image (fs\<lparr>fs_fl_dirty := y\<rparr>) b = blk_in_image fs b"
  by (simp_all add: host_ok_def blk_in_image_def blk_off_def)

lemma v1_taken_fields [simp]:
  "freemap (fs_bm (v1_taken fs b)) = bm_clear (freemap (fs_bm fs)) (unat b)"
  "fs_fsize (v1_taken fs b) = fs_fsize fs" "fs_maxino (v1_taken fs b) = fs_maxino fs"
  "fs_readonly (v1_taken fs b) = fs_readonly fs" "fs_desc (v1_taken fs b) = fs_desc fs"
  "v1_area (v1_taken fs b) = v1_area fs" "fs_fl_dirty (v1_taken fs b)"
  "blk_in_image (v1_taken fs b) c = blk_in_image fs c"
  "inodemap (fs_bm (v1_taken fs b)) = inodemap (fs_bm fs)"
  by (simp_all add: v1_taken_def Let_def v1_area_def)

lemma v1_bit_byte: "v1_inv fs \<Longrightarrow> b \<in> v1_area fs \<Longrightarrow> unat b div 8 < length (freemap (fs_bm fs))"
  by (auto simp: v1_inv_def v1_area_def word_less_nat_alt)

lemma v1_taken_inv:
  assumes "v1_inv fs" "b \<in> v1_area fs"
  shows "v1_inv (v1_taken fs b)"
proof -
  have "host_ok (v1_taken fs b)" using assms by (simp add: v1_inv_def v1_taken_def Let_def)
  then show ?thesis using assms by (simp add: v1_inv_def)
qed

lemma v1_frees_taken:
  assumes "v1_inv fs" "b \<in> v1_area fs"
  shows "v1_frees (v1_taken fs b) = v1_frees fs - {b}"
  using bm_test_clear [OF v1_bit_byte [OF assms]] by (auto simp: v1_frees_def word_unat_eq_iff [symmetric])

text \<open>Allocation takes the lowest free block.\<close>

lemma v1_balloc_cases:
  assumes "v1_inv fs"
  obtains "v1_frees fs = {}" "v1fs_balloc fs = (Inl ENOSPC, fs)"
  | b where "b \<in> v1_frees fs" "\<forall>c \<in> v1_frees fs. b \<le> c" "v1fs_balloc fs = (Inr b, v1_taken fs b)"
proof (cases "bm_scan (freemap (fs_bm fs)) (unat (v1_data_start (fs_maxino fs)))
    (unat (fs_fsize fs) - unat (v1_data_start (fs_maxino fs)))")
  case None
  then have "v1_frees fs = {}"
    unfolding v1_frees_def v1_area_def bm_scan_none by (auto simp: word_le_nat_alt word_less_nat_alt)
  with None show thesis using that(1) by (simp add: v1fs_balloc_def Let_def)
next
  case (Some i)
  let ?b = "of_nat i :: u32"
  from Some have i: "unat (v1_data_start (fs_maxino fs)) \<le> i" "i < unat (fs_fsize fs)"
      "bm_test (freemap (fs_bm fs)) i"
      "\<forall>l. unat (v1_data_start (fs_maxino fs)) \<le> l \<and> l < i \<longrightarrow> \<not> bm_test (freemap (fs_bm fs)) l"
    by (auto simp: bm_scan_some)
  have u: "unat ?b = i" using i(2) unat_u32_bound [of "fs_fsize fs"] by (intro unat_of_nat_lt) simp
  have area: "?b \<in> v1_area fs" using i u by (simp add: v1_area_def word_le_nat_alt word_less_nat_alt)
  have free: "?b \<in> v1_frees fs" using area i(3) u by (simp add: v1_frees_def)
  have least: "\<forall>c \<in> v1_frees fs. ?b \<le> c"
    using i(4) u by (auto simp: v1_frees_def v1_area_def word_le_nat_alt not_le [symmetric])
  have "blk_in_image fs ?b" using assms area by (simp add: v1_inv_def)
  then have "v1fs_balloc fs = (Inr ?b, v1_taken fs ?b)"
    using Some assms u
    by (simp add: v1fs_balloc_def v1_taken_def Let_def v1_inv_def v1_block_eq write_block_ok)
  with free least show thesis by (rule that(2))
qed

lemma v1_bfree_ok:
  assumes "v1_inv fs" "b \<in> v1_area fs"
  shows "v1_inv (v1fs_bfree fs b)" "v1_frees (v1fs_bfree fs b) = insert b (v1_frees fs)"
    "v1_area (v1fs_bfree fs b) = v1_area fs"
proof -
  have eq: "v1fs_bfree fs b = fs\<lparr>fs_bm := (fs_bm fs)\<lparr>freemap := bm_set (freemap (fs_bm fs)) (unat b),
      bm_tfree := bm_tfree (fs_bm fs) + 1\<rparr>\<rparr>"
    using assms(2) by (auto simp: v1fs_bfree_def v1_area_def)
  show area: "v1_area (v1fs_bfree fs b) = v1_area fs" by (simp add: eq v1_area_def)
  show "v1_inv (v1fs_bfree fs b)" using assms(1) unfolding v1_inv_def area by (simp add: eq)
  show "v1_frees (v1fs_bfree fs b) = insert b (v1_frees fs)"
    using bm_test_set [OF v1_bit_byte [OF assms]] assms(2)
    unfolding v1_frees_def area by (auto simp: eq word_unat_eq_iff [symmetric])
qed

interpretation v1map: block_allocator v1_inv v1_frees v1_area v1fs_balloc v1fs_bfree
proof
  fix fs assume inv: "v1_inv fs"
  show "v1_frees fs \<subseteq> v1_area fs" by (auto simp: v1_frees_def)
  show "finite (v1_frees fs)" by simp
  show "fst (v1fs_balloc fs) = Inl ENOSPC" if "v1_frees fs = {}"
    using that by (rule_tac v1_balloc_cases [OF inv]) auto
  show "\<exists>b fs'. v1fs_balloc fs = (Inr b, fs') \<and> b \<in> v1_frees fs \<and> v1_inv fs' \<and>
      v1_frees fs' = v1_frees fs - {b} \<and> v1_area fs' = v1_area fs" if ne: "v1_frees fs \<noteq> {}"
  proof (rule v1_balloc_cases [OF inv])
    fix b assume b: "b \<in> v1_frees fs" "v1fs_balloc fs = (Inr b, v1_taken fs b)"
    then have "b \<in> v1_area fs" by (simp add: v1_frees_def)
    then show ?thesis
      using b v1_taken_inv [OF inv] v1_frees_taken [OF inv] by auto
  qed (use ne in simp)
  fix b assume "b \<in> v1_area fs"
  then show "v1_inv (v1fs_bfree fs b) \<and> v1_frees (v1fs_bfree fs b) = insert b (v1_frees fs) \<and>
      v1_area (v1fs_bfree fs b) = v1_area fs"
    using v1_bfree_ok [OF inv] by simp
qed

section \<open>Inode allocation\<close>

lemma v1_iscan_some:
  "v1_iscan m i k = Some j \<longleftrightarrow>
     i \<le> j \<and> j < i + k \<and> \<not> bm_test m (j - 41) \<and> (\<forall>l. i \<le> l \<and> l < j \<longrightarrow> bm_test m (l - 41))"
proof (induction k arbitrary: i)
  case (Suc k)
  show ?case
  proof (cases "bm_test m (i - 41)")
    case False
    then show ?thesis by (auto simp: not_less le_less)
  next
    case True
    have "(i \<le> l \<and> l < j \<longrightarrow> bm_test m (l - 41)) \<longleftrightarrow> (Suc i \<le> l \<and> l < j \<longrightarrow> bm_test m (l - 41))" for l
      using True by (cases "l = i") auto
    with True Suc.IH [of "Suc i"] show ?thesis by (auto simp: Suc_le_eq le_less)
  qed
qed simp

lemma v1_iscan_none: "v1_iscan m i k = None \<longleftrightarrow> (\<forall>l. i \<le> l \<and> l < i + k \<longrightarrow> bm_test m (l - 41))"
proof (induction k arbitrary: i)
  case (Suc k)
  show ?case using Suc.IH [of "Suc i"] by (auto simp: Suc_le_eq) (metis le_neq_implies_less)
qed auto

definition v1_ino_free :: "filsys_edition \<Rightarrow> u32 \<Rightarrow> bool" where
  "v1_ino_free fs i \<longleftrightarrow> 41 \<le> i \<and> i \<le> fs_maxino fs \<and> \<not> bm_test (inodemap (fs_bm fs)) (unat (i - 41))"

definition v1_imap_wf :: "filsys_edition \<Rightarrow> bool" where
  "v1_imap_wf fs \<longleftrightarrow> unat (fs_maxino fs) \<le> 8 * length (inodemap (fs_bm fs))"

lemma v1_ino_bit: "41 \<le> (i::u32) \<Longrightarrow> unat (i - 41) = unat i - 41"
  by (simp add: unat_sub_le)

text \<open>
  An inode allocation returns the lowest free inode and takes only it out of the free set; it
  is refused only when every inode is in use; freeing puts the inode back.
\<close>

lemma v1_ialloc_cases:
  assumes "v1_imap_wf fs"
  obtains "\<forall>i. \<not> v1_ino_free fs i" "v1fs_ialloc fs = (Inl ENOSPC, fs)"
  | i fs' where "v1fs_ialloc fs = (Inr i, fs')" "v1_ino_free fs i" "\<forall>j. v1_ino_free fs j \<longrightarrow> i \<le> j"
      "\<forall>j. v1_ino_free fs' j \<longleftrightarrow> v1_ino_free fs j \<and> j \<noteq> i" "v1_imap_wf fs'" "fs_fl_dirty fs'"
proof (cases "v1_iscan (inodemap (fs_bm fs)) 41 (Suc (unat (fs_maxino fs)) - 41)")
  case None
  then have "\<not> v1_ino_free fs i" for i
    by (auto simp: v1_iscan_none v1_ino_free_def v1_ino_bit word_le_nat_alt)
  with None show thesis using that(1) by (simp add: v1fs_ialloc_def Let_def)
next
  case (Some n)
  let ?i = "of_nat n :: u32"
  from Some have n: "41 \<le> n" "n \<le> unat (fs_maxino fs)" "\<not> bm_test (inodemap (fs_bm fs)) (n - 41)"
      "\<forall>l. 41 \<le> l \<and> l < n \<longrightarrow> bm_test (inodemap (fs_bm fs)) (l - 41)"
    by (auto simp: v1_iscan_some)
  have u: "unat ?i = n" using n(2) unat_u32_bound [of "fs_maxino fs"] by (intro unat_of_nat_lt) simp
  have ge: "41 \<le> ?i" using n(1) u by (simp add: word_le_nat_alt)
  have b: "(n - 41) div 8 < length (inodemap (fs_bm fs))" using n assms by (simp add: v1_imap_wf_def)
  have free: "v1_ino_free fs ?i" using n u ge by (simp add: v1_ino_free_def v1_ino_bit word_le_nat_alt)
  have least: "\<forall>j. v1_ino_free fs j \<longrightarrow> ?i \<le> j"
    using n(4) u by (auto simp: v1_ino_free_def v1_ino_bit word_le_nat_alt not_le [symmetric])
  obtain fs' where fs': "v1fs_ialloc fs = (Inr ?i, fs')" "fs_fl_dirty fs'" "fs_maxino fs' = fs_maxino fs"
      "inodemap (fs_bm fs') = bm_set (inodemap (fs_bm fs)) (n - 41)"
    using Some by (simp add: v1fs_ialloc_def Let_def)
  have "v1_ino_free fs' j \<longleftrightarrow> v1_ino_free fs j \<and> j \<noteq> ?i" for j
  proof (cases "41 \<le> j")
    case True
    have "unat j - 41 = n - 41 \<longleftrightarrow> j = ?i"
      using True n(1) u by (auto simp: word_unat_eq_iff word_le_nat_alt)
    then show ?thesis
      using True by (auto simp: v1_ino_free_def fs' bm_test_set [OF b] v1_ino_bit)
  qed (simp add: v1_ino_free_def)
  moreover have "v1_imap_wf fs'" using assms by (simp add: v1_imap_wf_def fs')
  ultimately show thesis using that(2) fs'(1,2) free least by blast
qed

lemma v1_ifree_ok:
  assumes "v1_imap_wf fs" "41 \<le> i" "i \<le> fs_maxino fs"
  shows "v1_ino_free (v1fs_ifree fs i) j \<longleftrightarrow> v1_ino_free fs j \<or> j = i" "v1_imap_wf (v1fs_ifree fs i)"
proof -
  have b: "unat (i - 41) div 8 < length (inodemap (fs_bm fs))"
    using assms by (auto simp: v1_imap_wf_def v1_ino_bit word_le_nat_alt)
  have eq: "v1fs_ifree fs i = fs\<lparr>fs_bm := (fs_bm fs)\<lparr>inodemap := bm_clear (inodemap (fs_bm fs)) (unat (i - 41)),
      bm_tinode := bm_tinode (fs_bm fs) + 1\<rparr>\<rparr>" using assms by (auto simp: v1fs_ifree_def)
  show "v1_imap_wf (v1fs_ifree fs i)" using assms(1) by (simp add: v1_imap_wf_def eq)
  have "unat (j - 41) = unat (i - 41) \<longleftrightarrow> j = i" if "41 \<le> j" using that by (simp add: word_unat_eq_iff [symmetric])
  then show "v1_ino_free (v1fs_ifree fs i) j \<longleftrightarrow> v1_ino_free fs j \<or> j = i"
    using assms(2,3) by (auto simp: v1_ino_free_def eq bm_test_clear [OF b])
qed

section \<open>The maps survive a write and a reopen\<close>

lemma length_buf_copy [simp]: "off + length src \<le> length p \<Longrightarrow> length (buf_copy p off src) = length p"
  by (simp add: buf_copy_def)

lemma buf_copy_same: "off + length src \<le> length p \<Longrightarrow> take (length src) (drop off (buf_copy p off src)) = src"
  by (simp add: buf_copy_def)

lemma nth_buf_copy:
  "off + length src \<le> length p \<Longrightarrow> i < length p \<Longrightarrow>
   buf_copy p off src ! i = (if off \<le> i \<and> i < off + length src then src ! (i - off) else p ! i)"
  by (auto simp: buf_copy_def nth_append min_def)

lemma buf_copy_other:
  assumes "off + length src \<le> length p" "a + n \<le> length p" "a + n \<le> off \<or> off + length src \<le> a"
  shows "take n (drop a (buf_copy p off src)) = take n (drop a p)"
  using assms by (intro nth_equalityI) (auto simp: nth_buf_copy)

definition v1_maps_wf :: "filsys_edition \<Rightarrow> bool" where
  "v1_maps_wf fs \<longleftrightarrow>
     (let bm = fs_bm fs; fb = unat (freemap_bytes bm); ib = unat (inodemap_bytes bm) in
      length (freemap bm) = fb \<and> length (inodemap bm) = ib \<and> 0 < fb \<and> 4 + fb + ib \<le> 1024)"

text \<open>The two length fields of a superblock.\<close>

definition v1_lens_ok :: "filsys_edition \<Rightarrow> byte list \<Rightarrow> bool" where
  "v1_lens_ok fs sb \<longleftrightarrow> length sb = 1024 \<and> bo_get16le sb 0 = freemap_bytes (fs_bm fs) \<and>
     bo_get16le sb (2 + unat (freemap_bytes (fs_bm fs))) = inodemap_bytes (fs_bm fs)"

lemma v1_super_image_maps:
  assumes "v1_maps_wf fs" "v1_lens_ok fs sb"
  defines "sb' \<equiv> v1_super_image fs sb" and "fb \<equiv> unat (freemap_bytes (fs_bm fs))"
    and "ib \<equiv> unat (inodemap_bytes (fs_bm fs))"
  shows "v1_lens_ok fs sb'" "take fb (drop 2 sb') = freemap (fs_bm fs)"
    "take ib (drop (2 + fb + 2) sb') = inodemap (fs_bm fs)"
proof -
  note wf = assms(1) [unfolded v1_maps_wf_def Let_def, folded fb_def ib_def]
  have len: "length sb = 1024" using assms(2) by (simp add: v1_lens_ok_def)
  let ?a = "buf_copy sb 2 (freemap (fs_bm fs))"
  have sb': "sb' = buf_copy ?a (2 + fb + 2) (inodemap (fs_bm fs))"
    using wf by (simp add: sb'_def v1_super_image_def Let_def fb_def ib_def)
  have la: "length ?a = 1024" using wf len by simp
  show "take ib (drop (2 + fb + 2) sb') = inodemap (fs_bm fs)"
    unfolding sb' using buf_copy_same [of "2 + fb + 2" "inodemap (fs_bm fs)" ?a] wf la by simp
  have "take fb (drop 2 sb') = take fb (drop 2 ?a)"
    unfolding sb' using wf la by (intro buf_copy_other) auto
  also have "\<dots> = freemap (fs_bm fs)" using buf_copy_same [of 2 "freemap (fs_bm fs)" sb] wf len by simp
  finally show "take fb (drop 2 sb') = freemap (fs_bm fs)" .
  have same: "sb' ! i = sb ! i" if "i < 1024" "i < 2 \<or> i = 2 + fb \<or> i = 3 + fb" for i
    unfolding sb' using that wf len la by (auto simp: nth_buf_copy)
  have "bo_get16le sb' 0 = bo_get16le sb 0" "bo_get16le sb' (2 + fb) = bo_get16le sb (2 + fb)"
    using wf by (intro le16.get_cong same; auto)+
  then show "v1_lens_ok fs sb'"
    using assms(2) wf la len by (simp add: v1_lens_ok_def sb' fb_def)
qed

definition v1_super_geom :: "filsys_edition \<Rightarrow> bool" where
  "v1_super_geom fs \<longleftrightarrow> host_ok fs \<and> \<not> fs_readonly fs \<and> d_bsize (fs_desc fs) = 512 \<and>
     blk_in_image fs 0 \<and> blk_in_image fs 1"

definition v1_super_data :: "filsys_edition \<Rightarrow> byte list" where
  "v1_super_data fs = blk_data fs 0 @ blk_data fs 1"

definition v1_super_stored :: "filsys_edition \<Rightarrow> filsys_edition" where
  "v1_super_stored fs =
     (let sb = v1_super_image fs (v1_super_data fs) in
      (blk_store (blk_store fs 0 (take 512 sb)) 1 (drop 512 sb))\<lparr>fs_fl_dirty := False\<rparr>)"

lemma v1_read_super_ok: "v1_super_geom fs \<Longrightarrow> v1_read_super fs = Inr (v1_super_data fs)"
  by (simp add: v1_read_super_def v1_super_geom_def v1_block_eq read_block_ok v1_super_data_def)

lemma v1_super_write_ok:
  assumes "v1_super_geom fs"
  shows "v1_super_write fs = (Inr (), v1_super_stored fs)"
  using assms
  by (simp add: v1_super_write_def v1_read_super_ok v1_super_stored_def Let_def)
    (simp add: v1_super_geom_def v1_block_eq write_block_ok)

lemma v1_super_stored_fields [simp]:
  "fs_bm (v1_super_stored fs) = fs_bm fs" "fs_desc (v1_super_stored fs) = fs_desc fs"
  "fs_base (v1_super_stored fs) = fs_base fs" "fs_readonly (v1_super_stored fs) = fs_readonly fs"
  "fs_imgsize (v1_super_stored fs) = fs_imgsize fs" "fs_maxino (v1_super_stored fs) = fs_maxino fs"
  "fs_fsize (v1_super_stored fs) = fs_fsize fs" "\<not> fs_fl_dirty (v1_super_stored fs)"
  "blk_in_image (v1_super_stored fs) b = blk_in_image fs b"
  "blk_off (v1_super_stored fs) b = blk_off fs b"
  by (simp_all add: v1_super_stored_def Let_def blk_off_def)

lemma blk_data_dirty [simp]: "blk_data (fs\<lparr>fs_fl_dirty := x\<rparr>) b = blk_data fs b"
  by (simp add: blk_data_def blk_off_def)

lemma v1_super_data_stored:
  assumes "v1_super_geom fs" "v1_maps_wf fs" "v1_lens_ok fs (v1_super_data fs)"
  shows "v1_super_data (v1_super_stored fs) = v1_super_image fs (v1_super_data fs)"
    "host_ok (v1_super_stored fs)" "2 \<le> b \<Longrightarrow> blk_data (v1_super_stored fs) b = blk_data fs b"
proof -
  have len: "length (v1_super_image fs (v1_super_data fs)) = 1024"
    using v1_super_image_maps(1) [OF assms(2,3)] by (simp add: v1_lens_ok_def)
  have d: "d_bsize (fs_desc fs) = 512" using assms(1) by (simp add: v1_super_geom_def)
  show "v1_super_data (v1_super_stored fs) = v1_super_image fs (v1_super_data fs)"
    using len d by (simp add: v1_super_data_def v1_super_stored_def Let_def)
  show "host_ok (v1_super_stored fs)"
    using assms(1) by (simp add: v1_super_stored_def Let_def v1_super_geom_def)
  assume "2 \<le> b"
  then have "b \<noteq> 0" "b \<noteq> 1" by (auto simp: word_le_nat_alt)
  then show "blk_data (v1_super_stored fs) b = blk_data fs b" by (simp add: v1_super_stored_def Let_def)
qed

text \<open>Writing the superblock and opening the volume again gives back both maps.\<close>

lemma v1_reopen:
  assumes g: "v1_super_geom fs" "v1_maps_wf fs" "v1_lens_ok fs (v1_super_data fs)"
    and size: "fs_base fs + unat (fs_fsize fs) * 512 \<le> fs_imgsize fs"
      "fs_fsize fs = ucast (freemap_bytes (fs_bm fs)) * 8" "fs_maxino fs = ucast (inodemap_bytes (fs_bm fs)) * 8"
      "v1_data_start (fs_maxino fs) < fs_fsize fs"
    and mem: "\<forall>n. h_alloc (fs_host fs) n"
  shows "\<exists>fs' fs''. v1fs_sync fs = (Inr (), fs') \<and>
    v1fs_open (fs'\<lparr>fs_imgsize := 0\<rparr>) ro (fs_desc fs) (fs_base fs) = (Inr (), fs'') \<and>
    freemap (fs_bm fs'') = freemap (fs_bm fs) \<and> inodemap (fs_bm fs'') = inodemap (fs_bm fs) \<and>
    fs_fsize fs'' = fs_fsize fs \<and> fs_maxino fs'' = fs_maxino fs"
proof -
  let ?s = "v1_super_stored fs"
  let ?o = "?s\<lparr>fs_imgsize := 0, fs_desc := fs_desc fs, fs_readonly := ro, fs_base := fs_base fs\<rparr>"
  note d = v1_super_data_stored [OF g]
  note m = v1_super_image_maps [OF g(2,3), folded d(1)]
  have bs: "d_bsize (fs_desc fs) = 512" using g(1) by (simp add: v1_super_geom_def)
  have img: "fs_imgsize fs \<le> h_len (fs_host ?s)" "\<And>off n. \<not> h_rd_err (fs_host ?s) off n"
    using d(2) by (auto simp: host_ok_def)
  have "v1fs_read_block ?o b = Inr (blk_data ?s b)" if "b = 0 \<or> b = 1" for b
  proof -
    have "blk_in_image fs b" using g(1) that by (auto simp: v1_super_geom_def)
    then show ?thesis
      using img bs by (simp add: v1fs_read_block_def Let_def filsys_check_range_def io_file_read_def
          v1_blk_off_def blk_in_image_def blk_off_def blk_data_def)
  qed
  then have rd: "v1_read_super ?o = Inr (v1_super_data ?s)"
    by (simp add: v1_read_super_def v1_super_data_def)
  have al: "h_alloc (fs_host ?s) = h_alloc (fs_host fs)"
    by (simp add: v1_super_stored_def Let_def blk_store_def host_write_def)
  note wf = g(2) [unfolded v1_maps_wf_def Let_def]
  have ok: "unat (freemap_bytes (fs_bm fs)) + (2 + 2) + unat (inodemap_bytes (fs_bm fs)) \<le> 1024"
    "freemap_bytes (fs_bm fs) \<noteq> 0"
    using wf by auto
  have sz: "fs_base fs + unat (ucast (freemap_bytes (fs_bm fs)) * 8 :: u32) * 512 \<le> h_len (fs_host ?s)"
    using size(1,2) img(1) by simp
  let ?r = "v1fs_open (?s\<lparr>fs_imgsize := 0\<rparr>) ro (fs_desc fs) (fs_base fs)"
  have "?r = (Inr (), snd ?r) \<and> freemap (fs_bm (snd ?r)) = freemap (fs_bm fs) \<and>
      inodemap (fs_bm (snd ?r)) = inodemap (fs_bm fs) \<and>
      fs_fsize (snd ?r) = fs_fsize fs \<and> fs_maxino (snd ?r) = fs_maxino fs"
    using m ok sz size(2,3,4) mem
    by (simp add: v1fs_open_def Let_def rd v1_lens_ok_def al not_less not_le)
  then show ?thesis
    using v1_super_write_ok [OF g(1)] g(1) by (auto simp: v1fs_sync_def v1_super_geom_def)
qed

section \<open>The inode form\<close>

text \<open>
  What the 32-byte form holds: 16-bit mode, size and addresses, 8-bit link count and owner, no
  group and no access time, and times whose count of sixtieths fits in 32 bits.
\<close>

definition v1_ip_fits :: "filsys_inode \<Rightarrow> bool" where
  "v1_ip_fits ip \<longleftrightarrow> ip_mode ip < 65536 \<and> ip_nlink ip < 256 \<and> ip_uid ip < 256 \<and> ip_gid ip = 0 \<and>
     ip_size ip < 65536 \<and> length (ip_addr ip) = 13 \<and> drop 8 (ip_addr ip) = replicate 5 0 \<and>
     (\<forall>a \<in> set (ip_addr ip). a < 65536) \<and> ip_ctime ip \<le> 71582788 \<and> ip_mtime ip \<le> 71582788 \<and>
     ip_atime ip = ip_mtime ip"

lemma v1_time: "(x::u32) \<le> 71582788 \<Longrightarrow> x * 60 div 60 = x"
proof -
  assume "x \<le> 71582788"
  then have "unat x \<le> 71582788" by (simp add: word_le_nat_alt)
  then have "unat (x * 60) = unat x * 60" by (subst unat_mult_lem [THEN iffD1]) simp_all
  then have "unat (x * 60 div 60) = unat x" by (simp add: unat_div)
  then show ?thesis by (simp only: word_unat_eq_iff)
qed

lemma v1_order: "bo_get16le = bo_get16 LE" "bo_put16le = bo_put16 LE"
  "bo_get32me = bo_get32 ME" "bo_put32me = bo_put32 ME"
  by (simp_all add: fun_eq_iff)

lemma v1_inode_roundtrip:
  assumes "v1_ip_fits ip" "o' + 32 \<le> length raw"
  shows "v1_inode_decode ino (v1_inode_encode raw o' ip) o' = ip\<lparr>ip_ino := ino\<rparr>"
proof -
  have len: "length (take 8 (ip_addr ip)) = 8" using assms(1) by (simp add: v1_ip_fits_def)
  have "map (\<lambda>a. ucast (ucast a :: u16)) (take 8 (ip_addr ip)) = take 8 (ip_addr ip)"
    using assms(1) by (intro map_idI) (auto simp: v1_ip_fits_def ucast_u16_id dest: in_set_takeD)
  moreover have "take 8 (ip_addr ip) @ replicate 5 0 = ip_addr ip"
    using assms(1) by (metis append_take_drop_id v1_ip_fits_def)
  ultimately have ad: "map (ucast \<circ> (ucast :: u32 \<Rightarrow> u16)) (take 8 (ip_addr ip)) @ replicate 5 0 = ip_addr ip"
    by (simp only: o_def)
  have bytes: "ucast (ucast (ip_nlink ip) :: byte) = ip_nlink ip" "ucast (ucast (ip_uid ip) :: byte) = ip_uid ip"
    "ucast (ucast (ip_mode ip) :: u16) = ip_mode ip" "ucast (ucast (ip_size ip) :: u16) = ip_size ip"
    using assms(1) by (simp_all add: v1_ip_fits_def ucast_byte_id ucast_u16_id)
  have times: "ip_ctime ip * 60 div 60 = ip_ctime ip" "ip_mtime ip * 60 div 60 = ip_mtime ip"
    using assms(1) by (simp_all add: v1_ip_fits_def v1_time)
  have rest: "ip_gid ip = 0" "ip_atime ip = ip_mtime ip" using assms(1) by (simp_all add: v1_ip_fits_def)
  show ?thesis
    using assms(2) len ad bytes times rest
    unfolding v1_inode_decode_def v1_inode_encode_def Let_def v1_order
    by (cases ip) (simp add: codec_simps zero_inode_def del: bo_get16.simps bo_put16.simps bo_get32.simps bo_put32.simps)
qed

section \<open>Rebuilding the free map\<close>

text \<open>After the rebuild a data block is free exactly when the usage map says it is not in use.\<close>

lemma v1_makefree_map:
  assumes "unat (fs_fsize fs) \<le> 8 * unat (freemap_bytes (fs_bm fs))" and "v1_super_geom fs"
  shows "v1_frees (snd (v1fs_makefree fs used)) =
      {b \<in> v1_area fs. \<not> bm_test used (unat b - unat (v1_data_start (fs_maxino fs)))}"
    and "bm_tfree (fs_bm (snd (v1fs_makefree fs used))) = fst (v1fs_makefree fs used)"
proof -
  let ?ds = "unat (v1_data_start (fs_maxino fs))"
  let ?fm = "foldl (\<lambda>m b. if \<not> bm_test used (b - ?ds) then bm_set m b else m)
      (replicate (unat (freemap_bytes (fs_bm fs))) 0) [?ds..<unat (fs_fsize fs)]"
  let ?n = "v1_count (\<lambda>b. \<not> bm_test used (b - ?ds)) [?ds..<unat (fs_fsize fs)]"
  let ?f = "fs\<lparr>fs_bm := (fs_bm fs)\<lparr>freemap := ?fm, bm_tfree := ?n\<rparr>\<rparr>"
  have "v1_super_geom ?f" using assms(2) by (simp add: v1_super_geom_def)
  then have eq: "v1fs_makefree fs used = (?n, v1_super_stored ?f)"
    by (simp add: v1fs_makefree_def Let_def v1_super_write_ok)
  show "bm_tfree (fs_bm (snd (v1fs_makefree fs used))) = fst (v1fs_makefree fs used)" by (simp add: eq)
  have t: "bm_test ?fm i \<longleftrightarrow> ?ds \<le> i \<and> \<not> bm_test used (i - ?ds)" if "i < unat (fs_fsize fs)" for i
    using that assms(1) by (subst bm_test_foldl_set) auto
  show "v1_frees (snd (v1fs_makefree fs used)) = {b \<in> v1_area fs. \<not> bm_test used (unat b - ?ds)}"
    by (auto simp: eq v1_frees_def v1_area_def t word_less_nat_alt word_le_nat_alt)
qed

end
