(* ===== verification/Pdp7_Words.thy ===== *)
theory Pdp7_Words
  imports Formats Block_IO Allocator
begin

text \<open>
  The word level of the PDP-7 backend (\<^verbatim>\<open>pdp7fs.c\<close>): the three containers of an
  18-bit word (SimH RB09 slots, the packed platter dump, RIM paper tape) behind one interface,
  blocks of 64 words, and the chained free list whose nodes hold nine block numbers each.
\<close>

section \<open>Word containers\<close>

abbreviation P7_MAXWORD :: u32 where "P7_MAXWORD \<equiv> 0x3FFFF"

definition rb09_get :: "byte list \<Rightarrow> nat \<Rightarrow> u32" where
  "rb09_get buf i = bo_get32le buf (4 * i) AND P7_MAXWORD"

definition rb09_put :: "byte list \<Rightarrow> nat \<Rightarrow> u32 \<Rightarrow> byte list" where
  "rb09_put buf i v = bo_put32le buf (4 * i) (v AND P7_MAXWORD)"

definition rim_get :: "byte list \<Rightarrow> nat \<Rightarrow> u32" where
  "rim_get buf i =
     push_bit 12 (ucast (buf ! (3 * i) AND 0x3f)) OR
     push_bit 6 (ucast (buf ! (3 * i + 1) AND 0x3f)) OR
     ucast (buf ! (3 * i + 2) AND 0x3f)"

definition rim_put :: "byte list \<Rightarrow> nat \<Rightarrow> u32 \<Rightarrow> byte list" where
  "rim_put buf i v =
     buf[3 * i := ucast (drop_bit 12 v AND 0x3f), 3 * i + 1 := ucast (drop_bit 6 v AND 0x3f),
         3 * i + 2 := ucast (v AND 0x3f)]"

fun word_get :: "word_codec \<Rightarrow> byte list \<Rightarrow> nat \<Rightarrow> u32" where
  "word_get Word_rb09 = rb09_get"
| "word_get Word_packed18 = bo_get18packed"
| "word_get Word_rim = rim_get"

fun word_put :: "word_codec \<Rightarrow> byte list \<Rightarrow> nat \<Rightarrow> u32 \<Rightarrow> byte list" where
  "word_put Word_rb09 = rb09_put"
| "word_put Word_packed18 = bo_put18packed"
| "word_put Word_rim = rim_put"

fun block_bytes :: "word_codec \<Rightarrow> nat" where
  "block_bytes Word_rb09 = 64 * 4"
| "block_bytes Word_packed18 = 64 * 18 div 8"
| "block_bytes Word_rim = 64 * 3"

text \<open>
  The loops over a block.  The staging buffer of the store is uninitialised in the code; the
  64 words cover it, so the zeroes it starts from here do not show.
\<close>

definition words_decode :: "word_codec \<Rightarrow> byte list \<Rightarrow> u32 list" where
  "words_decode c raw = map (word_get c raw) [0..<64]"

definition words_put :: "word_codec \<Rightarrow> byte list \<Rightarrow> u32 list \<Rightarrow> byte list" where
  "words_put c raw ws = foldl (\<lambda>raw i. word_put c raw i (ws ! i)) raw [0..<64]"

definition words_encode :: "word_codec \<Rightarrow> u32 list \<Rightarrow> byte list" where
  "words_encode c ws = words_put c (replicate (block_bytes c) 0) ws"

section \<open>Word-addressed block access\<close>

abbreviation p7_codec :: "filsys_edition \<Rightarrow> word_codec" where
  "p7_codec fs \<equiv> the (d_word (fs_desc fs))"

definition word_off :: "filsys_edition \<Rightarrow> u32 \<Rightarrow> nat" where
  "word_off fs bno = fs_base fs + unat bno * block_bytes (p7_codec fs)"

definition read_words :: "filsys_edition \<Rightarrow> u32 \<Rightarrow> errno + u32 list" where
  "read_words fs bno =
     (let bb = block_bytes (p7_codec fs); pos = word_off fs bno in
      if \<not> filsys_check_range fs pos bb then Inl EINVAL
      else case io_file_read fs bb pos of
        Inl _ \<Rightarrow> Inl EIO
      | Inr raw \<Rightarrow> Inr (words_decode (p7_codec fs) raw))"

definition write_words :: "filsys_edition \<Rightarrow> u32 \<Rightarrow> u32 list \<Rightarrow> unit op" where
  "write_words fs bno ws =
     (let raw = words_encode (p7_codec fs) ws; bb = block_bytes (p7_codec fs); pos = word_off fs bno in
      if \<not> filsys_check_range fs pos bb then (Inl EINVAL, fs)
      else try_as EIO (io_file_write fs raw pos) (\<lambda>_ fs. (Inr (), fs)))"

definition p7_super_write :: "filsys_edition \<Rightarrow> unit op" where
  "p7_super_write fs =
     (case read_words fs 0 of
        Inl _ \<Rightarrow> (Inl EIO, fs)
      | Inr sb \<Rightarrow> try_as EIO (write_words fs 0 (sb[0 := fs_freelist fs AND P7_MAXWORD]))
          (\<lambda>_ fs. (Inr (), fs\<lparr>fs_fl_dirty := False\<rparr>)))"

definition p7fs_close :: "filsys_edition \<Rightarrow> unit op" where
  "p7fs_close fs = (if fs_readonly fs then (Inr (), fs) else p7_super_write fs)"

definition p7fs_sync :: "filsys_edition \<Rightarrow> unit op" where
  "p7fs_sync fs = (if fs_readonly fs then (Inr (), fs) else p7_super_write fs)"

definition p7fs_read_block :: "filsys_edition \<Rightarrow> u32 \<Rightarrow> errno + byte list" where
  "p7fs_read_block fs bno =
     (case read_words fs bno of
        Inl _ \<Rightarrow> Inl EIO
      | Inr ws \<Rightarrow> Inr (words_encode (p7_codec fs) ws))"

definition p7fs_write_block :: "filsys_edition \<Rightarrow> u32 \<Rightarrow> byte list \<Rightarrow> unit op" where
  "p7fs_write_block fs bno buf =
     (if fs_readonly fs then (Inl EROFS, fs)
      else write_words fs bno (words_decode (p7_codec fs) buf))"

definition p7_ind_get :: "filsys_edition \<Rightarrow> byte list \<Rightarrow> nat \<Rightarrow> u32" where
  "p7_ind_get fs buf i = word_get (p7_codec fs) buf i"

definition p7_ind_put :: "filsys_edition \<Rightarrow> byte list \<Rightarrow> nat \<Rightarrow> u32 \<Rightarrow> byte list" where
  "p7_ind_put fs buf i v = word_put (p7_codec fs) buf i v"

text \<open>Two 7-bit characters per word, in the low bits of each 9-bit half.\<close>

definition word_chars :: "u32 \<Rightarrow> byte list" where
  "word_chars w = [ucast (drop_bit 9 w AND 0x7f), ucast (w AND 0x7f)]"

definition p7fs_blk_get :: "filsys_edition \<Rightarrow> u32 \<Rightarrow> errno + byte list" where
  "p7fs_blk_get fs bno =
     (case read_words fs bno of
        Inl _ \<Rightarrow> Inl EIO
      | Inr ws \<Rightarrow> Inr (concat (map word_chars ws)))"

definition chars_word :: "byte list \<Rightarrow> nat \<Rightarrow> u32" where
  "chars_word buf i = push_bit 9 (ucast (buf ! (2 * i) AND 0x7f)) OR ucast (buf ! (2 * i + 1) AND 0x7f)"

definition p7fs_blk_put :: "filsys_edition \<Rightarrow> u32 \<Rightarrow> byte list \<Rightarrow> unit op" where
  "p7fs_blk_put fs bno buf =
     (if fs_readonly fs then (Inl EROFS, fs)
      else write_words fs bno (map (chars_word buf) [0..<64]))"

section \<open>The free list\<close>

definition last_slot :: "u32 list \<Rightarrow> nat" where
  "last_slot ws = foldl (\<lambda>l i. if ws ! i \<noteq> 0 then i else l) 0 [1..<10]"

definition p7fs_balloc :: "filsys_edition \<Rightarrow> u32 op" where
  "p7fs_balloc fs =
     (if fs_readonly fs then (Inl EROFS, fs)
      else let h = fs_freelist fs in
        if h = 0 then (Inl ENOSPC, fs)
        else case read_words fs h of
          Inl _ \<Rightarrow> (Inl EIO, fs)
        | Inr ws \<Rightarrow>
            try_as EIO
              (let l = last_slot ws in
               if l = 0 then (Inr h, fs\<lparr>fs_freelist := ws ! 0 AND P7_MAXWORD\<rparr>)
               else try_op (write_words fs h (ws[l := 0])) (\<lambda>_ fs. (Inr (ws ! l), fs)))
              (\<lambda>bno fs. try_as EIO (write_words fs bno (replicate 64 0))
                (\<lambda>_ fs. (Inr bno, fs\<lparr>fs_fl_dirty := True\<rparr>))))"

fun first_zero :: "u32 list \<Rightarrow> nat list \<Rightarrow> nat option" where
  "first_zero ws [] = None"
| "first_zero ws (i # is) = (if ws ! i = 0 then Some i else first_zero ws is)"

definition p7fs_bfree :: "filsys_edition \<Rightarrow> u32 \<Rightarrow> filsys_edition" where
  "p7fs_bfree fs bno =
     (if bno = 0 \<or> fs_readonly fs then fs
      else let h = fs_freelist fs in
        if h = 0 then snd (write_words (fs\<lparr>fs_freelist := bno\<rparr>) bno (replicate 64 0))
        else case read_words fs h of
          Inl _ \<Rightarrow> fs
        | Inr ws \<Rightarrow>
            (case first_zero ws [1..<10] of
               Some i \<Rightarrow> snd (write_words fs h (ws[i := bno]))
             | None \<Rightarrow>
                 (let fs = snd (write_words fs bno ((replicate 64 0)[0 := h]))
                  in fs\<lparr>fs_freelist := bno\<rparr>)))"

section \<open>Inode slots\<close>

definition p7_itod :: "u32 \<Rightarrow> u32" where
  "p7_itod ino = 2 + ino div 5"

definition p7_itoo :: "u32 \<Rightarrow> u32" where
  "p7_itoo ino = 12 * (ino mod 5)"

abbreviation P7_MAXINO :: u32 where "P7_MAXINO \<equiv> 3549"
abbreviation P7_IUSED :: u32 where "P7_IUSED \<equiv> 0x20000"

text \<open>\<^verbatim>\<open>memset(d, 0, P7_INODESZ * sizeof(uint32_t))\<close> with \<open>d = words + o'\<close>\<close>

definition zero_slot :: "u32 list \<Rightarrow> nat \<Rightarrow> u32 list" where
  "zero_slot ws o' = foldl (\<lambda>ws k. ws[o' + k := 0]) ws [0..<12]"

fun p7_ialloc_scan :: "filsys_edition \<Rightarrow> nat list \<Rightarrow> u32 op" where
  "p7_ialloc_scan fs [] = (Inl ENOSPC, fs)"
| "p7_ialloc_scan fs (n # ns) =
     (let i = of_nat n; o' = unat (p7_itoo i) in
      case read_words fs (p7_itod i) of
        Inl _ \<Rightarrow> (Inl EIO, fs)
      | Inr ws \<Rightarrow>
          if ws ! o' AND P7_IUSED = 0
          then let ws = (zero_slot ws o')[o' := P7_IUSED, o' + 9 := P7_MAXWORD, o' + 11 := i AND P7_MAXWORD]
               in try_as EIO (write_words fs (p7_itod i) ws)
                    (\<lambda>_ fs. (Inr i, fs\<lparr>fs_fl_dirty := True\<rparr>))
          else p7_ialloc_scan fs ns)"

definition p7fs_ialloc :: "filsys_edition \<Rightarrow> u32 op" where
  "p7fs_ialloc fs =
     (if fs_readonly fs then (Inl EROFS, fs) else p7_ialloc_scan fs [1..<Suc (unat P7_MAXINO)])"

definition p7fs_ifree :: "filsys_edition \<Rightarrow> u32 \<Rightarrow> filsys_edition" where
  "p7fs_ifree fs ino =
     (if ino = 0 \<or> P7_MAXINO < ino \<or> fs_readonly fs then fs
      else case read_words fs (p7_itod ino) of
        Inl _ \<Rightarrow> fs
      | Inr ws \<Rightarrow> snd (write_words fs (p7_itod ino) (zero_slot ws (unat (p7_itoo ino)))))"

section \<open>The containers keep every word\<close>

text \<open>
  What the block loops need of a container: a word put is the word got back, cut to 18 bits,
  the other 63 words stay, and the buffer keeps its length.
\<close>

locale word_container =
  fixes get :: "byte list \<Rightarrow> nat \<Rightarrow> u32"
    and put :: "byte list \<Rightarrow> nat \<Rightarrow> u32 \<Rightarrow> byte list"
    and bytes :: nat
  assumes length_put: "length (put raw i v) = length raw"
    and get_put: "bytes \<le> length raw \<Longrightarrow> i < 64 \<Longrightarrow> j < 64 \<Longrightarrow>
      get (put raw i v) j = (if j = i then take_bit 18 v else get raw j)"
begin

definition put_all :: "byte list \<Rightarrow> u32 list \<Rightarrow> byte list" where
  "put_all raw ws = foldl (\<lambda>raw i. put raw i (ws ! i)) raw [0..<64]"

lemma length_put_upto [simp]: "length (foldl (\<lambda>raw i. put raw i (ws ! i)) raw is) = length raw"
  by (induction "is" arbitrary: raw) (simp_all add: length_put)

lemma get_put_upto:
  "bytes \<le> length raw \<Longrightarrow> n \<le> 64 \<Longrightarrow> j < 64 \<Longrightarrow>
   get (foldl (\<lambda>raw i. put raw i (ws ! i)) raw [0..<n]) j = (if j < n then take_bit 18 (ws ! j) else get raw j)"
  by (induction n) (auto simp: get_put less_Suc_eq)

lemma get_put_all:
  "bytes \<le> length raw \<Longrightarrow> j < 64 \<Longrightarrow> get (put_all raw ws) j = take_bit 18 (ws ! j)"
  unfolding put_all_def by (subst get_put_upto) simp_all

lemma decode_put_all:
  "bytes \<le> length raw \<Longrightarrow> length ws = 64 \<Longrightarrow> map (get (put_all raw ws)) [0..<64] = map (take_bit 18) ws"
  by (rule nth_equalityI) (simp_all add: get_put_all)

lemma length_put_all: "length (put_all raw ws) = length raw"
  by (simp add: put_all_def)

end

lemma maxword_mask: "(P7_MAXWORD :: u32) = mask 18"
  by (simp add: mask_eq_exp_minus_1)

interpretation rb09: word_container rb09_get rb09_put 256
proof
  show "length (rb09_put raw i v) = length raw" for raw i v by (simp add: rb09_put_def le32.length_put)
  fix raw :: "byte list" and i j :: nat and v :: u32
  assume b: "256 \<le> length raw" "i < 64" "j < 64"
  show "rb09_get (rb09_put raw i v) j = (if j = i then take_bit 18 v else rb09_get raw j)"
  proof (cases "j = i")
    case True
    have "bo_get32le (bo_put32le raw (4 * i) (v AND P7_MAXWORD)) (4 * i) = v AND P7_MAXWORD"
      using b by (intro le32.get_put) auto
    then show ?thesis using True by (simp add: rb09_get_def rb09_put_def maxword_mask take_bit_eq_mask)
  next
    case False
    then have "4 * j + 4 \<le> 4 * i \<or> 4 * i + 4 \<le> 4 * j" by linarith
    then show ?thesis using False by (simp add: rb09_get_def rb09_put_def le32.get_put_other)
  qed
qed

interpretation packed18: word_container bo_get18packed bo_put18packed 144
  by unfold_locales (simp_all add: bo_get_put18packed)

lemma rim_frames:
  "push_bit 12 (ucast (ucast (drop_bit 12 v AND 0x3f) AND 0x3f :: byte)) OR
   push_bit 6 (ucast (ucast (drop_bit 6 v AND 0x3f) AND 0x3f :: byte)) OR
   ucast (ucast (v AND 0x3f) AND 0x3f :: byte) = take_bit 18 (v :: u32)"
proof (rule bit_word_eqI, goal_cases)
  case (1 n)
  consider "n < 6" | "6 \<le> n" "n < 12" | "12 \<le> n" "n < 18" | "18 \<le> n" by linarith
  then show ?case using 1 by cases (auto simp: mask_numerals bit_simps)
qed

interpretation rim: word_container rim_get rim_put 192
proof
  show "length (rim_put raw i v) = length raw" for raw i v by (simp add: rim_put_def)
  fix raw :: "byte list" and i j :: nat and v :: u32
  assume b: "192 \<le> length raw" "i < 64" "j < 64"
  show "rim_get (rim_put raw i v) j = (if j = i then take_bit 18 v else rim_get raw j)"
  proof (cases "j = i")
    case True
    then show ?thesis using b rim_frames [of v] by (simp add: rim_get_def rim_put_def)
  next
    case False
    then have "3 * j + 3 \<le> 3 * i \<or> 3 * i + 3 \<le> 3 * j" by linarith
    then show ?thesis using False by (auto simp: rim_get_def rim_put_def)
  qed
qed

interpretation p7word: word_container "word_get c" "word_put c" "block_bytes c" for c
  by (cases c) (simp_all add: rb09.word_container_axioms packed18.word_container_axioms rim.word_container_axioms)

lemma words_put_all: "words_put c = p7word.put_all c"
  by (simp add: fun_eq_iff words_put_def p7word.put_all_def)

lemma words_decode_encode:
  "length ws = 64 \<Longrightarrow> words_decode c (words_encode c ws) = map (take_bit 18) ws"
  by (simp add: words_decode_def words_encode_def words_put_all p7word.decode_put_all)

lemma length_words_encode [simp]: "length (words_encode c ws) = block_bytes c"
  by (simp add: words_encode_def words_put_all p7word.length_put_all)

lemma length_words_decode [simp]: "length (words_decode c raw) = 64"
  by (simp add: words_decode_def)

section \<open>What a word store changes\<close>

definition p7_in_image :: "filsys_edition \<Rightarrow> u32 \<Rightarrow> bool" where
  "p7_in_image fs b \<longleftrightarrow> word_off fs b + block_bytes (p7_codec fs) \<le> fs_imgsize fs"

definition wdata :: "filsys_edition \<Rightarrow> u32 \<Rightarrow> u32 list" where
  "wdata fs b = words_decode (p7_codec fs) (img_read (h_img (fs_host fs)) (word_off fs b) (block_bytes (p7_codec fs)))"

definition wstore :: "filsys_edition \<Rightarrow> u32 \<Rightarrow> u32 list \<Rightarrow> filsys_edition" where
  "wstore fs b ws = fs\<lparr>fs_host := host_write (fs_host fs) (words_encode (p7_codec fs) ws) (word_off fs b)\<rparr>"

lemma length_wdata [simp]: "length (wdata fs b) = 64"
  by (simp add: wdata_def)

lemma wstore_fields [simp]:
  "fs_desc (wstore fs b ws) = fs_desc fs" "fs_readonly (wstore fs b ws) = fs_readonly fs"
  "fs_base (wstore fs b ws) = fs_base fs" "fs_imgsize (wstore fs b ws) = fs_imgsize fs"
  "fs_freelist (wstore fs b ws) = fs_freelist fs" "word_off (wstore fs b ws) c = word_off fs c"
  "p7_in_image (wstore fs b ws) c = p7_in_image fs c"
  by (simp_all add: wstore_def word_off_def p7_in_image_def)

lemma read_words_ok: "host_ok fs \<Longrightarrow> p7_in_image fs b \<Longrightarrow> read_words fs b = Inr (wdata fs b)"
  by (simp add: read_words_def host_ok_def p7_in_image_def io_file_read_def wdata_def Let_def)

lemma write_words_ok:
  "host_ok fs \<Longrightarrow> p7_in_image fs b \<Longrightarrow> write_words fs b ws = (Inr (), wstore fs b ws)"
  by (simp add: write_words_def host_ok_def p7_in_image_def io_file_write_def wstore_def Let_def)

lemma host_ok_wstore [simp]: "host_ok fs \<Longrightarrow> p7_in_image fs b \<Longrightarrow> host_ok (wstore fs b ws)"
  by (auto simp: host_ok_def wstore_def host_write_def p7_in_image_def)

lemma wdata_wstore_same [simp]: "length ws = 64 \<Longrightarrow> wdata (wstore fs b ws) b = map (take_bit 18) ws"
  by (simp add: wdata_def) (simp add: wstore_def host_write_def img_simps words_decode_encode)

lemma wdata_wstore_other [simp]:
  assumes "c \<noteq> b"
  shows "wdata (wstore fs b ws) c = wdata fs c"
proof -
  have "unat c \<noteq> unat b" using assms by (simp add: word_unat_eq_iff)
  from aligned_disjoint [OF this, of "block_bytes (p7_codec fs)"]
  have "word_off fs c + block_bytes (p7_codec fs) \<le> word_off fs b \<or>
        word_off fs b + length (words_encode (p7_codec fs) ws) \<le> word_off fs c"
    by (auto simp: word_off_def)
  then show ?thesis
    by (simp add: wdata_def) (simp add: wstore_def host_write_def img_simps)
qed

lemma p7_upd_simps [simp]:
  "host_ok (fs\<lparr>fs_freelist := x\<rparr>) = host_ok fs" "p7_in_image (fs\<lparr>fs_freelist := x\<rparr>) b = p7_in_image fs b"
  "wdata (fs\<lparr>fs_freelist := x\<rparr>) b = wdata fs b"
  "host_ok (fs\<lparr>fs_fl_dirty := y\<rparr>) = host_ok fs" "p7_in_image (fs\<lparr>fs_fl_dirty := y\<rparr>) b = p7_in_image fs b"
  "wdata (fs\<lparr>fs_fl_dirty := y\<rparr>) b = wdata fs b"
  by (simp_all add: host_ok_def p7_in_image_def word_off_def wdata_def)

section \<open>The node slots\<close>

text \<open>The block numbers a node holds, and what the two slot searches find.\<close>

definition entries :: "u32 list \<Rightarrow> u32 list" where
  "entries ws = filter (\<lambda>w. w \<noteq> 0) (map ((!) ws) [1..<10])"

lemma set_entries: "b \<in> set (entries ws) \<longleftrightarrow> b \<noteq> 0 \<and> (\<exists>i. 1 \<le> i \<and> i < 10 \<and> ws ! i = b)"
  by (auto simp: entries_def)

lemma last_slot_range: "last_slot ws < 10"
  by (simp add: last_slot_def upt_rec)

lemma last_slot_zero: "last_slot ws = 0 \<longleftrightarrow> entries ws = []"
  by (simp add: last_slot_def entries_def upt_rec)

lemma last_slot_nonzero: "last_slot ws \<noteq> 0 \<Longrightarrow> ws ! last_slot ws \<noteq> 0"
  by (auto simp: last_slot_def upt_rec split: if_splits)

lemma distinct_entries_iff:
  "distinct (entries ws) \<longleftrightarrow> inj_on ((!) ws) {i. 1 \<le> i \<and> i < 10 \<and> ws ! i \<noteq> 0}"
proof -
  let ?is = "filter (\<lambda>i. ws ! i \<noteq> 0) [1..<10]"
  have "entries ws = map ((!) ws) ?is" by (simp add: entries_def filter_map o_def)
  then have "distinct (entries ws) \<longleftrightarrow> inj_on ((!) ws) (set ?is)"
    by (simp only: distinct_map distinct_filter distinct_upt simp_thms)
  also have "set ?is = {i. 1 \<le> i \<and> i < 10 \<and> ws ! i \<noteq> 0}" by auto
  finally show ?thesis .
qed

lemma distinct_slots:
  assumes "distinct (entries ws)" "1 \<le> i" "i < 10" "1 \<le> j" "j < 10" "ws ! i = ws ! j" "ws ! i \<noteq> 0"
  shows "i = j"
  using assms by (auto simp: distinct_entries_iff inj_on_def)

text \<open>Clearing a slot takes its entry out; filling a zero slot adds one.\<close>

lemma entries_clear:
  assumes "length ws = 64" "distinct (entries ws)" "1 \<le> l" "l < 10" "ws ! l \<noteq> 0"
  shows "set (entries (ws[l := 0])) = set (entries ws) - {ws ! l}" "distinct (entries (ws[l := 0]))"
proof -
  have "ws ! i = ws ! l \<longleftrightarrow> i = l" if "1 \<le> i" "i < 10" for i
    using distinct_slots [OF assms(2) that assms(3,4)] assms(5) by metis
  then show "set (entries (ws[l := 0])) = set (entries ws) - {ws ! l}"
    using assms by (auto simp: set_entries nth_list_update split: if_splits)
  show "distinct (entries (ws[l := 0]))"
    using assms by (auto simp: distinct_entries_iff inj_on_def nth_list_update split: if_splits)
qed

lemma first_zero_some: "first_zero ws is = Some i \<Longrightarrow> i \<in> set is \<and> ws ! i = 0"
  by (induction "is") (auto split: if_splits)

lemma first_zero_none: "first_zero ws is = None \<Longrightarrow> i \<in> set is \<Longrightarrow> ws ! i \<noteq> 0"
  by (induction "is") (auto split: if_splits)

lemma entries_fill:
  assumes "length ws = 64" "distinct (entries ws)" "1 \<le> i" "i < 10" "ws ! i = 0" "b \<noteq> 0" "b \<notin> set (entries ws)"
  shows "set (entries (ws[i := b])) = insert b (set (entries ws))" "distinct (entries (ws[i := b]))"
proof -
  show "set (entries (ws[i := b])) = insert b (set (entries ws))"
    using assms by (auto simp: set_entries nth_list_update split: if_splits)
  show "distinct (entries (ws[i := b]))"
    using assms by (auto simp: distinct_entries_iff inj_on_def nth_list_update set_entries split: if_splits)
qed

section \<open>The chain of nodes is a block allocator\<close>

lemma word_get_18: "take_bit 18 (word_get c raw i) = word_get c raw i"
proof (cases c)
  case Word_rb09
  then show ?thesis by (simp add: rb09_get_def maxword_mask flip: take_bit_eq_mask)
next
  case Word_packed18
  then show ?thesis by (auto simp: bit_eq_iff bit_simps bit_bo_get18packed)
next
  case Word_rim
  have "\<not> bit (rim_get raw i) n" if "18 \<le> n" for n
    using that by (auto simp: rim_get_def mask_numerals bit_simps)
  then show ?thesis using Word_rim by (auto simp: bit_eq_iff bit_simps not_less [symmetric])
qed

lemma wdata_18 [simp]: "map (take_bit 18) (wdata fs b) = wdata fs b"
  by (simp add: wdata_def words_decode_def word_get_18)

lemma wdata_upd_18: "take_bit 18 v = v \<Longrightarrow> map (take_bit 18) ((wdata fs b)[i := v]) = (wdata fs b)[i := v]"
  by (simp add: map_update)

fun p7_nodes :: "filsys_edition \<Rightarrow> u32 \<Rightarrow> u32 list \<Rightarrow> bool" where
  "p7_nodes fs h [] \<longleftrightarrow> h = 0"
| "p7_nodes fs h (b # ns) \<longleftrightarrow> h = b \<and> b \<noteq> 0 \<and> p7_nodes fs (wdata fs b ! 0 AND P7_MAXWORD) ns"

definition p7_blocks :: "filsys_edition \<Rightarrow> u32 list \<Rightarrow> u32 list" where
  "p7_blocks fs ns = concat (map (\<lambda>b. b # entries (wdata fs b)) ns)"

definition p7_area :: "filsys_edition \<Rightarrow> u32 set" where
  "p7_area fs = {b. 712 \<le> b \<and> b < 0x40000 \<and> p7_in_image fs b}"

definition p7_list :: "filsys_edition \<Rightarrow> u32 list \<Rightarrow> bool" where
  "p7_list fs ns \<longleftrightarrow> host_ok fs \<and> \<not> fs_readonly fs \<and> p7_nodes fs (fs_freelist fs) ns \<and>
     distinct (p7_blocks fs ns) \<and> set (p7_blocks fs ns) \<subseteq> p7_area fs"

definition p7_frees :: "filsys_edition \<Rightarrow> u32 set" where
  "p7_frees fs = {b. \<exists>ns. p7_list fs ns \<and> b \<in> set (p7_blocks fs ns)}"

lemma p7_nodes_unique: "p7_nodes fs h ns \<Longrightarrow> p7_nodes fs h ms \<Longrightarrow> ns = ms"
proof (induction ns arbitrary: h ms)
  case Nil
  then show ?case by (cases ms) auto
next
  case (Cons b ns)
  then show ?case by (cases ms) auto
qed

lemma p7_frees_eq: "p7_list fs ns \<Longrightarrow> p7_frees fs = set (p7_blocks fs ns)"
  using p7_nodes_unique by (auto simp: p7_frees_def p7_list_def)

lemma p7_nodes_cong: "(\<And>b. b \<in> set ns \<Longrightarrow> wdata fs' b = wdata fs b) \<Longrightarrow> p7_nodes fs' h ns = p7_nodes fs h ns"
  by (induction ns arbitrary: h) auto

lemma p7_blocks_cong: "(\<And>b. b \<in> set ns \<Longrightarrow> wdata fs' b = wdata fs b) \<Longrightarrow> p7_blocks fs' ns = p7_blocks fs ns"
  by (simp add: p7_blocks_def cong: map_cong)

lemma p7_blocks_Cons: "p7_blocks fs (b # ns) = b # entries (wdata fs b) @ p7_blocks fs ns"
  by (simp add: p7_blocks_def)

lemma p7_nodes_in_blocks: "set ns \<subseteq> set (p7_blocks fs ns)"
  by (auto simp: p7_blocks_def)

lemma p7_area_simps [simp]:
  "p7_area (wstore fs b ws) = p7_area fs" "p7_area (fs\<lparr>fs_freelist := x\<rparr>) = p7_area fs"
  "p7_area (fs\<lparr>fs_fl_dirty := y\<rparr>) = p7_area fs"
  by (simp_all add: p7_area_def)

lemma p7_area_ne0: "b \<in> p7_area fs \<Longrightarrow> b \<noteq> 0"
  by (auto simp: p7_area_def)

lemma p7_area_18: "b \<in> p7_area fs \<Longrightarrow> take_bit 18 b = b"
  by (simp add: p7_area_def take_bit_eq_mod mod_word_less)

definition p7_cleared :: "filsys_edition \<Rightarrow> u32 \<Rightarrow> filsys_edition" where
  "p7_cleared fs b = (wstore fs b (replicate 64 0))\<lparr>fs_fl_dirty := True\<rparr>"

text \<open>An exhausted head node is itself the block handed out.\<close>

lemma p7_balloc_node:
  assumes "p7_list fs (h # ns)" "entries (wdata fs h) = []"
  defines "fs' \<equiv> p7_cleared (fs\<lparr>fs_freelist := wdata fs h ! 0 AND P7_MAXWORD\<rparr>) h"
  shows "p7fs_balloc fs = (Inr h, fs')" "p7_list fs' ns" "p7_blocks fs' ns = p7_blocks fs ns"
    "wdata fs' h = replicate 64 0"
proof -
  have h: "fs_freelist fs = h" "h \<noteq> 0" "p7_in_image fs h" "host_ok fs" "\<not> fs_readonly fs"
    using assms(1) by (auto simp: p7_list_def p7_blocks_Cons p7_area_def)
  show "p7fs_balloc fs = (Inr h, fs')"
    using h assms(2) by (simp add: p7fs_balloc_def Let_def read_words_ok write_words_ok fs'_def
        p7_cleared_def last_slot_zero)
  have "h \<notin> set ns" using assms(1) p7_nodes_in_blocks [of ns fs] by (auto simp: p7_list_def p7_blocks_Cons)
  then have "b \<noteq> h" if "b \<in> set ns" for b using that by auto
  then have same: "wdata fs' b = wdata fs b" if "b \<in> set ns" for b
    using that by (simp add: fs'_def p7_cleared_def)
  show blocks: "p7_blocks fs' ns = p7_blocks fs ns" by (rule p7_blocks_cong) (rule same)
  have "p7_nodes fs' (wdata fs h ! 0 AND P7_MAXWORD) ns = p7_nodes fs (wdata fs h ! 0 AND P7_MAXWORD) ns"
    by (rule p7_nodes_cong) (rule same)
  then show "p7_list fs' ns"
    using assms(1) h unfolding p7_list_def blocks by (auto simp: fs'_def p7_cleared_def p7_blocks_Cons)
  show "wdata fs' h = replicate 64 0" by (simp add: fs'_def p7_cleared_def map_replicate_const)
qed

text \<open>Otherwise the last entry of the head node goes.\<close>

lemma p7_balloc_entry:
  assumes "p7_list fs (h # ns)" "entries (wdata fs h) \<noteq> []"
  defines "l \<equiv> last_slot (wdata fs h)"
  defines "b \<equiv> wdata fs h ! l"
  defines "fs' \<equiv> p7_cleared (wstore fs h ((wdata fs h)[l := 0])) b"
  shows "p7fs_balloc fs = (Inr b, fs')" "p7_list fs' (h # ns)"
    "set (p7_blocks fs' (h # ns)) = set (p7_blocks fs (h # ns)) - {b}" "b \<in> set (p7_blocks fs (h # ns))"
    "wdata fs' b = replicate 64 0"
proof -
  have l: "1 \<le> l" "l < 10" "b \<noteq> 0"
    using assms(2) last_slot_zero [of "wdata fs h"] last_slot_range [of "wdata fs h"]
      last_slot_nonzero [of "wdata fs h"] by (auto simp: l_def b_def)
  have be: "b \<in> set (entries (wdata fs h))" using l by (auto simp: set_entries b_def)
  have ls: "p7_nodes fs (fs_freelist fs) (h # ns)" "distinct (h # entries (wdata fs h) @ p7_blocks fs ns)"
    "set (h # entries (wdata fs h) @ p7_blocks fs ns) \<subseteq> p7_area fs"
    using assms(1) by (simp_all add: p7_list_def p7_blocks_Cons)
  have bh: "b \<noteq> h" "b \<notin> set (p7_blocks fs ns)" "b \<notin> set ns" "h \<notin> set ns"
    using ls(2) be p7_nodes_in_blocks [of ns fs] by auto
  have img: "p7_in_image fs h" "p7_in_image fs b" "host_ok fs" "\<not> fs_readonly fs" "fs_freelist fs = h" "h \<noteq> 0"
    using assms(1) be by (auto simp: p7_list_def p7_blocks_Cons p7_area_def)
  show "p7fs_balloc fs = (Inr b, fs')"
    using img l by (simp add: p7fs_balloc_def Let_def read_words_ok write_words_ok fs'_def
        p7_cleared_def flip: l_def b_def)
  have wh: "wdata fs' h = (wdata fs h)[l := 0]"
    using bh by (simp add: fs'_def p7_cleared_def wdata_upd_18)
  have "c \<noteq> b \<and> c \<noteq> h" if "c \<in> set ns" for c using that bh by auto
  then have same: "wdata fs' c = wdata fs c" if "c \<in> set ns" for c
    using that by (simp add: fs'_def p7_cleared_def)
  have blocks: "p7_blocks fs' ns = p7_blocks fs ns" by (rule p7_blocks_cong) (rule same)
  have "distinct (entries (wdata fs h))" using ls(2) by simp
  note e = entries_clear [OF length_wdata this l(1,2), folded b_def, OF l(3)]
  show set': "set (p7_blocks fs' (h # ns)) = set (p7_blocks fs (h # ns)) - {b}"
    using bh by (auto simp: p7_blocks_Cons wh e blocks)
  have "distinct (p7_blocks fs' (h # ns))"
    using ls(2) e by (auto simp: p7_blocks_Cons wh blocks)
  moreover have "p7_nodes fs' x ns = p7_nodes fs x ns" for x by (rule p7_nodes_cong) (rule same)
  moreover have "wdata fs' h ! 0 = wdata fs h ! 0" using wh l by simp
  ultimately show "p7_list fs' (h # ns)"
    using ls img set' assms(1) unfolding p7_list_def by (auto simp: fs'_def p7_cleared_def)
  show "b \<in> set (p7_blocks fs (h # ns))" using be by (simp add: p7_blocks_Cons)
  show "wdata fs' b = replicate 64 0" by (simp add: fs'_def p7_cleared_def map_replicate_const)
qed

lemma p7_balloc_empty: "p7_list fs [] \<Longrightarrow> p7fs_balloc fs = (Inl ENOSPC, fs)"
  by (simp add: p7_list_def p7fs_balloc_def)

lemma p7_balloc_post:
  assumes "p7_list fs ns" "ns \<noteq> []"
  shows "\<exists>b fs' ms. p7fs_balloc fs = (Inr b, fs') \<and> b \<in> set (p7_blocks fs ns) \<and> p7_list fs' ms \<and>
    set (p7_blocks fs' ms) = set (p7_blocks fs ns) - {b} \<and> p7_area fs' = p7_area fs \<and>
    wdata fs' b = replicate 64 0"
proof -
  obtain h ms where ns: "ns = h # ms" using assms(2) by (cases ns) auto
  show ?thesis
  proof (cases "entries (wdata fs h) = []")
    case True
    note A = p7_balloc_node [OF assms(1) [unfolded ns] True]
    have "h \<notin> set (p7_blocks fs ms)" using assms(1) by (simp add: ns p7_list_def p7_blocks_Cons)
    then have "set (p7_blocks fs ms) = set (p7_blocks fs ns) - {h}" "h \<in> set (p7_blocks fs ns)"
      using True by (auto simp: ns p7_blocks_Cons)
    with A show ?thesis unfolding p7_cleared_def by (metis p7_area_simps)
  next
    case False
    note B = p7_balloc_entry [OF assms(1) [unfolded ns] False]
    with ns show ?thesis unfolding p7_cleared_def by (metis p7_area_simps)
  qed
qed

text \<open>Freeing: a lone node, a new head node, or a new entry of the head node.\<close>

lemma p7_free_facts:
  assumes "p7_list fs ns" "b \<in> p7_area fs" "b \<notin> set (p7_blocks fs ns)"
  shows "b \<noteq> 0" "take_bit 18 b = b" "p7_in_image fs b" "host_ok fs" "\<not> fs_readonly fs"
    "p7_nodes fs (fs_freelist fs) ns" "c \<in> set ns \<Longrightarrow> c \<noteq> b"
  using assms p7_area_ne0 [of b fs] p7_area_18 [of b fs] p7_nodes_in_blocks [of ns fs]
  by (auto simp: p7_area_def p7_list_def)

lemma p7_head_facts:
  assumes "p7_list fs (h # ns)" "b \<notin> set (p7_blocks fs (h # ns))"
  shows "fs_freelist fs = h" "h \<noteq> 0" "p7_in_image fs h" "h \<noteq> b" "take_bit 18 h = h"
    "distinct (h # entries (wdata fs h) @ p7_blocks fs ns)" "b \<notin> set (entries (wdata fs h))"
    "b \<notin> set (p7_blocks fs ns)" "set (h # entries (wdata fs h) @ p7_blocks fs ns) \<subseteq> p7_area fs"
  using assms p7_area_18 [of h fs] by (auto simp: p7_list_def p7_blocks_Cons p7_area_def)

lemma entries_no_slots: "entries ((replicate 64 0)[0 := h]) = []"
  by (simp add: entries_def upt_rec)

lemma p7_bfree_lone:
  assumes "p7_list fs []" "b \<in> p7_area fs"
  defines "s \<equiv> wstore (fs\<lparr>fs_freelist := b\<rparr>) b ((replicate 64 0)[0 := 0])"
  shows "p7fs_bfree fs b = s" "p7_list s [b]" "p7_blocks s [b] = [b]"
proof -
  have f: "b \<noteq> 0" "p7_in_image fs b" "host_ok fs" "\<not> fs_readonly fs" "fs_freelist fs = 0"
    using p7_free_facts [OF assms(1,2)] assms(1) by (simp_all add: p7_blocks_def p7_list_def)
  have z: "(replicate 64 (0::u32))[0 := 0] = replicate 64 0" by (rule nth_equalityI) (auto simp: nth_list_update)
  show "p7fs_bfree fs b = s" using f by (simp add: p7fs_bfree_def write_words_ok s_def z)
  have wd: "wdata s b = (replicate 64 0)[0 := 0]" by (simp add: s_def map_update map_replicate_const)
  show bl: "p7_blocks s [b] = [b]" unfolding p7_blocks_Cons wd entries_no_slots by (simp add: p7_blocks_def)
  have "p7_nodes s (fs_freelist s) [b]" using f(1) wd by (simp add: s_def)
  then show "p7_list s [b]" using f assms(2) unfolding p7_list_def bl by (simp add: s_def)
qed

lemma p7_bfree_full:
  assumes "p7_list fs ns" "ns = h # ms" "b \<in> p7_area fs" "b \<notin> set (p7_blocks fs ns)"
    "first_zero (wdata fs h) [1..<10] = None"
  defines "s \<equiv> (wstore fs b ((replicate 64 0)[0 := h]))\<lparr>fs_freelist := b\<rparr>"
  shows "p7fs_bfree fs b = s" "p7_list s (b # ns)" "p7_blocks s (b # ns) = b # p7_blocks fs ns"
proof -
  note f = p7_free_facts [OF assms(1,3,4)]
  note h = p7_head_facts [OF assms(1,4) [unfolded assms(2)]]
  show "p7fs_bfree fs b = s"
    using f h assms(5) by (simp add: p7fs_bfree_def read_words_ok write_words_ok s_def)
  have wd: "wdata s b = (replicate 64 0)[0 := h]" by (simp add: s_def map_update map_replicate_const h(5))
  have same: "wdata s c = wdata fs c" if "c \<in> set ns" for c using that f(7) by (simp add: s_def)
  show bl: "p7_blocks s (b # ns) = b # p7_blocks fs ns"
    using p7_blocks_cong [of ns, OF same] unfolding p7_blocks_Cons wd entries_no_slots by simp
  have "wdata s b ! 0 AND P7_MAXWORD = h" using h(5) by (simp add: wd maxword_mask take_bit_eq_mask)
  then have "p7_nodes s b (b # ns)" using p7_nodes_cong [of ns, OF same] f(1,6) h(1) by simp
  then show "p7_list s (b # ns)"
    using assms f unfolding p7_list_def bl by (auto simp: s_def)
qed

lemma p7_bfree_slot:
  assumes "p7_list fs (h # ms)" "b \<in> p7_area fs" "b \<notin> set (p7_blocks fs (h # ms))"
    "first_zero (wdata fs h) [1..<10] = Some i"
  defines "s \<equiv> wstore fs h ((wdata fs h)[i := b])"
  shows "p7fs_bfree fs b = s" "p7_list s (h # ms)"
    "set (p7_blocks s (h # ms)) = insert b (set (p7_blocks fs (h # ms)))"
proof -
  note f = p7_free_facts [OF assms(1,2,3)]
  note h = p7_head_facts [OF assms(1,3)]
  have i: "1 \<le> i" "i < 10" "wdata fs h ! i = 0" using first_zero_some [OF assms(4)] by auto
  show "p7fs_bfree fs b = s"
    using f h assms(4) by (simp add: p7fs_bfree_def read_words_ok write_words_ok s_def)
  have wd: "wdata s h = (wdata fs h)[i := b]" by (simp add: s_def wdata_upd_18 f(2))
  have "distinct (entries (wdata fs h))" using h(6) by simp
  note e = entries_fill [OF length_wdata this i f(1) h(7)]
  have "c \<noteq> h" if "c \<in> set ms" for c using that h(6) p7_nodes_in_blocks by auto
  then have same: "wdata s c = wdata fs c" if "c \<in> set ms" for c using that by (simp add: s_def)
  have bl: "p7_blocks s (h # ms) = h # entries ((wdata fs h)[i := b]) @ p7_blocks fs ms"
    using p7_blocks_cong [of ms, OF same] by (simp add: p7_blocks_Cons wd)
  then show set': "set (p7_blocks s (h # ms)) = insert b (set (p7_blocks fs (h # ms)))"
    by (auto simp: p7_blocks_Cons e)
  have "wdata s h ! 0 = wdata fs h ! 0" using i wd by simp
  then have "p7_nodes s h (h # ms)" using f(6) h(1) p7_nodes_cong [of ms, OF same] by simp
  moreover have "distinct (p7_blocks s (h # ms))" using h(6,8,4) e unfolding bl by auto
  ultimately show "p7_list s (h # ms)"
    using f h set' assms(1,2) unfolding p7_list_def by (auto simp: s_def)
qed

lemma p7_bfree_post:
  assumes "p7_list fs ns" "b \<in> p7_area fs" "b \<notin> set (p7_blocks fs ns)"
  shows "\<exists>ms. p7_list (p7fs_bfree fs b) ms \<and>
    set (p7_blocks (p7fs_bfree fs b) ms) = insert b (set (p7_blocks fs ns)) \<and>
    p7_area (p7fs_bfree fs b) = p7_area fs"
proof (cases ns)
  case Nil
  then show ?thesis
    using p7_bfree_lone [of fs b] assms by (auto simp: p7_blocks_def intro!: exI [of _ "[b]"])
next
  case (Cons h ms)
  show ?thesis
  proof (cases "first_zero (wdata fs h) [1..<10]")
    case None
    from p7_bfree_full [OF assms(1) Cons assms(2,3) None] show ?thesis
      by (intro exI [of _ "b # ns"]) simp
  next
    case (Some i)
    from p7_bfree_slot [OF assms [unfolded Cons] Some] Cons show ?thesis
      by (intro exI [of _ ns]) simp
  qed
qed

interpretation p7list: block_allocator "\<lambda>fs. \<exists>ns. p7_list fs ns" p7_frees p7_area p7fs_balloc p7fs_bfree
proof
  fix fs assume "\<exists>ns. p7_list fs ns"
  then obtain ns where ns: "p7_list fs ns" by blast
  note fr = p7_frees_eq [OF ns]
  show "p7_frees fs \<subseteq> p7_area fs" using ns fr by (simp add: p7_list_def)
  show "finite (p7_frees fs)" by (simp add: fr)
  have nil: "ns = [] \<longleftrightarrow> p7_frees fs = {}" by (cases ns) (auto simp: fr p7_blocks_def)
  show "fst (p7fs_balloc fs) = Inl ENOSPC" if "p7_frees fs = {}"
    using that nil ns p7_balloc_empty by auto
  show "\<exists>b fs'. p7fs_balloc fs = (Inr b, fs') \<and> b \<in> p7_frees fs \<and> (\<exists>ns. p7_list fs' ns) \<and>
      p7_frees fs' = p7_frees fs - {b} \<and> p7_area fs' = p7_area fs" if "p7_frees fs \<noteq> {}"
    using p7_balloc_post [OF ns] that nil fr p7_frees_eq by metis
  fix b assume "b \<in> p7_area fs" "b \<notin> p7_frees fs"
  then show "(\<exists>ns. p7_list (p7fs_bfree fs b) ns) \<and> p7_frees (p7fs_bfree fs b) = insert b (p7_frees fs) \<and>
      p7_area (p7fs_bfree fs b) = p7_area fs"
    using p7_bfree_post [OF ns, of b] fr p7_frees_eq by metis
qed

end
