(* ===== verification/Alloc_Freelist.thy ===== *)
theory Alloc_Freelist
  imports Superblock Allocator
begin

text \<open>
  The block side of the V7-family free-list allocator (\<^verbatim>\<open>alloc_freelist.c\<close>): the
  superblock cache of \<^verbatim>\<open>nicfree\<close> block numbers whose bottom entry names a chain block
  holding the next segment.  \<open>flist\<close> reads the cache and the chain on disk as the list of
  free blocks in allocation order; \<^verbatim>\<open>v7fs_balloc\<close> pops it and
  \<^verbatim>\<open>v7fs_bfree\<close> pushes onto it.
\<close>

section \<open>Operations\<close>

text \<open>The count and the entries of a chain block; the count is stored in a 16-bit field.\<close>

definition chain_nfree :: "filsys_edition \<Rightarrow> byte list \<Rightarrow> u16" where
  "chain_nfree fs buf =
     (if d_df_nfree_wid (fs_desc fs) = 4 then ucast (bo_get32 (d_bo (fs_desc fs)) buf 0)
      else bo_get16 (d_bo (fs_desc fs)) buf 0)"

definition chain_free :: "filsys_edition \<Rightarrow> byte list \<Rightarrow> u32 list" where
  "chain_free fs buf =
     map (\<lambda>i. v7_get_daddr fs buf (v7_chain_free_off fs + d_daddr_wid (fs_desc fs) * i))
       [0..<d_nicfree (fs_desc fs)]"

definition fl_reload :: "filsys_edition \<Rightarrow> byte list \<Rightarrow> filsys_edition" where
  "fl_reload fs buf =
     fs\<lparr>fs_fl := (fs_fl fs)\<lparr>nfree := chain_nfree fs buf, free_cache := chain_free fs buf\<rparr>\<rparr>"

text \<open>The tail of \<^verbatim>\<open>v7fs_balloc\<close>: zero the block, count it and mark the list dirty.\<close>

definition balloc_finish :: "filsys_edition \<Rightarrow> u32 \<Rightarrow> u32 op" where
  "balloc_finish fs blk =
     try_as EIO (v7fs_write_block fs blk (replicate (d_bsize (fs_desc fs)) 0))
       (\<lambda>_ fs. (Inr blk,
          fs\<lparr>fs_fl := (fs_fl fs)\<lparr>tfree := (if tfree (fs_fl fs) \<noteq> 0 then tfree (fs_fl fs) - 1
                                             else tfree (fs_fl fs))\<rparr>,
             fs_fl_dirty := True\<rparr>))"

definition v7fs_balloc :: "filsys_edition \<Rightarrow> u32 op" where
  "v7fs_balloc fs =
     (if nfree (fs_fl fs) = 0 then (Inl ENOSPC, fs)
      else let n = unat (nfree (fs_fl fs)) - 1;
               fs = fs\<lparr>fs_fl := (fs_fl fs)\<lparr>nfree := nfree (fs_fl fs) - 1\<rparr>\<rparr> in
        if length (free_cache (fs_fl fs)) \<le> n then (Inl UB, fs)
        else let blk = free_cache (fs_fl fs) ! n in
          if blk = 0 then (Inl ENOSPC, fs)
          else if blk < v7_data_first fs \<or> fs_fsize fs \<le> blk then (Inl EIO, fs)
          else if nfree (fs_fl fs) = 0
          then (case v7fs_read_block fs blk of
                  Inl _ \<Rightarrow> (Inl EIO, fs)
                | Inr buf \<Rightarrow> try_as EIO (v7fs_super_write (fl_reload fs buf))
                    (\<lambda>_ fs. balloc_finish fs blk))
          else balloc_finish fs blk)"

definition put_daddrs :: "filsys_edition \<Rightarrow> byte list \<Rightarrow> nat \<Rightarrow> u32 list \<Rightarrow> byte list" where
  "put_daddrs fs buf off bs = put_array (v7_put_daddr fs) (d_daddr_wid (fs_desc fs)) buf off bs"

definition chain_block :: "filsys_edition \<Rightarrow> byte list" where
  "chain_block fs =
     (let d = fs_desc fs; fl = fs_fl fs; z = replicate (d_bsize d) 0;
          buf = (if d_df_nfree_wid d = 4 then bo_put32 (d_bo d) z 0 (ucast (nfree fl))
                 else bo_put16 (d_bo d) z 0 (nfree fl))
      in put_daddrs fs buf (v7_chain_free_off fs) (take (d_nicfree d) (free_cache fl)))"

definition bfree_push :: "filsys_edition \<Rightarrow> u32 \<Rightarrow> filsys_edition" where
  "bfree_push fs bno =
     fs\<lparr>fs_fl := (fs_fl fs)\<lparr>free_cache := (free_cache (fs_fl fs))[unat (nfree (fs_fl fs)) := bno],
                             nfree := nfree (fs_fl fs) + 1,
                             tfree := tfree (fs_fl fs) + 1\<rparr>\<rparr>"

definition v7fs_bfree :: "filsys_edition \<Rightarrow> u32 \<Rightarrow> filsys_edition" where
  "v7fs_bfree fs bno =
     (if bno < v7_data_first fs \<or> fs_fsize fs \<le> bno then fs
      else let fs = (if nfree (fs_fl fs) = 0
                     then fs\<lparr>fs_fl := (fs_fl fs)\<lparr>nfree := 1, free_cache := (free_cache (fs_fl fs))[0 := 0]\<rparr>\<rparr>
                     else fs) in
        if d_nicfree (fs_desc fs) \<le> unat (nfree (fs_fl fs))
        then (case v7fs_write_block fs bno (chain_block fs) of
                (Inl _, fs) \<Rightarrow> fs
              | (Inr _, fs) \<Rightarrow> bfree_push (fs\<lparr>fs_fl := (fs_fl fs)\<lparr>nfree := 0\<rparr>\<rparr>) bno)
        else bfree_push fs bno)"

section \<open>The free list as a list of blocks\<close>

definition in_data :: "filsys_edition \<Rightarrow> u32 \<Rightarrow> bool" where
  "in_data fs b \<longleftrightarrow> v7_data_first fs \<le> b \<and> b < fs_fsize fs"

text \<open>
  \<open>flist fs n c bs\<close>: with \<open>n\<close> valid entries in the cache \<open>c\<close>, repeated allocation
  hands out exactly \<open>bs\<close>, reading the next segment from a chain block before it is handed out.
\<close>

primrec flist :: "filsys_edition \<Rightarrow> nat \<Rightarrow> u32 list \<Rightarrow> u32 list \<Rightarrow> bool" where
  "flist fs n c [] \<longleftrightarrow> n = 0 \<or> (n \<le> length c \<and> c ! (n - 1) = 0)"
| "flist fs n c (b # bs) \<longleftrightarrow>
     0 < n \<and> n \<le> length c \<and> b = c ! (n - 1) \<and> b \<noteq> 0 \<and> in_data fs b \<and>
     (if n = 1 then flist fs (unat (chain_nfree fs (blk_data fs b))) (chain_free fs (blk_data fs b)) bs
      else flist fs (n - 1) c bs)"

text \<open>
  The geometry the engine relies on: the data area lies behind the superblock and inside the
  image, a chain block fits a block, and the addresses fit their on-disk width.
\<close>

definition fl_geom :: "filsys_edition \<Rightarrow> bool" where
  "fl_geom fs \<longleftrightarrow>
     (let d = fs_desc fs in
      host_ok fs \<and> \<not> fs_readonly fs \<and> super_in_image fs \<and> 512 \<le> d_bsize d \<and>
      2 \<le> v7_data_first fs \<and> (\<forall>b. in_data fs b \<longrightarrow> blk_in_image fs b) \<and>
      2 \<le> d_nicfree d \<and> d_nicfree d < 65536 \<and>
      (d_df_nfree_wid d = 4 \<or> d_df_nfree_wid d = 2) \<and>
      (d_daddr_wid d = 4 \<or> (d_daddr_wid d = 2 \<and> fs_fsize fs \<le> 65536)) \<and>
      v7_chain_free_off fs + d_daddr_wid d * d_nicfree d \<le> d_bsize d)"

definition fl_inv :: "filsys_edition \<Rightarrow> u32 list \<Rightarrow> bool" where
  "fl_inv fs bs \<longleftrightarrow>
     fl_geom fs \<and> length (free_cache (fs_fl fs)) = d_nicfree (fs_desc fs) \<and>
     (d_daddr_wid (fs_desc fs) = 2 \<longrightarrow> (\<forall>b \<in> set (free_cache (fs_fl fs)). b < 65536)) \<and>
     distinct bs \<and> flist fs (unat (nfree (fs_fl fs))) (free_cache (fs_fl fs)) bs"

section \<open>The chain-block codec\<close>

lemma get_put_daddr:
  assumes "off + d_daddr_wid (fs_desc fs) \<le> length p"
    and "d_daddr_wid (fs_desc fs) = 4 \<or> (d_daddr_wid (fs_desc fs) = 2 \<and> v < 65536)"
  shows "v7_get_daddr fs (v7_put_daddr fs p off v) off = v"
proof -
  have "take_bit 16 v = v" if "v < 65536" using that by (rule less_mask_take_bit_u16)
  then have "ucast (ucast (v AND 0xFFFF) :: u16) = v" if "v < 65536"
    using that by (simp add: ucast_ucast_eq_take_bit_u16 mask_numerals take_bit_eq_mask [symmetric])
  then show ?thesis
    using assms by (auto simp: v7_get_daddr_def v7_put_daddr_def le16.get_put bo32.get_put)
qed

text \<open>
  The address codec restricted to the values its width can hold is a field codec, so the run
  of addresses in a chain block round-trips by the interface's lemmas.
\<close>

definition daddr_fits :: "filsys_edition \<Rightarrow> u32 \<Rightarrow> bool" where
  "daddr_fits fs v \<longleftrightarrow> d_daddr_wid (fs_desc fs) = 4 \<or> v < 65536"

lemma daddr_codec:
  assumes "d_daddr_wid (fs_desc fs) = 4 \<or> d_daddr_wid (fs_desc fs) = 2"
  shows "field_codec (v7_get_daddr fs) (v7_put_daddr fs) (d_daddr_wid (fs_desc fs)) (daddr_fits fs)"
proof
  show "v7_get_daddr fs (v7_put_daddr fs p off v) off = v"
    if "off + d_daddr_wid (fs_desc fs) \<le> length p" "daddr_fits fs v" for off p v
    using that assms by (intro get_put_daddr) (auto simp: daddr_fits_def)
  show "length (v7_put_daddr fs p off v) = length p" for off p v
    by (simp add: v7_put_daddr_def le16.length_put)
  show "v7_put_daddr fs p off v ! i = p ! i"
    if "i < off \<or> off + d_daddr_wid (fs_desc fs) \<le> i" for i off p v
    using that assms by (auto simp: v7_put_daddr_def le16.nth_put bo32.nth_put)
  show "v7_get_daddr fs p off = v7_get_daddr fs q off"
    if "\<And>i. off \<le> i \<Longrightarrow> i < off + d_daddr_wid (fs_desc fs) \<Longrightarrow> p ! i = q ! i" for off p q
    using that assms
    by (auto simp: v7_get_daddr_def intro!: arg_cong [where f = ucast] le16.get_cong bo32.get_cong)
qed

lemma chain_free_array:
  "chain_free fs buf =
     get_array (v7_get_daddr fs) (d_daddr_wid (fs_desc fs)) buf (v7_chain_free_off fs) (d_nicfree (fs_desc fs))"
  by (simp add: chain_free_def get_array_def)

lemma length_chain_free [simp]: "length (chain_free fs buf) = d_nicfree (fs_desc fs)"
  by (simp add: chain_free_def)

lemma fl_geom_daddr:
  "fl_geom fs \<Longrightarrow> d_daddr_wid (fs_desc fs) = 4 \<or> d_daddr_wid (fs_desc fs) = 2"
  by (auto simp: fl_geom_def Let_def)

lemma length_chain_block [simp]:
  "fl_geom fs \<Longrightarrow> length (chain_block fs) = d_bsize (fs_desc fs)"
  by (simp add: chain_block_def put_daddrs_def Let_def
      field_codec.length_put_array [OF daddr_codec [OF fl_geom_daddr]])

text \<open>A dumped segment reads back: its count and its entries.\<close>

lemma chain_block_roundtrip:
  assumes "fl_geom fs" and "length (free_cache (fs_fl fs)) = d_nicfree (fs_desc fs)"
    and "d_daddr_wid (fs_desc fs) = 2 \<longrightarrow> (\<forall>b \<in> set (free_cache (fs_fl fs)). b < 65536)"
  shows "chain_nfree fs (chain_block fs) = nfree (fs_fl fs)"
    and "chain_free fs (chain_block fs) = free_cache (fs_fl fs)"
proof -
  let ?d = "fs_desc fs" and ?fl = "fs_fl fs"
  note codec = daddr_codec [OF fl_geom_daddr [OF assms(1)]]
  define head where "head = (if d_df_nfree_wid ?d = 4 then bo_put32 (d_bo ?d) (replicate (d_bsize ?d) 0) 0 (ucast (nfree ?fl))
     else bo_put16 (d_bo ?d) (replicate (d_bsize ?d) 0) 0 (nfree ?fl))"
  have len: "length head = d_bsize ?d" by (simp add: head_def)
  have blk: "chain_block fs =
    put_array (v7_put_daddr fs) (d_daddr_wid ?d) head (v7_chain_free_off fs) (free_cache ?fl)"
    using assms(2) by (simp add: chain_block_def head_def put_daddrs_def Let_def)
  have fits: "v7_chain_free_off fs + d_daddr_wid ?d * length (free_cache ?fl) \<le> length head"
    and vals: "\<forall>v \<in> set (free_cache ?fl). daddr_fits fs v"
    using assms len by (auto simp: fl_geom_def Let_def daddr_fits_def)
  show "chain_free fs (chain_block fs) = free_cache ?fl"
    using field_codec.get_put_array [OF codec fits vals] assms(2)
    by (simp add: blk chain_free_array)
  have low: "chain_block fs ! i = head ! i" if "i < v7_chain_free_off fs" for i
    unfolding blk using that by (intro field_codec.nth_put_array [OF codec]) simp
  have b: "512 \<le> d_bsize ?d" using assms(1) by (simp add: fl_geom_def Let_def)
  show "chain_nfree fs (chain_block fs) = nfree ?fl"
  proof (cases "d_df_nfree_wid ?d = 4")
    case True
    then have "bo_get32 (d_bo ?d) (chain_block fs) 0 = bo_get32 (d_bo ?d) head 0"
      using low by (intro bo32.get_cong) (simp add: v7_chain_free_off_def)
    then show ?thesis
      using True b by (simp add: chain_nfree_def head_def codec_simps)
  next
    case False
    then have "bo_get16 (d_bo ?d) (chain_block fs) 0 = bo_get16 (d_bo ?d) head 0"
      using low by (intro bo16.get_cong) (simp add: v7_chain_free_off_def fb_free_off_def split: if_splits)
    then show ?thesis
      using False b by (simp add: chain_nfree_def head_def codec_simps)
  qed
qed

section \<open>What the list depends on\<close>

text \<open>The list looks at the geometry and at the contents of its own blocks only.\<close>

definition same_geom :: "filsys_edition \<Rightarrow> filsys_edition \<Rightarrow> bool" where
  "same_geom fs fs' \<longleftrightarrow>
     fs_desc fs' = fs_desc fs \<and> fs_readonly fs' = fs_readonly fs \<and> fs_base fs' = fs_base fs \<and>
     fs_imgsize fs' = fs_imgsize fs \<and> fs_isize fs' = fs_isize fs \<and> fs_fsize fs' = fs_fsize fs"

lemma same_geom_facts:
  assumes "same_geom fs fs'"
  shows "v7_data_first fs' = v7_data_first fs" "in_data fs' b = in_data fs b"
    "blk_off fs' b = blk_off fs b" "blk_in_image fs' b = blk_in_image fs b"
    "super_in_image fs' = super_in_image fs" "v7_chain_free_off fs' = v7_chain_free_off fs"
    "chain_nfree fs' buf = chain_nfree fs buf" "chain_free fs' buf = chain_free fs buf"
  using assms
  by (simp_all add: same_geom_def v7_data_first_def in_data_def blk_off_def blk_in_image_def
      super_in_image_def super_off_def super_len_def v7_chain_free_off_def chain_nfree_def
      chain_free_def v7_get_daddr_def)

lemma flist_cong:
  assumes "same_geom fs fs'" and "\<And>b. b \<in> set bs \<Longrightarrow> blk_data fs' b = blk_data fs b"
    and "flist fs n c bs"
  shows "flist fs' n c bs"
  using assms(2,3)
proof (induction bs arbitrary: n c)
  case (Cons b bs)
  then show ?case
    by (auto simp: same_geom_facts [OF assms(1)] split: if_splits)
qed simp

lemma flist_in_data: "flist fs n c bs \<Longrightarrow> b \<in> set bs \<Longrightarrow> in_data fs b"
  by (induction bs arbitrary: n c) (auto split: if_splits)

text \<open>The cache and the disk determine the list.\<close>

lemma flist_unique: "flist fs n c bs \<Longrightarrow> flist fs n c cs \<Longrightarrow> bs = cs"
proof (induction bs arbitrary: n c cs)
  case Nil
  then show ?case by (cases cs) auto
next
  case (Cons b bs)
  then show ?case by (cases cs) (auto split: if_splits)
qed

text \<open>Entries above the valid ones, and a prefix that stays, do not matter.\<close>

lemma flist_cache_cong:
  assumes "flist fs n c bs" and "length c' = length c" and "\<And>i. i < n \<Longrightarrow> c' ! i = c ! i"
  shows "flist fs n c' bs"
  using assms
proof (induction bs arbitrary: n)
  case (Cons b bs)
  then show ?case by (cases "n = 1") auto
qed auto

lemma fl_geom_same:
  "same_geom fs fs' \<Longrightarrow> host_ok fs' \<Longrightarrow> fl_geom fs \<Longrightarrow> fl_geom fs'"
  using same_geom_facts [of fs fs'] by (simp add: fl_geom_def Let_def same_geom_def)

lemma in_data_ge2: "fl_geom fs \<Longrightarrow> in_data fs b \<Longrightarrow> 2 \<le> b"
  by (auto simp: fl_geom_def Let_def in_data_def)

section \<open>Allocation pops the list\<close>

definition tfree_dec :: "filsys_edition \<Rightarrow> u32" where
  "tfree_dec fs = (if tfree (fs_fl fs) \<noteq> 0 then tfree (fs_fl fs) - 1 else tfree (fs_fl fs))"

definition balloc_done :: "filsys_edition \<Rightarrow> u32 \<Rightarrow> filsys_edition" where
  "balloc_done fs blk =
     (blk_store fs blk (replicate (d_bsize (fs_desc fs)) 0))
       \<lparr>fs_fl := (fs_fl fs)\<lparr>tfree := tfree_dec fs\<rparr>, fs_fl_dirty := True\<rparr>"

lemma balloc_finish_ok:
  "fl_geom fs \<Longrightarrow> in_data fs blk \<Longrightarrow> balloc_finish fs blk = (Inr blk, balloc_done fs blk)"
  by (simp add: balloc_finish_def balloc_done_def tfree_dec_def fl_geom_def Let_def write_block_ok)

lemma blk_data_with_fl [simp]:
  "blk_data (fs\<lparr>fs_fl := x, fs_fl_dirty := y\<rparr>) b = blk_data fs b"
  "blk_data (fs\<lparr>fs_fl := x\<rparr>) b = blk_data fs b"
  by (simp_all add: blk_data_def blk_off_def)

lemma host_ok_with_fl [simp]:
  "host_ok (fs\<lparr>fs_fl := x, fs_fl_dirty := y\<rparr>) = host_ok fs" "host_ok (fs\<lparr>fs_fl := x\<rparr>) = host_ok fs"
  by (simp_all add: host_ok_def)

lemma same_geom_refl [simp]:
  "same_geom fs fs" "same_geom fs (fs\<lparr>fs_fl := x\<rparr>)" "same_geom fs (blk_store fs b buf)"
  "same_geom fs (super_stored fs)" "same_geom fs (balloc_done fs b)" "same_geom fs (fl_reload fs buf)"
  by (simp_all add: same_geom_def balloc_done_def fl_reload_def)

lemma same_geom_trans: "same_geom a b \<Longrightarrow> same_geom b c \<Longrightarrow> same_geom a c"
  by (simp add: same_geom_def)

lemma balloc_done_facts:
  assumes "fl_geom fs" "in_data fs b"
  shows "fl_geom (balloc_done fs b)"
    "blk_data (balloc_done fs b) b = replicate (d_bsize (fs_desc fs)) 0"
    "c \<noteq> b \<Longrightarrow> blk_data (balloc_done fs b) c = blk_data fs c"
    "nfree (fs_fl (balloc_done fs b)) = nfree (fs_fl fs)"
    "free_cache (fs_fl (balloc_done fs b)) = free_cache (fs_fl fs)"
    "tfree (fs_fl (balloc_done fs b)) = tfree_dec fs"
    "ninode (fs_fl (balloc_done fs b)) = ninode (fs_fl fs)"
    "inode_cache (fs_fl (balloc_done fs b)) = inode_cache (fs_fl fs)"
    "fs_fl_dirty (balloc_done fs b)"
proof -
  have "host_ok (balloc_done fs b)"
    using assms by (auto simp: balloc_done_def fl_geom_def Let_def)
  then show "fl_geom (balloc_done fs b)"
    using fl_geom_same [of fs "balloc_done fs b"] assms by simp
qed (use assms in \<open>simp_all add: balloc_done_def\<close>)

lemma fl_inv_pop:
  assumes "fl_geom fs" and "in_data fs b" "b \<notin> set bs"
    and "length (free_cache (fs_fl fs)) = d_nicfree (fs_desc fs)"
    and "d_daddr_wid (fs_desc fs) = 2 \<longrightarrow> (\<forall>b \<in> set (free_cache (fs_fl fs)). b < 65536)"
    and "distinct bs" and "flist fs (unat (nfree (fs_fl fs))) (free_cache (fs_fl fs)) bs"
  shows "fl_inv (balloc_done fs b) bs"
proof -
  have "fs_desc (balloc_done fs b) = fs_desc fs" by (simp add: balloc_done_def)
  moreover have "flist (balloc_done fs b) (unat (nfree (fs_fl fs))) (free_cache (fs_fl fs)) bs"
  proof (rule flist_cong [OF same_geom_refl(5) _ assms(7)])
    fix c assume "c \<in> set bs"
    with assms(3) have "c \<noteq> b" by blast
    then show "blk_data (balloc_done fs b) c = blk_data fs c"
      by (rule balloc_done_facts(3) [OF assms(1,2)])
  qed
  ultimately show ?thesis
    using assms(4-6) balloc_done_facts(1) [OF assms(1,2)]
    unfolding fl_inv_def balloc_done_facts(4,5) [OF assms(1,2)] by simp
qed

text \<open>The reloaded mount: the next segment is in the cache and the superblock names it.\<close>

definition fl_refilled :: "filsys_edition \<Rightarrow> u32 \<Rightarrow> filsys_edition" where
  "fl_refilled fs b = super_stored (fl_reload fs (blk_data fs b))"

definition fl_popped :: "filsys_edition \<Rightarrow> filsys_edition" where
  "fl_popped fs = fs\<lparr>fs_fl := (fs_fl fs)\<lparr>nfree := nfree (fs_fl fs) - 1\<rparr>\<rparr>"

lemma fl_refilled_facts:
  assumes "fl_geom fs"
  shows "fl_geom (fl_refilled fs b)" "same_geom fs (fl_refilled fs b)"
    "fs_desc (fl_refilled fs b) = fs_desc fs"
    "nfree (fs_fl (fl_refilled fs b)) = chain_nfree fs (blk_data fs b)"
    "free_cache (fs_fl (fl_refilled fs b)) = chain_free fs (blk_data fs b)"
    "2 \<le> c \<Longrightarrow> blk_data (fl_refilled fs b) c = blk_data fs c"
proof -
  let ?r = "fl_reload fs (blk_data fs b)"
  have r: "same_geom fs ?r" "host_ok ?r" "512 \<le> d_bsize (fs_desc ?r)"
    using assms by (simp_all add: fl_geom_def Let_def) (simp_all add: fl_reload_def)
  have si: "super_in_image ?r"
    using assms same_geom_facts(5) [OF r(1)] by (simp add: fl_geom_def Let_def)
  show g: "same_geom fs (fl_refilled fs b)"
    unfolding fl_refilled_def using r(1) same_geom_refl(4) by (rule same_geom_trans)
  show "fl_geom (fl_refilled fs b)"
    using fl_geom_same [OF g _ assms] r si by (simp add: fl_refilled_def)
  show "2 \<le> c \<Longrightarrow> blk_data (fl_refilled fs b) c = blk_data fs c"
    using r by (simp add: fl_refilled_def) (simp add: fl_reload_def)
qed (simp_all add: fl_refilled_def fl_reload_def)

lemma chain_free_fits:
  "d_daddr_wid (fs_desc fs) = 2 \<Longrightarrow> v \<in> set (chain_free fs buf) \<Longrightarrow> v < 65536"
  by (auto simp: chain_free_def v7_get_daddr_def word_less_nat_alt unat_u16_bound)

lemma fl_popped_facts:
  assumes "nfree (fs_fl fs) \<noteq> 0"
  shows "unat (nfree (fs_fl (fl_popped fs))) = unat (nfree (fs_fl fs)) - 1"
    "free_cache (fs_fl (fl_popped fs)) = free_cache (fs_fl fs)"
    "same_geom fs (fl_popped fs)" "host_ok (fl_popped fs) = host_ok fs"
    "blk_data (fl_popped fs) b = blk_data fs b" "fs_desc (fl_popped fs) = fs_desc fs"
    "in_data (fl_popped fs) b = in_data fs b" "tfree_dec (fl_popped fs) = tfree_dec fs"
  using assms by (simp_all add: fl_popped_def unat_minus_one same_geom_facts(2) [of fs, OF same_geom_refl(2)]
      tfree_dec_def)

lemma balloc_unfold:
  "v7fs_balloc fs =
     (if nfree (fs_fl fs) = 0 then (Inl ENOSPC, fs)
      else let n = unat (nfree (fs_fl fs)) - 1; fs1 = fl_popped fs in
        if length (free_cache (fs_fl fs)) \<le> n then (Inl UB, fs1)
        else let blk = free_cache (fs_fl fs) ! n in
          if blk = 0 then (Inl ENOSPC, fs1)
          else if \<not> in_data fs blk then (Inl EIO, fs1)
          else if nfree (fs_fl fs) = 1
          then (case v7fs_read_block fs1 blk of
                  Inl _ \<Rightarrow> (Inl EIO, fs1)
                | Inr buf \<Rightarrow> try_as EIO (v7fs_super_write (fl_reload fs1 buf))
                    (\<lambda>_ fs. balloc_finish fs blk))
          else balloc_finish fs1 blk)"
proof -
  have p: "v7_data_first (fl_popped fs) = v7_data_first fs" "fs_fsize (fl_popped fs) = fs_fsize fs"
    "free_cache (fs_fl (fl_popped fs)) = free_cache (fs_fl fs)"
    "nfree (fs_fl (fl_popped fs)) = 0 \<longleftrightarrow> nfree (fs_fl fs) = 1"
    by (simp_all add: fl_popped_def v7_data_first_def)
  show ?thesis
    unfolding v7fs_balloc_def fl_popped_def [symmetric] Let_def p in_data_def not_le not_less de_Morgan_conj ..
qed

text \<open>An empty list is the out-of-space error, with the sentinel popped at most.\<close>

lemma balloc_nil:
  assumes "fl_inv fs []"
  shows "\<exists>fs'. v7fs_balloc fs = (Inl ENOSPC, fs') \<and> (fs' = fs \<or> fs' = fl_popped fs)"
proof (cases "nfree (fs_fl fs) = 0")
  case True
  then show ?thesis by (simp add: balloc_unfold)
next
  case False
  then have "0 < unat (nfree (fs_fl fs))" by (simp add: unat_gt_0)
  then show ?thesis
    using assms False by (auto simp: balloc_unfold fl_inv_def Let_def)
qed

text \<open>The state a successful allocation leaves, with and without a reload.\<close>

definition balloc_post :: "filsys_edition \<Rightarrow> u32 \<Rightarrow> filsys_edition" where
  "balloc_post fs b =
     (if nfree (fs_fl fs) = 1 then balloc_done (fl_refilled (fl_popped fs) b) b
      else balloc_done (fl_popped fs) b)"

lemma balloc_cons:
  assumes "fl_inv fs (b # bs)"
  shows "v7fs_balloc fs = (Inr b, balloc_post fs b)" and "fl_inv (balloc_post fs b) bs"
proof -
  let ?n = "unat (nfree (fs_fl fs))" and ?p = "fl_popped fs"
  from assms have n: "0 < ?n" "?n \<le> length (free_cache (fs_fl fs))" "b = free_cache (fs_fl fs) ! (?n - 1)"
    "b \<noteq> 0" "in_data fs b" and geom: "fl_geom fs" and b: "b \<notin> set bs" "distinct bs"
    by (auto simp: fl_inv_def)
  have nz: "nfree (fs_fl fs) \<noteq> 0" using n(1) by (auto simp: unat_gt_0)
  have ne: "free_cache (fs_fl fs) \<noteq> []" using n(1,2) by auto
  note p = fl_popped_facts [OF nz]
  have pg: "fl_geom ?p" using fl_geom_same [OF p(3)] geom p(4) by (auto simp: fl_geom_def Let_def)
  have one: "nfree (fs_fl fs) = 1 \<longleftrightarrow> ?n = 1" by (simp add: word_unat_eq_iff)
  have cache: "length (free_cache (fs_fl fs)) = d_nicfree (fs_desc fs)"
    "d_daddr_wid (fs_desc fs) = 2 \<longrightarrow> (\<forall>b \<in> set (free_cache (fs_fl fs)). b < 65536)"
    using assms by (auto simp: fl_inv_def)
  show "v7fs_balloc fs = (Inr b, balloc_post fs b)"
  proof (cases "?n = 1")
    case False
    then show ?thesis
      using n nz one balloc_finish_ok [OF pg, of b] p
      by (simp add: balloc_unfold balloc_post_def Let_def)
  next
    case True
    have rd: "v7fs_read_block ?p b = Inr (blk_data ?p b)"
      using pg n(5) p(7) by (intro read_block_ok) (auto simp: fl_geom_def Let_def)
    let ?r = "fl_reload ?p (blk_data ?p b)"
    have g: "same_geom ?p ?r" "host_ok ?r" "\<not> fs_readonly ?r"
      using pg by (simp_all add: fl_geom_def Let_def) (simp_all add: fl_reload_def)
    have "super_in_image ?r" using pg same_geom_facts(5) [OF g(1)] by (simp add: fl_geom_def Let_def)
    then have sw: "v7fs_super_write ?r = (Inr (), fl_refilled ?p b)"
      using g by (simp add: super_write_ok fl_refilled_def)
    have "in_data (fl_refilled ?p b) b"
      using n(5) p(7) same_geom_facts(2) [OF fl_refilled_facts(2) [OF pg]] by simp
    then show ?thesis
      using True n nz one rd sw balloc_finish_ok [OF fl_refilled_facts(1) [OF pg]] ne
      by (simp add: balloc_unfold balloc_post_def Let_def)
  qed
  show "fl_inv (balloc_post fs b) bs"
  proof (cases "?n = 1")
    case False
    have "flist ?p (?n - 1) (free_cache (fs_fl fs)) bs"
      using assms False p(3,5) by (intro flist_cong [of fs ?p]) (auto simp: fl_inv_def)
    then show ?thesis
      using False one pg n(5) b cache p by (simp add: balloc_post_def fl_inv_pop)
  next
    case True
    let ?q = "fl_refilled ?p b"
    note q = fl_refilled_facts [OF pg, where b = b]
    have sg: "same_geom fs ?q" using p(3) q(2) by (rule same_geom_trans)
    have fl: "flist fs (unat (chain_nfree fs (blk_data fs b))) (chain_free fs (blk_data fs b)) bs"
      using assms True by (auto simp: fl_inv_def)
    have "flist ?q (unat (chain_nfree fs (blk_data fs b))) (chain_free fs (blk_data fs b)) bs"
    proof (rule flist_cong [OF sg _ fl])
      fix c assume "c \<in> set bs"
      then have "2 \<le> c" using fl geom flist_in_data in_data_ge2 by blast
      then show "blk_data ?q c = blk_data fs c" using q(6) p(5) by simp
    qed
    then show ?thesis
      using True one n(5) b q chain_free_fits [of ?p] p
        same_geom_facts(2,7,8) [OF sg] same_geom_facts(7,8) [OF p(3)]
      by (auto simp: balloc_post_def intro!: fl_inv_pop)
  qed
qed

section \<open>Freeing pushes onto the list\<close>

lemma flist_push:
  assumes "flist fs n c bs" and "0 < n" "n < length c" and "b \<noteq> 0" "in_data fs b"
  shows "flist fs (Suc n) (c[n := b]) (b # bs)"
  using assms flist_cache_cong [OF assms(1), of "c[n := b]"] by simp

text \<open>The mount after the full cache has been dumped into the freed block.\<close>

definition bfree_dumped :: "filsys_edition \<Rightarrow> u32 \<Rightarrow> filsys_edition" where
  "bfree_dumped fs b =
     bfree_push ((blk_store fs b (chain_block fs))\<lparr>fs_fl := (fs_fl fs)\<lparr>nfree := 0\<rparr>\<rparr>) b"

lemma bfree_push_facts:
  "same_geom fs (bfree_push fs b)" "host_ok (bfree_push fs b) = host_ok fs"
  "blk_data (bfree_push fs b) c = blk_data fs c"
  "fs_desc (bfree_push fs b) = fs_desc fs" "tfree (fs_fl (bfree_push fs b)) = tfree (fs_fl fs) + 1"
  "free_cache (fs_fl (bfree_push fs b)) = (free_cache (fs_fl fs))[unat (nfree (fs_fl fs)) := b]"
  "nfree (fs_fl (bfree_push fs b)) = nfree (fs_fl fs) + 1"
  by (simp_all add: bfree_push_def)

lemma unat_nfree_Suc: "unat (n :: u16) < 65535 \<Longrightarrow> unat (n + 1) = Suc (unat n)"
  by (simp add: unat_word_ariths)

lemma fits_update:
  "d_daddr_wid d = 2 \<longrightarrow> (\<forall>x \<in> set c. x < 65536) \<Longrightarrow> (d_daddr_wid d = 2 \<longrightarrow> b < 65536) \<Longrightarrow>
   d_daddr_wid d = 2 \<longrightarrow> (\<forall>x \<in> set (c[i := b]). x < (65536 :: u32))"
  by (auto dest!: set_update_subset_insert [THEN subsetD])

lemma in_data_fits: "fl_geom fs \<Longrightarrow> in_data fs b \<Longrightarrow> d_daddr_wid (fs_desc fs) = 2 \<longrightarrow> b < 65536"
  by (auto simp: fl_geom_def Let_def in_data_def)

lemma bfree_push_inv:
  assumes "fl_inv fs bs" and "in_data fs b" "b \<notin> set bs"
    and "0 < unat (nfree (fs_fl fs))" "unat (nfree (fs_fl fs)) < d_nicfree (fs_desc fs)"
  shows "fl_inv (bfree_push fs b) (b # bs)"
proof -
  have geom: "fl_geom fs" and len: "length (free_cache (fs_fl fs)) = d_nicfree (fs_desc fs)"
    using assms(1) by (auto simp: fl_inv_def)
  have b: "b \<noteq> 0" using in_data_ge2 [OF geom assms(2)] by auto
  have fl: "flist fs (Suc (unat (nfree (fs_fl fs)))) ((free_cache (fs_fl fs))[unat (nfree (fs_fl fs)) := b]) (b # bs)"
    using assms len b by (intro flist_push) (auto simp: fl_inv_def)
  have "flist (bfree_push fs b) (Suc (unat (nfree (fs_fl fs))))
      ((free_cache (fs_fl fs))[unat (nfree (fs_fl fs)) := b]) (b # bs)"
    by (rule flist_cong [OF bfree_push_facts(1) bfree_push_facts(3) fl])
  moreover have "unat (nfree (fs_fl fs) + 1) = Suc (unat (nfree (fs_fl fs)))"
    using assms(5) geom by (intro unat_nfree_Suc) (auto simp: fl_geom_def Let_def)
  moreover have "fl_geom (bfree_push fs b)"
    using geom fl_geom_same [OF bfree_push_facts(1), of fs b]
    by (auto simp: bfree_push_facts fl_geom_def Let_def)
  ultimately show ?thesis
    using assms len fits_update [OF _ in_data_fits [OF geom assms(2)],
        of "free_cache (fs_fl fs)" "unat (nfree (fs_fl fs))"]
    by (simp add: fl_inv_def bfree_push_facts)
qed

lemma bfree_dumped_inv:
  assumes "fl_inv fs bs" and "in_data fs b" "b \<notin> set bs"
  shows "fl_inv (bfree_dumped fs b) (b # bs)"
proof -
  let ?s = "blk_store fs b (chain_block fs)" and ?f = "bfree_dumped fs b"
  have geom: "fl_geom fs" and len: "length (free_cache (fs_fl fs)) = d_nicfree (fs_desc fs)"
    and fits: "d_daddr_wid (fs_desc fs) = 2 \<longrightarrow> (\<forall>b \<in> set (free_cache (fs_fl fs)). b < 65536)"
    and fl: "flist fs (unat (nfree (fs_fl fs))) (free_cache (fs_fl fs)) bs" and d: "distinct bs"
    using assms(1) by (auto simp: fl_inv_def)
  have sg: "same_geom fs ?f" by (simp add: bfree_dumped_def bfree_push_def same_geom_def)
  have img: "blk_in_image fs b" "host_ok fs" using geom assms(2) by (auto simp: fl_geom_def Let_def)
  have data: "blk_data ?f c = blk_data ?s c" "fs_desc ?f = fs_desc fs" for c
    by (simp_all add: bfree_dumped_def bfree_push_facts)
  have b: "blk_data ?f b = chain_block fs" using geom by (simp add: data)
  have n1: "nfree (fs_fl ?f) = 1" "free_cache (fs_fl ?f) = (free_cache (fs_fl fs))[0 := b]"
    by (simp_all add: bfree_dumped_def bfree_push_facts)
  have nic: "2 \<le> d_nicfree (fs_desc fs)" using geom by (simp add: fl_geom_def Let_def)
  have "flist ?f (unat (nfree (fs_fl fs))) (free_cache (fs_fl fs)) bs"
  proof (rule flist_cong [OF sg _ fl])
    fix c assume "c \<in> set bs"
    with assms(3) have "c \<noteq> b" by blast
    then show "blk_data ?f c = blk_data fs c" by (simp add: data)
  qed
  moreover have "chain_nfree ?f (chain_block fs) = nfree (fs_fl fs)"
    "chain_free ?f (chain_block fs) = free_cache (fs_fl fs)"
    using chain_block_roundtrip [OF geom len fits] same_geom_facts(7,8) [OF sg] by simp_all
  moreover have "b \<noteq> 0" "in_data ?f b"
    using in_data_ge2 [OF geom assms(2)] assms(2) same_geom_facts(2) [OF sg] by auto
  moreover have "host_ok ?f" using img by (simp add: bfree_dumped_def bfree_push_facts)
  then have "fl_geom ?f" using fl_geom_same [OF sg] geom by blast
  ultimately show ?thesis
    using len nic n1 b d assms(3) fits_update [OF fits in_data_fits [OF geom assms(2)], of 0]
    by (simp add: fl_inv_def data nth_list_update)
qed

text \<open>The state after a block is freed: the list grows at the front.\<close>

lemma bfree_ok:
  assumes "fl_inv fs bs" and "in_data fs b" "b \<notin> set bs"
  shows "fl_inv (v7fs_bfree fs b) (b # bs)"
    and "tfree (fs_fl (v7fs_bfree fs b)) = tfree (fs_fl fs) + 1"
    and "c \<noteq> b \<Longrightarrow> blk_data (v7fs_bfree fs b) c = blk_data fs c"
    and "same_geom fs (v7fs_bfree fs b)"
proof -
  define fs0 where "fs0 = (if nfree (fs_fl fs) = 0
     then fs\<lparr>fs_fl := (fs_fl fs)\<lparr>nfree := 1, free_cache := (free_cache (fs_fl fs))[0 := 0]\<rparr>\<rparr> else fs)"
  have geom: "fl_geom fs" using assms(1) by (simp add: fl_inv_def)
  have sg: "same_geom fs fs0" by (simp add: fs0_def)
  have ho: "host_ok fs0 = host_ok fs" and bd: "blk_data fs0 c = blk_data fs c" for c
    by (simp_all add: fs0_def)
  have desc: "fs_desc fs0 = fs_desc fs" and tf: "tfree (fs_fl fs0) = tfree (fs_fl fs)" by (simp_all add: fs0_def)
  have inv0: "fl_inv fs0 bs"
  proof (cases "nfree (fs_fl fs) = 0")
    case True
    then have "bs = []" using assms(1) by (cases bs) (auto simp: fl_inv_def)
    moreover have "fl_geom fs0" using fl_geom_same [OF sg] geom ho by (auto simp: fl_geom_def Let_def)
    moreover have "1 \<le> length (free_cache (fs_fl fs))"
      using assms(1) by (auto simp: fl_inv_def fl_geom_def Let_def)
    ultimately show ?thesis
      using assms(1) True fits_update [of "fs_desc fs" "free_cache (fs_fl fs)" 0 0]
      by (auto simp: fl_inv_def fs0_def nth_list_update)
  qed (use assms in \<open>simp add: fs0_def\<close>)
  have n0: "0 < unat (nfree (fs_fl fs0))" by (simp add: fs0_def unat_gt_0)
  have b0: "in_data fs0 b" using assms(2) same_geom_facts(2) [OF sg] by simp
  have g0: "fl_geom fs0" using inv0 by (simp add: fl_inv_def)
  have wr: "v7fs_write_block fs0 b (chain_block fs0) = (Inr (), blk_store fs0 b (chain_block fs0))"
    using g0 b0 by (intro write_block_ok) (auto simp: fl_geom_def Let_def)
  have eq: "v7fs_bfree fs b =
    (if d_nicfree (fs_desc fs0) \<le> unat (nfree (fs_fl fs0)) then bfree_dumped fs0 b else bfree_push fs0 b)"
  proof -
    have "\<not> (b < v7_data_first fs \<or> fs_fsize fs \<le> b)" using assms(2) by (auto simp: in_data_def)
    then show ?thesis
      unfolding v7fs_bfree_def fs0_def [symmetric] by (simp add: Let_def wr bfree_dumped_def)
  qed
  show "fl_inv (v7fs_bfree fs b) (b # bs)"
    using bfree_dumped_inv [OF inv0 b0 assms(3)] bfree_push_inv [OF inv0 b0 assms(3) n0]
    by (simp add: eq not_le)
  show "tfree (fs_fl (v7fs_bfree fs b)) = tfree (fs_fl fs) + 1"
    by (simp add: eq bfree_dumped_def bfree_push_facts tf)
  show "c \<noteq> b \<Longrightarrow> blk_data (v7fs_bfree fs b) c = blk_data fs c"
    by (simp add: eq bfree_dumped_def bfree_push_facts bd)
  show "same_geom fs (v7fs_bfree fs b)"
    using sg by (simp add: eq bfree_dumped_def bfree_push_def same_geom_def)
qed

lemma bfree_outside: "\<not> in_data fs b \<Longrightarrow> v7fs_bfree fs b = fs"
  by (auto simp: v7fs_bfree_def in_data_def)

section \<open>The free list is a block allocator\<close>

definition fl_frees :: "filsys_edition \<Rightarrow> u32 set" where
  "fl_frees fs = {b. \<exists>bs. fl_inv fs bs \<and> b \<in> set bs}"

definition fl_area :: "filsys_edition \<Rightarrow> u32 set" where
  "fl_area fs = {b. in_data fs b}"

lemma fl_inv_unique: "fl_inv fs bs \<Longrightarrow> fl_inv fs cs \<Longrightarrow> bs = cs"
  using flist_unique by (auto simp: fl_inv_def)

lemma fl_frees_eq: "fl_inv fs bs \<Longrightarrow> fl_frees fs = set bs"
  using fl_inv_unique by (auto simp: fl_frees_def)

lemma fl_area_same: "same_geom fs fs' \<Longrightarrow> fl_area fs' = fl_area fs"
  by (simp add: fl_area_def same_geom_facts(2))

lemma same_geom_balloc_post: "same_geom fs (balloc_post fs b)"
  by (simp add: same_geom_def balloc_post_def balloc_done_def fl_refilled_def fl_reload_def fl_popped_def)

interpretation freelist: block_allocator "\<lambda>fs. \<exists>bs. fl_inv fs bs" fl_frees fl_area v7fs_balloc v7fs_bfree
proof
  fix fs assume "\<exists>bs. fl_inv fs bs"
  then obtain bs where bs: "fl_inv fs bs" by blast
  have eq: "fl_frees fs = set bs" using bs by (rule fl_frees_eq)
  show "fl_frees fs \<subseteq> fl_area fs"
    using bs flist_in_data by (auto simp: eq fl_area_def fl_inv_def)
  show "finite (fl_frees fs)" by (simp add: eq)
  show "fst (v7fs_balloc fs) = Inl ENOSPC" if "fl_frees fs = {}"
    using balloc_nil [of fs] bs that eq by auto
  show "\<exists>b fs'. v7fs_balloc fs = (Inr b, fs') \<and> b \<in> fl_frees fs \<and> (\<exists>bs. fl_inv fs' bs) \<and>
      fl_frees fs' = fl_frees fs - {b} \<and> fl_area fs' = fl_area fs" if "fl_frees fs \<noteq> {}"
  proof -
    from that eq obtain b cs where cs: "bs = b # cs" by (cases bs) auto
    note post = balloc_cons [OF bs [unfolded cs]]
    have "b \<notin> set cs" using bs cs by (auto simp: fl_inv_def)
    then show ?thesis
      using post eq cs fl_frees_eq [OF post(2)] fl_area_same [OF same_geom_balloc_post] by auto
  qed
  fix b assume b: "b \<in> fl_area fs" "b \<notin> fl_frees fs"
  then have "in_data fs b" "b \<notin> set bs" by (auto simp: eq fl_area_def)
  note post = bfree_ok [OF bs this]
  show "(\<exists>bs. fl_inv (v7fs_bfree fs b) bs) \<and> fl_frees (v7fs_bfree fs b) = insert b (fl_frees fs) \<and>
      fl_area (v7fs_bfree fs b) = fl_area fs"
    using post(1) fl_frees_eq [OF post(1)] eq fl_area_same [OF post(4)] by auto
qed

lemma balloc_post_data:
  assumes "fl_inv fs (b # bs)"
  shows "blk_data (balloc_post fs b) b = replicate (d_bsize (fs_desc fs)) 0 \<and>
    (\<forall>c. in_data fs c \<and> c \<noteq> b \<longrightarrow> blk_data (balloc_post fs b) c = blk_data fs c) \<and>
    fs_fl_dirty (balloc_post fs b)"
proof -
  have geom: "fl_geom fs" and n: "0 < unat (nfree (fs_fl fs))" "in_data fs b"
    using assms by (auto simp: fl_inv_def)
  have nz: "nfree (fs_fl fs) \<noteq> 0" using n(1) by (auto simp: unat_gt_0)
  note p = fl_popped_facts [OF nz]
  have pg: "fl_geom (fl_popped fs)"
    using fl_geom_same [OF p(3)] geom p(4) by (auto simp: fl_geom_def Let_def)
  note q = fl_refilled_facts [OF pg, where b = b]
  have ind: "in_data (fl_popped fs) b" "in_data (fl_refilled (fl_popped fs) b) b"
    using n(2) p(7) same_geom_facts(2) [OF q(2)] by simp_all
  note d1 = balloc_done_facts [OF pg ind(1)] and d2 = balloc_done_facts [OF q(1) ind(2)]
  have ge: "2 \<le> c" if "in_data fs c" for c using in_data_ge2 [OF geom that] .
  show ?thesis
    using d1(2,3,9) d2(2,3,9) q(3,6) p(5,6) ge by (simp add: balloc_post_def)
qed

lemma balloc_all_distinct:
  assumes "fl_inv fs bs"
  shows "\<exists>cs fs'. freelist.balloc_n (length bs) fs = (Inr cs, fs') \<and> distinct cs \<and> set cs = set bs"
proof -
  have inv: "\<exists>bs. fl_inv fs bs" using assms by blast
  have fr: "fl_frees fs = set bs" and d: "distinct bs"
    using assms by (simp_all add: fl_frees_eq fl_inv_def)
  then have "length bs \<le> card (fl_frees fs)" by (simp add: distinct_card)
  from freelist.balloc_n_total [OF inv this] obtain cs fs' where
    cs: "freelist.balloc_n (length bs) fs = (Inr cs, fs')" by blast
  note facts = freelist.balloc_n_distinct [OF inv cs]
  then have "set cs = set bs"
    using fr d by (metis card_subset_eq distinct_card finite_set)
  with cs facts show ?thesis by blast
qed

lemma balloc_too_many:
  assumes "fl_inv fs bs"
  shows "\<exists>fs'. freelist.balloc_n (Suc (length bs)) fs = (Inl ENOSPC, fs')"
proof -
  have "\<exists>bs. fl_inv fs bs" "card (fl_frees fs) < Suc (length bs)"
    using assms by (auto simp: fl_frees_eq fl_inv_def distinct_card)
  then show ?thesis by (rule freelist.balloc_n_exhausts)
qed

section \<open>Order of the writes\<close>

text \<open>
  A chain block is handed out only after the superblock that no longer names it has been
  written; the block itself is zeroed last.
\<close>

lemma balloc_reload_order:
  assumes "fl_inv fs (b # bs)" and "nfree (fs_fl fs) = 1"
  shows "h_wlog (fs_host (balloc_post fs b)) = h_wlog (fs_host fs) @
    [(super_off fs, super_encode (fl_reload (fl_popped fs) (blk_data fs b)) (super_data fs)),
     (blk_off fs b, replicate (d_bsize (fs_desc fs)) 0)]"
proof -
  have "blk_data (fl_popped fs) b = blk_data fs b" using assms(2) by (intro fl_popped_facts(5)) simp
  moreover have "super_off (fl_reload (fl_popped fs) buf) = super_off fs"
    "super_data (fl_reload (fl_popped fs) buf) = super_data fs"
    "blk_off (fl_refilled (fl_popped fs) b) b = blk_off fs b"
    "fs_desc (fl_refilled (fl_popped fs) b) = fs_desc fs"
    "h_wlog (fs_host (fl_reload (fl_popped fs) buf)) = h_wlog (fs_host fs)" for buf
    by (simp_all add: super_off_def super_data_def super_len_def blk_off_def fl_reload_def fl_popped_def
        fl_refilled_def)
  ultimately show ?thesis
    using assms(2) by (simp add: balloc_post_def balloc_done_def fl_refilled_def)
qed

section \<open>A corrupt chain count\<close>

text \<open>
  The reload trusts the count of the chain block.  A count above the cache depth makes the
  next allocation index the cache out of bounds.
\<close>

lemma balloc_unchecked_count:
  assumes "fl_geom fs" and "nfree (fs_fl fs) = 1" and "free_cache (fs_fl fs) \<noteq> []"
    and "free_cache (fs_fl fs) ! 0 = b" "in_data fs b"
    and "d_nicfree (fs_desc fs) < unat (chain_nfree fs (blk_data fs b))"
  shows "\<exists>fs' fs''. v7fs_balloc fs = (Inr b, fs') \<and> v7fs_balloc fs' = (Inl UB, fs'')"
proof -
  let ?p = "fl_popped fs"
  have nz: "nfree (fs_fl fs) \<noteq> 0" using assms(2) by simp
  note p = fl_popped_facts [OF nz]
  have pg: "fl_geom ?p" using fl_geom_same [OF p(3)] assms(1) p(4) by (auto simp: fl_geom_def Let_def)
  note q = fl_refilled_facts [OF pg, where b = b]
  have b0: "b \<noteq> 0" using in_data_ge2 [OF assms(1,5)] by auto
  have rd: "v7fs_read_block ?p b = Inr (blk_data ?p b)"
    using pg assms(5) p(7) by (intro read_block_ok) (auto simp: fl_geom_def Let_def)
  let ?r = "fl_reload ?p (blk_data ?p b)"
  have g: "same_geom ?p ?r" "host_ok ?r" "\<not> fs_readonly ?r"
    using pg by (simp_all add: fl_geom_def Let_def) (simp_all add: fl_reload_def)
  have "super_in_image ?r" using pg same_geom_facts(5) [OF g(1)] by (simp add: fl_geom_def Let_def)
  then have sw: "v7fs_super_write ?r = (Inr (), fl_refilled ?p b)"
    using g by (simp add: super_write_ok fl_refilled_def)
  have ind: "in_data (fl_refilled ?p b) b" using assms(5) p(7) same_geom_facts(2) [OF q(2)] by simp
  let ?f = "balloc_done (fl_refilled ?p b) b"
  have first: "v7fs_balloc fs = (Inr b, ?f)"
    using assms nz b0 rd sw balloc_finish_ok [OF q(1) ind]
    by (simp add: balloc_unfold Let_def)
  note f = balloc_done_facts(4,5) [OF q(1) ind]
  have "nfree (fs_fl ?f) = chain_nfree fs (blk_data fs b)"
    "length (free_cache (fs_fl ?f)) = d_nicfree (fs_desc fs)"
    using f q(4,5) p(5,6) same_geom_facts(7) [OF p(3)] by simp_all
  then have "\<exists>fs''. v7fs_balloc ?f = (Inl UB, fs'')"
    using assms(6) by (subst balloc_unfold) (auto simp: Let_def)
  with first show ?thesis by blast
qed

end
