(* ===== verification/Alloc_Inode.thy ===== *)
theory Alloc_Inode
  imports Inode_IO Alloc_Freelist
begin

text \<open>
  The inode side of the V7-family allocator (\<^verbatim>\<open>alloc_freelist.c\<close>): the superblock cache
  of free inode numbers, its refill by a scan of the i-list, and \<^verbatim>\<open>v7fs_ifree\<close>.  The
  loop of \<^verbatim>\<open>v7fs_ialloc\<close> is a partial function: \<open>None\<close> is a call that does not return.
\<close>

section \<open>Operations\<close>

text \<open>
  The inode slots of the ops tables that use this allocator: \<^verbatim>\<open>inode_32\<close> for V6,
  \<^verbatim>\<open>inode_64\<close> for the V7 family.
\<close>

definition engine_read_inode :: "filsys_edition \<Rightarrow> u32 \<Rightarrow> errno + filsys_inode" where
  "engine_read_inode fs ino =
     (if d_ops (fs_desc fs) = Some V6fs_ops then v6_read_inode fs ino else v7fs_read_inode fs ino)"

definition engine_write_inode :: "filsys_edition \<Rightarrow> u32 \<Rightarrow> filsys_inode \<Rightarrow> unit op" where
  "engine_write_inode fs ino ip =
     (if d_ops (fs_desc fs) = Some V6fs_ops then v6_write_inode fs ino ip else v7fs_write_inode fs ino ip)"

definition inode_live :: "filsys_edition \<Rightarrow> u16 \<Rightarrow> bool" where
  "inode_live fs mode \<longleftrightarrow>
     (if d_iallocated (fs_desc fs) \<noteq> 0 then ucast mode AND d_iallocated (fs_desc fs) \<noteq> 0 else mode \<noteq> 0)"

definition icache_push :: "filsys_edition \<Rightarrow> u32 \<Rightarrow> filsys_edition" where
  "icache_push fs ino =
     fs\<lparr>fs_fl := (fs_fl fs)\<lparr>inode_cache := (inode_cache (fs_fl fs))[unat (ninode (fs_fl fs)) := ucast ino],
                             ninode := ninode (fs_fl fs) + 1\<rparr>\<rparr>"

text \<open>The refill \<^verbatim>\<open>for (in = 2; in <= maxino && ninode < nicinod; in++)\<close>.\<close>

fun ialloc_refill :: "filsys_edition \<Rightarrow> nat list \<Rightarrow> unit op" where
  "ialloc_refill fs [] = (Inr (), fs)"
| "ialloc_refill fs (i # is) =
     (if unat (ninode (fs_fl fs)) < d_nicinod (fs_desc fs)
      then case engine_read_inode fs (of_nat i) of
             Inl _ \<Rightarrow> (Inl EIO, fs)
           | Inr ip \<Rightarrow> ialloc_refill
               (if inode_live fs (ucast (ip_mode ip)) then fs else icache_push fs (of_nat i)) is
      else (Inr (), fs))"

definition ialloc_take :: "filsys_edition \<Rightarrow> u32 \<Rightarrow> u32 op" where
  "ialloc_take fs cand =
     (let fs = snd (engine_write_inode fs cand (zero_inode cand))
      in (Inr cand, fs\<lparr>fs_fl := (fs_fl fs)\<lparr>tinode := (if tinode (fs_fl fs) \<noteq> 0 then tinode (fs_fl fs) - 1
                                                       else tinode (fs_fl fs))\<rparr>,
                       fs_fl_dirty := True\<rparr>))"

partial_function (option) v7fs_ialloc :: "filsys_edition \<Rightarrow> (u32 op) option" where
  "v7fs_ialloc fs =
     (if ninode (fs_fl fs) \<noteq> 0
      then let n = unat (ninode (fs_fl fs)) - 1;
               fs = fs\<lparr>fs_fl := (fs_fl fs)\<lparr>ninode := ninode (fs_fl fs) - 1\<rparr>\<rparr> in
        if length (inode_cache (fs_fl fs)) \<le> n then Some (Inl UB, fs)
        else let cand = ucast (inode_cache (fs_fl fs) ! n) in
          if cand < 2 \<or> v7_maxinode fs < cand then v7fs_ialloc fs
          else case engine_read_inode fs cand of
            Inl _ \<Rightarrow> Some (Inl EIO, fs)
          | Inr ip \<Rightarrow> if inode_live fs (ucast (ip_mode ip)) then v7fs_ialloc fs
                      else Some (ialloc_take fs cand)
      else case ialloc_refill fs [2..<Suc (unat (v7_maxinode fs))] of
        (Inl e, fs) \<Rightarrow> Some (Inl e, fs)
      | (Inr _, fs) \<Rightarrow> if ninode (fs_fl fs) = 0 then Some (Inl ENOSPC, fs) else v7fs_ialloc fs)"

definition v7fs_ifree :: "filsys_edition \<Rightarrow> u32 \<Rightarrow> filsys_edition" where
  "v7fs_ifree fs ino =
     (if d_nicinod (fs_desc fs) \<le> unat (ninode (fs_fl fs)) then fs
      else let fs = icache_push fs ino
           in fs\<lparr>fs_fl := (fs_fl fs)\<lparr>tinode := tinode (fs_fl fs) + 1\<rparr>\<rparr>)"

section \<open>Only the inode cache moves while the loop looks for a candidate\<close>

definition with_icache :: "filsys_edition \<Rightarrow> u16 \<Rightarrow> u16 list \<Rightarrow> filsys_edition" where
  "with_icache fs n c = fs\<lparr>fs_fl := (fs_fl fs)\<lparr>ninode := n, inode_cache := c\<rparr>\<rparr>"

lemma with_icache_simps [simp]:
  "fs_desc (with_icache fs n c) = fs_desc fs" "fs_host (with_icache fs n c) = fs_host fs"
  "ninode (fs_fl (with_icache fs n c)) = n" "inode_cache (fs_fl (with_icache fs n c)) = c"
  "with_icache (with_icache fs n c) n' c' = with_icache fs n' c'"
  "with_icache fs (ninode (fs_fl fs)) (inode_cache (fs_fl fs)) = fs"
  "v7_maxinode (with_icache fs n c) = v7_maxinode fs"
  "inode_live (with_icache fs n c) = inode_live fs"
  by (simp_all add: with_icache_def v7_maxinode_def v7_inopb_def inode_live_def fun_eq_iff)

lemma with_icache_io [simp]:
  "v7fs_read_block (with_icache fs n c) = v7fs_read_block fs"
  "v7_itod (with_icache fs n c) = v7_itod fs" "inode_off (with_icache fs n c) = inode_off fs"
  "v7_limit (with_icache fs n c) = v7_limit fs"
  "v7_inode_decode (with_icache fs n c) = v7_inode_decode fs"
  "v6_inode_decode (with_icache fs n c) = v6_inode_decode fs"
  by (simp_all add: fun_eq_iff with_icache_def v7_itod_def v7_inopb_def v7_itoo_def inode_off_def
      v7fs_read_block_def blk_off_def io_file_read_def filsys_check_range_def v7_inode_decode_def
      v6_inode_decode_def Let_def)

lemma read_inode_fl [simp]: "engine_read_inode (with_icache fs n c) = engine_read_inode fs"
  by (simp add: fun_eq_iff engine_read_inode_def v6_read_inode_def v7fs_read_inode_def Let_def
      split: sum.split)

lemma icache_push_eq:
  "icache_push fs ino = with_icache fs (ninode (fs_fl fs) + 1)
     ((inode_cache (fs_fl fs))[unat (ninode (fs_fl fs)) := ucast ino])"
  by (simp add: icache_push_def with_icache_def)

text \<open>An inode number the scan and the pop accept.\<close>

definition ino_free :: "filsys_edition \<Rightarrow> u32 \<Rightarrow> bool" where
  "ino_free fs ino \<longleftrightarrow>
     (case engine_read_inode fs ino of Inl _ \<Rightarrow> False | Inr ip \<Rightarrow> \<not> inode_live fs (ucast (ip_mode ip)))"

lemma ino_free_fl [simp]: "ino_free (with_icache fs n c) = ino_free fs"
  by (simp add: fun_eq_iff ino_free_def split: sum.split)

section \<open>What the loop returns\<close>

lemma refill_state:
  "ialloc_refill fs is = (r, fs') \<Longrightarrow> \<exists>n c. fs' = with_icache fs n c"
proof (induction "is" arbitrary: fs)
  case Nil
  then have "fs' = with_icache fs (ninode (fs_fl fs)) (inode_cache (fs_fl fs))" by simp
  then show ?case by blast
next
  case (Cons i "is")
  have keep: "fs = with_icache fs (ninode (fs_fl fs)) (inode_cache (fs_fl fs))" by simp
  show ?case
  proof (cases "unat (ninode (fs_fl fs)) < d_nicinod (fs_desc fs)")
    case False
    then have "fs' = fs" using Cons.prems by simp
    then show ?thesis using keep by metis
  next
    case True
    show ?thesis
    proof (cases "engine_read_inode fs (of_nat i)")
      case (Inl e)
      then have "fs' = fs" using Cons.prems True by simp
      then show ?thesis using keep by metis
    next
      case (Inr ip)
      then show ?thesis
        using Cons.prems True Cons.IH [of fs] Cons.IH [of "icache_push fs (of_nat i)"]
        by (auto simp: icache_push_eq split: if_splits)
    qed
  qed
qed

text \<open>
  The two ways the loop ends with an inode or an error, described over the mount it started
  from: it takes a free inode in range, or it reports an error with the i-list untouched.
\<close>

definition ialloc_result :: "filsys_edition \<Rightarrow> u32 op \<Rightarrow> bool" where
  "ialloc_result fs res \<longleftrightarrow>
     (\<exists>n c. (\<exists>ino. 2 \<le> ino \<and> ino \<le> v7_maxinode fs \<and> ino_free fs ino \<and> res = ialloc_take (with_icache fs n c) ino) \<or>
            (\<exists>e. res = (Inl e, with_icache fs n c)))"

lemma ialloc_result_shift [simp]: "ialloc_result (with_icache fs n c) res = ialloc_result fs res"
  by (simp add: ialloc_result_def)

lemma ialloc_popped:
  "fs\<lparr>fs_fl := (fs_fl fs)\<lparr>ninode := x\<rparr>\<rparr> = with_icache fs x (inode_cache (fs_fl fs))"
  by (simp add: with_icache_def)

lemma ialloc_sound:
  assumes "v7fs_ialloc fs = Some res"
  shows "ialloc_result fs res"
proof (rule v7fs_ialloc.raw_induct [OF _ assms], goal_cases)
  case (1 ialloc fs res)
  let ?p = "with_icache fs (ninode (fs_fl fs) - 1) (inode_cache (fs_fl fs))"
  let ?n = "unat (ninode (fs_fl fs)) - 1"
  have IH: "ialloc (with_icache fs n c) = Some res \<Longrightarrow> ialloc_result fs res" for n c
    using 1(1) [of "with_icache fs n c" res] by simp
  show ?case
  proof (cases "ninode (fs_fl fs) = 0")
    case False
    show ?thesis
    proof (cases "length (inode_cache (fs_fl fs)) \<le> ?n")
      case True
      then have "res = (Inl UB, ?p)" using 1(2) False by (simp add: ialloc_popped Let_def)
      then show ?thesis unfolding ialloc_result_def by blast
    next
      case False': False
      define cand where "cand = (ucast (inode_cache (fs_fl fs) ! ?n) :: u32)"
      show ?thesis
      proof (cases "cand < 2 \<or> v7_maxinode fs < cand")
        case True
        then have "ialloc ?p = Some res"
          using 1(2) False False' by (simp add: ialloc_popped Let_def cand_def [symmetric] del: One_nat_def)
        then show ?thesis by (rule IH)
      next
        case range: False
        have step: "(case engine_read_inode fs cand of Inl _ \<Rightarrow> Some (Inl EIO, ?p)
            | Inr ip \<Rightarrow> if inode_live fs (ucast (ip_mode ip)) then ialloc ?p
                        else Some (ialloc_take ?p cand)) = Some res"
          using 1(2) False False' range
          by (auto simp: ialloc_popped Let_def cand_def [symmetric] simp del: One_nat_def
              split: sum.splits if_splits)
        have in_range: "2 \<le> cand" "cand \<le> v7_maxinode fs" using range by auto
        show ?thesis
        proof (cases "engine_read_inode fs cand")
          case (Inl e)
          then have "res = (Inl EIO, ?p)" using step by simp
          then show ?thesis unfolding ialloc_result_def by blast
        next
          case (Inr ip)
          show ?thesis
          proof (cases "inode_live fs (ucast (ip_mode ip))")
            case True
            then show ?thesis using step Inr IH by simp
          next
            case False
            then have "ino_free fs cand" "res = ialloc_take ?p cand"
              using step Inr by (simp_all add: ino_free_def)
            then show ?thesis unfolding ialloc_result_def using in_range by blast
          qed
        qed
      qed
    qed
  next
    case True
    obtain r fs1 where rf: "ialloc_refill fs [2..<Suc (unat (v7_maxinode fs))] = (r, fs1)" by fastforce
    then obtain n c where fs1: "fs1 = with_icache fs n c" using refill_state by blast
    show ?thesis
    proof (cases r)
      case (Inl e)
      then have "res = (Inl e, fs1)" using 1(2) True rf by (simp del: upt_Suc)
      then show ?thesis unfolding fs1 ialloc_result_def by blast
    next
      case (Inr u)
      show ?thesis
      proof (cases "ninode (fs_fl fs1) = 0")
        case nz: True
        then have "res = (Inl ENOSPC, fs1)" using 1(2) True rf Inr by (simp del: upt_Suc)
        then show ?thesis unfolding fs1 ialloc_result_def by blast
      next
        case nz: False
        then have "ialloc fs1 = Some res" using 1(2) True rf Inr by (simp del: upt_Suc)
        then show ?thesis using IH fs1 by simp
      qed
    qed
  qed
qed

section \<open>The loop returns\<close>

text \<open>The newest cache entry names a free inode in range.\<close>

definition icache_top_ok :: "filsys_edition \<Rightarrow> bool" where
  "icache_top_ok fs \<longleftrightarrow>
     (let n = unat (ninode (fs_fl fs)) in
      n = 0 \<or> length (inode_cache (fs_fl fs)) \<le> n - 1 \<or>
      (\<exists>ino. 2 \<le> ino \<and> ino \<le> v7_maxinode fs \<and> ino_free fs ino \<and>
             ucast (inode_cache (fs_fl fs) ! (n - 1)) = ino))"

lemma icache_top_push:
  assumes "unat (ninode (fs_fl fs)) < 65535" and "2 \<le> i" "of_nat i \<le> v7_maxinode fs" "i < 65536"
    and "ino_free fs (of_nat i)"
  shows "icache_top_ok (icache_push fs (of_nat i))"
proof -
  have n: "unat (ninode (fs_fl fs) + 1) = Suc (unat (ninode (fs_fl fs)))"
    using assms(1) by (rule unat_nfree_Suc)
  have i: "ucast (ucast (of_nat i :: u32) :: u16) = (of_nat i :: u32)"
    using assms(4) by (intro ucast_u16_id) (simp add: word_less_nat_alt unat_of_nat_lt)
  have "(2 :: u32) \<le> of_nat i"
    using assms(2,4) by (simp add: word_le_nat_alt unat_of_nat_lt)
  then show ?thesis
    using assms(3,5) i
    by (cases "unat (ninode (fs_fl fs)) < length (inode_cache (fs_fl fs))")
      (auto simp: icache_top_ok_def Let_def icache_push_eq n)
qed

lemma icache_top_ok_unfold:
  "icache_top_ok (with_icache fs n c) \<longleftrightarrow>
     unat n = 0 \<or> length c \<le> unat n - 1 \<or>
     (\<exists>ino. 2 \<le> ino \<and> ino \<le> v7_maxinode fs \<and> ino_free fs ino \<and> ucast (c ! (unat n - 1)) = ino)"
  by (simp add: icache_top_ok_def Let_def)

lemma refill_top:
  assumes "icache_top_ok fs" and "d_nicinod (fs_desc fs) \<le> 65535"
    and "\<forall>i \<in> set is. 2 \<le> i \<and> i \<le> unat (v7_maxinode fs) \<and> i < 65536"
    and "ialloc_refill fs is = (r, fs')"
  shows "icache_top_ok fs'"
  using assms
proof (induction "is" arbitrary: fs)
  case (Cons i "is")
  show ?case
  proof (cases "unat (ninode (fs_fl fs)) < d_nicinod (fs_desc fs)")
    case True
    show ?thesis
    proof (cases "engine_read_inode fs (of_nat i)")
      case (Inl e)
      then show ?thesis using Cons.prems True by simp
    next
      case (Inr ip)
      show ?thesis
      proof (cases "inode_live fs (ucast (ip_mode ip))")
        case live: True
        then show ?thesis using Cons.prems True Inr by (intro Cons.IH [of fs]) auto
      next
        case live: False
        have "of_nat i \<le> v7_maxinode fs"
          using Cons.prems(3) by (simp add: word_le_nat_alt unat_of_nat_lt)
        then have "icache_top_ok (icache_push fs (of_nat i))"
          using Cons.prems(2,3) True live Inr by (intro icache_top_push) (auto simp: ino_free_def)
        then show ?thesis
          using Cons.prems True Inr live
          by (intro Cons.IH [of "icache_push fs (of_nat i)"]) (auto simp: icache_push_eq)
      qed
    qed
  qed (use Cons.prems in auto)
qed simp

lemma ialloc_top:
  assumes "icache_top_ok fs" and "ninode (fs_fl fs) \<noteq> 0"
  shows "\<exists>res. v7fs_ialloc fs = Some res"
proof -
  have n: "unat (ninode (fs_fl fs)) \<noteq> 0" using assms(2) by (simp add: unat_eq_zero)
  show ?thesis
  proof (cases "length (inode_cache (fs_fl fs)) \<le> unat (ninode (fs_fl fs)) - 1")
    case True
    then show ?thesis using assms(2) by (subst v7fs_ialloc.simps) (simp add: Let_def ialloc_popped)
  next
    case False
    define cand where "cand = (ucast (inode_cache (fs_fl fs) ! (unat (ninode (fs_fl fs)) - 1)) :: u32)"
    have c: "2 \<le> cand" "cand \<le> v7_maxinode fs" "ino_free fs cand"
      using assms(1) n False by (auto simp: icache_top_ok_def Let_def cand_def)
    then obtain ip where "engine_read_inode fs cand = Inr ip" "\<not> inode_live fs (ucast (ip_mode ip))"
      by (auto simp: ino_free_def split: sum.splits)
    then show ?thesis
      using False assms(2) c(1,2)
      by (subst v7fs_ialloc.simps)
        (simp add: Let_def ialloc_popped cand_def [symmetric] not_less [symmetric] del: One_nat_def)
  qed
qed

lemma ialloc_refills:
  assumes "ninode (fs_fl fs) = 0" and "d_nicinod (fs_desc fs) \<le> 65535" and "unat (v7_maxinode fs) < 65536"
  shows "\<exists>res. v7fs_ialloc fs = Some res"
proof -
  obtain r fs1 where rf: "ialloc_refill fs [2..<Suc (unat (v7_maxinode fs))] = (r, fs1)" by fastforce
  have start: "icache_top_ok fs" using assms(1) by (simp add: icache_top_ok_def)
  have "\<forall>i \<in> set [2..<Suc (unat (v7_maxinode fs))]. 2 \<le> i \<and> i \<le> unat (v7_maxinode fs) \<and> i < 65536"
    using assms(3) by (simp del: upt_Suc)
  then have top: "icache_top_ok fs1" using refill_top [OF start assms(2) _ rf] by blast
  have eq: "v7fs_ialloc fs = (case r of Inl e \<Rightarrow> Some (Inl e, fs1)
      | Inr _ \<Rightarrow> if ninode (fs_fl fs1) = 0 then Some (Inl ENOSPC, fs1) else v7fs_ialloc fs1)"
    using assms(1) rf v7fs_ialloc.simps [of fs] by (simp del: upt_Suc)
  show ?thesis
  proof (cases r)
    case (Inr u)
    then show ?thesis using eq ialloc_top [OF top] by (cases "ninode (fs_fl fs1) = 0") simp_all
  qed (simp add: eq)
qed

text \<open>With at most 65535 inodes, every call returns.\<close>

lemma ialloc_total:
  assumes "d_nicinod (fs_desc fs) \<le> 65535" and "unat (v7_maxinode fs) < 65536"
  shows "\<exists>res. v7fs_ialloc fs = Some res"
  using assms
proof (induction "unat (ninode (fs_fl fs))" arbitrary: fs)
  case 0
  then show ?case by (intro ialloc_refills) (auto simp: unat_eq_zero)
next
  case (Suc k)
  let ?p = "with_icache fs (ninode (fs_fl fs) - 1) (inode_cache (fs_fl fs))"
  have nz: "ninode (fs_fl fs) \<noteq> 0" using Suc.hyps(2) by auto
  have "k = unat (ninode (fs_fl ?p))" using Suc.hyps(2) nz by (simp add: unat_minus_one)
  then have "\<exists>res. v7fs_ialloc ?p = Some res" using Suc.prems by (intro Suc.hyps(1)) simp_all
  then show ?case
    using nz by (subst v7fs_ialloc.simps) (auto simp: Let_def ialloc_popped split: sum.splits)
qed

section \<open>A loop that never returns\<close>

text \<open>
  The cache holds 16-bit numbers.  On a volume with more inodes than that, once inodes 2 to
  65535 are in use and a later one is free, the refill keeps caching truncated numbers and the
  pop keeps rejecting them.
\<close>

definition inodes_wrapped :: "filsys_edition \<Rightarrow> bool" where
  "inodes_wrapped fs \<longleftrightarrow>
     0 < d_nicinod (fs_desc fs) \<and> d_nicinod (fs_desc fs) \<le> 65535 \<and>
     length (inode_cache (fs_fl fs)) = d_nicinod (fs_desc fs) \<and>
     unat (ninode (fs_fl fs)) \<le> d_nicinod (fs_desc fs) \<and>
     (\<forall>i. 2 \<le> i \<and> i \<le> v7_maxinode fs \<longrightarrow> (\<exists>ip. engine_read_inode fs i = Inr ip)) \<and>
     (\<forall>i. 2 \<le> i \<and> i < 65536 \<longrightarrow> \<not> ino_free fs i) \<and>
     (\<exists>i. 2 \<le> i \<and> i \<le> v7_maxinode fs \<and> ino_free fs i)"

lemma refill_reads:
  assumes "0 < d_nicinod (fs_desc fs)" "d_nicinod (fs_desc fs) \<le> 65535"
    and "unat (ninode (fs_fl fs)) \<le> d_nicinod (fs_desc fs)"
    and "\<forall>i \<in> set is. \<exists>ip. engine_read_inode fs (of_nat i) = Inr ip"
  shows "\<exists>n c. ialloc_refill fs is = (Inr (), with_icache fs n c) \<and>
    length c = length (inode_cache (fs_fl fs)) \<and> unat n \<le> d_nicinod (fs_desc fs) \<and>
    (ninode (fs_fl fs) \<noteq> 0 \<or> (\<exists>i \<in> set is. ino_free fs (of_nat i)) \<longrightarrow> n \<noteq> 0)"
  using assms
proof (induction "is" arbitrary: fs)
  case Nil
  then show ?case
    by (intro exI [of _ "ninode (fs_fl fs)"] exI [of _ "inode_cache (fs_fl fs)"]) simp
next
  case (Cons i "is")
  obtain ip where ip: "engine_read_inode fs (of_nat i) = Inr ip" using Cons.prems(4) by auto
  show ?case
  proof (cases "unat (ninode (fs_fl fs)) < d_nicinod (fs_desc fs)")
    case False
    then have "ialloc_refill fs (i # is) = (Inr (), with_icache fs (ninode (fs_fl fs)) (inode_cache (fs_fl fs)))"
      "ninode (fs_fl fs) \<noteq> 0" using Cons.prems(1) by auto
    then show ?thesis using Cons.prems(3) by blast
  next
    case True
    show ?thesis
    proof (cases "inode_live fs (ucast (ip_mode ip))")
      case live: True
      then have "\<not> ino_free fs (of_nat i)" by (simp add: ino_free_def ip)
      then show ?thesis using True live ip Cons.IH [of fs] Cons.prems by auto
    next
      case live: False
      let ?p = "icache_push fs (of_nat i)"
      have n1: "unat (ninode (fs_fl fs) + 1) = Suc (unat (ninode (fs_fl fs)))"
        using True Cons.prems(2) by (intro unat_nfree_Suc) simp
      then have nz: "ninode (fs_fl fs) + 1 \<noteq> 0" by (metis nat.simps(3) unat_0)
      have "\<exists>n c. ialloc_refill ?p is = (Inr (), with_icache ?p n c) \<and>
        length c = length (inode_cache (fs_fl ?p)) \<and> unat n \<le> d_nicinod (fs_desc ?p) \<and>
        (ninode (fs_fl ?p) \<noteq> 0 \<or> (\<exists>i \<in> set is. ino_free ?p (of_nat i)) \<longrightarrow> n \<noteq> 0)"
        using Cons.prems True n1 by (intro Cons.IH) (auto simp: icache_push_eq)
      then show ?thesis using True live ip nz by (auto simp: icache_push_eq)
    qed
  qed
qed

lemma inodes_wrapped_icache:
  assumes "inodes_wrapped fs" "length c = length (inode_cache (fs_fl fs))" "unat n \<le> d_nicinod (fs_desc fs)"
  shows "inodes_wrapped (with_icache fs n c)"
  using assms by (simp add: inodes_wrapped_def)

lemma ialloc_diverges:
  assumes "inodes_wrapped fs"
  shows "v7fs_ialloc fs = None"
proof (rule ccontr)
  assume "v7fs_ialloc fs \<noteq> None"
  then obtain res where res: "v7fs_ialloc fs = Some res" by blast
  have "\<not> inodes_wrapped fs"
  proof (rule v7fs_ialloc.raw_induct [where P = "\<lambda>fs _. \<not> inodes_wrapped fs", OF _ res], goal_cases)
    case (1 ialloc fs y)
    note IH = 1(1) and step = 1(2)
    show "\<not> inodes_wrapped fs"
    proof
      assume w: "inodes_wrapped fs"
      show False
      proof (cases "ninode (fs_fl fs) = 0")
        case True
        have "\<forall>i \<in> set [2..<Suc (unat (v7_maxinode fs))]. \<exists>ip. engine_read_inode fs (of_nat i) = Inr ip"
        proof
          fix i assume "i \<in> set [2..<Suc (unat (v7_maxinode fs))]"
          then have "2 \<le> i" "i \<le> unat (v7_maxinode fs)" by (simp_all del: upt_Suc)
          moreover have "unat (of_nat i :: u32) = i"
            using \<open>i \<le> unat (v7_maxinode fs)\<close> unat_u32_bound [of "v7_maxinode fs"] by (intro unat_of_nat_lt) simp
          ultimately show "\<exists>ip. engine_read_inode fs (of_nat i) = Inr ip"
            using w by (auto simp: inodes_wrapped_def word_le_nat_alt)
        qed
        with w obtain n c where rf: "ialloc_refill fs [2..<Suc (unat (v7_maxinode fs))] = (Inr (), with_icache fs n c)"
          and c: "length c = length (inode_cache (fs_fl fs))" "unat n \<le> d_nicinod (fs_desc fs)"
          and nz: "(\<exists>i \<in> set [2..<Suc (unat (v7_maxinode fs))]. ino_free fs (of_nat i)) \<longrightarrow> n \<noteq> 0"
          using refill_reads [of fs] unfolding inodes_wrapped_def by blast
        from w obtain j where j: "2 \<le> j" "j \<le> v7_maxinode fs" "ino_free fs j" by (auto simp: inodes_wrapped_def)
        then have "unat j \<in> set [2..<Suc (unat (v7_maxinode fs))]" "of_nat (unat j) = j"
          by (simp_all add: word_le_nat_alt del: upt_Suc)
        then have "n \<noteq> 0" using nz j(3) by metis
        then have "ialloc (with_icache fs n c) = Some y" using step True rf by (simp del: upt_Suc)
        then show False using IH inodes_wrapped_icache [OF w c] by blast
      next
        case False
        let ?p = "with_icache fs (ninode (fs_fl fs) - 1) (inode_cache (fs_fl fs))"
        let ?n = "unat (ninode (fs_fl fs)) - 1"
        define cand where "cand = (ucast (inode_cache (fs_fl fs) ! ?n) :: u32)"
        have "cand < 65536" by (simp add: cand_def word_less_nat_alt unat_u16_bound)
        then have used: "\<not> ino_free fs cand" if "2 \<le> cand" using that w by (auto simp: inodes_wrapped_def)
        have pn: "unat (ninode (fs_fl fs) - 1) = ?n" using False by (simp add: unat_minus_one)
        have len: "?n < length (inode_cache (fs_fl fs))" "?n \<le> d_nicinod (fs_desc fs)"
          using w False by (auto simp: inodes_wrapped_def unat_gt_0 Suc_le_eq [symmetric])
        have "ialloc ?p = Some y"
        proof (cases "cand < 2 \<or> v7_maxinode fs < cand")
          case True
          then show ?thesis using step False len by (simp add: ialloc_popped Let_def cand_def [symmetric] del: One_nat_def)
        next
          case range: False
          then obtain ip where "engine_read_inode fs cand = Inr ip" "inode_live fs (ucast (ip_mode ip))"
            using w used by (fastforce simp: inodes_wrapped_def ino_free_def not_less)
          then show ?thesis
            using step False len range by (simp add: ialloc_popped Let_def cand_def [symmetric] del: One_nat_def)
        qed
        then show False using IH inodes_wrapped_icache [OF w refl, of "ninode (fs_fl fs) - 1"] len(2) pn by simp
      qed
    qed
  qed
  with assms show False by blast
qed

section \<open>The inode table through the ops slots\<close>

definition engine_v6 :: "filsys_edition \<Rightarrow> bool" where
  "engine_v6 fs \<longleftrightarrow> d_ops (fs_desc fs) = Some V6fs_ops"

definition engine_geom :: "filsys_edition \<Rightarrow> bool" where
  "engine_geom fs \<longleftrightarrow>
     (if engine_v6 fs
      then ino_geom v6_limit fs \<and> v6_inode_layout (fs_desc fs) \<and> d_isize_count (fs_desc fs)
      else ino_geom v7_limit fs \<and> v7_inode_layout (fs_desc fs) \<and> \<not> d_isize_count (fs_desc fs) \<and> 2 \<le> fs_isize fs)"

definition engine_fits :: "filsys_edition \<Rightarrow> filsys_inode \<Rightarrow> bool" where
  "engine_fits fs ip \<longleftrightarrow>
     (if engine_v6 fs then v6_ip_fits (fs_desc fs) ip else v7_ip_fits (fs_desc fs) ip)"

definition engine_norm :: "filsys_edition \<Rightarrow> u32 \<Rightarrow> filsys_inode \<Rightarrow> filsys_inode" where
  "engine_norm fs ino ip =
     (if engine_v6 fs then ip\<lparr>ip_ino := ino, ip_ctime := ip_mtime ip\<rparr> else ip\<lparr>ip_ino := ino\<rparr>)"

text \<open>Numbers up to \<^verbatim>\<open>v7_maxinode\<close> lie on the i-list.\<close>

lemma maxinode_nat:
  assumes "ino_geom limit fs" "d_isize_count (fs_desc fs) \<or> 2 \<le> fs_isize fs"
  shows "unat (v7_maxinode fs) =
    (unat (fs_isize fs) - (if d_isize_count (fs_desc fs) then 0 else 2)) * unat (v7_inopb fs)"
proof -
  let ?k = "(if d_isize_count (fs_desc fs) then 0 else 2) :: u32"
  have n: "unat (v7_inopb fs) \<le> 8192"
    using v7_inopb_nat(1) [OF assms(1)] assms(1)
      order_trans [OF div_le_dividend [of "d_bsize (fs_desc fs)" "d_inode_size (fs_desc fs)"], of 8192]
    by (simp add: ino_geom_def Let_def)
  have s: "unat (ucast (fs_isize fs) - ?k :: u32) =
      unat (fs_isize fs) - (if d_isize_count (fs_desc fs) then 0 else 2)"
    using assms(2) by (auto simp: unat_sub_le word_le_nat_alt)
  have "unat (fs_isize fs) - (if d_isize_count (fs_desc fs) then 0 else 2) \<le> 65535"
    using unat_u16_bound [of "fs_isize fs"] by auto
  then have "(unat (fs_isize fs) - (if d_isize_count (fs_desc fs) then 0 else 2)) * unat (v7_inopb fs) \<le> 65535 * 8192"
    using n by (rule mult_le_mono)
  then show ?thesis
    unfolding v7_maxinode_def by (simp add: unat_word_ariths(2) s)
qed

lemma maxinode_on_ilist:
  assumes "ino_geom limit fs" "d_isize_count (fs_desc fs) \<or> 2 \<le> fs_isize fs"
    and "ino \<noteq> 0" "ino \<le> v7_maxinode fs"
  shows "unat (v7_itod fs ino) < unat (fs_isize fs) + (if d_isize_count (fs_desc fs) then 2 else 0)"
proof -
  let ?n = "unat (v7_inopb fs)" and ?s = "unat (fs_isize fs) - (if d_isize_count (fs_desc fs) then 0 else 2)"
  have "unat (ino - 1) < unat ino" using assms(3) by (simp add: unat_minus_one unat_gt_0)
  moreover have "unat ino \<le> ?s * ?n" using assms(4) maxinode_nat [OF assms(1,2)] by (simp add: word_le_nat_alt)
  ultimately have "unat (ino - 1) < ?s * ?n" by linarith
  then have d: "unat (ino - 1) div ?n < ?s" by (rule less_mult_imp_div_less)
  then show ?thesis
    using itod_nat [OF assms(1), of ino] assms(2) by (auto simp: word_le_nat_alt split: if_splits)
qed

lemma engine_on_ilist:
  assumes "engine_geom fs" "ino \<noteq> 0" "ino \<le> v7_maxinode fs"
  shows "v7_itod fs ino < (if engine_v6 fs then v6_limit fs else v7_limit fs)"
proof (cases "engine_v6 fs")
  case True
  then have g: "ino_geom v6_limit fs" "d_isize_count (fs_desc fs)" using assms(1) by (auto simp: engine_geom_def)
  have "unat (v6_limit fs) = unat (fs_isize fs) + 2"
    using unat_u16_bound [of "fs_isize fs"] by (simp add: v6_data_start_def unat_word_ariths)
  then show ?thesis using maxinode_on_ilist [OF g(1)] g(2) assms(2,3) True by (simp add: word_less_nat_alt)
next
  case False
  then have g: "ino_geom v7_limit fs" "\<not> d_isize_count (fs_desc fs)" "2 \<le> fs_isize fs"
    using assms(1) by (auto simp: engine_geom_def)
  then show ?thesis using maxinode_on_ilist [OF g(1)] assms(2,3) False by (simp add: word_less_nat_alt)
qed

text \<open>The mount after an inode write through the slot.\<close>

definition engine_stored :: "filsys_edition \<Rightarrow> u32 \<Rightarrow> filsys_inode \<Rightarrow> filsys_edition" where
  "engine_stored fs ino ip = (if engine_v6 fs then v6ino.stored fs ino ip else v7ino.stored fs ino ip)"

lemma engine_write_ok:
  assumes "engine_geom fs" "ino \<noteq> 0" "ino \<le> v7_maxinode fs"
  shows "engine_write_inode fs ino ip = (Inr (), engine_stored fs ino ip)"
  using assms engine_on_ilist [OF assms]
  by (cases "engine_v6 fs")
    (simp_all add: engine_write_inode_def engine_v6_def engine_geom_def engine_stored_def v6_inode_gen v7_inode_gen
      v6ino.wr_ok v7ino.wr_ok)

lemma engine_stored_keeps:
  assumes "engine_geom fs" "ino \<noteq> 0" "ino \<le> v7_maxinode fs"
  shows "fs_desc (engine_stored fs ino ip) = fs_desc fs" "fs_isize (engine_stored fs ino ip) = fs_isize fs"
    "engine_geom (engine_stored fs ino ip)" "engine_v6 (engine_stored fs ino ip) = engine_v6 fs"
    "fs_fl (engine_stored fs ino ip) = fs_fl fs"
proof -
  note l = engine_on_ilist [OF assms]
  have 6: "fs_desc (v6ino.stored fs ino ip) = fs_desc fs \<and> fs_isize (v6ino.stored fs ino ip) = fs_isize fs \<and>
      ino_geom v6_limit (v6ino.stored fs ino ip)" if "engine_v6 fs"
    using assms(1) l that v6ino.stored_facts(1-3) [of fs ino ip] by (simp add: engine_geom_def)
  have 7: "fs_desc (v7ino.stored fs ino ip) = fs_desc fs \<and> fs_isize (v7ino.stored fs ino ip) = fs_isize fs \<and>
      ino_geom v7_limit (v7ino.stored fs ino ip)" if "\<not> engine_v6 fs"
    using assms(1) l that v7ino.stored_facts(1-3) [of fs ino ip] by (simp add: engine_geom_def)
  show d: "fs_desc (engine_stored fs ino ip) = fs_desc fs" "fs_isize (engine_stored fs ino ip) = fs_isize fs"
    using 6 7 by (simp_all add: engine_stored_def)
  show v: "engine_v6 (engine_stored fs ino ip) = engine_v6 fs" by (simp add: engine_v6_def d)
  show "engine_geom (engine_stored fs ino ip)"
    using 6 7 assms(1) unfolding engine_geom_def v d by (simp add: engine_stored_def)
  show "fs_fl (engine_stored fs ino ip) = fs_fl fs"
    by (simp add: engine_stored_def v6ino.stored_def v7ino.stored_def flushed_def)
qed

lemma engine_read_same:
  assumes "engine_geom fs" "ino \<noteq> 0" "ino \<le> v7_maxinode fs" "engine_fits fs ip"
  shows "engine_read_inode (engine_stored fs ino ip) ino = Inr (engine_norm fs ino ip)"
proof -
  note l = engine_on_ilist [OF assms(1-3)] and k = engine_stored_keeps(1,4) [OF assms(1-3), of ip]
  show ?thesis
    using assms l k(2) v6ino.read_after_write [of fs ino ip] v7ino.read_after_write [of fs ino ip]
    by (cases "engine_v6 fs")
      (simp_all add: engine_read_inode_def engine_v6_def engine_geom_def engine_fits_def engine_norm_def
        engine_stored_def v6_inode_gen v7_inode_gen)
qed

lemma engine_read_other:
  assumes "engine_geom fs" "ino \<noteq> 0" "ino \<le> v7_maxinode fs" "length (ip_addr ip) = 13" "other \<noteq> ino"
  shows "engine_read_inode (engine_stored fs ino ip) other = engine_read_inode fs other"
proof -
  note l = engine_on_ilist [OF assms(1-3)] and k = engine_stored_keeps(1,4) [OF assms(1-3), of ip]
  show ?thesis
    using assms l k(2) v6ino.read_other [of fs ino ip other] v7ino.read_other [of fs ino ip other]
    by (cases "engine_v6 fs")
      (simp_all add: engine_read_inode_def engine_v6_def engine_geom_def engine_stored_def v6_inode_gen v7_inode_gen)
qed

section \<open>What an allocated inode looks like\<close>

lemma engine_fits_zero:
  "engine_geom fs \<Longrightarrow> engine_fits fs (zero_inode ino)"
  by (auto simp: engine_fits_def engine_geom_def v6_ip_fits_def v7_ip_fits_def zero_inode_def fits24_def
      v6_inode_layout_def v7_inode_layout_def)

lemma engine_norm_zero: "engine_norm fs ino (zero_inode ino) = zero_inode ino"
  by (simp add: engine_norm_def zero_inode_def)

lemma engine_geom_fl [simp]:
  "engine_geom (with_icache fs n c) = engine_geom fs"
  "engine_geom (fs\<lparr>fs_fl := x, fs_fl_dirty := y\<rparr>) = engine_geom fs"
  by (simp_all add: engine_geom_def engine_v6_def ino_geom_def with_icache_def host_ok_def super_in_image_def
      super_off_def super_len_def blk_in_image_def blk_off_def)

lemma engine_read_fl [simp]:
  "engine_read_inode (fs\<lparr>fs_fl := x, fs_fl_dirty := y\<rparr>) = engine_read_inode fs"
proof -
  have "v7fs_read_block (fs\<lparr>fs_fl := x, fs_fl_dirty := y\<rparr>) = v7fs_read_block fs"
    by (simp add: fun_eq_iff v7fs_read_block_def blk_off_def io_file_read_def filsys_check_range_def Let_def)
  then show ?thesis
    by (simp add: fun_eq_iff engine_read_inode_def v6_read_inode_def v7fs_read_inode_def Let_def v7_itod_def
        v7_inopb_def v7_itoo_def inode_off_def v7_inode_decode_def v6_inode_decode_def split: sum.split)
qed

text \<open>
  A successful allocation: the inode was free and in range, it now reads as cleared, every
  other inode is as before, and the list is marked dirty.
\<close>

lemma ialloc_success:
  assumes "engine_geom fs" and "v7fs_ialloc fs = Some (Inr ino, fs')"
  shows "2 \<le> ino \<and> ino \<le> v7_maxinode fs \<and> ino_free fs ino \<and>
    engine_read_inode fs' ino = Inr (zero_inode ino) \<and>
    (\<forall>other. other \<noteq> ino \<longrightarrow> engine_read_inode fs' other = engine_read_inode fs other) \<and> fs_fl_dirty fs'"
proof -
  from ialloc_sound [OF assms(2)] obtain n c where i: "2 \<le> ino" "ino \<le> v7_maxinode fs" "ino_free fs ino"
    and take: "ialloc_take (with_icache fs n c) ino = (Inr ino, fs')"
    by (auto simp: ialloc_result_def ialloc_take_def Let_def)
  let ?b = "with_icache fs n c" and ?s = "engine_stored (with_icache fs n c) ino (zero_inode ino)"
  have g: "engine_geom ?b" "ino \<noteq> 0" "ino \<le> v7_maxinode ?b" using assms(1) i by auto
  have fs': "fs' = ?s\<lparr>fs_fl := (fs_fl ?s)\<lparr>tinode := (if tinode (fs_fl ?s) \<noteq> 0 then tinode (fs_fl ?s) - 1
      else tinode (fs_fl ?s))\<rparr>, fs_fl_dirty := True\<rparr>"
    using take by (simp add: ialloc_take_def Let_def engine_write_ok [OF g])
  have "engine_read_inode ?s ino = Inr (zero_inode ino)"
    using engine_read_same [OF g engine_fits_zero [OF g(1)]] by (simp add: engine_norm_zero)
  moreover have "engine_read_inode ?s other = engine_read_inode fs other" if "other \<noteq> ino" for other
    using engine_read_other [OF g _ that, of "zero_inode ino"] by (simp add: zero_inode_def)
  ultimately show ?thesis using i by (simp add: fs')
qed

end
