(* ===== verification/Backend.thy ===== *)
theory Backend
  imports V1fs Pdp7_Words Alloc_Inode
begin

text \<open>
  The vtable slots the shared code calls through: \<^verbatim>\<open>desc.ops->read_block\<close>,
  \<^verbatim>\<open>write_block\<close>, \<^verbatim>\<open>blk_get\<close>, \<^verbatim>\<open>blk_put\<close>, \<^verbatim>\<open>maxino\<close>,
  \<^verbatim>\<open>data_start\<close>, \<^verbatim>\<open>data_end\<close>, and \<^verbatim>\<open>desc.alloc->balloc\<close>/\<^verbatim>\<open>bfree\<close>.
  A call through a missing table is a null-pointer call.
\<close>

section \<open>The operations tables\<close>

definition ops_read_block :: "filsys_edition \<Rightarrow> u32 \<Rightarrow> errno + byte list" where
  "ops_read_block fs bno =
     (case d_ops (fs_desc fs) of
        None \<Rightarrow> Inl UB
      | Some V1fs_ops \<Rightarrow> v1fs_read_block fs bno
      | Some P7fs_ops \<Rightarrow> p7fs_read_block fs bno
      | Some _ \<Rightarrow> v7fs_read_block fs bno)"

definition ops_write_block :: "filsys_edition \<Rightarrow> u32 \<Rightarrow> byte list \<Rightarrow> unit op" where
  "ops_write_block fs bno buf =
     (case d_ops (fs_desc fs) of
        None \<Rightarrow> (Inl UB, fs)
      | Some V1fs_ops \<Rightarrow> v1fs_write_block fs bno buf
      | Some P7fs_ops \<Rightarrow> p7fs_write_block fs bno buf
      | Some _ \<Rightarrow> v7fs_write_block fs bno buf)"

text \<open>The data-block codec: the block itself, or two characters per word on the PDP-7.\<close>

definition ops_blk_get :: "filsys_edition \<Rightarrow> u32 \<Rightarrow> errno + byte list" where
  "ops_blk_get fs bno =
     (if d_ops (fs_desc fs) = Some P7fs_ops then p7fs_blk_get fs bno else ops_read_block fs bno)"

definition ops_blk_put :: "filsys_edition \<Rightarrow> u32 \<Rightarrow> byte list \<Rightarrow> unit op" where
  "ops_blk_put fs bno buf =
     (if d_ops (fs_desc fs) = Some P7fs_ops then p7fs_blk_put fs bno buf else ops_write_block fs bno buf)"

definition v7_data_end :: "filsys_edition \<Rightarrow> u32" where
  "v7_data_end fs = fs_fsize fs - v8_nblks fs"

definition ops_data_start :: "filsys_edition \<Rightarrow> u32" where
  "ops_data_start fs =
     (case d_ops (fs_desc fs) of
        Some V1fs_ops \<Rightarrow> v1_data_start (fs_maxino fs)
      | Some P7fs_ops \<Rightarrow> 712
      | _ \<Rightarrow> v7_data_first fs)"

definition ops_data_end :: "filsys_edition \<Rightarrow> u32" where
  "ops_data_end fs =
     (case d_ops (fs_desc fs) of
        Some V1fs_ops \<Rightarrow> fs_fsize fs
      | Some P7fs_ops \<Rightarrow> 6400
      | _ \<Rightarrow> v7_data_end fs)"

definition ops_maxino :: "filsys_edition \<Rightarrow> u32" where
  "ops_maxino fs =
     (case d_ops (fs_desc fs) of
        Some V1fs_ops \<Rightarrow> fs_maxino fs
      | Some P7fs_ops \<Rightarrow> P7_MAXINO
      | _ \<Rightarrow> v7_maxinode fs)"

section \<open>The allocator tables\<close>

definition alloc_balloc :: "filsys_edition \<Rightarrow> u32 op" where
  "alloc_balloc fs =
     (case d_alloc (fs_desc fs) of
        Freelist_alloc_ops \<Rightarrow> v7fs_balloc fs
      | V8_bitmap_alloc_ops \<Rightarrow> v8_bitmap_balloc fs
      | Bitmap_alloc_ops \<Rightarrow> v1fs_balloc fs
      | Pdp7_alloc_ops \<Rightarrow> p7fs_balloc fs)"

definition alloc_bfree :: "filsys_edition \<Rightarrow> u32 \<Rightarrow> filsys_edition" where
  "alloc_bfree fs bno =
     (case d_alloc (fs_desc fs) of
        Freelist_alloc_ops \<Rightarrow> v7fs_bfree fs bno
      | V8_bitmap_alloc_ops \<Rightarrow> v8_bitmap_bfree fs bno
      | Bitmap_alloc_ops \<Rightarrow> v1fs_bfree fs bno
      | Pdp7_alloc_ops \<Rightarrow> p7fs_bfree fs bno)"

section \<open>The indirect-entry codec\<close>

text \<open>Only the PDP-7 descriptor overrides \<^verbatim>\<open>ind_get\<close>/\<^verbatim>\<open>ind_put\<close>.\<close>

definition ind_get :: "filsys_edition \<Rightarrow> byte list \<Rightarrow> nat \<Rightarrow> u32" where
  "ind_get fs buf i = (if d_word (fs_desc fs) \<noteq> None then p7_ind_get fs buf i else v7_ind_get fs buf i)"

definition ind_put :: "filsys_edition \<Rightarrow> byte list \<Rightarrow> nat \<Rightarrow> u32 \<Rightarrow> byte list" where
  "ind_put fs buf i v = (if d_word (fs_desc fs) \<noteq> None then p7_ind_put fs buf i v else v7_ind_put fs buf i v)"

definition is_data_inode :: "filsys_edition \<Rightarrow> filsys_inode \<Rightarrow> bool" where
  "is_data_inode fs ip =
     (let d = fs_desc fs; t = ip_mode ip AND d_ifmt d in
      if d_mode d = Mode_v1 \<or> d_mode d = Mode_p7 then \<not> mode_is_device d ip
      else t = d_ifreg d \<or> t = d_ifdir d \<or> (d_iflnk d \<noteq> 0 \<and> t = d_iflnk d))"

end
