(* ===== verification/Blocktree.thy ===== *)
theory Blocktree
  imports Backend
begin

text \<open>
  The shared block-map tree (\<^verbatim>\<open>blocktree.c\<close>): mapping a logical block through the direct
  and indirect slots of an inode, allocating on the way; marking every block of an inode for
  the checker; and collecting the blocks a truncation drops, to be freed after the inode has
  been written.  An indirection level is a natural number here (0 single, 1 double, 2 triple);
  it bounds the recursion.
\<close>

section \<open>Marking\<close>

text \<open>
  \<^verbatim>\<open>filsys_mark_block\<close> returns 0 on a first claim, 1 for a bad block, 2 for a
  duplicate.
\<close>

definition filsys_mark_block :: "filsys_edition \<Rightarrow> filsys_chkctx \<Rightarrow> u32 \<Rightarrow> nat \<times> filsys_chkctx" where
  "filsys_mark_block fs cx bno =
     (if bno = 0 then (0, cx)
      else let dstart = ops_data_start fs; dend = ops_data_end fs; d = fs_desc fs in
        if bno < dstart \<or> dend \<le> bno
        then (if d_badino d \<noteq> 0 \<and> cx_ino cx = d_badino d \<and> 2 \<le> bno \<and> bno < dstart then (0, cx)
              else (1, cx\<lparr>cx_bad_blocks := cx_bad_blocks cx + 1, cx_errors := cx_errors cx + 1\<rparr>))
        else let k = unat (bno - dstart) in
          if bm_test (cx_bmap cx) k
          then (2, cx\<lparr>cx_dup_blocks := cx_dup_blocks cx + 1, cx_errors := cx_errors cx + 1\<rparr>)
          else (0, cx\<lparr>cx_bmap := bm_set (cx_bmap cx) k,
                      cx_owner := map_option (\<lambda>ow. ow[k := cx_ino cx]) (cx_owner cx),
                      cx_used_blocks := cx_used_blocks cx + 1\<rparr>))"

fun filsys_mark_tree :: "nat \<Rightarrow> filsys_edition \<Rightarrow> filsys_chkctx \<Rightarrow> u32 \<Rightarrow> filsys_chkctx" where
  "filsys_mark_tree level fs cx blk =
     (if blk = 0 then cx
      else case filsys_mark_block fs cx blk of (r, cx) \<Rightarrow>
        if r \<noteq> 0 then cx
        else case ops_read_block fs blk of
          Inl _ \<Rightarrow> cx\<lparr>cx_errors := cx_errors cx + 1\<rparr>
        | Inr buf \<Rightarrow>
            foldl (\<lambda>cx i. let nb = ind_get fs buf i in
                if nb = 0 then cx
                else case level of
                  Suc l \<Rightarrow> filsys_mark_tree l fs cx nb
                | 0 \<Rightarrow> snd (filsys_mark_block fs cx nb))
              cx [0..<d_nindir (fs_desc fs)])"

declare filsys_mark_tree.simps [simp del]

definition filsys_mark_blocks :: "filsys_edition \<Rightarrow> filsys_inode \<Rightarrow> filsys_chkctx \<Rightarrow> filsys_chkctx" where
  "filsys_mark_blocks fs ip cx =
     foldl (\<lambda>cx i. let a = ip_addr ip ! i; level = filsys_slot_level fs (ip_mode ip) i in
         if a = 0 then cx
         else if level < 0 then snd (filsys_mark_block fs cx a)
         else filsys_mark_tree (nat level) fs cx a)
       cx [0..<d_niaddr (fs_desc fs)]"

section \<open>The list of blocks to free\<close>

text \<open>
  The list doubles its array (128 entries first) when it is full; a refused allocation is
  \<open>ENOMEM\<close>.  \<open>fs\<close> stands for the allocator behind the mount.
\<close>

record filsys_blklist =
  bl_blk :: "u32 list"
  bl_cap :: nat

definition filsys_blklist_new :: "filsys_edition \<Rightarrow> filsys_blklist option" where
  "filsys_blklist_new fs = (if h_alloc (fs_host fs) 24 then Some \<lparr>bl_blk = [], bl_cap = 0\<rparr> else None)"

definition blklist_push :: "filsys_edition \<Rightarrow> filsys_blklist \<Rightarrow> u32 \<Rightarrow> errno + filsys_blklist" where
  "blklist_push fs b bno =
     (if length (bl_blk b) = bl_cap b
      then let ncap = (if bl_cap b \<noteq> 0 then bl_cap b * 2 else 128) in
        if \<not> h_alloc (fs_host fs) (ncap * 4) then Inl ENOMEM
        else Inr (b\<lparr>bl_blk := bl_blk b @ [bno], bl_cap := ncap\<rparr>)
      else Inr (b\<lparr>bl_blk := bl_blk b @ [bno]\<rparr>))"

definition filsys_blklist_drain :: "filsys_edition \<Rightarrow> filsys_blklist option \<Rightarrow> filsys_edition" where
  "filsys_blklist_drain fs b =
     (case b of None \<Rightarrow> fs | Some b \<Rightarrow> foldl alloc_bfree fs (bl_blk b))"

section \<open>Collecting subtrees\<close>

fun collect_subtree :: "nat \<Rightarrow> filsys_edition \<Rightarrow> u32 \<Rightarrow> filsys_blklist \<Rightarrow> errno + filsys_blklist" where
  "collect_subtree level fs blk b =
     (if blk = 0 then Inr b
      else case ops_read_block fs blk of
        Inl _ \<Rightarrow> Inl EIO
      | Inr buf \<Rightarrow>
          (case fold_e (\<lambda>i b.
               let nb = ind_get fs buf i in
               if nb = 0 then Inr b
               else case level of
                 Suc l \<Rightarrow> (case collect_subtree l fs nb b of Inl _ \<Rightarrow> Inl EIO | Inr b \<Rightarrow> Inr b)
               | 0 \<Rightarrow> (case blklist_push fs b nb of Inl _ \<Rightarrow> Inl ENOMEM | Inr b \<Rightarrow> Inr b))
             [0..<d_nindir (fs_desc fs)] b of
             Inl e \<Rightarrow> Inl e
           | Inr b \<Rightarrow> blklist_push fs b blk))"

declare collect_subtree.simps [simp del]

definition level_leaves :: "filsys_edition \<Rightarrow> nat \<Rightarrow> u32" where
  "level_leaves fs level = of_nat (d_nindir (fs_desc fs)) ^ level"

text \<open>
  At level 0 an entry is one leaf, so the entry that holds the boundary is never kept in part
  and the branch that would descend below level 0 cannot be taken.
\<close>

definition collect_from_body ::
    "nat \<Rightarrow> (filsys_edition \<Rightarrow> u32 \<Rightarrow> u32 \<Rightarrow> filsys_blklist \<Rightarrow> filsys_blklist op) \<Rightarrow>
     filsys_edition \<Rightarrow> u32 \<Rightarrow> u32 \<Rightarrow> filsys_blklist \<Rightarrow> filsys_blklist op" where
  "collect_from_body level descend fs blk skip b =
     (case ops_read_block fs blk of
        Inl _ \<Rightarrow> (Inl EIO, fs)
      | Inr buf \<Rightarrow>
          let sub = level_leaves fs level; se = skip div sub; sp = skip mod sub in
          try_op (fold_op (\<lambda>i (buf, b) fs.
              let nb = ind_get fs buf i in
              if nb = 0 \<or> of_nat i < se then (Inr (buf, b), fs)
              else if of_nat i = se \<and> 0 < sp
              then try_as EIO (descend fs nb sp b) (\<lambda>b fs. (Inr (buf, b), fs))
              else (case (case level of
                      0 \<Rightarrow> (case blklist_push fs b nb of Inl _ \<Rightarrow> Inl ENOMEM | Inr b \<Rightarrow> Inr b)
                    | Suc l \<Rightarrow> (case collect_subtree l fs nb b of Inl _ \<Rightarrow> Inl EIO | Inr b \<Rightarrow> Inr b)) of
                    Inl e \<Rightarrow> (Inl e, fs)
                  | Inr b \<Rightarrow> (Inr (ind_put fs buf i 0, b), fs)))
            [0..<d_nindir (fs_desc fs)] (buf, b) fs)
          (\<lambda>(buf, b) fs. try_op (ops_write_block fs blk buf) (\<lambda>_ fs. (Inr b, fs))))"

primrec collect_subtree_from ::
    "nat \<Rightarrow> filsys_edition \<Rightarrow> u32 \<Rightarrow> u32 \<Rightarrow> filsys_blklist \<Rightarrow> filsys_blklist op" where
  "collect_subtree_from 0 = collect_from_body 0 (\<lambda>fs nb sp b. (Inl UB, fs))"
| "collect_subtree_from (Suc l) = collect_from_body (Suc l) (collect_subtree_from l)"

definition slot_span :: "filsys_edition \<Rightarrow> nat \<Rightarrow> u32" where
  "slot_span fs level = of_nat (d_nindir (fs_desc fs)) ^ Suc level"

definition level_span :: "filsys_edition \<Rightarrow> int \<Rightarrow> u32" where
  "level_span fs level = (if level < 0 then 1 else slot_span fs (nat level))"

section \<open>Mapping a logical block\<close>

text \<open>
  The state of a mapping is the mount and the caller's inode; both keep what was changed when
  an error is returned.
\<close>

type_synonym 'a iop = "(filsys_edition \<times> filsys_inode, 'a) outcome"

text \<open>Descend from the indirect block \<open>blk\<close> along the indices, allocating on \<open>create\<close>.\<close>

fun ind_walk :: "filsys_edition \<Rightarrow> u32 \<Rightarrow> nat list \<Rightarrow> bool \<Rightarrow> u32 op" where
  "ind_walk fs blk [] create = (Inl EIO, fs)"
| "ind_walk fs blk (i # is) create =
     (case ops_read_block fs blk of
        Inl _ \<Rightarrow> (Inl EIO, fs)
      | Inr buf \<Rightarrow>
          let next = ind_get fs buf i in
          if next = 0 \<and> \<not> create then (Inr 0, fs)
          else try_op
            (if next = 0
             then try_op (alloc_balloc fs) (\<lambda>next fs.
                    try_as EIO (ops_write_block fs blk (ind_put fs buf i next)) (\<lambda>_ fs. (Inr next, fs)))
             else (Inr next, fs))
            (\<lambda>next fs. if is = [] then (Inr next, fs) else ind_walk fs next is create))"

definition bmap_ind_follow :: "filsys_edition \<Rightarrow> filsys_inode \<Rightarrow> nat \<Rightarrow> nat list \<Rightarrow> bool \<Rightarrow> u32 iop" where
  "bmap_ind_follow fs ip slot idx create =
     (let blk = ip_addr ip ! slot in
      if blk = 0
      then if \<not> create then (Inr 0, fs, ip)
           else case alloc_balloc fs of
             (Inl e, fs) \<Rightarrow> (Inl e, fs, ip)
           | (Inr blk, fs) \<Rightarrow>
               (case ind_walk fs blk idx create of
                  (r, fs) \<Rightarrow> (r, fs, ip\<lparr>ip_addr := (ip_addr ip)[slot := blk]\<rparr>))
      else case ind_walk fs blk idx create of (r, fs) \<Rightarrow> (r, fs, ip))"

text \<open>The per-level indices of the offset \<open>r\<close> into a slot, top level first.\<close>

definition level_indices :: "filsys_edition \<Rightarrow> nat \<Rightarrow> u32 \<Rightarrow> nat list" where
  "level_indices fs level r =
     map (\<lambda>l. unat ((r div level_leaves fs (level - l)) mod of_nat (d_nindir (fs_desc fs)))) [0..<Suc level]"

definition bmap_promotes :: "filsys_edition \<Rightarrow> filsys_inode \<Rightarrow> u32 \<Rightarrow> bool \<Rightarrow> bool" where
  "bmap_promotes fs ip lbn create \<longleftrightarrow>
     (let d = fs_desc fs in
      d_ilarg_mask d \<noteq> 0 \<and> ip_mode ip AND d_ilarg_mask d = 0 \<and> create \<and> of_nat (d_ndaddr d) \<le> lbn)"

text \<open>
  Small-to-large promotion.  The staging buffer is \<^verbatim>\<open>V7_MAXBSIZE\<close> = 8192 bytes of zeroes.
\<close>

definition bmap_promote :: "filsys_edition \<Rightarrow> filsys_inode \<Rightarrow> unit iop" where
  "bmap_promote fs ip =
     (let d = fs_desc fs in
      case alloc_balloc fs of
        (Inl e, fs) \<Rightarrow> (Inl e, fs, ip)
      | (Inr iblk, fs) \<Rightarrow>
          let buf = foldl (\<lambda>buf i. ind_put fs buf i (ip_addr ip ! i)) (replicate 8192 0) [0..<d_ndaddr d] in
          (case ops_write_block fs iblk buf of
             (Inl _, fs) \<Rightarrow> (Inl EIO, fs, ip)
           | (Inr _, fs) \<Rightarrow>
               (Inr (), fs, ip\<lparr>ip_addr := (replicate (d_ndaddr d) 0 @ drop (d_ndaddr d) (ip_addr ip))[0 := iblk],
                               ip_mode := ip_mode ip OR d_ilarg_mask d\<rparr>)))"

fun bmap_slots :: "filsys_edition \<Rightarrow> filsys_inode \<Rightarrow> u32 \<Rightarrow> bool \<Rightarrow> u32 \<Rightarrow> nat list \<Rightarrow> u32 iop" where
  "bmap_slots fs ip lbn create base [] = (if create then Inl EFBIG else Inr 0, fs, ip)"
| "bmap_slots fs ip lbn create base (slot # slots) =
     (let level = filsys_slot_level fs (ip_mode ip) slot; span = level_span fs level in
      if lbn < base + span
      then if level < 0
        then let nb = ip_addr ip ! slot in
          if nb = 0 \<and> create
          then case alloc_balloc fs of
              (Inl e, fs) \<Rightarrow> (Inl e, fs, ip)
            | (Inr nb, fs) \<Rightarrow> (Inr nb, fs, ip\<lparr>ip_addr := (ip_addr ip)[slot := nb]\<rparr>)
          else (Inr nb, fs, ip)
        else bmap_ind_follow fs ip slot (level_indices fs (nat level) (lbn - base)) create
      else bmap_slots fs ip lbn create (base + span) slots)"

definition filsys_bmap :: "filsys_edition \<Rightarrow> filsys_inode \<Rightarrow> u32 \<Rightarrow> bool \<Rightarrow> u32 iop" where
  "filsys_bmap fs ip lbn create =
     try_op (if bmap_promotes fs ip lbn create then bmap_promote fs ip else (Inr (), fs, ip))
       (\<lambda>_ (fs, ip). bmap_slots fs ip lbn create 0 [0..<d_niaddr (fs_desc fs)])"

section \<open>Truncation\<close>

text \<open>A collecting operation works on the inode and the list; the mount changes only when an
  indirect block is rewritten.\<close>

definition filsys_itrunc :: "filsys_edition \<Rightarrow> filsys_inode \<Rightarrow> filsys_blklist \<Rightarrow> (filsys_inode, filsys_blklist) outcome" where
  "filsys_itrunc fs ip b =
     (if \<not> is_data_inode fs ip then (Inr b, ip)
      else try_op (fold_op (\<lambda>i b ip.
          let bn = ip_addr ip ! i in
          if bn = 0 then (Inr b, ip)
          else let ip = ip\<lparr>ip_addr := (ip_addr ip)[i := 0]\<rparr>;
                   level = filsys_slot_level fs (ip_mode ip) i in
            if level < 0
            then (case blklist_push fs b bn of Inl _ \<Rightarrow> (Inl ENOMEM, ip) | Inr b \<Rightarrow> (Inr b, ip))
            else (case collect_subtree (nat level) fs bn b of Inl _ \<Rightarrow> (Inl EIO, ip) | Inr b \<Rightarrow> (Inr b, ip)))
          (rev [0..<d_niaddr (fs_desc fs)]) b ip)
        (\<lambda>b ip. (Inr b, ip\<lparr>ip_size := 0\<rparr>)))"

definition filsys_itrunc_from ::
    "filsys_edition \<Rightarrow> filsys_inode \<Rightarrow> u32 \<Rightarrow> filsys_blklist \<Rightarrow> filsys_blklist iop" where
  "filsys_itrunc_from fs ip first_blk b =
     try_op (fold_op (\<lambda>i (lbn, b) (fs, ip).
         let level = filsys_slot_level fs (ip_mode ip) i; span = level_span fs level; a = ip_addr ip ! i in
         if lbn + span \<le> first_blk \<or> a = 0 then (Inr (lbn + span, b), fs, ip)
         else if level < 0
         then (case blklist_push fs b a of
                 Inl _ \<Rightarrow> (Inl ENOMEM, fs, ip)
               | Inr b \<Rightarrow> (Inr (lbn + span, b), fs, ip\<lparr>ip_addr := (ip_addr ip)[i := 0]\<rparr>))
         else if first_blk \<le> lbn
         then (case collect_subtree (nat level) fs a b of
                 Inl _ \<Rightarrow> (Inl EIO, fs, ip)
               | Inr b \<Rightarrow> (Inr (lbn + span, b), fs, ip\<lparr>ip_addr := (ip_addr ip)[i := 0]\<rparr>))
         else (case collect_subtree_from (nat level) fs a (first_blk - lbn) b of
                 (Inl _, fs) \<Rightarrow> (Inl EIO, fs, ip)
               | (Inr b, fs) \<Rightarrow> (Inr (lbn + span, b), fs, ip)))
       [0..<d_niaddr (fs_desc fs)] (0, b) (fs, ip))
     (\<lambda>(lbn, b) s. (Inr b, s))"

section \<open>Counting allocated blocks\<close>

text \<open>The counters are 64-bit and a volume has at most \<open>2 ^ 32\<close> blocks: they do not wrap.\<close>

fun count_indirect :: "nat \<Rightarrow> filsys_edition \<Rightarrow> u32 \<Rightarrow> errno + nat" where
  "count_indirect levels fs blk =
     (if blk = 0 then Inr 0
      else case ops_read_block fs blk of
        Inl _ \<Rightarrow> Inl EIO
      | Inr buf \<Rightarrow>
          fold_e (\<lambda>i n.
              let sub = ind_get fs buf i in
              if sub = 0 then Inr n
              else case levels of
                0 \<Rightarrow> Inr (Suc n)
              | Suc l \<Rightarrow> (case count_indirect l fs sub of Inl e \<Rightarrow> Inl e | Inr subn \<Rightarrow> Inr (n + subn)))
            [0..<d_nindir (fs_desc fs)] 1)"

declare count_indirect.simps [simp del]

definition filsys_allocated_blocks :: "filsys_edition \<Rightarrow> filsys_inode \<Rightarrow> errno + nat" where
  "filsys_allocated_blocks fs ip =
     (if \<not> is_data_inode fs ip then Inr 0
      else fold_e (\<lambda>i n.
          let a = ip_addr ip ! i; level = filsys_slot_level fs (ip_mode ip) i in
          if a = 0 then Inr n
          else if level < 0 then Inr (Suc n)
          else case count_indirect (nat level) fs a of Inl e \<Rightarrow> Inl e | Inr sub \<Rightarrow> Inr (n + sub))
        [0..<d_niaddr (fs_desc fs)] 0)"

end
