(* ===== verification/Blocktree_Map.thy ===== *)
theory Blocktree_Map
  imports Blocktree
begin

text \<open>
  Correctness of the logical-to-physical mapping: \<^verbatim>\<open>filsys_bmap\<close> is a lookup in the tree of
  blocks below an inode, and with \<open>create\<close> it adds the missing nodes of one path and changes no
  other node.  The argument is made once, in the locale \<open>tree_store\<close>, over what it needs of the
  block layer and the allocator; each allocator of the program is an interpretation.
\<close>

section \<open>Trees of blocks\<close>

text \<open>
  \<open>A\<close> gives the address slots of an inode, \<open>M b i\<close> entry \<open>i\<close> of the indirect block \<open>b\<close>.
  A path is a slot followed by the indices below it.
\<close>

fun follow :: "(u32 \<Rightarrow> nat \<Rightarrow> u32) \<Rightarrow> u32 \<Rightarrow> nat list \<Rightarrow> u32" where
  "follow M b [] = b"
| "follow M b (i # is) = (if b = 0 then 0 else follow M (M b i) is)"

fun node :: "(nat \<Rightarrow> u32) \<Rightarrow> (u32 \<Rightarrow> nat \<Rightarrow> u32) \<Rightarrow> nat list \<Rightarrow> u32" where
  "node A M [] = 0"
| "node A M (s # p) = follow M (A s) p"

lemma follow_snoc: "follow M b (p @ [j]) = (if follow M b p = 0 then 0 else M (follow M b p) j)"
  by (induction p arbitrary: b) auto

lemma follow_append: "follow M b (p @ q) = (if follow M b p = 0 then 0 else follow M (follow M b p) q)"
  by (induction p arbitrary: b) (auto, cases q, auto)

lemma node_snoc: "q \<noteq> [] \<Longrightarrow> node A M (q @ [j]) = (if node A M q = 0 then 0 else M (node A M q) j)"
  by (cases q) (auto simp: follow_snoc)

text \<open>A set of paths that with a path contains its beginnings.\<close>

definition path_set :: "nat list set \<Rightarrow> bool" where
  "path_set P \<longleftrightarrow> [] \<notin> P \<and> (\<forall>q j. q \<noteq> [] \<and> q @ [j] \<in> P \<longrightarrow> q \<in> P)"

lemma path_set_prefix: "path_set P \<Longrightarrow> q @ r \<in> P \<Longrightarrow> q \<noteq> [] \<Longrightarrow> q \<in> P"
proof (induction r rule: rev_induct)
  case (snoc x xs)
  then have "q @ xs \<in> P" unfolding path_set_def
    by (metis append_assoc append_is_Nil_conv)
  then show ?case using snoc by blast
qed simp

definition no_sharing :: "nat list set \<Rightarrow> (nat \<Rightarrow> u32) \<Rightarrow> (u32 \<Rightarrow> nat \<Rightarrow> u32) \<Rightarrow> bool" where
  "no_sharing P A M \<longleftrightarrow> (\<forall>p \<in> P. \<forall>q \<in> P. node A M p = node A M q \<and> node A M p \<noteq> 0 \<longrightarrow> p = q)"

text \<open>Nodes depend only on the entries of the nodes above them.\<close>

lemma node_cong:
  assumes "path_set P" "q \<in> P" "\<And>s. A' s = A s"
    and "\<And>r j. r \<in> P \<Longrightarrow> r @ [j] \<in> P \<Longrightarrow> node A M r \<noteq> 0 \<Longrightarrow> M' (node A M r) j = M (node A M r) j"
  shows "node A' M' q = node A M q"
  using assms(2)
proof (induction q rule: rev_induct)
  case (snoc j q)
  show ?case
  proof (cases "q = []")
    case True
    then show ?thesis by (simp add: assms(3))
  next
    case False
    then have "q \<in> P" using assms(1) snoc.prems path_set_prefix by blast
    then show ?thesis using snoc False assms(4) by (simp add: node_snoc)
  qed
qed simp

text \<open>Filling the empty entry \<open>i\<close> of the node at \<open>p\<close> with a block of zeroes adds one node.\<close>

lemma node_entry:
  assumes P: "path_set P" and ns: "no_sharing P A M" and p: "p \<in> P" "node A M p = B" "B \<noteq> 0" "M B i = 0"
    and n: "n \<noteq> 0" "n \<noteq> B" and zero: "\<And>q j. q @ [j] \<in> P \<Longrightarrow> q = p @ [i] \<Longrightarrow> M' n j = 0"
    and upd: "\<And>q j. q \<in> P \<Longrightarrow> q @ [j] \<in> P \<Longrightarrow> node A M q \<noteq> 0 \<Longrightarrow>
        M' (node A M q) j = (if node A M q = B \<and> j = i then n else M (node A M q) j)"
    and q: "q \<in> P"
  shows "node A M' q = (if q = p @ [i] then n else node A M q)"
  using q
proof (induction q rule: rev_induct)
  case Nil
  then show ?case using P by (simp add: path_set_def)
next
  case (snoc j q)
  show ?case
  proof (cases "q = []")
    case True
    then show ?thesis using P p(1) by (auto simp: path_set_def)
  next
    case False
    then have qP: "q \<in> P" using P snoc.prems path_set_prefix by blast
    note IH = snoc.IH [OF qP]
    have uniq: "node A M q = B \<longleftrightarrow> q = p"
      using ns [unfolded no_sharing_def, rule_format, OF qP p(1)] p(2,3) by (cases "q = p") auto
    show ?thesis
    proof (cases "q = p @ [i]")
      case True
      have "p \<noteq> []" using P p(1) by (auto simp: path_set_def)
      then have a: "node A M q = 0" using p(2,4) by (simp add: True node_snoc)
      have b: "node A M' q = n" using IH True by simp
      have "node A M' (q @ [j]) = 0" using zero [OF snoc.prems True] n(1) unfolding node_snoc [OF False] b by simp
      moreover have "node A M (q @ [j]) = 0" unfolding node_snoc [OF False] a by simp
      moreover have "q @ [j] \<noteq> p @ [i]" using True by simp
      ultimately show ?thesis by auto
    next
      case neq: False
      have same: "node A M' q = node A M q" using IH neq by simp
      show ?thesis
      proof (cases "node A M q = 0")
        case True
        then have "q \<noteq> p" using p(2,3) by auto
        then show ?thesis using True same by (simp add: node_snoc [OF False])
      next
        case nz: False
        show ?thesis using upd [OF qP snoc.prems nz] uniq nz same by (simp add: node_snoc [OF False])
      qed
    qed
  qed
qed

text \<open>Filling an empty slot with a block of zeroes adds one node.\<close>

lemma node_slot:
  assumes P: "path_set P" and s: "A s = 0" and n: "n \<noteq> 0"
    and zero: "\<And>j. [s, j] \<in> P \<Longrightarrow> M' n j = 0"
    and upd: "\<And>q j. q \<in> P \<Longrightarrow> q @ [j] \<in> P \<Longrightarrow> node A M q \<noteq> 0 \<Longrightarrow> M' (node A M q) j = M (node A M q) j"
    and q: "q \<in> P"
  shows "node (A(s := n)) M' q = (if q = [s] then n else node A M q)"
  using q
proof (induction q rule: rev_induct)
  case Nil
  then show ?case using P by (simp add: path_set_def)
next
  case (snoc j q)
  show ?case
  proof (cases "q = []")
    case True
    then show ?thesis by simp
  next
    case False
    then have qP: "q \<in> P" using P snoc.prems path_set_prefix by blast
    show ?thesis
    proof (cases "q = [s]")
      case True
      then have "node A M q = 0" using s by simp
      then show ?thesis using True snoc.IH [OF qP] n zero [of j] snoc.prems False by (simp add: node_snoc s)
    next
      case neq: False
      then show ?thesis using snoc.IH [OF qP] upd [OF qP snoc.prems] False by (auto simp: node_snoc)
    qed
  qed
qed

lemma no_sharing_add:
  assumes "no_sharing P A M" "\<And>q. q \<in> P \<Longrightarrow> node A' M' q = (if q = p then n else node A M q)"
    and "\<And>q. q \<in> P \<Longrightarrow> node A M q \<noteq> n"
  shows "no_sharing P A' M'"
  using assms unfolding no_sharing_def by metis

section \<open>What the walk needs of blocks and allocator\<close>

text \<open>Every index of a path below its slot is an entry of an indirect block.\<close>

definition idx_ok :: "nat \<Rightarrow> nat list set \<Rightarrow> bool" where
  "idx_ok n P \<longleftrightarrow> (\<forall>q j. q \<noteq> [] \<and> q @ [j] \<in> P \<longrightarrow> j < n)"

abbreviation fs_nindir :: "filsys_edition \<Rightarrow> nat" where
  "fs_nindir fs \<equiv> d_nindir (fs_desc fs)"

locale tree_store =
  fixes inv :: "filsys_edition \<Rightarrow> bool"
    and frees :: "filsys_edition \<Rightarrow> u32 set"
    and area :: "filsys_edition \<Rightarrow> u32 set"
    and ent :: "filsys_edition \<Rightarrow> u32 \<Rightarrow> nat \<Rightarrow> u32"
    and data :: "filsys_edition \<Rightarrow> u32 \<Rightarrow> byte list"
  assumes area_ne0: "inv fs \<Longrightarrow> b \<in> area fs \<Longrightarrow> b \<noteq> 0"
    and frees_area: "inv fs \<Longrightarrow> frees fs \<subseteq> area fs"
    and alloc_none: "inv fs \<Longrightarrow> frees fs = {} \<Longrightarrow> fst (alloc_balloc fs) = Inl ENOSPC"
    and alloc_some: "inv fs \<Longrightarrow> frees fs \<noteq> {} \<Longrightarrow>
      \<exists>b fs'. alloc_balloc fs = (Inr b, fs') \<and> b \<in> frees fs \<and> inv fs' \<and> frees fs' = frees fs - {b} \<and>
        area fs' = area fs \<and> fs_desc fs' = fs_desc fs \<and> (\<forall>i < fs_nindir fs. ent fs' b i = 0) \<and>
        data fs' b = replicate (d_bsize (fs_desc fs)) 0 \<and>
        (\<forall>c \<in> area fs - frees fs. ent fs' c = ent fs c \<and> ops_read_block fs' c = ops_read_block fs c \<and>
          data fs' c = data fs c)"
    and read_ok: "inv fs \<Longrightarrow> b \<in> area fs \<Longrightarrow>
      \<exists>buf. ops_read_block fs b = Inr buf \<and> (\<forall>i < fs_nindir fs. ind_get fs buf i = ent fs b i)"
    and put_ok: "inv fs \<Longrightarrow> b \<in> area fs - frees fs \<Longrightarrow> i < fs_nindir fs \<Longrightarrow> v \<in> area fs \<Longrightarrow>
      ops_read_block fs b = Inr buf \<Longrightarrow>
      \<exists>fs'. ops_write_block fs b (ind_put fs buf i v) = (Inr (), fs') \<and> inv fs' \<and> frees fs' = frees fs \<and>
        area fs' = area fs \<and> fs_desc fs' = fs_desc fs \<and>
        (\<forall>j < fs_nindir fs. ent fs' b j = (if j = i then v else ent fs b j)) \<and>
        (\<forall>c \<in> area fs. c \<noteq> b \<longrightarrow> ent fs' c = ent fs c \<and> data fs' c = data fs c)"
begin

text \<open>
  A sound tree: its blocks are allocated data blocks and no block is used twice.
\<close>

definition tree_ok :: "filsys_edition \<Rightarrow> nat list set \<Rightarrow> (nat \<Rightarrow> u32) \<Rightarrow> bool" where
  "tree_ok fs P A \<longleftrightarrow> inv fs \<and> path_set P \<and> idx_ok (fs_nindir fs) P \<and> no_sharing P A (ent fs) \<and>
     (\<forall>q \<in> P. node A (ent fs) q \<noteq> 0 \<longrightarrow> node A (ent fs) q \<in> area fs - frees fs)"

lemma idx_lt: "tree_ok fs P A \<Longrightarrow> r \<in> P \<Longrightarrow> r @ [j] \<in> P \<Longrightarrow> j < fs_nindir fs"
proof -
  assume a: "tree_ok fs P A" "r \<in> P" "r @ [j] \<in> P"
  then have "r \<noteq> []" by (auto simp: tree_ok_def path_set_def)
  then show ?thesis using a by (auto simp: tree_ok_def idx_ok_def)
qed

text \<open>Allocating a block leaves the tree alone.\<close>

lemma alloc_tree:
  assumes "tree_ok fs P A" "frees fs \<noteq> {}"
  obtains n fs' where "alloc_balloc fs = (Inr n, fs')" "n \<in> frees fs" "frees fs' = frees fs - {n}"
    "area fs' = area fs" "fs_desc fs' = fs_desc fs" "tree_ok fs' P A" "\<forall>i < fs_nindir fs. ent fs' n i = 0"
    "\<forall>q \<in> P. node A (ent fs') q = node A (ent fs) q"
    "\<forall>c \<in> area fs - frees fs. ent fs' c = ent fs c \<and> ops_read_block fs' c = ops_read_block fs c \<and> data fs' c = data fs c"
    "n \<noteq> 0" "\<forall>q \<in> P. node A (ent fs) q \<noteq> n" "data fs' n = replicate (d_bsize (fs_desc fs)) 0"
proof -
  have inv: "inv fs" using assms(1) by (simp add: tree_ok_def)
  from alloc_some [OF this assms(2)] obtain n fs' where
    a: "alloc_balloc fs = (Inr n, fs')" "n \<in> frees fs" "inv fs'" "frees fs' = frees fs - {n}"
      "area fs' = area fs" "fs_desc fs' = fs_desc fs" "\<forall>i < fs_nindir fs. ent fs' n i = 0"
      "\<forall>c \<in> area fs - frees fs. ent fs' c = ent fs c \<and> ops_read_block fs' c = ops_read_block fs c \<and> data fs' c = data fs c"
      "data fs' n = replicate (d_bsize (fs_desc fs)) 0" by blast
  note same = a(8)
  have nodes: "node A (ent fs') q = node A (ent fs) q" if "q \<in> P" for q
    using assms(1) that same by (intro node_cong [of P]) (auto simp: tree_ok_def)
  then have "no_sharing P A (ent fs')" using assms(1) by (auto simp: tree_ok_def no_sharing_def)
  then have "tree_ok fs' P A" using assms(1) a nodes by (auto simp: tree_ok_def)
  moreover have "n \<noteq> 0" using a(2) frees_area [OF inv] area_ne0 [OF inv] by blast
  moreover have "\<forall>q \<in> P. node A (ent fs) q \<noteq> n"
    using assms(1) a(2) \<open>n \<noteq> 0\<close> unfolding tree_ok_def by blast
  ultimately show thesis using that a same nodes by blast
qed

text \<open>Entering a fresh block of zeroes into an indirect block adds one node.\<close>

lemma put_tree:
  assumes T: "tree_ok fs P A" and p: "p \<in> P" "p @ [i] \<in> P" "node A (ent fs) p = B" "B \<noteq> 0" "ent fs B i = 0"
    and n: "n \<in> area fs" "n \<notin> frees fs" "\<forall>q \<in> P. node A (ent fs) q \<noteq> n" "\<forall>j < fs_nindir fs. ent fs n j = 0"
    and buf: "ops_read_block fs B = Inr buf"
  obtains fs' where "ops_write_block fs B (ind_put fs buf i n) = (Inr (), fs')" "tree_ok fs' P A"
    "frees fs' = frees fs" "area fs' = area fs" "fs_desc fs' = fs_desc fs"
    "\<forall>q \<in> P. node A (ent fs') q = (if q = p @ [i] then n else node A (ent fs) q)"
    "\<forall>c \<in> area fs. c \<noteq> B \<longrightarrow> data fs' c = data fs c"
proof -
  note t = T [unfolded tree_ok_def]
  have B: "B \<in> area fs - frees fs" using t p by blast
  have i: "i < fs_nindir fs" using idx_lt [OF T p(1,2)] .
  from put_ok [OF _ B i n(1) buf] t obtain fs' where
    f: "ops_write_block fs B (ind_put fs buf i n) = (Inr (), fs')" "inv fs'" "frees fs' = frees fs"
      "area fs' = area fs" "fs_desc fs' = fs_desc fs"
      "\<forall>j < fs_nindir fs. ent fs' B j = (if j = i then n else ent fs B j)"
      "\<forall>c \<in> area fs. c \<noteq> B \<longrightarrow> ent fs' c = ent fs c \<and> data fs' c = data fs c" by blast
  have nB: "n \<noteq> B" using n(3) p(1,3) by auto
  have n0: "n \<noteq> 0" using area_ne0 t n(1) by blast
  have nodes: "node A (ent fs') q = (if q = p @ [i] then n else node A (ent fs) q)" if "q \<in> P" for q
  proof (rule node_entry [where B = B])
    show "ent fs' n j = 0" if "r @ [j] \<in> P" "r = p @ [i]" for r j
      using that p(2) idx_lt [OF T _ that(1)] f(7) n(1,4) nB by auto
    show "ent fs' (node A (ent fs) r) j =
        (if node A (ent fs) r = B \<and> j = i then n else ent fs (node A (ent fs) r) j)"
      if "r \<in> P" "r @ [j] \<in> P" "node A (ent fs) r \<noteq> 0" for r j
    proof (cases "node A (ent fs) r = B")
      case True
      then show ?thesis using idx_lt [OF T that(1,2)] f(6) by simp
    next
      case False
      then show ?thesis using f(7) t that by auto
    qed
  qed (use t p n0 nB that in auto)
  have ns: "no_sharing P A (ent fs')"
    by (rule no_sharing_add [where p = "p @ [i]"]) (use t nodes n(3) in auto)
  have "tree_ok fs' P A" using t f nodes n ns unfolding tree_ok_def by auto
  then show thesis using that f nodes by blast
qed

section \<open>Walking down\<close>

lemma ind_walk_lookup:
  assumes "tree_ok fs P A" "q \<in> P" "q @ is \<in> P" "is \<noteq> []" "node A (ent fs) q = blk" "blk \<noteq> 0"
  shows "ind_walk fs blk is False = (Inr (node A (ent fs) (q @ is)), fs)"
  using assms
proof (induction "is" arbitrary: q blk)
  case (Cons i rest)
  have qi: "q @ [i] \<in> P"
    using path_set_prefix [of P "q @ [i]" rest] Cons.prems(1,3) by (simp add: tree_ok_def)
  have q: "q \<noteq> []" using Cons.prems(1,2) by (auto simp: tree_ok_def path_set_def)
  have blk: "inv fs" "blk \<in> area fs" using Cons.prems unfolding tree_ok_def by blast+
  from read_ok [OF this] obtain buf where
    buf: "ops_read_block fs blk = Inr buf" "\<forall>i < fs_nindir fs. ind_get fs buf i = ent fs blk i" by blast
  have get: "ind_get fs buf i = node A (ent fs) (q @ [i])"
    using idx_lt [OF Cons.prems(1,2) qi] buf(2) Cons.prems(5,6) by (simp add: node_snoc [OF q])
  have app: "node A (ent fs) (q @ i # rest) =
      (if node A (ent fs) (q @ [i]) = 0 then 0 else follow (ent fs) (node A (ent fs) (q @ [i])) rest)"
    using q follow_append [of "ent fs" "A (hd q)" "tl q @ [i]" rest] by (cases q) simp_all
  show ?case
  proof (cases "node A (ent fs) (q @ [i]) = 0")
    case True
    then show ?thesis by (simp add: buf(1) get app)
  next
    case False
    show ?thesis
    proof (cases "rest = []")
      case True
      then show ?thesis using False by (simp add: buf(1) get)
    next
      case ne: False
      have "ind_walk fs (node A (ent fs) (q @ [i])) rest False = (Inr (node A (ent fs) ((q @ [i]) @ rest)), fs)"
        using Cons.prems qi ne False by (intro Cons.IH) simp_all
      then show ?thesis using False ne by (simp add: buf(1) get)
    qed
  qed
qed simp

text \<open>
  What a creating walk leaves: the path is there, every other node is as it was or lies on the
  path and was missing; it is refused only for lack of free blocks.
\<close>

definition grown :: "filsys_edition \<Rightarrow> filsys_edition \<Rightarrow> nat list set \<Rightarrow> (nat \<Rightarrow> u32) \<Rightarrow> (nat \<Rightarrow> u32) \<Rightarrow> nat list \<Rightarrow> bool" where
  "grown fs fs' P A A' p \<longleftrightarrow>
     tree_ok fs' P A' \<and> frees fs' \<subseteq> frees fs \<and> area fs' = area fs \<and> fs_desc fs' = fs_desc fs \<and>
     (\<forall>r \<in> P. node A' (ent fs') r = node A (ent fs) r \<or>
        (node A (ent fs) r = 0 \<and> node A' (ent fs') r \<in> frees fs \<and> (\<exists>k. r = take k p))) \<and>
     (\<forall>c \<in> area fs - frees fs. (\<forall>k < length p. node A (ent fs) (take k p) \<noteq> c) \<longrightarrow> data fs' c = data fs c) \<and>
     (node A (ent fs) p = 0 \<and> node A' (ent fs') p \<noteq> 0 \<longrightarrow>
        data fs' (node A' (ent fs') p) = replicate (d_bsize (fs_desc fs)) 0) \<and>
     frees fs - frees fs' \<subseteq> (\<lambda>k. node A' (ent fs') (take k p)) ` {..length p}"

lemma grown_refl: "tree_ok fs P A \<Longrightarrow> grown fs fs P A A p"
  by (simp add: grown_def)

lemma grownD:
  assumes "grown fs fs' P A A' p"
  shows "tree_ok fs' P A'" "frees fs' \<subseteq> frees fs" "area fs' = area fs" "fs_desc fs' = fs_desc fs"
    "r \<in> P \<Longrightarrow> node A' (ent fs') r = node A (ent fs) r \<or>
      (node A (ent fs) r = 0 \<and> node A' (ent fs') r \<in> frees fs \<and> (\<exists>k. r = take k p))"
    "frees fs - frees fs' \<subseteq> (\<lambda>k. node A' (ent fs') (take k p)) ` {..length p}"
  using assms by (simp_all add: grown_def)

lemma grown_data:
  "grown fs fs' P A A' p \<Longrightarrow> c \<in> area fs - frees fs \<Longrightarrow> (\<And>k. k < length p \<Longrightarrow> node A (ent fs) (take k p) \<noteq> c) \<Longrightarrow>
    data fs' c = data fs c"
  "grown fs fs' P A A' p \<Longrightarrow> node A (ent fs) p = 0 \<Longrightarrow> node A' (ent fs') p \<noteq> 0 \<Longrightarrow>
    data fs' (node A' (ent fs') p) = replicate (d_bsize (fs_desc fs)) 0"
  by (simp_all add: grown_def)

lemma grown_node:
  assumes "grown fs fs' P A A' p" "p \<in> P" "k \<le> length p"
  shows "node A' (ent fs') (take k p) = node A (ent fs) (take k p) \<or> node A' (ent fs') (take k p) \<in> frees fs"
proof (cases "k = 0")
  case False
  have "path_set P" using assms(1) by (simp add: grown_def tree_ok_def)
  moreover have "take k p @ drop k p \<in> P" "take k p \<noteq> []"
    using assms(2) False \<open>path_set P\<close> by (auto simp: path_set_def)
  ultimately have "take k p \<in> P" using path_set_prefix by blast
  then show ?thesis using assms(1) unfolding grown_def by blast
qed simp

text \<open>The leaf of a path is not one of the blocks above it.\<close>

lemma leaf_fresh:
  assumes "tree_ok fs P A" "p \<in> P" "node A (ent fs) p \<noteq> 0" "k < length p"
  shows "node A (ent fs) (take k p) \<noteq> node A (ent fs) p"
proof (cases "k = 0")
  case False
  have "path_set P" using assms(1) by (simp add: tree_ok_def)
  moreover have "take k p @ drop k p \<in> P" "take k p \<noteq> []"
    using assms(2,4) False by auto
  ultimately have "take k p \<in> P" using path_set_prefix by blast
  moreover have "take k p \<noteq> p" using assms(4) by (metis length_take min.absorb4 nat_less_le)
  ultimately show ?thesis using assms unfolding tree_ok_def no_sharing_def by metis
qed (use assms in simp)

lemma grown_kept:
  assumes "grown fs fs' P A A' p" "p \<in> P" "k \<le> length p" "node A (ent fs) (take k p) \<noteq> 0"
  shows "node A' (ent fs') (take k p) = node A (ent fs) (take k p)"
proof (cases "k = 0")
  case False
  have "path_set P" using assms(1) by (simp add: grown_def tree_ok_def)
  moreover have "take k p @ drop k p \<in> P" "take k p \<noteq> []"
    using assms(2) False \<open>path_set P\<close> by (auto simp: path_set_def)
  ultimately have "take k p \<in> P" using path_set_prefix by blast
  then show ?thesis using assms(1,4) unfolding grown_def by blast
qed (use assms(4) in simp)

text \<open>At most the nodes of the path have been taken from the free blocks.\<close>

lemma grown_card:
  assumes "grown fs fs' P A A' p" "inv fs"
  shows "card (frees fs) \<le> card (frees fs') + length p"
proof -
  have "0 \<notin> frees fs" using frees_area [OF assms(2)] area_ne0 [OF assms(2)] by blast
  moreover have "{..length p} = insert 0 {1..length p}" by auto
  ultimately have "frees fs - frees fs' \<subseteq> (\<lambda>k. node A' (ent fs') (take k p)) ` {1..length p}"
    using grownD(6) [OF assms(1)] by auto
  then have "card (frees fs - frees fs') \<le> card ((\<lambda>k. node A' (ent fs') (take k p)) ` {1..length p})"
    by (intro card_mono) simp_all
  also have "\<dots> \<le> length p" using card_image_le [of "{1..length p}"] by fastforce
  finally show ?thesis using diff_card_le_card_Diff [of "frees fs'" "frees fs"] by simp
qed

lemma grown_trans:
  assumes "grown fs fs1 P A A1 p" "grown fs1 fs2 P A1 A2 p" and P: "p \<in> P" and inv: "inv fs"
  shows "grown fs fs2 P A A2 p"
proof -
  have T: "tree_ok fs1 P A1" "frees fs1 \<subseteq> frees fs" "area fs1 = area fs" "fs_desc fs1 = fs_desc fs"
    using assms(1) by (simp_all add: grown_def)
  have d: "data fs2 c = data fs c"
    if "c \<in> area fs - frees fs" "\<forall>k < length p. node A (ent fs) (take k p) \<noteq> c" for c
  proof -
    have "data fs1 c = data fs c" using that by (intro grown_data(1) [OF assms(1)]) auto
    moreover have "node A1 (ent fs1) (take k p) \<noteq> c" if "k < length p" for k
      using that grown_node [OF assms(1) P, of k] \<open>c \<in> area fs - frees fs\<close>
        \<open>\<forall>k < length p. node A (ent fs) (take k p) \<noteq> c\<close> by auto
    then have "data fs2 c = data fs1 c"
      using that(1) T(2,3) by (intro grown_data(1) [OF assms(2)]) auto
    ultimately show ?thesis by simp
  qed
  have z: "data fs2 (node A2 (ent fs2) p) = replicate (d_bsize (fs_desc fs)) 0"
    if "node A (ent fs) p = 0" "node A2 (ent fs2) p \<noteq> 0"
  proof (cases "node A1 (ent fs1) p = 0")
    case True
    then show ?thesis using grown_data(2) [OF assms(2)] that T(4) by simp
  next
    case False
    then have "node A2 (ent fs2) p = node A1 (ent fs1) p" using assms(2) P unfolding grown_def by blast
    moreover have "data fs2 (node A1 (ent fs1) p) = data fs1 (node A1 (ent fs1) p)"
      using leaf_fresh [OF T(1) P False] T(1) P False by (intro grown_data(1) [OF assms(2)]) (auto simp: tree_ok_def)
    ultimately show ?thesis using grown_data(2) [OF assms(1) that(1) False] by simp
  qed
  have "node A2 (ent fs2) r = node A (ent fs) r \<or>
      (node A (ent fs) r = 0 \<and> node A2 (ent fs2) r \<in> frees fs \<and> (\<exists>k. r = take k p))" if "r \<in> P" for r
    using grownD(5) [OF assms(1) that] grownD(5) [OF assms(2) that] grownD(2) [OF assms(1)] by auto
  moreover have "frees fs - frees fs2 \<subseteq> (\<lambda>k. node A2 (ent fs2) (take k p)) ` {..length p}"
  proof
    fix b assume b: "b \<in> frees fs - frees fs2"
    show "b \<in> (\<lambda>k. node A2 (ent fs2) (take k p)) ` {..length p}"
    proof (cases "b \<in> frees fs1")
      case True
      then show ?thesis using b grownD(6) [OF assms(2)] by blast
    next
      case False
      then obtain k where k: "k \<le> length p" "b = node A1 (ent fs1) (take k p)"
        using b grownD(6) [OF assms(1)] by auto
      then have "b \<noteq> 0 \<Longrightarrow> node A2 (ent fs2) (take k p) = b"
        using grown_kept [OF assms(2) P k(1)] by simp
      moreover have "b \<noteq> 0" using b frees_area area_ne0 inv by blast
      ultimately show ?thesis using k(1) by (intro image_eqI [of _ _ k]) simp_all
    qed
  qed
  ultimately show ?thesis using assms d z unfolding grown_def by auto
qed

text \<open>One missing entry: allocate a block and enter it.\<close>

lemma create_entry:
  assumes T: "tree_ok fs P A" and q: "q \<in> P" "q @ [i] \<in> P" "node A (ent fs) q = blk" "blk \<noteq> 0" "ent fs blk i = 0"
    and buf: "ops_read_block fs blk = Inr buf" and fr: "frees fs \<noteq> {}" and pP: "q @ i # rest \<in> P"
  obtains n fs1 fs2 where "alloc_balloc fs = (Inr n, fs1)"
    "ops_write_block fs1 blk (ind_put fs1 buf i n) = (Inr (), fs2)" "n \<noteq> 0"
    "node A (ent fs2) (q @ [i]) = n" "tree_ok fs2 P A" "card (frees fs2) = card (frees fs) - 1"
    "grown fs fs2 P A A (q @ i # rest)"
proof -
  obtain n fs1 where
    a: "alloc_balloc fs = (Inr n, fs1)" "n \<in> frees fs" "frees fs1 = frees fs - {n}"
      "area fs1 = area fs" "fs_desc fs1 = fs_desc fs" "tree_ok fs1 P A" "\<forall>i < fs_nindir fs. ent fs1 n i = 0"
      "\<forall>q \<in> P. node A (ent fs1) q = node A (ent fs) q"
      "\<forall>c \<in> area fs - frees fs. ent fs1 c = ent fs c \<and> ops_read_block fs1 c = ops_read_block fs c \<and> data fs1 c = data fs c"
      "n \<noteq> 0" "\<forall>q \<in> P. node A (ent fs) q \<noteq> n" "data fs1 n = replicate (d_bsize (fs_desc fs)) 0"
    using alloc_tree [OF T fr] by blast
  have blk: "blk \<in> area fs - frees fs" using T q unfolding tree_ok_def by blast
  have na: "n \<in> area fs1" using a(2,4) T frees_area unfolding tree_ok_def by blast
  have same: "node A (ent fs1) q = blk" "ent fs1 blk i = 0" "ops_read_block fs1 blk = Inr buf"
    using a(8,9) q blk buf by auto
  have fresh: "n \<notin> frees fs1" "\<forall>q \<in> P. node A (ent fs1) q \<noteq> n" "\<forall>j < fs_nindir fs1. ent fs1 n j = 0"
    using a by auto
  obtain fs2 where
    b: "ops_write_block fs1 blk (ind_put fs1 buf i n) = (Inr (), fs2)" "tree_ok fs2 P A"
      "frees fs2 = frees fs1" "area fs2 = area fs1" "fs_desc fs2 = fs_desc fs1"
      "\<forall>r \<in> P. node A (ent fs2) r = (if r = q @ [i] then n else node A (ent fs1) r)"
      "\<forall>c \<in> area fs1. c \<noteq> blk \<longrightarrow> data fs2 c = data fs1 c"
    using put_tree [OF a(6) q(1,2) same(1) q(4) same(2) na fresh same(3)] by blast
  have q0: "q \<noteq> []" using T q(1) by (auto simp: tree_ok_def path_set_def)
  have z: "node A (ent fs) (q @ [i]) = 0" using q by (simp add: node_snoc [OF q0])
  have tk: "\<exists>k. q @ [i] = take k (q @ i # rest)" by (rule exI [of _ "Suc (length q)"]) simp
  have "node A (ent fs2) r = node A (ent fs) r \<or>
      (node A (ent fs) r = 0 \<and> node A (ent fs2) r \<in> frees fs \<and> (\<exists>k. r = take k (q @ i # rest)))"
    if "r \<in> P" for r
  proof (cases "r = q @ [i]")
    case True
    have "node A (ent fs2) r = n" using b(6) that True by simp
    then show ?thesis using z tk a(2) unfolding True by blast
  next
    case False
    then show ?thesis using a(8) b(6) that by simp
  qed
  moreover have taken: "frees fs - frees fs2 \<subseteq> (\<lambda>k. node A (ent fs2) (take k (q @ i # rest))) ` {..length (q @ i # rest)}"
  proof
    fix c assume "c \<in> frees fs - frees fs2"
    then have "c = node A (ent fs2) (take (Suc (length q)) (q @ i # rest))" using a(3) b(3,6) q(2) by simp
    then show "c \<in> (\<lambda>k. node A (ent fs2) (take k (q @ i # rest))) ` {..length (q @ i # rest)}"
      by (rule image_eqI) simp
  qed
  moreover have "data fs2 c = data fs c"
    if c: "c \<in> area fs - frees fs" "\<forall>k < length (q @ i # rest). node A (ent fs) (take k (q @ i # rest)) \<noteq> c" for c
  proof -
    have "c \<noteq> blk" using spec [OF c(2), of "length q"] q(3) by auto
    then show ?thesis using a(4,9) b(7) c(1) by auto
  qed
  moreover have "data fs2 (node A (ent fs2) (q @ i # rest)) = replicate (d_bsize (fs_desc fs)) 0"
    if "node A (ent fs) (q @ i # rest) = 0" "node A (ent fs2) (q @ i # rest) \<noteq> 0"
  proof -
    have "q @ i # rest = q @ [i]" using that b(6) a(8) pP by (auto split: if_splits)
    then have "node A (ent fs2) (q @ i # rest) = n" using b(6) q(2) by simp
    moreover have "n \<noteq> blk" using a(11) q(1,3) by auto
    ultimately show ?thesis using b(7) na a(12) by simp
  qed
  ultimately have "grown fs fs2 P A A (q @ i # rest)"
    using b(2,3,4,5) a(3,4,5) taken unfolding grown_def by auto
  moreover have "node A (ent fs2) (q @ [i]) = n" using b(6) q(2) by simp
  moreover have "card (frees fs2) = card (frees fs) - 1" using a(2,3) b(3) by simp
  ultimately show thesis using that a(1,10) b(1,2) by blast
qed

lemma ind_walk_create:
  assumes "tree_ok fs P A" "q \<in> P" "q @ is \<in> P" "is \<noteq> []" "node A (ent fs) q = blk" "blk \<noteq> 0"
  shows "(\<exists>b fs'. ind_walk fs blk is True = (Inr b, fs') \<and> b \<noteq> 0 \<and> node A (ent fs') (q @ is) = b \<and>
      grown fs fs' P A A (q @ is)) \<or>
    (\<exists>fs'. ind_walk fs blk is True = (Inl ENOSPC, fs') \<and> card (frees fs) < length is)"
  using assms
proof (induction "is" arbitrary: fs q blk)
  case (Cons i rest)
  have qi: "q @ [i] \<in> P" "(q @ [i]) @ rest \<in> P"
    using path_set_prefix [of P "q @ [i]" rest] Cons.prems(1,3) by (simp_all add: tree_ok_def)
  have q: "q \<noteq> []" using Cons.prems(1,2) by (auto simp: tree_ok_def path_set_def)
  have blk: "inv fs" "blk \<in> area fs" using Cons.prems unfolding tree_ok_def by blast+
  from read_ok [OF this] obtain buf where
    buf: "ops_read_block fs blk = Inr buf" "\<forall>i < fs_nindir fs. ind_get fs buf i = ent fs blk i" by blast
  have get: "ind_get fs buf i = ent fs blk i" using idx_lt [OF Cons.prems(1,2) qi(1)] buf(2) by simp
  have nd: "node A (ent fs) (q @ [i]) = ent fs blk i" using Cons.prems(5,6) by (simp add: node_snoc [OF q])
  show ?case
  proof (cases "ent fs blk i = 0")
    case False
    show ?thesis
    proof (cases "rest = []")
      case True
      then show ?thesis using False nd grown_refl [OF Cons.prems(1)] by (simp add: buf(1) get)
    next
      case ne: False
      from Cons.IH [OF Cons.prems(1) qi ne nd False] False ne show ?thesis
        by (auto simp: buf(1) get)
    qed
  next
    case True
    show ?thesis
    proof (cases "frees fs = {}")
      case none: True
      obtain fs' where "alloc_balloc fs = (Inl ENOSPC, fs')"
        using alloc_none [OF blk(1) none] by (cases "alloc_balloc fs") auto
      then show ?thesis using True none by (auto simp: buf(1) get)
    next
      case some: False
      obtain n fs1 fs2 where c: "alloc_balloc fs = (Inr n, fs1)"
          "ops_write_block fs1 blk (ind_put fs1 buf i n) = (Inr (), fs2)" "n \<noteq> 0"
          "node A (ent fs2) (q @ [i]) = n" "tree_ok fs2 P A" "card (frees fs2) = card (frees fs) - 1"
          "grown fs fs2 P A A (q @ i # rest)"
        using create_entry [OF Cons.prems(1,2) qi(1) Cons.prems(5,6) True buf(1) some Cons.prems(3)] by blast
      have card: "card (frees fs) \<noteq> 0" using some by simp
      have step: "ind_walk fs blk (i # rest) True = (if rest = [] then (Inr n, fs2) else ind_walk fs2 n rest True)"
        using True c(1,2) by (simp add: buf(1) get)
      show ?thesis
      proof (cases "rest = []")
        case True
        then show ?thesis using step c by auto
      next
        case ne: False
        from Cons.IH [OF c(5) qi ne c(4,3)] show ?thesis
          using step ne c(6) card grown_trans [OF c(7) _ Cons.prems(3) blk(1)] by auto
      qed
    qed
  qed
qed simp

end

section \<open>The path of a logical block\<close>

definition slot_depth :: "filsys_edition \<Rightarrow> u32 \<Rightarrow> nat \<Rightarrow> nat" where
  "slot_depth fs mode slot = nat (filsys_slot_level fs mode slot + 1)"

definition bpaths :: "filsys_edition \<Rightarrow> u32 \<Rightarrow> nat list set" where
  "bpaths fs mode =
     {s # p | s p. s < d_niaddr (fs_desc fs) \<and> length p \<le> slot_depth fs mode s \<and> (\<forall>i \<in> set p. i < fs_nindir fs)}"

fun bmap_path :: "filsys_edition \<Rightarrow> u32 \<Rightarrow> u32 \<Rightarrow> u32 \<Rightarrow> nat list \<Rightarrow> nat list option" where
  "bmap_path fs mode lbn base [] = None"
| "bmap_path fs mode lbn base (slot # slots) =
     (let level = filsys_slot_level fs mode slot; span = level_span fs level in
      if lbn < base + span
      then Some (slot # (if level < 0 then [] else level_indices fs (nat level) (lbn - base)))
      else bmap_path fs mode lbn (base + span) slots)"

definition lbn_path :: "filsys_edition \<Rightarrow> u32 \<Rightarrow> u32 \<Rightarrow> nat list option" where
  "lbn_path fs mode lbn = bmap_path fs mode lbn 0 [0..<d_niaddr (fs_desc fs)]"

definition nindir_ok :: "filsys_edition \<Rightarrow> bool" where
  "nindir_ok fs \<longleftrightarrow> 0 < fs_nindir fs \<and> fs_nindir fs < 2 ^ 32"

lemma path_set_bpaths: "path_set (bpaths fs mode)" and idx_ok_bpaths: "idx_ok (fs_nindir fs) (bpaths fs mode)"
proof -
  have "q \<in> bpaths fs mode \<and> j < fs_nindir fs" if "q \<noteq> []" "q @ [j] \<in> bpaths fs mode" for q j
    using that by (cases q) (auto simp: bpaths_def)
  then show "path_set (bpaths fs mode)" "idx_ok (fs_nindir fs) (bpaths fs mode)"
    by (auto simp: path_set_def idx_ok_def) (auto simp: bpaths_def)
qed

lemma bpaths_cong: "fs_desc fs' = fs_desc fs \<Longrightarrow> bpaths fs' mode = bpaths fs mode"
  by (simp add: bpaths_def slot_depth_def filsys_slot_level_def)

lemma bmap_path_cong: "fs_desc fs' = fs_desc fs \<Longrightarrow> bmap_path fs' mode lbn base slots = bmap_path fs mode lbn base slots"
  by (induction slots arbitrary: base)
    (simp_all add: Let_def filsys_slot_level_def level_span_def slot_span_def level_indices_def level_leaves_def)

lemma level_indices_lt: "nindir_ok fs \<Longrightarrow> i \<in> set (level_indices fs level r) \<Longrightarrow> i < fs_nindir fs"
proof -
  assume n: "nindir_ok fs" and "i \<in> set (level_indices fs level r)"
  then obtain x :: u32 where "i = unat (x mod of_nat (fs_nindir fs))" by (auto simp: level_indices_def)
  moreover have "unat (of_nat (fs_nindir fs) :: u32) = fs_nindir fs"
    using n by (intro unat_of_nat_lt) (simp add: nindir_ok_def)
  ultimately show ?thesis using n by (simp add: unat_mod nindir_ok_def)
qed

lemma length_level_indices [simp]: "length (level_indices fs level r) = Suc level"
  by (simp add: level_indices_def)

text \<open>The path of a logical block is a path of full depth.\<close>

lemma bmap_path_in:
  assumes "bmap_path fs mode lbn base slots = Some p" "nindir_ok fs" "set slots \<subseteq> {..<d_niaddr (fs_desc fs)}"
  shows "p \<in> bpaths fs mode" "length p = Suc (slot_depth fs mode (hd p))" "p \<noteq> []" "hd p \<in> set slots"
proof -
  have "p \<in> bpaths fs mode \<and> length p = Suc (slot_depth fs mode (hd p)) \<and> p \<noteq> [] \<and> hd p \<in> set slots"
    using assms
  proof (induction slots arbitrary: base)
    case (Cons s slots)
    show ?case
    proof (cases "lbn < base + level_span fs (filsys_slot_level fs mode s)")
      case True
      then have "p = s # (if filsys_slot_level fs mode s < 0 then []
          else level_indices fs (nat (filsys_slot_level fs mode s)) (lbn - base))"
        using Cons.prems(1) by (simp add: Let_def)
      then show ?thesis
        using Cons.prems(2,3) level_indices_lt [OF Cons.prems(2)] by (auto simp: bpaths_def slot_depth_def Suc_nat_eq_nat_zadd1)
    next
      case False
      then show ?thesis using Cons.IH [of "base + level_span fs (filsys_slot_level fs mode s)"] Cons.prems by (auto simp: Let_def)
    qed
  qed simp
  then show "p \<in> bpaths fs mode" "length p = Suc (slot_depth fs mode (hd p))" "p \<noteq> []" "hd p \<in> set slots" by blast+
qed

lemma lbn_path_in:
  assumes "lbn_path fs mode lbn = Some p" "nindir_ok fs"
  shows "p \<in> bpaths fs mode" "length p = Suc (slot_depth fs mode (hd p))" "p \<noteq> []" "hd p < d_niaddr (fs_desc fs)"
  using bmap_path_in [OF assms(1) [unfolded lbn_path_def] assms(2)] by (auto simp: lessThan_atLeast0)

lemma full_path_prefix:
  assumes "lbn_path fs mode l = Some p" "lbn_path fs mode l' = Some p'" "nindir_ok fs" "p' = take k p"
  shows "p' = p"
proof -
  note a = lbn_path_in [OF assms(1,3)] and b = lbn_path_in [OF assms(2,3)]
  have ne: "p \<noteq> []" "p' \<noteq> []" using a(3) b(3) by auto
  then have "hd p' = hd p" using assms(4) by (cases k; cases p) auto
  then have "length p' = length p" using a(2) b(2) by auto
  then show ?thesis using assms(4) by simp
qed

section \<open>Distinct logical blocks have distinct paths\<close>

text \<open>The indices are the digits of the offset, base \<open>nindir\<close>.\<close>

lemma digits_value:
  fixes r N :: nat
  assumes "m \<le> k"
  shows "foldl (\<lambda>a d. a * N + d) 0 (map (\<lambda>l. (r div N ^ (k - l)) mod N) [0..<Suc m]) =
    (r div N ^ (k - m)) mod N ^ Suc m"
  using assms
proof (induction m)
  case (Suc m)
  define x where "x = r div N ^ (k - Suc m)"
  have e: "k - m = Suc (k - Suc m)" using Suc.prems by simp
  have "r div N ^ (k - m) = x div N" unfolding x_def e by (simp add: power_Suc2 div_mult2_eq del: power_Suc)
  then have "foldl (\<lambda>a d. a * N + d) 0 (map (\<lambda>l. (r div N ^ (k - l)) mod N) [0..<Suc (Suc m)]) =
      (x div N mod N ^ Suc m) * N + x mod N"
    using Suc by (simp add: x_def)
  also have "\<dots> = x mod (N * N ^ Suc m)" by (simp only: mod_mult2_eq mult.commute add.commute)
  finally show ?case by (simp add: x_def)
qed simp

lemma digits_inj:
  fixes r r' N :: nat
  assumes "r < N ^ Suc k" "r' < N ^ Suc k"
    and "map (\<lambda>l. (r div N ^ (k - l)) mod N) [0..<Suc k] = map (\<lambda>l. (r' div N ^ (k - l)) mod N) [0..<Suc k]"
  shows "r = r'"
proof -
  have "r mod N ^ Suc k = r' mod N ^ Suc k"
    using digits_value [of k k N r] digits_value [of k k N r'] assms(3)
    by (simp only: diff_self_eq_0 power_0 div_by_1 order_refl)
  then show ?thesis using assms(1,2) by (simp only: mod_less)
qed

text \<open>The slots together cover fewer than \<open>2 ^ 32\<close> blocks, so the 32-bit sums do not wrap.\<close>

definition nat_span :: "filsys_edition \<Rightarrow> u32 \<Rightarrow> nat \<Rightarrow> nat" where
  "nat_span fs mode slot = fs_nindir fs ^ slot_depth fs mode slot"

definition spans_fit :: "filsys_edition \<Rightarrow> u32 \<Rightarrow> bool" where
  "spans_fit fs mode \<longleftrightarrow> sum_list (map (nat_span fs mode) [0..<d_niaddr (fs_desc fs)]) < 2 ^ 32"

lemma unat_pow:
  assumes "n ^ k < 2 ^ 32" "0 < n"
  shows "unat ((of_nat n :: u32) ^ k) = n ^ k"
proof -
  have "(of_nat n :: u32) ^ k = of_nat (n ^ k)" by simp
  then show ?thesis using assms(1) by (simp only: unat_of_nat) (simp add: take_bit_nat_eq_self)
qed

lemma level_span_nat:
  assumes "nat_span fs mode slot < 2 ^ 32" "nindir_ok fs"
  shows "unat (level_span fs (filsys_slot_level fs mode slot)) = nat_span fs mode slot"
proof (cases "filsys_slot_level fs mode slot < 0")
  case True
  then show ?thesis by (simp add: level_span_def nat_span_def slot_depth_def)
next
  case False
  then have "slot_depth fs mode slot = Suc (nat (filsys_slot_level fs mode slot))" by (simp add: slot_depth_def nat_add_distrib)
  then show ?thesis
    using False assms unat_pow [of "fs_nindir fs" "slot_depth fs mode slot"]
    by (simp add: level_span_def slot_span_def nat_span_def nindir_ok_def)
qed

lemma level_indices_inj:
  assumes "nindir_ok fs" "fs_nindir fs ^ Suc k < 2 ^ 32" "unat r < fs_nindir fs ^ Suc k" "unat r' < fs_nindir fs ^ Suc k"
    and "level_indices fs k r = level_indices fs k r'"
  shows "r = r'"
proof -
  let ?N = "fs_nindir fs"
  have N: "0 < ?N" "unat (of_nat ?N :: u32) = ?N"
    using assms(1) by (auto simp: nindir_ok_def intro!: unat_of_nat_lt)
  have pw: "unat (level_leaves fs j) = ?N ^ j" if "j \<le> k" for j
  proof -
    have "?N ^ j \<le> ?N ^ Suc k" using that N(1) by (intro power_increasing) auto
    then show ?thesis using assms(2) N(1) unfolding level_leaves_def by (intro unat_pow) auto
  qed
  have "level_indices fs k x = map (\<lambda>l. (unat x div ?N ^ (k - l)) mod ?N) [0..<Suc k]" for x
    unfolding level_indices_def by (rule map_cong) (simp_all add: unat_mod unat_div N pw del: upt_Suc)
  then have "unat r = unat r'" using assms(3,4,5) by (intro digits_inj [of _ ?N k]) simp_all
  then show ?thesis by (simp add: word_unat_eq_iff)
qed

lemma bmap_path_inj:
  assumes "nindir_ok fs" "unat base + sum_list (map (nat_span fs mode) slots) < 2 ^ 32" "distinct slots"
    and "base \<le> l" "base \<le> l'" "bmap_path fs mode l base slots = Some p" "bmap_path fs mode l' base slots = Some p"
  shows "l = l'"
  using assms
proof (induction slots arbitrary: base)
  case (Cons s slots)
  let ?lv = "filsys_slot_level fs mode s"
  let ?sp = "level_span fs ?lv"
  have sp: "unat ?sp = nat_span fs mode s" using Cons.prems(1,2) by (intro level_span_nat) auto
  then have bs: "unat (base + ?sp) = unat base + nat_span fs mode s"
    using Cons.prems(2) by (auto simp: unat_word_ariths)
  have off: "unat (x - base) < nat_span fs mode s" if "x < base + ?sp" "base \<le> x" for x
    using that bs by (auto simp: word_less_nat_alt word_le_nat_alt unat_sub_le)
  have hd: "hd q \<in> set slots" if "bmap_path fs mode x b slots = Some q" for x b q
    using that by (induction slots arbitrary: b) (auto simp: Let_def split: if_splits)
  show ?case
  proof (cases "l < base + ?sp"; cases "l' < base + ?sp")
    assume lt: "l < base + ?sp" "l' < base + ?sp"
    show ?thesis
    proof (cases "?lv < 0")
      case True
      then have "nat_span fs mode s = 1" by (simp add: nat_span_def slot_depth_def)
      then have "l - base = 0" "l' - base = 0" using off lt Cons.prems(4,5) by (auto simp: unat_eq_zero)
      then show ?thesis by simp
    next
      case False
      then have d: "slot_depth fs mode s = Suc (nat ?lv)" by (simp add: slot_depth_def nat_add_distrib)
      have "level_indices fs (nat ?lv) (l - base) = level_indices fs (nat ?lv) (l' - base)"
        using Cons.prems(6,7) lt False by (auto simp: Let_def)
      then have "l - base = l' - base"
        using off lt Cons.prems(1,2,4,5) d
        by (intro level_indices_inj [of fs "nat ?lv"]) (auto simp: nat_span_def)
      then show ?thesis by simp
    qed
  next
    assume "\<not> l < base + ?sp" "\<not> l' < base + ?sp"
    then show ?thesis
      using Cons.IH [of "base + ?sp"] Cons.prems bs by (auto simp: Let_def)
  qed (use Cons.prems in \<open>auto simp: Let_def dest!: hd\<close>)
qed simp

lemma lbn_path_inj:
  assumes "nindir_ok fs" "spans_fit fs mode" "lbn_path fs mode l = Some p" "lbn_path fs mode l' = Some p"
  shows "l = l'"
  using assms unfolding lbn_path_def spans_fit_def
  by (intro bmap_path_inj [of fs 0 mode "[0..<d_niaddr (fs_desc fs)]"]) simp_all

section \<open>The mapping\<close>

abbreviation slots_of :: "filsys_inode \<Rightarrow> nat \<Rightarrow> u32" where
  "slots_of ip \<equiv> \<lambda>s. ip_addr ip ! s"

lemma slots_of_update:
  "s < length (ip_addr ip) \<Longrightarrow> slots_of (ip\<lparr>ip_addr := (ip_addr ip)[s := n]\<rparr>) = (slots_of ip)(s := n)"
  by (auto simp: fun_eq_iff nth_list_update)

text \<open>Without \<open>create\<close> nothing is changed, whatever the volume holds.\<close>

lemma ind_walk_pure: "snd (ind_walk fs blk is False) = fs"
proof (induction "is" arbitrary: blk)
  case (Cons i rest)
  show ?case
  proof (cases "ops_read_block fs blk")
    case (Inr buf)
    then show ?thesis using Cons.IH by (simp add: Let_def)
  qed simp
qed simp

lemma ind_walk_pureD: "ind_walk fs blk is False = (r, fs') \<Longrightarrow> fs' = fs"
  using ind_walk_pure [of fs blk "is"] by simp

lemma bmap_slots_pure: "snd (bmap_slots fs ip lbn False base slots) = (fs, ip)"
  by (induction slots arbitrary: base)
    (auto simp: Let_def bmap_ind_follow_def split: prod.split dest: ind_walk_pureD)

lemma bmap_pure: "snd (filsys_bmap fs ip lbn False) = (fs, ip)"
  by (simp add: filsys_bmap_def bmap_promotes_def bmap_slots_pure Let_def)

context tree_store
begin

definition file_ok :: "filsys_edition \<Rightarrow> filsys_inode \<Rightarrow> bool" where
  "file_ok fs ip \<longleftrightarrow> nindir_ok fs \<and> d_niaddr (fs_desc fs) \<le> length (ip_addr ip) \<and>
     tree_ok fs (bpaths fs (ip_mode ip)) (slots_of ip)"

definition block_of :: "filsys_edition \<Rightarrow> filsys_inode \<Rightarrow> u32 \<Rightarrow> u32" where
  "block_of fs ip lbn =
     (case lbn_path fs (ip_mode ip) lbn of None \<Rightarrow> 0 | Some p \<Rightarrow> node (slots_of ip) (ent fs) p)"

lemma ind_follow_lookup:
  assumes "file_ok fs ip" "s # is \<in> bpaths fs (ip_mode ip)" "is \<noteq> []"
  shows "bmap_ind_follow fs ip s is False = (Inr (node (slots_of ip) (ent fs) (s # is)), fs, ip)"
proof -
  have "[s] \<in> bpaths fs (ip_mode ip)" using assms(2) by (auto simp: bpaths_def)
  then have "ind_walk fs (ip_addr ip ! s) is False = (Inr (node (slots_of ip) (ent fs) ([s] @ is)), fs)"
    if "ip_addr ip ! s \<noteq> 0"
    using assms that by (intro ind_walk_lookup [of fs "bpaths fs (ip_mode ip)"]) (auto simp: file_ok_def)
  then show ?thesis using assms(3) by (cases "is") (auto simp: bmap_ind_follow_def Let_def)
qed

lemma bmap_slots_lookup:
  assumes "file_ok fs ip" "set slots \<subseteq> {..<d_niaddr (fs_desc fs)}"
  shows "bmap_slots fs ip lbn False base slots =
    (Inr (case bmap_path fs (ip_mode ip) lbn base slots of None \<Rightarrow> 0 | Some p \<Rightarrow> node (slots_of ip) (ent fs) p), fs, ip)"
  using assms
proof (induction slots arbitrary: base)
  case (Cons s slots)
  let ?lv = "filsys_slot_level fs (ip_mode ip) s"
  show ?case
  proof (cases "lbn < base + level_span fs ?lv")
    case False
    then show ?thesis using Cons by (simp add: Let_def)
  next
    case True
    then have path: "bmap_path fs (ip_mode ip) lbn base (s # slots) =
        Some (s # (if ?lv < 0 then [] else level_indices fs (nat ?lv) (lbn - base)))" by (simp add: Let_def)
    have "s # level_indices fs (nat ?lv) (lbn - base) \<in> bpaths fs (ip_mode ip)" if "\<not> ?lv < 0"
      using bmap_path_in(1) [OF path] Cons.prems that by (simp add: file_ok_def)
    then show ?thesis
      using True path ind_follow_lookup [OF Cons.prems(1)] by (auto simp: Let_def level_indices_def)
  qed
qed simp

text \<open>Lookup finds the node at the block's path.\<close>

lemma bmap_lookup:
  assumes "file_ok fs ip"
  shows "filsys_bmap fs ip lbn False = (Inr (block_of fs ip lbn), fs, ip)"
  using bmap_slots_lookup [OF assms, of "[0..<d_niaddr (fs_desc fs)]" lbn 0]
  by (simp add: filsys_bmap_def bmap_promotes_def block_of_def lbn_path_def Let_def lessThan_atLeast0)

text \<open>Filling an empty slot.\<close>

lemma create_slot:
  assumes T: "tree_ok fs P A" and s: "[s] \<in> P" "A s = 0" and fr: "frees fs \<noteq> {}" and pP: "s # p \<in> P"
  obtains n fs1 where "alloc_balloc fs = (Inr n, fs1)" "n \<noteq> 0" "card (frees fs1) = card (frees fs) - 1"
    "grown fs fs1 P A (A(s := n)) (s # p)" "tree_ok fs1 P (A(s := n))" "node (A(s := n)) (ent fs1) [s] = n"
proof -
  obtain n fs1 where
    a: "alloc_balloc fs = (Inr n, fs1)" "n \<in> frees fs" "frees fs1 = frees fs - {n}"
      "area fs1 = area fs" "fs_desc fs1 = fs_desc fs" "tree_ok fs1 P A" "\<forall>i < fs_nindir fs. ent fs1 n i = 0"
      "\<forall>q \<in> P. node A (ent fs1) q = node A (ent fs) q"
      "\<forall>c \<in> area fs - frees fs. ent fs1 c = ent fs c \<and> ops_read_block fs1 c = ops_read_block fs c \<and> data fs1 c = data fs c"
      "n \<noteq> 0" "\<forall>q \<in> P. node A (ent fs) q \<noteq> n" "data fs1 n = replicate (d_bsize (fs_desc fs)) 0"
    by (rule alloc_tree [OF T fr])
  have P: "path_set P" using T by (simp add: tree_ok_def)
  have zero: "ent fs1 n j = 0" if "[s, j] \<in> P" for j
    using idx_lt [OF a(6) s(1), of j] that a(5,7) by simp
  have nodes: "node (A(s := n)) (ent fs1) q = (if q = [s] then n else node A (ent fs1) q)" if "q \<in> P" for q
    by (rule node_slot [where P = P and A = A and s = s and n = n and M = "ent fs1" and M' = "ent fs1"])
      (use P s(2) a(10) zero that in simp_all)
  have ns: "no_sharing P (A(s := n)) (ent fs1)"
  proof (rule no_sharing_add [where p = "[s]"])
    show "no_sharing P A (ent fs1)" using a(6) by (simp add: tree_ok_def)
    show "node A (ent fs1) q \<noteq> n" if "q \<in> P" for q using that a(8,11) by simp
  qed (rule nodes)
  have "n \<in> area fs1" using a(2,4) T frees_area unfolding tree_ok_def by blast
  then have n: "n \<in> area fs1 - frees fs1" using a(3) by simp
  have "node (A(s := n)) (ent fs1) q \<in> area fs1 - frees fs1" if "q \<in> P" "node (A(s := n)) (ent fs1) q \<noteq> 0" for q
    using that nodes [OF that(1)] n a(6) unfolding tree_ok_def by (cases "q = [s]") simp_all
  then have T1: "tree_ok fs1 P (A(s := n))"
    using a(6) ns by (simp add: tree_ok_def)
  have z: "node A (ent fs) [s] = 0" using s(2) by simp
  have tk: "\<exists>k. [s] = take k (s # p)" by (rule exI [of _ 1]) simp
  have "node (A(s := n)) (ent fs1) r = node A (ent fs) r \<or>
      (node A (ent fs) r = 0 \<and> node (A(s := n)) (ent fs1) r \<in> frees fs \<and> (\<exists>k. r = take k (s # p)))"
    if "r \<in> P" for r
  proof (cases "r = [s]")
    case True
    have "node (A(s := n)) (ent fs1) r \<in> frees fs" using nodes [OF that] True a(2) by simp
    then show ?thesis using tk z True by (intro disjI2 conjI) simp_all
  next
    case False
    then show ?thesis using nodes [OF that] a(8) that by simp
  qed
  moreover have taken: "frees fs - frees fs1 \<subseteq> (\<lambda>k. node (A(s := n)) (ent fs1) (take k (s # p))) ` {..length (s # p)}"
  proof
    fix c assume "c \<in> frees fs - frees fs1"
    then have "c = node (A(s := n)) (ent fs1) (take 1 (s # p))" using a(3) by simp
    then show "c \<in> (\<lambda>k. node (A(s := n)) (ent fs1) (take k (s # p))) ` {..length (s # p)}" by (rule image_eqI) simp
  qed
  moreover have "data fs1 (node (A(s := n)) (ent fs1) (s # p)) = replicate (d_bsize (fs_desc fs)) 0"
    if "node A (ent fs) (s # p) = 0" "node (A(s := n)) (ent fs1) (s # p) \<noteq> 0"
  proof (cases "p = []")
    case True
    then show ?thesis using a(12) by simp
  next
    case False
    then have "node (A(s := n)) (ent fs1) (s # p) = node A (ent fs) (s # p)" using nodes [OF pP] bspec [OF a(8) pP] by simp
    then show ?thesis using that by simp
  qed
  ultimately have "grown fs fs1 P A (A(s := n)) (s # p)"
    using T1 a(3,4,5,9) taken unfolding grown_def by auto
  moreover have "node (A(s := n)) (ent fs1) [s] = n" by simp
  moreover have "card (frees fs1) = card (frees fs) - 1" using a(2,3) by simp
  ultimately show thesis using that a(1,10) T1 by blast
qed

text \<open>What a creating lookup promises of the new mount and the new inode.\<close>

definition mapped :: "filsys_edition \<Rightarrow> filsys_inode \<Rightarrow> nat list \<Rightarrow> u32 \<Rightarrow> filsys_edition \<Rightarrow> filsys_inode \<Rightarrow> bool" where
  "mapped fs ip p b fs' ip' \<longleftrightarrow> b \<noteq> 0 \<and> node (slots_of ip') (ent fs') p = b \<and>
     grown fs fs' (bpaths fs (ip_mode ip)) (slots_of ip) (slots_of ip') p \<and>
     (\<exists>a. ip' = ip\<lparr>ip_addr := a\<rparr> \<and> length a = length (ip_addr ip))"

lemma walk_mapped:
  assumes T: "tree_ok fs (bpaths fs (ip_mode ip)) (slots_of ip)" and blk: "ip_addr ip ! s \<noteq> 0"
    and p: "s # is \<in> bpaths fs (ip_mode ip)" "is \<noteq> []"
  shows "(\<exists>b fs'. ind_walk fs (ip_addr ip ! s) is True = (Inr b, fs') \<and> mapped fs ip (s # is) b fs' ip) \<or>
    (\<exists>fs'. ind_walk fs (ip_addr ip ! s) is True = (Inl ENOSPC, fs') \<and> card (frees fs) < length is)"
proof -
  have "[s] \<in> bpaths fs (ip_mode ip)" using p(1) by (auto simp: bpaths_def)
  from ind_walk_create [OF T this _ p(2), of "ip_addr ip ! s"] p(1) blk
  consider b fs' where "ind_walk fs (ip_addr ip ! s) is True = (Inr b, fs')" "b \<noteq> 0"
      "node (slots_of ip) (ent fs') (s # is) = b"
      "grown fs fs' (bpaths fs (ip_mode ip)) (slots_of ip) (slots_of ip) (s # is)"
    | fs' where "ind_walk fs (ip_addr ip ! s) is True = (Inl ENOSPC, fs')" "card (frees fs) < length is"
    by auto
  then show ?thesis
  proof cases
    case 1
    have "\<exists>a. ip = ip\<lparr>ip_addr := a\<rparr> \<and> length a = length (ip_addr ip)" by (rule exI [of _ "ip_addr ip"]) simp
    then have "mapped fs ip (s # is) b fs' ip" unfolding mapped_def using 1 by blast
    then show ?thesis using 1(1) by blast
  qed blast
qed

lemma ind_follow_create:
  assumes F: "file_ok fs ip" and p: "s # is \<in> bpaths fs (ip_mode ip)" "is \<noteq> []"
  shows "(\<exists>b fs' ip'. bmap_ind_follow fs ip s is True = (Inr b, fs', ip') \<and> mapped fs ip (s # is) b fs' ip') \<or>
    (\<exists>st. bmap_ind_follow fs ip s is True = (Inl ENOSPC, st) \<and> card (frees fs) < Suc (length is))"
proof -
  have T: "tree_ok fs (bpaths fs (ip_mode ip)) (slots_of ip)" and len: "s < length (ip_addr ip)"
    using F p(1) by (auto simp: file_ok_def bpaths_def)
  have s: "[s] \<in> bpaths fs (ip_mode ip)" using p(1) by (auto simp: bpaths_def)
  show ?thesis
  proof (cases "ip_addr ip ! s = 0")
    case False
    then have e: "bmap_ind_follow fs ip s is True = (fst (ind_walk fs (ip_addr ip ! s) is True), snd (ind_walk fs (ip_addr ip ! s) is True), ip)"
      by (simp add: bmap_ind_follow_def Let_def split: prod.split)
    from walk_mapped [OF T False p] show ?thesis
    proof (elim disjE exE conjE)
      fix b fs' assume "ind_walk fs (ip_addr ip ! s) is True = (Inr b, fs')" "mapped fs ip (s # is) b fs' ip"
      then show ?thesis unfolding e by auto
    qed (use e in simp)
  next
    case z: True
    show ?thesis
    proof (cases "frees fs = {}")
      case True
      then have "fst (alloc_balloc fs) = Inl ENOSPC" using alloc_none T unfolding tree_ok_def by blast
      then obtain fs' where "alloc_balloc fs = (Inl ENOSPC, fs')" by (cases "alloc_balloc fs") auto
      then show ?thesis using z True by (simp add: bmap_ind_follow_def Let_def)
    next
      case False
      obtain n fs1 where c: "alloc_balloc fs = (Inr n, fs1)" "n \<noteq> 0" "card (frees fs1) = card (frees fs) - 1"
          "grown fs fs1 (bpaths fs (ip_mode ip)) (slots_of ip) ((slots_of ip)(s := n)) (s # is)"
          "tree_ok fs1 (bpaths fs (ip_mode ip)) ((slots_of ip)(s := n))"
          "node ((slots_of ip)(s := n)) (ent fs1) [s] = n"
        by (rule create_slot [where A = "slots_of ip" and p = "is", OF T s _ False p(1)]) (use z in simp_all)
      let ?ip = "ip\<lparr>ip_addr := (ip_addr ip)[s := n]\<rparr>"
      have A: "slots_of ?ip = (slots_of ip)(s := n)" by (rule slots_of_update) (rule len)
      have "fs_desc fs1 = fs_desc fs" using c(4) by (simp add: grown_def)
      from bpaths_cong [OF this] have P: "bpaths fs1 (ip_mode ?ip) = bpaths fs (ip_mode ip)" by simp
      have idx: "ip_addr ?ip ! s = n" using len by simp
      have "tree_ok fs1 (bpaths fs1 (ip_mode ?ip)) (slots_of ?ip)" unfolding P A by (rule c(5))
      moreover have "ip_addr ?ip ! s \<noteq> 0" unfolding idx by (rule c(2))
      moreover have "s # is \<in> bpaths fs1 (ip_mode ?ip)" unfolding P by (rule p(1))
      ultimately have w: "(\<exists>b fs'. ind_walk fs1 n is True = (Inr b, fs') \<and> mapped fs1 ?ip (s # is) b fs' ?ip) \<or>
          (\<exists>fs'. ind_walk fs1 n is True = (Inl ENOSPC, fs') \<and> card (frees fs1) < length is)"
        using walk_mapped [OF _ _ _ p(2), of fs1 ?ip s] unfolding idx by blast
      have card: "card (frees fs) \<noteq> 0" using False by simp
      have m: "mapped fs ip (s # is) b fs' ?ip" if "mapped fs1 ?ip (s # is) b fs' ?ip" for b fs'
      proof -
        have "grown fs fs' (bpaths fs (ip_mode ip)) (slots_of ip) (slots_of ?ip) (s # is)"
          using that grown_trans [OF c(4) _ p(1)] T unfolding mapped_def P A tree_ok_def by blast
        moreover have "\<exists>a. ?ip = ip\<lparr>ip_addr := a\<rparr> \<and> length a = length (ip_addr ip)"
          by (rule exI [of _ "(ip_addr ip)[s := n]"]) simp
        ultimately show ?thesis using that unfolding mapped_def by blast
      qed
      have e: "bmap_ind_follow fs ip s is True = (fst (ind_walk fs1 n is True), snd (ind_walk fs1 n is True), ?ip)"
        using z c(1) by (simp add: bmap_ind_follow_def Let_def split: prod.split)
      from w show ?thesis
      proof (elim disjE exE conjE)
        fix b fs' assume "ind_walk fs1 n is True = (Inr b, fs')" "mapped fs1 ?ip (s # is) b fs' ?ip"
        then show ?thesis using m unfolding e by auto
      qed (use e c(3) card in simp)
    qed
  qed
qed

lemma direct_create:
  assumes F: "file_ok fs ip" and s: "[s] \<in> bpaths fs (ip_mode ip)" "ip_addr ip ! s = 0" and fr: "frees fs \<noteq> {}"
  obtains n fs1 where "alloc_balloc fs = (Inr n, fs1)" "mapped fs ip [s] n fs1 (ip\<lparr>ip_addr := (ip_addr ip)[s := n]\<rparr>)"
proof -
  have T: "tree_ok fs (bpaths fs (ip_mode ip)) (slots_of ip)" and len: "s < length (ip_addr ip)"
    using F s(1) by (auto simp: file_ok_def bpaths_def)
  obtain n fs1 where c: "alloc_balloc fs = (Inr n, fs1)" "n \<noteq> 0" "card (frees fs1) = card (frees fs) - 1"
      "grown fs fs1 (bpaths fs (ip_mode ip)) (slots_of ip) ((slots_of ip)(s := n)) [s]"
      "tree_ok fs1 (bpaths fs (ip_mode ip)) ((slots_of ip)(s := n))"
      "node ((slots_of ip)(s := n)) (ent fs1) [s] = n"
    by (rule create_slot [where A = "slots_of ip" and p = "[]", OF T s(1) _ fr s(1)]) (use s(2) in simp_all)
  have A: "slots_of (ip\<lparr>ip_addr := (ip_addr ip)[s := n]\<rparr>) = (slots_of ip)(s := n)"
    by (rule slots_of_update) (rule len)
  have "\<exists>a. ip\<lparr>ip_addr := (ip_addr ip)[s := n]\<rparr> = ip\<lparr>ip_addr := a\<rparr> \<and> length a = length (ip_addr ip)"
    by (rule exI [of _ "(ip_addr ip)[s := n]"]) simp
  then have "mapped fs ip [s] n fs1 (ip\<lparr>ip_addr := (ip_addr ip)[s := n]\<rparr>)"
    unfolding mapped_def A using c(2,4,6) by blast
  then show thesis using that c(1) by blast
qed

lemma mapped_refl:
  assumes "file_ok fs ip" "node (slots_of ip) (ent fs) p = b" "b \<noteq> 0"
  shows "mapped fs ip p b fs ip"
proof -
  have "\<exists>a. ip = ip\<lparr>ip_addr := a\<rparr> \<and> length a = length (ip_addr ip)" by (rule exI [of _ "ip_addr ip"]) simp
  then show ?thesis using assms grown_refl unfolding mapped_def file_ok_def by blast
qed

lemma bmap_slots_create:
  assumes F: "file_ok fs ip" "set slots \<subseteq> {..<d_niaddr (fs_desc fs)}"
    and path: "bmap_path fs (ip_mode ip) lbn base slots = Some p"
  shows "(\<exists>b fs' ip'. bmap_slots fs ip lbn True base slots = (Inr b, fs', ip') \<and> mapped fs ip p b fs' ip') \<or>
    (\<exists>st. bmap_slots fs ip lbn True base slots = (Inl ENOSPC, st) \<and> card (frees fs) < length p)"
  using F(2) path
proof (induction slots arbitrary: base)
  case (Cons s slots)
  let ?lv = "filsys_slot_level fs (ip_mode ip) s"
  have n: "nindir_ok fs" using F(1) by (simp add: file_ok_def)
  show ?case
  proof (cases "lbn < base + level_span fs ?lv")
    case False
    then show ?thesis using Cons by (simp add: Let_def)
  next
    case lt: True
    note P = bmap_path_in(1) [OF Cons.prems(2) n Cons.prems(1)]
    show ?thesis
    proof (cases "?lv < 0")
      case lv: True
      then have p: "p = [s]" using Cons.prems(2) lt by (simp add: Let_def)
      show ?thesis
      proof (cases "ip_addr ip ! s = 0")
        case False
        then have "mapped fs ip p (ip_addr ip ! s) fs ip" using F(1) p by (intro mapped_refl) simp_all
        then show ?thesis using lt lv False by (simp add: Let_def)
      next
        case z: True
        show ?thesis
        proof (cases "frees fs = {}")
          case True
          then have "fst (alloc_balloc fs) = Inl ENOSPC"
            using alloc_none F(1) unfolding tree_ok_def file_ok_def by blast
          then obtain fs' where "alloc_balloc fs = (Inl ENOSPC, fs')" by (cases "alloc_balloc fs") auto
          then show ?thesis using lt lv z True p by (simp add: Let_def)
        next
          case False
          obtain m fs1 where "alloc_balloc fs = (Inr m, fs1)"
              "mapped fs ip [s] m fs1 (ip\<lparr>ip_addr := (ip_addr ip)[s := m]\<rparr>)"
            by (rule direct_create [OF F(1) P [unfolded p] z False])
          then show ?thesis using lt lv z p by (simp add: Let_def)
        qed
      qed
    next
      case False
      then have p: "p = s # level_indices fs (nat ?lv) (lbn - base)" using Cons.prems(2) lt by (simp add: Let_def)
      have ne: "level_indices fs (nat ?lv) (lbn - base) \<noteq> []" by (simp add: level_indices_def)
      from ind_follow_create [OF F(1) P [unfolded p] ne] show ?thesis
        using lt False p by (simp add: Let_def)
    qed
  qed
qed simp

text \<open>The new inode maps the logical block and every other logical block is mapped as before.\<close>

lemma mapped_frame:
  assumes F: "file_ok fs ip" and p: "lbn_path fs (ip_mode ip) lbn = Some p" and m: "mapped fs ip p b fs' ip'"
  shows "file_ok fs' ip'" "block_of fs' ip' lbn = b"
    "spans_fit fs (ip_mode ip) \<Longrightarrow> l \<noteq> lbn \<Longrightarrow> block_of fs' ip' l = block_of fs ip l"
proof -
  have n: "nindir_ok fs" using F by (simp add: file_ok_def)
  obtain a where a: "ip' = ip\<lparr>ip_addr := a\<rparr>" "length a = length (ip_addr ip)" using m unfolding mapped_def by blast
  then have mode: "ip_mode ip' = ip_mode ip" by simp
  have g: "grown fs fs' (bpaths fs (ip_mode ip)) (slots_of ip) (slots_of ip') p" using m unfolding mapped_def by blast
  note d = grownD(4) [OF g]
  note P = bpaths_cong [OF d, of "ip_mode ip"]
  have path: "lbn_path fs' (ip_mode ip') x = lbn_path fs (ip_mode ip) x" for x
    unfolding lbn_path_def mode d by (rule bmap_path_cong [OF d])
  show "file_ok fs' ip'"
    using F g a unfolding file_ok_def grown_def mode P by (simp add: nindir_ok_def d)
  show "block_of fs' ip' lbn = b" using m unfolding block_of_def path p mapped_def by simp
  assume fit: "spans_fit fs (ip_mode ip)" and ne: "l \<noteq> lbn"
  show "block_of fs' ip' l = block_of fs ip l"
  proof (cases "lbn_path fs (ip_mode ip) l")
    case None
    then show ?thesis by (simp add: block_of_def path)
  next
    case (Some q)
    have "q \<noteq> p" using lbn_path_inj [OF n fit Some] p ne by auto
    then have "\<not> (\<exists>k. q = take k p)" using full_path_prefix [OF p Some n] by blast
    moreover have "q \<in> bpaths fs (ip_mode ip)" by (rule lbn_path_in(1) [OF Some n])
    ultimately have "node (slots_of ip') (ent fs') q = node (slots_of ip) (ent fs) q"
      using g unfolding grown_def by blast
    then show ?thesis by (simp add: block_of_def path Some)
  qed
qed

text \<open>The bytes of a logical block; a hole reads as zeroes.\<close>

definition fblock :: "filsys_edition \<Rightarrow> filsys_inode \<Rightarrow> u32 \<Rightarrow> byte list" where
  "fblock fs ip l =
     (if block_of fs ip l = 0 then replicate (d_bsize (fs_desc fs)) 0 else data fs (block_of fs ip l))"

lemma block_of_leaf:
  assumes "file_ok fs ip" "block_of fs ip l \<noteq> 0"
  obtains q where "lbn_path fs (ip_mode ip) l = Some q" "q \<in> bpaths fs (ip_mode ip)"
    "block_of fs ip l = node (slots_of ip) (ent fs) q" "block_of fs ip l \<in> area fs - frees fs"
proof -
  obtain q where q: "lbn_path fs (ip_mode ip) l = Some q" "block_of fs ip l = node (slots_of ip) (ent fs) q"
    using assms(2) by (auto simp: block_of_def split: option.splits)
  have "q \<in> bpaths fs (ip_mode ip)" using lbn_path_in(1) [OF q(1)] assms(1) by (simp add: file_ok_def)
  moreover from this have "block_of fs ip l \<in> area fs - frees fs"
    using assms q(2) unfolding file_ok_def tree_ok_def by metis
  ultimately show thesis using that q by blast
qed

text \<open>A leaf is not above another leaf.\<close>

lemma leaf_not_above:
  assumes F: "file_ok fs ip" and p: "lbn_path fs (ip_mode ip) lbn = Some p" and b: "block_of fs ip l \<noteq> 0"
    and k: "k < length p"
  shows "node (slots_of ip) (ent fs) (take k p) \<noteq> block_of fs ip l"
proof
  assume eq: "node (slots_of ip) (ent fs) (take k p) = block_of fs ip l"
  have n: "nindir_ok fs" and T: "tree_ok fs (bpaths fs (ip_mode ip)) (slots_of ip)" using F by (simp_all add: file_ok_def)
  obtain q where q: "lbn_path fs (ip_mode ip) l = Some q" "q \<in> bpaths fs (ip_mode ip)"
      "block_of fs ip l = node (slots_of ip) (ent fs) q" by (rule block_of_leaf [OF F b])
  have "k \<noteq> 0" using eq b by (cases k) auto
  then have ne: "take k p \<noteq> []" using k by auto
  have "take k p @ drop k p \<in> bpaths fs (ip_mode ip)" using lbn_path_in(1) [OF p n] by simp
  then have "take k p \<in> bpaths fs (ip_mode ip)" using path_set_bpaths ne path_set_prefix by blast
  then have "q = take k p" using T q(2,3) eq b unfolding tree_ok_def no_sharing_def by metis
  then have "q = p" using full_path_prefix [OF p q(1) n] by blast
  then show False using \<open>q = take k p\<close> k by (metis length_take min.absorb4 nat_less_le)
qed

lemma mapped_data:
  assumes F: "file_ok fs ip" and p: "lbn_path fs (ip_mode ip) lbn = Some p" and m: "mapped fs ip p b fs' ip'"
    and fit: "spans_fit fs (ip_mode ip)"
  shows "fblock fs' ip' l = fblock fs ip l"
proof -
  have n: "nindir_ok fs" using F by (simp add: file_ok_def)
  have g: "grown fs fs' (bpaths fs (ip_mode ip)) (slots_of ip) (slots_of ip') p"
    and b: "b \<noteq> 0" "node (slots_of ip') (ent fs') p = b"
    using m unfolding mapped_def by blast+
  note d = grownD(4) [OF g]
  note f = mapped_frame [OF F p m]
  have old: "data fs' (block_of fs ip l) = data fs (block_of fs ip l)" if "block_of fs ip l \<noteq> 0" for l
    using leaf_not_above [OF F p that] block_of_leaf [OF F that] by (intro grown_data(1) [OF g]) blast+
  show ?thesis
  proof (cases "l = lbn")
    case False
    then show ?thesis using old f(3) [OF fit False] d by (simp add: fblock_def)
  next
    case True
    have at: "block_of fs ip lbn = node (slots_of ip) (ent fs) p" by (simp add: block_of_def p)
    show ?thesis
    proof (cases "block_of fs ip lbn = 0")
      case z: True
      then show ?thesis using True f(2) b at d grown_data(2) [OF g] by (simp add: fblock_def)
    next
      case nz: False
      have "b = block_of fs ip lbn"
        using g lbn_path_in(1) [OF p n] b(2) nz at unfolding grown_def by metis
      then show ?thesis using True nz old [OF nz] f(2) d by (simp add: fblock_def)
    qed
  qed
qed

lemma bmap_mapped:
  assumes F: "file_ok fs ip" and np: "\<not> bmap_promotes fs ip lbn True" and p: "lbn_path fs (ip_mode ip) lbn = Some p"
  shows "(\<exists>b fs' ip'. filsys_bmap fs ip lbn True = (Inr b, fs', ip') \<and> mapped fs ip p b fs' ip') \<or>
    (\<exists>st. filsys_bmap fs ip lbn True = (Inl ENOSPC, st) \<and> card (frees fs) < length p)"
proof -
  have e: "filsys_bmap fs ip lbn True = bmap_slots fs ip lbn True 0 [0..<d_niaddr (fs_desc fs)]"
    using np by (simp add: filsys_bmap_def)
  have "set [0..<d_niaddr (fs_desc fs)] \<subseteq> {..<d_niaddr (fs_desc fs)}" by auto
  from bmap_slots_create [OF F this p [unfolded lbn_path_def], folded e] show ?thesis .
qed

lemma bmap_create:
  assumes F: "file_ok fs ip" and np: "\<not> bmap_promotes fs ip lbn True" and p: "lbn_path fs (ip_mode ip) lbn = Some p"
    and fit: "spans_fit fs (ip_mode ip)"
  shows "(\<exists>b fs' ip'. filsys_bmap fs ip lbn True = (Inr b, fs', ip') \<and> b \<noteq> 0 \<and> file_ok fs' ip' \<and>
      filsys_bmap fs' ip' lbn False = (Inr b, fs', ip') \<and> frees fs' \<subseteq> frees fs \<and> ip_mode ip' = ip_mode ip \<and>
      (\<forall>l. l \<noteq> lbn \<longrightarrow> fst (filsys_bmap fs' ip' l False) = fst (filsys_bmap fs ip l False))) \<or>
    (\<exists>st. filsys_bmap fs ip lbn True = (Inl ENOSPC, st) \<and> card (frees fs) < length p)"
proof -
  from bmap_mapped [OF F np p] show ?thesis
  proof (elim disjE exE conjE)
    fix b fs' ip' assume r: "filsys_bmap fs ip lbn True = (Inr b, fs', ip')" and m: "mapped fs ip p b fs' ip'"
    note f = mapped_frame [OF F p m]
    have "b \<noteq> 0" "frees fs' \<subseteq> frees fs" "ip_mode ip' = ip_mode ip"
      using m unfolding mapped_def grown_def by auto
    then show ?thesis using r f(1,2) f(3) [OF fit] bmap_lookup [OF F] bmap_lookup [OF f(1)] by auto
  qed blast
qed

end

section \<open>How many blocks an inode can address\<close>

text \<open>
  The address slots of the editions: direct slots followed by a single, a double and a triple
  indirect one, or, where a mode bit turns them, slots that are all direct or all indirect.
\<close>

definition slot_layout :: "filsys_desc \<Rightarrow> bool" where
  "slot_layout d \<longleftrightarrow> (if d_ilarg_mask d = 0 then d_niaddr d = d_ndaddr d + 3
     else d_niaddr d = d_ndaddr d \<and> d_niaddr d = d_large_single d + d_large_double d)"

text \<open>The number of blocks, in closed form.\<close>

definition file_capacity :: "filsys_desc \<Rightarrow> u32 \<Rightarrow> nat" where
  "file_capacity d mode =
     (let n = d_nindir d in
      if d_ilarg_mask d = 0 then d_ndaddr d + n + n ^ 2 + n ^ 3
      else if mode AND d_ilarg_mask d = 0 then d_ndaddr d
      else d_large_single d * n + d_large_double d * n ^ 2)"

lemma sum_list_const: "(\<And>x. x \<in> set xs \<Longrightarrow> f x = c) \<Longrightarrow> sum_list (map f xs) = length xs * (c :: nat)"
  by (induction xs) auto

lemma slots_total:
  assumes "slot_layout (fs_desc fs)"
  shows "sum_list (map (nat_span fs mode) [0..<d_niaddr (fs_desc fs)]) = file_capacity (fs_desc fs) mode"
proof -
  let ?d = "fs_desc fs" and ?n = "fs_nindir fs"
  consider "d_ilarg_mask ?d = 0" | "d_ilarg_mask ?d \<noteq> 0" "mode AND d_ilarg_mask ?d = 0" | "d_ilarg_mask ?d \<noteq> 0" "mode AND d_ilarg_mask ?d \<noteq> 0"
    by blast
  then show ?thesis
  proof cases
    case 1
    have "sum_list (map (nat_span fs mode) [0..<d_ndaddr ?d]) = length [0..<d_ndaddr ?d] * 1"
      by (rule sum_list_const) (simp add: nat_span_def slot_depth_def filsys_slot_level_def 1)
    then show ?thesis
      using 1 assms by (simp add: slot_layout_def file_capacity_def numeral_3_eq_3 nat_span_def slot_depth_def filsys_slot_level_def
          power2_eq_square Let_def)
  next
    case 2
    have "sum_list (map (nat_span fs mode) [0..<d_ndaddr ?d]) = length [0..<d_ndaddr ?d] * 1"
      by (rule sum_list_const) (simp add: nat_span_def slot_depth_def filsys_slot_level_def 2)
    then show ?thesis using 2 assms by (simp add: slot_layout_def file_capacity_def Let_def)
  next
    case 3
    let ?s = "d_large_single ?d" and ?t = "d_large_double ?d"
    have "sum_list (map (nat_span fs mode) [0..<?s]) = length [0..<?s] * ?n"
      by (rule sum_list_const) (simp add: nat_span_def slot_depth_def filsys_slot_level_def 3)
    moreover have "sum_list (map (nat_span fs mode) [?s..<?s + ?t]) = length [?s..<?s + ?t] * ?n ^ 2"
      by (rule sum_list_const) (simp add: nat_span_def slot_depth_def filsys_slot_level_def 3)
    moreover have "[0..<d_niaddr ?d] = [0..<?s] @ [?s..<?s + ?t]"
    proof -
      have "d_niaddr ?d = ?s + ?t" using 3 assms unfolding slot_layout_def by presburger
      then show ?thesis using upt_add_eq_append [of 0 ?s ?t] by simp
    qed
    ultimately show ?thesis using 3 by (simp add: file_capacity_def Let_def)
  qed
qed

lemma bmap_path_none:
  assumes "nindir_ok fs" "unat base + sum_list (map (nat_span fs mode) slots) < 2 ^ 32"
  shows "bmap_path fs mode lbn base slots = None \<longleftrightarrow>
    slots = [] \<or> unat base + sum_list (map (nat_span fs mode) slots) \<le> unat lbn"
  using assms(2)
proof (induction slots arbitrary: base)
  case (Cons s slots)
  let ?sp = "level_span fs (filsys_slot_level fs mode s)"
  have sp: "unat ?sp = nat_span fs mode s" using Cons.prems by (intro level_span_nat [OF _ assms(1)]) simp
  have bs: "unat (base + ?sp) = unat base + nat_span fs mode s"
    using Cons.prems by (simp add: unat_word_ariths sp take_bit_nat_eq_self unat_plus_simple)
  show ?case
  proof (cases "slots = []")
    case True
    then show ?thesis by (simp add: Let_def word_less_nat_alt bs not_less)
  next
    case False
    then show ?thesis using Cons.IH [of "base + ?sp"] Cons.prems by (auto simp: Let_def word_less_nat_alt bs)
  qed
qed simp

lemma lbn_path_none:
  assumes "nindir_ok fs" "slot_layout (fs_desc fs)" "file_capacity (fs_desc fs) mode < 2 ^ 32"
  shows "lbn_path fs mode lbn = None \<longleftrightarrow> file_capacity (fs_desc fs) mode \<le> unat lbn"
proof -
  have "d_niaddr (fs_desc fs) = 0 \<Longrightarrow> file_capacity (fs_desc fs) mode = 0"
    using slots_total [OF assms(2), of mode] by simp
  then show ?thesis
    using bmap_path_none [OF assms(1), of 0 mode "[0..<d_niaddr (fs_desc fs)]" lbn] assms(3)
    by (auto simp: lbn_path_def slots_total [OF assms(2)])
qed

lemma spans_fit_capacity: "slot_layout (fs_desc fs) \<Longrightarrow> spans_fit fs mode \<longleftrightarrow> file_capacity (fs_desc fs) mode < 2 ^ 32"
  by (simp add: spans_fit_def slots_total)

text \<open>A block past them is refused before anything is allocated.\<close>

lemma bmap_slots_efbig:
  "bmap_path fs (ip_mode ip) lbn base slots = None \<Longrightarrow> bmap_slots fs ip lbn True base slots = (Inl EFBIG, fs, ip)"
  by (induction slots arbitrary: base) (auto simp: Let_def split: if_splits)

lemma bmap_efbig:
  assumes "\<not> bmap_promotes fs ip lbn True" and "lbn_path fs (ip_mode ip) lbn = None"
  shows "filsys_bmap fs ip lbn True = (Inl EFBIG, fs, ip)"
  using assms bmap_slots_efbig by (simp add: filsys_bmap_def lbn_path_def)

end
