(* ===== verification/Blocktree_Stores.thy ===== *)
theory Blocktree_Stores
  imports Blocktree_Map
begin

text \<open>
  Each allocator of the program together with its backend's block layer meets the contract
  \<open>tree_store\<close>: the free list and the bitmap of the V7 engine, the bitmap of V1 and the word
  blocks of the PDP-7.
\<close>

section \<open>Entries of an indirect block\<close>

definition ind_layout :: "filsys_edition \<Rightarrow> bool" where
  "ind_layout fs \<longleftrightarrow> d_word (fs_desc fs) = None \<and> (d_daddr_wid (fs_desc fs) = 2 \<or> d_daddr_wid (fs_desc fs) = 4) \<and>
     d_daddr_wid (fs_desc fs) * fs_nindir fs \<le> d_bsize (fs_desc fs)"

definition blk_ent :: "filsys_edition \<Rightarrow> u32 \<Rightarrow> nat \<Rightarrow> u32" where
  "blk_ent fs b i = v7_ind_get fs (blk_data fs b) i"

lemma ind_get_v7: "ind_layout fs \<Longrightarrow> ind_get fs buf i = v7_ind_get fs buf i"
  and ind_put_v7: "ind_layout fs \<Longrightarrow> ind_put fs buf i v = v7_ind_put fs buf i v"
  by (simp_all add: ind_get_def ind_put_def ind_layout_def)

lemma u16_back: "(v :: u32) < 65536 \<Longrightarrow> ucast (ucast (v AND 0xFFFF) :: u16) = v"
  using less_mask_take_bit_u16 [of v]
  by (simp add: ucast_ucast_eq_take_bit_u16 mask_numerals take_bit_eq_mask [symmetric])

lemma ind_slot: "j < n \<Longrightarrow> w * n \<le> b \<Longrightarrow> w * j + w \<le> (b::nat)"
  by (metis Suc_leI add.commute le_trans mult_Suc_right mult_le_mono2)

lemma v7_ind_get_put:
  assumes "ind_layout fs" "length p = d_bsize (fs_desc fs)" "i < fs_nindir fs" "j < fs_nindir fs"
    and "d_daddr_wid (fs_desc fs) = 2 \<longrightarrow> v < 65536"
  shows "v7_ind_get fs (v7_ind_put fs p i v) j = (if j = i then v else v7_ind_get fs p j)"
proof (cases "d_daddr_wid (fs_desc fs) = 2")
  case True
  have "2 * i + 2 \<le> length p" using assms(1-3) True by (auto simp: ind_layout_def intro: ind_slot)
  moreover have "2 * j + 2 \<le> 2 * i \<or> 2 * i + 2 \<le> 2 * j" if "j \<noteq> i" using that by linarith
  ultimately show ?thesis
    using True assms(5) by (cases "j = i") (simp_all add: v7_ind_get_def v7_ind_put_def le16.get_put le16.get_put_other u16_back)
next
  case False
  then have "d_daddr_wid (fs_desc fs) = 4" using assms(1) by (simp add: ind_layout_def)
  then have "4 * i + 4 \<le> length p" using assms(1-3) by (auto simp: ind_layout_def intro: ind_slot)
  moreover have "4 * j + 4 \<le> 4 * i \<or> 4 * i + 4 \<le> 4 * j" if "j \<noteq> i" using that by linarith
  ultimately show ?thesis
    using False by (cases "j = i") (simp_all add: v7_ind_get_def v7_ind_put_def bo32.get_put bo32.get_put_other)
qed

lemma length_v7_ind_put [simp]: "length (v7_ind_put fs p i v) = length p"
  by (simp add: v7_ind_put_def le16.length_put bo32.length_put)

lemma v7_ind_get_cong: "fs_desc fs' = fs_desc fs \<Longrightarrow> v7_ind_get fs' = v7_ind_get fs"
  by (simp add: v7_ind_get_def fun_eq_iff)

lemma v7_ind_get_zero: "ind_layout fs \<Longrightarrow> i < fs_nindir fs \<Longrightarrow> v7_ind_get fs (replicate (d_bsize (fs_desc fs)) 0) i = 0"
proof -
  assume l: "ind_layout fs" and i: "i < fs_nindir fs"
  then have "d_daddr_wid (fs_desc fs) * i + d_daddr_wid (fs_desc fs) \<le> d_bsize (fs_desc fs)"
    by (auto simp: ind_layout_def intro: ind_slot)
  then show ?thesis
    using l by (cases "d_bo (fs_desc fs)")
      (auto simp: v7_ind_get_def ind_layout_def bo_get16le_def bo_get32le_def bo_get32be_def bo_get32me_def bo_get16le_def)
qed

section \<open>The V7 engine\<close>

definition v7_engine :: "filsys_edition \<Rightarrow> bool" where
  "v7_engine fs \<longleftrightarrow> ind_layout fs \<and> d_ops (fs_desc fs) \<in> {Some V7fs_ops, Some V6fs_ops, Some Bsd211fs_ops}"

lemma v7_engine_io:
  assumes "v7_engine fs"
  shows "ops_read_block fs b = v7fs_read_block fs b" "ops_write_block fs b buf = v7fs_write_block fs b buf"
  using assms by (auto simp: v7_engine_def ops_read_block_def ops_write_block_def)

lemma v7_engine_cong: "fs_desc fs' = fs_desc fs \<Longrightarrow> v7_engine fs' = v7_engine fs"
  by (simp add: v7_engine_def ind_layout_def)

lemma blk_ent_cong: "fs_desc fs' = fs_desc fs \<Longrightarrow> blk_data fs' c = blk_data fs c \<Longrightarrow> blk_ent fs' c = blk_ent fs c"
  by (simp add: blk_ent_def fun_eq_iff v7_ind_get_def)

text \<open>Entering an address into a block of the image, whatever the allocator.\<close>

lemma blk_put_facts:
  fixes b :: u32
  assumes l: "ind_layout fs" and i: "i < fs_nindir fs" and v: "d_daddr_wid (fs_desc fs) = 2 \<longrightarrow> v < 65536"
  defines "fs' \<equiv> blk_store fs b (v7_ind_put fs (blk_data fs b) i v)"
  shows "j < fs_nindir fs \<Longrightarrow> blk_ent fs' b j = (if j = i then v else blk_ent fs b j)"
    and "c \<noteq> b \<Longrightarrow> blk_ent fs' c = blk_ent fs c"
proof -
  have d: "v7_ind_get fs' = v7_ind_get fs" by (rule v7_ind_get_cong) (simp add: fs'_def)
  show "j < fs_nindir fs \<Longrightarrow> blk_ent fs' b j = (if j = i then v else blk_ent fs b j)"
    using v7_ind_get_put [OF l _ i, where v = v and p = "blk_data fs b"] v
    by (simp add: blk_ent_def d) (simp add: fs'_def)
  show "c \<noteq> b \<Longrightarrow> blk_ent fs' c = blk_ent fs c" by (rule blk_ent_cong) (simp_all add: fs'_def)
qed

subsection \<open>With the free list\<close>

definition fl_store :: "filsys_edition \<Rightarrow> bool" where
  "fl_store fs \<longleftrightarrow> v7_engine fs \<and> d_alloc (fs_desc fs) = Freelist_alloc_ops \<and> (\<exists>bs. fl_inv fs bs)"

lemma fl_inv_store:
  assumes "fl_inv fs bs" "in_data fs b" "b \<notin> set bs"
  shows "fl_inv (blk_store fs b buf) bs"
proof -
  have g: "same_geom fs (blk_store fs b buf)" by simp
  have "flist (blk_store fs b buf) (unat (nfree (fs_fl fs))) (free_cache (fs_fl fs)) bs"
  proof (rule flist_cong [OF g])
    show "blk_data (blk_store fs b buf) c = blk_data fs c" if "c \<in> set bs" for c
      using that assms(3) by (intro blk_data_store_other) auto
  qed (use assms(1) in \<open>simp add: fl_inv_def\<close>)
  moreover have "fl_geom (blk_store fs b buf)"
    using assms same_geom_facts [OF g] by (auto simp: fl_inv_def fl_geom_def Let_def)
  ultimately show ?thesis using assms(1) by (simp add: fl_inv_def)
qed

lemma in_data_ne0: "fl_geom fs \<Longrightarrow> in_data fs b \<Longrightarrow> b \<noteq> 0"
proof -
  assume "fl_geom fs" "in_data fs b"
  then have "2 \<le> v7_data_first fs" "v7_data_first fs \<le> b" by (auto simp: fl_geom_def in_data_def Let_def)
  then have "2 \<le> b" by (rule order_trans)
  then show ?thesis by auto
qed

lemma in_data_width: "fl_geom fs \<Longrightarrow> in_data fs v \<Longrightarrow> d_daddr_wid (fs_desc fs) = 2 \<Longrightarrow> v < 65536"
  unfolding fl_geom_def in_data_def Let_def by (auto intro: less_le_trans)

lemma fl_store_facts:
  assumes "fl_store fs"
  obtains bs where "fl_inv fs bs" "fl_frees fs = set bs" "v7_engine fs" "ind_layout fs" "fl_geom fs"
    "alloc_balloc fs = v7fs_balloc fs" "host_ok fs" "\<not> fs_readonly fs" "\<forall>b. in_data fs b \<longrightarrow> blk_in_image fs b"
proof -
  from assms obtain bs where bs: "fl_inv fs bs" "v7_engine fs" "ind_layout fs" "alloc_balloc fs = v7fs_balloc fs"
    by (auto simp: fl_store_def v7_engine_def alloc_balloc_def)
  moreover have g: "fl_geom fs" using bs(1) by (simp add: fl_inv_def)
  moreover have "host_ok fs" "\<not> fs_readonly fs" "\<forall>b. in_data fs b \<longrightarrow> blk_in_image fs b"
    using g by (auto simp: fl_geom_def Let_def)
  ultimately show thesis using that fl_frees_eq [OF bs(1)] by blast
qed

lemma fl_alloc_tree:
  assumes F: "fl_store fs" and ne: "fl_frees fs \<noteq> {}"
  shows "\<exists>b fs'. alloc_balloc fs = (Inr b, fs') \<and> b \<in> fl_frees fs \<and> fl_store fs' \<and> fl_frees fs' = fl_frees fs - {b} \<and>
      fl_area fs' = fl_area fs \<and> fs_desc fs' = fs_desc fs \<and> (\<forall>i < fs_nindir fs. blk_ent fs' b i = 0) \<and>
      blk_data fs' b = replicate (d_bsize (fs_desc fs)) 0 \<and>
      (\<forall>c \<in> fl_area fs - fl_frees fs. blk_ent fs' c = blk_ent fs c \<and> ops_read_block fs' c = ops_read_block fs c \<and>
        blk_data fs' c = blk_data fs c)"
proof -
  from F obtain bs where bs: "fl_inv fs bs" "fl_frees fs = set bs" and v7: "v7_engine fs" and l: "ind_layout fs"
    and g: "fl_geom fs" and al: "alloc_balloc fs = v7fs_balloc fs"
    and img: "host_ok fs" "\<not> fs_readonly fs" "\<forall>b. in_data fs b \<longrightarrow> blk_in_image fs b"
    by (rule fl_store_facts)
  from ne bs(2) obtain b cs where cs: "bs = b # cs" by (cases bs) auto
  let ?s = "balloc_post fs b"
  note post = balloc_cons [OF bs(1) [unfolded cs]] and data = balloc_post_data [OF bs(1) [unfolded cs]]
  have geom: "same_geom fs ?s" by (rule same_geom_balloc_post)
  then have d: "fs_desc ?s = fs_desc fs" by (simp add: same_geom_def)
  have v7': "v7_engine ?s" using v7 v7_engine_cong [OF d] by simp
  have "fl_store ?s" using F post(2) v7' d by (auto simp: fl_store_def)
  moreover have "fl_frees ?s = fl_frees fs - {b}" "b \<in> fl_frees fs"
    using bs cs fl_frees_eq [OF post(2)] by (auto simp: fl_inv_def)
  moreover have "blk_ent ?s b i = 0" if "i < fs_nindir fs" for i
    using v7_ind_get_zero [OF l that] data by (simp add: blk_ent_def v7_ind_get_cong [OF d])
  moreover have "blk_ent ?s c = blk_ent fs c \<and> ops_read_block ?s c = ops_read_block fs c \<and> blk_data ?s c = blk_data fs c"
    if "c \<in> fl_area fs" "c \<noteq> b" for c
  proof -
    have c: "in_data fs c" "blk_data ?s c = blk_data fs c" using that data by (auto simp: fl_area_def)
    have "host_ok ?s" "blk_in_image ?s c"
      using post(2) c(1) same_geom_facts(2) [OF geom] by (auto simp: fl_inv_def fl_geom_def Let_def)
    then show ?thesis
      using c img read_block_ok [of ?s c] read_block_ok [of fs c] blk_ent_cong [OF d c(2)]
      by (simp add: v7_engine_io [OF v7] v7_engine_io [OF v7'])
  qed
  ultimately show ?thesis using post(1) al d data fl_area_same [OF geom] by (intro exI [of _ b] exI [of _ ?s]) auto
qed

lemma fl_put_tree:
  assumes F: "fl_store fs" and b: "b \<in> fl_area fs - fl_frees fs" and i: "i < fs_nindir fs" and v: "v \<in> fl_area fs"
    and rd: "ops_read_block fs b = Inr buf"
  shows "\<exists>fs'. ops_write_block fs b (ind_put fs buf i v) = (Inr (), fs') \<and> fl_store fs' \<and>
      fl_frees fs' = fl_frees fs \<and> fl_area fs' = fl_area fs \<and> fs_desc fs' = fs_desc fs \<and>
      (\<forall>j < fs_nindir fs. blk_ent fs' b j = (if j = i then v else blk_ent fs b j)) \<and>
      (\<forall>c \<in> fl_area fs. c \<noteq> b \<longrightarrow> blk_ent fs' c = blk_ent fs c \<and> blk_data fs' c = blk_data fs c)"
proof -
  from F obtain bs where bs: "fl_inv fs bs" "fl_frees fs = set bs" and v7: "v7_engine fs" and l: "ind_layout fs"
    and g: "fl_geom fs" and al: "alloc_balloc fs = v7fs_balloc fs"
    and img: "host_ok fs" "\<not> fs_readonly fs" "\<forall>b. in_data fs b \<longrightarrow> blk_in_image fs b"
    by (rule fl_store_facts)
  let ?s = "blk_store fs b (v7_ind_put fs (blk_data fs b) i v)"
  have ib: "in_data fs b" "b \<notin> set bs" using b bs(2) by (auto simp: fl_area_def)
  have buf: "buf = blk_data fs b" using rd img ib read_block_ok [of fs b] by (simp add: v7_engine_io [OF v7])
  have fit: "d_daddr_wid (fs_desc fs) = 2 \<longrightarrow> v < 65536" using in_data_width [OF g] v by (auto simp: fl_area_def)
  have inv': "fl_inv ?s bs" by (rule fl_inv_store [OF bs(1) ib])
  have "fl_store ?s" using F inv' v7_engine_cong [of ?s fs] v7 by (auto simp: fl_store_def)
  moreover have "fl_frees ?s = fl_frees fs" using fl_frees_eq [OF inv'] bs(2) by simp
  moreover have "fl_area ?s = fl_area fs" by (rule fl_area_same) simp
  moreover have "ops_write_block fs b (ind_put fs buf i v) = (Inr (), ?s)"
    using img ib write_block_ok by (simp add: v7_engine_io [OF v7] ind_put_v7 [OF l] buf)
  ultimately show ?thesis
    using blk_put_facts [OF l i fit] by (intro exI [of _ ?s]) simp
qed

interpretation fltree: tree_store fl_store fl_frees fl_area blk_ent blk_data
proof
  fix fs assume F: "fl_store fs"
  then obtain bs where bs: "fl_inv fs bs" "fl_frees fs = set bs" and v7: "v7_engine fs" and l: "ind_layout fs"
    and g: "fl_geom fs" and al: "alloc_balloc fs = v7fs_balloc fs"
    and img: "host_ok fs" "\<not> fs_readonly fs" "\<forall>b. in_data fs b \<longrightarrow> blk_in_image fs b"
    by (rule fl_store_facts)
  show "b \<noteq> 0" if "b \<in> fl_area fs" for b using that in_data_ne0 [OF g] by (simp add: fl_area_def)
  show "fl_frees fs \<subseteq> fl_area fs" using bs flist_in_data by (auto simp: fl_area_def fl_inv_def)
  show "fst (alloc_balloc fs) = Inl ENOSPC" if "fl_frees fs = {}"
    using balloc_nil [of fs] bs that al by auto
  show "\<exists>buf. ops_read_block fs b = Inr buf \<and> (\<forall>i < fs_nindir fs. ind_get fs buf i = blk_ent fs b i)"
    if "b \<in> fl_area fs" for b
    using that img read_block_ok [of fs b] l by (simp add: v7_engine_io [OF v7] fl_area_def ind_get_v7 blk_ent_def)
qed (fact fl_alloc_tree fl_put_tree)+

subsection \<open>With the bitmap of the V8 family\<close>

definition v8_store :: "filsys_edition \<Rightarrow> bool" where
  "v8_store fs \<longleftrightarrow> v7_engine fs \<and> d_alloc (fs_desc fs) = V8_bitmap_alloc_ops \<and> d_daddr_wid (fs_desc fs) = 4 \<and>
     0 < d_bsize (fs_desc fs) \<and> 0 < v8_base fs \<and> v8_inv fs"

lemma v8_taken_data:
  assumes "v8_inv fs" "i < unat (v8_nbits fs)"
  shows "blk_data (v8_taken fs i) (v8_base fs + of_nat i) = replicate (d_bsize (fs_desc fs)) 0"
    "c \<noteq> v8_base fs + of_nat i \<Longrightarrow> blk_data (v8_taken fs i) c = blk_data fs c"
proof -
  have f: "blk_data (s\<lparr>fs_fl := x, fs_fl_dirty := y\<rparr>) c = blk_data s c"
    "blk_data (s\<lparr>v8_bits := m\<rparr>) c = blk_data s c" for s c x y m
    by (simp_all add: blk_data_def blk_off_def)
  show "blk_data (v8_taken fs i) (v8_base fs + of_nat i) = replicate (d_bsize (fs_desc fs)) 0"
    "c \<noteq> v8_base fs + of_nat i \<Longrightarrow> blk_data (v8_taken fs i) c = blk_data fs c"
    by (simp_all add: v8_taken_def Let_def f)
qed

lemma v8_alloc_tree:
  assumes F: "v8_store fs" and ne: "v8_frees fs \<noteq> {}"
  shows "\<exists>b fs'. alloc_balloc fs = (Inr b, fs') \<and> b \<in> v8_frees fs \<and> v8_store fs' \<and> v8_frees fs' = v8_frees fs - {b} \<and>
      v8_area fs' = v8_area fs \<and> fs_desc fs' = fs_desc fs \<and> (\<forall>i < fs_nindir fs. blk_ent fs' b i = 0) \<and>
      blk_data fs' b = replicate (d_bsize (fs_desc fs)) 0 \<and>
      (\<forall>c \<in> v8_area fs - v8_frees fs. blk_ent fs' c = blk_ent fs c \<and> ops_read_block fs' c = ops_read_block fs c \<and>
        blk_data fs' c = blk_data fs c)"
proof -
  have v7: "v7_engine fs" and l: "ind_layout fs" and inv: "v8_inv fs" and al: "alloc_balloc fs = v8_bitmap_balloc fs"
    using F by (auto simp: v8_store_def v7_engine_def alloc_balloc_def)
  obtain i where i: "i < unat (v8_nbits fs)" "bm_test (v8_bits fs) i"
      "v8_bitmap_balloc fs = (Inr (v8_base fs + of_nat i), v8_taken fs i)"
  proof (rule v8_balloc_cases [OF inv])
    assume "v8_frees fs = {}"
    with ne show ?thesis by simp
  qed (rule that)
  let ?b = "v8_base fs + of_nat i" and ?s = "v8_taken fs i"
  have b: "?b \<in> v8_frees fs" using v8_index [OF inv i(1)] i(2) by (simp add: v8_frees_def)
  have d: "fs_desc ?s = fs_desc fs" by simp
  have v7': "v7_engine ?s" using v7 v7_engine_cong [OF d] by simp
  note data = v8_taken_data [OF inv i(1)]
  have inv': "v8_inv ?s" by (rule v8_taken_inv [OF inv i(1)])
  have "v8_store ?s" using F inv' v7' by (simp add: v8_store_def)
  moreover have "blk_ent ?s ?b j = 0" if "j < fs_nindir fs" for j
    using v7_ind_get_zero [OF l that] data(1) by (simp add: blk_ent_def v7_ind_get_cong [OF d])
  moreover have "blk_ent ?s c = blk_ent fs c \<and> ops_read_block ?s c = ops_read_block fs c \<and> blk_data ?s c = blk_data fs c"
    if "c \<in> v8_area fs" "c \<noteq> ?b" for c
  proof -
    have c: "blk_data ?s c = blk_data fs c" by (rule data(2)) (rule that)
    have "host_ok ?s" "host_ok fs" "blk_in_image ?s c" "blk_in_image fs c"
      using inv inv' that by (simp_all add: v8_inv_def)
    then show ?thesis
      using c read_block_ok [of ?s c] read_block_ok [of fs c] blk_ent_cong [OF d c]
      by (simp add: v7_engine_io [OF v7] v7_engine_io [OF v7'])
  qed
  ultimately show ?thesis
    using i(3) al b data(1) v8_frees_taken [OF inv i(1)] by (intro exI [of _ ?b] exI [of _ ?s]) auto
qed

lemma v8_put_tree:
  assumes F: "v8_store fs" and b: "b \<in> v8_area fs - v8_frees fs" and i: "i < fs_nindir fs" and v: "v \<in> v8_area fs"
    and rd: "ops_read_block fs b = Inr buf"
  shows "\<exists>fs'. ops_write_block fs b (ind_put fs buf i v) = (Inr (), fs') \<and> v8_store fs' \<and>
      v8_frees fs' = v8_frees fs \<and> v8_area fs' = v8_area fs \<and> fs_desc fs' = fs_desc fs \<and>
      (\<forall>j < fs_nindir fs. blk_ent fs' b j = (if j = i then v else blk_ent fs b j)) \<and>
      (\<forall>c \<in> v8_area fs. c \<noteq> b \<longrightarrow> blk_ent fs' c = blk_ent fs c \<and> blk_data fs' c = blk_data fs c)"
proof -
  have v7: "v7_engine fs" and l: "ind_layout fs" and inv: "v8_inv fs"
    using F by (auto simp: v8_store_def v7_engine_def)
  have img: "host_ok fs" "\<not> fs_readonly fs" "blk_in_image fs b" using inv b by (auto simp: v8_inv_def)
  let ?s = "blk_store fs b (v7_ind_put fs (blk_data fs b) i v)"
  have buf: "buf = blk_data fs b" using rd img read_block_ok [of fs b] by (simp add: v7_engine_io [OF v7])
  have fit: "d_daddr_wid (fs_desc fs) = 2 \<longrightarrow> v < 65536" using F by (simp add: v8_store_def)
  have same: "v8_area ?s = v8_area fs" "v8_frees ?s = v8_frees fs" by (simp_all add: v8_area_def v8_frees_def)
  have "v8_inv ?s" using inv img unfolding v8_inv_def same by simp
  then have "v8_store ?s" using F v7 v7_engine_cong [of ?s fs] by (simp add: v8_store_def)
  moreover have "ops_write_block fs b (ind_put fs buf i v) = (Inr (), ?s)"
    using img write_block_ok by (simp add: v7_engine_io [OF v7] ind_put_v7 [OF l] buf)
  ultimately show ?thesis
    using blk_put_facts [OF l i fit] same by (intro exI [of _ ?s]) simp
qed

interpretation v8tree: tree_store v8_store v8_frees v8_area blk_ent blk_data
proof
  fix fs assume F: "v8_store fs"
  have v7: "v7_engine fs" and l: "ind_layout fs" and inv: "v8_inv fs" and al: "alloc_balloc fs = v8_bitmap_balloc fs"
    using F by (auto simp: v8_store_def v7_engine_def alloc_balloc_def)
  show "b \<noteq> 0" if "b \<in> v8_area fs" for b
    using that F by (auto simp: v8_area_def v8_store_def)
  show "v8_frees fs \<subseteq> v8_area fs" by (rule v8map.frees_area [OF inv])
  show "fst (alloc_balloc fs) = Inl ENOSPC" if "v8_frees fs = {}"
    unfolding al by (rule v8map.balloc_empty [OF inv that])
  show "\<exists>buf. ops_read_block fs b = Inr buf \<and> (\<forall>i < fs_nindir fs. ind_get fs buf i = blk_ent fs b i)"
    if "b \<in> v8_area fs" for b
    using that inv read_block_ok [of fs b] l by (simp add: v7_engine_io [OF v7] v8_inv_def ind_get_v7 blk_ent_def)
qed (fact v8_alloc_tree v8_put_tree)+

section \<open>V1\<close>

definition v1_store :: "filsys_edition \<Rightarrow> bool" where
  "v1_store fs \<longleftrightarrow> ind_layout fs \<and> d_ops (fs_desc fs) = Some V1fs_ops \<and> d_alloc (fs_desc fs) = Bitmap_alloc_ops \<and>
     0 < v1_data_start (fs_maxino fs) \<and> fs_fsize fs \<le> 65536 \<and> v1_inv fs"

lemma v1_store_io:
  assumes "v1_store fs"
  shows "ops_read_block fs b = v7fs_read_block fs b" "ops_write_block fs b buf = v7fs_write_block fs b buf"
    "alloc_balloc fs = v1fs_balloc fs"
  using assms by (auto simp: v1_store_def ops_read_block_def ops_write_block_def alloc_balloc_def v1_inv_def v1_block_eq)

lemma v1_taken_data:
  assumes "d_bsize (fs_desc fs) = 512"
  shows "blk_data (v1_taken fs b) b = replicate 512 0" "c \<noteq> b \<Longrightarrow> blk_data (v1_taken fs b) c = blk_data fs c"
proof -
  have f: "blk_data (s\<lparr>fs_bm := x\<rparr>) c = blk_data s c" for s c x by (simp add: blk_data_def blk_off_def)
  show "blk_data (v1_taken fs b) b = replicate 512 0" "c \<noteq> b \<Longrightarrow> blk_data (v1_taken fs b) c = blk_data fs c"
    using assms by (simp_all add: v1_taken_def Let_def f)
qed

lemma v1_alloc_tree:
  assumes F: "v1_store fs" and ne: "v1_frees fs \<noteq> {}"
  shows "\<exists>b fs'. alloc_balloc fs = (Inr b, fs') \<and> b \<in> v1_frees fs \<and> v1_store fs' \<and> v1_frees fs' = v1_frees fs - {b} \<and>
      v1_area fs' = v1_area fs \<and> fs_desc fs' = fs_desc fs \<and> (\<forall>i < fs_nindir fs. blk_ent fs' b i = 0) \<and>
      blk_data fs' b = replicate (d_bsize (fs_desc fs)) 0 \<and>
      (\<forall>c \<in> v1_area fs - v1_frees fs. blk_ent fs' c = blk_ent fs c \<and> ops_read_block fs' c = ops_read_block fs c \<and>
        blk_data fs' c = blk_data fs c)"
proof -
  have l: "ind_layout fs" and inv: "v1_inv fs" and bs: "d_bsize (fs_desc fs) = 512"
    using F by (auto simp: v1_store_def v1_inv_def)
  obtain b where b: "b \<in> v1_frees fs" "v1fs_balloc fs = (Inr b, v1_taken fs b)"
    using ne by (rule_tac v1_balloc_cases [OF inv]) auto
  let ?s = "v1_taken fs b"
  have area: "b \<in> v1_area fs" using b(1) by (simp add: v1_frees_def)
  have d: "fs_desc ?s = fs_desc fs" by simp
  note data = v1_taken_data [OF bs, where b = b]
  have inv': "v1_inv ?s" by (rule v1_taken_inv [OF inv area])
  have S: "v1_store ?s" using F inv' by (simp add: v1_store_def ind_layout_def)
  moreover have "blk_ent ?s b j = 0" if "j < fs_nindir fs" for j
    using v7_ind_get_zero [OF l that] data(1) bs by (simp add: blk_ent_def v7_ind_get_cong [OF d])
  moreover have "blk_ent ?s c = blk_ent fs c \<and> ops_read_block ?s c = ops_read_block fs c \<and> blk_data ?s c = blk_data fs c"
    if "c \<in> v1_area fs" "c \<noteq> b" for c
  proof -
    have c: "blk_data ?s c = blk_data fs c" by (rule data(2)) (rule that)
    have "host_ok ?s" "host_ok fs" "blk_in_image ?s c" "blk_in_image fs c"
      using inv inv' that by (simp_all add: v1_inv_def)
    then show ?thesis
      using c read_block_ok [of ?s c] read_block_ok [of fs c] blk_ent_cong [OF d c]
      by (simp add: v1_store_io [OF F] v1_store_io [OF S])
  qed
  ultimately show ?thesis
    using b data(1) bs v1_store_io(3) [OF F] v1_frees_taken [OF inv area] by (intro exI [of _ b] exI [of _ ?s]) auto
qed

lemma v1_put_tree:
  assumes F: "v1_store fs" and b: "b \<in> v1_area fs - v1_frees fs" and i: "i < fs_nindir fs" and v: "v \<in> v1_area fs"
    and rd: "ops_read_block fs b = Inr buf"
  shows "\<exists>fs'. ops_write_block fs b (ind_put fs buf i v) = (Inr (), fs') \<and> v1_store fs' \<and>
      v1_frees fs' = v1_frees fs \<and> v1_area fs' = v1_area fs \<and> fs_desc fs' = fs_desc fs \<and>
      (\<forall>j < fs_nindir fs. blk_ent fs' b j = (if j = i then v else blk_ent fs b j)) \<and>
      (\<forall>c \<in> v1_area fs. c \<noteq> b \<longrightarrow> blk_ent fs' c = blk_ent fs c \<and> blk_data fs' c = blk_data fs c)"
proof -
  have l: "ind_layout fs" and inv: "v1_inv fs" using F by (auto simp: v1_store_def)
  have img: "host_ok fs" "\<not> fs_readonly fs" "blk_in_image fs b" using inv b by (auto simp: v1_inv_def)
  let ?s = "blk_store fs b (v7_ind_put fs (blk_data fs b) i v)"
  have buf: "buf = blk_data fs b" using rd img read_block_ok [of fs b] by (simp add: v1_store_io [OF F])
  have "v < fs_fsize fs" "fs_fsize fs \<le> 65536" using F v by (auto simp: v1_store_def v1_area_def)
  then have fit: "d_daddr_wid (fs_desc fs) = 2 \<longrightarrow> v < 65536" by (auto intro: less_le_trans)
  have same: "v1_area ?s = v1_area fs" "v1_frees ?s = v1_frees fs" by (simp_all add: v1_area_def v1_frees_def)
  have "v1_inv ?s" using inv img unfolding v1_inv_def same by simp
  then have "v1_store ?s" using F by (simp add: v1_store_def ind_layout_def)
  moreover have "ops_write_block fs b (ind_put fs buf i v) = (Inr (), ?s)"
    using img write_block_ok by (simp add: v1_store_io [OF F] ind_put_v7 [OF l] buf)
  ultimately show ?thesis
    using blk_put_facts [OF l i fit] same by (intro exI [of _ ?s]) simp
qed

interpretation v1tree: tree_store v1_store v1_frees v1_area blk_ent blk_data
proof
  fix fs assume F: "v1_store fs"
  have l: "ind_layout fs" and inv: "v1_inv fs" using F by (auto simp: v1_store_def)
  show "b \<noteq> 0" if "b \<in> v1_area fs" for b using that F by (auto simp: v1_area_def v1_store_def)
  show "v1_frees fs \<subseteq> v1_area fs" by (rule v1map.frees_area [OF inv])
  show "fst (alloc_balloc fs) = Inl ENOSPC" if "v1_frees fs = {}"
    unfolding v1_store_io(3) [OF F] by (rule v1map.balloc_empty [OF inv that])
  show "\<exists>buf. ops_read_block fs b = Inr buf \<and> (\<forall>i < fs_nindir fs. ind_get fs buf i = blk_ent fs b i)"
    if "b \<in> v1_area fs" for b
    using that inv read_block_ok [of fs b] l by (simp add: v1_store_io [OF F] v1_inv_def ind_get_v7 blk_ent_def)
qed (fact v1_alloc_tree v1_put_tree)+

section \<open>The PDP-7\<close>

definition p7_ent :: "filsys_edition \<Rightarrow> u32 \<Rightarrow> nat \<Rightarrow> u32" where
  "p7_ent fs b i = wdata fs b ! i"

definition p7_chars :: "filsys_edition \<Rightarrow> u32 \<Rightarrow> byte list" where
  "p7_chars fs b = concat (map word_chars (wdata fs b))"

lemma p7_chars_zero: "wdata fs b = replicate 64 0 \<Longrightarrow> p7_chars fs b = replicate 128 0"
proof -
  have "concat (replicate n [0, 0]) = replicate (2 * n) (0::byte)" for n by (induction n) simp_all
  from this [of 64] show "wdata fs b = replicate 64 0 \<Longrightarrow> p7_chars fs b = replicate 128 0"
    by (simp add: p7_chars_def word_chars_def)
qed

definition p7_store :: "filsys_edition \<Rightarrow> bool" where
  "p7_store fs \<longleftrightarrow> d_ops (fs_desc fs) = Some P7fs_ops \<and> d_alloc (fs_desc fs) = Pdp7_alloc_ops \<and>
     d_word (fs_desc fs) \<noteq> None \<and> fs_nindir fs = 64 \<and> d_bsize (fs_desc fs) = 128 \<and> (\<exists>ns. p7_list fs ns)"

lemma words_encode_get: "i < 64 \<Longrightarrow> word_get c (words_encode c ws) i = take_bit 18 (ws ! i)"
  by (simp add: words_encode_def words_put_all p7word.get_put_all)

lemma wdata_nth_18: "i < 64 \<Longrightarrow> take_bit 18 (wdata fs b ! i) = wdata fs b ! i"
  by (simp add: wdata_def words_decode_def word_get_18)

lemma words_decode_put:
  assumes "i < 64" "take_bit 18 v = v"
  shows "words_decode c (word_put c (words_encode c (wdata fs b)) i v) = (wdata fs b)[i := v]"
proof (rule nth_equalityI)
  fix j assume "j < length (words_decode c (word_put c (words_encode c (wdata fs b)) i v))"
  then have j: "j < 64" by simp
  then show "words_decode c (word_put c (words_encode c (wdata fs b)) i v) ! j = (wdata fs b)[i := v] ! j"
    using assms p7word.get_put [of c "words_encode c (wdata fs b)" i j v]
    by (simp add: words_decode_def words_encode_get wdata_nth_18 nth_list_update)
qed simp

lemma p7_list_store:
  assumes L: "p7_list fs ns" and b: "b \<notin> set (p7_blocks fs ns)" "p7_in_image fs b"
  shows "p7_list (wstore fs b ws) ns" "p7_blocks (wstore fs b ws) ns = p7_blocks fs ns"
proof -
  have "c \<noteq> b" if "c \<in> set ns" for c using that b(1) p7_nodes_in_blocks [of ns fs] by auto
  then have same: "wdata (wstore fs b ws) c = wdata fs c" if "c \<in> set ns" for c using that by simp
  show bl: "p7_blocks (wstore fs b ws) ns = p7_blocks fs ns" by (rule p7_blocks_cong) (rule same)
  have "p7_nodes (wstore fs b ws) h ns = p7_nodes fs h ns" for h by (rule p7_nodes_cong) (rule same)
  then show "p7_list (wstore fs b ws) ns" using L b(2) unfolding p7_list_def bl by simp
qed

lemma p7_balloc_frame:
  assumes L: "p7_list fs ns" "ns \<noteq> []" and r: "p7fs_balloc fs = (Inr b, fs')"
    and c: "c \<notin> set (p7_blocks fs ns)"
  shows "wdata fs' c = wdata fs c" "fs_desc fs' = fs_desc fs"
proof -
  obtain h ms where ns: "ns = h # ms" using L(2) by (cases ns) auto
  have h: "c \<noteq> h" using c by (simp add: ns p7_blocks_Cons)
  have "wdata fs' c = wdata fs c \<and> fs_desc fs' = fs_desc fs"
  proof (cases "entries (wdata fs h) = []")
    case True
    then show ?thesis using p7_balloc_node(1) [OF L(1) [unfolded ns] True] r h by (auto simp: p7_cleared_def)
  next
    case False
    have "c \<noteq> b" using p7_balloc_entry(1,4) [OF L(1) [unfolded ns] False] r c ns by auto
    then show ?thesis using p7_balloc_entry(1) [OF L(1) [unfolded ns] False] r h by (auto simp: p7_cleared_def)
  qed
  then show "wdata fs' c = wdata fs c" "fs_desc fs' = fs_desc fs" by simp_all
qed

lemma p7_store_io:
  assumes "p7_store fs"
  shows "ops_read_block fs b = p7fs_read_block fs b" "ops_write_block fs b buf = p7fs_write_block fs b buf"
    "alloc_balloc fs = p7fs_balloc fs" "ind_get fs buf i = word_get (p7_codec fs) buf i"
    "ind_put fs buf i v = word_put (p7_codec fs) buf i v"
  using assms by (auto simp: p7_store_def ops_read_block_def ops_write_block_def alloc_balloc_def ind_get_def ind_put_def
      p7_ind_get_def p7_ind_put_def)

lemma p7_read_ok:
  "host_ok fs \<Longrightarrow> p7_in_image fs b \<Longrightarrow> p7fs_read_block fs b = Inr (words_encode (p7_codec fs) (wdata fs b))"
  by (simp add: p7fs_read_block_def read_words_ok)

lemma p7_alloc_tree:
  assumes F: "p7_store fs" and ne: "p7_frees fs \<noteq> {}"
  shows "\<exists>b fs'. alloc_balloc fs = (Inr b, fs') \<and> b \<in> p7_frees fs \<and> p7_store fs' \<and> p7_frees fs' = p7_frees fs - {b} \<and>
      p7_area fs' = p7_area fs \<and> fs_desc fs' = fs_desc fs \<and> (\<forall>i < fs_nindir fs. p7_ent fs' b i = 0) \<and>
      p7_chars fs' b = replicate (d_bsize (fs_desc fs)) 0 \<and>
      (\<forall>c \<in> p7_area fs - p7_frees fs. p7_ent fs' c = p7_ent fs c \<and> ops_read_block fs' c = ops_read_block fs c \<and>
        p7_chars fs' c = p7_chars fs c)"
proof -
  from F obtain ns where ns: "p7_list fs ns" by (auto simp: p7_store_def)
  note fr = p7_frees_eq [OF ns]
  have n: "ns \<noteq> []" using ne fr by (auto simp: p7_blocks_def)
  from p7_balloc_post [OF ns n] obtain b fs' ms where
    r: "p7fs_balloc fs = (Inr b, fs')" "b \<in> set (p7_blocks fs ns)" "p7_list fs' ms"
      "set (p7_blocks fs' ms) = set (p7_blocks fs ns) - {b}" "p7_area fs' = p7_area fs" "wdata fs' b = replicate 64 0"
    by blast
  have "0 \<notin> set (p7_blocks fs ns)" using ns p7_area_ne0 unfolding p7_list_def by blast
  from p7_balloc_frame(2) [OF ns n r(1) this] have d: "fs_desc fs' = fs_desc fs" .
  have S: "p7_store fs'" using F r(3) d by (auto simp: p7_store_def)
  have "p7_ent fs' c = p7_ent fs c \<and> ops_read_block fs' c = ops_read_block fs c \<and> p7_chars fs' c = p7_chars fs c" if "c \<in> p7_area fs - p7_frees fs" for c
  proof -
    have w: "wdata fs' c = wdata fs c" using p7_balloc_frame(1) [OF ns n r(1)] that fr by auto
    have "p7_in_image fs c" "p7_in_image fs' c" "host_ok fs" "host_ok fs'"
      using that r(3,5) ns by (auto simp: p7_area_def p7_list_def)
    then show ?thesis using w d by (simp add: p7_store_io [OF F] p7_store_io [OF S] p7_read_ok p7_ent_def p7_chars_def fun_eq_iff)
  qed
  moreover have "p7_ent fs' b i = 0" if "i < fs_nindir fs" for i using that F r(6) by (simp add: p7_ent_def p7_store_def)
  moreover have "p7_chars fs' b = replicate (d_bsize (fs_desc fs)) 0"
    using F p7_chars_zero [OF r(6)] by (simp add: p7_store_def)
  ultimately show ?thesis
    using r S d fr p7_frees_eq [OF r(3)] p7_store_io(3) [OF F] by (intro exI [of _ b] exI [of _ fs']) auto
qed

lemma p7_put_tree:
  assumes F: "p7_store fs" and b: "b \<in> p7_area fs - p7_frees fs" and i: "i < fs_nindir fs" and v: "v \<in> p7_area fs"
    and rd: "ops_read_block fs b = Inr buf"
  shows "\<exists>fs'. ops_write_block fs b (ind_put fs buf i v) = (Inr (), fs') \<and> p7_store fs' \<and>
      p7_frees fs' = p7_frees fs \<and> p7_area fs' = p7_area fs \<and> fs_desc fs' = fs_desc fs \<and>
      (\<forall>j < fs_nindir fs. p7_ent fs' b j = (if j = i then v else p7_ent fs b j)) \<and>
      (\<forall>c \<in> p7_area fs. c \<noteq> b \<longrightarrow> p7_ent fs' c = p7_ent fs c \<and> p7_chars fs' c = p7_chars fs c)"
proof -
  from F obtain ns where ns: "p7_list fs ns" by (auto simp: p7_store_def)
  note fr = p7_frees_eq [OF ns]
  have img: "host_ok fs" "\<not> fs_readonly fs" "p7_in_image fs b" using ns b by (auto simp: p7_list_def p7_area_def)
  have i64: "i < 64" using i F by (simp add: p7_store_def)
  let ?ws = "(wdata fs b)[i := v]" and ?s = "wstore fs b ((wdata fs b)[i := v])"
  have buf: "buf = words_encode (p7_codec fs) (wdata fs b)" using rd img by (simp add: p7_store_io [OF F] p7_read_ok)
  have "ops_write_block fs b (ind_put fs buf i v) = (Inr (), ?s)"
    using img words_decode_put [OF i64 p7_area_18 [OF v]]
    by (simp add: p7_store_io [OF F] p7fs_write_block_def buf write_words_ok)
  moreover have st: "p7_list ?s ns" "p7_blocks ?s ns = p7_blocks fs ns"
    using b fr img(3) by (auto intro!: p7_list_store [OF ns])
  moreover have "p7_store ?s" using F st(1) by (auto simp: p7_store_def)
  moreover have "wdata ?s b = ?ws" by (simp add: wdata_upd_18 p7_area_18 [OF v])
  ultimately show ?thesis
    using i64 F fr p7_frees_eq [OF st(1)]
    by (intro exI [of _ ?s]) (auto simp: p7_ent_def p7_chars_def p7_store_def fun_eq_iff nth_list_update)
qed

interpretation p7tree: tree_store p7_store p7_frees p7_area p7_ent p7_chars
proof
  fix fs assume F: "p7_store fs"
  then obtain ns where ns: "p7_list fs ns" by (auto simp: p7_store_def)
  then have ex: "\<exists>ns. p7_list fs ns" by blast
  show "b \<noteq> 0" if "b \<in> p7_area fs" for b using that by (rule p7_area_ne0)
  show "p7_frees fs \<subseteq> p7_area fs" by (rule p7list.frees_area [OF ex])
  show "fst (alloc_balloc fs) = Inl ENOSPC" if "p7_frees fs = {}"
    unfolding p7_store_io(3) [OF F] by (rule p7list.balloc_empty [OF ex that])
  show "\<exists>buf. ops_read_block fs b = Inr buf \<and> (\<forall>i < fs_nindir fs. ind_get fs buf i = p7_ent fs b i)"
    if "b \<in> p7_area fs" for b
    using that ns F by (auto simp: p7_store_io [OF F] p7_read_ok p7_list_def p7_area_def p7_ent_def words_encode_get
        wdata_nth_18 p7_store_def)
qed (fact p7_alloc_tree p7_put_tree)+

end
