(* ===== verification/Samples.thy ===== *)
theory Samples
  imports Blocktree_Stores
begin

text \<open>
  Concrete mounts for the witnesses: an image of zero bytes on a fault-free host, opened with
  a row of the descriptor table.
\<close>

definition sample_host :: "image \<Rightarrow> nat \<Rightarrow> host" where
  "sample_host im len =
     \<lparr>h_img = im, h_len = len, h_rd_err = (\<lambda>_ _. False), h_wr_short = (\<lambda>_. None), h_nwr = 0,
      h_wlog = [], h_now = 1000000000, h_alloc = (\<lambda>_. True)\<rparr>"

definition sample_fs :: "filsys_desc \<Rightarrow> u16 \<Rightarrow> u32 \<Rightarrow> freelist_state \<Rightarrow> image \<Rightarrow> filsys_edition" where
  "sample_fs d isz fsz fl im =
     \<lparr>fs_desc = d, fs_readonly = False, fs_base = 0, fs_imgsize = unat fsz * d_bsize d,
      fs_isize = isz, fs_fsize = fsz, fs_maxino = 0, fs_freelist = 0, fs_fl = fl,
      fs_bm = \<lparr>freemap_bytes = 0, inodemap_bytes = 0, freemap = [], inodemap = [], bm_tfree = 0, bm_tinode = 0\<rparr>,
      fs_time = 0, fs_m = 1, fs_n = 1, fs_unique = 0, fs_fmod = 1, fs_fl_dirty = False,
      v8_bits = [], v8_nbits = 0, v8_base = 0, v8_nblks = 0, v8_blk_start = 0,
      fs_host = sample_host im (unat fsz * d_bsize d)\<rparr>"

definition sample_fl :: "u16 \<Rightarrow> u32 list \<Rightarrow> u32 \<Rightarrow> freelist_state" where
  "sample_fl n cache tf =
     \<lparr>nfree = n, ninode = 0, free_cache = cache, inode_cache = replicate 100 0, tfree = tf, tinode = 10\<rparr>"

text \<open>A V7 volume of 64 blocks, data from block 4 on, with blocks 10 and 11 free in the cache.\<close>

definition v7_sample :: filsys_edition where
  "v7_sample = sample_fs v7_desc 4 64 (sample_fl 3 ([0, 11, 10] @ replicate 47 0) 2) (\<lambda>_. 0)"

text \<open>The same volume with a single cached block, the head of an empty chain.\<close>

definition v7_chain_sample :: filsys_edition where
  "v7_chain_sample = sample_fs v7_desc 4 64 (sample_fl 1 (10 # replicate 49 0) 1) (\<lambda>_. 0)"

lemma sample_fields [simp]:
  "fs_desc (sample_fs d i f fl im) = d" "fs_readonly (sample_fs d i f fl im) = False"
  "fs_base (sample_fs d i f fl im) = 0" "fs_imgsize (sample_fs d i f fl im) = unat f * d_bsize d"
  "fs_isize (sample_fs d i f fl im) = i" "fs_fsize (sample_fs d i f fl im) = f"
  "fs_fl (sample_fs d i f fl im) = fl" "fs_fmod (sample_fs d i f fl im) = 1"
  "fs_fl_dirty (sample_fs d i f fl im) = False"
  "fs_host (sample_fs d i f fl im) = sample_host im (unat f * d_bsize d)"
  by (simp_all add: sample_fs_def)

lemma sample_fl_fields [simp]:
  "nfree (sample_fl n c t) = n" "ninode (sample_fl n c t) = 0" "free_cache (sample_fl n c t) = c"
  "inode_cache (sample_fl n c t) = replicate 100 0" "tfree (sample_fl n c t) = t" "tinode (sample_fl n c t) = 10"
  by (simp_all add: sample_fl_def)

lemma host_ok_sample: "0 < unat f * d_bsize d \<Longrightarrow> host_ok (sample_fs d i f fl im)"
  by (simp add: host_ok_def sample_host_def)

lemma blk_in_image_sample: "b < f \<Longrightarrow> blk_in_image (sample_fs d i f fl im) b"
proof -
  assume "b < f"
  then have "Suc (unat b) \<le> unat f" by (simp add: word_less_nat_alt)
  then have "Suc (unat b) * d_bsize d \<le> unat f * d_bsize d" by (rule mult_le_mono1)
  then show ?thesis by (simp add: blk_in_image_def blk_off_def)
qed

lemma v7_sample_fields: "fs_desc v7_sample = v7_desc" by (simp add: v7_sample_def)

lemma fl_geom_v7_sample: "fl_geom (sample_fs v7_desc 4 64 fl im)"
proof -
  have "host_ok (sample_fs v7_desc 4 64 fl im)" by (rule host_ok_sample) simp
  then show ?thesis
    by (simp add: fl_geom_def Let_def super_in_image_def super_off_def super_len_def blk_off_def
        v7_data_first_def in_data_def blk_in_image_sample v7_chain_free_off_def fb_free_off_def)
qed

lemma v7_sample_inv: "fl_inv v7_sample [10, 11]"
  by (simp add: v7_sample_def fl_inv_def fl_geom_v7_sample in_data_def v7_data_first_def)

lemma v7_chain_sample_inv: "fl_inv v7_chain_sample [10]"
proof -
  have "blk_data v7_chain_sample 10 = replicate 512 0"
    by (rule nth_equalityI) (simp_all add: v7_chain_sample_def blk_data_def sample_host_def)
  then have "chain_nfree v7_chain_sample (blk_data v7_chain_sample 10) = 0"
    by (simp add: chain_nfree_def v7_chain_sample_def bo_get16me_def bo_get16le_def)
  then show ?thesis
    by (simp add: fl_inv_def) (simp add: v7_chain_sample_def fl_geom_v7_sample in_data_def v7_data_first_def)
qed

section \<open>A file with no blocks\<close>

lemma bpaths_node_empty:
  assumes "ip_addr ip = replicate 13 0" "d_niaddr (fs_desc fs) \<le> 13" "q \<in> bpaths fs (ip_mode ip)"
  shows "node (slots_of ip) M q = 0"
proof -
  obtain s p where q: "q = s # p" "s < 13" using assms(2,3) by (auto simp: bpaths_def)
  then show ?thesis using assms(1) by (cases p) simp_all
qed

lemma v7_sample_engine: "v7_engine (sample_fs v7_desc 4 64 fl im)"
  by (simp add: v7_engine_def ind_layout_def)

lemma v7_sample_store: "fl_store v7_sample"
  unfolding fl_store_def using v7_sample_inv v7_sample_engine by (auto simp: v7_sample_def)

definition empty_file :: filsys_inode where
  "empty_file = (zero_inode 5)\<lparr>ip_mode := 0x81A4\<rparr>"

lemma v7_sample_file: "fltree.file_ok v7_sample empty_file"
proof -
  have d: "fs_desc v7_sample = v7_desc" by (simp add: v7_sample_def)
  have z: "node (slots_of empty_file) M q = 0" if "q \<in> bpaths v7_sample (ip_mode empty_file)" for q M
    using that by (intro bpaths_node_empty [OF _ _ that]) (simp_all add: empty_file_def zero_inode_def d)
  then have "fltree.tree_ok v7_sample (bpaths v7_sample (ip_mode empty_file)) (slots_of empty_file)"
    using v7_sample_store path_set_bpaths idx_ok_bpaths unfolding fltree.tree_ok_def no_sharing_def by simp
  moreover have "length (ip_addr empty_file) = 13" by (simp add: empty_file_def zero_inode_def)
  ultimately show ?thesis by (simp add: fltree.file_ok_def nindir_ok_def d)
qed

lemma v7_slot_level: "fs_desc fs = v7_desc \<Longrightarrow> filsys_slot_level fs mode s = (if s < 10 then -1 else int s - 10)"
  by (simp add: filsys_slot_level_def)

lemma v7_sample_spans: "spans_fit v7_sample mode"
  by (simp add: spans_fit_def nat_span_def slot_depth_def v7_slot_level v7_sample_def upt_rec)

lemma v7_sample_path: "lbn_path v7_sample mode 12 = Some [10, 2]"
proof -
  have d: "fs_desc v7_sample = v7_desc" by (simp add: v7_sample_def)
  show ?thesis
    by (simp add: lbn_path_def d upt_rec v7_slot_level [OF d] level_span_def slot_span_def level_indices_def
        level_leaves_def Let_def)
qed

section \<open>A PDP-7 volume\<close>

text \<open>An RB09 surface whose free list is the lone node 800.\<close>

definition p7_sample :: filsys_edition where
  "p7_sample = (sample_fs (pdp7_desc\<lparr>d_bsize := 256\<rparr>) 0 8000 (sample_fl 0 [] 0) (\<lambda>_. 0))
     \<lparr>fs_desc := pdp7_desc, fs_freelist := 800\<rparr>"

definition empty_p7_file :: filsys_inode where
  "empty_p7_file = (zero_inode 9)\<lparr>ip_mode := 0x2000C\<rparr>"

lemma p7_sample_fields [simp]:
  "fs_desc p7_sample = pdp7_desc" "fs_freelist p7_sample = 800" "fs_readonly p7_sample = False"
  "fs_imgsize p7_sample = 2048000" "fs_base p7_sample = 0" "h_img (fs_host p7_sample) = (\<lambda>_. 0)"
  by (simp_all add: p7_sample_def sample_host_def)

lemma p7_sample_words: "wdata p7_sample b = replicate 64 0"
  by (rule nth_equalityI)
    (simp_all add: wdata_def words_decode_def rb09_get_def bo_get32le_def)

lemma p7_sample_list: "p7_list p7_sample [800]" "p7_blocks p7_sample [800] = [800]"
proof -
  have e: "entries (replicate 64 0) = []" by (simp add: entries_def map_replicate_const)
  show bl: "p7_blocks p7_sample [800] = [800]" by (simp add: p7_blocks_def p7_sample_words e)
  have "host_ok p7_sample" by (simp add: p7_sample_def host_ok_def sample_host_def)
  moreover have "(800::u32) \<in> p7_area p7_sample" by (simp add: p7_area_def p7_in_image_def word_off_def)
  ultimately show "p7_list p7_sample [800]" unfolding p7_list_def bl by (simp add: p7_sample_words)
qed

lemma p7_sample_frees: "p7_frees p7_sample = {800}"
  using p7_frees_eq [OF p7_sample_list(1)] p7_sample_list(2) by simp

lemma p7_sample_file: "p7tree.file_ok p7_sample empty_p7_file"
proof -
  have z: "node (slots_of empty_p7_file) M q = 0" if "q \<in> bpaths p7_sample (ip_mode empty_p7_file)" for q M
    using that by (intro bpaths_node_empty [OF _ _ that]) (simp_all add: empty_p7_file_def zero_inode_def)
  have "p7_store p7_sample" using p7_sample_list(1) by (auto simp: p7_store_def)
  then have "p7tree.tree_ok p7_sample (bpaths p7_sample (ip_mode empty_p7_file)) (slots_of empty_p7_file)"
    using z path_set_bpaths idx_ok_bpaths [of p7_sample] unfolding p7tree.tree_ok_def no_sharing_def by simp
  moreover have "length (ip_addr empty_p7_file) = 13" by (simp add: empty_p7_file_def zero_inode_def)
  ultimately show ?thesis by (simp add: p7tree.file_ok_def nindir_ok_def)
qed

lemma p7_sample_level: "filsys_slot_level p7_sample 0x2000C s = (if s < 7 then -1 else int s - 7)"
  by (simp add: filsys_slot_level_def)

lemma p7_sample_spans: "spans_fit p7_sample (ip_mode empty_p7_file)"
  by (simp add: spans_fit_def nat_span_def slot_depth_def empty_p7_file_def p7_sample_level upt_rec)

lemma p7_sample_path: "lbn_path p7_sample (ip_mode empty_p7_file) 3 = Some [3]"
  by (simp add: lbn_path_def upt_rec empty_p7_file_def p7_sample_level level_span_def Let_def)

section \<open>Inodes of the samples\<close>

lemma sample_ino_geom:
  assumes "0 < unat f * d_bsize d" "512 \<le> d_bsize d" "d_bsize d \<le> 8192" "0 < d_inode_size d"
    "2 * d_inode_size d \<le> d_bsize d" "super_in_image (sample_fs d i f fl im)" "limit (sample_fs d i f fl im) \<le> f"
  shows "ino_geom limit (sample_fs d i f fl im)"
  using assms host_ok_sample [OF assms(1)] blk_in_image_sample
  by (auto simp: ino_geom_def Let_def intro: less_le_trans)

lemma v7_sample_ino_geom: "ino_geom v7_limit v7_sample"
  unfolding v7_sample_def
  by (rule sample_ino_geom) (simp_all add: super_in_image_def super_off_def super_len_def blk_off_def)

lemma v7_sample_itod: "v7_itod v7_sample 5 < v7_limit v7_sample"
  by (simp add: v7_itod_def v7_inopb_def v7_sample_def)

definition v6_sample :: filsys_edition where
  "v6_sample = sample_fs v6_desc 2 64 (sample_fl 1 (0 # replicate 99 0) 0) (\<lambda>_. 0)"

lemma v6_sample_ino_geom: "ino_geom v6_limit v6_sample"
  unfolding v6_sample_def
  by (rule sample_ino_geom) (simp_all add: super_in_image_def super_off_def super_len_def blk_off_def v6_data_start_def)

lemma v6_sample_itod: "v7_itod v6_sample 5 < v6_limit v6_sample"
  by (simp add: v7_itod_def v7_inopb_def v6_sample_def v6_data_start_def)

lemma v7_sample_engine_geom: "engine_geom v7_sample"
  using v7_sample_ino_geom
  by (simp add: engine_geom_def engine_v6_def) (simp add: v7_sample_def v7_inode_layout_def)

text \<open>Every inode record of the zero image decodes to a free inode.\<close>

lemma v7_decode_zero_mode:
  assumes "fs_desc fs = v7_desc" "p ! off = 0" "p ! (off + 1) = 0"
  shows "ip_mode (v7_inode_decode fs ino p off) = 0"
  using assms by (simp add: v7_inode_decode_def Let_def bo_get16me_def bo_get16le_def)

lemma v7_sample_ino_free:
  assumes "ino \<noteq> 0" "v7_itod v7_sample ino < v7_limit v7_sample"
  shows "\<exists>ip. engine_read_inode v7_sample ino = Inr ip \<and> ip_mode ip = 0"
proof -
  let ?p = "blk_data v7_sample (v7_itod v7_sample ino)"
  have d: "fs_desc v7_sample = v7_desc" by (simp add: v7_sample_def)
  have o: "inode_off v7_sample ino + 64 \<le> 512"
    using inode_off_inside [OF v7_sample_ino_geom, of ino] by (simp add: d)
  have z: "?p ! k = 0" if "k < 512" for k
    using that by (simp add: blk_data_def v7_sample_def sample_host_def)
  have "ip_mode (v7_inode_decode v7_sample ino ?p (inode_off v7_sample ino)) = 0"
    using o by (intro v7_decode_zero_mode [OF d] z) simp_all
  then have "\<exists>ip. v7fs_read_inode v7_sample ino = Inr ip \<and> ip_mode ip = 0"
    using v7ino.rd_ok [OF v7_sample_ino_geom assms] unfolding v7_inode_gen by auto
  then show ?thesis by (simp add: engine_read_inode_def d)
qed

text \<open>The sample with inode 3 in the cache: it is handed out at once.\<close>

definition v7_icache_sample :: filsys_edition where
  "v7_icache_sample = with_icache v7_sample 1 (3 # replicate 99 0)"

lemma v7_icache_sample_geom: "engine_geom v7_icache_sample"
proof -
  have e: "v7_icache_sample = sample_fs v7_desc 4 64
      ((sample_fl 3 ([0, 11, 10] @ replicate 47 0) 2)\<lparr>ninode := 1, inode_cache := 3 # replicate 99 0\<rparr>) (\<lambda>_. 0)"
    by (simp add: v7_icache_sample_def with_icache_def v7_sample_def sample_fs_def)
  have "ino_geom v7_limit v7_icache_sample"
    unfolding e by (rule sample_ino_geom) (simp_all add: super_in_image_def super_off_def super_len_def blk_off_def)
  then show ?thesis by (simp add: engine_geom_def engine_v6_def) (simp add: e v7_inode_layout_def)
qed

lemma v7_icache_sample_ialloc: "\<exists>fs'. v7fs_ialloc v7_icache_sample = Some (Inr 3, fs')"
proof -
  have "v7_itod v7_sample 3 < v7_limit v7_sample" by (simp add: v7_itod_def v7_inopb_def v7_sample_def)
  then obtain ip where r: "engine_read_inode v7_sample 3 = Inr ip" "ip_mode ip = 0"
    using v7_sample_ino_free [of 3] by auto
  have m: "\<not> v7_maxinode v7_sample < 3" by (simp add: v7_maxinode_def v7_inopb_def v7_sample_def)
  have l: "\<not> inode_live v7_sample 0" by (simp add: inode_live_def v7_sample_def)
  show ?thesis
    by (subst v7fs_ialloc.simps)
      (simp add: v7_icache_sample_def ialloc_popped r m l ialloc_take_def Let_def del: with_icache_def)
qed

text \<open>A volume of 71984 inodes whose inodes up to 65536 are in use and whose others are free.\<close>

definition wrapped_sample :: filsys_edition where
  "wrapped_sample = sample_fs v7_desc 9000 9100 (sample_fl 1 (replicate 50 0) 0) (\<lambda>i. if i < 8194 * 512 then 1 else 0)"

lemma wrapped_desc [simp]: "fs_desc wrapped_sample = v7_desc" by (simp add: wrapped_sample_def)

lemma wrapped_sample_ino_geom: "ino_geom v7_limit wrapped_sample"
  unfolding wrapped_sample_def
  by (rule sample_ino_geom) (simp_all add: super_in_image_def super_off_def super_len_def blk_off_def)

lemma wrapped_itod: "ino \<noteq> 0 \<Longrightarrow> unat (v7_itod wrapped_sample ino) = (unat ino - 1) div 8 + 2"
  using itod_nat [OF wrapped_sample_ino_geom, of ino] by (simp add: v7_inopb_def unat_minus_one)

lemma wrapped_inode:
  assumes "ino \<noteq> 0" "ino \<le> 71984"
  shows "\<exists>ip. engine_read_inode wrapped_sample ino = Inr ip \<and> (ino_free wrapped_sample ino \<longleftrightarrow> 65536 < ino)"
proof -
  let ?b = "v7_itod wrapped_sample ino"
  let ?p = "blk_data wrapped_sample ?b" and ?o = "inode_off wrapped_sample ino"
  have n: "0 < unat ino" "unat ino \<le> 71984" using assms by (simp_all add: unat_gt_0 word_le_nat_alt)
  then have lim: "?b < v7_limit wrapped_sample"
    using wrapped_itod [OF assms(1)] by (simp add: word_less_nat_alt wrapped_sample_def)
  have o: "?o + 64 \<le> 512" using inode_off_inside [OF wrapped_sample_ino_geom, of ino] by simp
  have p: "?p ! k = (if unat ?b < 8194 then 1 else 0)" if "k < 512" for k
    using that by (simp add: blk_data_def wrapped_sample_def sample_host_def blk_off_def)
  have b: "unat ?b < 8194 \<longleftrightarrow> \<not> 65536 < ino"
    using wrapped_itod [OF assms(1)] n by (simp add: word_less_nat_alt) linarith
  have "ip_mode (v7_inode_decode wrapped_sample ino ?p ?o) = (if 65536 < ino then 0 else 257)"
    using o b by (simp add: v7_inode_decode_def Let_def bo_get16me_def bo_get16le_def p)
  then have "\<exists>ip. v7fs_read_inode wrapped_sample ino = Inr ip \<and> ip_mode ip = (if 65536 < ino then 0 else 257)"
    using v7ino.rd_ok [OF wrapped_sample_ino_geom assms(1) lim] unfolding v7_inode_gen by auto
  then have "\<exists>ip. engine_read_inode wrapped_sample ino = Inr ip \<and> ip_mode ip = (if 65536 < ino then 0 else 257)"
    by (simp add: engine_read_inode_def)
  then show ?thesis by (cases "65536 < ino") (auto simp: ino_free_def inode_live_def)
qed

lemma wrapped_sample_inodes: "inodes_wrapped wrapped_sample"
proof -
  have m: "v7_maxinode wrapped_sample = 71984"
    by (simp add: v7_maxinode_def v7_inopb_def) (simp add: wrapped_sample_def)
  have "\<exists>i. 2 \<le> i \<and> i \<le> 71984 \<and> ino_free wrapped_sample i"
    using wrapped_inode [of 65537] by (intro exI [of _ 65537]) simp
  moreover have "\<not> ino_free wrapped_sample i" if "2 \<le> i" "i < 65536" for i
  proof -
    have "i \<noteq> 0" "i \<le> 71984" "\<not> 65536 < i" using that by (auto simp: word_le_nat_alt word_less_nat_alt)
    then show ?thesis using wrapped_inode [of i] by blast
  qed
  moreover have "\<exists>ip. engine_read_inode wrapped_sample i = Inr ip" if "2 \<le> i" "i \<le> 71984" for i
  proof -
    have "i \<noteq> 0" using that by (auto simp: word_le_nat_alt)
    then show ?thesis using wrapped_inode [of i] that by blast
  qed
  moreover have "length (inode_cache (fs_fl wrapped_sample)) = 100" "ninode (fs_fl wrapped_sample) = 0"
    by (simp_all add: wrapped_sample_def)
  ultimately show ?thesis unfolding inodes_wrapped_def m by simp
qed

section \<open>A V1 volume\<close>

text \<open>512 blocks and 128 inodes, all data blocks and all inodes from 41 on free.\<close>

definition v1_sample :: filsys_edition where
  "v1_sample = (sample_fs v1_desc 0 512 (sample_fl 0 [] 0) (\<lambda>i. if i = 0 then 64 else if i = 66 then 16 else 0))
     \<lparr>fs_maxino := 128,
      fs_bm := \<lparr>freemap_bytes = 64, inodemap_bytes = 16, freemap = replicate 64 0xFF, inodemap = replicate 16 0,
                bm_tfree = 502, bm_tinode = 88\<rparr>\<rparr>"

lemma v1_sample_fields [simp]:
  "fs_desc v1_sample = v1_desc" "fs_readonly v1_sample = False" "fs_base v1_sample = 0"
  "fs_imgsize v1_sample = 262144" "fs_fsize v1_sample = 512" "fs_maxino v1_sample = 128"
  "freemap (fs_bm v1_sample) = replicate 64 0xFF" "inodemap (fs_bm v1_sample) = replicate 16 0"
  "freemap_bytes (fs_bm v1_sample) = 64" "inodemap_bytes (fs_bm v1_sample) = 16"
  "fs_host v1_sample = sample_host (\<lambda>i. if i = 0 then 64 else if i = 66 then 16 else 0) 262144"
  by (simp_all add: v1_sample_def)

lemma v1_sample_host: "host_ok v1_sample"
  by (simp add: host_ok_def sample_host_def)

lemma v1_sample_image: "b < 512 \<Longrightarrow> blk_in_image v1_sample b"
  by (simp add: blk_in_image_def blk_off_def word_less_nat_alt)

lemma v1_sample_start: "v1_data_start 128 = 10"
  by (simp add: v1_data_start_def)

lemma v1_sample_inv: "v1_inv v1_sample"
  using v1_sample_host v1_sample_image by (auto simp: v1_inv_def v1_area_def)

lemma v1_sample_free: "v1_frees v1_sample = {b. 10 \<le> b \<and> b < 512}"
proof -
  have "bm_test (replicate 64 0xFF) (unat b)" if "b < 512" for b :: u32
  proof -
    have "unat b div 8 < 64" using that by (simp add: word_less_nat_alt less_mult_imp_div_less)
    then have "replicate 64 (0xFF :: byte) ! (unat b div 8) = mask 8" by (simp add: mask_eq_exp_minus_1)
    then show ?thesis by (simp add: bm_test_def bit_mask_iff)
  qed
  then show ?thesis by (auto simp: v1_frees_def v1_area_def v1_sample_start)
qed

lemma v1_sample_imap: "v1_imap_wf v1_sample"
  by (simp add: v1_imap_wf_def)

lemma v1_sample_ino: "v1_ino_free v1_sample 41"
  by (simp add: v1_ino_free_def)

lemma v1_sample_maps: "v1_maps_wf v1_sample" "v1_super_geom v1_sample" "v1_lens_ok v1_sample (v1_super_data v1_sample)"
proof -
  show "v1_maps_wf v1_sample" by (simp add: v1_maps_wf_def Let_def)
  show "v1_super_geom v1_sample" using v1_sample_host v1_sample_image by (simp add: v1_super_geom_def)
  have b: "blk_data v1_sample 0 ! k = (if k = 0 then 64 else if k = 66 then 16 else 0)" if "k < 512" for k
    using that by (simp add: blk_data_def blk_off_def sample_host_def)
  have n: "v1_super_data v1_sample ! k = (if k = 0 then 64 else if k = 66 then 16 else 0)" if "k < 512" for k
    using that b by (simp add: v1_super_data_def nth_append)
  show "v1_lens_ok v1_sample (v1_super_data v1_sample)"
    by (simp add: v1_lens_ok_def bo_get16le_def n) (simp add: v1_super_data_def)
qed

section \<open>A V8 volume\<close>

text \<open>64 blocks of 1024 bytes, the free map covering blocks 8 to 63, with block 20 free.\<close>

definition v8_sample :: filsys_edition where
  "v8_sample = (sample_fs v8_desc 8 64 (sample_fl 0 [] 1) (\<lambda>_. 0))
     \<lparr>v8_bits := (replicate 7 0)[1 := 0x10], v8_nbits := 56, v8_base := 8\<rparr>"

lemma v8_sample_fields [simp]:
  "fs_desc v8_sample = v8_desc" "fs_readonly v8_sample = False" "v8_base v8_sample = 8" "v8_nbits v8_sample = 56"
  "v8_bits v8_sample = (replicate 7 0)[1 := 0x10]"
  by (simp_all add: v8_sample_def)

lemma v8_sample_inv: "v8_inv v8_sample"
proof -
  have "host_ok v8_sample" by (simp add: v8_sample_def host_ok_def sample_host_def)
  moreover have "blk_in_image v8_sample b" if "b < 64" for b
    using blk_in_image_sample [OF that, of v8_desc 8 "sample_fl 0 [] 1" "\<lambda>_. 0"]
    by (simp add: v8_sample_def blk_in_image_def blk_off_def)
  ultimately show ?thesis by (auto simp: v8_inv_def v8_area_def)
qed

lemma v8_sample_free: "20 \<in> v8_frees v8_sample"
  by (simp add: v8_frees_def v8_area_def bm_test_def)

end
