(* ===== verification/Freespace.thy ===== *)
theory Freespace
  imports Backend
begin

text \<open>
  Free space as the checker sees it: walking the free list or the bitmap
  (\<^verbatim>\<open>v7_walk_free\<close>, \<^verbatim>\<open>v8_walk_free_bitmap\<close>), counting it at open
  (\<^verbatim>\<open>v7_count_free\<close>, \<^verbatim>\<open>v6_count_free\<close>) and rebuilding it from the map of used
  blocks (\<^verbatim>\<open>v7fs_makefree\<close> with Coherent's interleave, \<^verbatim>\<open>v6_makefree\<close>,
  \<^verbatim>\<open>v8_makefree_bitmap\<close>).  Rebuilding makes the unmarked blocks the free list, and the walk
  of a sound free list claims exactly its blocks.
\<close>

section \<open>Claiming a free block\<close>

definition ck_err :: "filsys_check \<Rightarrow> filsys_check" where
  "ck_err rep = rep\<lparr>ck_errors := ck_errors rep + 1\<rparr>"

text \<open>A free block already in use is a duplicate; otherwise it is marked and counted.\<close>

definition claim_free :: "nat \<Rightarrow> filsys_chkctx \<Rightarrow> filsys_check \<Rightarrow> filsys_chkctx \<times> filsys_check" where
  "claim_free off cx rep =
     (if bm_test (cx_bmap cx) off
      then (cx\<lparr>cx_dup_blocks := cx_dup_blocks cx + 1\<rparr>, ck_err rep)
      else (cx\<lparr>cx_bmap := bm_set (cx_bmap cx) off\<rparr>, rep\<lparr>ck_free_blocks := ck_free_blocks rep + 1\<rparr>))"

section \<open>Walking the free list\<close>

text \<open>
  One pass of the loop of \<^verbatim>\<open>v7_walk_free\<close>: \<open>n\<close> valid entries in \<open>cur\<close>, the blocks
  \<open>seen\<close>, and \<open>left\<close> passes before the guard trips.  An index past the array is undefined.
\<close>

fun walk_chain :: "nat \<Rightarrow> filsys_edition \<Rightarrow> u16 \<Rightarrow> u32 list \<Rightarrow> u32 set \<Rightarrow> filsys_chkctx \<Rightarrow> filsys_check \<Rightarrow>
    errno + filsys_chkctx \<times> filsys_check" where
  "walk_chain left fs n cur seen cx rep =
     (if n = 0 then Inr (cx, rep)
      else if length cur \<le> unat n - 1 then Inl UB
      else let bno = cur ! (unat n - 1) in
        if bno = 0 then Inr (cx, rep)
        else if bno < v7_data_first fs \<or> fs_fsize fs \<le> bno then Inr (cx, ck_err rep)
        else if bno \<in> seen then Inr (cx, ck_err rep)
        else case claim_free (unat (bno - v7_data_first fs)) cx rep of (cx, rep) \<Rightarrow>
          (case left of
             0 \<Rightarrow> Inr (cx, ck_err rep)
           | Suc left \<Rightarrow>
               if n = 1
               then (case v7fs_read_block fs bno of
                       Inl _ \<Rightarrow> Inr (cx, ck_err rep)
                     | Inr blk \<Rightarrow>
                         if d_nicfree (fs_desc fs) < unat (chain_nfree fs blk) then Inr (cx, ck_err rep)
                         else walk_chain left fs (chain_nfree fs blk) (chain_free fs blk) (insert bno seen) cx rep)
               else walk_chain left fs (n - 1) cur (insert bno seen) cx rep))"

declare walk_chain.simps [simp del]

text \<open>The bitmap walk indexes the map of used blocks by the block number alone.\<close>

definition v8_walk_free_bitmap :: "filsys_edition \<Rightarrow> filsys_chkctx \<Rightarrow> filsys_check \<Rightarrow> errno + filsys_chkctx \<times> filsys_check" where
  "v8_walk_free_bitmap fs cx rep =
     fold_e (\<lambda>i (cx, rep).
         if \<not> bm_test (v8_bits fs) i then Inr (cx, rep)
         else let blk = v8_base fs + of_nat i in
           if blk < v7_data_first fs \<or> fs_fsize fs \<le> blk then Inr (cx, rep)
           else let off = unat (blk - v7_data_first fs) in
             if length (cx_bmap cx) \<le> off div 8 then Inl UB
             else Inr (claim_free off cx rep))
       [0..<unat (v8_nbits fs)] (cx, rep)"

definition v7_walk_free :: "filsys_edition \<Rightarrow> filsys_chkctx \<Rightarrow> filsys_check \<Rightarrow> errno + filsys_chkctx \<times> filsys_check" where
  "v7_walk_free fs cx rep =
     (if d_freemap (fs_desc fs) \<noteq> Freemap_list then v8_walk_free_bitmap fs cx rep
      else if \<not> h_alloc (fs_host fs) (if fs_fsize fs \<noteq> 0 then unat (fs_fsize fs) else 1) then Inr (cx, rep)
      else walk_chain (unat (fs_fsize fs + of_nat (d_nicfree (fs_desc fs)))) fs (nfree (fs_fl fs))
             (free_cache (fs_fl fs)) {} cx rep)"

section \<open>Counting at open\<close>

text \<open>The count of a chain block, in the 32-bit variable of the counting loops.\<close>

definition chain_count :: "filsys_edition \<Rightarrow> byte list \<Rightarrow> u32" where
  "chain_count fs blk =
     (if d_df_nfree_wid (fs_desc fs) = 4 then bo_get32 (d_bo (fs_desc fs)) blk 0
      else ucast (bo_get16 (d_bo (fs_desc fs)) blk 0))"

text \<open>
  The loops count until the list ends or the guard, a 32-bit counter, passes
  \<^verbatim>\<open>fsize + nicfree\<close>.  \<open>None\<close>: the loop does not return.
\<close>

partial_function (option) count_chain ::
    "filsys_edition \<Rightarrow> u32 \<Rightarrow> u32 list \<Rightarrow> u32 \<Rightarrow> u32 \<Rightarrow> (errno + u32) option" where
  "count_chain fs n cur blocks guard =
     (if n = 0 then Some (Inr blocks)
      else if length cur \<le> unat (n - 1) then Some (Inl UB)
      else let bno = cur ! unat (n - 1) in
        if bno = 0 then Some (Inr blocks)
        else let blocks = blocks + 1; stop = fs_fsize fs + of_nat (d_nicfree (fs_desc fs)) < guard + 1 in
          if n = 1
          then (case v7fs_read_block fs bno of
                  Inl _ \<Rightarrow> Some (Inr blocks)
                | Inr blk \<Rightarrow>
                    if of_nat (d_nicfree (fs_desc fs)) < chain_count fs blk then Some (Inr blocks)
                    else if stop then Some (Inr blocks)
                    else count_chain fs (chain_count fs blk) (chain_free fs blk) blocks (guard + 1))
          else if stop then Some (Inr blocks)
          else count_chain fs (n - 1) cur blocks (guard + 1))"

text \<open>
  V6 takes the count of a chain block unchecked; its local array has 100 entries, its blocks
  2-byte addresses.
\<close>

definition v6_chain_free :: "filsys_edition \<Rightarrow> byte list \<Rightarrow> u32 list" where
  "v6_chain_free fs blk =
     map (\<lambda>i. ucast (bo_get16 (d_bo (fs_desc fs)) blk (2 + 2 * i))) [0..<d_nicfree (fs_desc fs)]"

partial_function (option) v6_count_chain ::
    "filsys_edition \<Rightarrow> u32 \<Rightarrow> u32 list \<Rightarrow> u32 \<Rightarrow> u32 \<Rightarrow> (errno + u32) option" where
  "v6_count_chain fs n cur blocks guard =
     (if n = 0 then Some (Inr blocks)
      else if length cur \<le> unat (n - 1) then Some (Inl UB)
      else let bno = cur ! unat (n - 1) in
        if bno = 0 then Some (Inr blocks)
        else let blocks = blocks + 1; stop = fs_fsize fs + of_nat (d_nicfree (fs_desc fs)) < guard + 1 in
          if n = 1
          then (case v7fs_read_block fs bno of
                  Inl _ \<Rightarrow> Some (Inr blocks)
                | Inr blk \<Rightarrow>
                    if stop then Some (Inr blocks)
                    else v6_count_chain fs (ucast (bo_get16 (d_bo (fs_desc fs)) blk 0)) (v6_chain_free fs blk)
                           blocks (guard + 1))
          else if stop then Some (Inr blocks)
          else v6_count_chain fs (n - 1) cur blocks (guard + 1))"

text \<open>The i-list pass: inodes that cannot be read count as free.\<close>

definition live_inodes :: "(u32 \<Rightarrow> errno + filsys_inode) \<Rightarrow> filsys_edition \<Rightarrow> u32 \<Rightarrow> u32" where
  "live_inodes rd fs maxino =
     of_nat (length (filter (\<lambda>i. case rd (of_nat i) of Inl _ \<Rightarrow> False | Inr ip \<Rightarrow> inode_live fs (ucast (ip_mode ip)))
       [1..<Suc (unat maxino)]))"

definition v7_count_free :: "filsys_edition \<Rightarrow> (errno + u32 \<times> u32) option" where
  "v7_count_free fs =
     (case count_chain fs (ucast (nfree (fs_fl fs))) (free_cache (fs_fl fs)) 0 0 of
        None \<Rightarrow> None
      | Some (Inl e) \<Rightarrow> Some (Inl e)
      | Some (Inr blocks) \<Rightarrow>
          Some (Inr (blocks, v7_maxinode fs - live_inodes (v7fs_read_inode fs) fs (v7_maxinode fs))))"

definition v6_count_free :: "filsys_edition \<Rightarrow> (errno + u32 \<times> u32) option" where
  "v6_count_free fs =
     (case v6_count_chain fs (ucast (nfree (fs_fl fs))) (free_cache (fs_fl fs)) 0 0 of
        None \<Rightarrow> None
      | Some (Inl e) \<Rightarrow> Some (Inl e)
      | Some (Inr blocks) \<Rightarrow>
          (let maxino = ucast (fs_isize fs) * 16
           in Some (Inr (blocks, maxino - live_inodes (v6_read_inode fs) fs maxino))))"

section \<open>Rebuilding the free list\<close>

text \<open>Coherent's interleave factors, or the identity when they are absent or invalid.\<close>

definition interleave_pair :: "filsys_edition \<Rightarrow> u32 \<times> u32" where
  "interleave_pair fs =
     (let m = ucast (fs_m fs); n = ucast (fs_n fs) in
      if d_interleave (fs_desc fs) \<and> \<not> (n < 1 \<or> 255 < n \<or> m < 1 \<or> n < m \<or> n mod m \<noteq> 0) then (m, n)
      else (1, 1))"

definition interleave_blk :: "filsys_edition \<Rightarrow> u32 \<Rightarrow> u32" where
  "interleave_blk fs bn =
     (case interleave_pair fs of (m, n) \<Rightarrow>
        let ratio = n div m;
            mapbot = (ucast (fs_isize fs) + n - 1) div n * n;
            maptop = fs_fsize fs div n * n
        in if mapbot \<le> bn \<and> bn < maptop
           then bn div n * n + ((bn mod n) div ratio + (bn mod n) mod ratio * m)
           else bn)"

definition free_step :: "filsys_chkctx \<Rightarrow> u32 \<Rightarrow> filsys_edition \<times> u32 \<Rightarrow> nat \<Rightarrow> filsys_edition \<times> u32" where
  "free_step cx base s bn =
     (case s of (fs, nf) \<Rightarrow>
        let blk = interleave_blk fs (of_nat bn); off = blk - base in
        if cx_nblk cx \<le> off \<or> bm_test (cx_bmap cx) (unat off) then (fs, nf)
        else (v7fs_bfree fs blk, nf + 1))"

definition fl_reset :: "filsys_edition \<Rightarrow> filsys_edition" where
  "fl_reset fs = fs\<lparr>fs_fl := (fs_fl fs)\<lparr>nfree := 0, ninode := 0, tfree := 0, tinode := 0\<rparr>\<rparr>"

definition makefree_list :: "filsys_edition \<Rightarrow> filsys_chkctx \<Rightarrow> u32 \<times> filsys_edition" where
  "makefree_list fs cx =
     (let base = ucast (fs_isize fs);
          (fs, nf) = foldl (free_step cx base) (fl_reset fs, 0) [unat (fs_isize fs)..<unat (fs_fsize fs)];
          fs = fs\<lparr>fs_fl := (fs_fl fs)\<lparr>tinode := v7_maxinode fs -
                 live_inodes (v7fs_read_inode fs) fs (v7_maxinode fs)\<rparr>\<rparr>
      in (nf, snd (v7fs_super_write fs)))"

text \<open>The bitmap forms: the bits are rebuilt from scratch and flushed.\<close>

definition v8_makefree_bitmap :: "filsys_edition \<Rightarrow> filsys_chkctx \<Rightarrow> u32 \<times> filsys_edition" where
  "v8_makefree_bitmap fs cx =
     (let fs = v8_map_geometry fs; n = unat (v8_nbits fs + 7) div 8 in
      if \<not> h_alloc (fs_host fs) n then (0, fs\<lparr>v8_bits := []\<rparr>)
      else let isz = unat (fs_isize fs);
               free = (\<lambda>b. b - isz < unat (cx_nblk cx) \<and> \<not> bm_test (cx_bmap cx) (b - isz));
               blocks = [isz..<unat (fs_fsize fs)];
               bits = foldl (\<lambda>m b. if free b then bm_set m (unat (of_nat b - v8_base fs)) else m)
                        (replicate n 0) blocks;
               nf = of_nat (length (filter free blocks));
               fs = (fl_reset fs)\<lparr>v8_bits := bits\<rparr>;
               fs = fs\<lparr>fs_fl := (fs_fl fs)\<lparr>tfree := nf\<rparr>\<rparr>
           in (nf, snd (v8_bitmap_sync fs)))"

definition v7fs_makefree :: "filsys_edition \<Rightarrow> filsys_chkctx \<Rightarrow> u32 \<times> filsys_edition" where
  "v7fs_makefree fs cx =
     (if d_freemap (fs_desc fs) \<noteq> Freemap_list then v8_makefree_bitmap fs cx else makefree_list fs cx)"

text \<open>
  V6's stride: the offsets below a multiple of 100 in the order the free list takes them.  A
  search that finds no unused offset would not end; with fewer than 100 used there is one.
\<close>

fun v6_adr :: "nat \<Rightarrow> nat \<Rightarrow> nat set \<Rightarrow> nat list" where
  "v6_adr 0 i flg = []"
| "v6_adr (Suc j) i flg =
     (case find (\<lambda>k. k \<notin> flg) (map (\<lambda>k. (i + k) mod 100) [0..<100]) of
        None \<Rightarrow> []
      | Some i \<Rightarrow> Suc i # v6_adr j ((i + 3) mod 100) (insert i flg))"

text \<open>The last block number rounded up to a multiple of 100, in 32 bits.\<close>

definition v6_top :: "filsys_edition \<Rightarrow> nat" where
  "v6_top fs = (let up = (unat (fs_fsize fs - 1) + 99) div 100 * 100 in if up < 2 ^ 32 then up else 0)"

definition v6_order :: "filsys_edition \<Rightarrow> nat list" where
  "v6_order fs = concat (map (\<lambda>k. map (\<lambda>a. 100 * Suc k - a) (v6_adr 100 0 {})) (rev [0..<v6_top fs div 100]))"

definition v6_makefree :: "filsys_edition \<Rightarrow> filsys_chkctx \<Rightarrow> u32 \<times> filsys_edition" where
  "v6_makefree fs cx =
     (let fs = fs\<lparr>fs_fl := (fs_fl fs)\<lparr>nfree := 0, ninode := 0\<rparr>\<rparr>;
          dstart = unat (v6_data_start (ucast (fs_isize fs)));
          blocks = filter (\<lambda>b. dstart \<le> b \<and> b < unat (fs_fsize fs) \<and> \<not> bm_test (cx_bmap cx) (b - dstart)) (v6_order fs)
      in (of_nat (length blocks), snd (v7fs_super_write (foldl v7fs_bfree fs (map of_nat blocks)))))"

section \<open>Freeing a run of blocks\<close>

text \<open>Only the free list and the image change.\<close>

lemma bfree_frame:
  assumes fl: "\<And>s x. f (s\<lparr>fs_fl := x\<rparr>) = f s"
    and host: "\<And>s bs off. f (s\<lparr>fs_host := host_write (fs_host s) bs off\<rparr>) = f s"
  shows "f (v7fs_bfree fs b) = f fs"
proof -
  have wr: "f s' = f s" if w: "v7fs_write_block s c buf = (r, s')" for s c buf r s'
    using write_block_cases [OF w] host by (cases "s' = s") auto
  have push: "f (bfree_push s b) = f s" for s by (simp add: bfree_push_def fl)
  define fs0 where "fs0 = (if nfree (fs_fl fs) = 0
     then fs\<lparr>fs_fl := (fs_fl fs)\<lparr>nfree := 1, free_cache := (free_cache (fs_fl fs))[0 := 0]\<rparr>\<rparr> else fs)"
  have f0: "f fs0 = f fs" by (simp add: fs0_def fl)
  obtain r s where w: "v7fs_write_block fs0 b (chain_block fs0) = (r, s)" by fastforce
  show ?thesis
    unfolding v7fs_bfree_def fs0_def [symmetric] Let_def w
    using wr [OF w] f0 by (cases r) (simp_all add: push fl)
qed

lemma bfree_fold:
  assumes "fl_inv fs bs" "distinct xs" "set xs \<inter> set bs = {}" "\<forall>b \<in> set xs. in_data fs b"
  shows "fl_inv (foldl v7fs_bfree fs xs) (rev xs @ bs)"
    "tfree (fs_fl (foldl v7fs_bfree fs xs)) = tfree (fs_fl fs) + of_nat (length xs)"
    "c \<notin> set xs \<Longrightarrow> blk_data (foldl v7fs_bfree fs xs) c = blk_data fs c"
    "same_geom fs (foldl v7fs_bfree fs xs)"
proof -
  have "fl_inv (foldl v7fs_bfree fs xs) (rev xs @ bs) \<and>
      tfree (fs_fl (foldl v7fs_bfree fs xs)) = tfree (fs_fl fs) + of_nat (length xs) \<and>
      (\<forall>c. c \<notin> set xs \<longrightarrow> blk_data (foldl v7fs_bfree fs xs) c = blk_data fs c) \<and>
      same_geom fs (foldl v7fs_bfree fs xs)"
    using assms
  proof (induction xs arbitrary: fs bs)
    case (Cons x xs)
    have x: "in_data fs x" "x \<notin> set bs" using Cons.prems by auto
    note f = bfree_ok [OF Cons.prems(1) x]
    have "\<forall>b \<in> set xs. in_data (v7fs_bfree fs x) b" using Cons.prems(4) same_geom_facts(2) [OF f(4)] by simp
    then have IH: "fl_inv (foldl v7fs_bfree (v7fs_bfree fs x) xs) (rev xs @ x # bs) \<and>
        tfree (fs_fl (foldl v7fs_bfree (v7fs_bfree fs x) xs)) = tfree (fs_fl (v7fs_bfree fs x)) + of_nat (length xs) \<and>
        (\<forall>c. c \<notin> set xs \<longrightarrow> blk_data (foldl v7fs_bfree (v7fs_bfree fs x) xs) c = blk_data (v7fs_bfree fs x) c) \<and>
        same_geom (v7fs_bfree fs x) (foldl v7fs_bfree (v7fs_bfree fs x) xs)"
      using Cons.prems by (intro Cons.IH [OF f(1)]) auto
    then show ?case using f(2-4) same_geom_trans [OF f(4)] by (auto simp: add.assoc add.commute)
  qed simp
  then show "fl_inv (foldl v7fs_bfree fs xs) (rev xs @ bs)"
    "tfree (fs_fl (foldl v7fs_bfree fs xs)) = tfree (fs_fl fs) + of_nat (length xs)"
    "c \<notin> set xs \<Longrightarrow> blk_data (foldl v7fs_bfree fs xs) c = blk_data fs c"
    "same_geom fs (foldl v7fs_bfree fs xs)" by auto
qed

section \<open>The interleave\<close>

lemma interleave_pair_cases:
  obtains m n where "interleave_pair fs = (m, n)" "0 < unat m" "unat n = unat m * (unat n div unat m)"
    "unat n \<le> 255" "0 < unat n"
proof (cases "interleave_pair fs = (1, 1)")
  case True
  then show ?thesis using that [of 1 1] by simp
next
  case False
  let ?m = "ucast (fs_m fs) :: u32" and ?n = "ucast (fs_n fs) :: u32"
  have v: "\<not> (?n < 1 \<or> 255 < ?n \<or> ?m < 1 \<or> ?n < ?m \<or> ?n mod ?m \<noteq> 0)" and p: "interleave_pair fs = (?m, ?n)"
    using False by (auto simp: interleave_pair_def Let_def split: if_splits)
  have "unat (?n mod ?m) = 0" using v by simp
  then have "unat ?n = unat ?m * (unat ?n div unat ?m)" by (auto simp: unat_mod)
  moreover have "unat ?n \<le> 255" "0 < unat ?n" "0 < unat ?m"
    using v by (auto simp: word_less_nat_alt not_less)
  ultimately show ?thesis using that p by blast
qed

text \<open>The map on natural numbers: within a group of \<open>n\<close> the index \<open>q r + s\<close> goes to \<open>s m + q\<close>.\<close>

definition spread :: "nat \<Rightarrow> nat \<Rightarrow> nat \<Rightarrow> nat" where
  "spread m n i = i div (n div m) + i mod (n div m) * m"

definition ilv :: "nat \<Rightarrow> nat \<Rightarrow> nat \<Rightarrow> nat \<Rightarrow> nat \<Rightarrow> nat" where
  "ilv m n isz fsz b =
     (if (isz + n - 1) div n * n \<le> b \<and> b < fsz div n * n then b div n * n + spread m n (b mod n) else b)"

lemma spread_decode:
  assumes "0 < m" "n = m * (n div m)" "i < n"
  shows "spread m n i < n" "spread m n i mod m = i div (n div m)" "spread m n i div m = i mod (n div m)"
proof -
  let ?r = "n div m"
  have r: "0 < ?r" using assms by (metis gr0I mult_0_right not_less_zero)
  have q: "i div ?r < m" using assms(2,3) r by (metis less_mult_imp_div_less)
  show "spread m n i mod m = i div ?r" "spread m n i div m = i mod ?r" using q by (simp_all add: spread_def)
  have "i div ?r + i mod ?r * m < m + i mod ?r * m" using q by simp
  also have "\<dots> = Suc (i mod ?r) * m" by simp
  also have "\<dots> \<le> ?r * m" using mod_less_divisor [OF r, of i] by (intro mult_le_mono1) simp
  finally show "spread m n i < n" using assms(2) by (simp add: spread_def mult.commute)
qed

lemma ilv_range:
  assumes "0 < m" "n = m * (n div m)" "0 < n" "isz \<le> b" "b < fsz"
  shows "isz \<le> ilv m n isz fsz b" "ilv m n isz fsz b < fsz"
    "(isz + n - 1) div n * n \<le> b \<and> b < fsz div n * n \<Longrightarrow> ilv m n isz fsz b div n = b div n"
proof -
  let ?g = "b div n * n"
  have s: "spread m n (b mod n) < n" using assms(1-3) by (intro spread_decode(1)) simp_all
  have "isz \<le> (isz + n - 1) div n * n"
    using div_mult_mod_eq [of "isz + n - 1" n] mod_less_divisor [OF assms(3), of "isz + n - 1"] assms(3) by linarith
  moreover have "c * n \<le> ?g" if "c * n \<le> b" for c
    using that assms(3) by (intro mult_le_mono1) (simp add: less_eq_div_iff_mult_less_eq)
  moreover have "?g + n \<le> c * n" if "b < c * n" for c
  proof -
    have "b div n < c" using that by (rule less_mult_imp_div_less)
    then have "Suc (b div n) * n \<le> c * n" by (intro mult_le_mono1) simp
    then show ?thesis by simp
  qed
  moreover have "fsz div n * n \<le> fsz" by simp
  ultimately have in_band: "isz \<le> ?g \<and> ?g + n \<le> fsz"
    if "(isz + n - 1) div n * n \<le> b \<and> b < fsz div n * n"
    using that by (meson le_trans)
  then show "isz \<le> ilv m n isz fsz b" "ilv m n isz fsz b < fsz" using s assms(4,5) by (auto simp: ilv_def)
  show "ilv m n isz fsz b div n = b div n" if "(isz + n - 1) div n * n \<le> b \<and> b < fsz div n * n"
    using that s by (simp add: ilv_def)
qed

lemma ilv_perm:
  assumes "0 < m" "n = m * (n div m)" "0 < n"
  shows "inj_on (ilv m n isz fsz) {isz..<fsz}" "ilv m n isz fsz ` {isz..<fsz} = {isz..<fsz}"
proof -
  let ?f = "ilv m n isz fsz" and ?band = "\<lambda>b. (isz + n - 1) div n * n \<le> b \<and> b < fsz div n * n"
  have group: "?band c \<longleftrightarrow> ?band b" if "c div n = b div n" for b c
  proof -
    have "k * n \<le> c \<longleftrightarrow> k * n \<le> b" for k using that assms(3) by (simp flip: less_eq_div_iff_mult_less_eq)
    then show ?thesis by (metis not_le)
  qed
  have out: "?f b = b" if "\<not> ?band b" for b using that unfolding ilv_def by (rule if_not_P)
  have band: "?band (?f b) \<longleftrightarrow> ?band b" if "b \<in> {isz..<fsz}" for b
  proof (cases "?band b")
    case True
    then have "?f b div n = b div n" using ilv_range(3) [OF assms] that by simp
    then show ?thesis by (rule group)
  next
    case False
    then show ?thesis using out [OF False] by metis
  qed
  show inj: "inj_on ?f {isz..<fsz}"
  proof (rule inj_onI)
    fix b c assume bc: "b \<in> {isz..<fsz}" "c \<in> {isz..<fsz}" "?f b = ?f c"
    show "b = c"
    proof (cases "?band b")
      case False
      then have "\<not> ?band c" using band [OF bc(1)] band [OF bc(2)] bc(3) by auto
      then show ?thesis using bc(3) out [OF False] out [of c] by simp
    next
      case True
      then have c: "?band c" using band [OF bc(1)] band [OF bc(2)] bc(3) by auto
      have d: "b div n = c div n"
        using ilv_range(3) [OF assms, of isz b fsz] ilv_range(3) [OF assms, of isz c fsz] bc True c by auto
      then have s: "spread m n (b mod n) = spread m n (c mod n)" using bc(3) True c by (simp add: ilv_def)
      have "b mod n < n" "c mod n < n" using assms(3) by simp_all
      note e = spread_decode(2,3) [OF assms(1,2) this(1)] spread_decode(2,3) [OF assms(1,2) this(2)]
      have "b mod n = c mod n" using e s by (metis div_mult_mod_eq)
      with d show ?thesis by (metis div_mult_mod_eq)
    qed
  qed
  have "?f ` {isz..<fsz} \<subseteq> {isz..<fsz}" using ilv_range [OF assms] by fastforce
  then show "?f ` {isz..<fsz} = {isz..<fsz}" using inj by (intro endo_inj_surj) auto
qed

lemma unat_interleave:
  assumes "interleave_pair fs = (m, n)" "0 < unat m" "unat n = unat m * (unat n div unat m)" "unat n \<le> 255" "0 < unat n"
    and b: "unat (fs_isize fs) \<le> unat b" "b < fs_fsize fs"
  shows "unat (interleave_blk fs b) = ilv (unat m) (unat n) (unat (fs_isize fs)) (unat (fs_fsize fs)) (unat b)"
proof -
  let ?i = "unat (fs_isize fs)" and ?f = "unat (fs_fsize fs)" and ?n = "unat n" and ?m = "unat m" and ?b = "unat b"
  have lim: "?i < 65536" "?f < 2 ^ 32" "?b < ?f" using b(2) by (simp_all add: unat_u16_bound unat_u32_bound word_less_nat_alt)
  have isum: "unat (ucast (fs_isize fs) + n - 1 :: u32) = ?i + ?n - 1"
  proof -
    have s: "unat (ucast (fs_isize fs) + n :: u32) = ?i + ?n" using lim(1) assms(4) by (simp add: unat_word_ariths)
    have "1 \<le> (ucast (fs_isize fs) + n :: u32)" using assms(5) by (simp add: word_le_nat_alt s)
    then show ?thesis by (simp add: unat_sub_le s)
  qed
  have mul: "unat (x div n * n) = unat x div ?n * ?n" for x :: u32
  proof -
    have "unat x div ?n * ?n < 4294967296" by (rule le_less_trans [OF div_times_less_eq_dividend unat_u32_bound])
    then show ?thesis by (simp add: unat_mult_lem [THEN iffD1] unat_div)
  qed
  have sp: "unat ((b mod n) div (n div m) + (b mod n) mod (n div m) * m) = spread ?m ?n (?b mod ?n)"
  proof -
    let ?r = "?n div ?m" and ?k = "?b mod ?n"
    have "spread ?m ?n ?k < ?n" using assms(2,3,5) by (intro spread_decode(1)) simp_all
    then have lt: "?k div ?r + ?k mod ?r * ?m < 256" using assms(4) by (simp add: spread_def)
    then have "?k mod ?r * ?m < 4294967296" by linarith
    then show ?thesis
      using lt by (simp add: unat_add_lem [THEN iffD1] unat_mult_lem [THEN iffD1] unat_div unat_mod spread_def)
  qed
  have band: "((ucast (fs_isize fs) + n - 1) div n * n \<le> b \<and> b < fs_fsize fs div n * n) \<longleftrightarrow>
      ((?i + ?n - 1) div ?n * ?n \<le> ?b \<and> ?b < ?f div ?n * ?n)"
    unfolding word_le_nat_alt word_less_nat_alt mul isum ..
  show ?thesis
  proof (cases "(?i + ?n - 1) div ?n * ?n \<le> ?b \<and> ?b < ?f div ?n * ?n")
    case True
    let ?x = "(b mod n) div (n div m) + (b mod n) mod (n div m) * m"
    have i: "ilv ?m ?n ?i ?f ?b = ?b div ?n * ?n + spread ?m ?n (?b mod ?n)" using True by (simp add: ilv_def)
    moreover have "ilv ?m ?n ?i ?f ?b < 2 ^ 32"
      using ilv_range(2) [OF assms(2,3,5) b(1) lim(3)] lim(2) by simp
    ultimately have "unat (b div n * n) + unat ?x < 2 ^ 32" unfolding mul sp by simp
    then have "unat (b div n * n + ?x) = unat (b div n * n) + unat ?x" by (intro unat_add_lem [THEN iffD1]) simp
    moreover have "interleave_blk fs b = b div n * n + ?x"
      using True band by (simp add: interleave_blk_def assms(1) Let_def)
    ultimately show ?thesis using i by (simp only: mul sp)
  next
    case False
    then show ?thesis using band by (auto simp: interleave_blk_def ilv_def assms(1) Let_def)
  qed
qed

section \<open>The rebuilt free list\<close>

text \<open>The blocks of the data area the map leaves unmarked.\<close>

definition unused :: "filsys_edition \<Rightarrow> filsys_chkctx \<Rightarrow> u32 set" where
  "unused fs cx = {b. in_data fs b \<and> \<not> bm_test (cx_bmap cx) (unat (b - v7_data_first fs))}"

text \<open>A context that covers the data area of the mount.\<close>

definition cx_fits :: "filsys_edition \<Rightarrow> filsys_chkctx \<Rightarrow> bool" where
  "cx_fits fs cx \<longleftrightarrow> cx_nblk cx = fs_fsize fs - v7_data_first fs \<and>
     length (cx_bmap cx) = (unat (cx_nblk cx) + 7) div 8 \<and> v7_data_first fs \<le> fs_fsize fs"

lemma cx_fits_index:
  assumes "cx_fits fs cx" "in_data fs b"
  shows "unat (b - v7_data_first fs) < unat (cx_nblk cx)" "unat (b - v7_data_first fs) div 8 < length (cx_bmap cx)"
proof -
  show "unat (b - v7_data_first fs) < unat (cx_nblk cx)"
    using assms by (simp add: cx_fits_def in_data_def unat_sub_le word_le_nat_alt word_less_nat_alt diff_less_mono)
  then show "unat (b - v7_data_first fs) div 8 < length (cx_bmap cx)"
    using assms(1) by (intro bm_index_in_range) (simp_all add: cx_fits_def)
qed

lemma interleave_frame:
  "fs_desc fs' = fs_desc fs \<Longrightarrow> fs_m fs' = fs_m fs \<Longrightarrow> fs_n fs' = fs_n fs \<Longrightarrow> fs_isize fs' = fs_isize fs \<Longrightarrow>
   fs_fsize fs' = fs_fsize fs \<Longrightarrow> interleave_blk fs' = interleave_blk fs"
  by (simp add: interleave_blk_def interleave_pair_def fun_eq_iff)

lemma interleave_bfree: "interleave_blk (v7fs_bfree fs b) = interleave_blk fs"
  by (intro interleave_frame bfree_frame) simp_all

text \<open>The loop of the rebuild frees the wanted blocks in interleaved order.\<close>

lemma free_steps:
  "foldl (free_step cx base) (fs, nf) bns =
     (let xs = filter (\<lambda>b. \<not> (cx_nblk cx \<le> b - base \<or> bm_test (cx_bmap cx) (unat (b - base))))
        (map (\<lambda>bn. interleave_blk fs (of_nat bn)) bns)
      in (foldl v7fs_bfree fs xs, nf + of_nat (length xs)))"
proof (induction bns arbitrary: fs nf)
  case (Cons bn bns)
  then show ?case by (simp add: free_step_def Let_def interleave_bfree add.assoc add.commute)
qed simp

text \<open>The interleaved order visits every block of the data area once.\<close>

lemma interleaved_blocks:
  assumes "unat (fs_isize fs) \<le> unat (fs_fsize fs)"
  defines "xs \<equiv> map (\<lambda>bn. interleave_blk fs (of_nat bn)) [unat (fs_isize fs)..<unat (fs_fsize fs)]"
  shows "distinct xs" "set xs = {b. ucast (fs_isize fs) \<le> b \<and> b < fs_fsize fs}"
proof -
  let ?i = "unat (fs_isize fs)" and ?f = "unat (fs_fsize fs)"
  obtain m n where p: "interleave_pair fs = (m, n)" "0 < unat m" "unat n = unat m * (unat n div unat m)"
      "unat n \<le> 255" "0 < unat n" by (rule interleave_pair_cases)
  let ?g = "ilv (unat m) (unat n) ?i ?f"
  have u: "unat (of_nat b :: u32) = b" if "b < ?f" for b
    using that unat_u32_bound [of "fs_fsize fs"] by (intro unat_of_nat_lt) simp
  have e: "unat (interleave_blk fs (of_nat b)) = ?g b" if "b \<in> {?i..<?f}" for b
    using unat_interleave [OF p, of "of_nat b"] that u by (simp add: word_less_nat_alt)
  note perm = ilv_perm [OF p(2,3,5), of ?i ?f]
  have ux: "map unat xs = map ?g [?i..<?f]" using e by (simp add: xs_def)
  have "distinct (map ?g [?i..<?f])" using perm(1) by (simp add: distinct_map)
  then show "distinct xs" using ux by (metis distinct_map)
  have "set (map ?g [?i..<?f]) = ?g ` {?i..<?f}" by simp
  then have "unat ` set xs = {?i..<?f}" using ux perm(2) by (metis set_map)
  then show "set xs = {b. ucast (fs_isize fs) \<le> b \<and> b < fs_fsize fs}"
  proof (intro set_eqI iffI CollectI)
    fix b assume S: "unat ` set xs = {?i..<?f}" and "b \<in> {b. ucast (fs_isize fs) \<le> b \<and> b < fs_fsize fs}"
    then have "unat b \<in> unat ` set xs" by (simp add: word_le_nat_alt word_less_nat_alt)
    then show "b \<in> set xs" by (metis imageE word_unat_eq_iff)
  next
    fix b assume S: "unat ` set xs = {?i..<?f}" and "b \<in> set xs"
    then have "unat b \<in> {?i..<?f}" by blast
    then show "ucast (fs_isize fs) \<le> b \<and> b < fs_fsize fs" by (simp add: word_le_nat_alt word_less_nat_alt)
  qed
qed

lemma fl_inv_reset:
  assumes "fl_geom fs" "length (free_cache (fs_fl fs)) = d_nicfree (fs_desc fs)"
    and "d_daddr_wid (fs_desc fs) = 2 \<longrightarrow> (\<forall>b \<in> set (free_cache (fs_fl fs)). b < 65536)"
  shows "fl_inv (fl_reset fs) []"
proof -
  have "fl_geom (fl_reset fs)"
    using fl_geom_same [of fs "fl_reset fs"] assms(1) by (simp add: fl_reset_def fl_geom_def Let_def)
  then show ?thesis using assms(2,3) by (simp add: fl_inv_def fl_reset_def)
qed

text \<open>Writing the superblock keeps the list; a different free-inode total does not matter.\<close>

lemma fl_inv_stored:
  assumes "fl_inv fs bs"
  shows "fl_inv (super_stored fs) bs" "v7fs_super_write fs = (Inr (), super_stored fs)"
proof -
  have g: "fl_geom fs" using assms by (simp add: fl_inv_def)
  then have c: "host_ok fs" "super_in_image fs" "\<not> fs_readonly fs" "512 \<le> d_bsize (fs_desc fs)"
    by (simp_all add: fl_geom_def Let_def)
  have "flist (super_stored fs) (unat (nfree (fs_fl fs))) (free_cache (fs_fl fs)) bs"
    using assms c flist_in_data [of fs] in_data_ge2 [OF g]
    by (intro flist_cong [OF same_geom_refl(4)]) (auto simp: fl_inv_def)
  moreover have "fl_geom (super_stored fs)" using fl_geom_same [OF same_geom_refl(4) _ g] c by simp
  ultimately show "fl_inv (super_stored fs) bs" using assms by (simp add: fl_inv_def)
  show "v7fs_super_write fs = (Inr (), super_stored fs)" using c by (simp add: super_write_ok)
qed

lemma fl_inv_tinode: "fl_inv (fs\<lparr>fs_fl := (fs_fl fs)\<lparr>tinode := x\<rparr>\<rparr>) bs = fl_inv fs bs"
proof -
  have "flist (fs\<lparr>fs_fl := y\<rparr>) k c bs = flist fs k c bs" for y k c
    using flist_cong [of fs "fs\<lparr>fs_fl := y\<rparr>"] flist_cong [of "fs\<lparr>fs_fl := y\<rparr>" fs]
    by (auto simp: same_geom_def)
  moreover have "fl_geom (fs\<lparr>fs_fl := y\<rparr>) = fl_geom fs" for y
    using fl_geom_same [of fs "fs\<lparr>fs_fl := y\<rparr>"] fl_geom_same [of "fs\<lparr>fs_fl := y\<rparr>" fs]
    by (auto simp: same_geom_def fl_geom_def Let_def)
  ultimately show ?thesis by (simp add: fl_inv_def)
qed

lemma makefree_rebuilds:
  assumes g: "fl_geom fs" and c: "length (free_cache (fs_fl fs)) = d_nicfree (fs_desc fs)"
    and l: "d_freemap (fs_desc fs) = Freemap_list" and v7: "\<not> d_isize_count (fs_desc fs)" "d_daddr_wid (fs_desc fs) = 4"
    and cx: "cx_fits fs cx"
  obtains fs' bs where "v7fs_makefree fs cx = (of_nat (length bs), fs')" "fl_inv fs' bs" "set bs = unused fs cx"
    "tfree (fs_fl fs') = of_nat (length bs)" "same_geom fs fs'"
    "\<forall>b. 2 \<le> b \<and> b \<notin> unused fs cx \<longrightarrow> blk_data fs' b = blk_data fs b"
proof -
  let ?i = "ucast (fs_isize fs) :: u32"
  define xs where "xs = filter (\<lambda>b. \<not> (cx_nblk cx \<le> b - ?i \<or> bm_test (cx_bmap cx) (unat (b - ?i))))
     (map (\<lambda>bn. interleave_blk (fl_reset fs) (of_nat bn)) [unat (fs_isize fs)..<unat (fs_fsize fs)])"
  define fs1 where "fs1 = foldl v7fs_bfree (fl_reset fs) xs"
  define fs2 where "fs2 = fs1\<lparr>fs_fl := (fs_fl fs1)\<lparr>tinode := v7_maxinode fs1 - live_inodes (v7fs_read_inode fs1) fs1 (v7_maxinode fs1)\<rparr>\<rparr>"
  have df: "v7_data_first fs = ?i" using v7 by (simp add: v7_data_first_def)
  have le: "unat (fs_isize fs) \<le> unat (fs_fsize fs)" using cx by (simp add: cx_fits_def df word_le_nat_alt)
  have r: "fs_isize (fl_reset fs) = fs_isize fs" "fs_fsize (fl_reset fs) = fs_fsize fs" "same_geom fs (fl_reset fs)"
    "\<And>b. blk_data (fl_reset fs) b = blk_data fs b" by (simp_all add: fl_reset_def)
  note il = interleaved_blocks [of "fl_reset fs", unfolded r(1,2), OF le]
  have in_area: "cx_nblk cx \<le> b - ?i \<longleftrightarrow> False" if "?i \<le> b" "b < fs_fsize fs" for b
    using cx_fits_index(1) [OF cx, of b] that by (simp add: in_data_def df word_le_nat_alt)
  have set_xs: "set xs = unused fs cx"
    unfolding xs_def unused_def in_data_def df set_filter il(2) using in_area by auto
  have dx: "distinct xs" unfolding xs_def using il(1) by (rule distinct_filter)
  have inv0: "fl_inv (fl_reset fs) []" using fl_inv_reset [OF g c] v7 by simp
  have "\<forall>b \<in> set xs. in_data (fl_reset fs) b" unfolding same_geom_facts(2) [OF r(3)] set_xs by (simp add: unused_def)
  note f = bfree_fold [OF inv0 dx _ this, simplified, folded fs1_def]
  have inv2: "fl_inv fs2 (rev xs)" unfolding fs2_def fl_inv_tinode by (rule f(1))
  have g2: "same_geom fs fs2" using f(4) r(3) by (simp add: fs2_def same_geom_def)
  have bs: "512 \<le> d_bsize (fs_desc fs2)" using g g2 by (simp add: fl_geom_def Let_def same_geom_def)
  have "v7fs_makefree fs cx = (of_nat (length (rev xs)), super_stored fs2)"
    using l fl_inv_stored(2) [OF inv2]
    unfolding v7fs_makefree_def makefree_list_def free_steps Let_def xs_def [symmetric] split fs1_def [symmetric] fs2_def [symmetric]
    by simp
  moreover have "tfree (fs_fl (super_stored fs2)) = of_nat (length (rev xs))"
    using f(2) by (simp add: fs2_def fl_reset_def)
  moreover have "blk_data (super_stored fs2) b = blk_data fs b" if "2 \<le> b" "b \<notin> unused fs cx" for b
    using that f(3) [of b] set_xs r(4) bs by (simp add: fs2_def)
  ultimately show thesis
    using that fl_inv_stored(1) [OF inv2] set_xs same_geom_trans [OF g2 same_geom_refl(4)] by (metis set_rev)
qed

section \<open>The walk of a sound free list\<close>

definition claimed :: "filsys_edition \<Rightarrow> filsys_chkctx \<Rightarrow> u32 list \<Rightarrow> filsys_chkctx" where
  "claimed fs cx bs = cx\<lparr>cx_bmap := foldl (\<lambda>m b. bm_set m (unat (b - v7_data_first fs))) (cx_bmap cx) bs\<rparr>"

lemma claimed_bmap:
  assumes "cx_fits fs cx" "\<forall>b \<in> set bs. in_data fs b"
  shows "bm_test (cx_bmap (claimed fs cx bs)) i \<longleftrightarrow>
      bm_test (cx_bmap cx) i \<or> (\<exists>b \<in> set bs. unat (b - v7_data_first fs) = i)"
    "cx_fits fs (claimed fs cx bs)"
  using assms cx_fits_index(2) [OF assms(1)]
  by (simp_all add: claimed_def bm_test_foldl_sets cx_fits_def)

lemma off_inj:
  "in_data fs b \<Longrightarrow> in_data fs c \<Longrightarrow> unat (b - v7_data_first fs) = unat (c - v7_data_first fs) \<Longrightarrow> b = c"
  by (simp add: word_unat_eq_iff [symmetric])

lemma flist_count: "flist fs n c bs \<Longrightarrow> n = 0 \<or> n \<le> length c"
  by (cases bs) auto

lemma walk_chain_claims:
  assumes "fl_geom fs" "flist fs (unat n) c bs" "distinct bs" "set bs \<inter> seen = {}" "length bs \<le> left"
    and "cx_fits fs cx" "\<forall>b \<in> set bs. \<not> bm_test (cx_bmap cx) (unat (b - v7_data_first fs))"
  shows "walk_chain left fs n c seen cx rep =
    Inr (claimed fs cx bs, rep\<lparr>ck_free_blocks := ck_free_blocks rep + of_nat (length bs)\<rparr>)"
  using assms(2-7)
proof (induction bs arbitrary: left n c seen cx rep)
  case Nil
  show ?case
  proof (cases "n = 0")
    case False
    then have "0 < unat n" by (simp add: unat_gt_0)
    then have "\<not> length c \<le> unat n - 1" "c ! (unat n - 1) = 0" using Nil.prems(1) by auto
    then show ?thesis by (simp add: walk_chain.simps [of left] claimed_def Let_def)
  qed (simp add: walk_chain.simps [of left] claimed_def)
next
  case (Cons b bs)
  let ?off = "unat (b - v7_data_first fs)" and ?k = "unat n"
  let ?cx = "cx\<lparr>cx_bmap := bm_set (cx_bmap cx) ?off\<rparr>" and ?rep = "rep\<lparr>ck_free_blocks := ck_free_blocks rep + 1\<rparr>"
  have n: "0 < ?k" "?k \<le> length c" "c ! (?k - 1) = b" "b \<noteq> 0" "in_data fs b" using Cons.prems(1) by auto
  have nz: "n \<noteq> 0" "\<not> length c \<le> ?k - 1" using n(1,2) by auto
  have range: "\<not> (b < v7_data_first fs \<or> fs_fsize fs \<le> b)" using n(5) by (auto simp: in_data_def)
  have fresh: "b \<notin> seen" using Cons.prems(3) by simp
  obtain left' where left: "left = Suc left'" "length bs \<le> left'" using Cons.prems(4) by (cases left) auto
  have cl: "claim_free ?off cx rep = (?cx, ?rep)" using Cons.prems(6) by (simp add: claim_free_def)
  have data: "\<forall>x \<in> set bs. in_data fs x" using flist_in_data [OF Cons.prems(1)] by simp
  have fits: "cx_fits fs ?cx" using Cons.prems(5) by (simp add: cx_fits_def)
  have free: "\<forall>x \<in> set bs. \<not> bm_test (cx_bmap ?cx) (unat (x - v7_data_first fs))"
  proof
    fix x assume x: "x \<in> set bs"
    then have "x \<noteq> b" using Cons.prems(2) by auto
    then have "unat (x - v7_data_first fs) \<noteq> ?off" using off_inj data x n(5) by blast
    then show "\<not> bm_test (cx_bmap ?cx) (unat (x - v7_data_first fs))"
      using Cons.prems(6) x cx_fits_index(2) [OF Cons.prems(5) n(5)] by (simp add: bm_test_set)
  qed
  have res: "claimed fs ?cx bs = claimed fs cx (b # bs)"
    "?rep\<lparr>ck_free_blocks := ck_free_blocks ?rep + of_nat (length bs)\<rparr> =
       rep\<lparr>ck_free_blocks := ck_free_blocks rep + of_nat (length (b # bs))\<rparr>"
    by (simp_all add: claimed_def add.assoc)
  have seen: "set bs \<inter> insert b seen = {}" using Cons.prems(2,3) by auto
  note go = Cons.IH [OF _ _ seen left(2) fits free, of _ _ ?rep, unfolded res]
  show ?case
  proof (cases "?k = 1")
    case True
    have n1: "n = 1" using True by (simp add: word_unat_eq_iff)
    let ?blk = "blk_data fs b"
    have tail: "flist fs (unat (chain_nfree fs ?blk)) (chain_free fs ?blk) bs" using Cons.prems(1) True by auto
    have "\<not> d_nicfree (fs_desc fs) < unat (chain_nfree fs ?blk)" using flist_count [OF tail] by auto
    moreover have "v7fs_read_block fs b = Inr ?blk"
      using assms(1) n(5) by (intro read_block_ok) (auto simp: fl_geom_def Let_def)
    moreover have "walk_chain left' fs (chain_nfree fs ?blk) (chain_free fs ?blk) (insert b seen) ?cx ?rep =
        Inr (claimed fs cx (b # bs), rep\<lparr>ck_free_blocks := ck_free_blocks rep + of_nat (length (b # bs))\<rparr>)"
      using Cons.prems(2) by (intro go [OF tail]) simp
    ultimately show ?thesis
      unfolding left(1) walk_chain.simps [of "Suc left'"] Let_def n(3) using nz range fresh n n1 cl by simp
  next
    case False
    have n1: "n \<noteq> 1" using False by auto
    have "flist fs (unat (n - 1)) c bs" using Cons.prems(1) False nz(1) by (simp add: unat_minus_one)
    from go [OF this] have "walk_chain left' fs (n - 1) c (insert b seen) ?cx ?rep =
        Inr (claimed fs cx (b # bs), rep\<lparr>ck_free_blocks := ck_free_blocks rep + of_nat (length (b # bs))\<rparr>)"
      using Cons.prems(2) by simp
    then show ?thesis
      unfolding left(1) walk_chain.simps [of "Suc left'"] Let_def n(3) using nz range fresh n n1 cl by simp
  qed
qed

text \<open>The list is short enough for the guard, and the walk claims all of it.\<close>

lemma walk_free_claims:
  assumes inv: "fl_inv fs bs" and l: "d_freemap (fs_desc fs) = Freemap_list" and al: "h_alloc (fs_host fs) (unat (fs_fsize fs))"
    and lim: "unat (fs_fsize fs) + d_nicfree (fs_desc fs) < 2 ^ 32"
    and cx: "cx_fits fs cx" "set bs \<subseteq> unused fs cx"
  shows "v7_walk_free fs cx rep =
    Inr (claimed fs cx bs, rep\<lparr>ck_free_blocks := ck_free_blocks rep + of_nat (length bs)\<rparr>)"
proof -
  have f: "fl_geom fs" "distinct bs" "flist fs (unat (nfree (fs_fl fs))) (free_cache (fs_fl fs)) bs"
    using inv by (simp_all add: fl_inv_def)
  have "unat ` set bs \<subseteq> {..<unat (fs_fsize fs)}"
    using flist_in_data [OF f(3)] by (auto simp: in_data_def word_less_nat_alt)
  then have "card (unat ` set bs) \<le> unat (fs_fsize fs)" using card_mono [of "{..<unat (fs_fsize fs)}"] by fastforce
  moreover have "card (unat ` set bs) = length bs"
    using f(2) by (simp add: card_image inj_on_def word_unat_eq_iff [symmetric] distinct_card)
  moreover have "unat (fs_fsize fs + of_nat (d_nicfree (fs_desc fs)) :: u32) = unat (fs_fsize fs) + d_nicfree (fs_desc fs)"
    using lim by (simp add: unat_word_ariths unat_of_nat_lt)
  ultimately have "length bs \<le> unat (fs_fsize fs + of_nat (d_nicfree (fs_desc fs)) :: u32)" by simp
  then have go: "walk_chain (unat (fs_fsize fs + of_nat (d_nicfree (fs_desc fs)) :: u32)) fs (nfree (fs_fl fs))
      (free_cache (fs_fl fs)) {} cx rep = Inr (claimed fs cx bs, rep\<lparr>ck_free_blocks := ck_free_blocks rep + of_nat (length bs)\<rparr>)"
    using cx by (intro walk_chain_claims [OF f(1,3,2)]) (auto simp: unused_def)
  show ?thesis
  proof (cases "fs_fsize fs = 0")
    case True
    then have "bs = []" using flist_in_data [OF f(3), of "bs ! 0"] by (cases bs) (auto simp: in_data_def)
    then show ?thesis using l go by (simp add: v7_walk_free_def claimed_def)
  qed (use l al go in \<open>simp add: v7_walk_free_def\<close>)
qed

section \<open>Counting terminates\<close>

text \<open>
  The guard stops both loops on every image, except when \<^verbatim>\<open>fsize + nicfree\<close> is the largest
  32-bit number, which no counter exceeds.
\<close>

lemma guard_step:
  assumes "guard \<le> lim" "lim \<noteq> (- 1 :: u32)"
  shows "guard + 1 \<le> lim \<Longrightarrow> unat lim - unat (guard + 1) < unat lim - unat guard"
proof -
  assume le: "guard + 1 \<le> lim"
  have "guard \<noteq> - 1" using assms by (metis word_order.extremum_unique)
  then have "unat (guard + 1) = Suc (unat guard)"
    using unatSuc [of guard] by (simp add: add.commute eq_neg_iff_add_eq_0)
  then show ?thesis using le by (simp add: word_le_nat_alt)
qed

lemma count_chain_returns:
  assumes "fs_fsize fs + of_nat (d_nicfree (fs_desc fs)) \<noteq> (- 1 :: u32)"
    and "guard \<le> fs_fsize fs + of_nat (d_nicfree (fs_desc fs))"
  shows "\<exists>r. count_chain fs n cur blocks guard = Some r"
  using assms(2)
proof (induction "unat (fs_fsize fs + of_nat (d_nicfree (fs_desc fs))) - unat guard" arbitrary: guard n cur blocks
    rule: less_induct)
  case less
  let ?lim = "fs_fsize fs + of_nat (d_nicfree (fs_desc fs))"
  have go: "\<exists>r. count_chain fs n' cur' blocks' (guard + 1) = Some r" if "\<not> ?lim < guard + 1" for n' cur' blocks'
    using that less.hyps [of "guard + 1"] guard_step [OF less.prems assms(1)] by (simp add: not_less)
  show ?case
    by (subst count_chain.simps) (auto simp: Let_def intro: go split: sum.split)
qed

lemma v6_count_chain_returns:
  assumes "fs_fsize fs + of_nat (d_nicfree (fs_desc fs)) \<noteq> (- 1 :: u32)"
    and "guard \<le> fs_fsize fs + of_nat (d_nicfree (fs_desc fs))"
  shows "\<exists>r. v6_count_chain fs n cur blocks guard = Some r"
  using assms(2)
proof (induction "unat (fs_fsize fs + of_nat (d_nicfree (fs_desc fs))) - unat guard" arbitrary: guard n cur blocks
    rule: less_induct)
  case less
  let ?lim = "fs_fsize fs + of_nat (d_nicfree (fs_desc fs))"
  have go: "\<exists>r. v6_count_chain fs n' cur' blocks' (guard + 1) = Some r" if "\<not> ?lim < guard + 1" for n' cur' blocks'
    using that less.hyps [of "guard + 1"] guard_step [OF less.prems assms(1)] by (simp add: not_less)
  show ?case
    by (subst v6_count_chain.simps) (auto simp: Let_def intro: go split: sum.split)
qed

section \<open>What a rebuild leaves alone\<close>

lemma super_write_frame:
  assumes host: "\<And>s bs off. f (s\<lparr>fs_host := host_write (fs_host s) bs off\<rparr>) = f s"
    and dirty: "\<And>s d. f (s\<lparr>fs_fl_dirty := d\<rparr>) = f s"
  shows "f (snd (v7fs_super_write fs)) = f fs"
proof -
  have "f s' = f s" if "super_store s sb = (r, s')" for s s' sb r
  proof (cases "d_dyn_bsize (fs_desc s)")
    case True
    with that host show ?thesis by (auto simp: super_store_def io_file_write_def Let_def)
  next
    case False
    then have "v7fs_write_block s 1 sb = (r, s')" using that by (simp add: super_store_def)
    then show ?thesis using write_block_cases [of s 1 sb r s'] host by auto
  qed
  then show ?thesis
    by (auto simp: v7fs_super_write_def try_as_def dirty split: sum.split prod.split)
qed

lemma makefree_frame:
  assumes fl: "\<And>s x. f (s\<lparr>fs_fl := x\<rparr>) = f s"
    and host: "\<And>s bs off. f (s\<lparr>fs_host := host_write (fs_host s) bs off\<rparr>) = f s"
    and dirty: "\<And>s d. f (s\<lparr>fs_fl_dirty := d\<rparr>) = f s"
  shows "f (snd (makefree_list fs cx)) = f fs"
proof -
  have steps: "f (fst (foldl (free_step cx base) (s, nf) bns)) = f s" for base s nf bns
    by (induction bns arbitrary: s nf) (simp_all add: free_step_def Let_def bfree_frame [of f, OF fl host])
  have "f (fl_reset fs) = f fs" by (simp add: fl_reset_def fl)
  with steps show ?thesis
    by (simp add: makefree_list_def Let_def split_beta super_write_frame [of f, OF host dirty] fl)
qed

end
