(* ===== verification/Pdp7fs.thy ===== *)
theory Pdp7fs
  imports Blocktree
begin

text \<open>
  The PDP-7 backend above its word-addressed blocks (\<^verbatim>\<open>pdp7fs.c\<close>): opening, logical
  words of a file, the 12-word inode, directories of eight-word entries, the checker's
  callbacks and the probe.  A C string is the list of its bytes in front of the terminator.
\<close>

section \<open>Logical words of a file\<close>

definition inode_read_word :: "filsys_edition \<Rightarrow> filsys_inode \<Rightarrow> u32 \<Rightarrow> errno + u32" where
  "inode_read_word fs ip woff =
     (case fst (filsys_bmap fs ip (woff div 64) False) of
        Inl _ \<Rightarrow> Inl EIO
      | Inr pbn \<Rightarrow>
          if pbn = 0 then Inr 0
          else case read_words fs pbn of
            Inl _ \<Rightarrow> Inl EIO
          | Inr ws \<Rightarrow> Inr (ws ! unat (woff mod 64)))"

definition inode_write_word :: "filsys_edition \<Rightarrow> filsys_inode \<Rightarrow> u32 \<Rightarrow> u32 \<Rightarrow> unit iop" where
  "inode_write_word fs ip woff val =
     try_as EIO (filsys_bmap fs ip (woff div 64) True)
       (\<lambda>pbn (fs, ip).
          if pbn = 0 then (Inl EIO, fs, ip)
          else case read_words fs pbn of
            Inl _ \<Rightarrow> (Inl EIO, fs, ip)
          | Inr ws \<Rightarrow> (case write_words fs pbn (ws[unat (woff mod 64) := val]) of (r, fs) \<Rightarrow> (r, fs, ip)))"

text \<open>Eight characters, blanks cut off the end; the C string ends at the first zero byte.\<close>

definition unpack_name :: "u32 list \<Rightarrow> byte list" where
  "unpack_name ws = takeWhile (\<lambda>c. c \<noteq> 0) (rev (dropWhile (\<lambda>c. c = 0x20) (rev (concat (map word_chars ws)))))"

section \<open>Opening\<close>

text \<open>The walk over the free list that counts it, at most 8000 nodes long.\<close>

fun p7_count_free :: "nat \<Rightarrow> filsys_edition \<Rightarrow> u32 \<Rightarrow> u32 \<Rightarrow> u32" where
  "p7_count_free 0 fs head n = n"
| "p7_count_free (Suc guard) fs head n =
     (if head = 0 then n
      else case read_words fs head of
        Inl _ \<Rightarrow> n
      | Inr fl \<Rightarrow>
          p7_count_free guard fs (fl ! 0 AND P7_MAXWORD)
            (n + 1 + of_nat (length (filter (\<lambda>i. fl ! i \<noteq> 0) [1..<10]))))"

definition p7fs_open :: "filsys_edition \<Rightarrow> bool \<Rightarrow> filsys_desc \<Rightarrow> nat \<Rightarrow> unit op" where
  "p7fs_open fs ro proto offset =
     (let fs = fs\<lparr>fs_desc := proto, fs_readonly := ro, fs_base := offset\<rparr> in
      if fs_base fs + block_bytes (p7_codec fs) > h_len (fs_host fs) then (Inl EINVAL, fs)
      else let fs = fs\<lparr>fs_imgsize := h_len (fs_host fs)\<rparr> in
        case read_words fs 0 of
          Inl _ \<Rightarrow> (Inl EIO, fs)
        | Inr sb \<Rightarrow>
            let fs = fs\<lparr>fs_freelist := sb ! 0 AND P7_MAXWORD\<rparr>
            in (Inr (), fs\<lparr>fs_fl := (fs_fl fs)\<lparr>tfree := p7_count_free 8000 fs (fs_freelist fs) (tfree (fs_fl fs))\<rparr>\<rparr>))"

section \<open>Inodes\<close>

definition sign18 :: "u32 \<Rightarrow> int" where
  "sign18 v = (let v = v AND P7_MAXWORD in if v AND 0x20000 \<noteq> 0 then uint v - 2 ^ 18 else uint v)"

abbreviation P7_IDIR :: u32 where "P7_IDIR \<equiv> 0x10"
abbreviation P7_ISPEC :: u32 where "P7_ISPEC \<equiv> 0x20"

definition p7_inode_decode :: "u32 \<Rightarrow> u32 list \<Rightarrow> nat \<Rightarrow> filsys_inode" where
  "p7_inode_decode ino ws o' =
     (zero_inode ino)\<lparr>
        ip_mode := ws ! o',
        ip_nlink := of_int (- sign18 (ws ! (o' + 9))),
        ip_uid := of_int (sign18 (ws ! (o' + 8))),
        ip_size := (ws ! (o' + 10)) * 2,
        ip_addr := map (\<lambda>i. ws ! (o' + 1 + i)) [0..<7] @ replicate 6 0\<rparr>"

text \<open>The stored size counts words; a regular file whose last word has a zero low half is one byte shorter.\<close>

definition p7_exact_size :: "filsys_edition \<Rightarrow> filsys_inode \<Rightarrow> filsys_inode" where
  "p7_exact_size fs ip =
     (if ip_mode ip AND (P7_IDIR OR P7_ISPEC) = 0 \<and> 0 < ip_size ip
      then case inode_read_word fs ip (ip_size ip div 2 - 1) of
             Inl _ \<Rightarrow> ip
           | Inr lastw \<Rightarrow> if lastw AND 0x1ff = 0 then ip\<lparr>ip_size := ip_size ip - 1\<rparr> else ip
      else ip)"

definition p7fs_read_inode :: "filsys_edition \<Rightarrow> u32 \<Rightarrow> errno + filsys_inode" where
  "p7fs_read_inode fs ino =
     (if ino = 0 \<or> P7_MAXINO < ino then Inl EINVAL
      else case read_words fs (p7_itod ino) of
        Inl _ \<Rightarrow> Inl EIO
      | Inr ws \<Rightarrow> Inr (p7_exact_size fs (p7_inode_decode ino ws (unat (p7_itoo ino)))))"

text \<open>The six stores into \<^verbatim>\<open>d[0..10]\<close>; \<^verbatim>\<open>d[11]\<close> stays.\<close>

definition p7_inode_encode :: "u32 list \<Rightarrow> nat \<Rightarrow> filsys_inode \<Rightarrow> u32 list" where
  "p7_inode_encode ws o' ip =
     (foldl (\<lambda>ws i. ws[o' + 1 + i := ip_addr ip ! i AND P7_MAXWORD])
        (ws[o' := ip_mode ip AND P7_MAXWORD]) [0..<7])
     [o' + 8 := ucast (ip_uid ip) AND P7_MAXWORD,
      o' + 9 := of_int (- sint (ip_nlink ip)) AND P7_MAXWORD,
      o' + 10 := ((ip_size ip + 1) div 2) AND P7_MAXWORD]"

definition p7fs_write_inode :: "filsys_edition \<Rightarrow> u32 \<Rightarrow> filsys_inode \<Rightarrow> unit op" where
  "p7fs_write_inode fs ino ip =
     (if ino = 0 \<or> P7_MAXINO < ino then (Inl EINVAL, fs)
      else if fs_readonly fs then (Inl EROFS, fs)
      else try_op (if fs_fl_dirty fs then p7_super_write fs else (Inr (), fs))
        (\<lambda>_ fs. case read_words fs (p7_itod ino) of
             Inl _ \<Rightarrow> (Inl EIO, fs)
           | Inr ws \<Rightarrow> write_words fs (p7_itod ino) (p7_inode_encode ws (unat (p7_itoo ino)) ip)))"

section \<open>Directories\<close>

abbreviation str_dot :: "byte list" where "str_dot \<equiv> [0x2E]"
abbreviation str_dotdot :: "byte list" where "str_dotdot \<equiv> [0x2E, 0x2E]"
abbreviation (input) P7_ROOTINO :: u32 where "P7_ROOTINO \<equiv> 4"

text \<open>The inode number and the name of entry \<open>d\<close>; the name is read for a used entry only.\<close>

definition p7_entry_name :: "filsys_edition \<Rightarrow> filsys_inode \<Rightarrow> u32 \<Rightarrow> errno + byte list" where
  "p7_entry_name fs ip base =
     (case fold_e (\<lambda>w acc. case inode_read_word fs ip (base + 1 + of_nat w) of
                     Inl _ \<Rightarrow> Inl EIO | Inr v \<Rightarrow> Inr (acc @ [v])) [0..<4] [] of
        Inl e \<Rightarrow> Inl e
      | Inr namew \<Rightarrow> Inr (unpack_name namew))"

definition p7_ndirents :: "filsys_inode \<Rightarrow> nat" where
  "p7_ndirents ip = unat (ip_size ip div 2 div 8)"

fun p7_iter_scan :: "filsys_edition \<Rightarrow> filsys_inode \<Rightarrow> nat list \<Rightarrow> errno + dir_entry option" where
  "p7_iter_scan fs ip [] = Inr None"
| "p7_iter_scan fs ip (d # ds) =
     (let base = of_nat d * 8 in
      case inode_read_word fs ip base of
        Inl _ \<Rightarrow> Inl EIO
      | Inr dino \<Rightarrow>
          if dino = 0 then p7_iter_scan fs ip ds
          else case p7_entry_name fs ip base of
            Inl e \<Rightarrow> Inl e
          | Inr ent \<Rightarrow>
              if ent = str_dot \<or> ent = str_dotdot then p7_iter_scan fs ip ds
              else Inr (Some (dino, ent, d + 1 + 2)))"

definition p7fs_dir_iter ::
    "filsys_edition \<Rightarrow> filsys_iter_state \<Rightarrow> (filsys_iter_state, dir_entry option) outcome" where
  "p7fs_dir_iter fs st =
     (let ip = it_ip st; tok = it_next st in
      if tok = 0 then (Inr (Some (ip_ino ip, str_dot, 1)), st\<lparr>it_next := 1\<rparr>)
      else if tok = 1 then (Inr (Some (P7_ROOTINO, str_dotdot, 2)), st\<lparr>it_next := 2\<rparr>)
      else case p7_iter_scan fs ip [unat (of_nat (tok - 2) :: u32)..<p7_ndirents ip] of
        Inl e \<Rightarrow> (Inl e, st)
      | Inr None \<Rightarrow> (Inr None, st)
      | Inr (Some (ino, name, next)) \<Rightarrow> (Inr (Some (ino, name, next)), st\<lparr>it_next := next\<rparr>))"

text \<open>The name blank-padded to eight characters, two per word.\<close>

definition pack_name :: "byte list \<Rightarrow> u32 list" where
  "pack_name name = map (chars_word (name @ replicate (8 - length name) 0x20)) [0..<4]"

fun p7_free_dirent :: "filsys_edition \<Rightarrow> filsys_inode \<Rightarrow> nat list \<Rightarrow> errno + nat option" where
  "p7_free_dirent fs ip [] = Inr None"
| "p7_free_dirent fs ip (d # ds) =
     (case inode_read_word fs ip (of_nat (d * 8)) of
        Inl _ \<Rightarrow> Inl EIO
      | Inr dino \<Rightarrow> if dino = 0 then Inr (Some d) else p7_free_dirent fs ip ds)"

definition p7_put_words :: "filsys_edition \<Rightarrow> filsys_inode \<Rightarrow> (u32 \<times> u32) list \<Rightarrow> unit iop" where
  "p7_put_words fs ip ws =
     fold_op (\<lambda>(woff, v) _ (fs, ip). try_as EIO (inode_write_word fs ip woff v) (\<lambda>_ s. (Inr (), s))) ws () (fs, ip)"

definition p7fs_dir_add :: "filsys_edition \<Rightarrow> filsys_inode \<Rightarrow> u32 \<Rightarrow> byte list \<Rightarrow> unit iop" where
  "p7fs_dir_add fs ip ino name =
     (if name = [] \<or> 8 < length name then (Inl ENAMETOOLONG, fs, ip)
      else if 0x2F \<in> set name then (Inl EINVAL, fs, ip)
      else if fs_readonly fs then (Inl EROFS, fs, ip)
      else
        let nwords = ip_size ip div 2; ndirents = p7_ndirents ip in
        case p7_free_dirent fs ip [0..<ndirents] of
          Inl e \<Rightarrow> (Inl e, fs, ip)
        | Inr found \<Rightarrow>
            let (slot, nwords) = (case found of Some d \<Rightarrow> (of_nat (d * 8), nwords)
                                  | None \<Rightarrow> (of_nat (ndirents * 8), nwords + 8))
            in try_op (p7_put_words fs ip
                 ((slot, ino) # zip (map (\<lambda>w. slot + 1 + of_nat w) [0..<4]) (pack_name name) @
                  [(slot + 5, ino AND P7_MAXWORD)]))
               (\<lambda>_ (fs, ip). let ip = ip\<lparr>ip_size := nwords * 2\<rparr> in
                  case p7fs_write_inode fs (ip_ino ip) ip of (r, fs) \<Rightarrow> (r, fs, ip)))"

text \<open>The shared scan of removal and lookup for the entry that carries a name.\<close>

fun p7_find_dirent :: "filsys_edition \<Rightarrow> filsys_inode \<Rightarrow> byte list \<Rightarrow> nat list \<Rightarrow> errno + (nat \<times> u32) option" where
  "p7_find_dirent fs ip name [] = Inr None"
| "p7_find_dirent fs ip name (d # ds) =
     (let base = of_nat (d * 8) in
      case inode_read_word fs ip base of
        Inl _ \<Rightarrow> Inl EIO
      | Inr dino \<Rightarrow>
          if dino = 0 then p7_find_dirent fs ip name ds
          else case p7_entry_name fs ip base of
            Inl e \<Rightarrow> Inl e
          | Inr ent \<Rightarrow> if ent = name then Inr (Some (d, dino)) else p7_find_dirent fs ip name ds)"

definition p7fs_dir_remove :: "filsys_edition \<Rightarrow> filsys_inode \<Rightarrow> byte list \<Rightarrow> unit iop" where
  "p7fs_dir_remove fs ip name =
     (if fs_readonly fs then (Inl EROFS, fs, ip)
      else case p7_find_dirent fs ip name [0..<p7_ndirents ip] of
        Inl e \<Rightarrow> (Inl e, fs, ip)
      | Inr None \<Rightarrow> (Inl ENOENT, fs, ip)
      | Inr (Some (d, _)) \<Rightarrow> inode_write_word fs ip (of_nat (d * 8)) 0)"

definition p7fs_dir_lookup :: "filsys_edition \<Rightarrow> filsys_inode \<Rightarrow> byte list \<Rightarrow> errno + u32" where
  "p7fs_dir_lookup fs ip name =
     (if name = str_dot then Inr (ip_ino ip)
      else if name = str_dotdot then Inr P7_ROOTINO
      else case p7_find_dirent fs ip name [0..<p7_ndirents ip] of
        Inl e \<Rightarrow> Inl e
      | Inr None \<Rightarrow> Inl ENOENT
      | Inr (Some (_, dino)) \<Rightarrow> Inr dino)"

section \<open>The checker's callbacks\<close>

definition p7fs_makefree :: "filsys_edition \<Rightarrow> byte list \<Rightarrow> u32 \<times> filsys_edition" where
  "p7fs_makefree fs used =
     (let blocks = filter (\<lambda>b. \<not> bm_test used (b - 712)) (rev [712..<6400]);
          fs = foldl p7fs_bfree (fs\<lparr>fs_freelist := 0, fs_fl := (fs_fl fs)\<lparr>tfree := 0\<rparr>\<rparr>) (map of_nat blocks);
          nfree = of_nat (length blocks);
          fs = fs\<lparr>fs_fl := (fs_fl fs)\<lparr>tfree := nfree\<rparr>\<rparr>
      in (nfree, snd (p7_super_write fs)))"

definition p7_inode_state :: "u32 \<Rightarrow> byte" where
  "p7_inode_state mode =
     (if mode AND P7_IUSED = 0 then IN_UNALLOC
      else if mode AND P7_IDIR \<noteq> 0 then IN_IDIR
      else if mode AND P7_ISPEC \<noteq> 0 then IN_ICHR
      else IN_IREG)"

text \<open>The map of the free list, and one pass over the data area that meets it with the map in use.\<close>

definition p7_free_node :: "u32 \<Rightarrow> u32 list \<Rightarrow> byte list \<times> filsys_check \<Rightarrow> byte list \<times> filsys_check" where
  "p7_free_node head fl s =
     (let in_area = (\<lambda>b::u32. 712 \<le> b \<and> b < 6400);
          (freeb, rep) = s;
          freeb = (if in_area head then bm_set freeb (unat (head - 712)) else freeb)
      in foldl (\<lambda>(freeb, rep) i. let b = fl ! i in
             if b = 0 then (freeb, rep)
             else if \<not> in_area b then (freeb, rep\<lparr>ck_errors := ck_errors rep + 1\<rparr>)
             else (bm_set freeb (unat (b - 712)), rep)) (freeb, rep) [1..<10])"

fun p7_free_chain :: "nat \<Rightarrow> filsys_edition \<Rightarrow> u32 \<Rightarrow> byte list \<times> filsys_check \<Rightarrow> byte list \<times> filsys_check" where
  "p7_free_chain 0 fs head s = s"
| "p7_free_chain (Suc guard) fs head s =
     (if head = 0 then s
      else case read_words fs head of
        Inl _ \<Rightarrow> (case s of (freeb, rep) \<Rightarrow> (freeb, rep\<lparr>ck_errors := ck_errors rep + 1\<rparr>))
      | Inr fl \<Rightarrow> p7_free_chain guard fs (fl ! 0 AND P7_MAXWORD) (p7_free_node head fl s))"

definition p7_chk_walk_free ::
    "filsys_edition \<Rightarrow> filsys_chkctx \<Rightarrow> filsys_check \<Rightarrow> filsys_chkctx \<times> filsys_check" where
  "p7_chk_walk_free fs cx rep =
     (let len = (if cx_nblk cx \<noteq> 0 then unat (cx_nblk cx) else 1) in
      if \<not> h_alloc (fs_host fs) len then (cx, rep)
      else let (freeb, rep) = p7_free_chain 8000 fs (fs_freelist fs) (replicate len 0, rep)
        in foldl (\<lambda>(cx, rep) off.
             if \<not> bm_test freeb off then (cx, rep)
             else let rep = rep\<lparr>ck_free_blocks := ck_free_blocks rep + 1\<rparr> in
               if bm_test (cx_bmap cx) off
               then (cx\<lparr>cx_dup_blocks := cx_dup_blocks cx + 1\<rparr>, rep\<lparr>ck_errors := ck_errors rep + 1\<rparr>)
               else (cx\<lparr>cx_bmap := bm_set (cx_bmap cx) off\<rparr>, rep)) (cx, rep) [0..<6400 - 712])"

section \<open>The probe\<close>

definition p7_probe_read :: "filsys_edition \<Rightarrow> word_codec \<Rightarrow> nat \<Rightarrow> u32 \<Rightarrow> u32 list option" where
  "p7_probe_read fmt wc base bno =
     (case io_file_read fmt (block_bytes wc) (base + unat bno * block_bytes wc) of
        Inl _ \<Rightarrow> None
      | Inr raw \<Rightarrow> Some (words_decode wc raw))"

text \<open>
  The walk along the chain from \<open>head\<close>: \<open>Some\<close> the number of nodes, or \<open>None\<close> when the chain
  leaves the data area, is too long, cycles, cannot be read or holds a block out of range.
\<close>

fun p7_probe_chain :: "nat \<Rightarrow> filsys_edition \<Rightarrow> word_codec \<Rightarrow> nat \<Rightarrow> byte list \<Rightarrow> u32 \<Rightarrow> nat \<Rightarrow> nat option" where
  "p7_probe_chain hops fmt wc base seen head s =
     (if head = 0 then Some s
      else if head < 712 \<or> 6400 \<le> head then None
      else case hops of
        0 \<Rightarrow> None
      | Suc left \<Rightarrow>
          if bm_test seen (unat head) then None
          else case p7_probe_read fmt wc base head of
            None \<Rightarrow> None
          | Some ws \<Rightarrow>
              if \<exists>i \<in> set [1..<10]. ws ! i \<noteq> 0 \<and> (ws ! i < 712 \<or> 6400 \<le> ws ! i) then None
              else p7_probe_chain left fmt wc base (bm_set seen (unat head)) (ws ! 0) (Suc s))"

definition p7_probe_surface :: "filsys_edition \<Rightarrow> word_codec \<Rightarrow> nat \<Rightarrow> nat option" where
  "p7_probe_surface fmt wc base =
     (case p7_probe_read fmt wc base 0 of
        None \<Rightarrow> None
      | Some ws \<Rightarrow>
          if ws ! 0 = 0 then None
          else case p7_probe_chain 8000 fmt wc base (replicate 1000 0) (ws ! 0) 0 of
            None \<Rightarrow> None
          | Some segs \<Rightarrow>
              (case p7_probe_read fmt wc base 2 of
                 None \<Rightarrow> None
               | Some ws \<Rightarrow>
                   if ws ! (12 * 4) AND (P7_IUSED OR P7_IDIR) \<noteq> P7_IUSED OR P7_IDIR then None else Some segs))"

text \<open>Three containers at two surfaces each; the first that validates is the answer.\<close>

definition p7_probe :: "filsys_edition \<Rightarrow> nat \<Rightarrow> (word_codec \<times> nat \<times> nat) option" where
  "p7_probe fmt nbytes =
     foldl (\<lambda>res (wc, base).
         if res \<noteq> None \<or> nbytes < base + 6400 * block_bytes wc then res
         else map_option (\<lambda>segs. (wc, base, segs)) (p7_probe_surface fmt wc base))
       None (concat (map (\<lambda>wc. [(wc, 0), (wc, 8000 * block_bytes wc)]) [Word_rb09, Word_packed18, Word_rim]))"

section \<open>Names and inodes come back as stored\<close>

lemma and_7f: "(c::byte) AND 0x7f = take_bit 7 c"
proof -
  have "mask 7 = (0x7f::byte)" by (simp add: mask_eq_exp_minus_1)
  then show ?thesis by (metis take_bit_eq_mask)
qed

lemma take_bit_7: "(c::byte) < 0x80 \<Longrightarrow> take_bit 7 c = c"
  by (simp add: take_bit_eq_mod mod_word_less)

lemma char_halves:
  "ucast (drop_bit 9 (push_bit 9 (ucast (a AND 0x7f)) OR ucast (b AND 0x7f)) AND 0x7f :: u32) = take_bit 7 (a::byte)"
  "ucast ((push_bit 9 (ucast (a AND 0x7f)) OR ucast (b AND 0x7f)) AND 0x7f :: u32) = take_bit 7 (b::byte)"
proof -
  have m: "mask 7 = (0x7f::u32)" by (simp add: mask_eq_exp_minus_1)
  show "ucast (drop_bit 9 (push_bit 9 (ucast (a AND 0x7f)) OR ucast (b AND 0x7f)) AND 0x7f :: u32) = take_bit 7 (a::byte)"
    unfolding and_7f m [symmetric] by (rule bit_word_eqI) (auto simp: bit_simps)
  show "ucast ((push_bit 9 (ucast (a AND 0x7f)) OR ucast (b AND 0x7f)) AND 0x7f :: u32) = take_bit 7 (b::byte)"
    unfolding and_7f m [symmetric] by (rule bit_word_eqI) (auto simp: bit_simps)
qed

lemma word_chars_chars_word:
  assumes "buf ! (2 * i) < 0x80" "buf ! (2 * i + 1) < 0x80"
  shows "word_chars (chars_word buf i) = [buf ! (2 * i), buf ! (2 * i + 1)]"
  using assms unfolding word_chars_def chars_word_def char_halves by (simp add: take_bit_7)

lemma chars_words_back:
  assumes "length p = 8" "\<forall>c \<in> set p. c < 0x80"
  shows "concat (map (\<lambda>i. word_chars (chars_word p i)) [0..<4]) = p"
proof -
  have w: "word_chars (chars_word p i) = [p ! (2 * i), p ! (2 * i + 1)]" if "i < 4" for i
    using that assms by (intro word_chars_chars_word) simp_all
  have "[0..<4] = [0, 1, 2, 3::nat]" by (simp add: upt_rec)
  then have "concat (map (\<lambda>i. word_chars (chars_word p i)) [0..<4]) = [p ! 0, p ! 1, p ! 2, p ! 3, p ! 4, p ! 5, p ! 6, p ! 7]"
    using w [of 0] w [of 1] w [of 2] w [of 3] by simp
  also have "\<dots> = p" using assms(1) by (auto simp: length_Suc_conv numeral_eq_Suc)
  finally show ?thesis .
qed

lemma unpack_pack_name:
  assumes "length name \<le> 8" "\<forall>c \<in> set name. c \<noteq> 0 \<and> c < 0x80" "name \<noteq> [] \<longrightarrow> last name \<noteq> 0x20"
  shows "unpack_name (pack_name name) = name"
proof -
  let ?p = "name @ replicate (8 - length name) 0x20"
  have "length ?p = 8" "\<forall>c \<in> set ?p. c < 0x80" using assms(1,2) by auto
  from chars_words_back [OF this] have "concat (map word_chars (pack_name name)) = ?p"
    by (simp add: pack_name_def comp_def)
  moreover have "rev (dropWhile (\<lambda>c. c = 0x20) (rev ?p)) = name"
    using assms(3) by (cases name rule: rev_cases) (simp_all add: dropWhile_append)
  moreover have "takeWhile (\<lambda>c. c \<noteq> 0) name = name" using assms(2) by (simp add: takeWhile_eq_all_conv)
  ultimately show ?thesis by (simp only: unpack_name_def)
qed

definition p7_ip_fits :: "filsys_inode \<Rightarrow> bool" where
  "p7_ip_fits ip \<longleftrightarrow> ip_mode ip < 0x40000 \<and> ip_gid ip = 0 \<and> even (unat (ip_size ip)) \<and> ip_size ip < 0x80000 \<and>
     length (ip_addr ip) = 13 \<and> drop 7 (ip_addr ip) = replicate 6 0 \<and> (\<forall>a \<in> set (ip_addr ip). a < 0x40000) \<and>
     ip_atime ip = 0 \<and> ip_mtime ip = 0 \<and> ip_ctime ip = 0"

lemma and_maxword: "(v::u32) AND P7_MAXWORD = take_bit 18 v"
  by (metis maxword_mask take_bit_eq_mask)

lemma take_bit_18: "(v::u32) < 0x40000 \<Longrightarrow> take_bit 18 v = v"
  by (simp add: take_bit_eq_mod mod_word_less)

text \<open>Seen through 16 bits, the sign extension of an 18-bit word is the word itself.\<close>

lemma sign18_u16: "word_of_int (sign18 v) = (ucast v :: u16)"
proof -
  have "(word_of_int (uint (take_bit 18 v)) :: u16) = ucast v"
    by (rule bit_word_eqI) (auto simp: bit_simps)
  then show ?thesis by (simp add: sign18_def and_maxword Let_def)
qed

lemma ucast_u16_of_int: "(ucast (word_of_int k :: u32) :: u16) = word_of_int k"
  by transfer (simp add: take_bit_take_bit)

lemma sign18_uid: "word_of_int (sign18 (take_bit 18 (ucast u))) = (u :: u16)"
  unfolding sign18_u16 by (rule bit_word_eqI) (auto simp: bit_simps)

lemma sign18_nlink: "- word_of_int (sign18 (take_bit 18 (- scast n))) = (n :: u16)"
proof -
  have "(ucast (take_bit 18 (- scast n :: u32)) :: u16) = ucast (- scast n :: u32)"
    by (rule bit_word_eqI) (auto simp: bit_simps)
  also have "\<dots> = ucast (word_of_int (- sint n) :: u32)" by simp
  also have "\<dots> = - n" unfolding ucast_u16_of_int by simp
  finally show ?thesis unfolding sign18_u16 by simp
qed

lemma p7_size_back:
  assumes "even (unat s)" "s < 0x80000"
  shows "take_bit 18 ((s + 1) div 2) * 2 = (s::u32)"
proof -
  obtain k where k: "unat s = 2 * k" using assms(1) by blast
  have un: "of_nat (unat w) = w" for w :: u32 by simp
  have s: "s = of_nat (2 * k)" using k un [of s] by simp
  have b: "k < 262144" using assms(2) k by (simp add: word_less_nat_alt)
  have "unat (s + 1) = 2 * k + 1" using k b by (simp add: unat_word_ariths)
  then have "unat ((s + 1) div 2) = k" by (simp add: unat_div)
  then have "(s + 1) div 2 = of_nat k" using un [of "(s + 1) div 2"] by simp
  moreover have "take_bit 18 (of_nat k :: u32) = of_nat k"
    using b by (intro take_bit_18) (simp add: word_less_nat_alt unat_of_nat_lt)
  ultimately show ?thesis unfolding s by simp
qed

lemma length_p7_encode [simp]: "length (p7_inode_encode ws o' ip) = length ws"
proof -
  have "length (foldl (\<lambda>ws i. ws[o' + 1 + i := ip_addr ip ! i AND P7_MAXWORD]) v is) = length v" for v "is"
    by (induction "is" arbitrary: v) simp_all
  then show ?thesis by (simp add: p7_inode_encode_def)
qed

lemma p7_inode_roundtrip:
  assumes "p7_ip_fits ip" "o' + 12 \<le> length ws"
  shows "p7_inode_decode ino (p7_inode_encode ws o' ip) o' = ip\<lparr>ip_ino := ino\<rparr>"
proof -
  have up: "[0..<7] = [0, 1, 2, 3, 4, 5, 6::nat]" by (simp add: upt_rec)
  have addr: "map (\<lambda>i. take_bit 18 (ip_addr ip ! i)) [0..<7] @ replicate 6 0 = ip_addr ip"
  proof -
    have "map (\<lambda>i. take_bit 18 (ip_addr ip ! i)) [0..<7] = take 7 (ip_addr ip)"
      using assms(1) by (intro nth_equalityI) (auto simp: p7_ip_fits_def take_bit_18)
    then show ?thesis using assms(1) by (metis p7_ip_fits_def append_take_drop_id)
  qed
  show ?thesis
    using assms addr
    by (simp add: p7_inode_decode_def p7_inode_encode_def up sign18_nlink sign18_uid p7_size_back and_maxword
       take_bit_18 zero_inode_def p7_ip_fits_def)
qed

section \<open>The iterator moves on\<close>

lemma p7_iter_scan_in: "p7_iter_scan fs ip ds = Inr (Some (i, n, nxt)) \<Longrightarrow> \<exists>d \<in> set ds. nxt = d + 3"
  by (induction ds) (auto simp: Let_def split: sum.splits if_splits)

lemma p7fs_dir_iter_moves:
  assumes "p7fs_dir_iter fs st = (Inr (Some e), st')" "it_next st \<le> p7_ndirents (it_ip st) + 2"
  shows "it_ip st' = it_ip st" "it_next st < it_next st'" "it_next st' \<le> p7_ndirents (it_ip st) + 2"
proof -
  let ?n = "p7_ndirents (it_ip st)"
  have "?n < 2 ^ 31"
    using unat_u32_bound [of "ip_size (it_ip st)"] by (simp add: p7_ndirents_def unat_div)
  then have u: "unat (of_nat (it_next st - 2) :: u32) = it_next st - 2"
    using assms(2) by (intro unat_of_nat_lt) simp
  have "it_ip st' = it_ip st \<and> it_next st < it_next st' \<and> it_next st' \<le> ?n + 2"
  proof (cases "it_next st \<le> 1")
    case True
    then have "it_next st = 0 \<or> it_next st = 1" by linarith
    then show ?thesis using assms by (auto simp: p7fs_dir_iter_def Let_def)
  next
    case False
    then obtain i n nxt where r: "p7_iter_scan fs (it_ip st) [it_next st - 2..<?n] = Inr (Some (i, n, nxt))"
        "st' = st\<lparr>it_next := nxt\<rparr>"
      using assms(1) u by (auto simp: p7fs_dir_iter_def Let_def split: sum.splits option.splits)
    then show ?thesis using p7_iter_scan_in [OF r(1)] False by auto
  qed
  then show "it_ip st' = it_ip st" "it_next st < it_next st'" "it_next st' \<le> ?n + 2" by blast+
qed

end
