(* ===== verification/File_IO.thy ===== *)
theory File_IO
  imports Pdp7fs
begin

text \<open>
  File data (\<^verbatim>\<open>filsys_file_read\<close> and \<^verbatim>\<open>filsys_file_write\<close> of
  \<^verbatim>\<open>v7fs.c\<close>) and the inode slots of the operations tables they and the layers above
  call through.
\<close>

section \<open>The inode slots\<close>

definition ops_read_inode :: "filsys_edition \<Rightarrow> u32 \<Rightarrow> errno + filsys_inode" where
  "ops_read_inode fs ino =
     (case d_ops (fs_desc fs) of
        None \<Rightarrow> Inl UB
      | Some V1fs_ops \<Rightarrow> v1fs_read_inode fs ino
      | Some P7fs_ops \<Rightarrow> p7fs_read_inode fs ino
      | Some V6fs_ops \<Rightarrow> v6_read_inode fs ino
      | Some _ \<Rightarrow> v7fs_read_inode fs ino)"

definition ops_write_inode :: "filsys_edition \<Rightarrow> u32 \<Rightarrow> filsys_inode \<Rightarrow> unit op" where
  "ops_write_inode fs ino ip =
     (case d_ops (fs_desc fs) of
        None \<Rightarrow> (Inl UB, fs)
      | Some V1fs_ops \<Rightarrow> v1fs_write_inode fs ino ip
      | Some P7fs_ops \<Rightarrow> p7fs_write_inode fs ino ip
      | Some V6fs_ops \<Rightarrow> v6_write_inode fs ino ip
      | Some _ \<Rightarrow> v7fs_write_inode fs ino ip)"

text \<open>\<open>None\<close>: the call does not return, which only the loop of \<^verbatim>\<open>v7fs_ialloc\<close> can do.\<close>

definition ops_ialloc :: "filsys_edition \<Rightarrow> (u32 op) option" where
  "ops_ialloc fs =
     (case d_ops (fs_desc fs) of
        None \<Rightarrow> Some (Inl UB, fs)
      | Some V1fs_ops \<Rightarrow> Some (v1fs_ialloc fs)
      | Some P7fs_ops \<Rightarrow> Some (p7fs_ialloc fs)
      | Some _ \<Rightarrow> v7fs_ialloc fs)"

definition ops_ifree :: "filsys_edition \<Rightarrow> u32 \<Rightarrow> filsys_edition" where
  "ops_ifree fs ino =
     (case d_ops (fs_desc fs) of
        Some V1fs_ops \<Rightarrow> v1fs_ifree fs ino
      | Some P7fs_ops \<Rightarrow> p7fs_ifree fs ino
      | _ \<Rightarrow> v7fs_ifree fs ino)"

definition ops_blocksize :: "filsys_edition \<Rightarrow> nat" where
  "ops_blocksize fs =
     (case d_ops (fs_desc fs) of
        Some V1fs_ops \<Rightarrow> 512
      | Some P7fs_ops \<Rightarrow> 64 * 2
      | _ \<Rightarrow> d_bsize (fs_desc fs))"

definition p7fs_max_file_op :: nat where
  "p7fs_max_file_op = 7 * 64 * 64 * 2"

definition maxfile :: "filsys_edition \<Rightarrow> nat" where
  "maxfile fs =
     (if d_ops (fs_desc fs) = Some P7fs_ops then p7fs_max_file_op else filsys_max_file_op (fs_desc fs))"

definition v7_inode_state :: "u32 \<Rightarrow> byte" where
  "v7_inode_state mode =
     (if mode = 0 then IN_UNALLOC
      else let t = mode AND 0xF000 in
        if t = 0x4000 then IN_IDIR
        else if t = 0x8000 \<or> t = 0xA000 then IN_IREG
        else if t = 0x2000 \<or> t = 0x3000 then IN_ICHR
        else if t = 0x6000 \<or> t = 0x7000 then IN_IBLK
        else if t = 0x1000 then IN_IPIPE
        else IN_UNKNOWN)"

definition bsd211_inode_state :: "u32 \<Rightarrow> byte" where
  "bsd211_inode_state mode =
     (if mode = 0 then IN_UNALLOC
      else let t = mode AND 0xF000 in
        if t = 0x4000 then IN_IDIR
        else if t = 0x8000 \<or> t = 0xA000 then IN_IREG
        else if t = 0x2000 \<or> t = 0xC000 then IN_ICHR
        else if t = 0x6000 then IN_IBLK
        else IN_UNKNOWN)"

definition v6_inode_state :: "u32 \<Rightarrow> byte" where
  "v6_inode_state mode =
     (if mode = 0 then IN_UNALLOC
      else let t = mode AND 0x6000 in
        if t = 0x4000 then IN_IDIR
        else if t = 0x2000 then IN_ICHR
        else if t = 0x6000 then IN_IBLK
        else if t = 0 then IN_IREG
        else IN_UNKNOWN)"

definition ops_inode_state :: "filsys_edition \<Rightarrow> u32 \<Rightarrow> u32 \<Rightarrow> byte" where
  "ops_inode_state fs ino mode =
     (case d_ops (fs_desc fs) of
        Some V1fs_ops \<Rightarrow> v1_inode_state ino mode
      | Some P7fs_ops \<Rightarrow> p7_inode_state mode
      | Some V6fs_ops \<Rightarrow> v6_inode_state mode
      | Some Bsd211fs_ops \<Rightarrow> bsd211_inode_state mode
      | _ \<Rightarrow> v7_inode_state mode)"

section \<open>Totals\<close>

record filsys_statfs =
  sf_blocks :: nat
  sf_bfree :: nat
  sf_files :: u32
  sf_ffree :: u32

definition ops_statfs :: "filsys_edition \<Rightarrow> filsys_statfs" where
  "ops_statfs fs =
     (case d_ops (fs_desc fs) of
        Some V1fs_ops \<Rightarrow>
          \<lparr>sf_blocks = unat (fs_fsize fs), sf_bfree = unat (bm_tfree (fs_bm fs)),
           sf_files = fs_maxino fs, sf_ffree = bm_tinode (fs_bm fs)\<rparr>
      | Some P7fs_ops \<Rightarrow>
          \<lparr>sf_blocks = 8000, sf_bfree = unat (tfree (fs_fl fs)), sf_files = P7_MAXINO, sf_ffree = 0\<rparr>
      | _ \<Rightarrow>
          \<lparr>sf_blocks = unat (fs_fsize fs), sf_bfree = unat (tfree (fs_fl fs)),
           sf_files = (ucast (fs_isize fs) - 2) * v7_inopb fs, sf_ffree = tinode (fs_fl fs)\<rparr>)"

section \<open>Reading\<close>

text \<open>
  The loop body maps the block (a lookup leaves mount and inode alone), reads it, or takes
  zeroes for a hole, and copies the part the request asks for.  Dividing by a zero block size
  is undefined.
\<close>

function file_read_loop :: "filsys_edition \<Rightarrow> filsys_inode \<Rightarrow> nat \<Rightarrow> nat \<Rightarrow> byte list \<Rightarrow> errno + byte list" where
  "file_read_loop fs ip off sz acc =
     (let bs = d_bsize (fs_desc fs); done = length acc in
      if sz \<le> done then Inr acc
      else if bs = 0 then Inl UB
      else
        let lbn = of_nat ((off + done) div bs); boff = (off + done) mod bs in
        case fst (filsys_bmap fs ip lbn False) of
          Inl _ \<Rightarrow> Inl EIO
        | Inr pbn \<Rightarrow>
            (case (if pbn = 0 then Inr (replicate bs 0) else ops_blk_get fs pbn) of
               Inl _ \<Rightarrow> Inl EIO
             | Inr blk \<Rightarrow>
                 let n = min (bs - boff) (sz - done) in
                 if length blk < boff + n then Inl UB
                 else file_read_loop fs ip off sz (acc @ take n (drop boff blk))))"
  by auto
termination
proof (relation "measure (\<lambda>(fs, ip, off, sz, acc). sz - length acc)", goal_cases)
  case 1
  show ?case by simp
next
  case (2 fs ip off sz acc bs d lbn boff pbn blk n)
  have "boff < bs" using 2(4,6) by (simp add: mod_less_divisor)
  then have "0 < n" "length acc < sz" using 2(2,3,9) by simp_all
  moreover have "length (take n (drop boff blk)) = n" using 2(10) by simp
  ultimately show ?case by simp
qed

declare file_read_loop.simps [simp del]

definition filsys_file_read :: "filsys_edition \<Rightarrow> filsys_inode \<Rightarrow> nat \<Rightarrow> int \<Rightarrow> errno + byte list" where
  "filsys_file_read fs ip sz off =
     (if off < 0 then Inl EINVAL
      else if int (unat (ip_size ip)) \<le> off then Inr []
      else file_read_loop fs ip (nat off) (min sz (unat (ip_size ip) - nat off)) [])"

section \<open>Writing\<close>

function file_write_loop :: "byte list \<Rightarrow> nat \<Rightarrow> nat \<Rightarrow> filsys_edition \<Rightarrow> filsys_inode \<Rightarrow> unit iop" where
  "file_write_loop buf off done fs ip =
     (let bs = d_bsize (fs_desc fs) in
      if length buf \<le> done then (Inr (), fs, ip)
      else if bs = 0 then (Inl UB, fs, ip)
      else
        let lbn = of_nat ((off + done) div bs); boff = (off + done) mod bs;
            n = min (bs - boff) (length buf - done) in
        try_op (filsys_bmap fs ip lbn True)
          (\<lambda>pbn s.
             if pbn = 0 then (Inl ENOSPC, s)
             else case ops_blk_get (fst s) pbn of
               Inl _ \<Rightarrow> (Inl EIO, s)
             | Inr blk \<Rightarrow>
                 (case ops_blk_put (fst s) pbn (memcpy_at blk boff (take n (drop done buf))) of
                    (Inl _, fs') \<Rightarrow> (Inl EIO, fs', snd s)
                  | (Inr _, fs') \<Rightarrow> file_write_loop buf off (done + n) fs' (snd s))))"
  by auto
termination
proof (relation "measure (\<lambda>(buf, off, done, fs, ip). length buf - done)", goal_cases)
  case 1
  show ?case by simp
next
  case (2 buf off d fs ip bs lbn boff n)
  have "boff < bs" using 2(3,5) by (simp add: mod_less_divisor)
  then have "0 < n" "d < length buf" using 2(2,6) by simp_all
  then show ?case by simp
qed

declare file_write_loop.simps [simp del]

definition filsys_file_write :: "filsys_edition \<Rightarrow> filsys_inode \<Rightarrow> byte list \<Rightarrow> int \<Rightarrow> nat iop" where
  "filsys_file_write fs ip buf off =
     (if off < 0 then (Inl EINVAL, fs, ip)
      else try_op (file_write_loop buf (nat off) 0 fs ip)
        (\<lambda>_ (fs, ip).
           let end_off = nat off + length buf;
               ip = (if unat (ip_size ip) < end_off then ip\<lparr>ip_size := of_nat end_off\<rparr> else ip)
           in case ops_write_inode fs (ip_ino ip) ip of
                (Inl e, fs) \<Rightarrow> (Inl e, fs, ip)
              | (Inr _, fs) \<Rightarrow> (Inr (length buf), fs, ip)))"

section \<open>Overwriting part of a buffer\<close>

lemma length_memcpy_at [simp]: "off + length bs \<le> length p \<Longrightarrow> length (memcpy_at p off bs) = length p"
  by (simp add: memcpy_at_def)

lemma nth_memcpy_at:
  assumes "off + length bs \<le> length p" "i < length p"
  shows "memcpy_at p off bs ! i = (if off \<le> i \<and> i < off + length bs then bs ! (i - off) else p ! i)"
  using assms by (auto simp: memcpy_at_def nth_append)

lemma memcpy_at_window: "off + length bs \<le> length p \<Longrightarrow> take (length bs) (drop off (memcpy_at p off bs)) = bs"
  by (simp add: memcpy_at_def)

section \<open>Operations that only write\<close>

text \<open>An operation that does no more than I/O: only the host and the dirty mark change.\<close>

definition io_only :: "filsys_edition \<Rightarrow> filsys_edition \<Rightarrow> bool" where
  "io_only fs fs' \<longleftrightarrow> (\<exists>h d. fs' = fs\<lparr>fs_host := h, fs_fl_dirty := d\<rparr>)"

lemma io_onlyI: "fs' = fs\<lparr>fs_host := h, fs_fl_dirty := d\<rparr> \<Longrightarrow> io_only fs fs'"
  unfolding io_only_def by (intro exI)

lemma io_only_refl [simp]: "io_only fs fs"
  by (rule io_onlyI [where h = "fs_host fs" and d = "fs_fl_dirty fs"]) simp

lemma io_only_trans: "io_only fs fs1 \<Longrightarrow> io_only fs1 fs2 \<Longrightarrow> io_only fs fs2"
  unfolding io_only_def by (elim exE, intro exI, simp)

lemma io_only_host: "io_only fs (fs\<lparr>fs_host := h\<rparr>)" "io_only fs (fs\<lparr>fs_host := h, fs_fl_dirty := d\<rparr>)"
  "io_only fs (fs\<lparr>fs_fl_dirty := d\<rparr>)"
  by (rule io_onlyI [where h = h and d = "fs_fl_dirty fs"], simp)
    (rule io_onlyI [where h = h and d = d], simp, rule io_onlyI [where h = "fs_host fs" and d = d], simp)

lemma io_only_try:
  assumes "io_only fs (snd m)" "\<And>x s. m = (Inr x, s) \<Longrightarrow> io_only s (snd (k x s))"
  shows "io_only fs (snd (try_op m k))" "io_only fs (snd (try_as e m k))"
proof -
  obtain r s where m: "m = (r, s)" by fastforce
  have "io_only fs (snd (try_op m k)) \<and> io_only fs (snd (try_as e m k))"
  proof (cases r)
    case (Inl x)
    then show ?thesis using assms(1) m by simp
  next
    case (Inr x)
    then have "io_only fs (snd (k x s))" using io_only_trans [OF _ assms(2)] assms(1) m by simp
    then show ?thesis using m Inr by simp
  qed
  then show "io_only fs (snd (try_op m k))" "io_only fs (snd (try_as e m k))" by blast+
qed

lemma io_only_io: "io_only fs (snd (io_file_write fs bs off))"
  by (simp add: io_file_write_def Let_def io_only_host)

lemma io_only_block: "io_only fs (snd (v7fs_write_block fs b buf))"
  using write_block_cases [of fs b buf] io_only_host(1) by (metis io_only_refl prod.collapse)

lemma io_only_super: "io_only fs (snd (v7fs_super_write fs))"
  using super_write_state [of fs] by (auto simp: io_only_def)

lemma io_only_words: "io_only fs (snd (write_words fs b ws))"
  by (auto simp: write_words_def Let_def intro!: io_only_try io_only_io)

lemma io_only_write_inode: "io_only fs (snd (ops_write_inode fs ino ip))"
proof -
  have f: "io_only fs (snd (flush_dirty fs))" for fs by (simp add: flush_dirty_def io_only_super)
  have "io_only fs (snd (v7fs_write_inode fs ino ip))" "io_only fs (snd (v6_write_inode fs ino ip))"
    by (auto simp: v7fs_write_inode_def v6_write_inode_def Let_def intro!: io_only_try f io_only_block split: sum.split)
  moreover have "io_only fs (snd (p7_super_write fs))" for fs
    by (auto simp: p7_super_write_def intro!: io_only_try io_only_words io_only_host split: sum.split)
  then have "io_only fs (snd (p7fs_write_inode fs ino ip))"
    by (auto simp: p7fs_write_inode_def intro!: io_only_try io_only_words split: sum.split)
  moreover have b: "io_only fs (snd (v1fs_write_block fs b buf))" for fs b buf
    by (auto simp: v1fs_write_block_def Let_def intro: io_only_io)
  have "io_only fs (snd (v1_super_write fs))" for fs
    by (auto simp: v1_super_write_def Let_def intro!: io_only_try b io_only_host split: sum.split)
  with b have "io_only fs (snd (v1fs_write_inode fs ino ip))"
    by (auto simp: v1fs_write_inode_def intro!: io_only_try split: sum.split)
  ultimately show ?thesis by (auto simp: ops_write_inode_def split: option.split backend.split)
qed

section \<open>Where an inode write may land\<close>

text \<open>Writes that reached the host, in their order, and the bytes they may touch.\<close>

definition host_puts :: "host \<Rightarrow> (nat \<times> byte list) list \<Rightarrow> host" where
  "host_puts h ws = foldl (\<lambda>h (off, bs). host_write h bs off) h ws"

definition within :: "nat set \<Rightarrow> (nat \<times> byte list) list \<Rightarrow> bool" where
  "within R ws \<longleftrightarrow> (\<forall>(off, bs) \<in> set ws. {off..<off + length bs} \<subseteq> R)"

text \<open>The superblock of an image and the block an inode lies in, as ranges of bytes.\<close>

definition super_area :: "filsys_edition \<Rightarrow> nat set" where
  "super_area fs =
     (case d_ops (fs_desc fs) of
        Some V1fs_ops \<Rightarrow> {v1_blk_off fs 0..<v1_blk_off fs 0 + 512} \<union> {v1_blk_off fs 1..<v1_blk_off fs 1 + 512}
      | Some P7fs_ops \<Rightarrow> {word_off fs 0..<word_off fs 0 + block_bytes (p7_codec fs)}
      | _ \<Rightarrow> {super_off fs..<super_off fs + super_len fs})"

definition inode_area :: "filsys_edition \<Rightarrow> u32 \<Rightarrow> nat set" where
  "inode_area fs ino =
     (case d_ops (fs_desc fs) of
        Some V1fs_ops \<Rightarrow> {v1_blk_off fs (v1_itod ino)..<v1_blk_off fs (v1_itod ino) + 512}
      | Some P7fs_ops \<Rightarrow> {word_off fs (p7_itod ino)..<word_off fs (p7_itod ino) + block_bytes (p7_codec fs)}
      | _ \<Rightarrow> {blk_off fs (v7_itod fs ino)..<blk_off fs (v7_itod fs ino) + d_bsize (fs_desc fs)})"

lemma host_puts_simps [simp]: "host_puts h [] = h" "host_puts h (ws @ vs) = host_puts (host_puts h ws) vs"
  by (simp_all add: host_puts_def)

lemma within_simps [simp]: "within R []" "within R (ws @ vs) \<longleftrightarrow> within R ws \<and> within R vs"
  by (auto simp: within_def)

lemma host_puts_img: "within R ws \<Longrightarrow> a \<notin> R \<Longrightarrow> h_img (host_puts h ws) a = h_img h a"
  by (induction ws rule: rev_induct) (auto simp: host_puts_def within_def host_write_def img_write_def split: prod.splits)

text \<open>At most \<open>n\<close> writes, all inside \<open>R\<close>, and no change of the mount but its host and the dirty mark.\<close>

definition wrote_in :: "nat set \<Rightarrow> nat \<Rightarrow> filsys_edition \<Rightarrow> filsys_edition \<Rightarrow> bool" where
  "wrote_in R n fs fs' \<longleftrightarrow> (\<exists>ws d. fs' = fs\<lparr>fs_host := host_puts (fs_host fs) ws, fs_fl_dirty := d\<rparr> \<and> length ws \<le> n \<and> within R ws)"

lemma wrI: "fs' = fs\<lparr>fs_host := host_puts (fs_host fs) ws, fs_fl_dirty := d\<rparr> \<Longrightarrow> length ws \<le> n \<Longrightarrow> within R ws \<Longrightarrow> wrote_in R n fs fs'"
  unfolding wrote_in_def by blast

lemma wr_refl [simp]: "wrote_in R n fs fs" "wrote_in R n fs (fs\<lparr>fs_fl_dirty := d\<rparr>)"
  by (rule wrI [where ws = "[]" and d = "fs_fl_dirty fs"]; simp) (rule wrI [where ws = "[]" and d = d]; simp)

lemma wr_trans:
  assumes "wrote_in R n fs fs1" "wrote_in R m fs1 fs2"
  shows "wrote_in R (n + m) fs fs2"
proof -
  obtain ws d vs e where
    a: "fs1 = fs\<lparr>fs_host := host_puts (fs_host fs) ws, fs_fl_dirty := d\<rparr>" "length ws \<le> n" "within R ws"
    and b: "fs2 = fs1\<lparr>fs_host := host_puts (fs_host fs1) vs, fs_fl_dirty := e\<rparr>" "length vs \<le> m" "within R vs"
    using assms unfolding wrote_in_def by blast
  show ?thesis by (rule wrI [where ws = "ws @ vs" and d = e]) (use a b in simp_all)
qed

lemma wr_mono: "wrote_in R n fs fs' \<Longrightarrow> R \<subseteq> S \<Longrightarrow> n \<le> m \<Longrightarrow> wrote_in S m fs fs'"
  unfolding wrote_in_def within_def by fastforce

lemma wr_try:
  assumes "wrote_in R n fs (snd m)" "\<And>x s. m = (Inr x, s) \<Longrightarrow> wrote_in R k s (snd (f x s))"
  shows "wrote_in R (n + k) fs (snd (try_op m f))" "wrote_in R (n + k) fs (snd (try_as e m f))"
proof -
  obtain r s where m: "m = (r, s)" by fastforce
  have "wrote_in R (n + k) fs s" using assms(1) m by (auto intro: wr_mono)
  then have "wrote_in R (n + k) fs (snd (try_op m f)) \<and> wrote_in R (n + k) fs (snd (try_as e m f))"
    using wr_trans [OF assms(1) [unfolded m snd_conv]] assms(2) m by (cases r) auto
  then show "wrote_in R (n + k) fs (snd (try_op m f))" "wrote_in R (n + k) fs (snd (try_as e m f))" by blast+
qed

lemma wr_io:
  assumes "{off..<off + length bs} \<subseteq> R"
  shows "wrote_in R (Suc 0) fs (snd (io_file_write fs bs off))"
proof -
  obtain j where j: "snd (io_file_write fs bs off) = fs\<lparr>fs_host := host_write (fs_host fs) (take j bs) off\<rparr>"
    using io_file_write_state by blast
  show ?thesis
  proof (rule wrI [where ws = "[(off, take j bs)]" and d = "fs_fl_dirty fs"])
    have "{off..<off + length (take j bs)} \<subseteq> {off..<off + length bs}" by auto
    then show "within R [(off, take j bs)]" using subset_trans [OF _ assms] unfolding within_def by simp
  qed (simp_all add: j host_puts_def)
qed

lemma wr_block: "wrote_in {blk_off fs b..<blk_off fs b + d_bsize (fs_desc fs)} (Suc 0) fs (snd (v7fs_write_block fs b buf))"
  by (auto simp: v7fs_write_block_def Let_def intro!: wr_io)

lemma wr_v1_block: "wrote_in {v1_blk_off fs b..<v1_blk_off fs b + 512} (Suc 0) fs (snd (v1fs_write_block fs b buf))"
  by (auto simp: v1fs_write_block_def Let_def intro!: wr_io)

lemma wr_words: "wrote_in {word_off fs b..<word_off fs b + block_bytes (p7_codec fs)} (Suc 0) fs (snd (write_words fs b ws))"
proof -
  let ?R = "{word_off fs b..<word_off fs b + block_bytes (p7_codec fs)}"
  have "wrote_in ?R (Suc 0 + 0) fs (snd (try_as EIO (io_file_write fs (words_encode (p7_codec fs) ws) (word_off fs b)) (\<lambda>_ fs. (Inr (), fs))))"
    by (rule wr_try) (auto intro!: wr_io)
  then show ?thesis by (auto simp: write_words_def Let_def)
qed

lemma wr_fields:
  assumes "wrote_in R n fs fs'"
  shows "fs_desc fs' = fs_desc fs" "fs_base fs' = fs_base fs" "fs_isize fs' = fs_isize fs" "v7_itod fs' ino = v7_itod fs ino"
    "word_off fs' b = word_off fs b" "blk_off fs' b = blk_off fs b" "v1_blk_off fs' b = v1_blk_off fs b"
  using assms by (auto simp: wrote_in_def v7_itod_def v7_inopb_def word_off_def blk_off_def v1_blk_off_def)

text \<open>The superblock writes of the four transports.\<close>

lemma wr_super:
  "wrote_in {super_off fs..<super_off fs + super_len fs} (Suc 0) fs (snd (v7fs_super_write fs))"
  "wrote_in {word_off fs 0..<word_off fs 0 + block_bytes (p7_codec fs)} (Suc 0) fs (snd (p7_super_write fs))"
  "wrote_in ({v1_blk_off fs 0..<v1_blk_off fs 0 + 512} \<union> {v1_blk_off fs 1..<v1_blk_off fs 1 + 512}) 2 fs (snd (v1_super_write fs))"
proof -
  have "wrote_in {super_off fs..<super_off fs + super_len fs} (Suc 0) fs (snd (super_store fs sb))" for sb
    using wr_block [of fs 1 sb] by (auto simp: super_store_def super_off_def super_len_def intro!: wr_io)
  then have "wrote_in {super_off fs..<super_off fs + super_len fs} (Suc 0 + 0) fs
      (snd (try_as EIO (super_store fs sb) (\<lambda>_ fs. (Inr (), fs\<lparr>fs_fl_dirty := False\<rparr>))))" for sb
    by (rule wr_try) simp
  then show "wrote_in {super_off fs..<super_off fs + super_len fs} (Suc 0) fs (snd (v7fs_super_write fs))"
    by (auto simp: v7fs_super_write_def split: sum.split)
  have "wrote_in {word_off fs 0..<word_off fs 0 + block_bytes (p7_codec fs)} (Suc 0 + 0) fs
      (snd (try_as EIO (write_words fs 0 ws) (\<lambda>_ fs. (Inr (), fs\<lparr>fs_fl_dirty := False\<rparr>))))" for ws
    by (rule wr_try [OF wr_words]) simp
  then show "wrote_in {word_off fs 0..<word_off fs 0 + block_bytes (p7_codec fs)} (Suc 0) fs (snd (p7_super_write fs))"
    by (auto simp: p7_super_write_def split: sum.split)
  let ?R = "{v1_blk_off fs 0..<v1_blk_off fs 0 + 512} \<union> {v1_blk_off fs 1..<v1_blk_off fs 1 + 512}"
  have a: "wrote_in ?R (Suc 0) fs (snd (v1fs_write_block fs 0 x))" for x by (rule wr_mono [OF wr_v1_block]) auto
  have b: "wrote_in ?R (Suc 0 + 0) s (snd (try_as EIO (v1fs_write_block s 1 y) (\<lambda>_ fs. (Inr (), fs\<lparr>fs_fl_dirty := False\<rparr>))))"
    if "wrote_in ?R (Suc 0) fs s" for s y
    using that by (intro wr_try wr_mono [OF wr_v1_block]) (auto simp: wr_fields [OF that])
  have "wrote_in ?R (Suc 0 + (Suc 0 + 0)) fs (snd (try_as EIO (v1fs_write_block fs 0 x) (\<lambda>_ fs.
      try_as EIO (v1fs_write_block fs 1 y) (\<lambda>_ fs. (Inr (), fs\<lparr>fs_fl_dirty := False\<rparr>)))))" for x y
    by (rule wr_try(2) [OF a]) (metis a b snd_conv)
  then show "wrote_in ?R 2 fs (snd (v1_super_write fs))"
    by (auto simp: v1_super_write_def Let_def numeral_2_eq_2 split: sum.split)
qed

text \<open>A superblock flush when one is due, then the rest.\<close>

definition flush_then :: "nat set \<Rightarrow> nat set \<Rightarrow> filsys_edition \<Rightarrow> filsys_edition \<Rightarrow> bool" where
  "flush_then S I fs fs' \<longleftrightarrow>
     (\<exists>sws iws d. fs' = fs\<lparr>fs_host := host_puts (fs_host fs) (sws @ iws), fs_fl_dirty := d\<rparr> \<and> within S sws \<and> within I iws \<and>
        length iws \<le> 1 \<and> (fs_fl_dirty fs \<or> sws = []))"

lemma flush_thenI:
  assumes "fs_fl_dirty fs \<Longrightarrow> wrote_in S n fs (snd m)" "\<not> fs_fl_dirty fs \<Longrightarrow> snd m = fs"
    "\<And>x s. m = (Inr x, s) \<Longrightarrow> wrote_in I (Suc 0) s (snd (f x s))"
  shows "flush_then S I fs (snd (try_op m f))"
proof -
  obtain r s where m: "m = (r, s)" by fastforce
  obtain sws d where s: "s = fs\<lparr>fs_host := host_puts (fs_host fs) sws, fs_fl_dirty := d\<rparr>" "within S sws" "fs_fl_dirty fs \<or> sws = []"
  proof (cases "fs_fl_dirty fs")
    case True
    then show thesis using assms(1) that by (auto simp: m wrote_in_def)
  next
    case False
    then show thesis using assms(2) that [of "fs_fl_dirty fs" "[]"] by (simp add: m)
  qed
  show ?thesis
  proof (cases r)
    case (Inl e)
    then have "snd (try_op m f) = fs\<lparr>fs_host := host_puts (fs_host fs) (sws @ []), fs_fl_dirty := d\<rparr>" using m s(1) by simp
    then show ?thesis using s(2,3) unfolding flush_then_def by (metis le0 list.size(3) within_simps(1))
  next
    case (Inr x)
    then obtain iws e where i: "snd (f x s) = s\<lparr>fs_host := host_puts (fs_host s) iws, fs_fl_dirty := e\<rparr>" "length iws \<le> Suc 0" "within I iws"
      using assms(3) [of x s] m by (auto simp: wrote_in_def)
    then have "snd (try_op m f) = fs\<lparr>fs_host := host_puts (fs_host fs) (sws @ iws), fs_fl_dirty := e\<rparr>" using m s(1) Inr by simp
    then show ?thesis using s(2,3) i(2,3) unfolding flush_then_def by (metis One_nat_def)
  qed
qed

lemma flush_then_refl [simp]: "flush_then S I fs fs"
  unfolding flush_then_def by (intro exI [of _ "[]"] exI [of _ "fs_fl_dirty fs"]) simp

lemma flush_then_tail:
  assumes "wrote_in S n fs (snd m)" "\<And>s. wrote_in S n fs s \<Longrightarrow> wrote_in I (Suc 0) s (snd (f s))"
  shows "flush_then S I fs (snd (try_op (if fs_fl_dirty fs then m else (Inr (), fs)) (\<lambda>_. f)))"
  by (rule flush_thenI [where n = n]) (use assms in \<open>auto split: if_splits intro: wr_refl\<close>)

lemma write_inode_flushes: "flush_then (super_area fs) (inode_area fs ino) fs (snd (ops_write_inode fs ino ip))"
proof -
  let ?S = "{super_off fs..<super_off fs + super_len fs}" and ?I = "{blk_off fs (v7_itod fs ino)..<blk_off fs (v7_itod fs ino) + d_bsize (fs_desc fs)}"
  let ?S1 = "{v1_blk_off fs 0..<v1_blk_off fs 0 + 512} \<union> {v1_blk_off fs 1..<v1_blk_off fs 1 + 512}"
  have b: "wrote_in {blk_off fs b..<blk_off fs b + d_bsize (fs_desc fs)} (Suc 0) s (snd (v7fs_write_block s b buf))"
      "wrote_in {word_off fs b..<word_off fs b + block_bytes (p7_codec fs)} (Suc 0) s (snd (write_words s b ws))"
      "wrote_in {v1_blk_off fs b..<v1_blk_off fs b + 512} (Suc 0) s (snd (v1fs_write_block s b buf))"
    if "wrote_in R n fs s" for R n s b buf ws
    using wr_block [of s b buf] wr_words [of s b ws] wr_v1_block [of s b buf] by (simp_all add: wr_fields [OF that])
  have t: "flush_then ?S ?I fs (snd (try_op (flush_dirty fs) (\<lambda>_ s.
      let bno = v7_itod s ino in
      if lim s \<le> bno then (Inl EINVAL, s)
      else case v7fs_read_block s bno of Inl _ \<Rightarrow> (Inl EIO, s) | Inr raw \<Rightarrow> v7fs_write_block s bno (enc s raw))))"
    for lim :: "filsys_edition \<Rightarrow> u32" and enc
    unfolding flush_dirty_def
  proof (rule flush_then_tail [OF wr_super(1)])
    fix s assume s: "wrote_in ?S (Suc 0) fs s"
    show "wrote_in ?I (Suc 0) s (snd (let bno = v7_itod s ino in
      if lim s \<le> bno then (Inl EINVAL, s)
      else case v7fs_read_block s bno of Inl _ \<Rightarrow> (Inl EIO, s) | Inr raw \<Rightarrow> v7fs_write_block s bno (enc s raw)))"
      by (auto simp: Let_def wr_fields(4) [OF s] intro!: b [OF s] split: sum.split)
  qed
  have "flush_then ?S ?I fs (snd (v7fs_write_inode fs ino ip))" "flush_then ?S ?I fs (snd (v6_write_inode fs ino ip))"
    using t [of "\<lambda>s. ucast (fs_isize s)" "\<lambda>s raw. v7_inode_encode s raw (inode_off s ino) ip"]
      t [of "\<lambda>s. v6_data_start (ucast (fs_isize s))" "\<lambda>s raw. v6_inode_encode s raw (inode_off s ino) ip"]
    by (simp_all add: v7fs_write_inode_def v6_write_inode_def)
  moreover have "flush_then {word_off fs 0..<word_off fs 0 + block_bytes (p7_codec fs)}
      {word_off fs (p7_itod ino)..<word_off fs (p7_itod ino) + block_bytes (p7_codec fs)} fs
      (snd (try_op (if fs_fl_dirty fs then p7_super_write fs else (Inr (), fs)) (\<lambda>_ s.
        case read_words s (p7_itod ino) of Inl _ \<Rightarrow> (Inl EIO, s)
        | Inr ws \<Rightarrow> write_words s (p7_itod ino) (p7_inode_encode ws (unat (p7_itoo ino)) ip))))"
    by (rule flush_then_tail [OF wr_super(2)]) (auto intro!: b split: sum.split)
  moreover have "flush_then ?S1 {v1_blk_off fs (v1_itod ino)..<v1_blk_off fs (v1_itod ino) + 512} fs
      (snd (try_op (if fs_fl_dirty fs then v1_super_write fs else (Inr (), fs)) (\<lambda>_ s.
        case v1fs_read_block s (v1_itod ino) of Inl _ \<Rightarrow> (Inl EIO, s)
        | Inr raw \<Rightarrow> v1fs_write_block s (v1_itod ino) (v1_inode_encode raw (unat (v1_itoo ino) * 32) ip))))"
    by (rule flush_then_tail [OF wr_super(3)]) (auto intro!: b split: sum.split)
  ultimately show ?thesis
    by (simp add: ops_write_inode_def super_area_def inode_area_def p7fs_write_inode_def v1fs_write_inode_def split: option.split backend.split)
qed

end
