(* ===== verification/Directory.thy ===== *)
theory Directory
  imports File_IO
begin

text \<open>
  Directories: the fixed-size entries of V1 to V10 and System V (\<^verbatim>\<open>dir_fixed.c\<close>) and
  the variable-length records of 2.11BSD (\<^verbatim>\<open>dir_bsd211.c\<close>), with the directory slots of
  the operations tables.  Names are C strings: the bytes in front of the terminator.
\<close>

section \<open>Fixed-size entries\<close>

function fixed_name_eq_from :: "byte list \<Rightarrow> nat \<Rightarrow> byte list \<Rightarrow> nat \<Rightarrow> nat \<Rightarrow> bool" where
  "fixed_name_eq_from p off name mx i =
     (if mx \<le> i then True
      else if length name \<le> i then p ! (off + i) = 0
      else if p ! (off + i) \<noteq> name ! i then False
      else fixed_name_eq_from p off name mx (Suc i))"
  by auto
termination by (relation "measure (\<lambda>(p, off, name, mx, i). mx - i)") auto

declare fixed_name_eq_from.simps [simp del]

definition fixed_name_eq :: "byte list \<Rightarrow> nat \<Rightarrow> byte list \<Rightarrow> nat \<Rightarrow> bool" where
  "fixed_name_eq p off name mx = fixed_name_eq_from p off name mx 0"

definition dir_chunk :: "filsys_edition \<Rightarrow> nat" where
  "dir_chunk fs =
     (let d = fs_desc fs; c = d_bsize d div d_dirent_size d * d_dirent_size d
      in if c \<noteq> 0 then c else d_dirent_size d)"

text \<open>
  The scan the lookup, the insertion and the removal share: chunk after chunk is read, and in
  each the offsets \<^verbatim>\<open>for (b = 0; b + esize <= got; b += esize)\<close> are tried.  The
  result is the chunk's offset, its bytes and the offset of the first hit.
\<close>

definition entry_offsets :: "nat \<Rightarrow> nat \<Rightarrow> nat \<Rightarrow> nat list" where
  "entry_offsets esize start len = map (\<lambda>k. start + k * esize) [0..<(len - start) div esize]"

definition dir_chunks :: "filsys_edition \<Rightarrow> filsys_inode \<Rightarrow> nat list" where
  "dir_chunks fs ip =
     map (\<lambda>k. k * dir_chunk fs) [0..<(unat (ip_size ip) + dir_chunk fs - 1) div dir_chunk fs]"

fun fixed_scan ::
    "filsys_edition \<Rightarrow> filsys_inode \<Rightarrow> (byte list \<Rightarrow> nat \<Rightarrow> bool) \<Rightarrow> nat list \<Rightarrow> errno + (nat \<times> byte list \<times> nat) option" where
  "fixed_scan fs ip hit [] = Inr None"
| "fixed_scan fs ip hit (off # offs) =
     (case filsys_file_read fs ip (min (dir_chunk fs) (unat (ip_size ip) - off)) (int off) of
        Inl e \<Rightarrow> Inl e
      | Inr blk \<Rightarrow>
          (case find (hit blk) (entry_offsets (d_dirent_size (fs_desc fs)) 0 (length blk)) of
             Some b \<Rightarrow> Inr (Some (off, blk, b))
           | None \<Rightarrow> fixed_scan fs ip hit offs))"

definition fixed_entry_is :: "filsys_edition \<Rightarrow> byte list \<Rightarrow> byte list \<Rightarrow> nat \<Rightarrow> bool" where
  "fixed_entry_is fs name blk b \<longleftrightarrow>
     bo_get16 (d_bo (fs_desc fs)) blk b \<noteq> 0 \<and> fixed_name_eq blk (b + 2) name (d_max_namlen (fs_desc fs))"

definition v7fs_dir_lookup :: "filsys_edition \<Rightarrow> filsys_inode \<Rightarrow> byte list \<Rightarrow> errno + u32" where
  "v7fs_dir_lookup fs ip name =
     (case fixed_scan fs ip (fixed_entry_is fs name) (dir_chunks fs ip) of
        Inl e \<Rightarrow> Inl e
      | Inr None \<Rightarrow> Inl ENOENT
      | Inr (Some (_, blk, b)) \<Rightarrow> Inr (ucast (bo_get16 (d_bo (fs_desc fs)) blk b)))"

text \<open>\<^verbatim>\<open>return w < 0 ? (int)w : 0;\<close>\<close>

definition written :: "nat iop \<Rightarrow> unit iop" where
  "written m = try_op m (\<lambda>_ s. (Inr (), s))"

definition fixed_entry :: "filsys_edition \<Rightarrow> u32 \<Rightarrow> byte list \<Rightarrow> byte list" where
  "fixed_entry fs ino name =
     take (d_dirent_size (fs_desc fs))
       (memcpy_at (bo_put16 (d_bo (fs_desc fs)) (replicate 16 0) 0 (ucast ino)) 2 name)"

definition v7fs_dir_add :: "filsys_edition \<Rightarrow> filsys_inode \<Rightarrow> u32 \<Rightarrow> byte list \<Rightarrow> unit iop" where
  "v7fs_dir_add fs ip ino name =
     (if name = [] \<or> d_max_namlen (fs_desc fs) < length name then (Inl ENAMETOOLONG, fs, ip)
      else if 0x2F \<in> set name then (Inl EINVAL, fs, ip)
      else
        let ent = fixed_entry fs ino name in
        case fixed_scan fs ip (\<lambda>blk b. bo_get16 (d_bo (fs_desc fs)) blk b = 0) (dir_chunks fs ip) of
          Inl e \<Rightarrow> (Inl e, fs, ip)
        | Inr (Some (off, _, b)) \<Rightarrow> written (filsys_file_write fs ip ent (int (off + b)))
        | Inr None \<Rightarrow> written (filsys_file_write fs ip ent (int (unat (ip_size ip)))))"

definition v7fs_dir_remove :: "filsys_edition \<Rightarrow> filsys_inode \<Rightarrow> byte list \<Rightarrow> unit iop" where
  "v7fs_dir_remove fs ip name =
     (case fixed_scan fs ip (fixed_entry_is fs name) (dir_chunks fs ip) of
        Inl e \<Rightarrow> (Inl e, fs, ip)
      | Inr None \<Rightarrow> (Inl ENOENT, fs, ip)
      | Inr (Some (off, _, b)) \<Rightarrow>
          written (filsys_file_write fs ip (replicate (d_dirent_size (fs_desc fs)) 0) (int (off + b))))"

text \<open>
  The resumable scan.  Each round either hands out an entry or moves the token to the next
  chunk; dividing by a zero chunk is undefined.
\<close>

definition iter_fill ::
    "filsys_edition \<Rightarrow> nat \<Rightarrow> nat \<Rightarrow> filsys_iter_state \<Rightarrow> errno + filsys_iter_state" where
  "iter_fill fs chunk chunk_off st =
     (if it_buf_off st \<noteq> chunk_off \<or> it_buf st = []
      then case filsys_file_read fs (it_ip st) (min chunk (unat (ip_size (it_ip st)) - chunk_off)) (int chunk_off) of
             Inl e \<Rightarrow> Inl e
           | Inr b \<Rightarrow> Inr (st\<lparr>it_buf := b, it_buf_off := chunk_off\<rparr>)
      else Inr st)"

lemma iter_fill_keeps: "iter_fill fs c o' st = Inr st' \<Longrightarrow> it_ip st' = it_ip st \<and> it_next st' = it_next st"
  by (auto simp: iter_fill_def split: if_splits sum.splits)

lemma next_chunk_later: "0 < (c::nat) \<Longrightarrow> off < off div c * c + c"
  by (metis add.commute add_less_cancel_left div_mult_mod_eq mod_less_divisor)

function v7fs_dir_iter ::
    "filsys_edition \<Rightarrow> filsys_iter_state \<Rightarrow> (filsys_iter_state, dir_entry option) outcome" where
  "v7fs_dir_iter fs st =
     (let off = it_next st; esize = d_dirent_size (fs_desc fs); chunk = dir_chunk fs in
      if unat (ip_size (it_ip st)) \<le> off then (Inr None, st)
      else if chunk = 0 then (Inl UB, st)
      else
        let chunk_off = off div chunk * chunk in
        case iter_fill fs chunk chunk_off st of
          Inl e \<Rightarrow> (Inl e, st)
        | Inr st' \<Rightarrow>
            let buf = it_buf st' in
            (case find (\<lambda>rel. bo_get16 (d_bo (fs_desc fs)) buf rel \<noteq> 0)
                    (entry_offsets esize (off - chunk_off) (length buf)) of
               Some rel \<Rightarrow>
                 let next = chunk_off + rel + esize in
                 (Inr (Some (ucast (bo_get16 (d_bo (fs_desc fs)) buf rel),
                    takeWhile (\<lambda>c. c \<noteq> 0) (take (d_max_namlen (fs_desc fs)) (drop (rel + 2) buf)), next)),
                  st'\<lparr>it_next := next\<rparr>)
             | None \<Rightarrow> v7fs_dir_iter fs (st'\<lparr>it_next := chunk_off + chunk\<rparr>)))"
  by auto
termination
proof (relation "measure (\<lambda>(fs, st). unat (ip_size (it_ip st)) - it_next st)", goal_cases)
  case 1
  show ?case by simp
next
  case (2 fs st off esize chunk chunk_off st')
  have "off < chunk_off + chunk" using next_chunk_later [of chunk off] 2(5,6) by simp
  then show ?case using 2(1,4) iter_fill_keeps [OF 2(7)] by simp
qed

declare v7fs_dir_iter.simps [simp del]

section \<open>Variable-length records\<close>

record bsd211_rec =
  r_off :: nat
  r_ino :: u16
  r_reclen :: nat
  r_namlen :: nat

definition bsd211_iter_next :: "filsys_desc \<Rightarrow> byte list \<Rightarrow> nat \<Rightarrow> bsd211_rec option" where
  "bsd211_iter_next d buf off =
     (if off mod 4 \<noteq> 0 \<or> length buf < off + 6 then None
      else
        let ino = bo_get16 (d_bo d) buf off;
            reclen = unat (bo_get16 (d_bo d) buf (off + 2));
            namlen = unat (bo_get16 (d_bo d) buf (off + 4)) in
        if reclen < 8 \<or> reclen mod 4 \<noteq> 0 \<or> length buf < off + reclen then None
        else if reclen < namlen + 7 \<or> d_max_namlen d < namlen then None
        else if 512 < off mod 512 + reclen then None
        else Some \<lparr>r_off = off, r_ino = ino, r_reclen = reclen, r_namlen = namlen\<rparr>)"

lemma bsd211_iter_next_facts:
  assumes "bsd211_iter_next d buf off = Some r"
  shows "r_off r = off" "8 \<le> r_reclen r" "off + r_reclen r \<le> length buf" "r_namlen r + 7 \<le> r_reclen r"
    "r_namlen r \<le> d_max_namlen d" "off mod 512 + r_reclen r \<le> 512" "off mod 4 = 0" "r_reclen r mod 4 = 0"
  using assms by (auto simp: bsd211_iter_next_def Let_def split: if_splits)

text \<open>The records a \<^verbatim>\<open>while (bsd211_iter_next(&it))\<close> loop visits from an offset on.\<close>

function bsd211_records :: "filsys_desc \<Rightarrow> byte list \<Rightarrow> nat \<Rightarrow> bsd211_rec list" where
  "bsd211_records d buf off =
     (case bsd211_iter_next d buf off of
        None \<Rightarrow> []
      | Some r \<Rightarrow> r # bsd211_records d buf (off + r_reclen r))"
  by auto
termination
proof (relation "measure (\<lambda>(d, buf, off). length buf - off)", goal_cases)
  case 1
  show ?case by simp
next
  case (2 d buf off r)
  then show ?case using bsd211_iter_next_facts(2,3) [OF 2] by simp
qed

declare bsd211_records.simps [simp del]

definition bsd211_slurp :: "filsys_edition \<Rightarrow> filsys_inode \<Rightarrow> errno + byte list" where
  "bsd211_slurp fs ip =
     (if \<not> h_alloc (fs_host fs) (if ip_size ip \<noteq> 0 then unat (ip_size ip) else 1) then Inl ENOMEM
      else filsys_file_read fs ip (unat (ip_size ip)) 0)"

definition rec_name :: "byte list \<Rightarrow> bsd211_rec \<Rightarrow> byte list" where
  "rec_name buf r = take (r_namlen r) (drop (r_off r + 6) buf)"

definition rec_is :: "byte list \<Rightarrow> byte list \<Rightarrow> bsd211_rec \<Rightarrow> bool" where
  "rec_is buf name r \<longleftrightarrow> r_ino r \<noteq> 0 \<and> r_namlen r = length name \<and> rec_name buf r = name"

definition bsd211_dir_lookup :: "filsys_edition \<Rightarrow> filsys_inode \<Rightarrow> byte list \<Rightarrow> errno + u32" where
  "bsd211_dir_lookup fs ip name =
     (case bsd211_slurp fs ip of
        Inl e \<Rightarrow> Inl e
      | Inr buf \<Rightarrow>
          (case find (rec_is buf name) (bsd211_records (fs_desc fs) buf 0) of
             None \<Rightarrow> Inl ENOENT
           | Some r \<Rightarrow> Inr (ucast (r_ino r))))"

definition bsd211_dirsiz :: "nat \<Rightarrow> nat" where
  "bsd211_dirsiz namlen = (7 + namlen + 3) div 4 * 4"

text \<open>A record of \<open>reclen\<close> bytes for \<open>name\<close>: header, name, zeroes.\<close>

definition bsd211_entry :: "filsys_desc \<Rightarrow> u32 \<Rightarrow> nat \<Rightarrow> byte list \<Rightarrow> byte list" where
  "bsd211_entry d ino reclen name =
     memcpy_at (bo_put16 (d_bo d) (bo_put16 (d_bo d) (bo_put16 (d_bo d) (replicate reclen 0) 0 (ucast ino))
       2 (of_nat reclen)) 4 (of_nat (length name))) 6 name"

definition bsd211_append ::
    "filsys_edition \<Rightarrow> filsys_inode \<Rightarrow> u32 \<Rightarrow> byte list \<Rightarrow> nat \<Rightarrow> nat \<Rightarrow> unit iop" where
  "bsd211_append fs ip ino name prev_off end_off =
     (let need = bsd211_dirsiz (length name); in_chunk = end_off mod 512;
          pad = in_chunk \<noteq> 0 \<and> 512 < in_chunk + need;
          slot = (if pad then end_off + (512 - in_chunk) else end_off) in
      try_as EIO
        (if pad
         then written (filsys_file_write fs ip (bo_put16 (d_bo (fs_desc fs)) [0, 0] 0 (of_nat (slot - prev_off)))
                (int (prev_off + 2)))
         else (Inr (), fs, ip))
        (\<lambda>_ (fs, ip). written (filsys_file_write fs ip (bsd211_entry (fs_desc fs) ino need name) (int slot))))"

definition bsd211_dir_add :: "filsys_edition \<Rightarrow> filsys_inode \<Rightarrow> u32 \<Rightarrow> byte list \<Rightarrow> unit iop" where
  "bsd211_dir_add fs ip ino name =
     (if name = [] \<or> d_max_namlen (fs_desc fs) < length name then (Inl ENAMETOOLONG, fs, ip)
      else if 0x2F \<in> set name then (Inl EINVAL, fs, ip)
      else case bsd211_slurp fs ip of
        Inl e \<Rightarrow> (Inl e, fs, ip)
      | Inr buf \<Rightarrow>
          let recs = bsd211_records (fs_desc fs) buf 0; need = bsd211_dirsiz (length name) in
          (case find (\<lambda>r. r_ino r = 0 \<and> need \<le> r_reclen r) recs of
             Some r \<Rightarrow>
               written (filsys_file_write fs ip
                 (memcpy_at buf (r_off r) (bsd211_entry (fs_desc fs) ino (r_reclen r) name)) 0)
           | None \<Rightarrow>
               let prev_off = (if recs = [] then 0 else r_off (last recs));
                   end_off = (if recs = [] then 0 else r_off (last recs) + r_reclen (last recs)) in
               if end_off mod 4 \<noteq> 0 then (Inl EIO, fs, ip)
               else bsd211_append fs ip ino name prev_off end_off))"

definition bsd211_dir_remove :: "filsys_edition \<Rightarrow> filsys_inode \<Rightarrow> byte list \<Rightarrow> unit iop" where
  "bsd211_dir_remove fs ip name =
     (case bsd211_slurp fs ip of
        Inl e \<Rightarrow> (Inl e, fs, ip)
      | Inr buf \<Rightarrow>
          (case find (rec_is buf name) (bsd211_records (fs_desc fs) buf 0) of
             None \<Rightarrow> (Inl ENOENT, fs, ip)
           | Some r \<Rightarrow> written (filsys_file_write fs ip (bo_put16 (d_bo (fs_desc fs)) buf (r_off r) 0) 0)))"

text \<open>
  One chunk of the resumable scan: \<open>None\<close> when a malformed record ends the walk, otherwise the
  first used record, or the end of the chunk.
\<close>

function bsd211_chunk_scan :: "filsys_desc \<Rightarrow> byte list \<Rightarrow> nat \<Rightarrow> bsd211_rec option option" where
  "bsd211_chunk_scan d buf rel =
     (if length buf < rel + 6 then Some None
      else
        let eino = bo_get16 (d_bo d) buf rel;
            reclen = unat (bo_get16 (d_bo d) buf (rel + 2));
            nlen = unat (bo_get16 (d_bo d) buf (rel + 4)) in
        if reclen < 8 \<or> reclen mod 4 \<noteq> 0 \<or> length buf < rel + reclen then None
        else if reclen < nlen + 7 \<or> d_max_namlen d < nlen then None
        else if eino \<noteq> 0
        then Some (Some \<lparr>r_off = rel, r_ino = eino, r_reclen = reclen, r_namlen = nlen\<rparr>)
        else bsd211_chunk_scan d buf (rel + reclen))"
  by auto
termination by (relation "measure (\<lambda>(d, buf, rel). length buf - rel)") auto

declare bsd211_chunk_scan.simps [simp del]

function bsd211_dir_iter ::
    "filsys_edition \<Rightarrow> filsys_iter_state \<Rightarrow> (filsys_iter_state, dir_entry option) outcome" where
  "bsd211_dir_iter fs st =
     (let off = it_next st in
      if unat (ip_size (it_ip st)) \<le> off then (Inr None, st)
      else
        let chunk_off = off div 512 * 512 in
        case iter_fill fs 512 chunk_off st of
          Inl e \<Rightarrow> (Inl e, st)
        | Inr st' \<Rightarrow>
            (case bsd211_chunk_scan (fs_desc fs) (it_buf st') (off - chunk_off) of
               None \<Rightarrow> (Inr None, st')
             | Some (Some r) \<Rightarrow>
                 let next = chunk_off + r_off r + r_reclen r in
                 (Inr (Some (ucast (r_ino r), rec_name (it_buf st') r, next)), st'\<lparr>it_next := next\<rparr>)
             | Some None \<Rightarrow> bsd211_dir_iter fs (st'\<lparr>it_next := chunk_off + 512\<rparr>)))"
  by auto
termination
proof (relation "measure (\<lambda>(fs, st). unat (ip_size (it_ip st)) - it_next st)", goal_cases)
  case 1
  show ?case by simp
next
  case (2 fs st off chunk_off st')
  have "off < chunk_off + 512" using next_chunk_later [of 512 off] 2(3) by simp
  then show ?case using 2(1,2) iter_fill_keeps [OF 2(4)] by simp
qed

declare bsd211_dir_iter.simps [simp del]

section \<open>The directory slots\<close>

definition ops_dir_lookup :: "filsys_edition \<Rightarrow> filsys_inode \<Rightarrow> byte list \<Rightarrow> errno + u32" where
  "ops_dir_lookup fs ip name =
     (case d_ops (fs_desc fs) of
        None \<Rightarrow> Inl UB
      | Some P7fs_ops \<Rightarrow> p7fs_dir_lookup fs ip name
      | Some Bsd211fs_ops \<Rightarrow> bsd211_dir_lookup fs ip name
      | Some _ \<Rightarrow> v7fs_dir_lookup fs ip name)"

definition ops_dir_add :: "filsys_edition \<Rightarrow> filsys_inode \<Rightarrow> u32 \<Rightarrow> byte list \<Rightarrow> unit iop" where
  "ops_dir_add fs ip ino name =
     (case d_ops (fs_desc fs) of
        None \<Rightarrow> (Inl UB, fs, ip)
      | Some P7fs_ops \<Rightarrow> p7fs_dir_add fs ip ino name
      | Some Bsd211fs_ops \<Rightarrow> bsd211_dir_add fs ip ino name
      | Some _ \<Rightarrow> v7fs_dir_add fs ip ino name)"

definition ops_dir_remove :: "filsys_edition \<Rightarrow> filsys_inode \<Rightarrow> byte list \<Rightarrow> unit iop" where
  "ops_dir_remove fs ip name =
     (case d_ops (fs_desc fs) of
        None \<Rightarrow> (Inl UB, fs, ip)
      | Some P7fs_ops \<Rightarrow> p7fs_dir_remove fs ip name
      | Some Bsd211fs_ops \<Rightarrow> bsd211_dir_remove fs ip name
      | Some _ \<Rightarrow> v7fs_dir_remove fs ip name)"

definition ops_dir_iter ::
    "filsys_edition \<Rightarrow> filsys_iter_state \<Rightarrow> (filsys_iter_state, dir_entry option) outcome" where
  "ops_dir_iter fs st =
     (case d_ops (fs_desc fs) of
        None \<Rightarrow> (Inl UB, st)
      | Some P7fs_ops \<Rightarrow> p7fs_dir_iter fs st
      | Some Bsd211fs_ops \<Rightarrow> bsd211_dir_iter fs st
      | Some _ \<Rightarrow> v7fs_dir_iter fs st)"

section \<open>Names in fixed-size entries\<close>

lemma fixed_name_eq_from_iff:
  assumes "0 \<notin> set name" "length name \<le> mx" "off + mx \<le> length p" "i \<le> length name"
  shows "fixed_name_eq_from p off name mx i \<longleftrightarrow> takeWhile (\<lambda>c. c \<noteq> 0) (take (mx - i) (drop (off + i) p)) = drop i name"
  using assms
proof (induction p off name mx i rule: fixed_name_eq_from.induct)
  case (1 p off name mx i)
  show ?case
  proof (cases "mx \<le> i")
    case True
    then show ?thesis using 1(3,5) by (simp add: fixed_name_eq_from.simps)
  next
    case False
    then have c: "take (mx - i) (drop (off + i) p) = p ! (off + i) # take (mx - Suc i) (drop (off + Suc i) p)"
      using 1(4) by (subst Cons_nth_drop_Suc [symmetric]) (auto simp: take_Cons' Suc_diff_Suc)
    show ?thesis
    proof (cases "length name \<le> i")
      case True
      then show ?thesis using False c 1(5) by (subst fixed_name_eq_from.simps) simp
    next
      case short: False
      then have "name ! i \<in> set name" by simp
      then have "name ! i \<noteq> 0" using 1(2) by metis
      moreover have "drop i name = name ! i # drop (Suc i) name" using short by (simp add: Cons_nth_drop_Suc)
      ultimately have n: "drop i name = name ! i # drop (Suc i) name" "name ! i \<noteq> 0" by simp_all
      show ?thesis
        using False short c n 1(1) [OF False short _ 1(2-4)] by (subst fixed_name_eq_from.simps) auto
    qed
  qed
qed

lemma fixed_name_eq_iff:
  assumes "0 \<notin> set name" "length name \<le> mx" "off + mx \<le> length p"
  shows "fixed_name_eq p off name mx \<longleftrightarrow> takeWhile (\<lambda>c. c \<noteq> 0) (take mx (drop off p)) = name"
  using fixed_name_eq_from_iff [OF assms, of 0] by (simp add: fixed_name_eq_def)

section \<open>Records\<close>

lemma bsd211_records_inside:
  assumes "r \<in> set (bsd211_records d buf off)"
  shows "off \<le> r_off r \<and> bsd211_iter_next d buf (r_off r) = Some r"
  using assms
proof (induction d buf off rule: bsd211_records.induct)
  case (1 d buf off)
  show ?case
  proof (cases "bsd211_iter_next d buf off")
    case None
    then show ?thesis using 1(2) by (simp add: bsd211_records.simps)
  next
    case (Some s)
    note s = bsd211_iter_next_facts(1) [OF Some]
    have "r \<in> set (s # bsd211_records d buf (off + r_reclen s))"
      using 1(2) Some by (simp add: bsd211_records.simps [of d buf off])
    then show ?thesis using 1(1) [OF Some] s Some by auto
  qed
qed

lemma bsd211_records_disjoint:
  "sorted_wrt (\<lambda>r s. r_off r + r_reclen r \<le> r_off s) (bsd211_records d buf off)"
proof (induction d buf off rule: bsd211_records.induct)
  case (1 d buf off)
  show ?case
  proof (cases "bsd211_iter_next d buf off")
    case None
    then show ?thesis by (simp add: bsd211_records.simps)
  next
    case (Some r)
    then show ?thesis using 1 [OF Some] bsd211_iter_next_facts(1) [OF Some] bsd211_records_inside
      by (subst bsd211_records.simps) auto
  qed
qed

lemma dirsiz_holds: "namlen + 7 \<le> bsd211_dirsiz namlen"
  by (simp add: bsd211_dirsiz_def)

lemma length_bsd211_entry:
  "length name + 6 \<le> reclen \<Longrightarrow> length (bsd211_entry d ino reclen name) = reclen"
  by (simp add: bsd211_entry_def)

lemma bsd211_entry_fields:
  assumes "length name + 6 \<le> reclen"
  shows "bo_get16 (d_bo d) (bsd211_entry d ino reclen name) 0 = ucast ino"
    "bo_get16 (d_bo d) (bsd211_entry d ino reclen name) 2 = of_nat reclen"
    "bo_get16 (d_bo d) (bsd211_entry d ino reclen name) 4 = of_nat (length name)"
    "take (length name) (drop 6 (bsd211_entry d ino reclen name)) = name"
proof -
  let ?h = "bo_put16 (d_bo d) (bo_put16 (d_bo d) (bo_put16 (d_bo d) (replicate reclen 0) 0 (ucast ino))
       2 (of_nat reclen)) 4 (of_nat (length name))"
  have e: "bsd211_entry d ino reclen name = memcpy_at ?h 6 name" by (simp add: bsd211_entry_def)
  have len: "6 + length name \<le> length ?h" using assms by simp
  have g: "bo_get16 (d_bo d) (memcpy_at ?h 6 name) k = bo_get16 (d_bo d) ?h k" if "k + 2 \<le> 6" for k
    using that len by (intro bo16.get_cong) (auto simp: nth_memcpy_at)
  show "bo_get16 (d_bo d) (bsd211_entry d ino reclen name) 0 = ucast ino"
    unfolding e g [of 0, simplified] using assms by (simp add: codec_simps)
  show "bo_get16 (d_bo d) (bsd211_entry d ino reclen name) 2 = of_nat reclen"
    unfolding e using g [of 2] assms by (simp add: codec_simps)
  show "bo_get16 (d_bo d) (bsd211_entry d ino reclen name) 4 = of_nat (length name)"
    unfolding e using g [of 4] assms by (simp add: codec_simps)
  show "take (length name) (drop 6 (bsd211_entry d ino reclen name)) = name"
    unfolding e by (rule memcpy_at_window [OF len])
qed

lemma bo_get16_moved:
  assumes "p ! off = q ! k" "p ! (off + 1) = q ! (k + 1)"
  shows "bo_get16 bo p off = bo_get16 bo q k"
  using assms by (cases bo) (simp_all add: bo_defs bo_get16me_def bo_get16be_def)

text \<open>A record written at a legal place is the record read there.\<close>

lemma bsd211_entry_found:
  assumes "off mod 4 = 0" "reclen mod 4 = 0" "bsd211_dirsiz (length name) \<le> reclen" "off + reclen \<le> length buf"
    "off mod 512 + reclen \<le> 512" "length name \<le> d_max_namlen d"
    and b': "buf' = memcpy_at buf off (bsd211_entry d ino reclen name)"
  shows "bsd211_iter_next d buf' off =
      Some \<lparr>r_off = off, r_ino = ucast ino, r_reclen = reclen, r_namlen = length name\<rparr>"
    "rec_name buf' \<lparr>r_off = off, r_ino = i, r_reclen = reclen, r_namlen = length name\<rparr> = name"
proof -
  let ?e = "bsd211_entry d ino reclen name"
  have n: "length name + 7 \<le> reclen" using dirsiz_holds [of "length name"] assms(3) by linarith
  have le: "length ?e = reclen" using n by (simp add: length_bsd211_entry)
  have fit: "off + length ?e \<le> length buf" using le assms(4) by simp
  have r: "reclen \<le> 512" using assms(5) by linarith
  have g: "bo_get16 (d_bo d) buf' (off + k) = bo_get16 (d_bo d) ?e k" if "k + 2 \<le> reclen" for k
    using that le fit by (intro bo_get16_moved) (simp_all add: b' nth_memcpy_at)
  have 8: "8 \<le> reclen" using n assms(2) by presburger
  have len: "length buf' = length buf" using fit by (simp add: b')
  have u: "unat (of_nat reclen :: u16) = reclen" "unat (of_nat (length name) :: u16) = length name"
    using r n by (simp_all add: unat_of_nat_lt)
  show "bsd211_iter_next d buf' off = Some \<lparr>r_off = off, r_ino = ucast ino, r_reclen = reclen, r_namlen = length name\<rparr>"
    using g [of 0] g [of 2] g [of 4] 8 n assms(1-6) u len bsd211_entry_fields [of name reclen d ino]
    by (simp add: bsd211_iter_next_def Let_def)
  have "take (length name) (drop 6 (take (length ?e) (drop off buf'))) = name"
    unfolding b' memcpy_at_window [OF fit] using n by (simp add: bsd211_entry_fields(4))
  then show "rec_name buf' \<lparr>r_off = off, r_ino = i, r_reclen = reclen, r_namlen = length name\<rparr> = name"
    using n le by (simp add: rec_name_def drop_take add.commute)
qed

section \<open>The iterators move on\<close>

lemma find_in: "find P xs = Some x \<Longrightarrow> x \<in> set xs"
  by (auto simp: find_Some_iff)

lemma iter_fill_ok:
  assumes "iter_fill fs c o' st = Inr st'"
  shows "it_ip st' = it_ip st" "it_next st' = it_next st"
  using iter_fill_keeps [OF assms] by simp_all

lemma v7fs_dir_iter_moves:
  assumes "v7fs_dir_iter fs st = (Inr (Some e), st')"
  shows "it_ip st' = it_ip st \<and> it_next st < it_next st' \<and> it_next st < unat (ip_size (it_ip st))"
  using assms
proof (induction fs st rule: v7fs_dir_iter.induct)
  case (1 fs st)
  let ?off = "it_next st" and ?c = "dir_chunk fs" and ?e = "d_dirent_size (fs_desc fs)"
  let ?co = "?off div ?c * ?c"
  have off: "?off < unat (ip_size (it_ip st))" and c: "?c \<noteq> 0"
    using 1(2) unfolding v7fs_dir_iter.simps [of fs st] by (simp_all add: Let_def split: if_splits)
  have e: "?e \<noteq> 0" using c by (auto simp: dir_chunk_def Let_def split: if_splits)
  have co: "?co \<le> ?off" "?off < ?co + ?c" using next_chunk_later [of ?c ?off] c by simp_all
  obtain s where f: "iter_fill fs ?c ?co st = Inr s"
    using 1(2) off c unfolding v7fs_dir_iter.simps [of fs st] by (auto simp: Let_def split: sum.splits)
  note s = iter_fill_ok [OF f]
  show ?case
  proof (cases "find (\<lambda>rel. bo_get16 (d_bo (fs_desc fs)) (it_buf s) rel \<noteq> 0) (entry_offsets ?e (?off - ?co) (length (it_buf s)))")
    case None
    have st': "v7fs_dir_iter fs (s\<lparr>it_next := ?co + ?c\<rparr>) = (Inr (Some e), st')"
      using 1(2) off c f None unfolding v7fs_dir_iter.simps [of fs st] by (simp add: Let_def)
    have ne: "\<not> unat (ip_size (it_ip st)) \<le> ?off" using off by simp
    from 1(1) [OF refl refl refl ne c refl f refl None st'] s co off show ?thesis by auto
  next
    case (Some rel)
    then have "?off - ?co \<le> rel" using find_in [OF Some] by (auto simp: entry_offsets_def)
    moreover have "st' = s\<lparr>it_next := ?co + rel + ?e\<rparr>"
      using 1(2) off c f Some unfolding v7fs_dir_iter.simps [of fs st] by (simp add: Let_def)
    ultimately show ?thesis using s co(1) e off by simp
  qed
qed

lemma bsd211_chunk_scan_from:
  "bsd211_chunk_scan d buf rel = Some (Some r) \<Longrightarrow> rel \<le> r_off r \<and> 8 \<le> r_reclen r"
proof (induction d buf rel rule: bsd211_chunk_scan.induct)
  case (1 d buf rel)
  show ?case
    using 1(2) 1(1) [OF _ refl refl refl] unfolding bsd211_chunk_scan.simps [of d buf rel]
    by (fastforce simp: Let_def split: if_splits)
qed

lemma bsd211_dir_iter_moves:
  assumes "bsd211_dir_iter fs st = (Inr (Some e), st')"
  shows "it_ip st' = it_ip st \<and> it_next st < it_next st' \<and> it_next st < unat (ip_size (it_ip st))"
  using assms
proof (induction fs st rule: bsd211_dir_iter.induct)
  case (1 fs st)
  let ?off = "it_next st"
  let ?co = "?off div 512 * 512"
  have off: "?off < unat (ip_size (it_ip st))"
    using 1(2) unfolding bsd211_dir_iter.simps [of fs st] by (simp add: Let_def split: if_splits)
  have co: "?co \<le> ?off" "?off < ?co + 512" using next_chunk_later [of 512 ?off] by simp_all
  obtain s where f: "iter_fill fs 512 ?co st = Inr s"
    using 1(2) off unfolding bsd211_dir_iter.simps [of fs st] by (auto simp: Let_def split: sum.splits)
  note s = iter_fill_ok [OF f]
  show ?case
  proof (cases "bsd211_chunk_scan (fs_desc fs) (it_buf s) (?off - ?co)")
    case None
    then show ?thesis using 1(2) off f unfolding bsd211_dir_iter.simps [of fs st] by (simp add: Let_def)
  next
    case (Some found)
    show ?thesis
    proof (cases found)
      case None
      have st': "bsd211_dir_iter fs (s\<lparr>it_next := ?co + 512\<rparr>) = (Inr (Some e), st')"
        using 1(2) off f Some None unfolding bsd211_dir_iter.simps [of fs st] by (simp add: Let_def)
      have ne: "\<not> unat (ip_size (it_ip st)) \<le> ?off" using off by simp
      from 1(1) [OF refl ne refl f Some None st'] s co off show ?thesis by auto
    next
      case (Some r)
      have "?off - ?co \<le> r_off r \<and> 8 \<le> r_reclen r"
        using bsd211_chunk_scan_from \<open>bsd211_chunk_scan _ _ _ = Some found\<close> Some by blast
      moreover have "st' = s\<lparr>it_next := ?co + r_off r + r_reclen r\<rparr>"
        using 1(2) off f \<open>bsd211_chunk_scan _ _ _ = Some found\<close> Some
        unfolding bsd211_dir_iter.simps [of fs st] by (simp add: Let_def)
      moreover have "?off < ?co + r_off r + r_reclen r" using calculation(1) by linarith
      ultimately show ?thesis using s off by simp
    qed
  qed
qed

lemma zero_filled_name:
  assumes "0 \<notin> set name" "length name \<le> length f" "\<forall>c \<in> set (dropWhile (\<lambda>c. c \<noteq> 0) f). c = (0 :: byte)"
  shows "takeWhile (\<lambda>c. c \<noteq> 0) f = name \<longleftrightarrow> f = name @ replicate (length f - length name) 0"
proof
  assume "takeWhile (\<lambda>c. c \<noteq> 0) f = name"
  moreover have "dropWhile (\<lambda>c. c \<noteq> 0) f = replicate (length (dropWhile (\<lambda>c. c \<noteq> 0) f)) 0"
    using assms(3) by (metis replicate_length_same)
  ultimately have "f = name @ replicate (length (dropWhile (\<lambda>c. c \<noteq> 0) f)) 0" by (metis takeWhile_dropWhile_id)
  then show "f = name @ replicate (length f - length name) 0"
    by (metis add_diff_cancel_left' length_append length_replicate)
next
  assume f: "f = name @ replicate (length f - length name) 0"
  have "takeWhile (\<lambda>c. c \<noteq> 0) (name @ replicate k (0 :: byte)) = name" for k
    using assms(1) by (subst takeWhile_append2) (auto simp: takeWhile_replicate)
  then show "takeWhile (\<lambda>c. c \<noteq> 0) f = name" by (subst f)
qed

end
