(* ===== verification/Filsys.thy ===== *)
theory Filsys
  imports Directory
begin

text \<open>
  The version-agnostic access layer (\<^verbatim>\<open>filsys.c\<close>): the inode-anchored operations the
  front ends call.  Each operation reads what it needs and validates, then mutates; on an
  error in the middle it undoes what it can.  The calls into the allocator of inode numbers
  may fail to return (see \<^verbatim>\<open>v7fs_ialloc\<close>), so the operations that make an inode are
  option-valued: \<open>None\<close> is a call that does not return.
\<close>

section \<open>The handle\<close>

text \<open>\<^verbatim>\<open>struct filsys\<close> less its tables and backend state, which are the mount.\<close>

record filsys =
  hd_ver :: edition
  hd_uid :: u32
  hd_gid :: u32
  hd_readonly :: bool

text \<open>Two more forms of \<^verbatim>\<open>if (rc) return rc;\<close>: after a read, and after an operation whose inode copy is dropped.\<close>

definition need :: "errno + 'a \<Rightarrow> 's \<Rightarrow> ('a \<Rightarrow> ('s, 'b) outcome) \<Rightarrow> ('s, 'b) outcome" where
  "need r s k = (case r of Inl e \<Rightarrow> (Inl e, s) | Inr x \<Rightarrow> k x)"

definition need_as :: "errno \<Rightarrow> errno + 'a \<Rightarrow> 's \<Rightarrow> ('a \<Rightarrow> ('s, 'b) outcome) \<Rightarrow> ('s, 'b) outcome" where
  "need_as e r s k = (case r of Inl _ \<Rightarrow> (Inl e, s) | Inr x \<Rightarrow> k x)"

definition drop_ip :: "'a iop \<Rightarrow> 'a op" where
  "drop_ip m = (fst m, fst (snd m))"

lemma need_simps [simp]:
  "need (Inl e) s k = (Inl e, s)" "need (Inr x) s k = k x"
  "need_as d (Inl e) s k = (Inl d, s)" "need_as d (Inr x) s k = k x"
  by (simp_all add: need_def need_as_def)

lemma drop_ip_simps [simp]: "drop_ip (r, fs, ip) = (r, fs)"
  by (simp add: drop_ip_def)

section \<open>Tearing an inode down\<close>

definition itrunc :: "filsys_edition \<Rightarrow> filsys_inode \<Rightarrow> (filsys_inode, filsys_blklist) outcome" where
  "itrunc fs ip =
     (case filsys_blklist_new fs of None \<Rightarrow> (Inl ENOMEM, ip) | Some b \<Rightarrow> filsys_itrunc fs ip b)"

definition itrunc_from :: "filsys_edition \<Rightarrow> filsys_inode \<Rightarrow> u32 \<Rightarrow> filsys_blklist iop" where
  "itrunc_from fs ip first_blk =
     (case filsys_blklist_new fs of
        None \<Rightarrow> (Inl ENOMEM, fs, ip)
      | Some b \<Rightarrow> filsys_itrunc_from fs ip first_blk b)"

text \<open>Truncate, persist the cleared inode, and only then release its blocks and its number.\<close>

definition inode_destroy :: "filsys_edition \<Rightarrow> u32 \<Rightarrow> filsys_inode \<Rightarrow> unit op" where
  "inode_destroy fs ino ip =
     (case itrunc fs ip of
        (Inl e, _) \<Rightarrow> (Inl e, fs)
      | (Inr bl, ip) \<Rightarrow>
          try_op (ops_write_inode fs ino (ip\<lparr>ip_mode := 0\<rparr>))
            (\<lambda>_ fs. (Inr (), ops_ifree (filsys_blklist_drain fs (Some bl)) ino)))"

definition filsys_free_ino :: "filsys_edition \<Rightarrow> u32 \<Rightarrow> unit op" where
  "filsys_free_ino fs ino = need_as EIO (ops_read_inode fs ino) fs (inode_destroy fs ino)"

section \<open>Closing and synchronising\<close>

definition ops_close :: "filsys_edition \<Rightarrow> unit op" where
  "ops_close fs =
     (case d_ops (fs_desc fs) of
        None \<Rightarrow> (Inl UB, fs)
      | Some V1fs_ops \<Rightarrow> v1fs_close fs
      | Some P7fs_ops \<Rightarrow> p7fs_close fs
      | Some _ \<Rightarrow> v7fs_close fs)"

definition ops_sync :: "filsys_edition \<Rightarrow> unit op" where
  "ops_sync fs =
     (case d_ops (fs_desc fs) of
        None \<Rightarrow> (Inl UB, fs)
      | Some V1fs_ops \<Rightarrow> v1fs_sync fs
      | Some P7fs_ops \<Rightarrow> p7fs_sync fs
      | Some _ \<Rightarrow> v7fs_sync fs)"

text \<open>V1 and the PDP-7 have no \<^verbatim>\<open>mark_clean\<close>.\<close>

definition has_mark :: "filsys_edition \<Rightarrow> bool" where
  "has_mark fs \<longleftrightarrow> d_ops (fs_desc fs) \<noteq> Some V1fs_ops \<and> d_ops (fs_desc fs) \<noteq> Some P7fs_ops"

definition filsys_close :: "filsys \<Rightarrow> filsys_edition \<Rightarrow> unit op" where
  "filsys_close h fs =
     (let (rc, fs) = (if \<not> hd_readonly h \<and> has_mark fs then v7fs_mark_clean fs else (Inr (), fs));
          (r, fs) = ops_close fs
      in (case r of Inl e \<Rightarrow> Inl e | Inr _ \<Rightarrow> rc, fs))"

text \<open>\<open>fsync\<close> is what the host's \<^verbatim>\<open>fsync\<close> returns on the image's descriptor.\<close>

definition filsys_sync :: "errno + unit \<Rightarrow> filsys \<Rightarrow> filsys_edition \<Rightarrow> unit op" where
  "filsys_sync fsync h fs =
     try_op (ops_sync fs) (\<lambda>_ fs. (if hd_readonly h then Inr () else fsync, fs))"

section \<open>Reading\<close>

definition filsys_walk :: "filsys_edition \<Rightarrow> u32 \<Rightarrow> byte list \<Rightarrow> errno + u32" where
  "filsys_walk fs ino name =
     (if d_max_namlen (fs_desc fs) < length name then Inl ENAMETOOLONG
      else case ops_read_inode fs ino of
        Inl e \<Rightarrow> Inl e
      | Inr dip \<Rightarrow> if \<not> mode_is_dir (fs_desc fs) dip then Inl ENOTDIR else ops_dir_lookup fs dip name)"

record filsys_stat =
  st_ino :: u32
  st_mode :: u32
  st_nlink :: u32
  st_uid :: u32
  st_gid :: u32
  st_size :: u32
  st_rdev :: u32
  st_atime :: u32
  st_mtime :: u32
  st_ctime :: u32
  st_blksize :: nat
  st_bytes :: nat

definition filsys_stat_inode :: "filsys \<Rightarrow> filsys_edition \<Rightarrow> filsys_inode \<Rightarrow> errno + filsys_stat" where
  "filsys_stat_inode h fs ip =
     (case filsys_allocated_blocks fs ip of
        Inl e \<Rightarrow> Inl e
      | Inr blocks \<Rightarrow> Inr
          \<lparr>st_ino = ip_ino ip, st_mode = mode_to_posix (fs_desc fs) ip,
           st_nlink = scast (ip_nlink ip), st_uid = hd_uid h, st_gid = hd_gid h, st_size = ip_size ip,
           st_rdev = (if mode_is_device (fs_desc fs) ip then ip_addr ip ! 0 else 0),
           st_atime = ip_atime ip, st_mtime = ip_mtime ip, st_ctime = ip_ctime ip,
           st_blksize = ops_blocksize fs, st_bytes = blocks * ops_blocksize fs\<rparr>)"

definition filsys_stat_ino :: "filsys \<Rightarrow> filsys_edition \<Rightarrow> u32 \<Rightarrow> errno + filsys_stat" where
  "filsys_stat_ino h fs ino =
     (case ops_read_inode fs ino of Inl e \<Rightarrow> Inl e | Inr ip \<Rightarrow> filsys_stat_inode h fs ip)"

text \<open>The iterator state and its block buffer are one allocation of 128 + 8192 bytes.\<close>

definition filsys_dir_seek :: "filsys_edition \<Rightarrow> u32 \<Rightarrow> nat \<Rightarrow> errno + filsys_iter_state" where
  "filsys_dir_seek fs ino off =
     (case ops_read_inode fs ino of
        Inl e \<Rightarrow> Inl e
      | Inr ip \<Rightarrow>
          if \<not> mode_is_dir (fs_desc fs) ip then Inl ENOTDIR
          else if maxfile fs < unat (ip_size ip) then Inl EFBIG
          else if \<not> h_alloc (fs_host fs) 8320 then Inl ENOMEM
          else Inr \<lparr>it_ip = ip, it_buf = [], it_buf_off = 0, it_next = off\<rparr>)"

partial_function (option) dir_empty_loop :: "filsys_edition \<Rightarrow> filsys_iter_state \<Rightarrow> (errno + bool) option" where
  "dir_empty_loop fs st =
     (case ops_dir_iter fs st of
        (Inl e, _) \<Rightarrow> Some (Inl e)
      | (Inr None, _) \<Rightarrow> Some (Inr True)
      | (Inr (Some (_, name, _)), st) \<Rightarrow>
          if name \<noteq> str_dot \<and> name \<noteq> str_dotdot then Some (Inr False) else dir_empty_loop fs st)"

definition dir_is_empty :: "filsys_edition \<Rightarrow> u32 \<Rightarrow> (errno + bool) option" where
  "dir_is_empty fs ino =
     (case filsys_dir_seek fs ino 0 of Inl e \<Rightarrow> Some (Inl e) | Inr st \<Rightarrow> dir_empty_loop fs st)"

definition filsys_read_ino :: "filsys_edition \<Rightarrow> u32 \<Rightarrow> nat \<Rightarrow> int \<Rightarrow> errno + byte list" where
  "filsys_read_ino fs ino sz off =
     (case ops_read_inode fs ino of Inl e \<Rightarrow> Inl e | Inr ip \<Rightarrow> filsys_file_read fs ip sz off)"

definition filsys_readlink_ino :: "filsys_edition \<Rightarrow> u32 \<Rightarrow> nat \<Rightarrow> errno + byte list" where
  "filsys_readlink_ino fs ino sz =
     (if d_iflnk (fs_desc fs) = 0 then Inl ENOSYS
      else case ops_read_inode fs ino of
        Inl e \<Rightarrow> Inl e
      | Inr ip \<Rightarrow>
          if ip_mode ip AND d_ifmt (fs_desc fs) \<noteq> d_iflnk (fs_desc fs) then Inl EINVAL
          else let n = min (unat (ip_size ip)) sz in
            if n = 0 then Inr [] else filsys_file_read fs ip n 0)"

text \<open>The extent loop: \<open>plen\<close> grows while the next logical block maps to \<open>expect\<close>.  Block sizes are positive.\<close>

function bmap_extend :: "filsys_edition \<Rightarrow> filsys_inode \<Rightarrow> nat \<Rightarrow> nat \<Rightarrow> u32 \<Rightarrow> u32 \<Rightarrow> nat \<Rightarrow> nat" where
  "bmap_extend fs ip bs len cur expect plen =
     (if len \<le> plen \<or> bs = 0 then plen
      else case fst (filsys_bmap fs ip cur False) of
        Inl _ \<Rightarrow> plen
      | Inr nb \<Rightarrow>
          if nb \<noteq> expect then plen
          else bmap_extend fs ip bs len (cur + 1) (if nb \<noteq> 0 then nb + 1 else 0) (plen + min bs (len - plen)))"
  by auto
termination by (relation "measure (\<lambda>(fs, ip, bs, len, cur, expect, plen). len - plen)") auto

declare bmap_extend.simps [simp del]

text \<open>Mapped or hole, physical address and length of the run at an offset.\<close>

definition filsys_bmap_ino :: "filsys_edition \<Rightarrow> u32 \<Rightarrow> nat \<Rightarrow> nat \<Rightarrow> errno + (bool \<times> nat \<times> nat)" where
  "filsys_bmap_ino fs ino off len =
     (case ops_read_inode fs ino of
        Inl e \<Rightarrow> Inl e
      | Inr ip \<Rightarrow>
          let bs = ops_blocksize fs; lbn = of_nat (off div bs); boff = off mod bs in
          (case fst (filsys_bmap fs ip lbn False) of
             Inl e \<Rightarrow> Inl e
           | Inr bno \<Rightarrow> Inr (bno \<noteq> 0, unat bno * bs + boff,
               bmap_extend fs ip bs len (lbn + 1) (if bno \<noteq> 0 then bno + 1 else 0) (min (bs - boff) len))))"

section \<open>Writing\<close>

text \<open>
  A failed write frees the blocks past the old size: it is collected from the inode, the inode
  is written, and the blocks are released.
\<close>

definition write_rollback :: "filsys_edition \<Rightarrow> u32 \<Rightarrow> filsys_inode \<Rightarrow> u32 \<Rightarrow> unit op" where
  "write_rollback fs ino ip oldsize =
     (let bs = of_nat (ops_blocksize fs);
          first_blk = (if oldsize \<noteq> 0 then (oldsize - 1) div bs + 1 else 0) in
      case itrunc_from fs ip first_blk of
        (Inl e, fs, _) \<Rightarrow> (Inl e, fs)
      | (Inr bl, fs, ip) \<Rightarrow>
          try_op (ops_write_inode fs ino ip) (\<lambda>_ fs. (Inr (), filsys_blklist_drain fs (Some bl))))"

definition filsys_write_ino :: "filsys_edition \<Rightarrow> u32 \<Rightarrow> byte list \<Rightarrow> int \<Rightarrow> nat op" where
  "filsys_write_ino fs ino buf off =
     need (ops_read_inode fs ino) fs (\<lambda>ip.
       if off < 0 then (Inl EINVAL, fs)
       else if maxfile fs < nat off + length buf then (Inl EFBIG, fs)
       else case filsys_file_write fs ip buf off of
         (Inr n, fs, _) \<Rightarrow> (Inr n, fs)
       | (Inl e, fs, ip') \<Rightarrow> try_op (write_rollback fs ino ip' (ip_size ip)) (\<lambda>_ fs. (Inl e, fs)))"

section \<open>Mutation primitives\<close>

definition preflight_create :: "filsys_edition \<Rightarrow> filsys_inode \<Rightarrow> byte list \<Rightarrow> errno + unit" where
  "preflight_create fs ddir name =
     (if \<not> mode_is_dir (fs_desc fs) ddir then Inl ENOTDIR
      else if name = str_dot \<or> name = str_dotdot then Inl EEXIST
      else case ops_dir_lookup fs ddir name of
        Inr _ \<Rightarrow> Inl EEXIST
      | Inl e \<Rightarrow> if e = ENOENT then Inr () else Inl e)"

text \<open>The parent, read and checked: the part in front of every \<^verbatim>\<open>validation/mutation line\<close> of the creating operations.\<close>

definition create_parent :: "filsys_edition \<Rightarrow> u32 \<Rightarrow> byte list \<Rightarrow> errno + filsys_inode" where
  "create_parent fs dir name =
     (case ops_read_inode fs dir of
        Inl e \<Rightarrow> Inl e
      | Inr ddir \<Rightarrow> (case preflight_create fs ddir name of Inl e \<Rightarrow> Inl e | Inr _ \<Rightarrow> Inr ddir))"

definition withdraw_name :: "filsys_edition \<Rightarrow> u32 \<Rightarrow> byte list \<Rightarrow> u32 \<Rightarrow> unit op" where
  "withdraw_name fs dino name nino =
     need (ops_read_inode fs dino) fs (\<lambda>fresh.
       case ops_dir_lookup fs fresh name of
         Inl e \<Rightarrow> if e = ENOENT then (Inr (), fs) else (Inl e, fs)
       | Inr found \<Rightarrow> if found \<noteq> nino then (Inr (), fs) else drop_ip (ops_dir_remove fs fresh name))"

definition new_inode :: "filsys_edition \<Rightarrow> u32 \<Rightarrow> u32 \<Rightarrow> u32 \<Rightarrow> ftype \<Rightarrow> u32 \<Rightarrow> u32 \<Rightarrow> filsys_inode" where
  "new_inode fs mode uid gid type rdev ino =
     (let now = h_now (fs_host fs);
          ip = (zero_inode ino)\<lparr>ip_mode := mode_to_disk (fs_desc fs) mode type,
                 ip_nlink := (if type = FT_DIR then 2 else 1), ip_uid := ucast uid, ip_gid := ucast gid,
                 ip_atime := now, ip_mtime := now, ip_ctime := now\<rparr>
      in if rdev \<noteq> 0 then ip\<lparr>ip_addr := (ip_addr ip)[0 := rdev]\<rparr> else ip)"

definition inode_create ::
    "filsys_edition \<Rightarrow> u32 \<Rightarrow> u32 \<Rightarrow> u32 \<Rightarrow> ftype \<Rightarrow> u32 \<Rightarrow> ((u32 \<times> filsys_inode) op) option" where
  "inode_create fs mode uid gid type rdev =
     map_option (\<lambda>r. try_op r (\<lambda>ino fs.
         let ip = new_inode fs mode uid gid type rdev ino in
         case ops_write_inode fs ino ip of
           (Inl e, fs) \<Rightarrow> (Inl e, ops_ifree fs ino)
         | (Inr _, fs) \<Rightarrow> (Inr (ino, ip), fs)))
       (ops_ialloc fs)"

text \<open>Removing a name: the state \<open>orphaned\<close> is read off the signed 16-bit link count.\<close>

definition remove_name ::
    "filsys_edition \<Rightarrow> filsys_inode \<Rightarrow> byte list \<Rightarrow> filsys_inode \<Rightarrow> bool \<Rightarrow> (filsys_inode \<times> bool \<times> bool) op" where
  "remove_name fs ddir name ip defer =
     try_op (drop_ip (ops_dir_remove fs ddir name)) (\<lambda>_ fs.
       let ip = ip\<lparr>ip_nlink := ip_nlink ip - 1\<rparr>; orphaned = sint (ip_nlink ip) \<le> 0
       in (Inr (ip, orphaned, orphaned \<and> defer), fs))"

section \<open>Creating names\<close>

text \<open>
  Linking a fresh inode: when the insertion fails the name is withdrawn, and the inode is torn
  down only if the name is gone for certain.
\<close>

definition link_new :: "filsys_edition \<Rightarrow> u32 \<Rightarrow> filsys_inode \<Rightarrow> byte list \<Rightarrow> u32 \<Rightarrow> filsys_inode \<Rightarrow> unit op" where
  "link_new fs dir ddir name nino nip =
     (case ops_dir_add fs ddir nino name of
        (Inr _, fs, _) \<Rightarrow> (Inr (), fs)
      | (Inl e, fs, _) \<Rightarrow>
          (case withdraw_name fs dir name nino of
             (Inr _, fs) \<Rightarrow> (Inl e, snd (inode_destroy fs nino nip))
           | (Inl _, fs) \<Rightarrow> (Inl e, fs)))"

definition filsys_create_in ::
    "filsys_edition \<Rightarrow> u32 \<Rightarrow> byte list \<Rightarrow> u32 \<Rightarrow> u32 \<Rightarrow> u32 \<Rightarrow> (u32 op) option" where
  "filsys_create_in fs dir name mode uid gid =
     (case uidgid_fit uid gid of
        Inl e \<Rightarrow> Some (Inl e, fs)
      | Inr _ \<Rightarrow>
          (case create_parent fs dir name of
             Inl e \<Rightarrow> Some (Inl e, fs)
           | Inr ddir \<Rightarrow>
               map_option (\<lambda>r. try_op r (\<lambda>(nino, nip) fs.
                   try_op (link_new fs dir ddir name nino nip) (\<lambda>_ fs. (Inr nino, fs))))
                 (inode_create fs mode uid gid FT_REG 0)))"

text \<open>
  The clean-up of \<^verbatim>\<open>filsys_mkdir_in\<close>: truncate, clear, and release when the clear has
  been written.  A new directory has at most its first blocks, in direct slots, so a failing
  truncation has collected nothing.
\<close>

definition mkdir_fail :: "filsys_edition \<Rightarrow> u32 \<Rightarrow> filsys_inode \<Rightarrow> filsys_edition" where
  "mkdir_fail fs nino nip =
     (let (r, nip) = itrunc fs nip in
      case ops_write_inode fs nino (nip\<lparr>ip_mode := 0\<rparr>) of
        (Inl _, fs) \<Rightarrow> fs
      | (Inr _, fs) \<Rightarrow>
          ops_ifree (filsys_blklist_drain fs (case r of Inl _ \<Rightarrow> None | Inr bl \<Rightarrow> Some bl)) nino)"

text \<open>Entering the finished directory in its parent and counting its \<open>..\<close> there.\<close>

definition mkdir_enter ::
    "filsys_edition \<Rightarrow> u32 \<Rightarrow> filsys_inode \<Rightarrow> byte list \<Rightarrow> u32 \<Rightarrow> filsys_inode \<Rightarrow> unit op" where
  "mkdir_enter fs dir ddir name nino nip =
     (case ops_dir_add fs ddir nino name of
        (Inl e, fs, _) \<Rightarrow>
          (case withdraw_name fs dir name nino of
             (Inl _, fs) \<Rightarrow> (Inl e, fs)
           | (Inr _, fs) \<Rightarrow> (Inl e, mkdir_fail fs nino nip))
      | (Inr _, fs, ddir) \<Rightarrow>
          (case ops_write_inode fs dir (ddir\<lparr>ip_nlink := ip_nlink ddir + 1\<rparr>) of
             (Inr _, fs) \<Rightarrow> (Inr (), fs)
           | (Inl e, fs) \<Rightarrow>
               (case drop_ip (ops_dir_remove fs ddir name) of
                  (Inl e', fs) \<Rightarrow> (Inl e', fs)
                | (Inr _, fs) \<Rightarrow> (Inr (), mkdir_fail fs nino nip))))"

definition mkdir_fill ::
    "filsys_edition \<Rightarrow> u32 \<Rightarrow> filsys_inode \<Rightarrow> byte list \<Rightarrow> u32 \<Rightarrow> filsys_inode \<Rightarrow> unit op" where
  "mkdir_fill fs dir ddir name nino nip =
     (case ops_dir_add fs nip nino str_dot of
        (Inl e, fs, nip) \<Rightarrow> (Inl e, mkdir_fail fs nino nip)
      | (Inr _, fs, nip) \<Rightarrow>
          (case ops_dir_add fs nip dir str_dotdot of
             (Inl e, fs, nip) \<Rightarrow> (Inl e, mkdir_fail fs nino nip)
           | (Inr _, fs, nip) \<Rightarrow> mkdir_enter fs dir ddir name nino nip))"

definition filsys_mkdir_in ::
    "filsys_edition \<Rightarrow> u32 \<Rightarrow> byte list \<Rightarrow> u32 \<Rightarrow> u32 \<Rightarrow> u32 \<Rightarrow> (unit op) option" where
  "filsys_mkdir_in fs dir name mode uid gid =
     (case uidgid_fit uid gid of
        Inl e \<Rightarrow> Some (Inl e, fs)
      | Inr _ \<Rightarrow>
          (case create_parent fs dir name of
             Inl e \<Rightarrow> Some (Inl e, fs)
           | Inr ddir \<Rightarrow>
               map_option (\<lambda>r. try_op r (\<lambda>(nino, nip) fs. mkdir_fill fs dir ddir name nino nip))
                 (inode_create fs mode uid gid FT_DIR 0)))"

definition filsys_mknod_in ::
    "filsys \<Rightarrow> filsys_edition \<Rightarrow> u32 \<Rightarrow> byte list \<Rightarrow> u32 \<Rightarrow> u32 \<Rightarrow> u32 \<Rightarrow> u32 \<Rightarrow> (unit op) option" where
  "filsys_mknod_in h fs dir name mode rdev uid gid =
     (case uidgid_fit uid gid of
        Inl _ \<Rightarrow> Some (Inl EINVAL, fs)
      | Inr _ \<Rightarrow>
          let t = mode AND 0xF000 in
          if hd_ver h = FILSYS_V1 then Some (Inl EPERM, fs)
          else if t \<noteq> S_IFCHR \<and> t \<noteq> S_IFBLK \<and> t \<noteq> S_IFREG then Some (Inl EPERM, fs)
          else if t = S_IFREG
          then map_option (\<lambda>r. try_op r (\<lambda>_ fs. (Inr (), fs)))
                 (filsys_create_in fs dir name (mode AND 0xFFF) uid gid)
          else case create_parent fs dir name of
             Inl e \<Rightarrow> Some (Inl e, fs)
           | Inr ddir \<Rightarrow>
               map_option (\<lambda>r. try_op r (\<lambda>(nino, nip) fs. link_new fs dir ddir name nino nip))
                 (inode_create fs mode uid gid (if t = S_IFBLK then FT_BLK else FT_CHR) rdev))"

definition filsys_symlink_in :: "filsys \<Rightarrow> filsys_edition \<Rightarrow> byte list \<Rightarrow> u32 \<Rightarrow> byte list \<Rightarrow> (unit op) option" where
  "filsys_symlink_in h fs target dir name =
     (if d_iflnk (fs_desc fs) = 0 then Some (Inl ENOSYS, fs)
      else case uidgid_fit (hd_uid h) (hd_gid h) of
        Inl e \<Rightarrow> Some (Inl e, fs)
      | Inr _ \<Rightarrow>
          (case create_parent fs dir name of
             Inl e \<Rightarrow> Some (Inl e, fs)
           | Inr ddir \<Rightarrow>
               map_option (\<lambda>r. try_op r (\<lambda>(nino, nip) fs.
                   case filsys_file_write fs nip target 0 of
                     (Inl e, fs, nip) \<Rightarrow> (Inl e, snd (inode_destroy fs nino nip))
                   | (Inr w, fs, nip) \<Rightarrow>
                       if w \<noteq> length target then (Inl EIO, snd (inode_destroy fs nino nip))
                       else link_new fs dir ddir name nino nip))
                 (inode_create fs 0x1FF (hd_uid h) (hd_gid h) FT_LNK 0)))"

section \<open>Removing names\<close>

definition filsys_unlink_in :: "filsys_edition \<Rightarrow> u32 \<Rightarrow> byte list \<Rightarrow> bool \<Rightarrow> unit op" where
  "filsys_unlink_in fs dir name defer =
     need (ops_read_inode fs dir) fs (\<lambda>ddir.
       need (ops_dir_lookup fs ddir name) fs (\<lambda>ino.
         need_as EIO (ops_read_inode fs ino) fs (\<lambda>ip.
           try_op (remove_name fs ddir name ip defer) (\<lambda>(ip, orphaned, deferred) fs.
             if orphaned \<and> \<not> deferred then inode_destroy fs ino ip else ops_write_inode fs ino ip))))"

definition rmdir_empty :: "filsys_edition \<Rightarrow> u32 \<Rightarrow> filsys_inode \<Rightarrow> byte list \<Rightarrow> u32 \<Rightarrow> filsys_inode \<Rightarrow> unit op" where
  "rmdir_empty fs dir ddir name ino tip =
     (let tip = tip\<lparr>ip_nlink := ip_nlink tip - 1\<rparr> in
      if 1 < sint (ip_nlink tip)
      then try_op (drop_ip (ops_dir_remove fs ddir name)) (\<lambda>_ fs. ops_write_inode fs ino tip)
      else try_op (drop_ip (ops_dir_remove fs (ddir\<lparr>ip_nlink := ip_nlink ddir - 1\<rparr>) name))
             (\<lambda>_ fs. inode_destroy fs ino tip))"

definition filsys_rmdir_in :: "filsys_edition \<Rightarrow> u32 \<Rightarrow> byte list \<Rightarrow> (unit op) option" where
  "filsys_rmdir_in fs dir name =
     (case ops_read_inode fs dir of
        Inl e \<Rightarrow> Some (Inl e, fs)
      | Inr ddir \<Rightarrow>
          (case ops_dir_lookup fs ddir name of
             Inl e \<Rightarrow> Some (Inl e, fs)
           | Inr ino \<Rightarrow>
               (case ops_read_inode fs ino of
                  Inl _ \<Rightarrow> Some (Inl EIO, fs)
                | Inr tip \<Rightarrow>
                    if \<not> mode_is_dir (fs_desc fs) tip then Some (Inl ENOTDIR, fs)
                    else map_option (\<lambda>r. case r of
                             Inl e \<Rightarrow> (Inl e, fs)
                           | Inr none \<Rightarrow> if \<not> none then (Inl ENOTEMPTY, fs) else rmdir_empty fs dir ddir name ino tip)
                           (dir_is_empty fs ino))))"

section \<open>Linking and renaming\<close>

text \<open>
  The walk along \<open>..\<close>; \<open>left\<close> counts the 65536 steps down.  The test for the ancestor comes
  after the test for the root.
\<close>

fun dir_ancestor_from :: "nat \<Rightarrow> filsys_edition \<Rightarrow> u32 \<Rightarrow> u32 \<Rightarrow> errno + bool" where
  "dir_ancestor_from left fs anc cur =
     (if cur = d_rootino (fs_desc fs) \<or> cur = 0 then (if left = 0 then Inl ELOOP else Inr False)
      else case left of
        0 \<Rightarrow> Inl ELOOP
      | Suc l \<Rightarrow>
          if cur = anc then Inr True
          else case ops_read_inode fs cur of
            Inl e \<Rightarrow> Inl e
          | Inr ip \<Rightarrow>
              (case ops_dir_lookup fs ip str_dotdot of
                 Inl e \<Rightarrow> Inl e
               | Inr nxt \<Rightarrow> dir_ancestor_from l fs anc nxt))"

declare dir_ancestor_from.simps [simp del]

definition dir_ancestor :: "filsys_edition \<Rightarrow> u32 \<Rightarrow> u32 \<Rightarrow> errno + bool" where
  "dir_ancestor fs anc dir = dir_ancestor_from 65536 fs anc dir"

text \<open>\<^verbatim>\<open>if (a == 1) return -EINVAL; if (a < 0) return a;\<close>, for a directory only.\<close>

definition no_cycle :: "filsys_edition \<Rightarrow> filsys_inode \<Rightarrow> u32 \<Rightarrow> u32 \<Rightarrow> errno + unit" where
  "no_cycle fs ip anc dir =
     (if mode_is_dir (fs_desc fs) ip
      then case dir_ancestor fs anc dir of Inl e \<Rightarrow> Inl e | Inr a \<Rightarrow> if a then Inl EINVAL else Inr ()
      else Inr ())"

definition filsys_link_in :: "filsys_edition \<Rightarrow> u32 \<Rightarrow> u32 \<Rightarrow> byte list \<Rightarrow> unit op" where
  "filsys_link_in fs src dir name =
     need (ops_read_inode fs dir) fs (\<lambda>ddir.
       need_as EIO (ops_read_inode fs src) fs (\<lambda>ip.
         need (no_cycle fs ip src dir) fs (\<lambda>_.
           case ops_dir_add fs ddir src name of
             (Inl e, fs, _) \<Rightarrow> (Inl e, fs)
           | (Inr _, fs, ddir) \<Rightarrow>
               (case ops_write_inode fs src (ip\<lparr>ip_nlink := ip_nlink ip + 1\<rparr>) of
                  (Inr _, fs) \<Rightarrow> (Inr (), fs)
                | (Inl e, fs) \<Rightarrow>
                    (case drop_ip (ops_dir_remove fs ddir name) of
                       (Inl e', fs) \<Rightarrow> (Inl e', fs)
                     | (Inr _, fs) \<Rightarrow> (Inl e, fs))))))"

text \<open>Putting a replaced target back: its name, then its inode, results ignored.\<close>

type_synonym target = "(u32 \<times> filsys_inode \<times> bool \<times> bool) option"

definition rename_restore :: "filsys_edition \<Rightarrow> filsys_inode \<Rightarrow> byte list \<Rightarrow> target \<Rightarrow> filsys_edition" where
  "rename_restore fs tdirip tname tgt =
     (case tgt of
        None \<Rightarrow> fs
      | Some (tino, tip, _, _) \<Rightarrow>
          (let fs = snd (drop_ip (ops_dir_add fs tdirip tino tname)) in snd (ops_write_inode fs tino tip)))"

text \<open>Rewriting a link count read afresh; an unreadable inode is skipped.\<close>

definition relink :: "filsys_edition \<Rightarrow> u32 \<Rightarrow> (u16 \<Rightarrow> u16) \<Rightarrow> unit op" where
  "relink fs ino f =
     (case ops_read_inode fs ino of
        Inl _ \<Rightarrow> (Inr (), fs)
      | Inr ip \<Rightarrow> ops_write_inode fs ino (ip\<lparr>ip_nlink := f (ip_nlink ip)\<rparr>))"

definition drop_link :: "u16 \<Rightarrow> u16" where
  "drop_link n = (if 1 < sint n then n - 1 else n)"

definition rename_fix_dirs :: "filsys_edition \<Rightarrow> u32 \<Rightarrow> u32 \<Rightarrow> u32 \<Rightarrow> bool \<Rightarrow> unit op" where
  "rename_fix_dirs fs sdir tdir sino tisdir =
     try_op (if sdir \<noteq> tdir
             then try_op (relink fs sdir drop_link) (\<lambda>_ fs. relink fs tdir (\<lambda>n. n + 1))
             else (Inr (), fs))
       (\<lambda>_ fs. try_op (if tisdir then relink fs tdir drop_link else (Inr (), fs))
         (\<lambda>_ fs. case ops_read_inode fs sino of
             Inl _ \<Rightarrow> (Inr (), fs)
           | Inr cip \<Rightarrow>
               drop_ip (try_op (ops_dir_remove fs cip str_dotdot)
                 (\<lambda>_ (fs, cip). ops_dir_add fs cip tdir str_dotdot))))"

definition rename_commit ::
    "filsys_edition \<Rightarrow> u32 \<Rightarrow> byte list \<Rightarrow> u32 \<Rightarrow> bool \<Rightarrow> u32 \<Rightarrow> filsys_inode \<Rightarrow> byte list \<Rightarrow> target \<Rightarrow> bool \<Rightarrow> unit op" where
  "rename_commit fs sdir sname sino isdir tdir tdirip tname tgt defer =
     (case filsys_link_in fs sino tdir tname of
        (Inl e, fs) \<Rightarrow> (Inl e, rename_restore fs tdirip tname tgt)
      | (Inr _, fs) \<Rightarrow>
          (case filsys_unlink_in fs sdir sname False of
             (Inl e, fs) \<Rightarrow>
               (let fs = snd (filsys_unlink_in fs tdir tname False) in (Inl e, rename_restore fs tdirip tname tgt))
           | (Inr _, fs) \<Rightarrow>
               try_op (if isdir
                       then rename_fix_dirs fs sdir tdir sino (case tgt of Some (_, _, tisdir, _) \<Rightarrow> tisdir | None \<Rightarrow> False)
                       else (Inr (), fs))
                 (\<lambda>_ fs. (Inr (), case tgt of
                      Some (tino, tip, _, free) \<Rightarrow> if free \<and> \<not> defer then snd (inode_destroy fs tino tip) else fs
                    | None \<Rightarrow> fs))))"

text \<open>
  Taking an existing target's name away: for a file the lower link count is written, and when
  that fails the name goes back.
\<close>

definition rename_displace ::
    "filsys_edition \<Rightarrow> filsys_inode \<Rightarrow> byte list \<Rightarrow> u32 \<Rightarrow> filsys_inode \<Rightarrow> (bool \<times> filsys_inode) op" where
  "rename_displace fs tdirip tname tino tip =
     (case ops_dir_remove fs tdirip tname of
        (Inl e, fs, _) \<Rightarrow> (Inl e, fs)
      | (Inr _, fs, tdirip) \<Rightarrow>
          if mode_is_dir (fs_desc fs) tip then (Inr (True, tdirip), fs)
          else let tip = tip\<lparr>ip_nlink := ip_nlink tip - 1\<rparr> in
            (case ops_write_inode fs tino tip of
               (Inl e, fs) \<Rightarrow> (Inl e, snd (drop_ip (ops_dir_add fs tdirip tino tname)))
             | (Inr _, fs) \<Rightarrow> (Inr (ip_nlink tip = 0, tdirip), fs)))"

definition filsys_rename_in ::
    "filsys_edition \<Rightarrow> u32 \<Rightarrow> byte list \<Rightarrow> u32 \<Rightarrow> byte list \<Rightarrow> u32 \<Rightarrow> bool \<Rightarrow> (unit op) option" where
  "filsys_rename_in fs sdir sname tdir tname flags defer =
     (if flags AND NOT 1 \<noteq> 0 then Some (Inl EINVAL, fs)
      else if sdir = tdir \<and> sname = tname then Some (Inr (), fs)
      else
        case (case ops_read_inode fs sdir of
                Inl e \<Rightarrow> Inl e
              | Inr sdirip \<Rightarrow>
                  (case ops_dir_lookup fs sdirip sname of
                     Inl e \<Rightarrow> Inl e
                   | Inr sino \<Rightarrow>
                       (case (ops_read_inode fs sino, ops_read_inode fs tdir) of
                          (Inr sip, Inr tdirip) \<Rightarrow>
                            (case no_cycle fs sip sino tdir of
                               Inl e \<Rightarrow> Inl e
                             | Inr _ \<Rightarrow> Inr (sino, mode_is_dir (fs_desc fs) sip, tdirip))
                        | _ \<Rightarrow> Inl EIO))) of
          Inl e \<Rightarrow> Some (Inl e, fs)
        | Inr (sino, isdir, tdirip) \<Rightarrow>
            (case ops_dir_lookup fs tdirip tname of
               Inl _ \<Rightarrow> Some (rename_commit fs sdir sname sino isdir tdir tdirip tname None defer)
             | Inr tino \<Rightarrow>
                 if flags AND 1 \<noteq> 0 then Some (Inl EEXIST, fs)
                 else if tino = sino then Some (Inr (), fs)
                 else case ops_read_inode fs tino of
                   Inl _ \<Rightarrow> Some (Inl EIO, fs)
                 | Inr tip \<Rightarrow>
                     let tisdir = mode_is_dir (fs_desc fs) tip in
                     if isdir \<and> \<not> tisdir then Some (Inl ENOTDIR, fs)
                     else if \<not> isdir \<and> tisdir then Some (Inl EISDIR, fs)
                     else map_option (\<lambda>r. case r of
                              Inl e \<Rightarrow> (Inl e, fs)
                            | Inr none \<Rightarrow>
                                if \<not> none then (Inl ENOTEMPTY, fs)
                                else try_op (rename_displace fs tdirip tname tino tip) (\<lambda>(free, tdirip) fs.
                                  rename_commit fs sdir sname sino isdir tdir tdirip tname
                                    (Some (tino, tip, tisdir, free)) defer))
                            (if tisdir then dir_is_empty fs tino else Some (Inr True))))"

section \<open>Attributes\<close>

definition truncate_shrink :: "filsys_edition \<Rightarrow> u32 \<Rightarrow> filsys_inode \<Rightarrow> u32 \<Rightarrow> unit op" where
  "truncate_shrink fs ino ip newsize =
     (let oldsize = ip_size ip; bs = of_nat (ops_blocksize fs);
          lastb = (if newsize \<noteq> 0 then (newsize - 1) div bs else 0);
          blk_end = (if newsize \<noteq> 0 then (lastb + 1) * bs else 0);
          tail = (if oldsize < blk_end then oldsize else blk_end) in
      case (if newsize < tail
            then (case fst (filsys_bmap fs ip lastb False) of
                    Inl _ \<Rightarrow> (Inr 0, fs, ip)
                  | Inr bno \<Rightarrow>
                      if bno = 0 then (Inr 0, fs, ip)
                      else filsys_file_write fs ip (replicate (unat (tail - newsize)) 0) (int (unat newsize)))
            else (Inr 0, fs, ip)) of
        (Inl e, fs, _) \<Rightarrow> (Inl e, fs)
      | (Inr _, fs, ip) \<Rightarrow>
          (case itrunc_from fs ip (if newsize \<noteq> 0 then lastb + 1 else 0) of
             (Inl e, fs, _) \<Rightarrow> (Inl e, fs)
           | (Inr bl, fs, ip) \<Rightarrow>
               try_op (ops_write_inode fs ino (ip\<lparr>ip_size := newsize\<rparr>))
                 (\<lambda>_ fs. (Inr (), filsys_blklist_drain fs (Some bl)))))"

definition truncate_inode :: "filsys_edition \<Rightarrow> u32 \<Rightarrow> filsys_inode \<Rightarrow> int \<Rightarrow> unit op" where
  "truncate_inode fs ino ip sz =
     (if sz < 0 \<or> int (maxfile fs) < sz then (Inl EFBIG, fs)
      else let newsize = of_int sz in
        if newsize = ip_size ip then (Inr (), fs)
        else if newsize < ip_size ip then truncate_shrink fs ino ip newsize
        else ops_write_inode fs ino (ip\<lparr>ip_size := newsize\<rparr>))"

definition filsys_truncate_ino :: "filsys_edition \<Rightarrow> u32 \<Rightarrow> int \<Rightarrow> unit op" where
  "filsys_truncate_ino fs ino sz = need (ops_read_inode fs ino) fs (\<lambda>ip. truncate_inode fs ino ip sz)"

definition filsys_chmod_ino :: "filsys_edition \<Rightarrow> u32 \<Rightarrow> u32 \<Rightarrow> unit op" where
  "filsys_chmod_ino fs ino mode =
     need (ops_read_inode fs ino) fs (\<lambda>ip. ops_write_inode fs ino
       (ip\<lparr>ip_mode := mode_chmod (fs_desc fs) (ip_mode ip) mode, ip_ctime := h_now (fs_host fs)\<rparr>))"

text \<open>\<^verbatim>\<open>(uid_t)-1\<close> leaves an owner alone.\<close>

definition filsys_chown_ino :: "filsys_edition \<Rightarrow> u32 \<Rightarrow> u32 \<Rightarrow> u32 \<Rightarrow> unit op" where
  "filsys_chown_ino fs ino uid gid =
     (if (uid \<noteq> 0xFFFFFFFF \<and> 32767 < uid) \<or> (gid \<noteq> 0xFFFFFFFF \<and> 32767 < gid) then (Inl EINVAL, fs)
      else need (ops_read_inode fs ino) fs (\<lambda>ip. ops_write_inode fs ino
        (ip\<lparr>ip_uid := (if uid \<noteq> 0xFFFFFFFF then ucast uid else ip_uid ip),
            ip_gid := (if gid \<noteq> 0xFFFFFFFF then ucast gid else ip_gid ip),
            ip_ctime := h_now (fs_host fs)\<rparr>)))"

text \<open>-1 stands for now, -2 leaves the time alone.\<close>

definition utime_of :: "u32 \<Rightarrow> u32 \<Rightarrow> int \<Rightarrow> u32" where
  "utime_of now old tv = (if tv = -2 then old else if tv = -1 then now else of_int tv)"

definition filsys_utimens_ino :: "filsys_edition \<Rightarrow> u32 \<Rightarrow> (int \<times> int) option \<Rightarrow> unit op" where
  "filsys_utimens_ino fs ino tv =
     need (ops_read_inode fs ino) fs (\<lambda>ip.
       let now = h_now (fs_host fs);
           (a, m) = (case tv of None \<Rightarrow> (now, now)
                     | Some (ta, tm) \<Rightarrow> (utime_of now (ip_atime ip) ta, utime_of now (ip_mtime ip) tm))
       in ops_write_inode fs ino (ip\<lparr>ip_atime := a, ip_mtime := m, ip_ctime := now\<rparr>))"

section \<open>The emptiness test returns\<close>

lemma dir_loop_returns:
  assumes step: "\<And>st e st'. I st \<Longrightarrow> ops_dir_iter fs st = (Inr (Some e), st') \<Longrightarrow> I st' \<and> (m st' :: nat) < m st"
    and "I st"
  shows "\<exists>r. dir_empty_loop fs st = Some r"
  using assms(2)
proof (induction "m st" arbitrary: st rule: less_induct)
  case less
  obtain r st' where r: "ops_dir_iter fs st = (r, st')" by fastforce
  show ?case
  proof (cases r)
    case (Inl x)
    then show ?thesis using r by (simp add: dir_empty_loop.simps)
  next
    case (Inr y)
    show ?thesis
    proof (cases y)
      case None
      then show ?thesis using r Inr by (simp add: dir_empty_loop.simps)
    next
      case (Some e)
      then have "I st'" "m st' < m st" using step [OF less.prems] r Inr by auto
      from less.hyps [OF this(2,1)] show ?thesis
        using r Inr Some by (subst dir_empty_loop.simps) (simp split: prod.split)
    qed
  qed
qed

lemma dir_is_empty_returns: "\<exists>r. dir_is_empty fs ino = Some r"
proof -
  have "\<exists>r. dir_empty_loop fs st = Some r" if n: "it_next st = 0" for st
  proof (cases "d_ops (fs_desc fs) = Some P7fs_ops")
    case True
    then have o: "ops_dir_iter fs s = p7fs_dir_iter fs s" for s by (simp add: ops_dir_iter_def)
    show ?thesis
    proof (rule dir_loop_returns [where I = "\<lambda>s. it_next s \<le> p7_ndirents (it_ip s) + 2"
          and m = "\<lambda>s. p7_ndirents (it_ip s) + 2 - it_next s"])
      show "it_next st \<le> p7_ndirents (it_ip st) + 2" using n by simp
      fix s e s' assume "it_next s \<le> p7_ndirents (it_ip s) + 2" "ops_dir_iter fs s = (Inr (Some e), s')"
      then show "it_next s' \<le> p7_ndirents (it_ip s') + 2 \<and>
          p7_ndirents (it_ip s') + 2 - it_next s' < p7_ndirents (it_ip s) + 2 - it_next s"
        using p7fs_dir_iter_moves [of fs s e s'] o by auto
    qed
  next
    case False
    show ?thesis
    proof (rule dir_loop_returns [where I = "\<lambda>_. True" and m = "\<lambda>s. unat (ip_size (it_ip s)) - it_next s"])
      fix s e s' assume "ops_dir_iter fs s = (Inr (Some e), s')"
      then have "v7fs_dir_iter fs s = (Inr (Some e), s') \<or> bsd211_dir_iter fs s = (Inr (Some e), s')"
        using False by (auto simp: ops_dir_iter_def split: option.splits backend.splits)
      then have "it_ip s' = it_ip s \<and> it_next s < it_next s' \<and> it_next s < unat (ip_size (it_ip s))"
        using v7fs_dir_iter_moves bsd211_dir_iter_moves by blast
      then show "True \<and> unat (ip_size (it_ip s')) - it_next s' < unat (ip_size (it_ip s)) - it_next s" by auto
    qed simp
  qed
  then show ?thesis by (auto simp: dir_is_empty_def filsys_dir_seek_def split: sum.splits if_splits)
qed

section \<open>What a failed teardown releases\<close>

lemma destroy_writes:
  assumes "inode_destroy fs ino ip = (Inl e, fs')"
  shows "flush_then (super_area fs) (inode_area fs ino) fs fs'"
proof -
  obtain r ip' where t: "itrunc fs ip = (r, ip')" by fastforce
  show ?thesis
  proof (cases r)
    case (Inl x)
    then show ?thesis using assms t by (simp add: inode_destroy_def)
  next
    case (Inr bl)
    then show ?thesis
      using assms t write_inode_flushes [of fs ino "ip'\<lparr>ip_mode := 0\<rparr>"] by (auto simp: inode_destroy_def try_op_eq_Inl)
  qed
qed

section \<open>The walk to the root\<close>

definition dir_parent :: "filsys_edition \<Rightarrow> u32 \<Rightarrow> u32 \<Rightarrow> bool" where
  "dir_parent fs d p \<longleftrightarrow> (\<exists>ip. ops_read_inode fs d = Inr ip \<and> ops_dir_lookup fs ip str_dotdot = Inr p)"

inductive climbs :: "filsys_edition \<Rightarrow> u32 \<Rightarrow> u32 \<Rightarrow> bool" for fs where
  here: "climbs fs d d"
| up: "climbs fs p a \<Longrightarrow> dir_parent fs d p \<Longrightarrow> d \<noteq> d_rootino (fs_desc fs) \<Longrightarrow> d \<noteq> 0 \<Longrightarrow> climbs fs d a"

inductive_cases climbsE: "climbs fs d a"

lemma climbs_stop: "climbs fs d a \<Longrightarrow> d = d_rootino (fs_desc fs) \<or> d = 0 \<Longrightarrow> a = d"
  by (auto elim: climbsE)

lemma climbs_step:
  assumes "dir_parent fs d p" "d \<noteq> d_rootino (fs_desc fs)" "d \<noteq> 0"
  shows "climbs fs d a \<longleftrightarrow> a = d \<or> climbs fs p a"
proof -
  have det: "q = p" if "dir_parent fs d q" for q using that assms(1) by (auto simp: dir_parent_def)
  show ?thesis
  proof
    assume "climbs fs d a"
    then show "a = d \<or> climbs fs p a" by (rule climbsE) (use det in blast)+
  next
    assume "a = d \<or> climbs fs p a"
    then show "climbs fs d a" using climbs.here climbs.up [OF _ assms] by blast
  qed
qed

lemma dir_ancestor_from_exact:
  assumes "dir_ancestor_from left fs anc cur = Inr a"
  shows "a \<longleftrightarrow> climbs fs cur anc \<and> anc \<noteq> d_rootino (fs_desc fs) \<and> anc \<noteq> 0"
  using assms
proof (induction left arbitrary: cur)
  case 0
  then show ?case by (simp add: dir_ancestor_from.simps split: if_splits)
next
  case (Suc l)
  let ?stop = "cur = d_rootino (fs_desc fs) \<or> cur = 0"
  show ?case
  proof (cases ?stop)
    case True
    then have "\<not> a" using Suc.prems by (simp add: dir_ancestor_from.simps)
    then show ?thesis using True climbs_stop by blast
  next
    case go: False
    show ?thesis
    proof (cases "cur = anc")
      case True
      then show ?thesis using Suc.prems go by (simp add: dir_ancestor_from.simps climbs.here)
    next
      case False
      obtain ip nxt where n: "ops_read_inode fs cur = Inr ip" "ops_dir_lookup fs ip str_dotdot = Inr nxt"
        "dir_ancestor_from l fs anc nxt = Inr a"
        using Suc.prems go False unfolding dir_ancestor_from.simps [of "Suc l"] by (auto split: sum.splits)
      then have "dir_parent fs cur nxt" by (auto simp: dir_parent_def)
      from climbs_step [OF this] Suc.IH [OF n(3)] go False show ?thesis by auto
    qed
  qed
qed

lemma dir_ancestor_exact:
  "dir_ancestor fs anc dir = Inr a \<Longrightarrow> a \<longleftrightarrow> climbs fs dir anc \<and> anc \<noteq> d_rootino (fs_desc fs) \<and> anc \<noteq> 0"
  by (auto simp: dir_ancestor_def dest: dir_ancestor_from_exact)

lemma root_never_ancestor: "dir_ancestor fs (d_rootino (fs_desc fs)) dir \<noteq> Inr True"
  using dir_ancestor_exact by blast

section \<open>Refused creations\<close>

lemma create_parent_refuses:
  assumes "ops_read_inode fs dir = Inl e \<or> (\<exists>ddir. ops_read_inode fs dir = Inr ddir \<and>
      (if \<not> mode_is_dir (fs_desc fs) ddir then e = ENOTDIR
       else if name \<in> {str_dot, str_dotdot} \<or> (\<exists>n. ops_dir_lookup fs ddir name = Inr n) then e = EEXIST
       else ops_dir_lookup fs ddir name = Inl e \<and> e \<noteq> ENOENT))"
  shows "create_parent fs dir name = Inl e"
  using assms by (auto simp: create_parent_def preflight_create_def split: if_splits sum.splits)

lemma create_refused:
  assumes "create_parent fs dir name = Inl e" "uidgid_fit uid gid = Inr ()"
  shows "filsys_create_in fs dir name mode uid gid = Some (Inl e, fs)"
    "filsys_mkdir_in fs dir name mode uid gid = Some (Inl e, fs)"
    "hd_ver h \<noteq> FILSYS_V1 \<Longrightarrow> mode AND 0xF000 \<in> {S_IFCHR, S_IFBLK, S_IFREG} \<Longrightarrow>
       filsys_mknod_in h fs dir name mode rdev uid gid = Some (Inl e, fs)"
    "d_iflnk (fs_desc fs) \<noteq> 0 \<Longrightarrow> uidgid_fit (hd_uid h) (hd_gid h) = Inr () \<Longrightarrow>
       filsys_symlink_in h fs target dir name = Some (Inl e, fs)"
  using assms by (auto simp: filsys_create_in_def filsys_mkdir_in_def filsys_mknod_in_def filsys_symlink_in_def Let_def)

end
