(* ===== verification/Check.thy ===== *)
theory Check
  imports Freespace Filsys
begin

text \<open>
  The shared integrity check (\<^verbatim>\<open>check.c\<close>): block accounting over all inodes, the walk of
  the allocator, the missing blocks, the superblock totals, the link counts, the salvage, the
  preening repairs, \<^verbatim>\<open>ncheck\<close>, \<^verbatim>\<open>clri\<close> and the resolution of duplicate blocks.
  What the functions print is not modelled, except for the path names \<^verbatim>\<open>ncheck\<close> finds.
\<close>

section \<open>The tables of the check\<close>

definition ops_walk_free :: "filsys_edition \<Rightarrow> filsys_chkctx \<Rightarrow> filsys_check \<Rightarrow> errno + filsys_chkctx \<times> filsys_check" where
  "ops_walk_free fs cx rep =
     (case d_ops (fs_desc fs) of
        None \<Rightarrow> Inl UB
      | Some V1fs_ops \<Rightarrow> Inr (v1_chk_walk_free fs cx rep)
      | Some P7fs_ops \<Rightarrow> Inr (p7_chk_walk_free fs cx rep)
      | Some _ \<Rightarrow> v7_walk_free fs cx rep)"

definition ops_makefree :: "filsys_edition \<Rightarrow> filsys_chkctx \<Rightarrow> u32 \<times> filsys_edition" where
  "ops_makefree fs cx =
     (case d_ops (fs_desc fs) of
        Some V1fs_ops \<Rightarrow> v1fs_makefree fs (cx_bmap cx)
      | Some P7fs_ops \<Rightarrow> p7fs_makefree fs (cx_bmap cx)
      | Some V6fs_ops \<Rightarrow> v6_makefree fs cx
      | _ \<Rightarrow> v7fs_makefree fs cx)"

text \<open>The modes, and the reply to a question about an inode: \<open>ask\<close> stands for the terminal.\<close>

record ck_mode =
  ck_salvage :: bool
  ck_preen :: bool
  ck_force :: bool
  ck_yes :: bool
  ck_ask :: bool

definition filsys_query :: "ck_mode \<Rightarrow> (u32 \<Rightarrow> bool) \<Rightarrow> u32 \<Rightarrow> bool" where
  "filsys_query m ask ino = (ck_yes m \<or> ck_preen m \<or> (ck_ask m \<and> ask ino))"

definition filsys_in_allocated :: "byte \<Rightarrow> bool" where
  "filsys_in_allocated st \<longleftrightarrow> st AND 7 \<noteq> IN_UNALLOC"

definition is_regular :: "filsys_edition \<Rightarrow> filsys_inode \<Rightarrow> bool" where
  "is_regular fs ip =
     (let d = fs_desc fs; t = ip_mode ip AND d_ifmt d in
      if d_mode d = Mode_v1 \<or> d_mode d = Mode_p7 then \<not> mode_is_dir d ip \<and> \<not> mode_is_device d ip
      else t = d_ifreg d \<or> (d_iflnk d \<noteq> 0 \<and> t = d_iflnk d))"

definition ck_is_device :: "filsys_edition \<Rightarrow> filsys_inode \<Rightarrow> bool" where
  "ck_is_device fs ip =
     (let d = fs_desc fs; t = ip_mode ip AND d_ifmt d in
      if d_mode d = Mode_v1 \<or> d_mode d = Mode_p7 then mode_is_device d ip
      else t = d_ifchr d \<or> t = d_ifblk d \<or> (d_ifmpc d \<noteq> 0 \<and> t = d_ifmpc d) \<or> (d_ifmpb d \<noteq> 0 \<and> t = d_ifmpb d))"

definition dir_mode :: "filsys_edition \<Rightarrow> u32" where
  "dir_mode fs =
     (let d = fs_desc fs in
      if d_mode d = Mode_v1 \<or> d_mode d = Mode_p7 then mode_to_disk d 0x1FF FT_DIR else 0x1FF OR d_ifdir d)"

section \<open>The entries of a directory\<close>

text \<open>
  The loop over \<^verbatim>\<open>dir_iter\<close>: it ends with the directory or at the first error.  Every step
  moves the token on, so one more step than the directory has bytes and synthesized entries is
  enough.
\<close>

fun iter_entries :: "nat \<Rightarrow> filsys_edition \<Rightarrow> filsys_iter_state \<Rightarrow> (u32 \<times> byte list) list" where
  "iter_entries 0 fs st = []"
| "iter_entries (Suc k) fs st =
     (case ops_dir_iter fs st of
        (Inr (Some (ino, name, _)), st) \<Rightarrow> (ino, name) # iter_entries k fs st
      | _ \<Rightarrow> [])"

text \<open>A refused iterator buffer leaves the directory out.\<close>

definition check_entries :: "filsys_edition \<Rightarrow> filsys_inode \<Rightarrow> (u32 \<times> byte list) list" where
  "check_entries fs ip =
     (if \<not> h_alloc (fs_host fs) 8320 then []
      else iter_entries (unat (ip_size ip) + 3) fs \<lparr>it_ip = ip, it_buf = [], it_buf_off = 0, it_next = 0\<rparr>)"

definition is_dot :: "byte list \<Rightarrow> bool" where
  "is_dot name \<longleftrightarrow> name = str_dot \<or> name = str_dotdot"

section \<open>Pass 1: the blocks of the inodes\<close>

type_synonym pass1 = "filsys_chkctx \<times> filsys_check \<times> byte list"

definition check_inode :: "filsys_edition \<Rightarrow> pass1 \<Rightarrow> nat \<Rightarrow> pass1" where
  "check_inode fs s i =
     (case s of (cx, rep, state) \<Rightarrow>
        let ino = of_nat i in
        (case ops_read_inode fs ino of
           Inl _ \<Rightarrow> (cx, ck_err rep, state)
         | Inr ip \<Rightarrow>
             let st = ops_inode_state fs ino (ip_mode ip); state = state[i := st] in
             if st = IN_UNALLOC then (cx, rep, state)
             else let rep = rep\<lparr>ck_used_inodes := ck_used_inodes rep + 1\<rparr> in
               if st = IN_UNKNOWN then (cx, ck_err rep, state)
               else if st = IN_ICHR \<or> st = IN_IBLK then (cx, rep, state)
               else (filsys_mark_blocks fs ip (cx\<lparr>cx_ino := ino\<rparr>), rep, state)))"

definition check_pass1 :: "filsys_edition \<Rightarrow> filsys_chkctx \<Rightarrow> filsys_check \<Rightarrow> pass1" where
  "check_pass1 fs cx rep =
     (case foldl (check_inode fs) (cx, rep, replicate (Suc (unat (ops_maxino fs))) 0) [1..<Suc (unat (ops_maxino fs))] of
        (cx, rep, state) \<Rightarrow> (cx, rep\<lparr>ck_errors := ck_errors rep + cx_errors cx\<rparr>, state))"

section \<open>The blocks neither used nor free, and the totals\<close>

definition missing_offs :: "filsys_chkctx \<Rightarrow> nat list" where
  "missing_offs cx = filter (\<lambda>off. \<not> bm_test (cx_bmap cx) off) [0..<unat (cx_nblk cx)]"

definition check_missing :: "filsys_chkctx \<Rightarrow> filsys_check \<Rightarrow> filsys_check" where
  "check_missing cx rep =
     (let k = of_nat (length (missing_offs cx)) in
      rep\<lparr>ck_missing_blocks := ck_missing_blocks rep + k, ck_errors := ck_errors rep + k,
          ck_used_blocks := cx_used_blocks cx, ck_dup_blocks := cx_dup_blocks cx\<rparr>)"

definition check_totals :: "filsys_edition \<Rightarrow> filsys_check \<Rightarrow> filsys_check" where
  "check_totals fs rep =
     (let d = fs_desc fs in
      if d_alloc d = Freelist_alloc_ops \<and> \<not> d_sb_codec d \<and> \<not> d_isize_count d \<and> (\<not> d_pack4 d \<or> d_magic d \<noteq> 0)
      then let rep = (if ck_free_blocks rep \<noteq> tfree (fs_fl fs) then ck_err rep else rep)
           in if ck_inodes rep - ck_used_inodes rep \<noteq> tinode (fs_fl fs) then ck_err rep else rep
      else rep)"

section \<open>The link counts\<close>

text \<open>One entry of a directory: the counter of its inode saturates at 255.\<close>

definition count_entry :: "filsys_edition \<Rightarrow> byte list \<Rightarrow> byte list \<times> filsys_check \<Rightarrow> u32 \<times> byte list \<Rightarrow> byte list \<times> filsys_check" where
  "count_entry fs state s e =
     (case s of (ecount, rep) \<Rightarrow> case e of (dno, name) \<Rightarrow>
        if (d_synth_dot (fs_desc fs) \<and> is_dot name) \<or> dno = 0 then (ecount, rep)
        else if ops_maxino fs < dno then (ecount, ck_err rep)
        else let rep = (if \<not> filsys_in_allocated (state ! unat dno) then ck_err rep else rep);
                 c = ecount ! unat dno + 1
             in (ecount[unat dno := (if c = 0 then 0xFF else c)], rep))"

definition count_dir :: "filsys_edition \<Rightarrow> byte list \<Rightarrow> byte list \<times> filsys_check \<Rightarrow> nat \<Rightarrow> byte list \<times> filsys_check" where
  "count_dir fs state s i =
     (case ops_read_inode fs (of_nat i) of
        Inl _ \<Rightarrow> s
      | Inr ip \<Rightarrow> if state ! i \<noteq> IN_IDIR then s else foldl (count_entry fs state) s (check_entries fs ip))"

definition check_link :: "filsys_edition \<Rightarrow> byte list \<Rightarrow> byte list \<Rightarrow> filsys_check \<Rightarrow> nat \<Rightarrow> filsys_check" where
  "check_link fs state ecount rep i =
     (let d = fs_desc fs; ino = of_nat i; cnt = ecount ! i; st = state ! i in
      case ops_read_inode fs ino of
        Inl _ \<Rightarrow> rep
      | Inr ip \<Rightarrow>
          if filsys_in_allocated st \<and> \<not> mode_is_dir d ip \<and> cnt = 0 \<and> ino \<noteq> d_rootino d \<and> ino \<noteq> d_badino d
          then ck_err (rep\<lparr>ck_orphaned := ck_orphaned rep + 1\<rparr>)
          else if ucast cnt = ip_nlink ip then rep
          else if st = IN_UNALLOC \<and> cnt = 0 then rep
          else if d_synth_dot d \<and> (st = IN_IDIR \<or> st = IN_ICHR \<or> st = IN_IBLK) then rep
          else if d_synth_dot d \<and> ino = d_rootino d then rep
          else ck_err rep)"

definition check_links :: "filsys_edition \<Rightarrow> byte list \<Rightarrow> filsys_check \<Rightarrow> byte list \<times> filsys_check" where
  "check_links fs state rep =
     (let inos = [1..<Suc (unat (ops_maxino fs))];
          (ecount, rep) = foldl (count_dir fs state) (replicate (Suc (unat (ops_maxino fs))) 0, rep) inos
      in (ecount, foldl (check_link fs state ecount) rep inos))"

section \<open>The repairs\<close>

definition str_lostfils :: "byte list" where
  "str_lostfils = [0x6C, 0x6F, 0x73, 0x74, 0x66, 0x69, 0x6C, 0x73]"

definition str_lost_found :: "byte list" where
  "str_lost_found = [0x6C, 0x6F, 0x73, 0x74, 0x2B, 0x66, 0x6F, 0x75, 0x6E, 0x64]"

text \<open>\<^verbatim>\<open>snprintf(name, sizeof(name), "%u", ino)\<close>\<close>

fun dec_digits :: "nat \<Rightarrow> byte list" where
  "dec_digits n = (if n < 10 then [of_nat (48 + n)] else dec_digits (n div 10) @ [of_nat (48 + n mod 10)])"

definition ino_name :: "u32 \<Rightarrow> byte list" where
  "ino_name ino = dec_digits (unat ino)"

text \<open>The directory that takes the orphans: found, made, or 0.\<close>

definition make_lost_found :: "filsys_edition \<Rightarrow> filsys_inode \<Rightarrow> byte list \<Rightarrow> u32 \<Rightarrow> filsys_edition" where
  "make_lost_found fs root lfname ino =
     (let d = fs_desc fs; lf = (zero_inode ino)\<lparr>ip_mode := dir_mode fs, ip_nlink := 2\<rparr>;
          fs = snd (ops_write_inode fs ino lf);
          fs = (if d_synth_dot d then fs
                else case ops_dir_add fs lf ino str_dot of
                  (_, fs, lf) \<Rightarrow> fst (snd (ops_dir_add fs lf (d_rootino d) str_dotdot)))
      in case ops_dir_add fs root ino lfname of
           (_, fs, root) \<Rightarrow> snd (ops_write_inode fs (d_rootino d) (root\<lparr>ip_nlink := ip_nlink root + 1\<rparr>)))"

definition lost_found :: "filsys_edition \<Rightarrow> (u32 \<times> filsys_edition) option" where
  "lost_found fs =
     (let d = fs_desc fs; lfname = (if d_max_namlen d < 10 then str_lostfils else str_lost_found) in
      case ops_read_inode fs (d_rootino d) of
        Inl _ \<Rightarrow> Some (0, fs)
      | Inr root \<Rightarrow>
          (case ops_dir_lookup fs root lfname of
             Inr ino \<Rightarrow> Some (ino, fs)
           | Inl _ \<Rightarrow>
               (case ops_ialloc fs of
                  None \<Rightarrow> None
                | Some (Inl _, fs) \<Rightarrow> Some (0, fs)
                | Some (Inr ino, fs) \<Rightarrow> Some (ino, make_lost_found fs root lfname ino))))"

definition clear_inode :: "filsys_edition \<Rightarrow> u32 \<Rightarrow> filsys_inode \<Rightarrow> filsys_edition" where
  "clear_inode fs ino ip = snd (ops_write_inode fs ino (ip\<lparr>ip_mode := 0, ip_nlink := 0\<rparr>))"

text \<open>A chain of calls under \<open>&&\<close>: the first that fails ends it, with what was done.\<close>

definition reconnect_file :: "filsys_edition \<Rightarrow> u32 \<Rightarrow> u32 \<Rightarrow> filsys_inode \<Rightarrow> filsys_edition" where
  "reconnect_file fs lf_ino ino ip =
     (case ops_read_inode fs lf_ino of
        Inl _ \<Rightarrow> fs
      | Inr lf \<Rightarrow>
          (case ops_dir_add fs lf ino (ino_name ino) of
             (Inl _, fs, _) \<Rightarrow> fs
           | (Inr _, fs, lf) \<Rightarrow>
               let fs = snd (ops_write_inode fs ino (ip\<lparr>ip_nlink := 1\<rparr>))
               in snd (ops_write_inode fs lf_ino lf)))"

definition reconnect_dir :: "filsys_edition \<Rightarrow> u32 \<Rightarrow> u32 \<Rightarrow> filsys_inode \<Rightarrow> filsys_edition" where
  "reconnect_dir fs lf_ino ino ip =
     (case ops_read_inode fs lf_ino of
        Inl _ \<Rightarrow> fs
      | Inr lf \<Rightarrow>
          (case ops_dir_remove fs ip str_dotdot of
             (Inl _, fs, _) \<Rightarrow> fs
           | (Inr _, fs, ip) \<Rightarrow>
               (case ops_dir_add fs ip lf_ino str_dotdot of
                  (Inl _, fs, _) \<Rightarrow> fs
                | (Inr _, fs, ip) \<Rightarrow>
                    (case ops_dir_add fs lf ino (ino_name ino) of
                       (Inl _, fs, _) \<Rightarrow> fs
                     | (Inr _, fs, lf) \<Rightarrow>
                         let fs = snd (ops_write_inode fs ino (ip\<lparr>ip_nlink := 2\<rparr>))
                         in snd (ops_write_inode fs lf_ino (lf\<lparr>ip_nlink := ip_nlink lf + 1\<rparr>))))))"

definition preen_inode :: "ck_mode \<Rightarrow> (u32 \<Rightarrow> bool) \<Rightarrow> byte list \<Rightarrow> byte list \<Rightarrow> u32 \<Rightarrow> filsys_edition \<Rightarrow> nat \<Rightarrow> filsys_edition" where
  "preen_inode m ask ecount state lf_ino fs i =
     (let d = fs_desc fs; ino = of_nat i; cnt = ecount ! i; st = state ! i; ok = filsys_query m ask ino in
      case ops_read_inode fs ino of
        Inl _ \<Rightarrow> fs
      | Inr ip \<Rightarrow>
          if \<not> filsys_in_allocated st
          then (if cnt \<noteq> 0 \<and> ok then clear_inode fs ino ip else fs)
          else if ucast cnt = ip_nlink ip \<and> cnt \<noteq> 0 then fs
          else if ino = d_rootino d \<or> ino = lf_ino \<or> ino = d_badino d then fs
          else if cnt = 0
          then if lf_ino = 0 then fs
               else if \<not> is_regular fs ip then (if ok then clear_inode fs ino ip else fs)
               else if ok then reconnect_file fs lf_ino ino ip else fs
          else if cnt = 1 \<and> st = IN_IDIR \<and> \<not> d_synth_dot d \<and> lf_ino \<noteq> 0
          then (if ok then reconnect_dir fs lf_ino ino ip else fs)
          else if d_synth_dot d \<and> \<not> is_regular fs ip then fs
          else if ok then snd (ops_write_inode fs ino (ip\<lparr>ip_nlink := ucast cnt\<rparr>)) else fs)"

text \<open>The entries that name an inode, over all directories.\<close>

definition count_links_to :: "filsys_edition \<Rightarrow> u32 \<Rightarrow> u32 \<Rightarrow> u32" where
  "count_links_to fs target maxino =
     of_nat (length (filter (\<lambda>(eino, name). \<not> (d_synth_dot (fs_desc fs) \<and> is_dot name) \<and> eino = target)
       (concat (map (\<lambda>i. case ops_read_inode fs (of_nat i) of
            Inl _ \<Rightarrow> []
          | Inr ip \<Rightarrow> if \<not> mode_is_dir (fs_desc fs) ip then [] else check_entries fs ip) [1..<Suc (unat maxino)]))))"

definition fix_links :: "u32 \<Rightarrow> filsys_edition \<Rightarrow> u32 \<Rightarrow> filsys_edition" where
  "fix_links maxino fs target =
     (if target = 0 then fs
      else case ops_read_inode fs target of
        Inl _ \<Rightarrow> fs
      | Inr ip \<Rightarrow>
          let want = count_links_to fs target maxino in
          if want \<noteq> scast (ip_nlink ip) then snd (ops_write_inode fs target (ip\<lparr>ip_nlink := ucast want\<rparr>)) else fs)"

definition filsys_preen :: "ck_mode \<Rightarrow> (u32 \<Rightarrow> bool) \<Rightarrow> filsys_edition \<Rightarrow> byte list \<Rightarrow> byte list \<Rightarrow> u32 \<Rightarrow> filsys_edition option" where
  "filsys_preen m ask fs ecount state maxino =
     (case lost_found fs of
        None \<Rightarrow> None
      | Some (lf_ino, fs) \<Rightarrow>
          let fs = foldl (preen_inode m ask ecount state lf_ino) fs [1..<Suc (unat maxino)]
          in Some (if d_synth_dot (fs_desc fs) then fs
                   else foldl (fix_links maxino) fs [d_rootino (fs_desc fs), lf_ino]))"

section \<open>The driver\<close>

definition zero_check :: filsys_check where
  "zero_check = \<lparr>ck_free_blocks = 0, ck_used_blocks = 0, ck_missing_blocks = 0, ck_dup_blocks = 0, ck_inodes = 0,
     ck_used_inodes = 0, ck_orphaned = 0, ck_errors = 0\<rparr>"

definition zero_chkctx :: "u32 \<Rightarrow> filsys_chkctx" where
  "zero_chkctx nblk = \<lparr>cx_bmap = replicate (unat ((nblk + 7) div 8)) 0, cx_owner = None, cx_nblk = nblk,
     cx_used_blocks = 0, cx_dup_blocks = 0, cx_bad_blocks = 0, cx_errors = 0, cx_ino = 0\<rparr>"

text \<open>
  The outcome of a check: an errno, or whether it found no problem; with the report and the
  mount it leaves.  \<open>None\<close>: an inode allocation of the repairs does not return.
\<close>

type_synonym check_outcome = "(errno + bool) \<times> filsys_check \<times> filsys_edition"

text \<open>The phases behind the block accounting: free list, totals, link counts and repairs.\<close>

definition check_finish :: "ck_mode \<Rightarrow> (u32 \<Rightarrow> bool) \<Rightarrow> filsys_edition \<Rightarrow> filsys_chkctx \<Rightarrow> filsys_check \<Rightarrow> byte list \<Rightarrow> check_outcome option" where
  "check_finish m ask fs cx rep state =
     (case ops_walk_free fs cx rep of
        Inl e \<Rightarrow> Some (Inl e, rep, fs)
      | Inr (cx, rep) \<Rightarrow>
          let rep = check_totals fs (check_missing cx rep); maxino = ops_maxino fs in
          if \<not> h_alloc (fs_host fs) (unat (maxino + 1)) then Some (Inr (ck_errors rep = 0), rep, fs)
          else case check_links fs state rep of (ecount, rep) \<Rightarrow>
            (if ck_preen m \<or> ck_yes m \<or> ck_ask m
             then map_option (\<lambda>fs. (Inr (ck_errors rep = 0), rep, fs)) (filsys_preen m ask fs ecount state maxino)
             else Some (Inr (ck_errors rep = 0), rep, fs)))"

definition filsys_check_common :: "ck_mode \<Rightarrow> (u32 \<Rightarrow> bool) \<Rightarrow> filsys_edition \<Rightarrow> check_outcome option" where
  "filsys_check_common m ask fs =
     (let rep = zero_check; maxino = ops_maxino fs; dstart = ops_data_start fs; dend = ops_data_end fs; h = fs_host fs in
      if filsys_is_clean fs \<and> (ck_preen m \<or> ck_yes m \<or> ck_ask m) \<and> \<not> (ck_salvage m \<or> ck_force m)
      then Some (Inr True, rep, fs)
      else let rep = rep\<lparr>ck_inodes := maxino\<rparr> in
        if dend \<le> dstart \<or> dend = 0 then Some (Inr False, ck_err rep, fs)
        else let nblk = dend - dstart in
          if \<not> h_alloc h (unat ((nblk + 7) div 8)) \<or> \<not> h_alloc h (unat (nblk + 1) * 4) \<or> \<not> h_alloc h (unat (maxino + 1))
          then Some (Inl ENOMEM, rep, fs)
          else let cx = (zero_chkctx nblk)\<lparr>cx_owner := Some (replicate (unat (nblk + 1)) 0)\<rparr> in
            case check_pass1 fs cx rep of (cx, rep, state) \<Rightarrow>
              (if 10 < cx_bad_blocks cx then Some (Inr False, rep, fs)
               else if ck_salvage m then Some (Inr (ck_errors rep = 0), rep, snd (ops_makefree fs cx))
               else check_finish m ask fs cx rep state))"

text \<open>The two callers that only look: \<^verbatim>\<open>filsys_invariants\<close> forces a full check.\<close>

definition filsys_invariants :: "filsys_edition \<Rightarrow> check_outcome option" where
  "filsys_invariants fs =
     filsys_check_common \<lparr>ck_salvage = False, ck_preen = False, ck_force = True, ck_yes = False, ck_ask = False\<rparr> (\<lambda>_. False) fs"

section \<open>Maintenance\<close>

definition filsys_clri :: "filsys_edition \<Rightarrow> u32 \<Rightarrow> unit op" where
  "filsys_clri fs ino =
     (if ino = 0 \<or> ops_maxino fs < ino then (Inl EINVAL, fs) else ops_write_inode fs ino (zero_inode ino))"

text \<open>
  The path names of an inode, in the order \<^verbatim>\<open>ncheck\<close> prints them; the path buffer has 1024
  bytes.  \<open>left\<close> counts the directory levels below which the search gives up.
\<close>

definition ncheck_path :: "byte list \<Rightarrow> byte list \<Rightarrow> byte list" where
  "ncheck_path prefix name = take 1023 (if drop 1 prefix = [] then 0x2F # name else prefix @ 0x2F # name)"

fun ncheck_dir :: "nat \<Rightarrow> filsys_edition \<Rightarrow> u32 \<Rightarrow> byte list \<Rightarrow> u32 \<Rightarrow> byte list list" where
  "ncheck_dir 0 fs dirino prefix target = []"
| "ncheck_dir (Suc left) fs dirino prefix target =
     (case ops_read_inode fs dirino of
        Inl _ \<Rightarrow> []
      | Inr ip \<Rightarrow>
          if \<not> mode_is_dir (fs_desc fs) ip then []
          else concat (map (\<lambda>(eino, name).
              if eino = 0 \<or> is_dot name then []
              else let path = ncheck_path prefix name in
                (if eino = target then [path] else []) @
                (case ops_read_inode fs eino of
                   Inl _ \<Rightarrow> []
                 | Inr cip \<Rightarrow> if mode_is_dir (fs_desc fs) cip then ncheck_dir left fs eino path target else []))
            (check_entries fs ip)))"

definition filsys_ncheck :: "filsys_edition \<Rightarrow> u32 \<Rightarrow> byte list list" where
  "filsys_ncheck fs ino = ncheck_dir 65 fs (d_rootino (fs_desc fs)) [0x2F] ino"

section \<open>Duplicate blocks\<close>

text \<open>
  A direct slot that names a block already claimed: block, inode and slot.  The array of them
  starts at 16 records of 12 bytes and doubles.
\<close>

type_synonym dup = "u32 \<times> u32 \<times> nat"

type_synonym dup_scan = "filsys_chkctx \<times> dup list \<times> nat"

definition push_dup :: "filsys_edition \<Rightarrow> dup \<Rightarrow> dup list \<Rightarrow> nat \<Rightarrow> errno + dup list \<times> nat" where
  "push_dup fs x dups cap =
     (if length dups = cap
      then let ncap = (if cap = 0 then 16 else cap * 2) in
        if \<not> h_alloc (fs_host fs) (ncap * 12) then Inl ENOMEM else Inr (dups @ [x], ncap)
      else Inr (dups @ [x], cap))"

definition dup_slot :: "filsys_edition \<Rightarrow> u32 \<Rightarrow> filsys_inode \<Rightarrow> errno + dup_scan \<Rightarrow> nat \<Rightarrow> errno + dup_scan" where
  "dup_slot fs ino ip s i =
     (case s of
        Inl e \<Rightarrow> Inl e
      | Inr (cx, dups, cap) \<Rightarrow>
          let a = ip_addr ip ! i; level = filsys_slot_level fs (ip_mode ip) i;
              dstart = ops_data_start fs; off = unat (a - dstart) in
          if a = 0 then s
          else if 0 \<le> level then Inr (filsys_mark_tree (nat level) fs cx a, dups, cap)
          else if a < dstart \<or> ops_data_end fs \<le> a then s
          else if bm_test (cx_bmap cx) off
          then (case push_dup fs (a, ino, i) dups cap of Inl e \<Rightarrow> Inl e | Inr (dups, cap) \<Rightarrow> Inr (cx, dups, cap))
          else Inr (cx\<lparr>cx_bmap := bm_set (cx_bmap cx) off, cx_used_blocks := cx_used_blocks cx + 1\<rparr>, dups, cap))"

definition dup_inode :: "filsys_edition \<Rightarrow> errno + dup_scan \<Rightarrow> nat \<Rightarrow> errno + dup_scan" where
  "dup_inode fs s k =
     (case s of
        Inl e \<Rightarrow> Inl e
      | Inr (cx, dups, cap) \<Rightarrow>
          let ino = of_nat k in
          case ops_read_inode fs ino of
            Inl _ \<Rightarrow> s
          | Inr ip \<Rightarrow>
              if ip_mode ip = 0 \<or> ck_is_device fs ip then s
              else foldl (dup_slot fs ino ip) (Inr (cx\<lparr>cx_ino := ino\<rparr>, dups, cap)) [0..<d_niaddr (fs_desc fs)])"

text \<open>One duplicate: a fresh block, the copy, the slot, and the block's mark.\<close>

definition move_dup :: "u32 \<Rightarrow> filsys_edition \<times> filsys_chkctx \<times> nat \<Rightarrow> dup \<Rightarrow> filsys_edition \<times> filsys_chkctx \<times> nat" where
  "move_dup dstart s x =
     (case s of (fs, cx, resolved) \<Rightarrow> case x of (blk, ino, idx) \<Rightarrow>
        case ops_read_inode fs ino of
          Inl _ \<Rightarrow> s
        | Inr ip \<Rightarrow>
            if ip_addr ip ! idx \<noteq> blk then s
            else case alloc_balloc fs of
              (Inl _, fs) \<Rightarrow> (fs, cx, resolved)
            | (Inr nb, fs) \<Rightarrow>
                (case ops_read_block fs blk of
                   Inl _ \<Rightarrow> (fs, cx, resolved)
                 | Inr buf \<Rightarrow>
                     (case ops_write_block fs nb buf of
                        (Inl _, fs) \<Rightarrow> (fs, cx, resolved)
                      | (Inr _, fs) \<Rightarrow>
                          (snd (ops_write_inode fs ino (ip\<lparr>ip_addr := (ip_addr ip)[idx := nb]\<rparr>)),
                           cx\<lparr>cx_bmap := bm_set (cx_bmap cx) (unat (nb - dstart))\<rparr>, resolved + 1))))"

text \<open>The result: an errno, or whether every duplicate was resolved.\<close>

definition filsys_resolve_dups :: "filsys_edition \<Rightarrow> bool op" where
  "filsys_resolve_dups fs =
     (let dstart = ops_data_start fs; nblk = ops_data_end fs - dstart in
      if \<not> h_alloc (fs_host fs) (unat ((nblk + 7) div 8)) then (Inl ENOMEM, fs)
      else case foldl (dup_inode fs) (Inr (zero_chkctx nblk, [], 0)) [1..<Suc (unat (ops_maxino fs))] of
        Inl e \<Rightarrow> (Inl e, fs)
      | Inr (cx, dups, _) \<Rightarrow>
          if dups = [] then (Inr True, fs)
          else case foldl (move_dup dstart) (snd (ops_makefree fs cx), cx, 0) dups of
            (fs, cx, resolved) \<Rightarrow> (Inr (resolved = length dups), snd (ops_makefree fs cx)))"

section \<open>The scan of a directory is complete\<close>

definition iter_end :: "filsys_edition \<Rightarrow> filsys_inode \<Rightarrow> nat" where
  "iter_end fs ip = (if d_ops (fs_desc fs) = Some P7fs_ops then p7_ndirents ip + 2 else unat (ip_size ip))"

lemma dir_iter_moves:
  assumes "ops_dir_iter fs st = (Inr (Some e), st')"
    and "d_ops (fs_desc fs) = Some P7fs_ops \<Longrightarrow> it_next st \<le> iter_end fs (it_ip st)"
  shows "it_ip st' = it_ip st \<and> it_next st < it_next st' \<and> it_next st < iter_end fs (it_ip st) \<and>
    (d_ops (fs_desc fs) = Some P7fs_ops \<longrightarrow> it_next st' \<le> iter_end fs (it_ip st'))"
proof (cases "d_ops (fs_desc fs) = Some P7fs_ops")
  case True
  then show ?thesis
    using assms p7fs_dir_iter_moves [of fs st e st'] by (fastforce simp: ops_dir_iter_def iter_end_def)
next
  case False
  then have "v7fs_dir_iter fs st = (Inr (Some e), st') \<or> bsd211_dir_iter fs st = (Inr (Some e), st')"
    using assms(1) by (auto simp: ops_dir_iter_def split: option.splits backend.splits)
  then show ?thesis
    using v7fs_dir_iter_moves [of fs st e st'] bsd211_dir_iter_moves [of fs st e st'] False by (auto simp: iter_end_def)
qed

lemma iter_entries_enough:
  assumes "iter_end fs (it_ip st) - it_next st < k" "k \<le> k'"
    and "d_ops (fs_desc fs) = Some P7fs_ops \<Longrightarrow> it_next st \<le> iter_end fs (it_ip st)"
  shows "iter_entries k' fs st = iter_entries k fs st"
  using assms
proof (induction k arbitrary: k' st)
  case (Suc k)
  obtain j where k': "k' = Suc j" "k \<le> j" using Suc.prems(2) by (cases k') auto
  show ?case
  proof (cases "\<exists>e st'. ops_dir_iter fs st = (Inr (Some e), st')")
    case True
    then obtain e st' where s: "ops_dir_iter fs st = (Inr (Some e), st')" by blast
    note mv = dir_iter_moves [OF s Suc.prems(3)]
    have "iter_entries j fs st' = iter_entries k fs st'"
      using mv Suc.prems(1) k'(2) by (intro Suc.IH) auto
    then show ?thesis using s k'(1) by (simp split: prod.split)
  next
    case False
    obtain r st' where r: "ops_dir_iter fs st = (r, st')" by fastforce
    then have "(\<exists>x. r = Inl x) \<or> r = Inr None" using False by (cases r; cases "projr r") auto
    then show ?thesis using r k'(1) by auto
  qed
qed simp

lemma check_entries_complete:
  assumes "h_alloc (fs_host fs) 8320" "unat (ip_size ip) + 3 \<le> k"
  shows "iter_entries k fs \<lparr>it_ip = ip, it_buf = [], it_buf_off = 0, it_next = 0\<rparr> = check_entries fs ip"
proof -
  have "unat (ip_size ip) div 2 div 8 \<le> unat (ip_size ip)" by (metis div_le_dividend le_trans)
  then have "iter_end fs ip \<le> unat (ip_size ip) + 2" by (simp add: iter_end_def p7_ndirents_def unat_div)
  then show ?thesis using assms by (simp add: check_entries_def iter_entries_enough)
qed

section \<open>The link counters saturate\<close>

definition names_ino :: "filsys_edition \<Rightarrow> u32 \<Rightarrow> u32 \<times> byte list \<Rightarrow> bool" where
  "names_ino fs d e \<longleftrightarrow> fst e = d \<and> \<not> (d_synth_dot (fs_desc fs) \<and> is_dot (snd e))"

lemma count_entry_count:
  assumes "length ecount = Suc (unat (ops_maxino fs))" "0 < d" "d \<le> ops_maxino fs"
  shows "unat (fst (count_entry fs state (ecount, rep) e) ! unat d) =
      min 255 (unat (ecount ! unat d) + (if names_ino fs d e then 1 else 0))"
    "length (fst (count_entry fs state (ecount, rep) e)) = length ecount"
proof -
  obtain dno name where e: "e = (dno, name)" by (cases e)
  have c: "unat c \<le> 255" for c :: byte using unsigned_less [of c, where ?'a = nat] by simp
  have inc: "unat (if c + 1 = 0 then 0xFF else c + 1) = min 255 (unat c + 1)" for c :: byte
  proof (cases "c = 0xFF")
    case False
    then have "unat c \<noteq> 255" by (simp add: word_unat_eq_iff)
    then have "unat c + 1 < 2 ^ 8" using c [of c] by simp
    then have "unat (c + 1) = unat c + 1" by (simp add: unat_add_lem [THEN iffD1])
    then show ?thesis using \<open>unat c + 1 < 2 ^ 8\<close> by (auto simp: word_unat_eq_iff)
  qed simp
  have i: "unat d < length ecount" using assms(1,3) by (simp add: word_le_nat_alt)
  have m: "min 255 (unat (ecount ! unat d)) = unat (ecount ! unat d)" using c [of "ecount ! unat d"] by simp
  show "unat (fst (count_entry fs state (ecount, rep) e) ! unat d) =
      min 255 (unat (ecount ! unat d) + (if names_ino fs d e then 1 else 0))"
    "length (fst (count_entry fs state (ecount, rep) e)) = length ecount"
    using i m assms(2,3) inc [of "ecount ! unat d"]
    by (auto simp: e count_entry_def names_ino_def Let_def nth_list_update word_unat_eq_iff [symmetric] not_less)
qed

lemma count_entries_saturate:
  assumes "length ecount = Suc (unat (ops_maxino fs))" "0 < d" "d \<le> ops_maxino fs"
  shows "unat (fst (foldl (count_entry fs state) (ecount, rep) es) ! unat d) =
      min 255 (unat (ecount ! unat d) + length (filter (names_ino fs d) es))"
  using assms(1)
proof (induction es arbitrary: ecount rep)
  case Nil
  show ?case using unsigned_less [of "ecount ! unat d", where ?'a = nat] by simp
next
  case (Cons e es)
  obtain ec r where s: "count_entry fs state (ecount, rep) e = (ec, r)" by fastforce
  note ce = count_entry_count [OF Cons.prems assms(2,3), of state rep e, unfolded s fst_conv]
  have "length ec = Suc (unat (ops_maxino fs))" using ce(2) Cons.prems by simp
  from Cons.IH [OF this, of r] show ?case using s ce(1) by (simp add: min_def)
qed

text \<open>What preening then makes of a larger link count.\<close>

lemma preen_caps_links:
  assumes "ops_read_inode fs ino = Inr ip" "ecount ! unat ino = 0xFF" "ip_nlink ip \<noteq> 0xFF"
    and "filsys_in_allocated (state ! unat ino)" "\<not> d_synth_dot (fs_desc fs)"
    and "ino \<notin> {d_rootino (fs_desc fs), lf_ino, d_badino (fs_desc fs)}" "ck_yes m"
  shows "preen_inode m ask ecount state lf_ino fs (unat ino) =
    snd (ops_write_inode fs ino (ip\<lparr>ip_nlink := 0xFF\<rparr>))"
  using assms by (simp add: preen_inode_def filsys_query_def Let_def)

end
