(* ===== verification/Salvage.thy ===== *)
theory Salvage
  imports Check
begin

text \<open>
  What the check finds after a salvage, and what a check without a repair mode leaves alone.
\<close>

section \<open>Marks only grow\<close>

lemma foldl_grow:
  assumes "\<And>s. R s s" "\<And>a b c. R a b \<Longrightarrow> R b c \<Longrightarrow> R a c" "\<And>s x. R s (f s x)"
  shows "R s (foldl f s xs)"
  by (induction xs arbitrary: s) (auto intro: assms)

text \<open>Two loops agree when their steps agree as long as the state stays below the last one.\<close>

lemma foldl_follow:
  assumes refl: "\<And>s. R s s" and trans: "\<And>a b c. R a b \<Longrightarrow> R b c \<Longrightarrow> R a c" and grow: "\<And>s x. R s (f s x)"
    and step: "\<And>s x. R (f s x) t \<Longrightarrow> g s x = f s x" and below: "R (foldl f s xs) t"
  shows "foldl g s xs = foldl f s xs"
  using below
proof (induction xs arbitrary: s)
  case (Cons x xs)
  have "R (f s x) (foldl f (f s x) xs)" by (rule foldl_grow) (fact refl, rule trans, assumption+, rule grow)
  moreover have "R (foldl f (f s x) xs) t" using Cons.prems by simp
  ultimately have "R (f s x) t" by (rule trans)
  then have "g s x = f s x" by (rule step)
  with Cons show ?case by simp
qed simp

definition grows :: "filsys_chkctx \<Rightarrow> filsys_chkctx \<Rightarrow> bool" where
  "grows cx cx' \<longleftrightarrow> length (cx_bmap cx') = length (cx_bmap cx) \<and> cx_nblk cx' = cx_nblk cx \<and>
     (\<forall>i. bm_test (cx_bmap cx) i \<longrightarrow> bm_test (cx_bmap cx') i)"

lemma grows_refl [simp]: "grows cx cx"
  by (simp add: grows_def)

lemma grows_trans: "grows a b \<Longrightarrow> grows b c \<Longrightarrow> grows a c"
  by (simp add: grows_def)

lemma grows_foldl: "(\<And>s x. grows s (f s x)) \<Longrightarrow> grows s (foldl f s xs)"
  by (rule foldl_grow) (rule grows_refl, erule (1) grows_trans)

lemma grows_follow:
  assumes "\<And>s x. grows s (f s x)" "\<And>s x. grows (f s x) t \<Longrightarrow> g s x = f s x" "grows (foldl f s xs) t"
  shows "foldl g s xs = foldl f s xs"
  by (rule foldl_follow [of grows f t g])
    (rule grows_refl, erule (1) grows_trans, rule assms(1), erule assms(2), rule assms(3))

lemma grows_updates [simp]:
  "grows cx (cx\<lparr>cx_ino := i\<rparr>)" "grows cx (cx\<lparr>cx_errors := e\<rparr>)"
  by (simp_all add: grows_def)

lemma bm_test_set_mono: "bm_test m j \<Longrightarrow> bm_test (bm_set m i) j"
proof (cases "i div 8 < length m")
  case True
  assume "bm_test m j"
  with True show ?thesis by (simp add: bm_test_set)
next
  case False
  assume "bm_test m j"
  with False show ?thesis unfolding bm_set_def by (simp add: list_update_beyond)
qed

lemma mark_block_grows: "grows cx (snd (filsys_mark_block fs cx b))"
  by (simp add: filsys_mark_block_def grows_def Let_def bm_test_set_mono)

text \<open>The step of the loop over an indirect block.\<close>

definition tree_entry :: "nat \<Rightarrow> filsys_edition \<Rightarrow> byte list \<Rightarrow> filsys_chkctx \<Rightarrow> nat \<Rightarrow> filsys_chkctx" where
  "tree_entry level fs buf cx i =
     (let nb = ind_get fs buf i in
      if nb = 0 then cx
      else case level of Suc l \<Rightarrow> filsys_mark_tree l fs cx nb | 0 \<Rightarrow> snd (filsys_mark_block fs cx nb))"

lemma mark_tree_unfold:
  "filsys_mark_tree level fs cx blk =
     (if blk = 0 then cx
      else if fst (filsys_mark_block fs cx blk) \<noteq> 0 then snd (filsys_mark_block fs cx blk)
      else let cx = snd (filsys_mark_block fs cx blk) in
        case ops_read_block fs blk of
          Inl _ \<Rightarrow> cx\<lparr>cx_errors := cx_errors cx + 1\<rparr>
        | Inr buf \<Rightarrow> foldl (tree_entry level fs buf) cx [0..<d_nindir (fs_desc fs)])"
  unfolding filsys_mark_tree.simps [of level] tree_entry_def [abs_def]
  by (simp add: Let_def split_beta)

lemma mark_tree_grows_from:
  assumes "\<And>buf cx i. grows cx (tree_entry level fs buf cx i)"
  shows "grows cx (filsys_mark_tree level fs cx blk)"
proof -
  let ?c = "snd (filsys_mark_block fs cx blk)"
  have 1: "grows cx ?c" by (rule mark_block_grows)
  have "grows cx (foldl (tree_entry level fs buf) ?c xs)" for buf xs
    by (rule grows_trans [OF 1]) (simp add: grows_foldl assms)
  with 1 show ?thesis
    by (simp add: mark_tree_unfold Let_def grows_trans [OF 1] split: sum.split)
qed

lemma mark_tree_grows: "grows cx (filsys_mark_tree level fs cx blk)"
  by (induction level arbitrary: cx blk; rule mark_tree_grows_from)
    (simp_all add: tree_entry_def Let_def mark_block_grows)

lemma tree_entry_grows: "grows cx (tree_entry level fs buf cx i)"
  by (simp add: tree_entry_def Let_def mark_block_grows mark_tree_grows split: nat.split)

lemma mark_slot_grows:
  "grows cx (let a = ip_addr ip ! i; level = filsys_slot_level fs (ip_mode ip) i in
     if a = 0 then cx else if level < 0 then snd (filsys_mark_block fs cx a) else filsys_mark_tree (nat level) fs cx a)"
  by (simp add: Let_def mark_block_grows mark_tree_grows)

lemma mark_blocks_grows: "grows cx (filsys_mark_blocks fs ip cx)"
  unfolding filsys_mark_blocks_def by (rule grows_foldl) (rule mark_slot_grows)

section \<open>Two mounts that agree on the marked blocks\<close>

definition agree_on :: "filsys_chkctx \<Rightarrow> filsys_edition \<Rightarrow> filsys_edition \<Rightarrow> bool" where
  "agree_on t fs fs' \<longleftrightarrow>
     fs_desc fs' = fs_desc fs \<and> ops_data_start fs' = ops_data_start fs \<and> ops_data_end fs' = ops_data_end fs \<and>
     ops_maxino fs' = ops_maxino fs \<and> unat (ops_data_end fs - ops_data_start fs) \<le> 8 * length (cx_bmap t) \<and>
     (\<forall>b. ops_data_start fs \<le> b \<and> b < ops_data_end fs \<and> bm_test (cx_bmap t) (unat (b - ops_data_start fs)) \<longrightarrow>
        ops_read_block fs' b = ops_read_block fs b) \<and>
     (\<forall>b. 2 \<le> b \<and> b < ops_data_start fs \<longrightarrow> ops_read_block fs' b = ops_read_block fs b) \<and>
     (\<forall>ino. ops_read_inode fs' ino = ops_read_inode fs ino)"

lemma mark_block_agree: "agree_on t fs fs' \<Longrightarrow> filsys_mark_block fs' cx b = filsys_mark_block fs cx b"
  by (simp add: agree_on_def filsys_mark_block_def)

text \<open>A block that is read for its entries has just been marked, or lies in the i-list.\<close>

lemma marked_read:
  assumes a: "agree_on t fs fs'" and b: "b \<noteq> 0" "fst (filsys_mark_block fs cx b) = 0"
    and g: "grows (snd (filsys_mark_block fs cx b)) t"
  shows "ops_read_block fs' b = ops_read_block fs b"
proof (cases "b < ops_data_start fs \<or> ops_data_end fs \<le> b")
  case True
  with b have "2 \<le> b \<and> b < ops_data_start fs" by (simp add: filsys_mark_block_def Let_def split: if_splits)
  with a show ?thesis by (simp add: agree_on_def)
next
  case False
  let ?k = "unat (b - ops_data_start fs)"
  have k: "?k < unat (ops_data_end fs - ops_data_start fs)"
    using False by (simp add: unat_sub word_le_nat_alt word_less_nat_alt not_le not_less) linarith
  have len: "length (cx_bmap t) = length (cx_bmap cx)"
    using g mark_block_grows [of cx fs b] by (simp add: grows_def)
  with a k have r: "?k div 8 < length (cx_bmap cx)" by (auto simp: agree_on_def)
  have "\<not> bm_test (cx_bmap cx) ?k" using b False by (simp add: filsys_mark_block_def Let_def split: if_splits)
  then have "bm_test (cx_bmap (snd (filsys_mark_block fs cx b))) ?k"
    using b(1) False r by (simp add: filsys_mark_block_def Let_def bm_test_set)
  with g have "bm_test (cx_bmap t) ?k" by (simp add: grows_def)
  with a False show ?thesis by (simp add: agree_on_def not_less not_le)
qed

lemma ind_get_agree: "agree_on t fs fs' \<Longrightarrow> ind_get fs' = ind_get fs"
  by (simp add: agree_on_def fun_eq_iff ind_get_def p7_ind_get_def v7_ind_get_def)

lemma mark_tree_agree_from:
  assumes a: "agree_on t fs fs'"
    and step: "\<And>buf cx i. grows (tree_entry level fs buf cx i) t \<Longrightarrow> tree_entry level fs' buf cx i = tree_entry level fs buf cx i"
    and g: "grows (filsys_mark_tree level fs cx blk) t"
  shows "filsys_mark_tree level fs' cx blk = filsys_mark_tree level fs cx blk"
proof (cases "blk = 0 \<or> fst (filsys_mark_block fs cx blk) \<noteq> 0")
  case True
  then show ?thesis by (auto simp: mark_tree_unfold mark_block_agree [OF a])
next
  case False
  let ?c = "snd (filsys_mark_block fs cx blk)"
  have d: "fs_desc fs' = fs_desc fs" using a by (simp add: agree_on_def)
  have e: "filsys_mark_tree level fs cx blk = (case ops_read_block fs blk of
      Inl _ \<Rightarrow> ?c\<lparr>cx_errors := cx_errors ?c + 1\<rparr>
    | Inr buf \<Rightarrow> foldl (tree_entry level fs buf) ?c [0..<d_nindir (fs_desc fs)])"
    using False by (simp add: mark_tree_unfold Let_def)
  have up: "grows ?c (foldl (tree_entry level fs buf) ?c xs)" for buf xs by (rule grows_foldl) (rule tree_entry_grows)
  have c: "grows ?c t"
  proof (cases "ops_read_block fs blk")
    case (Inl x)
    then show ?thesis using g unfolding e by (simp add: grows_def)
  next
    case (Inr buf)
    then show ?thesis using grows_trans [OF up] g unfolding e by simp
  qed
  have rd: "ops_read_block fs' blk = ops_read_block fs blk" using marked_read [OF a _ _ c] False by simp
  have e': "filsys_mark_tree level fs' cx blk = (case ops_read_block fs blk of
      Inl _ \<Rightarrow> ?c\<lparr>cx_errors := cx_errors ?c + 1\<rparr>
    | Inr buf \<Rightarrow> foldl (tree_entry level fs' buf) ?c [0..<d_nindir (fs_desc fs)])"
    using False by (simp add: mark_tree_unfold Let_def mark_block_agree [OF a] rd d cong: sum.case_cong)
  show ?thesis
  proof (cases "ops_read_block fs blk")
    case (Inr buf)
    with g have "grows (foldl (tree_entry level fs buf) ?c [0..<d_nindir (fs_desc fs)]) t" unfolding e by simp
    then have "foldl (tree_entry level fs' buf) ?c [0..<d_nindir (fs_desc fs)]
      = foldl (tree_entry level fs buf) ?c [0..<d_nindir (fs_desc fs)]"
      by (intro grows_follow [OF tree_entry_grows step])
    with Inr show ?thesis unfolding e e' by simp
  qed (simp add: e e')
qed

lemma mark_tree_agree:
  "agree_on t fs fs' \<Longrightarrow> grows (filsys_mark_tree level fs cx blk) t \<Longrightarrow>
   filsys_mark_tree level fs' cx blk = filsys_mark_tree level fs cx blk"
  by (induction level arbitrary: cx blk; rule mark_tree_agree_from)
    (auto simp: tree_entry_def Let_def mark_block_agree ind_get_agree split: if_splits)

lemma mark_blocks_agree:
  assumes a: "agree_on t fs fs'" and g: "grows (filsys_mark_blocks fs ip cx) t"
  shows "filsys_mark_blocks fs' ip cx = filsys_mark_blocks fs ip cx"
proof -
  have d: "fs_desc fs' = fs_desc fs" using a by (simp add: agree_on_def)
  have l: "filsys_slot_level fs' = filsys_slot_level fs" by (simp add: fun_eq_iff filsys_slot_level_def d)
  show ?thesis
    using g unfolding filsys_mark_blocks_def d l
    by (intro grows_follow [OF mark_slot_grows])
      (auto simp: Let_def mark_block_agree [OF a] intro!: mark_tree_agree [OF a] split: if_splits)
qed

section \<open>Pass 1 on such mounts\<close>

lemma check_inode_grows: "grows (fst s) (fst (check_inode fs s i))"
proof -
  obtain cx rep state where s: "s = (cx, rep, state)" by (cases s)
  have g: "grows cx (filsys_mark_blocks fs ip (cx\<lparr>cx_ino := k\<rparr>))" for ip k
    by (rule grows_trans [OF grows_updates(1) mark_blocks_grows])
  show ?thesis unfolding check_inode_def s by (simp add: Let_def g split: sum.split)
qed

lemma check_inode_agree:
  assumes a: "agree_on t fs fs'" and g: "grows (fst (check_inode fs s i)) t"
  shows "check_inode fs' s i = check_inode fs s i"
proof -
  obtain cx rep state where s: "s = (cx, rep, state)" by (cases s)
  have d: "fs_desc fs' = fs_desc fs" "ops_read_inode fs' k = ops_read_inode fs k" for k
    using a by (simp_all add: agree_on_def)
  have st: "ops_inode_state fs' = ops_inode_state fs" by (simp add: fun_eq_iff ops_inode_state_def d)
  show ?thesis
  proof (cases "ops_read_inode fs (of_nat i)")
    case (Inr ip)
    then show ?thesis using g mark_blocks_agree [OF a, of ip "cx\<lparr>cx_ino := of_nat i\<rparr>"]
      unfolding check_inode_def s by (auto simp: Let_def d st split: if_splits)
  qed (simp add: check_inode_def s d)
qed

lemma check_pass1_grows: "grows cx (fst (check_pass1 fs cx rep))"
proof -
  let ?s = "foldl (check_inode fs) (cx, rep, replicate (Suc (unat (ops_maxino fs))) 0) [1..<Suc (unat (ops_maxino fs))]"
  have "grows (fst (cx, rep, replicate (Suc (unat (ops_maxino fs))) (0::byte))) (fst ?s)"
    by (rule foldl_grow [of "\<lambda>a b. grows (fst a) (fst b)"]) (rule grows_refl, erule (1) grows_trans, rule check_inode_grows)
  then show ?thesis by (simp add: check_pass1_def split_beta)
qed

lemma check_pass1_agree:
  assumes a: "agree_on (fst (check_pass1 fs cx rep)) fs fs'"
  shows "check_pass1 fs' cx rep = check_pass1 fs cx rep"
proof -
  let ?t = "check_pass1 fs cx rep" and ?s0 = "(cx, rep, replicate (Suc (unat (ops_maxino fs))) (0::byte))"
  let ?xs = "[1..<Suc (unat (ops_maxino fs))]"
  have m: "ops_maxino fs' = ops_maxino fs" using a by (simp add: agree_on_def)
  have t: "fst (foldl (check_inode fs) ?s0 ?xs) = fst ?t" by (simp add: check_pass1_def split_beta)
  have "foldl (check_inode fs') ?s0 ?xs = foldl (check_inode fs) ?s0 ?xs"
  proof (rule foldl_follow [of "\<lambda>a b. grows (fst a) (fst b)" "check_inode fs" ?t])
    show "check_inode fs' s x = check_inode fs s x" if "grows (fst (check_inode fs s x)) (fst ?t)" for s x
      using check_inode_agree [OF a that] .
    show "grows (fst (foldl (check_inode fs) ?s0 ?xs)) (fst ?t)" by (simp only: t grows_refl)
    show "grows (fst a) (fst c)" if "grows (fst a) (fst b)" "grows (fst b) (fst c)" for a b c :: pass1
      using that by (rule grows_trans)
  qed (rule grows_refl, rule check_inode_grows)
  then show ?thesis by (simp add: check_pass1_def m)
qed

section \<open>After a salvage\<close>

text \<open>The V7 mounts the salvage rebuilds a free list for.\<close>

definition v7_listed :: "filsys_edition \<Rightarrow> bool" where
  "v7_listed fs \<longleftrightarrow>
     fl_geom fs \<and> length (free_cache (fs_fl fs)) = d_nicfree (fs_desc fs) \<and> d_freemap (fs_desc fs) = Freemap_list \<and>
     \<not> d_isize_count (fs_desc fs) \<and> d_daddr_wid (fs_desc fs) = 4 \<and> d_ops (fs_desc fs) = Some V7fs_ops \<and>
     2 \<le> v7_inopb fs \<and> v8_nblks fs = 0 \<and> v7_data_first fs < fs_fsize fs \<and>
     unat (fs_fsize fs) + d_nicfree (fs_desc fs) + 7 < 2 ^ 32"

lemma itod_ge: "2 \<le> v7_inopb fs \<Longrightarrow> 2 \<le> v7_itod fs ino"
proof -
  assume i: "2 \<le> v7_inopb fs"
  let ?q = "(ino - 1) div v7_inopb fs"
  have "2 \<le> unat (v7_inopb fs)" using i by (simp add: word_le_nat_alt)
  then have "unat ?q \<le> unat (ino - 1) div 2" by (simp add: unat_div div_le_mono2)
  moreover have "unat (ino - 1) < 2 ^ 32" using unsigned_less [of "ino - 1"] by simp
  ultimately have "2 * unat ?q < 4294967296" by simp
  then have "2 + unat ?q < 2 ^ 32" by simp
  then have "unat (2 + ?q) = 2 + unat ?q" by (simp add: unat_add_lem [THEN iffD1])
  then show ?thesis by (simp add: v7_itod_def word_le_nat_alt)
qed

lemma read_block_same:
  assumes "same_geom fs fs'" "host_ok fs" "host_ok fs'" "blk_data fs' b = blk_data fs b"
  shows "v7fs_read_block fs' b = v7fs_read_block fs b"
  using assms read_block_ok [of fs b] read_block_ok [of fs' b] read_block_outside [of fs b] read_block_outside [of fs' b]
    same_geom_facts(4) [OF assms(1), of b]
  by (cases "blk_in_image fs b") simp_all

lemma salvage_agree:
  assumes v: "v7_listed fs" and cx: "cx_fits fs cx"
  obtains fs' bs where "ops_makefree fs cx = (of_nat (length bs), fs')" "fl_inv fs' bs" "set bs = unused fs cx"
    "tfree (fs_fl fs') = of_nat (length bs)" "same_geom fs fs'" "h_alloc (fs_host fs') = h_alloc (fs_host fs)"
    "agree_on cx fs fs'"
proof -
  from v have g: "fl_geom fs" and d: "\<not> d_isize_count (fs_desc fs)" "d_ops (fs_desc fs) = Some V7fs_ops"
    and i: "2 \<le> v7_inopb fs" "v8_nblks fs = 0" and mk: "d_freemap (fs_desc fs) = Freemap_list"
    by (simp_all add: v7_listed_def)
  from v have pre: "fl_geom fs" "length (free_cache (fs_fl fs)) = d_nicfree (fs_desc fs)"
    "d_freemap (fs_desc fs) = Freemap_list" "\<not> d_isize_count (fs_desc fs)" "d_daddr_wid (fs_desc fs) = 4"
    by (simp_all add: v7_listed_def)
  obtain fs' bs where m: "v7fs_makefree fs cx = (of_nat (length bs), fs')" "fl_inv fs' bs" "set bs = unused fs cx"
    "tfree (fs_fl fs') = of_nat (length bs)" "same_geom fs fs'"
    "\<forall>b. 2 \<le> b \<and> b \<notin> unused fs cx \<longrightarrow> blk_data fs' b = blk_data fs b"
    by (rule makefree_rebuilds [OF pre cx])
  have fs': "fs' = snd (makefree_list fs cx)" using m(1) mk by (simp add: v7fs_makefree_def)
  have al: "h_alloc (fs_host fs') = h_alloc (fs_host fs)" and n: "v8_nblks fs' = v8_nblks fs"
    unfolding fs' using makefree_frame [of "\<lambda>s. h_alloc (fs_host s)" fs cx] makefree_frame [of v8_nblks fs cx]
    by (simp_all add: host_write_def)
  have ok: "host_ok fs" "host_ok fs'" using g m(2) by (simp_all add: fl_geom_def fl_inv_def Let_def)
  have ge: "2 \<le> v7_data_first fs" using g by (simp add: fl_geom_def Let_def)
  have same: "fs_desc fs' = fs_desc fs" "fs_isize fs' = fs_isize fs" "fs_fsize fs' = fs_fsize fs"
    using m(5) by (simp_all add: same_geom_def)
  have rd: "v7fs_read_block fs' b = v7fs_read_block fs b" if "2 \<le> b" "b \<notin> unused fs cx" for b
    using read_block_same [OF m(5) ok] m(6) that by simp
  have area: "ops_data_start fs = v7_data_first fs" "ops_data_end fs = fs_fsize fs"
    using d i by (simp_all add: ops_data_start_def ops_data_end_def v7_data_end_def)
  have rb: "ops_read_block s b = v7fs_read_block s b" if "fs_desc s = fs_desc fs" for s b
    using d that by (simp add: ops_read_block_def)
  have dec: "v7_inode_decode fs' = v7_inode_decode fs" "inode_off fs' = inode_off fs" "v7_itod fs' = v7_itod fs"
    by (simp_all add: fun_eq_iff v7_inode_decode_def inode_off_def v7_itoo_def v7_itod_def v7_inopb_def same Let_def)
  have inode: "ops_read_inode fs' ino = ops_read_inode fs ino" for ino
  proof (cases "ino = 0 \<or> ucast (fs_isize fs) \<le> v7_itod fs ino")
    case False
    then have "v7_itod fs ino \<notin> unused fs cx" by (simp add: unused_def in_data_def v7_data_first_def d(1) not_le)
    with itod_ge [OF i(1)] have "v7fs_read_block fs' (v7_itod fs ino) = v7fs_read_block fs (v7_itod fs ino)" by (rule rd)
    then show ?thesis
      by (simp add: ops_read_inode_def same d(2) v7fs_read_inode_def dec Let_def cong: sum.case_cong)
  qed (auto simp: ops_read_inode_def same d(2) v7fs_read_inode_def dec Let_def)
  have "agree_on cx fs fs'"
    unfolding agree_on_def area rb [OF same(1)] rb [OF refl] same(1)
  proof (intro conjI allI impI)
    show "ops_data_start fs' = v7_data_first fs" "ops_data_end fs' = fs_fsize fs" "ops_maxino fs' = ops_maxino fs"
      using area n i(2) by (simp_all add: ops_data_start_def ops_data_end_def ops_maxino_def v7_data_end_def
          v7_data_first_def v7_maxinode_def v7_inopb_def same d(2))
    show "unat (fs_fsize fs - v7_data_first fs) \<le> 8 * length (cx_bmap cx)" using cx by (simp add: cx_fits_def)
    show "v7fs_read_block fs' b = v7fs_read_block fs b"
      if "v7_data_first fs \<le> b \<and> b < fs_fsize fs \<and> bm_test (cx_bmap cx) (unat (b - v7_data_first fs))" for b
      using that ge by (intro rd) (auto simp: unused_def)
    show "v7fs_read_block fs' b = v7fs_read_block fs b" if "2 \<le> b \<and> b < v7_data_first fs" for b
      using that by (intro rd) (auto simp: unused_def in_data_def)
  qed (rule refl, rule inode)
  moreover have "ops_makefree fs cx = (of_nat (length bs), fs')" using m(1) d(2) by (simp add: ops_makefree_def)
  ultimately show ?thesis using that m al by blast
qed

section \<open>The check, phase by phase\<close>

text \<open>The block accounting of a whole volume.\<close>

definition pass1_of :: "filsys_edition \<Rightarrow> pass1" where
  "pass1_of fs =
     (let nblk = ops_data_end fs - ops_data_start fs in
      check_pass1 fs ((zero_chkctx nblk)\<lparr>cx_owner := Some (replicate (unat (nblk + 1)) 0)\<rparr>)
        (zero_check\<lparr>ck_inodes := ops_maxino fs\<rparr>))"

definition reports_only :: "ck_mode \<Rightarrow> bool" where
  "reports_only m \<longleftrightarrow> \<not> ck_salvage m \<and> \<not> ck_preen m \<and> \<not> ck_yes m \<and> \<not> ck_ask m"

lemma check_common_full:
  assumes "ck_salvage m \<or> reports_only m" "ops_data_start fs < ops_data_end fs" "\<forall>n. h_alloc (fs_host fs) n"
  shows "filsys_check_common m ask fs =
    (case pass1_of fs of (cx, rep, state) \<Rightarrow>
       if 10 < cx_bad_blocks cx then Some (Inr False, rep, fs)
       else if ck_salvage m then Some (Inr (ck_errors rep = 0), rep, snd (ops_makefree fs cx))
       else check_finish m ask fs cx rep state)"
proof -
  have skip: "\<not> (filsys_is_clean fs \<and> (ck_preen m \<or> ck_yes m \<or> ck_ask m) \<and> \<not> (ck_salvage m \<or> ck_force m))"
    using assms(1) by (auto simp: reports_only_def)
  have area: "\<not> (ops_data_end fs \<le> ops_data_start fs \<or> ops_data_end fs = 0)"
    using assms(2) by (auto simp: not_le word_less_nat_alt)
  show ?thesis
    unfolding filsys_check_common_def pass1_of_def Let_def if_not_P [OF skip] if_not_P [OF area]
    using assms(3) by simp
qed

lemma check_finish_reports:
  assumes "reports_only m" "\<forall>n. h_alloc (fs_host fs) n" "ops_walk_free fs cx rep = Inr (cx', rep')"
  shows "check_finish m ask fs cx rep state =
    (let rep = snd (check_links fs state (check_totals fs (check_missing cx' rep'))) in
     Some (Inr (ck_errors rep = 0), rep, fs))"
  using assms by (simp add: check_finish_def reports_only_def Let_def split_beta)

text \<open>The link counts touch only the errors and the orphans of a report.\<close>

lemma foldl_keeps: "(\<And>s x. f (g s x) = f s) \<Longrightarrow> f (foldl g s xs) = f s"
  by (induction xs arbitrary: s) simp_all

lemma check_links_frame:
  assumes e: "\<And>r x. f (r\<lparr>ck_errors := x\<rparr>) = f r" and orp: "\<And>r x. f (r\<lparr>ck_orphaned := x\<rparr>) = f r"
  shows "f (snd (check_links fs state rep)) = f rep"
proof -
  have err: "f (ck_err r) = f r" for r by (simp add: ck_err_def e)
  have "f (snd (count_entry fs state s x)) = f (snd s)" for s x
    by (cases s; cases x) (simp add: count_entry_def Let_def err)
  then have "f (snd (foldl (count_entry fs state) s xs)) = f (snd s)" for s xs
    by (rule foldl_keeps [of "\<lambda>s. f (snd s)"])
  then have "f (snd (count_dir fs state s i)) = f (snd s)" for s i
    by (simp add: count_dir_def split: sum.split)
  then have 1: "f (snd (foldl (count_dir fs state) s xs)) = f (snd s)" for s xs
    by (rule foldl_keeps [of "\<lambda>s. f (snd s)"])
  have "f (check_link fs state ecount r i) = f r" for ecount r i
    by (simp add: check_link_def Let_def err orp split: sum.split)
  then have 2: "f (foldl (check_link fs state ecount) r xs) = f r" for ecount r xs by (rule foldl_keeps)
  show ?thesis by (simp add: check_links_def Let_def split_beta 1 2)
qed

text \<open>A check without a repair mode hands the mount back as it was.\<close>

lemma check_reports_unchanged:
  assumes "reports_only m"
  shows "\<exists>r rep. filsys_check_common m ask fs = Some (r, rep, fs)"
  using assms
  by (simp add: filsys_check_common_def check_finish_def reports_only_def Let_def split: prod.split sum.split)

section \<open>A salvage and the check after it\<close>

lemma pass1_agree:
  assumes "agree_on (fst (pass1_of fs)) fs fs'"
  shows "pass1_of fs' = pass1_of fs"
proof -
  have "ops_data_start fs' = ops_data_start fs" "ops_data_end fs' = ops_data_end fs" "ops_maxino fs' = ops_maxino fs"
    using assms by (simp_all add: agree_on_def)
  with assms show ?thesis by (simp add: pass1_of_def Let_def check_pass1_agree)
qed

lemma v7_listed_area:
  assumes "v7_listed fs"
  shows "ops_data_start fs = v7_data_first fs" "ops_data_end fs = fs_fsize fs"
  using assms by (simp_all add: v7_listed_def ops_data_start_def ops_data_end_def v7_data_end_def)

lemma pass1_fits:
  assumes v: "v7_listed fs"
  shows "cx_fits fs (fst (pass1_of fs))"
proof -
  let ?n = "fs_fsize fs - v7_data_first fs"
  let ?cx = "(zero_chkctx ?n)\<lparr>cx_owner := Some (replicate (unat (?n + 1)) 0)\<rparr>"
  have le: "v7_data_first fs \<le> fs_fsize fs" and lim: "unat (fs_fsize fs) + 7 < 2 ^ 32" using v by (auto simp: v7_listed_def)
  have "unat ?n \<le> unat (fs_fsize fs)" using le by (simp add: unat_sub)
  then have "unat (?n + 7) = unat ?n + 7" using lim by (simp add: unat_add_lem [THEN iffD1])
  then have len: "unat ((?n + 7) div 8) = (unat ?n + 7) div 8" by (simp add: unat_div)
  have "grows ?cx (fst (pass1_of fs))"
    by (simp add: pass1_of_def Let_def v7_listed_area [OF v] check_pass1_grows)
  moreover have "cx_fits fs ?cx" using le len by (simp add: cx_fits_def zero_chkctx_def)
  ultimately show ?thesis by (simp add: cx_fits_def grows_def)
qed

text \<open>Every block of the data area is marked once the free blocks are claimed too.\<close>

lemma claimed_complete:
  assumes cx: "cx_fits fs cx" and bs: "set bs = unused fs cx"
  shows "missing_offs (claimed fs cx bs) = []"
proof -
  have in_d: "\<forall>b \<in> set bs. in_data fs b" using bs by (simp add: unused_def)
  have "bm_test (cx_bmap (claimed fs cx bs)) i" if i: "i < unat (cx_nblk cx)" for i
  proof -
    let ?b = "v7_data_first fs + of_nat i"
    have n: "unat (cx_nblk cx) = unat (fs_fsize fs) - unat (v7_data_first fs)" "v7_data_first fs \<le> fs_fsize fs"
      using cx by (auto simp: cx_fits_def unat_sub)
    have lt: "i < 2 ^ 32" using i unsigned_less [of "cx_nblk cx", where ?'a = nat] by simp
    then have ui: "unat (of_nat i :: u32) = i" by (simp add: unat_of_nat)
    have "unat (v7_data_first fs) + i < 2 ^ 32" using i n unsigned_less [of "fs_fsize fs", where ?'a = nat] by (simp add: word_le_nat_alt)
    then have ub: "unat ?b = unat (v7_data_first fs) + i" using ui by (simp add: unat_add_lem [THEN iffD1])
    have d: "in_data fs ?b" using i n ub by (simp add: in_data_def word_le_nat_alt word_less_nat_alt)
    have o: "unat (?b - v7_data_first fs) = i" using ui by simp
    show ?thesis
    proof (cases "bm_test (cx_bmap cx) i")
      case False
      then have "?b \<in> set bs" using d o bs by (simp add: unused_def)
      then show ?thesis using claimed_bmap(1) [OF cx in_d] o by blast
    qed (simp add: claimed_bmap(1) [OF cx in_d])
  qed
  then show ?thesis by (simp add: missing_offs_def claimed_def filter_empty_conv)
qed

lemma pass1_no_free: "ck_free_blocks (fst (snd (pass1_of fs))) = 0 \<and> ck_missing_blocks (fst (snd (pass1_of fs))) = 0"
proof -
  have "f (fst (snd (check_inode fs s i))) = f (fst (snd s))"
    if e: "\<And>r x. f (r\<lparr>ck_errors := x\<rparr>) = f r" and u: "\<And>r x. f (r\<lparr>ck_used_inodes := x\<rparr>) = f r" for f :: "filsys_check \<Rightarrow> u32" and s i
    by (cases s) (simp add: check_inode_def Let_def ck_err_def e u split: sum.split)
  then have "f (fst (snd (foldl (check_inode fs) s xs))) = f (fst (snd s))"
    if "\<And>r x. f (r\<lparr>ck_errors := x\<rparr>) = f r" "\<And>r x. f (r\<lparr>ck_used_inodes := x\<rparr>) = f r" for f :: "filsys_check \<Rightarrow> u32" and s xs
    using that by (intro foldl_keeps [of "\<lambda>s. f (fst (snd s))"]) blast
  from this [of ck_free_blocks] this [of ck_missing_blocks] show ?thesis
    by (simp add: pass1_of_def check_pass1_def Let_def split_beta zero_check_def)
qed

lemma salvage_then_check:
  assumes v: "v7_listed fs" and al: "\<forall>n. h_alloc (fs_host fs) n" and few: "cx_bad_blocks (fst (pass1_of fs)) \<le> 10"
    and m: "ck_salvage m" "reports_only m'"
  obtains ok rep fs' ok' rep' where "filsys_check_common m ask fs = Some (Inr ok, rep, fs')"
    "filsys_check_common m' ask' fs' = Some (Inr ok', rep', fs')"
    "ck_missing_blocks rep' = 0" "ck_free_blocks rep' = tfree (fs_fl fs')"
    "ck_dup_blocks rep' = cx_dup_blocks (fst (pass1_of fs))"
proof -
  obtain cx rep st where p: "pass1_of fs = (cx, rep, st)" by (cases "pass1_of fs")
  have cx: "cx_fits fs cx" using pass1_fits [OF v] p by simp
  obtain fs' bs where s: "ops_makefree fs cx = (of_nat (length bs), fs')" "fl_inv fs' bs" "set bs = unused fs cx"
    "tfree (fs_fl fs') = of_nat (length bs)" "same_geom fs fs'" "h_alloc (fs_host fs') = h_alloc (fs_host fs)"
    "agree_on cx fs fs'"
    by (rule salvage_agree [OF v cx])
  have d: "fs_desc fs' = fs_desc fs" "fs_fsize fs' = fs_fsize fs" using s(5) by (simp_all add: same_geom_def)
  have area: "ops_data_start fs < ops_data_end fs" "ops_data_start fs' < ops_data_end fs'"
    using v s(7) by (simp_all add: v7_listed_area [OF v] agree_on_def v7_listed_def)
  have al': "\<forall>n. h_alloc (fs_host fs') n" using al s(6) by simp
  have p': "pass1_of fs' = (cx, rep, st)" using pass1_agree [of fs fs'] p s(7) by simp
  have cx': "cx_fits fs' cx" "unused fs' cx = unused fs cx"
    using cx same_geom_facts(1,2) [OF s(5)] d by (simp_all add: cx_fits_def unused_def)
  have w: "ops_walk_free fs' cx rep =
      Inr (claimed fs' cx bs, rep\<lparr>ck_free_blocks := ck_free_blocks rep + of_nat (length bs)\<rparr>)"
    using walk_free_claims [OF s(2) _ _ _ cx'(1)] v al' s(3) cx'(2) d by (simp add: ops_walk_free_def v7_listed_def)
  have ten: "\<not> 10 < cx_bad_blocks cx" using few p by (simp add: not_less)
  have 1: "filsys_check_common m ask fs = Some (Inr (ck_errors rep = 0), rep, fs')"
    using check_common_full [OF _ area(1) al] m(1) ten p s(1) by simp
  let ?r = "check_totals fs' (check_missing (claimed fs' cx bs) (rep\<lparr>ck_free_blocks := ck_free_blocks rep + of_nat (length bs)\<rparr>))"
  let ?q = "snd (check_links fs' st ?r)"
  have 2: "filsys_check_common m' ask' fs' = Some (Inr (ck_errors ?q = 0), ?q, fs')"
    using check_common_full [OF _ area(2) al'] m(2) ten p p' check_finish_reports [OF m(2) al' w]
    by (simp add: reports_only_def Let_def)
  have f: "f ?q = f (check_missing (claimed fs' cx bs) (rep\<lparr>ck_free_blocks := ck_free_blocks rep + of_nat (length bs)\<rparr>))"
    if "\<And>r x. f (r\<lparr>ck_errors := x\<rparr>) = f r" "\<And>r x. f (r\<lparr>ck_orphaned := x\<rparr>) = f r" for f :: "filsys_check \<Rightarrow> u32"
    using check_links_frame [of f, OF that] that(1) by (simp add: check_totals_def ck_err_def Let_def)
  have z: "ck_free_blocks rep = 0" "ck_missing_blocks rep = 0" using pass1_no_free [of fs] p by simp_all
  have "missing_offs (claimed fs' cx bs) = []" using claimed_complete [OF cx'(1)] s(3) cx'(2) by simp
  then have "ck_missing_blocks ?q = 0" "ck_free_blocks ?q = tfree (fs_fl fs')" "ck_dup_blocks ?q = cx_dup_blocks cx"
    using f [of ck_missing_blocks] f [of ck_free_blocks] f [of ck_dup_blocks] z s(4)
    by (simp_all add: check_missing_def Let_def claimed_def)
  with 1 2 show ?thesis using that p by simp
qed

section \<open>Every data block is accounted for once\<close>

definition marks :: "filsys_chkctx \<Rightarrow> nat" where
  "marks cx = card {i. i < unat (cx_nblk cx) \<and> bm_test (cx_bmap cx) i}"

definition map_fits :: "filsys_chkctx \<Rightarrow> bool" where
  "map_fits cx \<longleftrightarrow> unat (cx_nblk cx) \<le> 8 * length (cx_bmap cx)"

lemma marks_set:
  assumes "map_fits cx" "i < unat (cx_nblk cx)" "\<not> bm_test (cx_bmap cx) i"
  shows "marks (cx\<lparr>cx_bmap := bm_set (cx_bmap cx) i\<rparr>) = Suc (marks cx)"
proof -
  have "i div 8 < length (cx_bmap cx)" using assms(1,2) by (simp add: map_fits_def)
  then have "{j. j < unat (cx_nblk cx) \<and> bm_test (bm_set (cx_bmap cx) i) j}
      = insert i {j. j < unat (cx_nblk cx) \<and> bm_test (cx_bmap cx) j}"
    using assms(2) by (auto simp: bm_test_set)
  then show ?thesis using assms(3) by (simp add: marks_def)
qed

lemma marks_missing: "length (missing_offs cx) = unat (cx_nblk cx) - marks cx" "marks cx \<le> unat (cx_nblk cx)"
proof -
  let ?n = "unat (cx_nblk cx)" and ?P = "bm_test (cx_bmap cx)"
  have "length (missing_offs cx) = card {i. i < ?n \<and> \<not> ?P i}"
    by (simp add: missing_offs_def length_filter_conv_card cong: conj_cong)
  moreover have "{i. i < ?n \<and> \<not> ?P i} = {..<?n} - {i. i < ?n \<and> ?P i}" by auto
  moreover have "card ({..<?n} - {i. i < ?n \<and> ?P i}) = ?n - marks cx"
    by (subst card_Diff_subset) (auto simp: marks_def)
  ultimately show "length (missing_offs cx) = ?n - marks cx" by simp
  have "{i. i < ?n \<and> ?P i} \<subseteq> {..<?n}" by auto
  from card_mono [OF _ this] show "marks cx \<le> ?n" by (simp add: marks_def)
qed

text \<open>A step of pass 1 over an area of \<open>n\<close> blocks keeps the marks and the count of used blocks together.\<close>

definition steady :: "u32 \<Rightarrow> filsys_chkctx \<Rightarrow> filsys_chkctx \<Rightarrow> bool" where
  "steady n cx cx' \<longleftrightarrow> (cx_nblk cx = n \<and> map_fits cx \<longrightarrow> cx_nblk cx' = n \<and> map_fits cx' \<and>
     of_nat (marks cx') - cx_used_blocks cx' = of_nat (marks cx) - cx_used_blocks cx)"

lemma steady_refl [simp]: "steady n cx cx"
  by (simp add: steady_def)

lemma steady_trans: "steady n a b \<Longrightarrow> steady n b c \<Longrightarrow> steady n a c"
  by (simp add: steady_def)

lemma steady_foldl: "(\<And>s x. steady n s (f s x)) \<Longrightarrow> steady n s (foldl f s xs)"
  by (rule foldl_grow) (rule steady_refl, erule (1) steady_trans)

lemma steady_updates [simp]: "steady n cx (cx\<lparr>cx_ino := i\<rparr>)" "steady n cx (cx\<lparr>cx_errors := e\<rparr>)"
  by (auto simp: steady_def map_fits_def marks_def)

lemma mark_block_steady:
  assumes "n = ops_data_end fs - ops_data_start fs"
  shows "steady n cx (snd (filsys_mark_block fs cx b))"
proof (cases "b = 0 \<or> b < ops_data_start fs \<or> ops_data_end fs \<le> b \<or> bm_test (cx_bmap cx) (unat (b - ops_data_start fs))")
  case True
  then show ?thesis by (auto simp: filsys_mark_block_def steady_def Let_def map_fits_def marks_def)
next
  case False
  let ?k = "unat (b - ops_data_start fs)" and ?c = "cx\<lparr>cx_bmap := bm_set (cx_bmap cx) (unat (b - ops_data_start fs))\<rparr>"
  have k: "?k < unat n"
    using False assms by (simp add: unat_sub word_le_nat_alt word_less_nat_alt not_le not_less) linarith
  have "marks ?c = Suc (marks cx)" if "cx_nblk cx = n" "map_fits cx" using marks_set [of cx ?k] that k False by simp
  then show ?thesis using False
    by (simp add: filsys_mark_block_def steady_def Let_def) (auto simp: map_fits_def marks_def)
qed

lemma mark_tree_steady_from:
  assumes n: "n = ops_data_end fs - ops_data_start fs" and "\<And>buf cx i. steady n cx (tree_entry level fs buf cx i)"
  shows "steady n cx (filsys_mark_tree level fs cx blk)"
proof -
  let ?c = "snd (filsys_mark_block fs cx blk)"
  have 1: "steady n cx ?c" by (rule mark_block_steady [OF n])
  have "steady n cx (foldl (tree_entry level fs buf) ?c xs)" for buf xs
    by (rule steady_trans [OF 1]) (simp add: steady_foldl assms(2))
  with 1 show ?thesis
    by (simp add: mark_tree_unfold Let_def steady_trans [OF 1] split: sum.split)
qed

lemma mark_tree_steady:
  "n = ops_data_end fs - ops_data_start fs \<Longrightarrow> steady n cx (filsys_mark_tree level fs cx blk)"
  by (induction level arbitrary: cx blk; rule mark_tree_steady_from)
    (simp_all add: tree_entry_def Let_def mark_block_steady)

lemma check_pass1_steady:
  assumes n: "n = ops_data_end fs - ops_data_start fs"
  shows "steady n cx (fst (check_pass1 fs cx rep))"
proof -
  have b: "steady n cx (filsys_mark_blocks fs ip cx)" for ip cx
    unfolding filsys_mark_blocks_def
    by (rule steady_foldl) (simp add: Let_def mark_block_steady [OF n] mark_tree_steady [OF n])
  have g: "steady n cx (filsys_mark_blocks fs ip (cx\<lparr>cx_ino := k\<rparr>))" for ip k cx
    by (rule steady_trans [OF steady_updates(1) b])
  have i: "steady n (fst s) (fst (check_inode fs s i))" for s i
    by (cases s) (simp add: check_inode_def Let_def g split: sum.split)
  let ?s0 = "(cx, rep, replicate (Suc (unat (ops_maxino fs))) (0::byte))"
  have "steady n (fst ?s0) (fst (foldl (check_inode fs) ?s0 [1..<Suc (unat (ops_maxino fs))]))"
    by (rule foldl_grow [of "\<lambda>a b. steady n (fst a) (fst b)"]) (rule steady_refl, erule (1) steady_trans, rule i)
  then show ?thesis by (simp add: check_pass1_def split_beta)
qed

text \<open>The walk of the free list does the same with the free blocks.\<close>

lemma claim_free_steady:
  assumes "map_fits cx" "off < unat (cx_nblk cx)" "claim_free off cx rep = (cx', rep')"
  shows "map_fits cx'" "cx_nblk cx' = cx_nblk cx" "cx_used_blocks cx' = cx_used_blocks cx"
    "of_nat (marks cx') - ck_free_blocks rep' = of_nat (marks cx) - ck_free_blocks rep"
    "ck_missing_blocks rep' = ck_missing_blocks rep"
proof -
  have "marks (cx\<lparr>cx_bmap := bm_set (cx_bmap cx) off\<rparr>) = Suc (marks cx)" if "\<not> bm_test (cx_bmap cx) off"
    using marks_set [OF assms(1,2) that] .
  with assms show "map_fits cx'" "cx_nblk cx' = cx_nblk cx" "cx_used_blocks cx' = cx_used_blocks cx"
    "of_nat (marks cx') - ck_free_blocks rep' = of_nat (marks cx) - ck_free_blocks rep"
    "ck_missing_blocks rep' = ck_missing_blocks rep"
    by (auto simp: claim_free_def map_fits_def ck_err_def marks_def split: if_splits)
qed

lemma walk_chain_steady:
  assumes "walk_chain left fs n cur seen cx rep = Inr (cx', rep')"
    and "map_fits cx" "cx_nblk cx = fs_fsize fs - v7_data_first fs"
  shows "cx_nblk cx' = cx_nblk cx \<and> cx_used_blocks cx' = cx_used_blocks cx \<and> ck_missing_blocks rep' = ck_missing_blocks rep \<and>
    of_nat (marks cx') - ck_free_blocks rep' = of_nat (marks cx) - ck_free_blocks rep"
  using assms
proof (induction left arbitrary: n cur seen cx rep rule: less_induct)
  case (less left)
  let ?bno = "cur ! (unat n - 1)"
  show ?case
  proof (cases "n = 0 \<or> length cur \<le> unat n - 1 \<or> ?bno = 0 \<or> ?bno < v7_data_first fs \<or> fs_fsize fs \<le> ?bno \<or> ?bno \<in> seen")
    case True
    then show ?thesis using less.prems(1) walk_chain.simps [of left fs n cur seen cx rep]
      by (auto simp: Let_def ck_err_def split: if_splits)
  next
    case False
    let ?off = "unat (?bno - v7_data_first fs)"
    obtain cx1 rep1 where c: "claim_free ?off cx rep = (cx1, rep1)" by fastforce
    have "?off < unat (fs_fsize fs - v7_data_first fs)"
      using False by (simp add: unat_sub word_le_nat_alt word_less_nat_alt not_le not_less) linarith
    then have off: "?off < unat (cx_nblk cx)" using less.prems(3) by simp
    note cl = claim_free_steady [OF less.prems(2) off c]
    have e: "ck_free_blocks (ck_err r) = ck_free_blocks r" "ck_missing_blocks (ck_err r) = ck_missing_blocks r" for r by (simp_all add: ck_err_def)
    have ih: "cx_nblk cx' = cx_nblk cx \<and> cx_used_blocks cx' = cx_used_blocks cx \<and> ck_missing_blocks rep' = ck_missing_blocks rep \<and>
        of_nat (marks cx') - ck_free_blocks rep' = of_nat (marks cx) - ck_free_blocks rep"
      if "left = Suc l" "walk_chain l fs n' cur' seen' cx1 rep1 = Inr (cx', rep')" for l n' cur' seen'
      using less.IH [OF _ that(2) cl(1)] that(1) cl(2-5) less.prems(3) by simp
    have w: "(case left of
         0 \<Rightarrow> Inr (cx1, ck_err rep1)
       | Suc left \<Rightarrow>
           if n = 1
           then (case v7fs_read_block fs ?bno of
                   Inl _ \<Rightarrow> Inr (cx1, ck_err rep1)
                 | Inr blk \<Rightarrow>
                     if d_nicfree (fs_desc fs) < unat (chain_nfree fs blk) then Inr (cx1, ck_err rep1)
                     else walk_chain left fs (chain_nfree fs blk) (chain_free fs blk) (insert ?bno seen) cx1 rep1)
           else walk_chain left fs (n - 1) cur (insert ?bno seen) cx1 rep1) = Inr (cx', rep')"
      using less.prems(1) False c walk_chain.simps [of left fs n cur seen cx rep] by (simp add: Let_def del: One_nat_def)
    show ?thesis
    proof (cases "\<exists>l n' cur' seen'. left = Suc l \<and> walk_chain l fs n' cur' seen' cx1 rep1 = Inr (cx', rep')")
      case True
      then show ?thesis using ih by blast
    next
      case False
      then have "cx' = cx1" "rep' = ck_err rep1" using w by (auto split: nat.splits sum.splits if_splits)
      then show ?thesis using cl e by simp
    qed
  qed
qed

text \<open>The formats of the V7 engine that keep a free list.\<close>

definition list_area :: "filsys_edition \<Rightarrow> bool" where
  "list_area fs \<longleftrightarrow> d_ops (fs_desc fs) \<in> {Some V6fs_ops, Some V7fs_ops, Some Bsd211fs_ops} \<and>
     d_freemap (fs_desc fs) = Freemap_list \<and> v8_nblks fs = 0 \<and> v7_data_first fs < fs_fsize fs \<and>
     unat (fs_fsize fs - v7_data_first fs) + 7 < 2 ^ 32"

lemma list_area_facts:
  assumes "list_area fs"
  shows "ops_data_start fs = v7_data_first fs" "ops_data_end fs = fs_fsize fs"
    "ops_walk_free fs cx rep = v7_walk_free fs cx rep"
  using assms by (auto simp: list_area_def ops_data_start_def ops_data_end_def v7_data_end_def ops_walk_free_def)

lemma pass1_accounts:
  assumes a: "list_area fs"
  shows "map_fits (fst (pass1_of fs))" "cx_nblk (fst (pass1_of fs)) = fs_fsize fs - v7_data_first fs"
    "of_nat (marks (fst (pass1_of fs))) = cx_used_blocks (fst (pass1_of fs))"
proof -
  let ?n = "fs_fsize fs - v7_data_first fs"
  let ?cx = "(zero_chkctx ?n)\<lparr>cx_owner := Some (replicate (unat (?n + 1)) 0)\<rparr>"
  have "unat (?n + 7) = unat ?n + 7" using a by (simp add: list_area_def unat_add_lem [THEN iffD1])
  then have len: "unat ((?n + 7) div 8) = (unat ?n + 7) div 8" by (simp add: unat_div)
  have fits: "map_fits ?cx" by (simp add: map_fits_def zero_chkctx_def len)
  have "{i. i < unat ?n \<and> bm_test (replicate ((unat ?n + 7) div 8) 0) i} = {}"
    using bm_test_replicate0 [of _ "(unat ?n + 7) div 8"] by auto
  then have "marks ?cx = 0" by (simp add: marks_def zero_chkctx_def len)
  moreover have "steady ?n ?cx (fst (pass1_of fs))"
    by (simp add: pass1_of_def Let_def list_area_facts [OF a] check_pass1_steady)
  ultimately show "map_fits (fst (pass1_of fs))" "cx_nblk (fst (pass1_of fs)) = ?n"
    "of_nat (marks (fst (pass1_of fs))) = cx_used_blocks (fst (pass1_of fs))"
    using fits by (simp_all add: steady_def zero_chkctx_def)
qed

lemma check_accounts:
  assumes a: "list_area fs" and al: "\<forall>n. h_alloc (fs_host fs) n" and m: "reports_only m"
    and few: "cx_bad_blocks (fst (pass1_of fs)) \<le> 10" and c: "filsys_check_common m ask fs = Some (Inr ok, rep, fs')"
  shows "ck_used_blocks rep + ck_free_blocks rep + ck_missing_blocks rep = fs_fsize fs - v7_data_first fs"
proof -
  let ?n = "fs_fsize fs - v7_data_first fs"
  obtain cx rep0 st where p: "pass1_of fs = (cx, rep0, st)" by (cases "pass1_of fs")
  note f = list_area_facts [OF a] and acc = pass1_accounts [OF a, unfolded p fst_conv]
  have lt: "ops_data_start fs < ops_data_end fs" using a f by (simp add: list_area_def)
  have ten: "\<not> 10 < cx_bad_blocks cx" using few p by (simp add: not_less)
  have c': "check_finish m ask fs cx rep0 st = Some (Inr ok, rep, fs')"
    using c check_common_full [OF _ lt al, of m ask] m p ten by (simp add: reports_only_def)
  obtain cx1 rep1 where w: "v7_walk_free fs cx rep0 = Inr (cx1, rep1)"
    using c' f(3) by (cases "v7_walk_free fs cx rep0") (auto simp: check_finish_def)
  have ch: "\<exists>k. walk_chain k fs (nfree (fs_fl fs)) (free_cache (fs_fl fs)) {} cx rep0 = Inr (cx1, rep1)"
    using w a al by (auto simp: v7_walk_free_def list_area_def split: if_splits)
  have st: "cx_nblk cx1 = ?n" "cx_used_blocks cx1 = cx_used_blocks cx"
      "of_nat (marks cx1) - ck_free_blocks rep1 = of_nat (marks cx) - ck_free_blocks rep0"
      "ck_missing_blocks rep1 = ck_missing_blocks rep0"
    using ch walk_chain_steady acc(1,2) by metis+
  have z: "ck_free_blocks rep0 = 0" "ck_missing_blocks rep0 = 0" using pass1_no_free [of fs] p by simp_all
  let ?r = "check_missing cx1 rep1"
  have rep: "rep = snd (check_links fs st (check_totals fs ?r))"
    using c' check_finish_reports [OF m al, of cx rep0 cx1 rep1 ask st] w f(3) by (auto simp: Let_def)
  have fr: "g rep = g ?r" if "\<And>r x. g (r\<lparr>ck_errors := x\<rparr>) = g r" "\<And>r x. g (r\<lparr>ck_orphaned := x\<rparr>) = g r" for g :: "filsys_check \<Rightarrow> u32"
    using check_links_frame [of g, OF that] that(1) unfolding rep by (simp add: check_totals_def ck_err_def Let_def)
  have mis: "of_nat (length (missing_offs cx1)) = ?n - of_nat (marks cx1)"
    using marks_missing [of cx1] st(1) by (simp add: of_nat_diff)
  have "of_nat (marks cx1) = cx_used_blocks cx + ck_free_blocks rep1" using st(3) acc(3) z(1) by (simp add: algebra_simps)
  moreover have "ck_used_blocks rep = cx_used_blocks cx" "ck_free_blocks rep = ck_free_blocks rep1"
    "ck_missing_blocks rep = of_nat (length (missing_offs cx1))"
    using fr [of ck_used_blocks] fr [of ck_free_blocks] fr [of ck_missing_blocks] st(2,4) z(2)
    by (simp_all add: check_missing_def Let_def)
  ultimately show ?thesis using mis by simp
qed

text \<open>A cache that holds its count keeps the walk inside its arrays.\<close>

lemma walk_chain_defined: "unat n \<le> length cur \<Longrightarrow> \<not> isl (walk_chain left fs n cur seen cx rep)"
proof (induction left arbitrary: n cur seen cx rep rule: less_induct)
  case (less left)
  let ?bno = "cur ! (unat n - 1)"
  obtain cx1 rep1 where c: "claim_free (unat (?bno - v7_data_first fs)) cx rep = (cx1, rep1)" by fastforce
  have ih: "\<not> isl (walk_chain l fs n' cur' seen' cx1 rep1)" if "left = Suc l" "unat n' \<le> length cur'" for l n' cur' seen'
    using less.IH [of l n' cur'] that by simp
  have n: "\<not> length cur \<le> unat n - 1" if "n \<noteq> 0"
  proof -
    have "0 < unat n" using that by (simp add: unat_gt_0)
    then show ?thesis using less.prems by linarith
  qed
  have dec: "unat (n - 1) \<le> length cur" if "n \<noteq> 0" using less.prems that by (simp add: unat_minus_one)
  show ?case
    using n dec c unfolding walk_chain.simps [of left fs n cur seen cx rep]
    by (simp add: Let_def ih split: nat.split sum.split del: One_nat_def)
qed


lemma check_accounts_total:
  assumes a: "list_area fs" and al: "\<forall>n. h_alloc (fs_host fs) n" and m: "reports_only m"
    and few: "cx_bad_blocks (fst (pass1_of fs)) \<le> 10" and n: "unat (nfree (fs_fl fs)) \<le> length (free_cache (fs_fl fs))"
  shows "\<exists>ok rep. filsys_check_common m ask fs = Some (Inr ok, rep, fs) \<and>
    ck_used_blocks rep + ck_free_blocks rep + ck_missing_blocks rep = fs_fsize fs - v7_data_first fs"
proof -
  obtain cx rep st where p: "pass1_of fs = (cx, rep, st)" by (cases "pass1_of fs")
  note f = list_area_facts [OF a]
  have lt: "ops_data_start fs < ops_data_end fs" using a f by (simp add: list_area_def)
  have ten: "\<not> 10 < cx_bad_blocks cx" using few p by (simp add: not_less)
  have "\<not> isl (v7_walk_free fs cx rep)"
    using walk_chain_defined [OF n] al a by (simp add: v7_walk_free_def list_area_def)
  then obtain cx1 rep1 where w: "ops_walk_free fs cx rep = Inr (cx1, rep1)"
    using f(3) by (cases "v7_walk_free fs cx rep") auto
  have "\<exists>ok rep'. filsys_check_common m ask fs = Some (Inr ok, rep', fs)"
    using check_common_full [OF _ lt al, of m ask] m p ten check_finish_reports [OF m al w]
    by (auto simp: reports_only_def Let_def)
  then show ?thesis using check_accounts [OF a al m few] by blast
qed

end
