(* ===== verification/Mount.thy ===== *)
theory Mount
  imports Freespace Filsys
begin

text \<open>
  Opening an image: \<^verbatim>\<open>v7fs_open\<close> with its block-size probe, the three superblock layouts,
  the free-space totals and the sanity checks, the dispatch over the backends, and the handle
  layer's \<^verbatim>\<open>filsys_open_arch\<close>.  A volume that is written back and opened again has the
  state it was written with, for every row with the V7 superblock.  \<open>None\<close> is a call that does
  not return: the counting loops of \<open>Freespace\<close> may not.
\<close>

section \<open>The V7 engine\<close>

text \<open>System V names its block size in \<^verbatim>\<open>s_type\<close>, at a fixed place.\<close>

definition sysv_bsize :: "u32 \<Rightarrow> nat" where
  "sysv_bsize t = (if t = 1 then 512 else if t = 2 then 1024 else if t = 3 then 2048 else 0)"

definition open_dyn_bsize :: "filsys_edition \<Rightarrow> errno + filsys_edition" where
  "open_dyn_bsize fs =
     (let d = fs_desc fs in
      if \<not> d_dyn_bsize d then Inr fs
      else case io_file_read fs 512 (512 + fs_base fs) of
        Inl _ \<Rightarrow> Inl EIO
      | Inr probe \<Rightarrow>
          if \<not> d_ignore_magic d \<and> bo_get32 (d_bo d) probe 504 \<noteq> 0xfd187e20 then Inl EINVAL
          else let bsize = sysv_bsize (bo_get32 (d_bo d) probe 508) in
            if bsize = 0 then Inl EINVAL
            else Inr (fs\<lparr>fs_desc := d\<lparr>d_bsize := bsize, d_nindir := bsize div d_daddr_wid d\<rparr>\<rparr>))"

definition open_decode :: "filsys_edition \<Rightarrow> byte list \<Rightarrow> unit op" where
  "open_decode fs sb =
     (if d_sb_codec (fs_desc fs)
      then try_as EINVAL (v8_sb_decode fs sb) (\<lambda>_ fs.
        if d_freemap (fs_desc fs) \<noteq> Freemap_list then try_as EIO (v8_bitmap_load fs sb) (\<lambda>_ fs. (Inr (), fs))
        else (Inr (), fs))
      else if d_isize_count (fs_desc fs) then (Inr (), v6_super_decode fs sb)
      else (Inr (), v7_super_decode fs sb))"

definition set_totals :: "filsys_edition \<Rightarrow> (errno + u32 \<times> u32) option \<Rightarrow> (unit op) option" where
  "set_totals fs r =
     (case r of
        None \<Rightarrow> None
      | Some (Inl e) \<Rightarrow> Some (Inl e, fs)
      | Some (Inr (nb, ni)) \<Rightarrow> Some (Inr (), fs\<lparr>fs_fl := (fs_fl fs)\<lparr>tfree := nb, tinode := ni\<rparr>\<rparr>))"

definition open_totals :: "filsys_edition \<Rightarrow> byte list \<Rightarrow> (unit op) option" where
  "open_totals fs sb =
     (let d = fs_desc fs in
      if d_sb_codec d then Some (Inr (), fs)
      else if d_isize_count d then set_totals fs (v6_count_free fs)
      else if \<not> d_pack4 d \<or> d_magic d \<noteq> 0 then Some (Inr (), v7_totals_decode fs sb)
      else set_totals fs (v7_count_free fs))"

text \<open>The checks after the fields have been read: the magic word and the sizes.\<close>

definition open_finish :: "filsys_edition \<Rightarrow> byte list \<Rightarrow> unit op" where
  "open_finish fs sb =
     (let d = fs_desc fs; fs = v7_interleave_decode fs sb in
      if \<not> d_ignore_magic d \<and> d_magic d \<noteq> 0 \<and> bo_get32 (d_bo d) sb (d_magic_off d) \<noteq> d_magic d then (Inl EINVAL, fs)
      else if fs_isize fs < (if d_isize_count d then 1 else 2) \<or>
              h_len (fs_host fs) < fs_base fs + unat (fs_fsize fs) * d_bsize d \<or>
              fs_fsize fs \<le> v7_data_first fs
      then (Inl EINVAL, fs)
      else (Inr (), fs\<lparr>fs_imgsize := h_len (fs_host fs)\<rparr>))"

definition v7fs_open :: "filsys_edition \<Rightarrow> bool \<Rightarrow> filsys_desc \<Rightarrow> nat \<Rightarrow> (unit op) option" where
  "v7fs_open fs ro proto offset =
     (let fs = fs\<lparr>fs_desc := proto, fs_readonly := ro, fs_base := offset\<rparr> in
      case open_dyn_bsize fs of
        Inl e \<Rightarrow> Some (Inl e, fs)
      | Inr fs \<Rightarrow>
          (case super_read fs of
             Inl _ \<Rightarrow> Some (Inl EIO, fs)
           | Inr sb \<Rightarrow>
               (case open_decode fs sb of
                  (Inl e, fs) \<Rightarrow> Some (Inl e, fs)
                | (Inr _, fs) \<Rightarrow>
                    if d_nicfree (fs_desc fs) < unat (nfree (fs_fl fs)) \<or> d_nicinod (fs_desc fs) < unat (ninode (fs_fl fs))
                    then Some (Inl EINVAL, fs)
                    else case open_totals fs sb of
                      None \<Rightarrow> None
                    | Some (Inl e, fs) \<Rightarrow> Some (Inl e, fs)
                    | Some (Inr _, fs) \<Rightarrow> Some (open_finish fs sb))))"

section \<open>The handle layer\<close>

text \<open>A zeroed mount, with the caches \<^verbatim>\<open>filsys_fl_alloc\<close> sizes from the descriptor.\<close>

definition zero_mount :: "host \<Rightarrow> filsys_desc \<Rightarrow> filsys_edition" where
  "zero_mount h d =
     \<lparr>fs_desc = d, fs_readonly = False, fs_base = 0, fs_imgsize = 0, fs_isize = 0, fs_fsize = 0, fs_maxino = 0,
      fs_freelist = 0,
      fs_fl = \<lparr>nfree = 0, ninode = 0, free_cache = replicate (d_nicfree d) 0, inode_cache = replicate (d_nicinod d) 0,
               tfree = 0, tinode = 0\<rparr>,
      fs_bm = \<lparr>freemap_bytes = 0, inodemap_bytes = 0, freemap = [], inodemap = [], bm_tfree = 0, bm_tinode = 0\<rparr>,
      fs_time = 0, fs_m = 0, fs_n = 0, fs_unique = 0, fs_fmod = 0, fs_fl_dirty = False,
      v8_bits = [], v8_nbits = 0, v8_base = 0, v8_nblks = 0, v8_blk_start = 0, fs_host = h\<rparr>"

definition filsys_fl_alloc :: "filsys_edition \<Rightarrow> filsys_desc \<Rightarrow> unit op" where
  "filsys_fl_alloc fs d =
     (if d_nicfree d \<noteq> 0 \<and> \<not> h_alloc (fs_host fs) (d_nicfree d * 4) then (Inl ENOMEM, fs)
      else if d_nicinod d \<noteq> 0 \<and> \<not> h_alloc (fs_host fs) (d_nicinod d * 2) then (Inl ENOMEM, fs)
      else (Inr (), fs\<lparr>fs_fl := (fs_fl fs)\<lparr>free_cache := replicate (d_nicfree d) 0,
                                            inode_cache := replicate (d_nicinod d) 0\<rparr>\<rparr>))"

definition ops_open :: "filsys_edition \<Rightarrow> bool \<Rightarrow> filsys_desc \<Rightarrow> nat \<Rightarrow> (unit op) option" where
  "ops_open fs ro proto offset =
     (case d_ops proto of
        None \<Rightarrow> Some (Inl UB, fs)
      | Some V1fs_ops \<Rightarrow> Some (v1fs_open fs ro proto offset)
      | Some P7fs_ops \<Rightarrow> Some (p7fs_open fs ro proto offset)
      | Some _ \<Rightarrow> v7fs_open fs ro proto offset)"

text \<open>
  The descriptor an open uses: the row of the edition, the geometry override of the V8 family,
  the byte order of the image and the packing of the word-addressed editions.
\<close>

definition open_desc :: "edition \<Rightarrow> errno + host \<Rightarrow> nat \<Rightarrow> string option \<Rightarrow> string option \<Rightarrow> bool \<Rightarrow> filsys_geom option \<Rightarrow>
    errno + filsys_desc" where
  "open_desc edn opened offset packing arch force geom =
     (let fmt = filsys_getformat edn in
      if d_ops fmt = None then Inl EINVAL
      else case (case geom of
                   Some g \<Rightarrow> if edn \<in> {FILSYS_V8, FILSYS_V9, FILSYS_V10} then filsys_apply_geom fmt edn g else Inr fmt
                 | None \<Rightarrow> Inr fmt) of
        Inl e \<Rightarrow> Inl e
      | Inr fmt \<Rightarrow>
          (case filsys_resolve_byteorder fmt opened offset arch force of
             Inl e \<Rightarrow> Inl e
           | Inr fmt \<Rightarrow>
               (case packing of
                  None \<Rightarrow> Inr fmt
                | Some p \<Rightarrow>
                    if d_word fmt = None then Inr fmt
                    else case filsys_word_codec_by_name p of
                      None \<Rightarrow> Inl EINVAL
                    | Some wc \<Rightarrow> Inr (fmt\<lparr>d_word := Some wc\<rparr>))))"

text \<open>
  \<open>h\<close> is the host with the image, \<open>opened\<close> what \<^verbatim>\<open>open\<close> of the path yields, \<open>szh\<close> and
  \<open>szs\<close> the sizes of the handle and the mount, and \<open>lock\<close> what the advisory lock returns.  A
  refused lock or dirty mark closes the mount again, which flushes it.
\<close>

definition open_guarded :: "bool \<Rightarrow> errno + unit \<Rightarrow> filsys \<Rightarrow> filsys_edition \<Rightarrow> filsys op" where
  "open_guarded ro lock hnd fs =
     (case lock of
        Inl e \<Rightarrow> (Inl e, snd (ops_close fs))
      | Inr _ \<Rightarrow>
          (case (if \<not> ro \<and> has_mark fs then v7fs_mark_dirty fs else (Inr (), fs)) of
             (Inl e, fs) \<Rightarrow> (Inl e, snd (ops_close fs))
           | (Inr _, fs) \<Rightarrow> (Inr hnd, fs)))"

definition filsys_open_arch ::
    "edition \<Rightarrow> host \<Rightarrow> errno + unit \<Rightarrow> bool \<Rightarrow> nat \<Rightarrow> u32 \<Rightarrow> u32 \<Rightarrow> string option \<Rightarrow> string option \<Rightarrow> bool \<Rightarrow>
     filsys_geom option \<Rightarrow> bool \<Rightarrow> nat \<Rightarrow> nat \<Rightarrow> errno + unit \<Rightarrow> (filsys op) option" where
  "filsys_open_arch edn h opened ro offset uid gid packing arch force geom no_lock szh szs lock =
     (case open_desc edn (case opened of Inl e \<Rightarrow> Inl e | Inr _ \<Rightarrow> Inr h) offset packing arch force geom of
        Inl e \<Rightarrow> Some (Inl e, zero_mount h (filsys_getformat edn))
      | Inr fmt \<Rightarrow>
          let fs = zero_mount h fmt in
          if \<not> h_alloc h szh \<or> \<not> h_alloc h szs then Some (Inl ENOMEM, fs)
          else case filsys_fl_alloc fs fmt of
            (Inl e, fs) \<Rightarrow> Some (Inl e, fs)
          | (Inr _, fs) \<Rightarrow>
              (case opened of
                 Inl e \<Rightarrow> Some (Inl e, fs)
               | Inr _ \<Rightarrow>
                   (case ops_open fs ro fmt offset of
                      None \<Rightarrow> None
                    | Some (Inl e, fs) \<Rightarrow> Some (Inl e, fs)
                    | Some (Inr _, fs) \<Rightarrow>
                        Some (open_guarded ro (if no_lock \<or> ro then Inr () else lock)
                          \<lparr>hd_ver = edn, hd_uid = uid, hd_gid = gid, hd_readonly = ro\<rparr> fs))))"

section \<open>Reopening a volume\<close>

text \<open>The rows with the V7 superblock and free-space totals: no own codec, no fixed-offset superblock.\<close>

definition v7_plain :: "filsys_desc \<Rightarrow> bool" where
  "v7_plain d \<longleftrightarrow> \<not> d_dyn_bsize d \<and> \<not> d_sb_codec d \<and> \<not> d_isize_count d \<and> \<not> d_pack4 d \<and> d_magic d = 0 \<and>
     d_freemap d = Freemap_list \<and> v7_layout d (d_bsize d)"

text \<open>A mount \<^verbatim>\<open>v7fs_open\<close> would accept.\<close>

definition openable :: "filsys_edition \<Rightarrow> bool" where
  "openable fs \<longleftrightarrow> unat (nfree (fs_fl fs)) \<le> d_nicfree (fs_desc fs) \<and> unat (ninode (fs_fl fs)) \<le> d_nicinod (fs_desc fs) \<and>
     2 \<le> fs_isize fs \<and> v7_data_first fs < fs_fsize fs \<and> tinode (fs_fl fs) < 65536 \<and>
     fs_base fs + unat (fs_fsize fs) * d_bsize (fs_desc fs) \<le> h_len (fs_host fs)"

lemma super_read_fresh:
  assumes "\<not> d_dyn_bsize (fs_desc fs)" "fs_imgsize fs = 0" "\<forall>off n. \<not> h_rd_err (fs_host fs) off n"
    and "super_off fs + super_len fs \<le> h_len (fs_host fs)"
  shows "super_read fs = Inr (super_data fs)"
  using assms by (simp add: super_read_def v7fs_read_block_def filsys_check_range_def io_file_read_def super_data_def
      super_off_def super_len_def Let_def)

lemma v7_reopen:
  assumes h: "host_ok fs" "super_in_image fs" "\<not> fs_readonly fs" and p: "v7_plain (fs_desc fs)" and o: "openable fs"
    and c: "caches_wf fs"
  obtains fs' where "v7fs_open (zero_mount (fs_host (snd (v7fs_sync fs))) (fs_desc fs)) ro (fs_desc fs) (fs_base fs) = Some (Inr (), fs')"
    "fs_desc fs' = fs_desc fs" "fs_readonly fs' = ro" "fs_base fs' = fs_base fs" "fs_isize fs' = fs_isize fs"
    "fs_fsize fs' = fs_fsize fs" "fs_fl fs' = fs_fl fs" "fs_fmod fs' = fmod_flag (fs_fmod fs)"
    "fs_host fs' = fs_host (super_stored fs)" "fs_imgsize fs' = h_len (fs_host fs)"
    "d_interleave (fs_desc fs) \<longrightarrow> fs_m fs' = fs_m fs \<and> fs_n fs' = fs_n fs \<and> fs_unique fs' = fs_unique fs"
proof -
  let ?d = "fs_desc fs" and ?s = "super_stored fs"
  define fs0 where "fs0 = (zero_mount (fs_host ?s) ?d)\<lparr>fs_desc := ?d, fs_readonly := ro, fs_base := fs_base fs\<rparr>"
  define sb where "sb = super_encode fs (super_data fs)"
  have d: "\<not> d_dyn_bsize ?d" "\<not> d_sb_codec ?d" "\<not> d_isize_count ?d" "\<not> d_pack4 ?d" "d_magic ?d = 0"
    "d_freemap ?d = Freemap_list" "v7_layout ?d (d_bsize ?d)" using p by (simp_all add: v7_plain_def)
  have sync: "snd (v7fs_sync fs) = ?s" using h d by (simp add: v7fs_sync_def flush_fs_def super_write_ok)
  have len: "h_len (fs_host ?s) = h_len (fs_host fs)"
    using h by (auto simp: super_stored_def host_write_def host_ok_def super_in_image_def)
  have f0: "fs_desc fs0 = ?d" "fs_imgsize fs0 = 0" "fs_host fs0 = fs_host ?s" "fs_base fs0 = fs_base fs"
    by (simp_all add: fs0_def zero_mount_def)
  have off: "super_off fs0 = super_off fs" "super_len fs0 = super_len fs" "super_len fs = d_bsize ?d"
    using f0 d(1) by (simp_all add: super_off_def super_len_def blk_off_def)
  have "\<forall>off n. \<not> h_rd_err (fs_host fs0) off n"
    using h(1) by (simp add: f0 super_stored_def host_write_def host_ok_def)
  then have "super_read fs0 = Inr (super_data fs0)"
    using h d(1) by (intro super_read_fresh) (auto simp: f0 off len host_ok_def super_in_image_def)
  moreover have "super_data fs0 = sb"
    using super_data_stored [of fs] by (simp add: super_data_def [of fs0] off f0 super_data_def [of ?s] sb_def)
  ultimately have rd: "super_read fs0 = Inr sb" by simp
  have enc: "sb = v7_super_encode fs (super_data fs)" using d by (simp add: sb_def super_encode_def)
  have lay: "v7_layout ?d (length (super_data fs))" using d(7) off(3) by simp
  define fs1 where "fs1 = v7_super_decode fs0 sb"
  define fs2 where "fs2 = v7_totals_decode fs1 sb"
  define fs3 where "fs3 = v7_interleave_decode fs2 sb"
  note r1 = v7_super_roundtrip [OF lay c f0(1), folded enc fs1_def]
  have d1: "fs_desc fs1 = ?d" by (simp add: r1 f0)
  have nop: "\<not> d_pack4 ?d \<or> d_magic ?d \<noteq> 0" using d by simp
  note r2 = v7_totals_roundtrip [OF lay d1 nop, folded enc fs2_def]
  have d2: "fs_desc fs2 = ?d" by (simp add: r2 d1)
  have ti: "ucast (ucast (tinode (fs_fl fs)) :: u16) = tinode (fs_fl fs)"
    using o by (intro ucast_u16_id) (simp add: openable_def)
  have fl: "fs_fl fs2 = fs_fl fs" by (simp add: r2 r1 ti)
  have il: "\<exists>m n u. fs3 = fs2\<lparr>fs_m := m, fs_n := n, fs_unique := u\<rparr> \<and>
      (d_interleave ?d \<longrightarrow> m = fs_m fs \<and> n = fs_n fs \<and> u = fs_unique fs)"
  proof (cases "d_interleave ?d")
    case True
    then show ?thesis using v7_interleave_roundtrip [OF lay d2 True, folded enc fs3_def] by blast
  next
    case False
    then have "fs3 = fs2\<lparr>fs_m := fs_m fs2, fs_n := fs_n fs2, fs_unique := fs_unique fs2\<rparr>"
      using d2 by (simp add: fs3_def v7_interleave_decode_def)
    then show ?thesis using False by blast
  qed
  then obtain m n u where il: "fs3 = fs2\<lparr>fs_m := m, fs_n := n, fs_unique := u\<rparr>"
      "d_interleave ?d \<longrightarrow> m = fs_m fs \<and> n = fs_n fs \<and> u = fs_unique fs" by blast
  have f3: "fs_desc fs3 = ?d" "fs_isize fs3 = fs_isize fs" "fs_fsize fs3 = fs_fsize fs" "fs_fl fs3 = fs_fl fs"
    "fs_host fs3 = fs_host ?s" "fs_base fs3 = fs_base fs" "fs_readonly fs3 = ro" "fs_fmod fs3 = fmod_flag (fs_fmod fs)"
    using d2 fl by (simp_all add: il r2 r1 f0) (simp add: fs0_def)
  have df: "v7_data_first fs3 = v7_data_first fs" by (simp add: v7_data_first_def f3)
  let ?f = "fs3\<lparr>fs_imgsize := h_len (fs_host fs)\<rparr>"
  have fin: "open_finish fs2 sb = (Inr (), ?f)"
    using o d(3,5) by (simp add: open_finish_def Let_def d2 f3 df len openable_def not_le not_less flip: fs3_def)
  have "open_decode fs0 sb = (Inr (), fs1)" using d by (simp add: open_decode_def f0 fs1_def)
  moreover have "open_totals fs1 sb = Some (Inr (), fs2)" using d by (simp add: open_totals_def d1 fs2_def Let_def)
  moreover have "nfree (fs_fl fs1) = nfree (fs_fl fs)" "ninode (fs_fl fs1) = ninode (fs_fl fs)" by (simp_all add: r1)
  moreover have "open_dyn_bsize fs0 = Inr fs0" using d(1) by (simp add: open_dyn_bsize_def f0)
  ultimately have "v7fs_open (zero_mount (fs_host ?s) ?d) ro ?d (fs_base fs) = Some (Inr (), ?f)"
    using o rd fin unfolding v7fs_open_def Let_def fs0_def [symmetric] by (simp add: openable_def d1)
  then show thesis
    using that [of ?f] f3 il sync by simp
qed

text \<open>The free list does not depend on how the image was opened.\<close>

lemma flist_moved:
  assumes "fs_desc fs' = fs_desc fs" "fs_isize fs' = fs_isize fs" "fs_fsize fs' = fs_fsize fs"
    and "\<And>b. b \<in> set bs \<Longrightarrow> blk_data fs' b = blk_data fs b" "flist fs n c bs"
  shows "flist fs' n c bs"
proof -
  have same: "in_data fs' b = in_data fs b" "chain_nfree fs' buf = chain_nfree fs buf" "chain_free fs' buf = chain_free fs buf" for b buf
    using assms(1-3)
    by (simp_all add: in_data_def v7_data_first_def chain_nfree_def chain_free_def v7_get_daddr_def v7_chain_free_off_def)
  show ?thesis using assms(4,5) by (induction bs arbitrary: n c) (auto simp: same split: if_splits)
qed

lemma fl_reopen:
  assumes inv: "fl_inv fs bs" and p: "v7_plain (fs_desc fs)" and o: "openable fs" and c: "caches_wf fs"
  obtains fs' where "v7fs_open (zero_mount (fs_host (snd (v7fs_sync fs))) (fs_desc fs)) False (fs_desc fs) (fs_base fs) = Some (Inr (), fs')"
    "fl_inv fs' bs" "fs_fl fs' = fs_fl fs" "\<forall>b. 2 \<le> b \<longrightarrow> blk_data fs' b = blk_data fs b"
proof -
  have g: "fl_geom fs" using inv by (simp add: fl_inv_def)
  then have h: "host_ok fs" "super_in_image fs" "\<not> fs_readonly fs" "512 \<le> d_bsize (fs_desc fs)"
    "\<forall>b. in_data fs b \<longrightarrow> blk_in_image fs b" by (simp_all add: fl_geom_def Let_def)
  obtain fs' where s: "v7fs_open (zero_mount (fs_host (snd (v7fs_sync fs))) (fs_desc fs)) False (fs_desc fs) (fs_base fs) = Some (Inr (), fs')"
      "fs_desc fs' = fs_desc fs" "\<not> fs_readonly fs'" "fs_base fs' = fs_base fs" "fs_isize fs' = fs_isize fs"
      "fs_fsize fs' = fs_fsize fs" "fs_fl fs' = fs_fl fs" "fs_host fs' = fs_host (super_stored fs)" "fs_imgsize fs' = h_len (fs_host fs)"
    using v7_reopen [OF h(1-3) p o c, of False] by metis
  have off: "blk_off fs' b = blk_off fs b" "in_data fs' b = in_data fs b" "super_off fs' = super_off fs" "super_len fs' = super_len fs" for b
    by (simp_all add: blk_off_def in_data_def v7_data_first_def super_off_def super_len_def s)
  have geo: "v7_data_first fs' = v7_data_first fs" "v7_chain_free_off fs' = v7_chain_free_off fs"
    by (simp_all add: v7_data_first_def v7_chain_free_off_def s)
  have data: "blk_data fs' b = blk_data fs b" if "2 \<le> b" for b
  proof -
    have "blk_data fs' b = blk_data (super_stored fs) b" by (simp add: blk_data_def off s)
    then show ?thesis using that h(4) by simp
  qed
  have sz: "fs_imgsize fs \<le> h_len (fs_host fs)" "0 < fs_imgsize fs" using h(1) by (simp_all add: host_ok_def)
  have "host_ok fs'"
    using h(1,2) sz by (simp add: host_ok_def s super_stored_def host_write_def super_in_image_def)
  moreover have "blk_in_image fs' b" if "in_data fs' b" for b
    using that h(5) sz(1) by (auto simp: blk_in_image_def off s)
  moreover have "super_in_image fs'" using h(2) sz(1) by (simp add: super_in_image_def off s)
  ultimately have g': "fl_geom fs'"
    using g s(3) by (simp add: fl_geom_def Let_def s(2,6) geo)
  have fl: "flist fs (unat (nfree (fs_fl fs))) (free_cache (fs_fl fs)) bs" using inv by (simp add: fl_inv_def)
  have "flist fs' (unat (nfree (fs_fl fs))) (free_cache (fs_fl fs)) bs"
    using flist_in_data [OF fl] in_data_ge2 [OF g] data by (intro flist_moved [OF s(2,5,6) _ fl]) auto
  then have "fl_inv fs' bs" using inv g' by (simp add: fl_inv_def s)
  then show thesis using that s data by blast
qed

section \<open>A refused open writes\<close>

text \<open>
  When the advisory lock is refused the mount is closed like any other, so a read-write open of
  an image that is in use elsewhere writes its superblock before it reports the refusal.
\<close>

lemma open_guarded_refused:
  assumes "d_ops (fs_desc fs) \<in> {Some V6fs_ops, Some V7fs_ops, Some Bsd211fs_ops}" "d_freemap (fs_desc fs) = Freemap_list"
    and "host_ok fs" "super_in_image fs" "\<not> fs_readonly fs"
  shows "\<exists>fs'. open_guarded False (Inl e) hnd fs = (Inl e, fs') \<and>
    h_wlog (fs_host fs') = h_wlog (fs_host fs) @ [(super_off fs, super_encode fs (super_data fs))]"
proof -
  have "ops_close fs = (Inr (), (super_stored fs)\<lparr>v8_bits := []\<rparr>)"
    using assms by (auto simp: ops_close_def v7fs_close_def flush_fs_def super_write_ok)
  then show ?thesis by (simp add: open_guarded_def)
qed

section \<open>The descriptors an open uses are well formed\<close>

text \<open>
  What the engine relies on: a table of operations, an address array the inode record holds, an
  allocator that fits the form of the free map and, on the byte-addressed editions, a known
  block size, whole inode records, full indirect blocks and a chain block that holds the cache.
\<close>

definition desc_ok :: "filsys_desc \<Rightarrow> bool" where
  "desc_ok d \<longleftrightarrow> d_ops d \<noteq> None \<and> d_niaddr d \<le> 13 \<and> (d_freemap d \<noteq> Freemap_list \<longleftrightarrow> d_alloc d = V8_bitmap_alloc_ops) \<and>
     (d_word d = None \<longrightarrow>
        d_bsize d \<in> {512, 1024, 2048, 4096, 8192} \<and> 0 < d_inode_size d \<and> d_bsize d mod d_inode_size d = 0 \<and>
        d_nindir d * d_daddr_wid d = d_bsize d \<and>
        (if d_df_nfree_wid d = 4 then 4 else fb_free_off (d_pack4 d)) + d_daddr_wid d * d_nicfree d \<le> d_bsize d)"

lemma rows_ok: "d_ops (filsys_getformat e) \<noteq> None \<Longrightarrow> desc_ok (filsys_getformat e)"
  by (cases e) (simp_all add: desc_ok_def fb_free_off_def)

text \<open>The byte-order step changes three fields at most.\<close>

lemma byteorder_fields:
  assumes "filsys_resolve_byteorder d opened offset arch force = Inr d'"
  obtains bo p i where "p \<longrightarrow> d_pack4 d" "d' = d\<lparr>d_bo := bo, d_pack4 := p, d_ignore_magic := i\<rparr>"
proof -
  let ?d = "if filsys_arch_bo arch = Some ME then d\<lparr>d_pack4 := False\<rparr> else d"
  have "d' = ?d \<or> (\<exists>bo. d' = ?d\<lparr>d_bo := bo\<rparr>) \<or> (\<exists>bo. d' = ?d\<lparr>d_bo := bo, d_ignore_magic := True\<rparr>)"
    using assms unfolding filsys_resolve_byteorder_def Let_def
    by (auto split: if_split_asm option.split_asm sum.split_asm)
  then show ?thesis
  proof (elim disjE exE)
    assume "d' = ?d"
    then show ?thesis
      by (intro that [where p = "d_pack4 ?d" and bo = "d_bo d" and i = "d_ignore_magic d"]) auto
  next
    fix bo assume "d' = ?d\<lparr>d_bo := bo\<rparr>"
    then show ?thesis by (intro that [where p = "d_pack4 ?d" and bo = bo and i = "d_ignore_magic d"]) auto
  next
    fix bo assume "d' = ?d\<lparr>d_bo := bo, d_ignore_magic := True\<rparr>"
    then show ?thesis by (intro that [where p = "d_pack4 ?d" and bo = bo and i = True]) auto
  qed
qed

lemma desc_ok_order:
  "desc_ok d \<Longrightarrow> (p \<longrightarrow> d_pack4 d) \<Longrightarrow> desc_ok (d\<lparr>d_bo := bo, d_pack4 := p, d_ignore_magic := i\<rparr>)"
  by (auto simp: desc_ok_def fb_free_off_def split: if_splits)

lemma desc_ok_geom:
  assumes "e \<in> {FILSYS_V8, FILSYS_V9, FILSYS_V10}" "filsys_apply_geom (filsys_getformat e) e g = Inr d"
  shows "desc_ok d"
proof -
  define bs where "bs = (if g_blocksize g \<noteq> 0 then g_blocksize g else d_bsize (filsys_getformat e))"
  define fm where "fm = (case g_freemap g of Some f \<Rightarrow> f | None \<Rightarrow> if bs = 4096 then Freemap_bitmap else Freemap_list)"
  define obo where "obo = (case g_byteorder g of None \<Rightarrow> Some (d_bo (filsys_getformat e))
      | Some s \<Rightarrow> if s = ''le'' then Some LE else if s = ''be'' then Some BE else None)"
  obtain bo where d: "geom_check e bs fm" "d = (filsys_getformat e)\<lparr>d_bo := bo, d_bsize := bs, d_nindir := bs div 4, d_freemap := fm,
      d_alloc := (if fm = Freemap_list then Freelist_alloc_ops else V8_bitmap_alloc_ops)\<rparr>"
    using assms(2) unfolding filsys_apply_geom_def Let_def bs_def [symmetric] fm_def [symmetric] obo_def [symmetric]
    by (cases "geom_check e bs fm"; cases obo) auto
  have "e \<noteq> FILSYS_V9 \<and> bs \<in> {1024, 4096} \<or> e = FILSYS_V9 \<and> bs = 8192" using d(1) assms(1) by (auto simp: geom_check_def split: if_splits)
  with assms(1) show ?thesis unfolding d(2) by (elim disjE insertE conjE) (simp_all add: desc_ok_def fb_free_off_def)
qed

lemma open_desc_ok:
  assumes "open_desc edn opened offset packing arch force geom = Inr d"
  shows "desc_ok d"
proof -
  let ?f = "filsys_getformat edn"
  obtain d1 d2 where s: "d_ops ?f \<noteq> None" "filsys_resolve_byteorder d1 opened offset arch force = Inr d2"
      "d1 = ?f \<or> (\<exists>g. edn \<in> {FILSYS_V8, FILSYS_V9, FILSYS_V10} \<and> filsys_apply_geom ?f edn g = Inr d1)"
      "d = d2 \<or> (\<exists>wc. d_word d2 \<noteq> None \<and> d = d2\<lparr>d_word := Some wc\<rparr>)"
    using assms unfolding open_desc_def Let_def
    by (auto split: if_split_asm option.split_asm sum.split_asm)
  have 1: "desc_ok d1" using s(1,3) rows_ok desc_ok_geom by blast
  have 2: "desc_ok d2" using byteorder_fields [OF s(2)] desc_ok_order [OF 1] by metis
  then show ?thesis using s(4) by (auto simp: desc_ok_def)
qed

end
