(* ===== verification/Mkfs.thy ===== *)
theory Mkfs
  imports Mount Check
begin

text \<open>
  Making a new volume (\<^verbatim>\<open>filsys_mkfs.c\<close>): the sizing of the i-list, the seeded inodes and
  directories of each family, the shared driver, and the First Edition and PDP-7 layouts.
  A failure is the message it formats; the code returns \<open>-1\<close> for each.
\<close>

section \<open>Failures\<close>

datatype mkfs_err =
    Bad_arch | Bad_geom | Bsize_not_sysv | Bad_bsize | Out_of_memory | Pdp7_fixed | Bad_packing
  | Too_small | Bitmap_too_small | V1_too_big | V1_super_overflow | Write_error u32 | Read_error u32
  | Flush_failed | Out_of_space | Undefined_seed

type_synonym 'a mk = "(mkfs_err + 'a) \<times> filsys_edition"

definition mk_try :: "'a mk \<Rightarrow> ('a \<Rightarrow> filsys_edition \<Rightarrow> 'b mk) \<Rightarrow> 'b mk" where
  "mk_try m k = (case m of (Inl e, fs) \<Rightarrow> (Inl e, fs) | (Inr x, fs) \<Rightarrow> k x fs)"

fun mk_each :: "(filsys_edition \<Rightarrow> 'a \<Rightarrow> unit mk) \<Rightarrow> filsys_edition \<Rightarrow> 'a list \<Rightarrow> unit mk" where
  "mk_each f fs [] = (Inr (), fs)"
| "mk_each f fs (x # xs) = mk_try (f fs x) (\<lambda>_ fs. mk_each f fs xs)"

definition pblock :: "filsys_edition \<Rightarrow> u32 \<Rightarrow> byte list \<Rightarrow> unit mk" where
  "pblock fs bno buf =
     (case io_file_write fs (take (d_bsize (fs_desc fs)) buf) (blk_off fs bno) of
        (Inl _, fs) \<Rightarrow> (Inl (Write_error bno), fs)
      | (Inr _, fs) \<Rightarrow> (Inr (), fs))"

section \<open>The size of the i-list\<close>

definition isize_v7 :: "u32 \<Rightarrow> u32 \<Rightarrow> u32" where
  "isize_v7 blocks ipb =
     (let isz = blocks div 25; isz = (if isz = 0 then 1 else isz);
          isz = (if 65500 div ipb < isz then 65500 div ipb else isz)
      in isz + 2)"

definition isize_v6 :: "u32 \<Rightarrow> u32 \<Rightarrow> u32" where
  "isize_v6 blocks ipb =
     (let isz = blocks div (43 + blocks div 1000) in if isz = 0 then 1 else isz)"

definition isize_v8 :: "u32 \<Rightarrow> u32 \<Rightarrow> u32" where
  "isize_v8 blocks ipb =
     (let isz = (blocks - 2) div (1 + ipb); isz = (if isz < 3 then 3 else isz)
      in if 65536 div ipb < isz then 65536 div ipb else isz)"

section \<open>The seeded inodes and directories\<close>

text \<open>
  The seeds ignore the result of every write, and of the allocation too: without a free block
  they go on with an uninitialised block number.
\<close>

definition seed_balloc :: "filsys_edition \<Rightarrow> u32 mk" where
  "seed_balloc fs = (case alloc_balloc fs of (Inl _, fs) \<Rightarrow> (Inl Undefined_seed, fs) | (Inr b, fs) \<Rightarrow> (Inr b, fs))"

definition seed_root :: "filsys_edition \<Rightarrow> unit mk" where
  "seed_root fs =
     (let d = fs_desc fs; root = d_rootino d in
      mk_try (seed_balloc fs) (\<lambda>bno fs.
        let db = memcpy_at (bo_put16 (d_bo d) (replicate (d_bsize d) 0) 0 (ucast root)) 2 str_dot;
            db = memcpy_at (bo_put16 (d_bo d) db (d_dirent_size d) (ucast root)) (d_dirent_size d + 2) str_dotdot;
            fs = snd (ops_write_block fs bno db);
            ip = (zero_inode root)\<lparr>ip_mode := d_ifdir d OR 0x1FF, ip_nlink := 2, ip_size := of_nat (2 * d_dirent_size d),
                                   ip_addr := (ip_addr (zero_inode root))[0 := bno]\<rparr>
        in (Inr (), snd (ops_write_inode fs root ip))))"

definition seed_v7 :: "filsys_edition \<Rightarrow> u32 mk" where
  "seed_v7 fs =
     (let fs = snd (ops_write_inode fs 1 ((zero_inode 1)\<lparr>ip_mode := d_ifreg (fs_desc fs)\<rparr>))
      in mk_try (seed_root fs) (\<lambda>_ fs. (Inr 2, fs)))"

definition seed_v8 :: "filsys_edition \<Rightarrow> u32 mk" where
  "seed_v8 fs = mk_try (seed_root fs) (\<lambda>_ fs. (Inr 1, fs))"

definition seed_v6 :: "filsys_edition \<Rightarrow> u32 mk" where
  "seed_v6 fs =
     mk_try (seed_balloc fs) (\<lambda>bno fs.
       let db = memcpy_at (bo_put16le (replicate 512 0) 0 1) 2 str_dot;
           db = memcpy_at (bo_put16le db 16 1) 18 str_dotdot;
           fs = snd (ops_write_block fs bno db);
           ip = (zero_inode 1)\<lparr>ip_mode := 0x8000 OR 0x4000 OR 0x1FF, ip_nlink := 2, ip_size := 32,
                               ip_addr := (ip_addr (zero_inode 1))[0 := bno]\<rparr>
       in (Inr 1, snd (ops_write_inode fs 1 ip)))"

text \<open>A 2.11BSD record header and name written at \<open>off\<close>.\<close>

definition put_rec :: "byte list \<Rightarrow> nat \<Rightarrow> u16 \<Rightarrow> nat \<Rightarrow> byte list \<Rightarrow> byte list" where
  "put_rec p off ino reclen name =
     memcpy_at (bo_put16le (bo_put16le (bo_put16le p off ino) (off + 2) (of_nat reclen)) (off + 4) (of_nat (length name)))
       (off + 6) name"

definition lf_block :: "byte list" where
  "lf_block =
     bo_put16le (put_rec (put_rec (replicate 1024 0) 0 3 (bsd211_dirsiz 1) str_dot) 8 2 (512 - 8) str_dotdot) (512 + 2) 512"

definition root_block :: "byte list" where
  "root_block =
     (let o1 = bsd211_dirsiz 1; o2 = o1 + bsd211_dirsiz 2 in
      put_rec (put_rec (put_rec (replicate 1024 0) 0 2 (bsd211_dirsiz 1) str_dot) o1 2 (bsd211_dirsiz 2) str_dotdot)
        o2 3 (512 - o2) str_lost_found)"

definition seed_bsd211 :: "filsys_edition \<Rightarrow> u32 mk" where
  "seed_bsd211 fs =
     (let fs = snd (ops_write_inode fs 1 ((zero_inode 1)\<lparr>ip_mode := 0x8000\<rparr>)) in
      mk_try (seed_balloc fs) (\<lambda>lfb fs.
        let fs = snd (ops_write_block fs lfb lf_block);
            fs = snd (ops_write_inode fs 3 ((zero_inode 3)\<lparr>ip_mode := 0x4000 OR 0x1FF, ip_nlink := 2, ip_size := 512 * 2,
                        ip_addr := (ip_addr (zero_inode 3))[0 := lfb]\<rparr>))
        in mk_try (seed_balloc fs) (\<lambda>rb fs.
          let fs = snd (ops_write_block fs rb root_block)
          in (Inr 3, snd (ops_write_inode fs 2 ((zero_inode 2)\<lparr>ip_mode := 0x4000 OR 0x1FF, ip_nlink := 3, ip_size := 512,
                        ip_addr := (ip_addr (zero_inode 2))[0 := rb]\<rparr>))))))"

section \<open>The shared driver\<close>

datatype mkfs_fmt = V7_hook | V6_hook | V8_hook | Bsd211_hook

definition hook_isize :: "mkfs_fmt \<Rightarrow> u32 \<Rightarrow> u32 \<Rightarrow> u32" where
  "hook_isize hook = (case hook of V6_hook \<Rightarrow> isize_v6 | V8_hook \<Rightarrow> isize_v8 | _ \<Rightarrow> isize_v7)"

definition hook_seed :: "mkfs_fmt \<Rightarrow> filsys_edition \<Rightarrow> u32 mk" where
  "hook_seed hook =
     (case hook of V7_hook \<Rightarrow> seed_v7 | V6_hook \<Rightarrow> seed_v6 | V8_hook \<Rightarrow> seed_v8 | Bsd211_hook \<Rightarrow> seed_bsd211)"

definition mkfs_geometry :: "filsys_edition \<Rightarrow> mkfs_fmt \<Rightarrow> u32 \<Rightarrow> filsys_edition" where
  "mkfs_geometry fs hook blocks =
     (let d = fs_desc fs; ipb = of_nat (d_bsize d) div of_nat (d_inode_size d);
          fs = fs\<lparr>fs_readonly := False, fs_isize := ucast (hook_isize hook blocks ipb AND 0xFFFF), fs_fsize := blocks\<rparr>;
          bits_per_blk = of_nat (d_bsize d) * 8; nb = (fs_fsize fs + bits_per_blk - 1) div bits_per_blk
      in if d_freemap d = Freemap_bigmap then fs\<lparr>v8_nblks := nb, v8_blk_start := fs_fsize fs - nb\<rparr> else fs)"

text \<open>Xenix and System V: the magic word and the type word, written once.\<close>

definition mkfs_magic :: "filsys_edition \<Rightarrow> filsys_edition" where
  "mkfs_magic fs =
     (let d = fs_desc fs; sb = bo_put32 (d_bo d) (replicate 8192 0) (d_magic_off d) (d_magic d) in
      if d_magic d = 0 then fs
      else if d_dyn_bsize d
      then let st = (if d_bsize d = 512 then 1 else if d_bsize d = 1024 then 2 else 3)
           in snd (io_file_write fs (take 512 (bo_put32 (d_bo d) sb 508 st)) (512 + fs_base fs))
      else snd (ops_write_block fs 1 sb))"

definition mkfs_zero_ilist :: "filsys_edition \<Rightarrow> filsys_edition" where
  "mkfs_zero_ilist fs =
     foldl (\<lambda>fs b. snd (ops_write_block fs (of_nat b) (replicate 8192 0))) fs [2..<unat (v7_data_first fs)]"

definition mkfs_common :: "filsys_edition \<Rightarrow> mkfs_fmt \<Rightarrow> u32 \<Rightarrow> byte list option \<Rightarrow> unit mk" where
  "mkfs_common fs hook blocks boot =
     (let fs = mkfs_geometry fs hook blocks; d = fs_desc fs in
      if fs_fsize fs \<le> v7_data_first fs then (Inl Too_small, fs)
      else if d_freemap d = Freemap_bitmap \<and> 30752 < fs_fsize fs - ucast (fs_isize fs) then (Inl Bitmap_too_small, fs)
      else mk_try (case boot of None \<Rightarrow> (Inr (), fs) | Some b \<Rightarrow> pblock fs 0 b) (\<lambda>_ fs.
        let fs = mkfs_zero_ilist (mkfs_magic fs); nblk = ops_data_end fs - v7_data_first fs in
        if \<not> h_alloc (fs_host fs) (unat ((nblk + 7) div 8)) then (Inl Out_of_memory, fs)
        else let fs = snd (ops_makefree fs (zero_chkctx nblk)) in
          mk_try (hook_seed hook fs) (\<lambda>used fs.
            let fs = fs\<lparr>fs_fl := (fs_fl fs)\<lparr>tinode := v7_maxinode fs - used\<rparr>\<rparr> in
            case ops_sync fs of
              (Inl _, fs) \<Rightarrow> (Inl Flush_failed, fs)
            | (Inr _, fs) \<Rightarrow> (Inr (), fs))))"

section \<open>The First Edition\<close>

text \<open>The free map lies two bytes into the superblock image; a set bit is a free block.\<close>

definition v1_sb_set :: "byte list \<Rightarrow> nat \<Rightarrow> byte list" where
  "v1_sb_set sb b = take 2 sb @ bm_set (drop 2 sb) b"

definition v1_balloc :: "byte list \<Rightarrow> u32 \<Rightarrow> u32 \<Rightarrow> (nat \<times> byte list) option" where
  "v1_balloc sb dstart fsize =
     (case find (bm_test (drop 2 sb)) [unat dstart..<unat fsize] of
        None \<Rightarrow> None
      | Some b \<Rightarrow> Some (b, take 2 sb @ bm_clear (drop 2 sb) b))"

definition v1_iput :: "filsys_edition \<Rightarrow> u32 \<Rightarrow> u16 \<Rightarrow> byte \<Rightarrow> u16 \<Rightarrow> u16 list \<Rightarrow> unit mk" where
  "v1_iput fs ino mode nlink sz addr =
     (let bno = v1_itod ino; o' = unat (v1_itoo ino) * 32; now = h_now (fs_host fs) * 60 in
      case io_file_read fs 512 (unat bno * 512 + fs_base fs) of
        Inl _ \<Rightarrow> (Inl (Read_error bno), fs)
      | Inr ib \<Rightarrow>
          let ib = memcpy_at ib o' (replicate 32 0);
              ib = (bo_put16me ib o' mode)[o' + 2 := nlink];
              ib = bo_put16me ib (o' + 4) sz;
              ib = put_array bo_put16me 2 ib (o' + 6) addr;
              ib = bo_put32me (bo_put32me ib (o' + 22) now) (o' + 26) now
          in pblock fs bno ib)"

text \<open>The largest volume whose two maps fit the two-block superblock.\<close>

definition v1_map_bytes :: "nat \<Rightarrow> nat" where
  "v1_map_bytes n =
     (let fb = (n + 7) div 8; fb = (if odd fb then fb + 1 else fb);
          maxino = n div 4; maxino = (if maxino < 48 then 48 else maxino); maxino = (maxino + 15) div 16 * 16
      in 2 + fb + 2 + maxino div 8)"

lemma v1_map_bytes_grow: "1024 < v1_map_bytes n" if "8192 \<le> n"
proof -
  have "1024 \<le> (n + 7) div 8" using that by simp
  then show ?thesis by (simp add: v1_map_bytes_def Let_def)
qed

function v1_max_from :: "nat \<Rightarrow> nat" where
  "v1_max_from n = (if 512 * 2 < v1_map_bytes n then n - 1 else v1_max_from (n + 1))"
  by auto
termination
proof (relation "measure (\<lambda>n. 8192 - n)", goal_cases)
  case (2 n)
  then have "n < 8192" using v1_map_bytes_grow [of n] by (cases "8192 \<le> n") auto
  then show ?case by simp
qed simp

declare v1_max_from.simps [simp del]

definition v1_max_fsize :: nat where
  "v1_max_fsize = v1_max_from 0"

definition v1_round :: "u32 \<Rightarrow> u32" where
  "v1_round x = (x + 15) AND NOT 15"

definition v1_new_maxino :: "u32 \<Rightarrow> u32" where
  "v1_new_maxino fsize = v1_round (let m = fsize div 4 in if m < 48 then 48 else m)"

definition v1_new_super :: "u32 \<Rightarrow> u32 \<Rightarrow> byte list" where
  "v1_new_super fsize maxino =
     (let fb = unat (fsize div 8);
          sb = bo_put16me (replicate 1024 0) 0 (of_nat fb);
          sb = bo_put16me sb (2 + fb) (ucast (maxino div 8));
          sb = foldl v1_sb_set sb [unat (v1_data_start maxino)..<unat fsize]
      in sb[2 + fb + 2 := sb ! (2 + fb + 2) OR 1])"

definition v1_put_super :: "filsys_edition \<Rightarrow> byte list \<Rightarrow> unit mk" where
  "v1_put_super fs sb = mk_try (pblock fs 0 sb) (\<lambda>_ fs. pblock fs 1 (drop 512 sb))"

definition mkfs_v1 :: "filsys_edition \<Rightarrow> u32 \<Rightarrow> unit mk" where
  "mkfs_v1 fs blocks =
     (let fsize = v1_round blocks; maxino = v1_new_maxino fsize; dstart = v1_data_start maxino;
          imap_off = 2 + unat (fsize div 8) + 2 in
      if v1_max_fsize < unat fsize then (Inl V1_too_big, fs)
      else if fsize \<le> dstart then (Inl Too_small, fs)
      else if 1024 < imap_off + unat (maxino div 8) then (Inl V1_super_overflow, fs)
      else let sb = v1_new_super fsize maxino in
        mk_try (v1_put_super fs sb) (\<lambda>_ fs.
        mk_try (mk_each (\<lambda>fs b. pblock fs (of_nat b) (replicate 512 0)) fs [2..<unat dstart]) (\<lambda>_ fs.
          case v1_balloc sb dstart fsize of
            None \<Rightarrow> (Inl Out_of_space, fs)
          | Some (rb, sb) \<Rightarrow>
              let db = memcpy_at (bo_put16me (replicate 512 0) 0 41) 2 str_dot;
                  db = memcpy_at (bo_put16me db 10 41) 12 str_dotdot
              in mk_try (pblock fs (of_nat rb) db) (\<lambda>_ fs.
                 mk_try (v1_iput fs 41 0xC01E 2 20 (of_nat rb # replicate 7 0)) (\<lambda>_ fs.
                 mk_try (v1_put_super fs sb) (\<lambda>_ fs. (Inr (), fs\<lparr>fs_fsize := fsize\<rparr>)))))))"

section \<open>The PDP-7\<close>

definition p7_pblock :: "word_codec \<Rightarrow> filsys_edition \<Rightarrow> u32 \<Rightarrow> u32 list \<Rightarrow> unit mk" where
  "p7_pblock wc fs bno ws =
     (case io_file_write fs (words_encode wc ws) (unat bno * block_bytes wc + fs_base fs) of
        (Inl _, fs) \<Rightarrow> (Inl (Write_error bno), fs)
      | (Inr _, fs) \<Rightarrow> (Inr (), fs))"

text \<open>The pool of free blocks, the one to take next first.\<close>

definition p7_pool :: "u32 list" where
  "p7_pool = map of_nat (rev [712..<6400])"

definition p7_node :: "u32 \<Rightarrow> u32 list \<Rightarrow> u32 list" where
  "p7_node h fs9 = h # fs9 @ replicate (63 - length fs9) 0"

function p7_build_freelist :: "word_codec \<Rightarrow> filsys_edition \<Rightarrow> u32 list \<Rightarrow> u32 \<Rightarrow> u32 mk" where
  "p7_build_freelist wc fs [] h = (Inr h, fs)"
| "p7_build_freelist wc fs (fb # pool) h =
     mk_try (p7_pblock wc fs fb (p7_node h (take 9 pool))) (\<lambda>_ fs. p7_build_freelist wc fs (drop 9 pool) fb)"
  by pat_completeness auto
termination by (relation "measure (\<lambda>(wc, fs, pool, h). length pool)") auto

definition p7_root_inode :: "u32 \<Rightarrow> u32 list" where
  "p7_root_inode rb =
     (let o' = unat (p7_itoo P7_ROOTINO) in
      (replicate 64 0)[o' := 0x2001E, o' + 1 := rb, o' + 9 := 0x3FFFF, o' + 11 := 1])"

definition mkfs_pdp7 :: "filsys_edition \<Rightarrow> word_codec \<Rightarrow> unit mk" where
  "mkfs_pdp7 fs wc =
     (case p7_pool of
        [] \<Rightarrow> (Inl Out_of_space, fs)
      | rb # pool \<Rightarrow>
          mk_try (p7_pblock wc fs rb (replicate 64 0)) (\<lambda>_ fs.
          mk_try (p7_build_freelist wc fs pool 0) (\<lambda>hd fs.
          mk_try (p7_pblock wc fs 0 (hd # replicate 63 0)) (\<lambda>_ fs.
          mk_try (mk_each (\<lambda>fs b. p7_pblock wc fs (of_nat b) (replicate 64 0)) fs [2..<712]) (\<lambda>_ fs.
          mk_try (p7_pblock wc fs (p7_itod P7_ROOTINO) (p7_root_inode rb)) (\<lambda>_ fs.
            (Inr (), fs\<lparr>fs_fsize := 8000\<rparr>)))))))"

section \<open>The entry point\<close>

record mkfs_opts =
  mo_blocks :: u32
  mo_bsize :: nat
  mo_packing :: "string option"
  mo_arch :: "string option"
  mo_geom :: "filsys_geom option"
  mo_m :: u16
  mo_n :: u16
  mo_boot :: "byte list option"

text \<open>What the caller sees: the failure, whether its message is handed out, and the bytes written.\<close>

record mkfs_result =
  mr_err :: "mkfs_err option"
  mr_msg :: bool
  mr_written :: nat

definition mkfs_refused :: "mkfs_err \<Rightarrow> mkfs_result" where
  "mkfs_refused e = \<lparr>mr_err = Some e, mr_msg = False, mr_written = 0\<rparr>"

definition mkfs_done :: "mkfs_err + unit \<Rightarrow> nat \<Rightarrow> mkfs_result" where
  "mkfs_done r n = (case r of
      Inl e \<Rightarrow> \<lparr>mr_err = Some e, mr_msg = True, mr_written = n\<rparr>
    | Inr _ \<Rightarrow> \<lparr>mr_err = None, mr_msg = False, mr_written = n\<rparr>)"

text \<open>The descriptor, with the byte order, the geometry and the block size of the options.\<close>

definition mkfs_desc :: "edition \<Rightarrow> mkfs_opts \<Rightarrow> mkfs_err + filsys_desc" where
  "mkfs_desc edn opts =
     (let d = filsys_getformat edn in
      case (case mo_arch opts of
              None \<Rightarrow> Inr d
            | Some a \<Rightarrow> (case filsys_arch_bo (Some a) of
                           None \<Rightarrow> Inl Bad_arch
                         | Some bo \<Rightarrow> Inr (d\<lparr>d_bo := bo, d_pack4 := (if bo = ME then False else d_pack4 d)\<rparr>))) of
        Inl e \<Rightarrow> Inl e
      | Inr d \<Rightarrow>
          (case (case mo_geom opts of
                   None \<Rightarrow> Inr d
                 | Some g \<Rightarrow> (case filsys_apply_geom d edn g of Inl _ \<Rightarrow> Inl Bad_geom | Inr d \<Rightarrow> Inr d)) of
             Inl e \<Rightarrow> Inl e
           | Inr d \<Rightarrow>
               let bs = mo_bsize opts in
               if bs = 0 then Inr d
               else if \<not> d_dyn_bsize d then Inl Bsize_not_sysv
               else if bs \<noteq> 512 \<and> bs \<noteq> 1024 \<and> bs \<noteq> 2048 then Inl Bad_bsize
               else Inr (d\<lparr>d_bsize := bs, d_nindir := bs div d_daddr_wid d\<rparr>)))"

definition mkfs_hook :: "edition \<Rightarrow> mkfs_fmt" where
  "mkfs_hook edn =
     (if edn = FILSYS_V6 then V6_hook else if edn = FILSYS_BSD211 then Bsd211_hook
      else if edn = FILSYS_V8 \<or> edn = FILSYS_V9 \<or> edn = FILSYS_V10 then V8_hook else V7_hook)"

definition filsys_mkfs :: "edition \<Rightarrow> host \<Rightarrow> nat \<Rightarrow> mkfs_opts \<Rightarrow> mkfs_result \<times> filsys_edition" where
  "filsys_mkfs edn h base opts =
     (case mkfs_desc edn opts of
        Inl e \<Rightarrow> (mkfs_refused e, zero_mount h (filsys_getformat edn))
      | Inr d \<Rightarrow>
          let fs = (zero_mount h d)\<lparr>fs_base := base, fs_m := mo_m opts, fs_n := mo_n opts\<rparr> in
          case filsys_fl_alloc fs d of
            (Inl _, fs) \<Rightarrow> (mkfs_refused Out_of_memory, fs)
          | (Inr _, fs) \<Rightarrow>
              if edn = FILSYS_PDP7
              then if mo_blocks opts \<noteq> 0 then (mkfs_refused Pdp7_fixed, fs)
                   else case (case mo_packing opts of None \<Rightarrow> d_word d | Some p \<Rightarrow> filsys_word_codec_by_name p) of
                     None \<Rightarrow> (mkfs_refused Bad_packing, fs)
                   | Some wc \<Rightarrow>
                       (case mkfs_pdp7 (fs\<lparr>fs_desc := d\<lparr>d_word := Some wc\<rparr>\<rparr>) wc of
                          (r, fs) \<Rightarrow> (mkfs_done r (8000 * block_bytes wc), fs))
              else if edn = FILSYS_V1
              then (case mkfs_v1 fs (mo_blocks opts) of (r, fs) \<Rightarrow> (mkfs_done r (unat (fs_fsize fs) * 512), fs))
              else (case mkfs_common fs (mkfs_hook edn) (mo_blocks opts) (mo_boot opts) of
                      (r, fs) \<Rightarrow> (mkfs_done r (unat (fs_fsize fs) * d_bsize (fs_desc fs)), fs)))"

end
