(* ===== verification/Mkfs_Sound.thy ===== *)
theory Mkfs_Sound
  imports Mkfs
begin

text \<open>
  What a new volume holds: the sizes the i-list formulas give, the First Edition superblock,
  and the free list and root directory of a new PDP-7 volume as an open finds them.
\<close>

section \<open>A host without failures\<close>

definition quiet :: "filsys_edition \<Rightarrow> bool" where
  "quiet fs \<longleftrightarrow> (\<forall>off n. \<not> h_rd_err (fs_host fs) off n) \<and> (\<forall>k. h_wr_short (fs_host fs) k = None)"

lemma quiet_wstore [simp]: "quiet (wstore fs b ws) = quiet fs"
  by (simp add: quiet_def wstore_def host_write_def)

definition host_only :: "filsys_edition \<Rightarrow> filsys_edition \<Rightarrow> bool" where
  "host_only fs fs' \<longleftrightarrow> (\<exists>h. fs' = fs\<lparr>fs_host := h\<rparr>)"

lemma host_only_refl [simp]: "host_only fs fs"
  unfolding host_only_def by (rule exI [of _ "fs_host fs"]) simp

lemma host_only_trans: "host_only a b \<Longrightarrow> host_only b c \<Longrightarrow> host_only a c"
  by (auto simp: host_only_def)

lemma host_only_wstore [simp]: "host_only fs (wstore fs b ws)"
  by (auto simp: host_only_def wstore_def)

lemma host_only_fields: "host_only fs fs' \<Longrightarrow> fs_desc fs' = fs_desc fs \<and> fs_base fs' = fs_base fs"
  by (auto simp: host_only_def)

lemma mk_try_Inr [simp]: "mk_try (Inr x, fs) k = k x fs"
  by (simp add: mk_try_def)

section \<open>The PDP-7 free list\<close>

lemma p7_pblock_ok:
  assumes "quiet fs" "d_word (fs_desc fs) = Some wc"
  shows "p7_pblock wc fs b ws = (Inr (), wstore fs b ws)"
  using assms by (simp add: p7_pblock_def io_file_write_def quiet_def wstore_def word_off_def Let_def add.commute)

lemma small_18: "b < 0x40000 \<Longrightarrow> take_bit 18 (b::u32) = b"
  by (simp add: take_bit_eq_mod mod_word_less)

lemma p7_node_words:
  assumes "h < 0x40000" "\<forall>b \<in> set bs. b \<noteq> 0 \<and> b < 0x40000" "length bs \<le> 9"
  shows "map (take_bit 18) (p7_node h bs) = p7_node h bs" "length (p7_node h bs) = 64"
    "entries (p7_node h bs) = bs" "p7_node h bs ! 0 = h"
proof -
  show "map (take_bit 18) (p7_node h bs) = p7_node h bs"
    using assms small_18 by (simp add: p7_node_def map_idI)
  show "length (p7_node h bs) = 64" "p7_node h bs ! 0 = h" using assms(3) by (simp_all add: p7_node_def)
  have "map ((!) (p7_node h bs)) [1..<10] = bs @ replicate (9 - length bs) 0"
    using assms(3) by (intro nth_equalityI) (auto simp: p7_node_def nth_append nth_Cons' nth_replicate)
  moreover have "filter (\<lambda>w. w \<noteq> 0) bs = bs" using assms(2) by (simp add: filter_id_conv)
  ultimately show "entries (p7_node h bs) = bs" by (simp add: entries_def)
qed

lemma p7_build_chain:
  assumes "quiet fs" "d_word (fs_desc fs) = Some wc" "distinct (pool @ p7_blocks fs ns)"
    and "\<forall>b \<in> set pool. b \<noteq> 0 \<and> b < 0x40000" "p7_nodes fs h ns" "h < 0x40000"
  shows "\<exists>h' fs' ns'. p7_build_freelist wc fs pool h = (Inr h', fs') \<and> p7_nodes fs' h' ns' \<and> h' < 0x40000 \<and>
    distinct (p7_blocks fs' ns') \<and> set (p7_blocks fs' ns') = set pool \<union> set (p7_blocks fs ns) \<and>
    (\<forall>b. b \<notin> set pool \<longrightarrow> wdata fs' b = wdata fs b) \<and> host_only fs fs' \<and> quiet fs' \<and>
    h_len (fs_host fs) \<le> h_len (fs_host fs')"
  using assms
proof (induction wc fs pool h arbitrary: ns rule: p7_build_freelist.induct)
  case (1 wc fs h)
  then show ?case by auto
next
  case (2 wc fs fb pool h)
  let ?node = "p7_node h (take 9 pool)"
  let ?fs = "wstore fs fb ?node"
  have pool: "\<forall>b \<in> set (take 9 pool). b \<noteq> 0 \<and> b < 0x40000" using "2.prems"(4) by (auto dest: in_set_takeD)
  have fb: "fb \<noteq> 0" "fb < 0x40000" using "2.prems"(4) by auto
  note node = p7_node_words [OF "2.prems"(6) pool, simplified]
  have w: "wdata ?fs fb = ?node" using node(1,2) by simp
  have nsd: "b \<noteq> fb" if "b \<in> set ns" for b
    using "2.prems"(3) p7_nodes_in_blocks [of ns fs] that by auto
  have old: "p7_nodes ?fs h ns" "p7_blocks ?fs ns = p7_blocks fs ns"
    using "2.prems"(5) nsd p7_nodes_cong [of ns ?fs fs h] p7_blocks_cong [of ns ?fs fs] by simp_all
  have "h AND P7_MAXWORD = h"
    unfolding maxword_mask using small_18 [OF "2.prems"(6)] by (simp add: take_bit_eq_mask [symmetric])
  then have nodes: "p7_nodes ?fs fb (fb # ns)" using fb(1) w node(4) old(1) by simp
  have blocks: "p7_blocks ?fs (fb # ns) = fb # take 9 pool @ p7_blocks fs ns"
    using w node(3) old(2) by (simp add: p7_blocks_Cons)
  have "set (take 9 pool) \<inter> set (drop 9 pool) = {}" "set (take 9 pool) \<union> set (drop 9 pool) = set pool"
    using "2.prems"(3) by (simp_all add: set_take_disj_set_drop_if_distinct flip: set_append)
  then have dist: "distinct (drop 9 pool @ p7_blocks ?fs (fb # ns))" using "2.prems"(3) unfolding blocks by auto
  have q: "quiet ?fs" "d_word (fs_desc ?fs) = Some wc" using "2.prems"(1,2) by simp_all
  have p: "p7_pblock wc fs fb ?node = (Inr (), ?fs)" by (rule p7_pblock_ok [OF "2.prems"(1,2)])
  have small: "\<forall>b \<in> set (drop 9 pool). b \<noteq> 0 \<and> b < 0x40000" using "2.prems"(4) by (auto dest: in_set_dropD)
  from "2.IH" [OF q dist small nodes fb(2)] obtain h' fs' ns' where r:
    "p7_build_freelist wc ?fs (drop 9 pool) fb = (Inr h', fs')" "p7_nodes fs' h' ns'" "h' < 0x40000"
    "distinct (p7_blocks fs' ns')" "set (p7_blocks fs' ns') = set (drop 9 pool) \<union> set (p7_blocks ?fs (fb # ns))"
    "\<forall>b. b \<notin> set (drop 9 pool) \<longrightarrow> wdata fs' b = wdata ?fs b" "host_only ?fs fs'" "quiet fs'"
    "h_len (fs_host ?fs) \<le> h_len (fs_host fs')" by blast
  have "p7_build_freelist wc fs (fb # pool) h = (Inr h', fs')" using p r(1) by simp
  moreover have "set (p7_blocks fs' ns') = set (fb # pool) \<union> set (p7_blocks fs ns)"
    using r(5) \<open>set (take 9 pool) \<union> set (drop 9 pool) = set pool\<close> unfolding blocks by auto
  moreover have "wdata fs' b = wdata fs b" if "b \<notin> set (fb # pool)" for b
    using r(6) that by (auto dest: in_set_dropD)
  moreover have "host_only fs fs'" using host_only_trans [OF host_only_wstore r(7)] .
  moreover have "h_len (fs_host fs) \<le> h_len (fs_host fs')" using r(9) by (simp add: wstore_def host_write_def)
  ultimately show ?case using r(2,3,4,8) by blast
qed

text \<open>Writing the same words to a list of blocks.\<close>

lemma p7_each_stored:
  assumes "quiet fs" "d_word (fs_desc fs) = Some wc"
  shows "\<exists>fs'. mk_each (\<lambda>fs b. p7_pblock wc fs (g b) ws) fs bs = (Inr (), fs') \<and> host_only fs fs' \<and> quiet fs' \<and>
    (\<forall>b. b \<notin> g ` set bs \<longrightarrow> wdata fs' b = wdata fs b) \<and> h_len (fs_host fs) \<le> h_len (fs_host fs')"
  using assms
proof (induction bs arbitrary: fs)
  case (Cons x bs)
  let ?fs = "wstore fs (g x) ws"
  have q: "quiet ?fs" "d_word (fs_desc ?fs) = Some wc" using Cons.prems by simp_all
  from Cons.IH [OF q] obtain fs' where r: "mk_each (\<lambda>fs b. p7_pblock wc fs (g b) ws) ?fs bs = (Inr (), fs')"
    "host_only ?fs fs'" "quiet fs'" "\<forall>b. b \<notin> g ` set bs \<longrightarrow> wdata fs' b = wdata ?fs b"
    "h_len (fs_host ?fs) \<le> h_len (fs_host fs')" by blast
  have "host_only fs fs'" using host_only_trans [OF host_only_wstore r(2)] .
  moreover have "h_len (fs_host fs) \<le> h_len (fs_host fs')" using r(5) by (simp add: wstore_def host_write_def)
  ultimately show ?case using r(1,3,4) p7_pblock_ok [OF Cons.prems] by auto
qed simp

lemma p7_pool_Cons: "p7_pool = 6399 # map of_nat (rev [712..<6399])"
proof -
  have "[712..<6400] = [712..<6399] @ [6399]" using upt_Suc_append [of 712 6399] by (simp del: upt_rec_numeral)
  then show ?thesis unfolding p7_pool_def by (simp del: upt_rec_numeral)
qed

lemma p7_pool_facts:
  defines "pool \<equiv> map of_nat (rev [712..<6399]) :: u32 list"
  shows "distinct pool" "set pool = {b. 712 \<le> b \<and> b < 6399}"
proof -
  have u: "unat (of_nat b :: u32) = b" if "b < 6399" for b using that by (simp add: unat_of_nat)
  have "inj_on (of_nat :: nat \<Rightarrow> u32) (set (rev [712..<6399]))"
    by (rule inj_onI) (use u in \<open>auto simp del: upt_rec_numeral dest: arg_cong [where f = unat]\<close>)
  then show "distinct pool" by (simp add: pool_def distinct_map del: upt_rec_numeral)
  have "b \<in> of_nat ` {712..<6399}" if "712 \<le> b" "b < 6399" for b :: u32
    using that by (intro image_eqI [of _ _ "unat b"]) (auto simp: word_le_nat_alt word_less_nat_alt)
  moreover have "712 \<le> (of_nat b :: u32) \<and> (of_nat b :: u32) < 6399" if "712 \<le> b" "b < 6399" for b
    using that u [of b] by (simp add: word_le_nat_alt word_less_nat_alt)
  ultimately show "set pool = {b. 712 \<le> b \<and> b < 6399}" by (auto simp: pool_def simp del: upt_rec_numeral)
qed

lemma h_len_wstore: "h_len (fs_host fs) \<le> h_len (fs_host (wstore fs b ws))"
  by (simp add: wstore_def host_write_def)

lemma mkfs_pdp7_ok:
  assumes q: "quiet fs" and d: "d_word (fs_desc fs) = Some wc"
  shows "\<exists>fs' h ns. mkfs_pdp7 fs wc = (Inr (), fs'\<lparr>fs_fsize := 8000\<rparr>) \<and> wdata fs' 0 ! 0 = h \<and> h < 0x40000 \<and> p7_nodes fs' h ns \<and>
    distinct (p7_blocks fs' ns) \<and> set (p7_blocks fs' ns) = {b. 712 \<le> b \<and> b < 6399} \<and>
    wdata fs' 2 = map (take_bit 18) (p7_root_inode 6399) \<and> wdata fs' 6399 = replicate 64 0 \<and>
    host_only fs fs' \<and> quiet fs' \<and> h_len (fs_host fs) \<le> h_len (fs_host fs')"
proof -
  define pool where "pool = (map of_nat (rev [712..<6399]) :: u32 list)"
  note pool = p7_pool_facts [folded pool_def]
  define il where "il = [2..<712::nat]"
  let ?z = "replicate 64 (0::u32)"
  let ?fs1 = "wstore fs 6399 ?z"
  have 1: "quiet ?fs1" "d_word (fs_desc ?fs1) = Some wc" using q d by simp_all
  have small: "\<forall>b \<in> set pool. b \<noteq> 0 \<and> b < 0x40000" using pool(2) by (auto simp: word_less_nat_alt word_le_nat_alt)
  from p7_build_chain [OF 1, of pool "[]" 0] small pool(1) obtain h fs2 ns where b:
    "p7_build_freelist wc ?fs1 pool 0 = (Inr h, fs2)" "p7_nodes fs2 h ns" "h < 0x40000" "distinct (p7_blocks fs2 ns)"
    "set (p7_blocks fs2 ns) = set pool" "\<forall>b. b \<notin> set pool \<longrightarrow> wdata fs2 b = wdata ?fs1 b"
    "host_only ?fs1 fs2" "quiet fs2" "h_len (fs_host ?fs1) \<le> h_len (fs_host fs2)"
    by (auto simp: p7_blocks_def)
  let ?fs3 = "wstore fs2 0 (h # replicate 63 0)"
  have 2: "d_word (fs_desc fs2) = Some wc" using host_only_fields [OF b(7)] d by simp
  have 3: "quiet ?fs3" "d_word (fs_desc ?fs3) = Some wc" using b(8) 2 by simp_all
  from p7_each_stored [OF 3, of of_nat ?z il] obtain fs4 where e:
    "mk_each (\<lambda>fs b. p7_pblock wc fs (of_nat b) ?z) ?fs3 il = (Inr (), fs4)" "host_only ?fs3 fs4" "quiet fs4"
    "\<forall>b. b \<notin> of_nat ` set il \<longrightarrow> wdata fs4 b = wdata ?fs3 b" "h_len (fs_host ?fs3) \<le> h_len (fs_host fs4)" by blast
  have 4: "d_word (fs_desc fs4) = Some wc" using host_only_fields [OF e(2)] 3 by simp
  let ?fs5 = "wstore fs4 2 (p7_root_inode 6399)"
  have "mkfs_pdp7 fs wc = (Inr (), ?fs5\<lparr>fs_fsize := 8000\<rparr>)"
    using p7_pblock_ok [OF q d] b(1) p7_pblock_ok [OF b(8) 2] e(1) p7_pblock_ok [OF e(3) 4]
    by (simp add: mkfs_pdp7_def p7_pool_Cons pool_def [symmetric] il_def [symmetric] p7_itod_def del: upt_rec_numeral)
  moreover have other: "wdata ?fs5 c = wdata fs2 c" if "712 \<le> c" for c
  proof -
    have "c \<noteq> 2" "c \<noteq> 0" "c \<notin> of_nat ` set il" using that by (auto simp: il_def word_le_nat_alt unat_of_nat simp del: upt_rec_numeral)
    then show ?thesis using e(4) by simp
  qed
  have "b \<in> set (p7_blocks fs2 ns)" if "b \<in> set ns" for b using that p7_nodes_in_blocks [of ns fs2] by blast
  then have ge: "712 \<le> b" if "b \<in> set ns" for b using that b(5) pool(2) by auto
  have "p7_nodes ?fs5 h ns" "p7_blocks ?fs5 ns = p7_blocks fs2 ns"
    using p7_nodes_cong [of ns ?fs5 fs2 h] p7_blocks_cong [of ns ?fs5 fs2] other ge b(2) by blast+
  moreover have "wdata ?fs5 0 ! 0 = h"
  proof -
    have "(0::u32) \<notin> of_nat ` set il" by (auto simp: il_def simp del: upt_rec_numeral dest: arg_cong [where f = unat] simp: unat_of_nat)
    then show ?thesis using e(4) small_18 [OF b(3)] by simp
  qed
  moreover have "wdata ?fs5 2 = map (take_bit 18) (p7_root_inode 6399)" by (simp add: p7_root_inode_def Let_def)
  moreover have "wdata ?fs5 6399 = ?z" using other [of 6399] b(6) pool(2) by simp
  moreover have "host_only fs ?fs5"
    using host_only_trans [OF host_only_trans [OF host_only_wstore b(7)] host_only_trans [OF host_only_trans [OF host_only_wstore e(2)] host_only_wstore]] .
  moreover have "h_len (fs_host fs) \<le> h_len (fs_host ?fs5)"
    using h_len_wstore [of fs 6399 ?z] b(9) h_len_wstore [of fs2 0 "h # replicate 63 0"] e(5)
      h_len_wstore [of fs4 2 "p7_root_inode 6399"] by linarith
  ultimately show ?thesis using b(3,4,5) pool(2) e(3)
    by (intro exI [of _ ?fs5] exI [of _ h] exI [of _ ns] conjI) simp_all
qed

text \<open>An open of the image finds the free list, and the root directory, that were written.\<close>

lemma wdata_same:
  "h_img (fs_host a) = h_img (fs_host b) \<Longrightarrow> fs_base a = fs_base b \<Longrightarrow> d_word (fs_desc a) = d_word (fs_desc b) \<Longrightarrow>
   wdata a c = wdata b c"
  by (simp add: wdata_def word_off_def)

lemma p7_root_words:
  "(map (take_bit 18) (p7_root_inode 6399)) ! 48 = 0x2001E" "(map (take_bit 18) (p7_root_inode 6399)) ! 49 = 6399"
  "(map (take_bit 18) (p7_root_inode 6399)) ! 56 = 0" "(map (take_bit 18) (p7_root_inode 6399)) ! 57 = 0x3FFFF"
  "(map (take_bit 18) (p7_root_inode 6399)) ! 58 = 0"
  by (simp_all add: p7_root_inode_def p7_itoo_def take_bit_eq_mod)

lemma p7_new_volume:
  assumes q: "quiet fs" and d: "d_word (fs_desc fs) = Some wc" and room: "fs_base fs + 8000 * block_bytes wc \<le> h_len (fs_host fs)"
  shows "\<exists>fs' fs2 ns ip. mkfs_pdp7 fs wc = (Inr (), fs') \<and>
    p7fs_open (zero_mount (fs_host fs') (fs_desc fs)) False (fs_desc fs) (fs_base fs) = (Inr (), fs2) \<and>
    p7_list fs2 ns \<and> p7_frees fs2 = {b. 712 \<le> b \<and> b < 6399} \<and>
    p7fs_read_inode fs2 P7_ROOTINO = Inr ip \<and> ip_mode ip = 0x2001E \<and> ip_nlink ip = 1 \<and> ip_size ip = 0 \<and> ip_addr ip ! 0 = 6399"
proof -
  from mkfs_pdp7_ok [OF q d] obtain fs1 h ns where m: "mkfs_pdp7 fs wc = (Inr (), fs1\<lparr>fs_fsize := 8000\<rparr>)" "wdata fs1 0 ! 0 = h"
    "h < 0x40000" "p7_nodes fs1 h ns" "distinct (p7_blocks fs1 ns)" "set (p7_blocks fs1 ns) = {b. 712 \<le> b \<and> b < 6399}"
    "wdata fs1 2 = map (take_bit 18) (p7_root_inode 6399)" "host_only fs fs1" "quiet fs1" "h_len (fs_host fs) \<le> h_len (fs_host fs1)"
    by blast
  let ?d = "fs_desc fs" and ?h = "fs_host fs1"
  let ?z = "(zero_mount ?h ?d)\<lparr>fs_desc := ?d, fs_readonly := False, fs_base := fs_base fs, fs_imgsize := h_len ?h\<rparr>"
  let ?f = "?z\<lparr>fs_freelist := h\<rparr>"
  define fs2 where "fs2 = ?f\<lparr>fs_fl := (fs_fl ?f)\<lparr>tfree := p7_count_free 8000 ?f h (tfree (fs_fl ?f))\<rparr>\<rparr>"
  have bb: "0 < block_bytes wc" by (cases wc) simp_all
  have z: "fs_host ?z = ?h" "fs_base ?z = fs_base fs" "fs_desc ?z = ?d" "fs_imgsize ?z = h_len ?h"
    "fs_host fs2 = ?h" "fs_base fs2 = fs_base fs" "fs_desc fs2 = ?d" "fs_imgsize fs2 = h_len ?h" "fs_freelist fs2 = h" "\<not> fs_readonly fs2"
    by (simp_all add: fs2_def zero_mount_def)
  have len: "fs_base fs + 8000 * block_bytes wc \<le> h_len ?h" using room m(10) by simp
  then have "0 < h_len ?h" using bb by simp
  then have ok: "host_ok ?z" "host_ok fs2" using m(9) z by (simp_all add: host_ok_def quiet_def)
  have inim: "p7_in_image s b" if "unat b < 8000" "fs_base s = fs_base fs" "fs_desc s = ?d" "fs_imgsize s = h_len ?h" for s b
  proof -
    have "Suc (unat b) * block_bytes wc \<le> 8000 * block_bytes wc" using that(1) by (intro mult_le_mono1) simp
    then have "fs_base fs + unat b * block_bytes wc + block_bytes wc \<le> h_len ?h" using len unfolding mult_Suc by linarith
    then show ?thesis by (simp only: p7_in_image_def word_off_def that d option.sel)
  qed
  have f1: "fs_desc fs1 = ?d" "fs_base fs1 = fs_base fs" using host_only_fields [OF m(8)] by simp_all
  have w: "wdata ?z c = wdata fs1 c" "wdata fs2 c = wdata fs1 c" for c by (rule wdata_same; simp only: z f1)+
  have hm: "h AND P7_MAXWORD = h" unfolding maxword_mask using small_18 [OF m(3)] by (simp add: take_bit_eq_mask [symmetric])
  have rd: "read_words ?z 0 = Inr (wdata fs1 0)" using read_words_ok [OF ok(1)] inim [of 0 ?z] z w by simp
  have "\<not> h_len ?h < fs_base fs + block_bytes wc" using len by simp
  then have "p7fs_open (zero_mount ?h ?d) False ?d (fs_base fs) = (Inr (), fs2)"
    using rd hm m(2) d by (simp add: p7fs_open_def Let_def fs2_def zero_mount_def)
  moreover have nodes: "p7_nodes fs2 h ns" "p7_blocks fs2 ns = p7_blocks fs1 ns"
    using p7_nodes_cong [of ns fs2 fs1 h] p7_blocks_cong [of ns fs2 fs1] w(2) m(4) by auto
  have "b \<in> p7_area fs2" if "712 \<le> b" "b < 6399" for b
    using that inim [of b fs2] z by (auto simp: p7_area_def word_less_nat_alt)
  then have l: "p7_list fs2 ns" using ok(2) z nodes m(5,6) by (auto simp: p7_list_def)
  moreover have "p7_frees fs2 = {b. 712 \<le> b \<and> b < 6399}" using p7_frees_eq [OF l] nodes(2) m(6) by simp
  moreover have "read_words fs2 2 = Inr (wdata fs1 2)" using read_words_ok [OF ok(2)] inim [of 2 fs2] z w by simp
  then have "p7fs_read_inode fs2 P7_ROOTINO = Inr (p7_inode_decode 4 (wdata fs1 2) 48)"
    using p7_root_words by (simp add: p7fs_read_inode_def p7_itod_def p7_itoo_def p7_exact_size_def p7_inode_decode_def m(7))
  moreover have "let ip = p7_inode_decode 4 (wdata fs1 2) 48 in
      ip_mode ip = 0x2001E \<and> ip_nlink ip = 1 \<and> ip_size ip = 0 \<and> ip_addr ip ! 0 = 6399"
    using p7_root_words by (simp add: m(7) p7_inode_decode_def sign18_def upt_rec)
  ultimately show ?thesis using m(1) by (auto simp: Let_def)
qed

section \<open>The i-list of a new volume\<close>

lemma isize_v7_bounds:
  assumes "1 \<le> ipb" "ipb \<le> 128"
  shows "3 \<le> unat (isize_v7 blocks ipb)" "unat (isize_v7 blocks ipb) * unat ipb \<le> 65500 + 2 * unat ipb"
    "unat (isize_v7 blocks ipb) \<le> 65502"
proof -
  let ?i = "unat ipb" and ?b = "unat blocks"
  define n where "n = min (65500 div ?i) (if ?b div 25 = 0 then 1 else ?b div 25)"
  have i: "1 \<le> ?i" "?i \<le> 128" using assms by (simp_all add: word_le_nat_alt)
  have "511 \<le> 65500 div ?i" using i div_le_mono2 [of ?i 128 65500] by simp
  then have n1: "1 \<le> n" by (simp add: n_def)
  have n2: "n \<le> 65500 div ?i" by (simp add: n_def)
  have n3: "n \<le> 65500" using n2 div_le_dividend [of 65500 ?i] by linarith
  have "unat (isize_v7 blocks ipb) = n + 2"
  proof -
    let ?z = "if blocks div 25 = 0 then 1 else blocks div 25"
    have z: "unat ?z = (if ?b div 25 = 0 then 1 else ?b div 25)" by (auto simp: unat_div word_unat_eq_iff)
    have q: "unat (65500 div ipb) = 65500 div ?i" by (simp add: unat_div)
    have "unat (if 65500 div ipb < ?z then 65500 div ipb else ?z) = n"
      using z q by (auto simp: n_def min_def word_less_nat_alt)
    then show ?thesis using n3 unfolding isize_v7_def Let_def
      by (subst unat_add_lem [THEN iffD1]) simp_all
  qed
  moreover have "n * ?i \<le> 65500" using mult_le_mono1 [OF n2, of ?i] div_times_less_eq_dividend [of 65500 ?i] by linarith
  ultimately show "3 \<le> unat (isize_v7 blocks ipb)" "unat (isize_v7 blocks ipb) * ?i \<le> 65500 + 2 * ?i"
    "unat (isize_v7 blocks ipb) \<le> 65502"
    using n1 n3 by (simp_all add: algebra_simps)
qed

lemma isize_v6_bounds: "1 \<le> unat (isize_v6 blocks ipb)" "unat (isize_v6 blocks ipb) < 1000"
proof -
  let ?b = "unat blocks"
  have b: "?b < 2 ^ 32" using unsigned_less [of blocks, where ?'a = nat] by simp
  then have d: "unat (43 + blocks div 1000) = 43 + ?b div 1000"
    by (subst unat_add_lem [THEN iffD1]) (simp_all add: unat_div)
  have "?b < 1000 * (43 + ?b div 1000)" by simp
  then have "?b div (43 + ?b div 1000) < 1000" by (simp add: less_mult_imp_div_less mult.commute)
  then show "1 \<le> unat (isize_v6 blocks ipb)" "unat (isize_v6 blocks ipb) < 1000"
    using d by (auto simp: isize_v6_def Let_def unat_div word_unat_eq_iff Suc_le_eq)
qed

lemma isize_v8_bounds:
  assumes "1 \<le> ipb" "ipb \<le> 128"
  shows "3 \<le> unat (isize_v8 blocks ipb)" "unat (isize_v8 blocks ipb) * unat ipb \<le> 65536"
proof -
  let ?i = "unat ipb"
  have i: "1 \<le> ?i" "?i \<le> 128" using assms by (simp_all add: word_le_nat_alt)
  have q: "unat (65536 div ipb) = 65536 div ?i" by (simp add: unat_div)
  have "512 \<le> 65536 div ?i" using i div_le_mono2 [of ?i 128 65536] by simp
  then have le: "unat (isize_v8 blocks ipb) \<le> 65536 div ?i" and ge: "3 \<le> unat (isize_v8 blocks ipb)"
    using q by (auto simp: isize_v8_def Let_def word_less_nat_alt)
  show "3 \<le> unat (isize_v8 blocks ipb)" by (rule ge)
  show "unat (isize_v8 blocks ipb) * ?i \<le> 65536"
    using mult_le_mono1 [OF le, of ?i] div_times_less_eq_dividend [of 65536 ?i] by linarith
qed

section \<open>The First Edition superblock\<close>

lemma v1_max_from_fits:
  "v1_map_bytes n \<le> 1024 \<Longrightarrow> n \<le> k \<Longrightarrow> k \<le> v1_max_from n \<Longrightarrow> v1_map_bytes k \<le> 1024"
proof (induction n rule: v1_max_from.induct)
  case (1 n)
  have m: "v1_max_from n = v1_max_from (n + 1)" using 1(2) by (simp add: v1_max_from.simps [of n])
  show ?case
  proof (cases "k = n \<or> 1024 < v1_map_bytes (n + 1)")
    case True
    then have "k = n" using 1(3,4) m by (auto simp: v1_max_from.simps [of "Suc n"])
    then show ?thesis using 1(2) by simp
  next
    case False
    then show ?thesis using 1 m by simp
  qed
qed

lemma and_not_mask: "(y::u32) AND NOT (mask n) = push_bit n (drop_bit n y)"
  by (rule bit_word_eqI) (auto simp: bit_simps)

lemma v1_round_shift: "v1_round x = drop_bit 4 (x + 15) * 16"
proof -
  have "v1_round x = (x + 15) AND NOT (mask 4)" by (simp add: v1_round_def mask_eq_exp_minus_1)
  also have "\<dots> = push_bit 4 (drop_bit 4 (x + 15))" by (rule and_not_mask)
  finally show ?thesis by (simp add: push_bit_eq_mult)
qed

lemma v1_round_nat: "unat (v1_round x) = unat (x + 15) div 16 * 16"
proof -
  have d: "unat (drop_bit 4 (x + 15)) = unat (x + 15) div 16" by (simp add: drop_bit_eq_div unat_div)
  have "unat (x + 15) div 16 * 16 < 2 ^ 32" using unsigned_less [of "x + 15", where ?'a = nat] by simp
  then show ?thesis unfolding v1_round_shift by (subst unat_mult_lem [THEN iffD1]) (simp_all add: d)
qed

text \<open>A volume that passes the size test fits: the test of the superblock overflow never fails.\<close>

lemma v1_super_fits:
  assumes "unat (v1_round blocks) \<le> v1_max_fsize"
  shows "2 + unat (v1_round blocks div 8) + 2 + unat (v1_new_maxino (v1_round blocks) div 8) \<le> 1024"
proof -
  let ?f = "v1_round blocks"
  define q where "q = unat (blocks + 15) div 16"
  define m where "m = (if unat ?f div 4 < 48 then 48 else unat ?f div 4)"
  have f: "unat ?f = q * 16" by (simp add: v1_round_nat q_def)
  have bytes: "v1_map_bytes (unat ?f) \<le> 1024"
    using v1_max_from_fits [of 0 "unat ?f"] assms by (simp add: v1_max_fsize_def v1_map_bytes_def)
  let ?m = "let m = ?f div 4 in if m < 48 then 48 else m"
  have um: "unat ?m = m" by (simp add: m_def Let_def unat_div word_less_nat_alt)
  have "m + 15 < 2 ^ 32" using unsigned_less [of ?f, where ?'a = nat] by (auto simp: m_def)
  then have "unat (?m + 15) = m + 15" using um by (subst unat_add_lem [THEN iffD1]) simp_all
  then have "unat (v1_new_maxino ?f) = (m + 15) div 16 * 16" by (simp add: v1_new_maxino_def v1_round_nat)
  moreover have "(unat ?f + 7) div 8 = 2 * q" using f by simp
  ultimately show ?thesis using bytes f by (cases "q < 12") (simp_all add: v1_map_bytes_def Let_def m_def unat_div)
qed

section \<open>Geometry options\<close>

text \<open>The geometry of the V8 family is accepted for every edition, an open applies it to three.\<close>

lemma mkfs_geometry_any_edition:
  "\<exists>d. mkfs_desc FILSYS_V6 \<lparr>mo_blocks = 1000, mo_bsize = 0, mo_packing = None, mo_arch = None,
      mo_geom = Some \<lparr>g_blocksize = 1024, g_freemap = None, g_byteorder = None\<rparr>, mo_m = 0, mo_n = 0, mo_boot = None\<rparr> = Inr d \<and>
    \<not> desc_ok d"
  by (simp add: mkfs_desc_def filsys_apply_geom_def geom_check_def desc_ok_def)

end
