(* ===== verification/Samples_Check.thy ===== *)
theory Samples_Check
  imports Samples Salvage Mkfs_Sound
begin

text \<open>
  The sample mounts as the check, an open and the making of a volume see them.
\<close>

lemma v7_sample_reads_free:
  assumes "ops_read_inode v7_sample ino = Inr ip"
  shows "ip_mode ip = 0"
proof -
  have d: "fs_desc v7_sample = v7_desc" by (simp add: v7_sample_def)
  have r: "v7fs_read_inode v7_sample ino = Inr ip" using assms by (simp add: ops_read_inode_def d)
  then have "ino \<noteq> 0" "v7_itod v7_sample ino < v7_limit v7_sample"
    by (auto simp: v7fs_read_inode_def Let_def not_le split: if_splits)
  from v7_sample_ino_free [OF this] show ?thesis using r by (simp add: engine_read_inode_def d)
qed

lemma v7_sample_pass1: "cx_bad_blocks (fst (pass1_of v7_sample)) = 0"
proof -
  have "ops_inode_state v7_sample ino 0 = IN_UNALLOC" for ino
    by (simp add: ops_inode_state_def v7_inode_state_def v7_sample_def)
  then have "fst (check_inode v7_sample s i) = fst s" for s i
    using v7_sample_reads_free by (cases s) (auto simp: check_inode_def Let_def split: sum.split)
  then have "fst (foldl (check_inode v7_sample) s xs) = fst s" for s xs by (rule foldl_keeps)
  then show ?thesis by (simp add: pass1_of_def check_pass1_def Let_def split_beta zero_chkctx_def)
qed

lemma v7_sample_alloc: "\<forall>n. h_alloc (fs_host v7_sample) n"
  by (simp add: v7_sample_def sample_host_def)

lemma v7_sample_area: "list_area v7_sample"
  by (simp add: list_area_def v7_sample_def v7_data_first_def) (simp add: sample_fs_def)

lemma v7_sample_listed: "v7_listed v7_sample"
  using v7_sample_inv
  by (simp add: v7_listed_def fl_inv_def) (simp add: v7_sample_def v7_data_first_def v7_inopb_def, simp add: sample_fs_def)

lemma v7_sample_openable: "openable v7_sample" "v7_plain (fs_desc v7_sample)" "caches_wf v7_sample"
  by (simp_all add: openable_def v7_plain_def caches_wf_def v7_layout_def sb_off_defs v7_sample_def v7_data_first_def sample_host_def)

text \<open>A PDP-7 image of zero bytes, as \<^verbatim>\<open>mkfs\<close> starts from it.\<close>

definition p7_blank :: filsys_edition where
  "p7_blank = zero_mount (sample_host (\<lambda>_. 0) 2048000) pdp7_desc"

lemma p7_blank_facts: "quiet p7_blank" "d_word (fs_desc p7_blank) = Some Word_rb09"
  "fs_base p7_blank + 8000 * block_bytes Word_rb09 \<le> h_len (fs_host p7_blank)"
  by (simp_all add: p7_blank_def zero_mount_def quiet_def sample_host_def)

end
