(* ===== verification/Probe.thy ===== *)
theory Probe
  imports Mount
begin

text \<open>
  The read-only superblock probes: those of the V7 engine (\<^verbatim>\<open>probe_walk_chain\<close> to
  \<^verbatim>\<open>v7_probe\<close> in \<^verbatim>\<open>v7fs.c\<close>) and \<^verbatim>\<open>v1_probe\<close>; the PDP-7 probe is in
  \<open>Pdp7fs\<close>.  A probe reads through the host transport of a zeroed mount and returns 0 (not
  this format), 1 (validated) or 2 (a near miss) with its report; \<open>Inl UB\<close> is a read past the
  bytes a buffer holds.  A volume the probe of the V7 family validates is one \<^verbatim>\<open>v7fs_open\<close>
  accepts with the same geometry, and its chain of free blocks ends and stays in the data area.
\<close>

section \<open>The report\<close>

datatype filsys_probe_conf = PROBE_NONE | PROBE_HEURISTIC | PROBE_STRUCTURAL | PROBE_MAGIC

text \<open>A \<open>NULL\<close> string is \<open>None\<close>; the free-map form -1 is \<open>None\<close>.\<close>

record filsys_probe =
  pr_class :: "string option"
  pr_blocksize :: nat
  pr_freemap :: "freemap_form option"
  pr_byteorder :: "string option"
  pr_packing :: "string option"
  pr_note :: "string option"
  pr_bitmap :: bool
  pr_isize :: u16
  pr_fsize :: u32
  pr_segs :: u32
  pr_why :: "string option"
  pr_base :: nat
  pr_conf :: filsys_probe_conf

text \<open>\<^verbatim>\<open>memset(&res, 0, sizeof res)\<close>: form 0 is the free list.\<close>

definition zero_probe :: filsys_probe where
  "zero_probe = \<lparr>pr_class = None, pr_blocksize = 0, pr_freemap = Some Freemap_list, pr_byteorder = None,
     pr_packing = None, pr_note = None, pr_bitmap = False, pr_isize = 0, pr_fsize = 0, pr_segs = 0,
     pr_why = None, pr_base = 0, pr_conf = PROBE_NONE\<rparr>"

type_synonym probed = "errno + nat \<times> filsys_probe"

section \<open>Walking the chain of free blocks\<close>

definition out_of_fs :: "u32 \<Rightarrow> u32 \<Rightarrow> u32 \<Rightarrow> bool" where
  "out_of_fs isize fsize b \<longleftrightarrow> b < isize \<or> fsize \<le> b"

text \<open>Entry \<open>i\<close> of a chain block, and the count in front of the entries.\<close>

definition seg_entry :: "byte_order \<Rightarrow> nat \<Rightarrow> nat \<Rightarrow> byte list \<Rightarrow> nat \<Rightarrow> u32" where
  "seg_entry bo wid fb_free buf i =
     (if wid = 2 then ucast (bo_get16 bo buf (fb_free + 2 * i)) else bo_get32 bo buf (fb_free + 4 * i))"

definition seg_nfree :: "byte_order \<Rightarrow> nat \<Rightarrow> byte list \<Rightarrow> u32" where
  "seg_nfree bo fb_free buf = (if fb_free = 4 then bo_get32 bo buf 0 else ucast (bo_get16 bo buf 0))"

text \<open>
  The loop of \<^verbatim>\<open>probe_walk_chain\<close>: \<open>left\<close> passes before the chain counts as too long, the
  map \<open>seen\<close> of visited blocks and the number \<open>segs\<close> of validated segments; the result is that
  number and the reason of a rejection.
\<close>

fun probe_chain :: "nat \<Rightarrow> filsys_edition \<Rightarrow> u32 \<Rightarrow> u32 \<Rightarrow> nat \<Rightarrow> nat \<Rightarrow> nat \<Rightarrow> nat \<Rightarrow> byte_order \<Rightarrow> nat \<Rightarrow>
    byte list \<Rightarrow> u32 \<Rightarrow> u32 \<Rightarrow> errno + u32 \<times> string option" where
  "probe_chain left fmt isize fsize base bsize nicfree wid bo fb_free seen head segs =
     (if head = 0 then Inr (segs, None)
      else if out_of_fs isize fsize head then Inr (segs, Some ''chain leaves fs'')
      else case left of
        0 \<Rightarrow> Inr (segs, Some ''chain too long'')
      | Suc left \<Rightarrow>
          if length seen \<le> unat head div 8 then Inl UB
          else if bm_test seen (unat head) then Inr (segs, Some ''chain cycles'')
          else (case io_file_read fmt bsize (base + unat head * bsize) of
                  Inl _ \<Rightarrow> Inr (segs, Some ''chain read error'')
                | Inr buf \<Rightarrow>
                    let nfree = seg_nfree bo fb_free buf in
                    if nfree < 1 \<or> of_nat nicfree < nfree then Inr (segs, Some ''bad segment nfree'')
                    else if \<exists>i \<in> set [1..<unat nfree]. seg_entry bo wid fb_free buf i \<noteq> 0 \<and>
                              out_of_fs isize fsize (seg_entry bo wid fb_free buf i)
                    then Inr (segs, Some ''chain entry out of range'')
                    else probe_chain left fmt isize fsize base bsize nicfree wid bo fb_free
                           (bm_set seen (unat head)) (seg_entry bo wid fb_free buf 0) (segs + 1)))"

declare probe_chain.simps [simp del]

definition probe_walk_chain :: "filsys_edition \<Rightarrow> u32 \<Rightarrow> u32 \<Rightarrow> u32 \<Rightarrow> nat \<Rightarrow> nat \<Rightarrow> nat \<Rightarrow> nat \<Rightarrow> byte_order \<Rightarrow>
    nat \<Rightarrow> errno + u32 \<times> string option" where
  "probe_walk_chain fmt head isize fsize base bsize nicfree wid bo fb_free =
     (let nseen = unat ((fsize + 7) div 8) in
      if \<not> h_alloc (fs_host fmt) bsize \<or> \<not> h_alloc (fs_host fmt) nseen then Inr (0, Some ''out of memory'')
      else probe_chain (Suc (unat (fsize div of_nat nicfree))) fmt isize fsize base bsize nicfree wid bo fb_free
             (replicate nseen 0) head 0)"

section \<open>The root inode\<close>

text \<open>The i-list starts at block 2 and the root is its second inode; \<open>Some\<close> is the reason of a rejection.\<close>

definition probe_root_ok :: "filsys_edition \<Rightarrow> nat \<Rightarrow> nat \<Rightarrow> byte_order \<Rightarrow> string option" where
  "probe_root_ok fmt base bsize bo =
     (case io_file_read fmt 128 (base + 2 * bsize) of
        Inl _ \<Rightarrow> Some ''cannot read i-list''
      | Inr ib \<Rightarrow>
          if bo_get16 bo ib 64 AND 0xF000 \<noteq> 0x4000 then Some ''root inode is not a directory''
          else if bo_get32 bo ib 72 = 0 then Some ''root inode size 0''
          else if bo_get32 bo ib 72 mod 16 \<noteq> 0 then Some ''root inode size not dirent-aligned''
          else None)"

section \<open>The V8 family\<close>

text \<open>The first reason in a list of tests.\<close>

fun first_some :: "('a \<Rightarrow> 'b option) \<Rightarrow> 'a list \<Rightarrow> 'b option" where
  "first_some f [] = None"
| "first_some f (x # xs) = (case f x of None \<Rightarrow> first_some f xs | Some y \<Rightarrow> Some y)"

definition le_be :: "bool \<Rightarrow> byte_order" where
  "le_be le = (if le then LE else BE)"

text \<open>Slot \<open>s\<close> of an i-list block: a live inode with a block address outside the volume.\<close>

definition ilist_slot_bad :: "byte_order \<Rightarrow> u32 \<Rightarrow> u32 \<Rightarrow> byte list \<Rightarrow> nat \<Rightarrow> bool" where
  "ilist_slot_bad bo isize fsize blk s \<longleftrightarrow>
     bo_get16 bo blk (s * 64) \<noteq> 0 \<and>
     (\<exists>i \<in> set [0..<13]. let a = bo_get24 bo blk (s * 64 + 12 + 3 * i) in a \<noteq> 0 \<and> out_of_fs isize fsize a)"

definition probe_v8_ilist_ok :: "filsys_edition \<Rightarrow> nat \<Rightarrow> nat \<Rightarrow> u32 \<Rightarrow> u32 \<Rightarrow> bool \<Rightarrow> nat \<Rightarrow> string option" where
  "probe_v8_ilist_ok fmt base bsize isize fsize le maxino =
     (let inopb = bsize div 64; niblk = (maxino + inopb - 1) div inopb in
      first_some (\<lambda>b.
          case io_file_read fmt bsize (base + (2 + b) * bsize) of
            Inl _ \<Rightarrow> Some ''cannot read i-list''
          | Inr blk \<Rightarrow>
              if \<exists>s \<in> set [0..<inopb]. b * inopb + s + 1 \<le> maxino \<and> ilist_slot_bad (le_be le) isize fsize blk s
              then Some ''inode block address out of range'' else None)
        [0..<niblk])"

text \<open>The set bits of a byte, and of the longwords of the in-superblock map below \<open>nbits\<close>.\<close>

definition byte_ones :: "byte \<Rightarrow> nat" where
  "byte_ones x = length (filter (bit x) [0..<8])"

definition word_ones :: "u32 \<Rightarrow> nat \<Rightarrow> nat" where
  "word_ones word n = length (filter (bit word) [0..<min 32 n])"

text \<open>
  \<^verbatim>\<open>probe_v8_bitmap_count\<close>: the count, or the reason it cannot be taken.  The map in the
  superblock is read as far as the volume size asks, past the block that was read when the
  volume has more data blocks than the map.
\<close>

definition probe_v8_bitmap_count :: "filsys_edition \<Rightarrow> byte list \<Rightarrow> nat \<Rightarrow> nat \<Rightarrow> u32 \<Rightarrow> u32 \<Rightarrow> bool \<Rightarrow> freemap_form \<Rightarrow>
    errno + (string + nat)" where
  "probe_v8_bitmap_count fmt sb base bsize isize fsize le form =
     (if form = Freemap_bigmap
      then let bpb = bsize * 8; nbits = unat fsize; nblks = (nbits + bpb - 1) div bpb in
        fold_e (\<lambda>k acc. case acc of
            Inl why \<Rightarrow> Inr (Inl why)
          | Inr count \<Rightarrow>
              (case io_file_read fmt bsize (base + (nbits - nblks + k) * bsize) of
                 Inl _ \<Rightarrow> Inr (Inl ''bitmap block read error'')
               | Inr blk \<Rightarrow>
                   let nb = (if k = nblks - 1 then (nbits - k * bpb + 7) div 8 else bsize)
                   in Inr (Inr (count + sum_list (map byte_ones (take nb blk))))))
          [0..<nblks] (Inr 0)
      else let nbits = unat (fsize - isize) in
        fold_e (\<lambda>w acc.
            if length sb < 252 + 4 * w + 4 then Inl UB
            else Inr (map_sum id (\<lambda>count. count + word_ones (bo_get32 (le_be le) sb (252 + 4 * w)) (nbits - 32 * w)) acc))
          [0..<(nbits + 31) div 32] (Inr 0))"

datatype v8_try = V8_no | V8_miss u16 u32 string | V8_hit u16 u32 freemap_form u32

text \<open>The superblock tests in front of any further read.\<close>

definition v8_super_plausible :: "byte list \<Rightarrow> nat \<Rightarrow> nat \<Rightarrow> byte_order \<Rightarrow> bool" where
  "v8_super_plausible b bsize nbytes bo \<longleftrightarrow>
     (let isz = bo_get16 bo b 0; fsz = bo_get32 bo b 4; ninode = unat (bo_get16 bo b 8);
          maxino = (unat isz - 2) * (bsize div 64) in
      3 \<le> isz \<and> ninode \<le> 100 \<and> maxino \<noteq> 0 \<and> maxino \<le> 65536 \<and>
      (\<forall>i \<in> set [0..<ninode]. unat (bo_get16 bo b (10 + 2 * i)) \<le> maxino) \<and>
      b ! 212 \<le> 1 \<and>
      bo_get32 bo b 220 \<le> fsz - ucast isz \<and> unat (bo_get16 bo b 224) \<le> maxino \<and>
      (\<forall>i \<in> set [0..<14]. let c = b ! (230 + i) in c = 0 \<or> 0x20 \<le> c \<and> c \<le> 0x7e) \<and>
      ucast isz < fsz \<and> fsz \<le> 0x1000000 \<and> unat fsz * bsize \<le> nbytes + bsize)"

text \<open>The root inode and the first two entries of the root directory.\<close>

definition probe_v8_root :: "filsys_edition \<Rightarrow> nat \<Rightarrow> nat \<Rightarrow> byte_order \<Rightarrow> u32 \<Rightarrow> u32 \<Rightarrow> string option" where
  "probe_v8_root fmt base bsize bo isz fsz =
     (case io_file_read fmt 128 (base + 2 * bsize) of
        Inl _ \<Rightarrow> Some ''cannot read i-list''
      | Inr ib \<Rightarrow>
          let size = bo_get32 bo ib 72; rootblk = bo_get24 bo ib 76 in
          if bo_get16 bo ib 64 AND 0xF000 \<noteq> 0x4000 then Some ''root inode is not a directory''
          else if bo_get16 bo ib 66 < 2 then Some ''root inode link count < 2''
          else if size < 32 \<or> size mod 16 \<noteq> 0 then Some ''root inode size implausible''
          else if out_of_fs isz fsz rootblk then Some ''root directory block out of range''
          else (case io_file_read fmt 64 (base + unat rootblk * bsize) of
                  Inl _ \<Rightarrow> Some ''cannot read root directory''
                | Inr rd \<Rightarrow>
                    if bo_get16 bo rd 0 \<noteq> 2 \<or> rd ! 2 \<noteq> 0x2E \<or>
                       bo_get16 bo rd 16 \<noteq> 2 \<or> rd ! 18 \<noteq> 0x2E \<or> rd ! 19 \<noteq> 0x2E
                    then Some ''root directory entries wrong'' else None))"

text \<open>
  Free space: a free list whose cached entries are in range and whose chain walks is a hit with
  the list form; failing that, a map whose count is the total of the superblock.
\<close>

definition probe_v8_free :: "filsys_edition \<Rightarrow> byte list \<Rightarrow> nat \<Rightarrow> nat \<Rightarrow> bool \<Rightarrow> u16 \<Rightarrow> u32 \<Rightarrow> errno + v8_try" where
  "probe_v8_free fmt b base bsize le isz fsz =
     (let bo = le_be le; nicfree = (if bsize = 8192 then 946 else 178);
          nfree = unat (bo_get16 bo b 248);
          walk = (if nfree \<le> nicfree \<and>
                     (\<forall>i \<in> set [0..<nfree]. let fb = bo_get32 bo b (252 + 4 * i) in fb = 0 \<or> \<not> out_of_fs (ucast isz) fsz fb)
                  then map_sum id Some
                         (probe_walk_chain fmt (bo_get32 bo b 252) (ucast isz) fsz base bsize nicfree 4 bo 4)
                  else Inr None)
      in case walk of
           Inl e \<Rightarrow> Inl e
         | Inr (Some (s, None)) \<Rightarrow> Inr (V8_hit isz fsz Freemap_list s)
         | Inr w \<Rightarrow>
             let why_list = (case w of None \<Rightarrow> None | Some (_, why) \<Rightarrow> why);
                 fm = (if b ! 249 = 1 \<and> bsize = 4096 then Freemap_bigmap else Freemap_bitmap)
             in case probe_v8_bitmap_count fmt b base bsize (ucast isz) fsz le fm of
                  Inl e \<Rightarrow> Inl e
                | Inr cnt \<Rightarrow>
                    if cnt = Inr (unat (bo_get32 bo b 220)) then Inr (V8_hit isz fsz fm 0)
                    else Inr (V8_miss isz fsz
                      (case why_list of Some why \<Rightarrow> why
                       | None \<Rightarrow> (case cnt of Inl why \<Rightarrow> why | Inr _ \<Rightarrow> ''free space does not traverse''))))"

definition probe_v8_try :: "filsys_edition \<Rightarrow> byte list \<Rightarrow> nat \<Rightarrow> nat \<Rightarrow> nat \<Rightarrow> bool \<Rightarrow> errno + v8_try" where
  "probe_v8_try fmt b base bsize nbytes le =
     (let bo = le_be le; isz = bo_get16 bo b 0; fsz = bo_get32 bo b 4;
          maxino = (unat isz - 2) * (bsize div 64) in
      if \<not> v8_super_plausible b bsize nbytes bo then Inr V8_no
      else case probe_v8_root fmt base bsize bo (ucast isz) fsz of
        Some why \<Rightarrow> Inr (V8_miss isz fsz why)
      | None \<Rightarrow>
          (case probe_v8_ilist_ok fmt base bsize (ucast isz) fsz le maxino of
             Some why \<Rightarrow> Inr (V8_miss isz fsz why)
           | None \<Rightarrow> probe_v8_free fmt b base bsize le isz fsz))"

section \<open>2.11BSD and System V\<close>

text \<open>The records of the root directory's first block until both dot entries are seen.\<close>

function bsd211_root_scan :: "byte list \<Rightarrow> nat \<Rightarrow> bool \<Rightarrow> bool \<Rightarrow> bool" where
  "bsd211_root_scan rb off dot dotdot =
     (if 1024 < off + 6 then False
      else let reclen = unat (bo_get16me rb (off + 2)); namlen = unat (bo_get16me rb (off + 4)) in
        if reclen < 6 \<or> reclen mod 4 \<noteq> 0 \<or> 1024 < off + reclen \<or> namlen < 1 \<or> 63 < namlen then False
        else let isdot = (namlen = 1 \<and> rb ! (off + 6) = 0x2E);
                 dotdot = (dotdot \<or> \<not> isdot \<and> namlen = 2 \<and> rb ! (off + 6) = 0x2E \<and> rb ! (off + 7) = 0x2E);
                 dot = (dot \<or> isdot)
             in if dot \<and> dotdot then True else bsd211_root_scan rb (off + reclen) dot dotdot)"
  by auto

termination by (relation "measure (\<lambda>(rb, off, _). 1024 - off)") auto

declare bsd211_root_scan.simps [simp del]

definition probe_bsd211_root_dir :: "filsys_edition \<Rightarrow> nat \<Rightarrow> nat \<Rightarrow> bool" where
  "probe_bsd211_root_dir fmt base bsize =
     (case io_file_read fmt 128 (base + 2 * bsize) of
        Inl _ \<Rightarrow> False
      | Inr ib \<Rightarrow>
          (case io_file_read fmt 1024 (base + unat (bo_get32me ib 76) * bsize) of
             Inl _ \<Rightarrow> False
           | Inr rb \<Rightarrow> bsd211_root_scan rb 0 False False))"

definition probe_sysv_class :: "byte list \<Rightarrow> byte_order \<Rightarrow> string" where
  "probe_sysv_class b bo =
     (let st = bo_get32 bo b 500 in
      if st = 0x7c269d38 \<or> st = 0x5e72d81a then ''sysvr4'' else ''sysvr2 or sysvr3'')"

section \<open>The family probes\<close>

text \<open>The cached free blocks of a superblock are 0 or inside the volume.\<close>

definition cache_in_fs :: "(nat \<Rightarrow> u32) \<Rightarrow> u32 \<Rightarrow> u32 \<Rightarrow> nat \<Rightarrow> bool" where
  "cache_in_fs entry isz fsz n \<longleftrightarrow> (\<forall>i \<in> set [0..<n]. entry i = 0 \<or> \<not> out_of_fs isz fsz (entry i))"

text \<open>V7, 32V, Coherent and System III: the descriptor gives the layout.\<close>

definition v7_class :: "filsys_desc \<Rightarrow> string" where
  "v7_class d = (if d_nicfree d = 64 then ''Coherent'' else if d_pack4 d then ''32V or sysiii'' else ''v7, sysiii or sysvr1'')"

definition probe_v7_family :: "filsys_edition \<Rightarrow> nat \<Rightarrow> nat \<Rightarrow> nat \<Rightarrow> filsys_probe \<Rightarrow> probed" where
  "probe_v7_family fmt base bsize nbytes res =
     (case io_file_read fmt bsize (base + bsize) of
        Inl _ \<Rightarrow> Inr (0, res)
      | Inr sb \<Rightarrow>
          let d = fs_desc fmt; bo = d_bo d; p4 = d_pack4 d;
              isz = bo_get16 bo sb 0; nfree = unat (bo_get16 bo sb (sb_nfree_off p4));
              ninode = unat (bo_get16 bo sb (sb_ninode_off p4 (d_nicfree d)));
              fsz = bo_get32 bo sb (sb_fsize_off p4); entry = (\<lambda>i. bo_get32 bo sb (sb_free_off p4 + 4 * i)) in
          if isz < 3 \<or> d_nicfree d < nfree \<or> 100 < ninode \<or> fsz \<le> ucast isz \<or> nbytes < base + unat fsz * bsize \<or>
             \<not> cache_in_fs entry (ucast isz) fsz nfree
          then Inr (0, res)
          else case probe_walk_chain fmt (entry 0) (ucast isz) fsz base bsize (d_nicfree d) 4 bo (if p4 then 4 else 2) of
            Inl e \<Rightarrow> Inl e
          | Inr (s, why) \<Rightarrow>
              let why = (case why of Some w \<Rightarrow> Some w | None \<Rightarrow> probe_root_ok fmt base bsize bo);
                  res = res\<lparr>pr_class := Some (v7_class d), pr_isize := isz, pr_fsize := fsz, pr_segs := s\<rparr>
              in if why \<noteq> None then Inr (2, res\<lparr>pr_why := why\<rparr>)
                 else Inr (1, res\<lparr>pr_blocksize := bsize, pr_conf := PROBE_STRUCTURAL\<rparr>))"

text \<open>
  System V: the magic word gives the byte order, \<^verbatim>\<open>s_type\<close> the block size, and a free count
  of all ones marks an AFS volume.
\<close>

definition probe_sysv :: "filsys_edition \<Rightarrow> nat \<Rightarrow> nat \<Rightarrow> filsys_probe \<Rightarrow> probed" where
  "probe_sysv fmt base nbytes res =
     (case io_file_read fmt 512 (base + 512) of
        Inl _ \<Rightarrow> Inr (0, res)
      | Inr sb \<Rightarrow>
          if bo_get32le sb 504 \<noteq> 0xfd187e20 \<and> bo_get32be sb 504 \<noteq> 0xfd187e20 then Inr (0, res)
          else let le = (bo_get32le sb 504 = 0xfd187e20); bo = le_be le; res = res\<lparr>pr_conf := PROBE_MAGIC\<rparr> in
            if bo_get16 bo sb 8 = 0xffff then Inr (1, res\<lparr>pr_class := Some ''AFS''\<rparr>)
            else let bsz = sysv_bsize (bo_get32 bo sb 508); isz = bo_get16 bo sb 0;
                     nfree = unat (bo_get16 bo sb 8); ninode = unat (bo_get16 bo sb 212); fsz = bo_get32 bo sb 4;
                     entry = (\<lambda>i. bo_get32 bo sb (12 + 4 * i)) in
              if bsz = 0 \<or> 50 < nfree \<or> 100 < ninode \<or> fsz \<le> ucast isz \<or> nbytes < base + unat fsz * bsz \<or>
                 \<not> cache_in_fs entry (ucast isz) fsz nfree
              then Inr (0, res)
              else case probe_walk_chain fmt (entry 0) (ucast isz) fsz base bsz 50 4 bo 4 of
                Inl e \<Rightarrow> Inl e
              | Inr (s, why) \<Rightarrow>
                  let why = (case why of Some w \<Rightarrow> Some w | None \<Rightarrow> probe_root_ok fmt base bsz bo);
                      res = res\<lparr>pr_class := Some (probe_sysv_class sb bo), pr_isize := isz, pr_fsize := fsz,
                                pr_segs := s, pr_blocksize := bsz\<rparr>
                  in if why \<noteq> None then Inr (2, res\<lparr>pr_why := why\<rparr>)
                     else Inr (1, res\<lparr>pr_byteorder := Some (if le then ''le'' else ''be''),
                                      pr_note := Some (if le then ''LE'' else ''BE'')\<rparr>))"

definition probe_xenix :: "filsys_edition \<Rightarrow> nat \<Rightarrow> nat \<Rightarrow> filsys_probe \<Rightarrow> probed" where
  "probe_xenix fmt base nbytes res =
     (case io_file_read fmt 1024 (base + 1024) of
        Inl _ \<Rightarrow> Inr (0, res)
      | Inr sb \<Rightarrow>
          if bo_get32le sb 0x3F8 \<noteq> 0x2b5544 then Inr (0, res)
          else let res = res\<lparr>pr_conf := PROBE_MAGIC\<rparr>; isz = bo_get16le sb 0; fsz = bo_get32le sb 2;
                   nfree = unat (bo_get16le sb 6); ninode = unat (bo_get16le sb 0x198);
                   entry = (\<lambda>i. bo_get32le sb (8 + 4 * i)) in
            if isz < 3 \<or> fsz \<le> ucast isz \<or> 100 < nfree \<or> 100 < ninode \<or> nbytes < base + unat fsz * 1024 \<or>
               \<not> cache_in_fs entry (ucast isz) fsz nfree
            then Inr (0, res)
            else case probe_walk_chain fmt (entry 0) (ucast isz) fsz base 1024 100 4 LE 2 of
              Inl e \<Rightarrow> Inl e
            | Inr (s, why) \<Rightarrow>
                let why = (case why of Some w \<Rightarrow> Some w | None \<Rightarrow> probe_root_ok fmt base 1024 LE);
                    res = res\<lparr>pr_class := Some ''Xenix'', pr_isize := isz, pr_fsize := fsz, pr_segs := s,
                              pr_blocksize := 1024\<rparr>
                in if why \<noteq> None then Inr (2, res\<lparr>pr_why := why\<rparr>)
                   else Inr (1, res\<lparr>pr_byteorder := Some ''le''\<rparr>))"

text \<open>2.9BSD and 2.11BSD share a superblock; the root directory tells them apart.\<close>

definition probe_bsd29 :: "filsys_edition \<Rightarrow> nat \<Rightarrow> nat \<Rightarrow> filsys_probe \<Rightarrow> probed" where
  "probe_bsd29 fmt base nbytes res =
     (case io_file_read fmt 1024 (base + 1024) of
        Inl _ \<Rightarrow> Inr (0, res)
      | Inr sb \<Rightarrow>
          let isz = bo_get16le sb 0; nfree = unat (bo_get16le sb 6); ninode = unat (bo_get16le sb 208);
              fsz = bo_get32me sb 2; entry = (\<lambda>i. bo_get32me sb (8 + 4 * i)) in
          if isz < 3 \<or> 50 < nfree \<or> 100 < ninode \<or> fsz \<le> ucast isz \<or> nbytes < base + unat fsz * 1024 \<or>
             \<not> cache_in_fs entry (ucast isz) fsz nfree
          then Inr (0, res)
          else case probe_walk_chain fmt (entry 0) (ucast isz) fsz base 1024 50 4 ME 2 of
            Inl e \<Rightarrow> Inl e
          | Inr (s, why) \<Rightarrow>
              let why = (case why of Some w \<Rightarrow> Some w | None \<Rightarrow> probe_root_ok fmt base 1024 ME);
                  res = res\<lparr>pr_isize := isz, pr_fsize := fsz, pr_segs := s, pr_blocksize := 1024\<rparr>
              in if why \<noteq> None then Inr (2, res\<lparr>pr_class := Some ''2.9BSD'', pr_why := why\<rparr>)
                 else Inr (1, res\<lparr>pr_class := Some (if probe_bsd211_root_dir fmt base 1024 then ''2.11BSD'' else ''2.9BSD''),
                                  pr_conf := PROBE_STRUCTURAL\<rparr>))"

text \<open>V8, V9 and V10, little-endian first; the note names the geometry.\<close>

fun dec :: "nat \<Rightarrow> string" where
  "dec n = (if n < 10 then [char_of (48 + n)] else dec (n div 10) @ [char_of (48 + n mod 10)])"

declare dec.simps [simp del]

definition v8_class :: "nat \<Rightarrow> freemap_form \<Rightarrow> string" where
  "v8_class bsize form =
     (if form = Freemap_bigmap then ''v10, bs=4096, bigmap''
      else if bsize = 8192 then ''v9''
      else if bsize = 4096 then ''v8 or v10, bs=4096, bitmap'' else ''v8 or v10, bs=1024'')"

definition v8_note :: "nat \<Rightarrow> freemap_form \<Rightarrow> bool \<Rightarrow> string" where
  "v8_note bsize form le = dec bsize @ ''-byte blocks, '' @
     (case form of Freemap_list \<Rightarrow> ''free list'' | Freemap_bitmap \<Rightarrow> ''in-superblock bitmap''
      | Freemap_bigmap \<Rightarrow> ''out-of-superblock bitmap'') @ '', '' @ (if le then ''LE'' else ''BE'')"

fun v8_orders :: "filsys_edition \<Rightarrow> byte list \<Rightarrow> nat \<Rightarrow> nat \<Rightarrow> nat \<Rightarrow> filsys_probe \<Rightarrow> bool list \<Rightarrow>
    (u16 \<times> u32 \<times> string) option \<Rightarrow> probed" where
  "v8_orders fmt sb base bsize nbytes res [] miss =
     (case miss of
        None \<Rightarrow> Inr (0, res)
      | Some (isz, fsz, why) \<Rightarrow>
          Inr (2, res\<lparr>pr_why := Some why, pr_isize := isz, pr_fsize := fsz, pr_segs := 0, pr_class := Some ''v8''\<rparr>))"
| "v8_orders fmt sb base bsize nbytes res (le # les) miss =
     (case probe_v8_try fmt sb base bsize nbytes le of
        Inl e \<Rightarrow> Inl e
      | Inr (V8_hit isz fsz form s) \<Rightarrow>
          Inr (1, res\<lparr>pr_isize := isz, pr_fsize := fsz, pr_segs := s, pr_freemap := Some form, pr_blocksize := bsize,
                      pr_byteorder := Some (if le then ''le'' else ''be''), pr_bitmap := (form \<noteq> Freemap_list),
                      pr_class := Some (v8_class bsize form), pr_note := Some (v8_note bsize form le),
                      pr_conf := PROBE_STRUCTURAL\<rparr>)
      | Inr (V8_miss isz fsz why) \<Rightarrow>
          v8_orders fmt sb base bsize nbytes res les (if miss = None then Some (isz, fsz, why) else miss)
      | Inr V8_no \<Rightarrow> v8_orders fmt sb base bsize nbytes res les miss)"

definition probe_v8 :: "filsys_edition \<Rightarrow> nat \<Rightarrow> nat \<Rightarrow> nat \<Rightarrow> filsys_probe \<Rightarrow> probed" where
  "probe_v8 fmt base bsize nbytes res =
     (case io_file_read fmt bsize (base + bsize) of
        Inl _ \<Rightarrow> Inr (0, res)
      | Inr sb \<Rightarrow> v8_orders fmt sb base bsize nbytes res [True, False] None)"

text \<open>V6: 16-bit fields, no look at the root inode.\<close>

definition probe_v6 :: "filsys_edition \<Rightarrow> nat \<Rightarrow> nat \<Rightarrow> filsys_probe \<Rightarrow> probed" where
  "probe_v6 fmt base nbytes res =
     (case io_file_read fmt 512 (base + 512) of
        Inl _ \<Rightarrow> Inr (0, res)
      | Inr sb \<Rightarrow>
          let isz = bo_get16le sb 0; fsz = bo_get16le sb 2; nfree = unat (bo_get16le sb 4);
              ninode = unat (bo_get16le sb 206); entry = (\<lambda>i. ucast (bo_get16le sb (6 + 2 * i)) :: u32) in
          if isz < 3 \<or> fsz \<le> isz \<or> 100 < nfree \<or> 100 < ninode \<or> nbytes < base + unat fsz * 512 \<or>
             \<not> cache_in_fs entry (ucast isz) (ucast fsz) nfree
          then Inr (0, res)
          else case probe_walk_chain fmt (entry 0) (ucast isz) (ucast fsz) base 512 100 2 LE 2 of
            Inl e \<Rightarrow> Inl e
          | Inr (s, why) \<Rightarrow>
              let res = res\<lparr>pr_class := Some ''v4, v5, v6 or usgpg3'', pr_isize := isz, pr_fsize := ucast fsz,
                            pr_segs := s, pr_blocksize := 512\<rparr>
              in if why \<noteq> None then Inr (2, res\<lparr>pr_why := why\<rparr>)
                 else Inr (1, res\<lparr>pr_conf := PROBE_STRUCTURAL\<rparr>))"

definition v7_probe :: "filsys_edition \<Rightarrow> nat \<Rightarrow> nat \<Rightarrow> nat \<Rightarrow> probed" where
  "v7_probe fmt base bsize nbytes =
     (let d = fs_desc fmt; res = zero_probe\<lparr>pr_freemap := None\<rparr> in
      if d_sb_codec d then probe_v8 fmt base bsize nbytes res
      else if d_magic d = 0x2b5544 then probe_xenix fmt base nbytes res
      else if d_magic d = 0xfd187e20 then probe_sysv fmt base nbytes res
      else if d_bsize d = 1024 then probe_bsd29 fmt base nbytes res
      else probe_v7_family fmt base bsize nbytes res)"

section \<open>The First Edition\<close>

definition v1_probe :: "filsys_edition \<Rightarrow> nat \<Rightarrow> nat \<Rightarrow> filsys_probe \<Rightarrow> probed" where
  "v1_probe fmt base nbytes res =
     (case io_file_read fmt 1024 base of
        Inl _ \<Rightarrow> Inr (0, res)
      | Inr sb \<Rightarrow>
          let bo = d_bo (fs_desc fmt); fb = unat (bo_get16 bo sb 0) in
          if fb = 0 \<or> 1024 < 2 + fb + 2 then Inr (0, res)
          else let ib = unat (bo_get16 bo sb (2 + fb)); fsz = fb * 8; dstart = (ib * 8 + 31) div 16 + 1 in
            if ib = 0 \<or> 1024 < 2 + fb + 2 + ib \<or> fsz \<le> dstart \<or> nbytes < base + fsz * 512 then Inr (0, res)
            else case io_file_read fmt 512 (base + 4 * 512) of
              Inl _ \<Rightarrow> Inr (0, res)
            | Inr blk \<Rightarrow>
                let mode = bo_get16 bo blk 256; a0 = unat (bo_get16 bo blk 262) in
                if mode AND 0xC000 \<noteq> 0xC000 then Inr (0, res\<lparr>pr_why := Some ''root inode is not a directory''\<rparr>)
                else if a0 < dstart \<or> fsz \<le> a0 then Inr (0, res\<lparr>pr_why := Some ''root directory block out of range''\<rparr>)
                else Inr (1, res\<lparr>pr_class := Some ''v1, v2 or v3'', pr_isize := of_nat dstart, pr_fsize := of_nat fsz,
                                 pr_blocksize := 512, pr_bitmap := True, pr_conf := PROBE_STRUCTURAL\<rparr>))"


section \<open>What a validated chain is\<close>

text \<open>
  The blocks of a chain from \<open>head\<close>: each is in the volume, can be read, holds between one and
  \<open>nicfree\<close> entries of which all but the first are 0 or in the volume, and the first names the
  next block, 0 at the end.
\<close>

fun seg_chain :: "filsys_edition \<Rightarrow> u32 \<Rightarrow> u32 \<Rightarrow> nat \<Rightarrow> nat \<Rightarrow> nat \<Rightarrow> nat \<Rightarrow> byte_order \<Rightarrow> nat \<Rightarrow> u32 \<Rightarrow> u32 list \<Rightarrow> bool" where
  "seg_chain fmt isize fsize base bsize nicfree wid bo fb_free head [] \<longleftrightarrow> head = 0"
| "seg_chain fmt isize fsize base bsize nicfree wid bo fb_free head (b # bs) \<longleftrightarrow>
     head = b \<and> b \<noteq> 0 \<and> \<not> out_of_fs isize fsize b \<and>
     (\<exists>buf. io_file_read fmt bsize (base + unat b * bsize) = Inr buf \<and>
        seg_nfree bo fb_free buf \<noteq> 0 \<and> seg_nfree bo fb_free buf \<le> of_nat nicfree \<and>
        (\<forall>i \<in> set [1..<unat (seg_nfree bo fb_free buf)].
           seg_entry bo wid fb_free buf i = 0 \<or> \<not> out_of_fs isize fsize (seg_entry bo wid fb_free buf i)) \<and>
        seg_chain fmt isize fsize base bsize nicfree wid bo fb_free (seg_entry bo wid fb_free buf 0) bs)"

lemma seg_chain_in_fs: "seg_chain fmt isize fsize base bsize nicfree wid bo fb_free head bs \<Longrightarrow> b \<in> set bs \<Longrightarrow> \<not> out_of_fs isize fsize b"
  by (induction bs arbitrary: head) auto

text \<open>The walk validates a chain just when it has no block twice and is not too long.\<close>

lemma probe_chain_sound:
  assumes "probe_chain left fmt isize fsize base bsize nicfree wid bo fb_free seen head segs = Inr (s, None)"
  shows "\<exists>bs. seg_chain fmt isize fsize base bsize nicfree wid bo fb_free head bs \<and> distinct bs \<and>
    (\<forall>b \<in> set bs. \<not> bm_test seen (unat b)) \<and> s = segs + of_nat (length bs) \<and> length bs \<le> left"
  using assms
proof (induction left arbitrary: seen head segs)
  case 0
  then show ?case by (intro exI [of _ "[]"]) (auto simp: probe_chain.simps [of 0] split: if_splits)
next
  case (Suc left)
  show ?case
  proof (cases "head = 0")
    case True
    then show ?thesis using Suc.prems by (intro exI [of _ "[]"]) (simp add: probe_chain.simps [of "Suc left"])
  next
    case False
    then obtain buf where s: "\<not> out_of_fs isize fsize head" "unat head div 8 < length seen" "\<not> bm_test seen (unat head)"
        "io_file_read fmt bsize (base + unat head * bsize) = Inr buf"
        "seg_nfree bo fb_free buf \<noteq> 0" "seg_nfree bo fb_free buf \<le> of_nat nicfree"
        "\<forall>i \<in> set [1..<unat (seg_nfree bo fb_free buf)].
           seg_entry bo wid fb_free buf i = 0 \<or> \<not> out_of_fs isize fsize (seg_entry bo wid fb_free buf i)"
        "probe_chain left fmt isize fsize base bsize nicfree wid bo fb_free (bm_set seen (unat head))
           (seg_entry bo wid fb_free buf 0) (segs + 1) = Inr (s, None)"
      using Suc.prems unfolding probe_chain.simps [of "Suc left"] Let_def
      by (simp add: not_le not_less split: if_split_asm sum.split_asm)
    from Suc.IH [OF s(8)] obtain bs where bs:
        "seg_chain fmt isize fsize base bsize nicfree wid bo fb_free (seg_entry bo wid fb_free buf 0) bs" "distinct bs"
        "\<forall>b \<in> set bs. \<not> bm_test (bm_set seen (unat head)) (unat b)" "s = segs + 1 + of_nat (length bs)" "length bs \<le> left"
      by blast
    then show ?thesis using False s by (intro exI [of _ "head # bs"]) (auto simp: bm_test_set simp flip: word_unat_eq_iff)
  qed
qed

lemma probe_chain_complete:
  assumes "seg_chain fmt isize fsize base bsize nicfree wid bo fb_free head bs" "distinct bs" "length bs \<le> left"
    and "\<forall>b \<in> set bs. \<not> bm_test seen (unat b) \<and> unat b div 8 < length seen"
  shows "probe_chain left fmt isize fsize base bsize nicfree wid bo fb_free seen head segs = Inr (segs + of_nat (length bs), None)"
  using assms
proof (induction bs arbitrary: left seen head segs)
  case Nil
  then show ?case by (simp add: probe_chain.simps)
next
  case (Cons b bs)
  then obtain left' where l: "left = Suc left'" by (cases left) auto
  from Cons.prems(1) obtain buf where s: "head = b" "b \<noteq> 0" "\<not> out_of_fs isize fsize b"
      "io_file_read fmt bsize (base + unat b * bsize) = Inr buf"
      "seg_nfree bo fb_free buf \<noteq> 0" "seg_nfree bo fb_free buf \<le> of_nat nicfree"
      "\<forall>i \<in> set [1..<unat (seg_nfree bo fb_free buf)].
         seg_entry bo wid fb_free buf i = 0 \<or> \<not> out_of_fs isize fsize (seg_entry bo wid fb_free buf i)"
      "seg_chain fmt isize fsize base bsize nicfree wid bo fb_free (seg_entry bo wid fb_free buf 0) bs"
    by auto
  have "probe_chain left' fmt isize fsize base bsize nicfree wid bo fb_free (bm_set seen (unat b))
      (seg_entry bo wid fb_free buf 0) (segs + 1) = Inr (segs + 1 + of_nat (length bs), None)"
    using Cons.prems l by (intro Cons.IH [OF s(8)]) (auto simp: bm_test_set simp flip: word_unat_eq_iff)
  then show ?case
    using Cons.prems(4) s(1-7) unfolding l probe_chain.simps [of "Suc left'"] Let_def
    by (auto simp: not_le not_less)
qed

lemma probe_walk_chain_sound:
  assumes "probe_walk_chain fmt head isize fsize base bsize nicfree wid bo fb_free = Inr (s, None)"
  shows "\<exists>bs. seg_chain fmt isize fsize base bsize nicfree wid bo fb_free head bs \<and> distinct bs \<and>
    s = of_nat (length bs) \<and> length bs \<le> Suc (unat (fsize div of_nat nicfree))"
  using assms by (auto simp: probe_walk_chain_def Let_def split: if_split_asm dest!: probe_chain_sound)

lemma probe_walk_chain_iff:
  assumes "\<forall>n. h_alloc (fs_host fmt) n" "unat fsize < 2 ^ 32 - 7"
  shows "probe_walk_chain fmt head isize fsize base bsize nicfree wid bo fb_free = Inr (s, None) \<longleftrightarrow>
    (\<exists>bs. seg_chain fmt isize fsize base bsize nicfree wid bo fb_free head bs \<and> distinct bs \<and>
       s = of_nat (length bs) \<and> length bs \<le> Suc (unat (fsize div of_nat nicfree)))"
proof -
  have "unat (fsize + 7) = unat fsize + 7" using assms(2) by (subst unat_add_lem [THEN iffD1]) simp_all
  then have n: "unat ((fsize + 7) div 8) = (unat fsize + 7) div 8" by (simp add: unat_div)
  have in_map: "unat b div 8 < (unat fsize + 7) div 8" if "\<not> out_of_fs isize fsize b" for b
  proof -
    have "unat b < unat fsize" using that by (simp add: out_of_fs_def not_le word_less_nat_alt)
    then show ?thesis by simp
  qed
  show ?thesis
  proof
    assume "probe_walk_chain fmt head isize fsize base bsize nicfree wid bo fb_free = Inr (s, None)"
    then show "\<exists>bs. seg_chain fmt isize fsize base bsize nicfree wid bo fb_free head bs \<and> distinct bs \<and>
        s = of_nat (length bs) \<and> length bs \<le> Suc (unat (fsize div of_nat nicfree))"
      by (rule probe_walk_chain_sound)
  next
    assume "\<exists>bs. seg_chain fmt isize fsize base bsize nicfree wid bo fb_free head bs \<and> distinct bs \<and>
        s = of_nat (length bs) \<and> length bs \<le> Suc (unat (fsize div of_nat nicfree))"
    then obtain bs where bs: "seg_chain fmt isize fsize base bsize nicfree wid bo fb_free head bs" "distinct bs"
      "s = of_nat (length bs)" "length bs \<le> Suc (unat (fsize div of_nat nicfree))" by blast
    show "probe_walk_chain fmt head isize fsize base bsize nicfree wid bo fb_free = Inr (s, None)"
      using assms(1) seg_chain_in_fs [OF bs(1)] in_map
      by (simp add: probe_walk_chain_def Let_def n bs(3) probe_chain_complete [OF bs(1,2,4)])
  qed
qed


section \<open>A validated volume opens\<close>

text \<open>What a probe with the V7 superblock has established when it returns 1, with \<open>sb\<close> the superblock.\<close>

definition v7_validated :: "filsys_edition \<Rightarrow> nat \<Rightarrow> nat \<Rightarrow> nat \<Rightarrow> filsys_probe \<Rightarrow> byte list \<Rightarrow> bool" where
  "v7_validated fmt base bsize nbytes res sb \<longleftrightarrow>
     (let d = fs_desc fmt; bo = d_bo d; p4 = d_pack4 d; isz = pr_isize res; fsz = pr_fsize res;
          entry = (\<lambda>i. bo_get32 bo sb (sb_free_off p4 + 4 * i)) in
      io_file_read fmt bsize (base + bsize) = Inr sb \<and>
      isz = bo_get16 bo sb 0 \<and> fsz = bo_get32 bo sb (sb_fsize_off p4) \<and> 3 \<le> isz \<and> ucast isz < fsz \<and>
      base + unat fsz * bsize \<le> nbytes \<and> unat (bo_get16 bo sb (sb_nfree_off p4)) \<le> d_nicfree d \<and>
      unat (bo_get16 bo sb (sb_ninode_off p4 (d_nicfree d))) \<le> 100 \<and>
      cache_in_fs entry (ucast isz) fsz (unat (bo_get16 bo sb (sb_nfree_off p4))) \<and>
      probe_walk_chain fmt (entry 0) (ucast isz) fsz base bsize (d_nicfree d) 4 bo (if p4 then 4 else 2) = Inr (pr_segs res, None) \<and>
      probe_root_ok fmt base bsize bo = None)"

lemma probe_v7_family_validated:
  assumes "probe_v7_family fmt base bsize nbytes res0 = Inr (1, res)"
  shows "\<exists>sb. v7_validated fmt base bsize nbytes res sb"
  using assms unfolding probe_v7_family_def v7_validated_def Let_def
  by (auto simp: not_le not_less split: sum.split_asm if_split_asm prod.split_asm option.split_asm)

lemma probe_bsd29_validated:
  assumes "probe_bsd29 fmt base nbytes res0 = Inr (1, res)"
    and "d_bo (fs_desc fmt) = ME" "\<not> d_pack4 (fs_desc fmt)" "d_nicfree (fs_desc fmt) = 50"
  shows "\<exists>sb. v7_validated fmt base 1024 nbytes res sb"
  using assms unfolding probe_bsd29_def v7_validated_def Let_def
  by (auto simp: not_le not_less sb_off_defs bo_get16me_def [abs_def] split: sum.split_asm if_split_asm prod.split_asm option.split_asm)

text \<open>The chain as the engine reads it.\<close>

fun free_chain :: "filsys_edition \<Rightarrow> u32 \<Rightarrow> u32 list \<Rightarrow> bool" where
  "free_chain fs head [] \<longleftrightarrow> head = 0"
| "free_chain fs head (b # bs) \<longleftrightarrow>
     head = b \<and> b \<noteq> 0 \<and> in_data fs b \<and>
     (\<exists>buf. v7fs_read_block fs b = Inr buf \<and> chain_nfree fs buf \<noteq> 0 \<and> unat (chain_nfree fs buf) \<le> d_nicfree (fs_desc fs) \<and>
        (\<forall>i. 1 \<le> i \<and> i < unat (chain_nfree fs buf) \<longrightarrow> chain_free fs buf ! i = 0 \<or> in_data fs (chain_free fs buf ! i)) \<and>
        free_chain fs (chain_free fs buf ! 0) bs)"

lemma seg_free_chain:
  assumes d: "d_daddr_wid (fs_desc fs) = 4" "d_df_nfree_wid (fs_desc fs) = 2" "\<not> d_pack4 (fs_desc fs)" "\<not> d_isize_count (fs_desc fs)"
    "d_nicfree (fs_desc fs) < 65536" "0 < d_bsize (fs_desc fs)"
    and h: "fs_host fmt = fs_host fs" "fs_imgsize fs = h_len (fs_host fs)"
    and g: "fs_base fs + unat (fs_fsize fs) * d_bsize (fs_desc fs) \<le> h_len (fs_host fs)"
    and c: "seg_chain fmt (ucast (fs_isize fs)) (fs_fsize fs) (fs_base fs) (d_bsize (fs_desc fs)) (d_nicfree (fs_desc fs)) 4
      (d_bo (fs_desc fs)) 2 head bs"
  shows "free_chain fs head bs"
  using c
proof (induction bs arbitrary: head)
  case (Cons b bs)
  let ?d = "fs_desc fs"
  let ?e = "seg_entry (d_bo ?d) 4 2" and ?n = "seg_nfree (d_bo ?d) 2"
  from Cons.prems obtain buf where s: "head = b" "b \<noteq> 0" "\<not> out_of_fs (ucast (fs_isize fs)) (fs_fsize fs) b"
      "io_file_read fmt (d_bsize ?d) (fs_base fs + unat b * d_bsize ?d) = Inr buf"
      "?n buf \<noteq> 0" "?n buf \<le> of_nat (d_nicfree ?d)"
      "\<forall>i \<in> set [1..<unat (?n buf)]. ?e buf i = 0 \<or> \<not> out_of_fs (ucast (fs_isize fs)) (fs_fsize fs) (?e buf i)"
      "seg_chain fmt (ucast (fs_isize fs)) (fs_fsize fs) (fs_base fs) (d_bsize ?d) (d_nicfree ?d) 4 (d_bo ?d) 2 (?e buf 0) bs"
    by auto
  have out: "out_of_fs (ucast (fs_isize fs)) (fs_fsize fs) x \<longleftrightarrow> \<not> in_data fs x" for x
    using d(4) by (auto simp: out_of_fs_def in_data_def v7_data_first_def)
  have n: "unat (?n buf) = unat (chain_nfree fs buf)" using d(2) by (simp add: seg_nfree_def chain_nfree_def)
  have le: "unat (chain_nfree fs buf) \<le> d_nicfree ?d"
    using s(6) d(5) by (simp add: word_le_nat_alt n unat_of_nat_lt)
  have e: "chain_free fs buf ! i = ?e buf i" if "i < d_nicfree ?d" for i
    using that d(1-3) by (simp add: chain_free_def seg_entry_def v7_get_daddr_def v7_chain_free_off_def fb_free_off_def)
  have n0: "chain_nfree fs buf \<noteq> 0" "0 < d_nicfree ?d" using s(5) n le by (auto simp: word_unat_eq_iff)
  have "unat b < unat (fs_fsize fs)" using s(3) by (simp add: out_of_fs_def not_le word_less_nat_alt)
  then have "Suc (unat b) * d_bsize ?d \<le> unat (fs_fsize fs) * d_bsize ?d" by (intro mult_le_mono1) simp
  then have r: "fs_base fs + unat b * d_bsize ?d + d_bsize ?d \<le> h_len (fs_host fs)" using g by simp
  have "v7fs_read_block fs b = io_file_read fmt (d_bsize ?d) (fs_base fs + unat b * d_bsize ?d)"
    using r h d(6) by (simp add: v7fs_read_block_def blk_off_def io_file_read_def Let_def)
  then have "v7fs_read_block fs b = Inr buf" using s(4) by simp
  then show ?case
    using s(1-3,7) n0 le e Cons.IH [OF s(8)] by (auto simp: out n intro!: exI [of _ buf])
qed simp


text \<open>The rows whose probe reads the V7 superblock with the totals: V7, Coherent, 2.9BSD and 2.11BSD.\<close>

definition v7_probed :: "edition set" where
  "v7_probed = {FILSYS_V7, FILSYS_COHERENT, FILSYS_BSD29, FILSYS_BSD211}"

lemma v7_probed_rows:
  assumes "e \<in> v7_probed"
  shows "v7_plain (filsys_getformat e)" "d_bo (filsys_getformat e) = ME" "d_daddr_wid (filsys_getformat e) = 4"
    "d_df_nfree_wid (filsys_getformat e) = 2" "d_nicinod (filsys_getformat e) = 100" "d_nicfree (filsys_getformat e) < 65536"
    "d_nicfree (filsys_getformat e) \<noteq> 0"
    "d_bsize (filsys_getformat e) \<in> {512, 1024}" "d_inode_size (filsys_getformat e) = 64"
    "d_ops (filsys_getformat e) \<in> {Some V7fs_ops, Some Bsd211fs_ops}"
  using assms by (auto simp: v7_probed_def v7_plain_def v7_layout_def sb_off_defs)

lemma v7_probe_validated:
  assumes e: "e \<in> v7_probed" and d: "fs_desc fmt = filsys_getformat e"
    and p: "v7_probe fmt base (d_bsize (fs_desc fmt)) nbytes = Inr (1, res)"
  shows "\<exists>sb. v7_validated fmt base (d_bsize (fs_desc fmt)) nbytes res sb"
proof -
  have r: "\<not> d_sb_codec (fs_desc fmt)" "d_magic (fs_desc fmt) = 0" "d_bo (fs_desc fmt) = ME" "\<not> d_pack4 (fs_desc fmt)"
    using v7_probed_rows [OF e] by (simp_all add: d v7_plain_def)
  show ?thesis
  proof (cases "d_bsize (fs_desc fmt) = 1024")
    case True
    then have "d_nicfree (fs_desc fmt) = 50" using e by (auto simp: v7_probed_def d)
    then show ?thesis using p r True by (auto simp: v7_probe_def intro!: probe_bsd29_validated)
  next
    case False
    then show ?thesis using p r by (auto simp: v7_probe_def intro!: probe_v7_family_validated)
  qed
qed

lemma validated_opens:
  assumes e: "e \<in> v7_probed" and d: "d = filsys_getformat e" and h: "fs_host fmt = h" "d_bo (fs_desc fmt) = ME" "\<not> d_pack4 (fs_desc fmt)" "d_nicfree (fs_desc fmt) = d_nicfree d"
    and v: "v7_validated fmt base (d_bsize d) (h_len h) res sb"
  obtains fs where "v7fs_open (zero_mount h d) ro d base = Some (Inr (), fs)" "fs_desc fs = d" "fs_host fs = h"
    "fs_base fs = base" "fs_imgsize fs = h_len h" "fs_isize fs = pr_isize res" "fs_fsize fs = pr_fsize res"
    "nfree (fs_fl fs) = bo_get16 ME sb (sb_nfree_off False)"
    "free_cache (fs_fl fs) = get_array (bo_get32 ME) 4 sb (sb_free_off False) (d_nicfree d)"
proof -
  note r = v7_probed_rows [OF e, folded d]
  then have p: "\<not> d_dyn_bsize d" "\<not> d_sb_codec d" "\<not> d_isize_count d" "\<not> d_pack4 d" "d_magic d = 0" "d_freemap d = Freemap_list"
    by (simp_all add: v7_plain_def)
  have s: "io_file_read fmt (d_bsize d) (base + d_bsize d) = Inr sb" "pr_isize res = bo_get16 ME sb 0"
      "pr_fsize res = bo_get32 ME sb (sb_fsize_off False)" "3 \<le> pr_isize res" "ucast (pr_isize res) < pr_fsize res"
      "base + unat (pr_fsize res) * d_bsize d \<le> h_len h" "unat (bo_get16 ME sb (sb_nfree_off False)) \<le> d_nicfree d"
      "unat (bo_get16 ME sb (sb_ninode_off False (d_nicfree d))) \<le> 100"
    using v h unfolding v7_validated_def Let_def by (elim conjE, simp)+
  define fs0 where "fs0 = (zero_mount h d)\<lparr>fs_desc := d, fs_readonly := ro, fs_base := base\<rparr>"
  define fs1 where "fs1 = v7_totals_decode (v7_super_decode fs0 sb) sb"
  have f0: "fs_desc fs0 = d" "fs_host fs0 = h" "fs_base fs0 = base" "fs_imgsize fs0 = 0" by (simp_all add: fs0_def zero_mount_def)
  have f1: "fs_desc fs1 = d" "fs_host fs1 = h" "fs_base fs1 = base" "fs_isize fs1 = pr_isize res" "fs_fsize fs1 = pr_fsize res"
    "nfree (fs_fl fs1) = bo_get16 ME sb (sb_nfree_off False)"
    "free_cache (fs_fl fs1) = get_array (bo_get32 ME) 4 sb (sb_free_off False) (d_nicfree d)"
    by (simp_all add: fs1_def v7_totals_decode_def v7_super_decode_def Let_def f0 r s p)
  have rd: "super_read fs0 = Inr sb"
    using s(1) h p(1) by (simp add: super_read_def v7fs_read_block_def blk_off_def filsys_check_range_def f0 io_file_read_def Let_def)
  let ?f = "(v7_interleave_decode fs1 sb)\<lparr>fs_imgsize := h_len h\<rparr>"
  have il: "fs_desc (v7_interleave_decode fs1 sb) = d" "fs_host (v7_interleave_decode fs1 sb) = h"
    "fs_base (v7_interleave_decode fs1 sb) = base" "fs_isize (v7_interleave_decode fs1 sb) = pr_isize res"
    "fs_fsize (v7_interleave_decode fs1 sb) = pr_fsize res" "fs_fl (v7_interleave_decode fs1 sb) = fs_fl fs1"
    by (simp_all add: v7_interleave_decode_def Let_def f1)
  have "2 \<le> pr_isize res" using s(4) by (simp add: word_le_nat_alt)
  then have fin: "open_finish fs1 sb = (Inr (), ?f)"
    using s(5,6) p by (simp add: open_finish_def Let_def f1 il v7_data_first_def not_le not_less)
  have dec: "open_decode fs0 sb = (Inr (), v7_super_decode fs0 sb)" using p by (simp add: open_decode_def f0)
  have tot: "open_totals (v7_super_decode fs0 sb) sb = Some (Inr (), fs1)"
    using p by (simp add: open_totals_def Let_def fs1_def v7_super_decode_def f0)
  have "open_dyn_bsize fs0 = Inr fs0" using p by (simp add: open_dyn_bsize_def f0)
  then have "v7fs_open (zero_mount h d) ro d base = Some (Inr (), ?f)"
    using rd dec tot fin s(7,8) r(5) p r(2) unfolding v7fs_open_def Let_def fs0_def [symmetric]
    by (simp add: v7_super_decode_def Let_def f0)
  then show thesis using that [of ?f] by (simp add: il f1)
qed


text \<open>The root inode the probe looks at is the one the engine reads.\<close>

lemma validated_root:
  assumes d: "d_bsize (fs_desc fs) \<in> {512, 1024}" "d_inode_size (fs_desc fs) = 64" "d_bo (fs_desc fs) = ME"
    and h: "fs_host fmt = fs_host fs" "fs_imgsize fs = h_len (fs_host fs)" "\<forall>off n. \<not> h_rd_err (fs_host fs) off n"
    and g: "3 \<le> fs_isize fs" "fs_base fs + unat (fs_fsize fs) * d_bsize (fs_desc fs) \<le> h_len (fs_host fs)"
      "ucast (fs_isize fs) < fs_fsize fs"
    and r: "probe_root_ok fmt (fs_base fs) (d_bsize (fs_desc fs)) ME = None"
  obtains ip where "v7fs_read_inode fs 2 = Inr ip" "ip_mode ip AND 0xF000 = 0x4000" "ip_size ip \<noteq> 0" "ip_size ip mod 16 = 0"
proof -
  let ?b = "d_bsize (fs_desc fs)"
  have "3 \<le> unat (fs_isize fs)" "unat (fs_isize fs) < unat (fs_fsize fs)"
    using g(1,3) by (simp_all add: word_le_nat_alt word_less_nat_alt)
  then have "3 * ?b \<le> unat (fs_fsize fs) * ?b" by (intro mult_le_mono1) simp
  then have sz: "fs_base fs + 3 * ?b \<le> h_len (fs_host fs)" using g(2) by linarith
  have "(2::u32) + 1 div v7_inopb fs = 2" "v7_itoo fs 2 = 1"
    using d by (auto simp: v7_inopb_def v7_itoo_def word_unat_eq_iff unat_div unat_mod)
  then have i: "v7_itod fs 2 = 2" "inode_off fs 2 = 64" using d(2) by (simp_all add: v7_itod_def inode_off_def)
  define raw where "raw = img_read (h_img (fs_host fs)) (fs_base fs + 2 * ?b) ?b"
  have "filsys_check_range fs (fs_base fs + 2 * ?b) ?b" using sz h(2) d(1) by (auto simp: filsys_check_range_def)
  then have blk: "v7fs_read_block fs 2 = Inr raw"
    using sz h by (simp add: v7fs_read_block_def blk_off_def io_file_read_def raw_def Let_def)
  have "\<not> ucast (fs_isize fs) \<le> (2::u32)" using \<open>3 \<le> unat (fs_isize fs)\<close> by (simp add: word_le_nat_alt)
  then have rd: "v7fs_read_inode fs 2 = Inr (v7_inode_decode fs 2 raw 64)"
    by (simp add: v7fs_read_inode_def i blk)
  define ib where "ib = img_read (h_img (fs_host fs)) (fs_base fs + 2 * ?b) 128"
  have "io_file_read fmt 128 (fs_base fs + 2 * ?b) = Inr ib"
    using sz h d(1) by (auto simp: io_file_read_def Let_def ib_def)
  then have p: "bo_get16 ME ib 64 AND 0xF000 = 0x4000" "bo_get32 ME ib 72 \<noteq> 0" "bo_get32 ME ib 72 mod 16 = 0"
    using r by (auto simp: probe_root_ok_def split: if_splits)
  have "bo_get16 ME ib 64 = bo_get16 ME raw 64" "bo_get32 ME ib 72 = bo_get32 ME raw 72"
    using d(1) by (auto simp: ib_def raw_def bo_get16me_def bo_get16le_def bo_get32me_def)
  then have q: "bo_get16 ME raw 64 AND 0xF000 = 0x4000" "bo_get32 ME raw 72 \<noteq> 0" "bo_get32 ME raw 72 mod 16 = 0" using p by simp_all
  have "ucast (bo_get16 ME raw 64 AND 0xF000) = (ucast (bo_get16 ME raw 64) AND 0xF000 :: u32)"
    by (rule bit_word_eqI) (auto simp: bit_simps dest: bit_imp_le_length)
  then have "ucast (bo_get16 ME raw 64) AND 0xF000 = (0x4000 :: u32)" using q(1) by simp
  then show thesis using that [OF rd] q(2,3) d(3) by (simp add: v7_inode_decode_def Let_def zero_inode_def)
qed


section \<open>Where the probes go wrong\<close>

lemma fold_e_stops:
  assumes "x \<in> set xs" "\<And>b. f x b = Inl e" "\<And>y b e'. f y b = Inl e' \<Longrightarrow> e' = e"
  shows "fold_e f xs b = Inl e"
  using assms(1)
proof (induction xs arbitrary: b)
  case (Cons y ys)
  then show ?case using assms(2,3) by (cases "x = y") (auto split: sum.split)
qed simp

text \<open>
  The count of the in-superblock map follows the size of the volume: with more data blocks than
  the block that was read has bits behind its header, it reads past that block.
\<close>

lemma v8_count_overruns:
  assumes "form \<noteq> Freemap_bigmap" "252 \<le> length sb" "8 * (length sb - 252) < unat (fsize - isize)"
  shows "probe_v8_bitmap_count fmt sb base bsize isize fsize le form = Inl UB"
proof -
  let ?w = "(length sb - 252) div 4"
  have "?w \<in> set [0..<(unat (fsize - isize) + 31) div 32]" "length sb < 252 + 4 * ?w + 4" using assms(2,3) by auto
  then show ?thesis
    using assms(1) unfolding probe_v8_bitmap_count_def Let_def
    by (simp only: if_False, intro fold_e_stops) (auto split: if_split_asm)
qed

text \<open>
  A little-endian volume with the in-superblock map has 1 where the free list has its count; once
  the first 32 data blocks are in use the map is taken for an empty free list and the total of the
  superblock is not compared.
\<close>

lemma v8_map_taken_for_list:
  assumes "b ! 248 = 1" "b ! 249 = 0" "b ! 252 = 0" "b ! 253 = 0" "b ! 254 = 0" "b ! 255 = 0" "\<forall>n. h_alloc (fs_host fmt) n"
  shows "probe_v8_free fmt b base bsize True isz fsz = Inr (V8_hit isz fsz Freemap_list 0)"
  using assms
  by (simp add: probe_v8_free_def le_be_def bo_get16le_def bo_get32le_def probe_walk_chain_def probe_chain.simps Let_def)

text \<open>The V6 probe turns down every volume with fewer than three i-list blocks; \<^verbatim>\<open>mkfs\<close> makes them below 129 blocks.\<close>

lemma probe_v6_small:
  assumes "io_file_read fmt 512 (base + 512) = Inr sb" "bo_get16le sb 0 < 3"
  shows "probe_v6 fmt base nbytes res = Inr (0, res)"
  using assms by (simp add: probe_v6_def Let_def)


end
