(* ===== verification/Detect.thy ===== *)
theory Detect
  imports Probe
begin

text \<open>
  \<^verbatim>\<open>filsys_detect.c\<close>: every edition is probed at one offset, those that identify themselves
  (a magic word or the V8-family superblock) first, and the equivalence class of the first
  validated probe is resolved to an edition and its geometry.
\<close>

section \<open>One probe per backend\<close>

fun codec_name :: "word_codec \<Rightarrow> string" where
  "codec_name Word_rb09 = ''rb09''"
| "codec_name Word_packed18 = ''packed18''"
| "codec_name Word_rim = ''rim''"

definition ops_probe :: "backend \<Rightarrow> filsys_edition \<Rightarrow> nat \<Rightarrow> nat \<Rightarrow> nat \<Rightarrow> filsys_probe \<Rightarrow> probed" where
  "ops_probe ops fmt base bsize nbytes res =
     (case ops of
        V6fs_ops \<Rightarrow> probe_v6 fmt base nbytes res
      | V7fs_ops \<Rightarrow> v7_probe fmt base bsize nbytes
      | Bsd211fs_ops \<Rightarrow> v7_probe fmt base bsize nbytes
      | V1fs_ops \<Rightarrow> v1_probe fmt base nbytes res
      | P7fs_ops \<Rightarrow>
          (case p7_probe fmt nbytes of
             None \<Rightarrow> Inr (0, res)
           | Some (wc, bb, segs) \<Rightarrow>
               Inr (1, res\<lparr>pr_class := Some ''PDP-7'', pr_packing := Some (codec_name wc), pr_segs := of_nat segs,
                           pr_base := bb, pr_conf := PROBE_STRUCTURAL\<rparr>)))"

section \<open>Resolving an equivalence class\<close>

record filsys_detected =
  dt_edition :: edition
  dt_blocksize :: nat
  dt_freemap :: "freemap_form option"
  dt_byteorder :: "string option"
  dt_packing :: "string option"
  dt_conf :: filsys_probe_conf

fun conf_name :: "filsys_probe_conf \<Rightarrow> string" where
  "conf_name PROBE_MAGIC = ''magic''"
| "conf_name PROBE_STRUCTURAL = ''structural''"
| "conf_name PROBE_HEURISTIC = ''heuristic''"
| "conf_name PROBE_NONE = ''unknown''"

text \<open>The candidates of a class, its block size, free-map form and byte order, from the report where the class does not fix them.\<close>

definition class_row :: "string \<Rightarrow> filsys_probe \<Rightarrow> (edition list \<times> nat \<times> freemap_form option \<times> string option) option" where
  "class_row cls res =
     (let bs = pr_blocksize res; fm = pr_freemap res; bo = pr_byteorder res in
      if cls = ''v1, v2 or v3'' then Some ([FILSYS_V1], 512, fm, bo)
      else if cls = ''v4, v5, v6 or usgpg3'' then Some ([FILSYS_V6], 512, fm, bo)
      else if cls = ''v7, sysiii or sysvr1'' then Some ([FILSYS_V7, FILSYS_SYSIII], 512, fm, bo)
      else if cls = ''32V or sysiii'' then Some ([FILSYS_32V, FILSYS_SYSIII], 512, fm, bo)
      else if cls = ''Coherent'' then Some ([FILSYS_COHERENT], 512, fm, bo)
      else if cls = ''Xenix'' then Some ([FILSYS_XENIX], 1024, fm, bo)
      else if cls = ''2.9BSD'' then Some ([FILSYS_BSD29], 1024, fm, bo)
      else if cls = ''2.11BSD'' then Some ([FILSYS_BSD211], 1024, fm, bo)
      else if cls = ''sysvr2 or sysvr3'' then Some ([FILSYS_SVR2], 0, fm, None)
      else if cls = ''sysvr4'' then Some ([FILSYS_SVR4], 0, fm, None)
      else if cls = ''v9'' then Some ([FILSYS_V9], 8192, fm, bo)
      else if cls = ''v8 or v10, bs=1024'' then Some ([FILSYS_V8, FILSYS_V10], 1024, Some Freemap_list, bo)
      else if cls = ''v8 or v10, bs=4096, bitmap'' then Some ([FILSYS_V8, FILSYS_V10], 4096, Some Freemap_bitmap, bo)
      else if cls = ''v10, bs=4096, bigmap'' then Some ([FILSYS_V10], 4096, Some Freemap_bigmap, bo)
      else if cls = ''PDP-7'' then Some ([FILSYS_PDP7], 0, fm, bo)
      else None)"

text \<open>\<open>flt\<close> is the requested edition; none, or \<^verbatim>\<open>FILSYS_UNIX\<close>, asks for the first candidate.\<close>

definition resolve_class :: "string \<Rightarrow> filsys_probe \<Rightarrow> edition option \<Rightarrow> string + filsys_detected" where
  "resolve_class cls res flt =
     (case class_row cls res of
        None \<Rightarrow> Inl (if cls = ''AFS'' then ''AFS bitmap free list is not supported'' else ''unrecognised filesystem'')
      | Some (cands, bs, fm, bo) \<Rightarrow>
          (case (case flt of
                   None \<Rightarrow> Some (cands ! 0)
                 | Some e \<Rightarrow> if e = FILSYS_UNIX then Some (cands ! 0) else if e \<in> set cands then Some e else None) of
             None \<Rightarrow> Inl (''volume is '' @ cls @ '' ('' @ conf_name (pr_conf res) @ '' match), not the requested edition'')
           | Some e \<Rightarrow>
               Inr \<lparr>dt_edition = e, dt_blocksize = bs, dt_freemap = fm, dt_byteorder = bo,
                    dt_packing = (if e = FILSYS_PDP7 then pr_packing res else None), dt_conf = pr_conf res\<rparr>))"

section \<open>The order of the probes\<close>

definition edition_is_strong :: "edition \<Rightarrow> bool" where
  "edition_is_strong e = (d_sb_codec (filsys_getformat e) \<or> d_magic (filsys_getformat e) \<noteq> 0)"

definition edition_bsizes :: "edition \<Rightarrow> nat list" where
  "edition_bsizes e =
     (if \<not> d_sb_codec (filsys_getformat e) then [d_bsize (filsys_getformat e)]
      else if e = FILSYS_V9 then [8192] else [1024, 4096])"

text \<open>
  The block sizes an edition is probed with: the word-addressed one at offset 0 only, the others
  where the offset is a multiple of the block size and a block fits.
\<close>

definition probe_sizes :: "edition \<Rightarrow> nat \<Rightarrow> nat \<Rightarrow> nat list" where
  "probe_sizes e offset nbytes =
     (if e = FILSYS_PDP7 then (if offset \<noteq> 0 then [] else [0])
      else filter (\<lambda>b. offset mod b = 0 \<and> offset + b \<le> nbytes) (edition_bsizes e))"

definition probe_pass :: "bool \<Rightarrow> nat \<Rightarrow> nat \<Rightarrow> (edition \<times> nat) list" where
  "probe_pass strong offset nbytes =
     concat (map (\<lambda>(e, _). if d_ops (filsys_getformat e) = None \<or> strong \<noteq> edition_is_strong e then []
                          else map (Pair e) (probe_sizes e offset nbytes)) formats)"

fun detect_first :: "host \<Rightarrow> nat \<Rightarrow> nat \<Rightarrow> edition option \<Rightarrow> (edition \<times> nat) list \<Rightarrow> errno + (string + filsys_detected)" where
  "detect_first h offset nbytes flt [] = Inr (Inl ''no filesystem recognised at this offset'')"
| "detect_first h offset nbytes flt ((e, bsize) # tries) =
     (case ops_probe (the (d_ops (filsys_getformat e))) (zero_mount h (filsys_getformat e)) offset bsize nbytes zero_probe of
        Inl err \<Rightarrow> Inl err
      | Inr (rc, res) \<Rightarrow>
          if rc = 1 then Inr (resolve_class (the (pr_class res)) res flt)
          else detect_first h offset nbytes flt tries)"

definition filsys_detect :: "host \<Rightarrow> nat \<Rightarrow> nat \<Rightarrow> edition option \<Rightarrow> errno + (string + filsys_detected)" where
  "filsys_detect h offset nbytes flt =
     detect_first h offset nbytes flt (probe_pass True offset nbytes @ probe_pass False offset nbytes)"

section \<open>The class a validated probe names\<close>

lemma class_v6: "probe_v6 fmt base nbytes res0 = Inr (1, res) \<Longrightarrow> pr_class res = Some ''v4, v5, v6 or usgpg3''"
  unfolding probe_v6_def Let_def by (auto split: sum.split_asm if_split_asm prod.split_asm)

lemma class_v1: "v1_probe fmt base nbytes res0 = Inr (1, res) \<Longrightarrow> pr_class res = Some ''v1, v2 or v3''"
  unfolding v1_probe_def Let_def by (auto split: sum.split_asm if_split_asm)

lemma class_v7_family: "probe_v7_family fmt base bsize nbytes res0 = Inr (1, res) \<Longrightarrow> pr_class res = Some (v7_class (fs_desc fmt))"
  unfolding probe_v7_family_def Let_def by (auto split: sum.split_asm if_split_asm prod.split_asm)

lemma class_bsd29: "probe_bsd29 fmt base nbytes res0 = Inr (1, res) \<Longrightarrow> pr_class res \<in> {Some ''2.9BSD'', Some ''2.11BSD''}"
  unfolding probe_bsd29_def Let_def by (auto split: sum.split_asm if_split_asm prod.split_asm)

lemma class_xenix: "probe_xenix fmt base nbytes res0 = Inr (1, res) \<Longrightarrow> pr_class res = Some ''Xenix''"
  unfolding probe_xenix_def Let_def by (auto split: sum.split_asm if_split_asm prod.split_asm)

lemma class_sysv:
  "probe_sysv fmt base nbytes res0 = Inr (1, res) \<Longrightarrow> pr_class res \<in> {Some ''AFS'', Some ''sysvr4'', Some ''sysvr2 or sysvr3''}"
  unfolding probe_sysv_def Let_def by (auto simp: probe_sysv_class_def Let_def split: sum.split_asm if_split_asm prod.split_asm)

lemma class_v8_orders:
  "v8_orders fmt sb base bsize nbytes res0 les miss = Inr (1, res) \<Longrightarrow> \<exists>form. pr_class res = Some (v8_class bsize form)"
  by (induction fmt sb base bsize nbytes res0 les miss rule: v8_orders.induct)
    (auto split: sum.split_asm v8_try.split_asm option.split_asm)

lemma class_v8: "probe_v8 fmt base bsize nbytes res0 = Inr (1, res) \<Longrightarrow> \<exists>form. pr_class res = Some (v8_class bsize form)"
  unfolding probe_v8_def by (cases "io_file_read fmt bsize (base + bsize)") (auto simp del: v8_orders.simps One_nat_def dest: class_v8_orders)

lemmas probe_classes = class_v6 class_v1 class_v7_family class_bsd29 class_xenix class_sysv class_v8

text \<open>A validated probe names a class, so the comparison of class names has a string to read.\<close>

lemma validated_has_class:
  assumes "ops_probe ops fmt base bsize nbytes res0 = Inr (1, res)"
  shows "pr_class res \<noteq> None"
  using assms unfolding ops_probe_def v7_probe_def Let_def
  by (cases ops) (auto simp del: One_nat_def dest!: probe_classes split: option.split_asm if_split_asm)

section \<open>Where a detection comes from\<close>

lemma detect_first_from:
  assumes "detect_first h offset nbytes flt tries = Inr (Inr out)"
  shows "\<exists>e b res. (e, b) \<in> set tries \<and>
    ops_probe (the (d_ops (filsys_getformat e))) (zero_mount h (filsys_getformat e)) offset b nbytes zero_probe = Inr (1, res) \<and>
    resolve_class (the (pr_class res)) res flt = Inr out"
  using assms
proof (induction tries)
  case (Cons x tries)
  obtain e b where x: "x = (e, b)" by (cases x)
  let ?p = "ops_probe (the (d_ops (filsys_getformat e))) (zero_mount h (filsys_getformat e)) offset b nbytes zero_probe"
  obtain rc res where p: "?p = Inr (rc, res)" using Cons.prems x by (cases ?p) auto
  show ?case
  proof (cases "rc = 1")
    case True
    then have "resolve_class (the (pr_class res)) res flt = Inr out" using Cons.prems p by (simp add: x)
    then show ?thesis using p True x by (intro exI [of _ e] exI [of _ b] exI [of _ res]) simp
  next
    case False
    then have "detect_first h offset nbytes flt tries = Inr (Inr out)" using Cons.prems p by (simp add: x)
    from Cons.IH [OF this] show ?thesis by (metis list.set_intros(2))
  qed
qed simp

text \<open>The detected edition is a candidate of the class, the requested one if one is requested.\<close>

lemma resolve_class_candidate:
  assumes "resolve_class cls res flt = Inr out"
  shows "\<exists>cands bs fm bo. class_row cls res = Some (cands, bs, fm, bo) \<and> dt_edition out \<in> set cands \<and>
    (\<forall>e. flt = Some e \<longrightarrow> e \<noteq> FILSYS_UNIX \<longrightarrow> dt_edition out = e)"
proof -
  have ne: "class_row cls res = Some (cands, bs, fm, bo) \<Longrightarrow> cands \<noteq> []" for cands bs fm bo
    by (auto simp: class_row_def Let_def split: if_split_asm)
  obtain cands bs fm bo where r: "class_row cls res = Some (cands, bs, fm, bo)"
    using assms by (cases "class_row cls res") (auto simp: resolve_class_def)
  have "dt_edition out \<in> set cands \<and> (\<forall>e. flt = Some e \<longrightarrow> e \<noteq> FILSYS_UNIX \<longrightarrow> dt_edition out = e)"
    using assms ne [OF r] unfolding resolve_class_def r
    by (cases flt) (auto split: if_split_asm, metis length_greater_0_conv nth_mem, metis length_greater_0_conv nth_mem)
  then show ?thesis using r by blast
qed

lemma class_row_v7:
  assumes "class_row cls res = Some (cands, bs, fm, bo)" "e \<in> set cands" "e \<in> v7_probed"
  shows "(cls, e) \<in> {(''v7, sysiii or sysvr1'', FILSYS_V7), (''Coherent'', FILSYS_COHERENT), (''2.9BSD'', FILSYS_BSD29),
    (''2.11BSD'', FILSYS_BSD211)}"
  using assms by (auto simp: class_row_def Let_def v7_probed_def split: if_split_asm)


lemma v8_class_not_v7:
  "v8_class bsize form \<noteq> ''v7, sysiii or sysvr1''" "v8_class bsize form \<noteq> ''Coherent''"
  "v8_class bsize form \<noteq> ''2.9BSD''" "v8_class bsize form \<noteq> ''2.11BSD''"
  by (simp_all add: v8_class_def)

text \<open>A probe that names one of the four classes is the probe of a row with that superblock.\<close>

lemma probe_of_v7_class:
  assumes t: "(e, b) \<in> set (probe_pass True offset nbytes @ probe_pass False offset nbytes)"
    and p: "ops_probe (the (d_ops (filsys_getformat e))) (zero_mount h (filsys_getformat e)) offset b nbytes zero_probe = Inr (1, res)"
    and c: "pr_class res = Some cls" "(cls, e') \<in> {(''v7, sysiii or sysvr1'', FILSYS_V7), (''Coherent'', FILSYS_COHERENT),
      (''2.9BSD'', FILSYS_BSD29), (''2.11BSD'', FILSYS_BSD211)}"
  shows "e \<in> v7_probed \<and> b = d_bsize (filsys_getformat e) \<and> d_bsize (filsys_getformat e') = d_bsize (filsys_getformat e) \<and>
    d_nicfree (filsys_getformat e') = d_nicfree (filsys_getformat e)"
proof -
  have b: "e = FILSYS_PDP7 \<or> b \<in> set (edition_bsizes e)"
    using t by (auto simp: probe_pass_def probe_sizes_def split: if_split_asm prod.split_asm)
  have n: "d_ops (filsys_getformat e) \<noteq> None"
    using t by (auto simp: probe_pass_def split: if_split_asm prod.split_asm)
  have f: "fs_desc (zero_mount h d) = d" for d by (simp add: zero_mount_def)
  show ?thesis
    using p b c n
    by (cases e)
      (auto simp: ops_probe_def v7_probe_def f edition_bsizes_def v7_probed_def v7_class_def v8_class_not_v7 simp del: One_nat_def
        dest!: probe_classes split: option.split_asm)
qed


section \<open>A detected volume opens\<close>

lemma detected_validated:
  assumes det: "filsys_detect h offset nbytes flt = Inr (Inr out)" and e: "dt_edition out \<in> v7_probed"
  obtains fmt res sb where "fs_host fmt = h" "d_bo (fs_desc fmt) = ME" "\<not> d_pack4 (fs_desc fmt)"
    "d_nicfree (fs_desc fmt) = d_nicfree (filsys_getformat (dt_edition out))"
    "v7_validated fmt offset (d_bsize (filsys_getformat (dt_edition out))) nbytes res sb"
proof -
  from det [unfolded filsys_detect_def, THEN detect_first_from] obtain e b res where
    t: "(e, b) \<in> set (probe_pass True offset nbytes @ probe_pass False offset nbytes)"
    and p: "ops_probe (the (d_ops (filsys_getformat e))) (zero_mount h (filsys_getformat e)) offset b nbytes zero_probe = Inr (1, res)"
    and r: "resolve_class (the (pr_class res)) res flt = Inr out" by blast
  obtain cands bs fm bo where "class_row (the (pr_class res)) res = Some (cands, bs, fm, bo)" "dt_edition out \<in> set cands"
    using resolve_class_candidate [OF r] by blast
  note c = class_row_v7 [OF this assms(2)]
  have cl: "pr_class res = Some (the (pr_class res))" using validated_has_class [OF p] by simp
  let ?f = "zero_mount h (filsys_getformat e)"
  from probe_of_v7_class [OF t p cl c] have q: "e \<in> v7_probed" "b = d_bsize (filsys_getformat e)"
    "d_bsize (filsys_getformat (dt_edition out)) = d_bsize (filsys_getformat e)"
    "d_nicfree (filsys_getformat (dt_edition out)) = d_nicfree (filsys_getformat e)" by blast+
  have d: "fs_desc ?f = filsys_getformat e" "fs_host ?f = h" by (simp_all add: zero_mount_def)
  note rows = v7_probed_rows [OF q(1)]
  have "v7_probe ?f offset (d_bsize (fs_desc ?f)) nbytes = Inr (1, res)"
    using p rows(10) by (auto simp: ops_probe_def q(2) d(1) simp del: One_nat_def)
  from v7_probe_validated [OF q(1) d(1) this] obtain sb where "v7_validated ?f offset (d_bsize (fs_desc ?f)) nbytes res sb" by blast
  then show thesis using that [of ?f res sb] q(3,4) rows(1,2) by (simp add: d v7_plain_def)
qed

text \<open>Opening with the detected edition and no options uses its row as it is.\<close>

lemma open_arch_plain:
  assumes e: "e \<in> v7_probed" and a: "\<forall>n. h_alloc h n"
    and o: "v7fs_open (zero_mount h (filsys_getformat e)) ro (filsys_getformat e) offset = Some (Inr (), fs)"
  shows "filsys_open_arch e h (Inr ()) ro offset uid gid None None False geom no_lock szh szs lock =
    Some (open_guarded ro (if no_lock \<or> ro then Inr () else lock) \<lparr>hd_ver = e, hd_uid = uid, hd_gid = gid, hd_readonly = ro\<rparr> fs)"
proof -
  let ?d = "filsys_getformat e"
  have d: "d_magic ?d = 0" "d_ops ?d \<in> {Some V7fs_ops, Some Bsd211fs_ops}" "e \<notin> {FILSYS_V8, FILSYS_V9, FILSYS_V10}"
    using v7_probed_rows(1,10) [OF e] e by (auto simp: v7_plain_def v7_probed_def)
  then have desc: "open_desc e opened offset None None False geom = Inr ?d" for opened
    by (auto simp: open_desc_def filsys_resolve_byteorder_def filsys_arch_bo_def Let_def split: option.split)
  have fl: "filsys_fl_alloc (zero_mount h ?d) ?d = (Inr (), zero_mount h ?d)"
    using a by (simp add: filsys_fl_alloc_def zero_mount_def)
  have "ops_open (zero_mount h ?d) ro ?d offset = Some (Inr (), fs)" using o d(2) by (auto simp: ops_open_def)
  then show ?thesis using a by (simp add: filsys_open_arch_def desc fl)
qed

lemma open_arch_readonly:
  assumes e: "e \<in> v7_probed" and a: "\<forall>n. h_alloc h n"
    and o: "v7fs_open (zero_mount h (filsys_getformat e)) True (filsys_getformat e) offset = Some (Inr (), fs)"
  shows "filsys_open_arch e h (Inr ()) True offset uid gid None None False None no_lock szh szs lock =
    Some (Inr \<lparr>hd_ver = e, hd_uid = uid, hd_gid = gid, hd_readonly = True\<rparr>, fs)"
  using open_arch_plain [OF e a o] by (simp add: open_guarded_def)

end
