(* ===== verification/Fsck_Tool.thy ===== *)
theory Fsck_Tool
  imports Detect Salvage
begin

text \<open>
  The command \<^verbatim>\<open>fsck.filsys\<close> from its parsed options to its exit status: detection, geometry,
  the open of each edition, the check or a maintenance command, and the close.  Without a repair
  option, and always under \<^verbatim>\<open>-n\<close>, the image is left as it was; \<^verbatim>\<open>-r\<close> is never accepted.
\<close>

section \<open>Numbers and geometries on the command line\<close>

text \<open>
  \<^verbatim>\<open>strtoull (s, &end, 0)\<close>: the value and the rest.  White space and a sign are skipped, \<^verbatim>\<open>0x\<close>
  and \<^verbatim>\<open>0\<close> choose the base, a value too large saturates and a negative one wraps.
\<close>

definition digit_of :: "char \<Rightarrow> nat" where
  "digit_of c =
     (let n = of_char c in
      if 48 \<le> n \<and> n \<le> 57 then n - 48
      else if 97 \<le> n \<and> n \<le> 102 then n - 87
      else if 65 \<le> n \<and> n \<le> 70 then n - 55 else 16)"

definition strtoull :: "string \<Rightarrow> nat \<times> string" where
  "strtoull s =
     (let t = dropWhile (\<lambda>c. c = CHR '' '' \<or> 9 \<le> (of_char c :: nat) \<and> (of_char c :: nat) \<le> 13) s;
          neg = (take 1 t = ''-'');
          t = (if neg \<or> take 1 t = ''+'' then tl t else t);
          hex = (take 2 t \<in> {''0x'', ''0X''} \<and> 2 < length t \<and> digit_of (t ! 2) < 16);
          base = (if hex then 16 else if take 1 t = ''0'' then 8 else 10);
          t = (if hex then drop 2 t else t);
          ds = takeWhile (\<lambda>c. digit_of c < base) t;
          v = foldl (\<lambda>v c. v * base + digit_of c) 0 ds in
      if ds = [] then (0, s)
      else (if 2 ^ 64 \<le> v then 2 ^ 64 - 1 else if neg then (2 ^ 64 - v) mod 2 ^ 64 else v, drop (length ds) t))"

text \<open>The products of two 64-bit numbers of the tools.\<close>

definition mul64 :: "nat \<Rightarrow> nat \<Rightarrow> nat" where
  "mul64 a b = a * b mod 2 ^ 64"

text \<open>\<^verbatim>\<open>strtok (s, ",")\<close> until it returns NULL: the non-empty pieces.\<close>

fun pieces :: "string \<Rightarrow> string \<Rightarrow> string list" where
  "pieces acc [] = (if acc = [] then [] else [rev acc])"
| "pieces acc (c # cs) =
     (if c = CHR '','' then (if acc = [] then pieces [] cs else rev acc # pieces [] cs) else pieces (c # acc) cs)"

text \<open>The message in its buffer of 128 bytes.\<close>

definition geom_msg :: "string \<Rightarrow> string \<Rightarrow> string" where
  "geom_msg what tok = take 127 (what @ [CHR 0x20, CHR 0x27] @ tok @ [CHR 0x27])"

text \<open>
  \<open>mem\<close> says which allocations succeed.  The error is the message, or none when memory ran out;
  a byte order that could not be copied is left out.
\<close>

fun geom_tokens :: "(nat \<Rightarrow> bool) \<Rightarrow> string list \<Rightarrow> filsys_geom \<Rightarrow> string + filsys_geom" where
  "geom_tokens mem [] g = Inr g"
| "geom_tokens mem (tok # toks) g =
     (if take 10 tok = ''blocksize=''
      then (case strtoull (drop 10 tok) of (v, rest) \<Rightarrow>
        if rest \<noteq> [] then Inl (geom_msg ''bad blocksize'' (drop 10 tok))
        else geom_tokens mem toks (g\<lparr>g_blocksize := v mod 2 ^ 32\<rparr>))
      else if take 8 tok = ''freemap=''
      then (if drop 8 tok = ''list'' then geom_tokens mem toks (g\<lparr>g_freemap := Some Freemap_list\<rparr>)
            else if drop 8 tok = ''bitmap'' then geom_tokens mem toks (g\<lparr>g_freemap := Some Freemap_bitmap\<rparr>)
            else if drop 8 tok = ''bigmap'' then geom_tokens mem toks (g\<lparr>g_freemap := Some Freemap_bigmap\<rparr>)
            else Inl (geom_msg ''bad freemap'' (drop 8 tok)))
      else if take 10 tok = ''byteorder=''
      then geom_tokens mem toks (g\<lparr>g_byteorder := (if mem (length tok - 9) then Some (drop 10 tok) else None)\<rparr>)
      else Inl (geom_msg ''unknown geometry'' tok))"

definition parse_geom :: "(nat \<Rightarrow> bool) \<Rightarrow> string \<Rightarrow> filsys_geom \<Rightarrow> string option + filsys_geom" where
  "parse_geom mem spec g =
     (if \<not> mem (length spec + 1) then Inl None
      else case geom_tokens mem (pieces [] spec) g of Inl msg \<Rightarrow> Inl (Some msg) | Inr g \<Rightarrow> Inr g)"

definition no_geom :: filsys_geom where
  "no_geom = \<lparr>g_blocksize = 0, g_freemap = None, g_byteorder = None\<rparr>"

section \<open>The options\<close>

record fsck_opts =
  fk_edition :: edition
  fk_offblock :: nat
  fk_salvage :: bool
  fk_resolve :: bool
  fk_ncheck :: bool
  fk_clri :: bool
  fk_nochange :: bool
  fk_preen :: bool
  fk_force :: bool
  fk_yes :: bool
  fk_ask :: bool
  fk_force_arch :: bool
  fk_ino :: u32
  fk_packing :: "string option"
  fk_arch :: "string option"
  fk_geom_spec :: "string option"

definition fsck_defaults :: fsck_opts where
  "fsck_defaults =
     \<lparr>fk_edition = FILSYS_UNIX, fk_offblock = 0, fk_salvage = False, fk_resolve = False, fk_ncheck = False, fk_clri = False,
      fk_nochange = False, fk_preen = False, fk_force = False, fk_yes = False, fk_ask = False, fk_force_arch = False,
      fk_ino = 0, fk_packing = None, fk_arch = None, fk_geom_spec = None\<rparr>"

text \<open>
  One round of the switch over what \<^verbatim>\<open>getopt\<close> returns, with the option's argument; \<open>None\<close> is
  the exit with status 2.  The option string has \<^verbatim>\<open>r\<close>, the switch has no case for it.
\<close>

definition fsck_option :: "fsck_opts \<Rightarrow> char \<times> string \<Rightarrow> fsck_opts option" where
  "fsck_option o' x =
     (case x of (c, arg) \<Rightarrow>
        if c = CHR ''v'' then map_option (\<lambda>e. o'\<lparr>fk_edition := e\<rparr>) (filsys_edition_by_name (Some arg))
        else if c = CHR ''o'' then Some (o'\<lparr>fk_offblock := fst (strtoull arg)\<rparr>)
        else if c = CHR ''s'' then Some (o'\<lparr>fk_salvage := True\<rparr>)
        else if c = CHR ''p'' then Some (o'\<lparr>fk_preen := True\<rparr>)
        else if c = CHR ''f'' then Some (o'\<lparr>fk_force := True\<rparr>)
        else if c = CHR ''i'' then Some (o'\<lparr>fk_ask := True\<rparr>)
        else if c = CHR ''n'' then Some (o'\<lparr>fk_nochange := True\<rparr>)
        else if c = CHR ''y'' then Some (o'\<lparr>fk_yes := True\<rparr>)
        else if c = CHR ''N'' then Some (o'\<lparr>fk_ncheck := True, fk_ino := of_nat (fst (strtoull arg))\<rparr>)
        else if c = CHR ''C'' then Some (o'\<lparr>fk_clri := True, fk_ino := of_nat (fst (strtoull arg))\<rparr>)
        else if c = CHR ''P'' then Some (o'\<lparr>fk_packing := Some arg\<rparr>)
        else if c = CHR ''a'' then Some (o'\<lparr>fk_arch := Some arg\<rparr>)
        else if c = CHR ''F'' then Some (o'\<lparr>fk_force_arch := True\<rparr>)
        else if c = CHR ''g'' then Some (o'\<lparr>fk_geom_spec := Some arg\<rparr>)
        else None)"

fun fsck_options :: "fsck_opts \<Rightarrow> (char \<times> string) list \<Rightarrow> fsck_opts option" where
  "fsck_options o' [] = Some o'"
| "fsck_options o' (x # xs) = (case fsck_option o' x of None \<Rightarrow> None | Some o' \<Rightarrow> fsck_options o' xs)"

definition fsck_mode :: "fsck_opts \<Rightarrow> ck_mode" where
  "fsck_mode o' = \<lparr>ck_salvage = fk_salvage o', ck_preen = fk_preen o', ck_force = fk_force o', ck_yes = fk_yes o', ck_ask = fk_ask o'\<rparr>"

definition fsck_repairs :: "fsck_opts \<Rightarrow> bool" where
  "fsck_repairs o' \<longleftrightarrow> fk_salvage o' \<or> fk_resolve o' \<or> fk_clri o' \<or> fk_preen o' \<or> fk_yes o' \<or> fk_ask o'"

section \<open>Running it\<close>

text \<open>The exit status, or undefined behaviour, and the host that is left; \<open>None\<close> does not return.\<close>

type_synonym tool_run = "((errno + nat) \<times> host) option"

text \<open>
  \<^verbatim>\<open>err\<close>: an errno, or whether it is zero.  \<^verbatim>\<open>filsys_ncheck\<close> prints the names of the
  inode and returns zero.
\<close>

definition fsck_command :: "fsck_opts \<Rightarrow> (u32 \<Rightarrow> bool) \<Rightarrow> filsys_edition \<Rightarrow> ((errno + bool) \<times> filsys_edition) option" where
  "fsck_command o' ask fs =
     (if fk_ncheck o' \<and> fk_edition o' \<noteq> FILSYS_BSD211 then Some (Inr True, fs)
      else if fk_clri o' \<and> fk_edition o' \<noteq> FILSYS_BSD211
      then (case filsys_clri fs (fk_ino o') of (Inl e, fs) \<Rightarrow> Some (Inl e, fs) | (Inr _, fs) \<Rightarrow> Some (Inr True, fs))
      else if fk_resolve o' \<and> fk_edition o' \<noteq> FILSYS_BSD211 then Some (filsys_resolve_dups fs)
      else map_option (\<lambda>(r, _, fs). (r, fs)) (filsys_check_common (fsck_mode o') ask fs))"

definition fsck_close :: "errno + bool \<Rightarrow> filsys_edition \<Rightarrow> (errno + nat) \<times> host" where
  "fsck_close err fs =
     (case ops_close fs of (cl, fs') \<Rightarrow>
        (if err = Inl UB then Inl UB else if err = Inr True \<and> cl = Inr () then Inr 0 else Inr 1, fs_host fs'))"

text \<open>Open with the given descriptor, run the command, close.  \<open>opn\<close> is what \<^verbatim>\<open>open\<close> of the path returns, for reading or for both.\<close>

definition fsck_volume :: "(bool \<Rightarrow> errno + unit) \<Rightarrow> (u32 \<Rightarrow> bool) \<Rightarrow> fsck_opts \<Rightarrow> filsys_edition \<Rightarrow> nat \<Rightarrow> tool_run" where
  "fsck_volume opn ask o' fs offset =
     (let ro = \<not> fsck_repairs o' in
      case opn ro of
        Inl _ \<Rightarrow> Some (Inr 1, fs_host fs)
      | Inr _ \<Rightarrow>
          (case ops_open fs ro (fs_desc fs) offset of
             None \<Rightarrow> None
           | Some (Inl e, fs) \<Rightarrow> Some (if e = UB then Inl UB else Inr 1, fs_host fs)
           | Some (Inr _, fs) \<Rightarrow>
               (case fsck_command o' ask fs of
                  None \<Rightarrow> None
                | Some (err, fs) \<Rightarrow> Some (fsck_close err fs))))"

text \<open>
  The edition: probed when none is named and for V10, only warned about otherwise.  \<open>sized\<close> says
  whether the size of the image can be had.
\<close>

definition fsck_detect :: "host \<Rightarrow> (bool \<Rightarrow> errno + unit) \<Rightarrow> bool \<Rightarrow> fsck_opts \<Rightarrow> (errno + nat) + (edition \<times> filsys_geom option)" where
  "fsck_detect h opn sized o' =
     (let found = filsys_detect h (mul64 (fk_offblock o') 512) (h_len h) (Some (fk_edition o')) in
      if fk_edition o' = FILSYS_UNIX \<or> fk_edition o' = FILSYS_V10
      then if opn True \<noteq> Inr () \<or> \<not> sized then Inl (Inr 1)
        else (case found of
                Inl e \<Rightarrow> Inl (Inl e)
              | Inr (Inl why) \<Rightarrow> Inl (Inr 1)
              | Inr (Inr det) \<Rightarrow>
                  Inr (dt_edition det,
                    if dt_edition det \<in> {FILSYS_V8, FILSYS_V9, FILSYS_V10}
                    then Some \<lparr>g_blocksize = dt_blocksize det, g_freemap = dt_freemap det,
                      g_byteorder = (case dt_byteorder det of
                         None \<Rightarrow> None | Some s \<Rightarrow> if h_alloc h (length s + 1) then Some s else None)\<rparr>
                    else None))
      else if fk_force_arch o' \<or> opn True \<noteq> Inr () \<or> \<not> sized then Inr (fk_edition o', None)
      else (case found of Inl e \<Rightarrow> Inl (Inl e) | Inr _ \<Rightarrow> Inr (fk_edition o', None)))"

text \<open>The geometry given, else the one detected.\<close>

definition fsck_geom :: "host \<Rightarrow> fsck_opts \<Rightarrow> filsys_geom option \<Rightarrow> errno + filsys_desc" where
  "fsck_geom h o' det =
     (let e = fk_edition o'; d = filsys_getformat e in
      case fk_geom_spec o' of
        Some spec \<Rightarrow> (case parse_geom (h_alloc h) spec no_geom of Inl _ \<Rightarrow> Inl EINVAL | Inr g \<Rightarrow> filsys_apply_geom d e g)
      | None \<Rightarrow> (case det of None \<Rightarrow> Inr d | Some g \<Rightarrow> filsys_apply_geom d e g))"

definition fsck_dispatch :: "host \<Rightarrow> (bool \<Rightarrow> errno + unit) \<Rightarrow> (u32 \<Rightarrow> bool) \<Rightarrow> fsck_opts \<Rightarrow> filsys_geom option \<Rightarrow> tool_run" where
  "fsck_dispatch h opn ask o' det =
     (let e = fk_edition o'; d = filsys_getformat e; off = fk_offblock o' in
      if e = FILSYS_V6
      then (case filsys_fl_alloc (zero_mount h d) d of
              (Inl _, _) \<Rightarrow> Some (Inr 1, h)
            | (Inr _, fs) \<Rightarrow> fsck_volume opn ask o' fs (mul64 off (d_bsize d)))
      else if e = FILSYS_V1 then fsck_volume opn ask o' (zero_mount h d) (mul64 off 512)
      else if e = FILSYS_PDP7
      then (case (case fk_packing o' of None \<Rightarrow> d_word d | Some p \<Rightarrow> filsys_word_codec_by_name p) of
              None \<Rightarrow> Some (Inr 2, h)
            | Some wc \<Rightarrow> fsck_volume opn ask o' (zero_mount h (d\<lparr>d_word := Some wc\<rparr>)) (mul64 off (block_bytes wc)))
      else case fsck_geom h o' det of
        Inl _ \<Rightarrow> Some (Inr 2, h)
      | Inr d \<Rightarrow>
          (case filsys_resolve_byteorder d (case opn True of Inl e \<Rightarrow> Inl e | Inr _ \<Rightarrow> Inr h) (mul64 off (d_bsize d))
                  (fk_arch o') (fk_force_arch o') of
             Inl _ \<Rightarrow> Some (Inr 2, h)
           | Inr d \<Rightarrow>
               (case filsys_fl_alloc (zero_mount h d) d of
                  (Inl _, _) \<Rightarrow> Some (Inr 2, h)
                | (Inr _, fs) \<Rightarrow> fsck_volume opn ask o' fs (mul64 off (d_bsize d)))))"

definition fsck_main ::
    "host \<Rightarrow> (bool \<Rightarrow> errno + unit) \<Rightarrow> bool \<Rightarrow> (u32 \<Rightarrow> bool) \<Rightarrow> (char \<times> string) list \<Rightarrow> bool \<Rightarrow> tool_run" where
  "fsck_main h opn sized ask args operand =
     (case fsck_options fsck_defaults args of
        None \<Rightarrow> Some (Inr 2, h)
      | Some o' \<Rightarrow>
          if \<not> operand then Some (Inr 2, h)
          else case fsck_detect h opn sized o' of
            Inl r \<Rightarrow> Some (r, h)
          | Inr (e, det) \<Rightarrow>
              if fk_nochange o' \<and> fsck_repairs o' then Some (Inr 2, h)
              else fsck_dispatch h opn ask (o'\<lparr>fk_edition := e\<rparr>) det)"

section \<open>Looking does not touch\<close>

lemma fl_alloc_host: "filsys_fl_alloc fs d = (r, fs') \<Longrightarrow> fs_host fs' = fs_host fs \<and> fs_desc fs' = fs_desc fs"
  by (auto simp: filsys_fl_alloc_def split: if_splits)

lemma zero_mount_host [simp]: "fs_host (zero_mount h d) = h" "fs_desc (zero_mount h d) = d"
  by (simp_all add: zero_mount_def)

text \<open>Opening reads the image and remembers how it was opened.\<close>

definition looks :: "filsys_edition \<Rightarrow> filsys_edition \<Rightarrow> bool" where
  "looks fs fs' \<longleftrightarrow> fs_host fs' = fs_host fs \<and> fs_readonly fs' = fs_readonly fs"

lemma looks_decode:
  "looks fs (snd (open_decode fs sb))" "\<And>r fs'. open_totals fs sb = Some (r, fs') \<Longrightarrow> looks fs fs'"
  "looks fs (snd (open_finish fs sb))" "\<And>fs'. open_dyn_bsize fs = Inr fs' \<Longrightarrow> looks fs fs'"
proof -
  have v: "looks fs (snd (v8_sb_decode fs sb))" for fs sb by (simp add: looks_def v8_sb_decode_def Let_def)
  have l: "looks fs (snd (v8_bitmap_load fs sb))" for fs sb
    by (simp add: looks_def v8_bitmap_load_def v8_map_geometry_def Let_def split: sum.split)
  have k: "looks fs (snd (try_as e m f))" if "looks fs (snd m)" "\<And>x s. looks s (snd (f x s))"
    for e fs and m :: "unit op" and f :: "unit \<Rightarrow> filsys_edition \<Rightarrow> unit op"
    using that by (cases m; cases "fst m") (auto simp: looks_def)
  show "looks fs (snd (open_decode fs sb))"
  proof (cases "d_sb_codec (fs_desc fs)")
    case True
    have "looks s (snd (if d_freemap (fs_desc s) \<noteq> Freemap_list then try_as EIO (v8_bitmap_load s sb) (\<lambda>_ fs. (Inr (), fs)) else (Inr (), s)))" for s
      using k [OF l [of s sb], of "\<lambda>_ fs. (Inr (), fs)" EIO] by (simp add: looks_def)
    then show ?thesis using True by (auto simp: open_decode_def intro!: k v)
  qed (simp add: open_decode_def v6_super_decode_def v7_super_decode_def looks_def Let_def)
  show "looks fs fs'" if "open_totals fs sb = Some (r, fs')" for r fs'
    using that by (auto simp: open_totals_def set_totals_def v7_totals_decode_def looks_def Let_def split: if_splits option.splits sum.splits)
  show "looks fs (snd (open_finish fs sb))"
    by (simp add: open_finish_def v7_interleave_decode_def looks_def Let_def)
  show "looks fs fs'" if "open_dyn_bsize fs = Inr fs'" for fs'
    using that by (auto simp: open_dyn_bsize_def looks_def Let_def split: if_splits sum.splits)
qed

lemma v7_open_host:
  assumes "v7fs_open fs ro d offset = Some (r, fs')"
  shows "fs_host fs' = fs_host fs \<and> fs_readonly fs' = ro"
proof -
  let ?fs = "fs\<lparr>fs_desc := d, fs_readonly := ro, fs_base := offset\<rparr>"
  have "looks ?fs fs'"
  proof (cases "open_dyn_bsize ?fs")
    case (Inr fs1)
    note l1 = looks_decode(4) [OF Inr]
    show ?thesis
    proof (cases "super_read fs1")
      case (Inl e)
      then show ?thesis using assms Inr l1 by (auto simp: v7fs_open_def Let_def)
    next
      case sb: (Inr sb)
      obtain r2 fs2 where d: "open_decode fs1 sb = (r2, fs2)" by fastforce
      then have l2: "looks fs1 fs2" using looks_decode(1) [of fs1 sb] by simp
      have "looks fs2 fs'" if "open_totals fs2 sb = Some (r3, fs3)" "(case (r3, fs3) of (Inl e, fs) \<Rightarrow> (Inl e, fs) | (Inr _, fs) \<Rightarrow> open_finish fs sb) = (r, fs')" for r3 fs3
        using that looks_decode(2) [OF that(1)] looks_decode(3) [of fs3 sb] by (cases r3) (auto simp: looks_def)
      then show ?thesis using assms Inr sb d l1 l2
        by (auto simp: v7fs_open_def Let_def looks_def split: sum.splits if_splits option.splits)
    qed
  qed (use assms in \<open>auto simp: v7fs_open_def Let_def looks_def\<close>)
  then show ?thesis by (simp add: looks_def)
qed

lemma ops_open_host:
  assumes "ops_open fs ro d offset = Some (r, fs')"
  shows "fs_host fs' = fs_host fs \<and> (r = Inr () \<longrightarrow> fs_readonly fs' = ro)"
proof -
  have "fs_host (snd (v1fs_open fs ro d offset)) = fs_host fs \<and> fs_readonly (snd (v1fs_open fs ro d offset)) = ro"
    by (simp add: v1fs_open_def Let_def split: sum.split)
  moreover have "fs_host (snd (p7fs_open fs ro d offset)) = fs_host fs \<and> fs_readonly (snd (p7fs_open fs ro d offset)) = ro"
    by (simp add: p7fs_open_def Let_def split: sum.split)
  ultimately show ?thesis using assms v7_open_host [of fs ro d offset] by (auto simp: ops_open_def split: option.splits backend.splits)
qed

lemma close_readonly: "fs_readonly fs \<Longrightarrow> fs_host (snd (ops_close fs)) = fs_host fs"
  by (simp add: ops_close_def v7fs_close_def v1fs_close_def p7fs_close_def split: option.split backend.split)

lemma fsck_volume_looks:
  assumes "\<not> fsck_repairs o'" "fsck_volume opn ask o' fs offset = Some (r, h')"
  shows "h' = fs_host fs"
proof -
  have m: "reports_only (fsck_mode o')" "\<not> fk_clri o'" "\<not> fk_resolve o'"
    using assms(1) by (auto simp: fsck_repairs_def reports_only_def fsck_mode_def)
  have c: "err_fs = (err, fs1)" if "fsck_command o' ask fs1 = Some err_fs" "fst err_fs = err" for err_fs err fs1
    using that m check_reports_unchanged [OF m(1), of ask fs1] by (auto simp: fsck_command_def split: if_splits)
  have "fs_host fs1 = fs_host fs \<and> fs_readonly fs1" if "ops_open fs True (fs_desc fs) offset = Some (Inr (), fs1)" for fs1
    using ops_open_host [OF that] by simp
  then show ?thesis
    using assms ops_open_host [of fs True "fs_desc fs" offset]
    by (auto simp: fsck_volume_def Let_def fsck_close_def close_readonly dest!: c split: sum.splits option.splits prod.splits if_splits)
      (metis close_readonly snd_conv)+
qed

lemma fsck_dispatch_looks:
  assumes "\<not> fsck_repairs o'" "fsck_dispatch h opn ask o' det = Some (r, h')"
  shows "h' = h"
proof -
  note v = fsck_volume_looks [OF assms(1)]
  have "fs_host fs = h" if "filsys_fl_alloc (zero_mount h d) d' = (x, fs)" for d d' x fs
    using fl_alloc_host [OF that] by simp
  then show ?thesis
    using assms(2) by (auto simp: fsck_dispatch_def Let_def dest!: v split: if_splits sum.splits option.splits prod.splits)
qed

text \<open>The flags are the options given.\<close>

definition repair_opts :: "char set" where
  "repair_opts = {CHR ''s'', CHR ''p'', CHR ''i'', CHR ''y'', CHR ''C''}"

lemma fsck_option_flags:
  assumes "fsck_option o' x = Some o''"
  shows "fk_nochange o'' \<longleftrightarrow> fk_nochange o' \<or> fst x = CHR ''n''"
    "fsck_repairs o'' \<longleftrightarrow> fsck_repairs o' \<or> fst x \<in> repair_opts"
    "fk_resolve o'' = fk_resolve o'" "fst x \<noteq> CHR ''r''"
  using assms by (auto simp: fsck_option_def fsck_repairs_def repair_opts_def split: prod.splits if_splits)

lemma fsck_options_flags:
  assumes "fsck_options o' xs = Some o''"
  shows "(fk_nochange o'' \<longleftrightarrow> fk_nochange o' \<or> CHR ''n'' \<in> fst ` set xs) \<and>
    (fsck_repairs o'' \<longleftrightarrow> fsck_repairs o' \<or> fst ` set xs \<inter> repair_opts \<noteq> {}) \<and>
    fk_resolve o'' = fk_resolve o' \<and> CHR ''r'' \<notin> fst ` set xs"
  using assms
proof (induction xs arbitrary: o')
  case (Cons x xs)
  obtain o1 where o1: "fsck_option o' x = Some o1" "fsck_options o1 xs = Some o''" using Cons.prems by (auto split: option.splits)
  show ?case using Cons.IH [OF o1(2)] fsck_option_flags [OF o1(1)] by auto
qed simp

lemma fsck_main_looks:
  assumes "CHR ''n'' \<in> fst ` set args \<or> fst ` set args \<inter> repair_opts = {}"
    and "fsck_main h opn sized ask args operand = Some (r, h')"
  shows "h' = h"
proof (cases "fsck_options fsck_defaults args")
  case (Some o')
  have "\<not> fsck_repairs fsck_defaults" "\<not> fk_nochange fsck_defaults" by (simp_all add: fsck_repairs_def fsck_defaults_def)
  then have n: "fk_nochange o' \<or> \<not> fsck_repairs o'" using fsck_options_flags [OF Some] assms(1) by auto
  have e: "fsck_repairs (o'\<lparr>fk_edition := e\<rparr>) = fsck_repairs o'" for e by (simp add: fsck_repairs_def)
  show ?thesis
  proof (cases "operand \<and> \<not> fsck_repairs o' \<and> (\<exists>e det. fsck_detect h opn sized o' = Inr (e, det))")
    case True
    then obtain e det where "fsck_dispatch h opn ask (o'\<lparr>fk_edition := e\<rparr>) det = Some (r, h')"
      using assms(2) Some by (auto simp: fsck_main_def)
    then show ?thesis using True fsck_dispatch_looks e by blast
  next
    case False
    then show ?thesis using assms(2) n Some by (auto simp: fsck_main_def split: sum.splits if_splits)
  qed
qed (use assms(2) in \<open>simp add: fsck_main_def\<close>)

text \<open>\<^verbatim>\<open>-r\<close>, documented as the repair of duplicate blocks, ends in the usage message: the command never resolves duplicates.\<close>

lemma fsck_r_refused:
  assumes "CHR ''r'' \<in> fst ` set args"
  shows "fsck_main h opn sized ask args operand = Some (Inr 2, h)"
proof -
  have "fsck_options fsck_defaults args = None" using fsck_options_flags assms by (metis option.exhaust)
  then show ?thesis by (simp add: fsck_main_def)
qed

text \<open>Status 0 of a check means that the volume was opened and the check found nothing.\<close>

lemma check_true_clean:
  assumes "reports_only m" "filsys_check_common m ask fs = Some (Inr True, rep, fs')"
  shows "ck_errors rep = 0"
  using assms unfolding filsys_check_common_def check_finish_def reports_only_def Let_def
  by (auto split: if_split_asm prod.split_asm sum.split_asm)

lemma fsck_clean_exit:
  assumes "\<not> fsck_repairs o'" "\<not> fk_ncheck o'" "fsck_volume opn ask o' fs offset = Some (Inr 0, h')"
  obtains fs1 rep where "ops_open fs True (fs_desc fs) offset = Some (Inr (), fs1)"
    "filsys_check_common (fsck_mode o') ask fs1 = Some (Inr True, rep, fs1)" "ck_errors rep = 0"
proof -
  have m: "reports_only (fsck_mode o')" "\<not> fk_clri o'" "\<not> fk_resolve o'"
    using assms(1) by (auto simp: fsck_repairs_def reports_only_def fsck_mode_def)
  obtain fs1 where o1: "ops_open fs True (fs_desc fs) offset = Some (Inr (), fs1)"
    using assms(1,3) by (auto simp: fsck_volume_def Let_def split: sum.splits option.splits prod.splits if_splits)
  obtain r rep where c: "filsys_check_common (fsck_mode o') ask fs1 = Some (r, rep, fs1)"
    using check_reports_unchanged [OF m(1)] by blast
  have "r = Inr True"
    using assms o1 c m by (auto simp: fsck_volume_def Let_def fsck_command_def fsck_close_def split: sum.splits if_splits prod.splits)
  then show thesis using that o1 c check_true_clean [OF m(1)] by blast
qed

end
