(* ===== verification/Mount_Tool.thy ===== *)
theory Mount_Tool
  imports Fsck_Tool
begin

text \<open>
  The command \<^verbatim>\<open>mount.filsys\<close> up to the FUSE loop, which is a parameter: the mount options, the
  detection in front of the open, the open itself and the check of \<^verbatim>\<open>-c\<close>.  An image is mounted
  for writing without \<^verbatim>\<open>-F\<close> only as an edition the detection found in it.
\<close>

section \<open>The options\<close>

record mt_opts =
  mt_ver :: edition
  mt_readonly :: bool
  mt_foreground :: bool
  mt_debug :: bool
  mt_check :: bool
  mt_force :: bool
  mt_no_lock :: bool
  mt_offset :: nat
  mt_uid :: int
  mt_gid :: int
  mt_packing :: "string option"
  mt_arch :: "string option"
  mt_geom :: filsys_geom
  mt_fuse_opts :: string

definition mt_defaults :: mt_opts where
  "mt_defaults =
     \<lparr>mt_ver = FILSYS_UNIX, mt_readonly = False, mt_foreground = False, mt_debug = False, mt_check = False, mt_force = False,
      mt_no_lock = False, mt_offset = 0, mt_uid = -1, mt_gid = -1, mt_packing = None, mt_arch = None, mt_geom = no_geom,
      mt_fuse_opts = []\<rparr>"

text \<open>\<^verbatim>\<open>atoi\<close> for the values it is defined for.\<close>

definition atoi :: "string \<Rightarrow> int" where
  "atoi s =
     (let t = dropWhile (\<lambda>c. c = CHR '' '' \<or> 9 \<le> (of_char c :: nat) \<and> (of_char c :: nat) \<le> 13) s;
          neg = (take 1 t = ''-'');
          t = (if neg \<or> take 1 t = ''+'' then tl t else t);
          v = foldl (\<lambda>v c. v * 10 + int (digit_of c)) 0 (takeWhile (\<lambda>c. digit_of c < 10) t) in
      if neg then - v else v)"

definition dup_str :: "(nat \<Rightarrow> bool) \<Rightarrow> string \<Rightarrow> string option" where
  "dup_str mem s = (if mem (length s + 1) then Some s else None)"

text \<open>The options for FUSE in their buffer of 512 bytes.\<close>

definition fuse_add :: "string \<Rightarrow> string \<Rightarrow> string" where
  "fuse_add opts tok = take 511 ((if opts = [] then [] else take 511 (opts @ '','')) @ tok)"

text \<open>One piece of an \<^verbatim>\<open>-o\<close> argument; \<open>None\<close> is bad.\<close>

definition mount_token :: "(nat \<Rightarrow> bool) \<Rightarrow> mt_opts \<Rightarrow> string \<Rightarrow> mt_opts option" where
  "mount_token mem o' tok =
     (let g = mt_geom o' in
      if take 7 tok = ''offset=''
      then (case strtoull (drop 7 tok) of (v, rest) \<Rightarrow> if rest \<noteq> [] then None else Some (o'\<lparr>mt_offset := v\<rparr>))
      else if take 8 tok = ''version='' then map_option (\<lambda>e. o'\<lparr>mt_ver := e\<rparr>) (filsys_edition_by_name (Some (drop 8 tok)))
      else if take 4 tok = ''uid='' then Some (o'\<lparr>mt_uid := atoi (drop 4 tok)\<rparr>)
      else if take 4 tok = ''gid='' then Some (o'\<lparr>mt_gid := atoi (drop 4 tok)\<rparr>)
      else if take 8 tok = ''packing='' then Some (o'\<lparr>mt_packing := dup_str mem (drop 8 tok)\<rparr>)
      else if take 5 tok = ''arch='' then Some (o'\<lparr>mt_arch := dup_str mem (drop 5 tok)\<rparr>)
      else if take 10 tok = ''blocksize=''
      then (case strtoull (drop 10 tok) of (v, rest) \<Rightarrow>
              if rest \<noteq> [] then None else Some (o'\<lparr>mt_geom := g\<lparr>g_blocksize := v mod 2 ^ 32\<rparr>\<rparr>))
      else if take 8 tok = ''freemap=''
      then (if drop 8 tok = ''list'' then Some (o'\<lparr>mt_geom := g\<lparr>g_freemap := Some Freemap_list\<rparr>\<rparr>)
            else if drop 8 tok = ''bitmap'' then Some (o'\<lparr>mt_geom := g\<lparr>g_freemap := Some Freemap_bitmap\<rparr>\<rparr>)
            else None)
      else if take 7 tok = ''bitmap=''
      then (if drop 7 tok = ''super'' then Some (o'\<lparr>mt_geom := g\<lparr>g_freemap := Some Freemap_bitmap\<rparr>\<rparr>)
            else if drop 7 tok = ''blocks'' then Some (o'\<lparr>mt_geom := g\<lparr>g_freemap := Some Freemap_bigmap\<rparr>\<rparr>)
            else None)
      else if take 10 tok = ''byteorder='' then Some (o'\<lparr>mt_geom := g\<lparr>g_byteorder := dup_str mem (drop 10 tok)\<rparr>\<rparr>)
      else if tok = ''no_lock'' then Some (o'\<lparr>mt_no_lock := True\<rparr>)
      else Some (o'\<lparr>mt_fuse_opts := fuse_add (mt_fuse_opts o') tok\<rparr>))"

fun mount_tokens :: "(nat \<Rightarrow> bool) \<Rightarrow> mt_opts \<Rightarrow> string list \<Rightarrow> mt_opts option" where
  "mount_tokens mem o' [] = Some o'"
| "mount_tokens mem o' (t # ts) = (case mount_token mem o' t of None \<Rightarrow> None | Some o' \<Rightarrow> mount_tokens mem o' ts)"

text \<open>The result of the parsing: the exit status, or undefined behaviour when an argument cannot be copied.\<close>

definition mount_option :: "(nat \<Rightarrow> bool) \<Rightarrow> mt_opts \<Rightarrow> char \<times> string \<Rightarrow> (errno + nat) + mt_opts" where
  "mount_option mem o' x =
     (case x of (c, arg) \<Rightarrow>
        if c = CHR ''v''
        then (case filsys_edition_by_name (Some arg) of None \<Rightarrow> Inl (Inr 2) | Some e \<Rightarrow> Inr (o'\<lparr>mt_ver := e\<rparr>))
        else if c = CHR ''o''
        then if dup_str mem arg = None then Inl (Inl UB)
             else (case mount_tokens mem o' (pieces [] arg) of None \<Rightarrow> Inl (Inr 2) | Some o' \<Rightarrow> Inr o')
        else if c = CHR ''r'' then Inr (o'\<lparr>mt_readonly := True\<rparr>)
        else if c = CHR ''f'' then Inr (o'\<lparr>mt_foreground := True\<rparr>)
        else if c = CHR ''d'' then Inr (o'\<lparr>mt_debug := True\<rparr>)
        else if c = CHR ''c'' then Inr (o'\<lparr>mt_check := True\<rparr>)
        else if c = CHR ''F'' then Inr (o'\<lparr>mt_force := True\<rparr>)
        else Inl (Inr 2))"

fun mount_options :: "(nat \<Rightarrow> bool) \<Rightarrow> mt_opts \<Rightarrow> (char \<times> string) list \<Rightarrow> (errno + nat) + mt_opts" where
  "mount_options mem o' [] = Inr o'"
| "mount_options mem o' (x # xs) = (case mount_option mem o' x of Inl r \<Rightarrow> Inl r | Inr o' \<Rightarrow> mount_options mem o' xs)"

section \<open>Detection and open\<close>

text \<open>
  Without an edition, and for V10, the detection decides and fills in what the options leave
  open; otherwise it has to agree with the edition named before a mount for writing.
\<close>

definition mount_fill :: "host \<Rightarrow> filsys_detected \<Rightarrow> mt_opts \<Rightarrow> mt_opts" where
  "mount_fill h det o' =
     (let g = mt_geom o' in
      o'\<lparr>mt_ver := dt_edition det,
         mt_geom := \<lparr>g_blocksize = (if dt_blocksize det \<noteq> 0 \<and> g_blocksize g = 0 then dt_blocksize det else g_blocksize g),
           g_freemap = (if dt_freemap det \<noteq> None \<and> g_freemap g = None then dt_freemap det else g_freemap g),
           g_byteorder = (if dt_byteorder det \<noteq> None \<and> g_byteorder g = None
                          then dup_str (h_alloc h) (the (dt_byteorder det)) else g_byteorder g)\<rparr>,
         mt_packing := (if dt_packing det \<noteq> None \<and> mt_packing o' = None
                        then dup_str (h_alloc h) (the (dt_packing det)) else mt_packing o')\<rparr>)"

definition mount_detect :: "host \<Rightarrow> (bool \<Rightarrow> errno + unit) \<Rightarrow> bool \<Rightarrow> mt_opts \<Rightarrow> (errno + nat) + mt_opts" where
  "mount_detect h opn sized o' =
     (let found = filsys_detect h (mt_offset o') (h_len h) (Some (mt_ver o')) in
      if mt_ver o' \<noteq> FILSYS_UNIX \<and> mt_ver o' \<noteq> FILSYS_V10 \<and> mt_force o' then Inr o'
      else if opn True \<noteq> Inr () \<or> \<not> sized then Inl (Inr 1)
      else case found of
        Inl e \<Rightarrow> Inl (Inl e)
      | Inr (Inl why) \<Rightarrow>
          if mt_ver o' = FILSYS_UNIX \<or> mt_ver o' = FILSYS_V10 \<or> \<not> (mt_readonly o' \<or> mt_check o') then Inl (Inr 1) else Inr o'
      | Inr (Inr det) \<Rightarrow>
          if mt_ver o' \<noteq> FILSYS_UNIX \<and> mt_ver o' \<noteq> FILSYS_V10 then Inr o'
          else Inr (mount_fill h det o'))"

text \<open>The process: its ids, what the lock says, the sizes of the two allocations, and the FUSE loop with its exit status.\<close>

record mt_env =
  nv_uid :: u32
  nv_gid :: u32
  nv_lock :: "errno + unit"
  nv_szh :: nat
  nv_szs :: nat
  nv_fuse_run :: "filsys \<Rightarrow> mt_opts \<Rightarrow> filsys_edition \<Rightarrow> nat \<times> filsys_edition"

text \<open>\<^verbatim>\<open>filsys_check\<close> on the handle, through the table of operations: a report, without repairs.\<close>

definition filsys_check_op :: "filsys_edition \<Rightarrow> check_outcome option" where
  "filsys_check_op fs =
     filsys_check_common \<lparr>ck_salvage = False, ck_preen = False, ck_force = False, ck_yes = False, ck_ask = False\<rparr> (\<lambda>_. False) fs"

definition mount_open :: "mt_env \<Rightarrow> host \<Rightarrow> (bool \<Rightarrow> errno + unit) \<Rightarrow> mt_opts \<Rightarrow> (filsys op) option" where
  "mount_open env h opn o' =
     (let ro = mt_readonly o' \<or> mt_check o' in
      filsys_open_arch (mt_ver o') h (opn ro) ro (mt_offset o')
        (if 0 \<le> mt_uid o' then of_int (mt_uid o') else nv_uid env) (if 0 \<le> mt_gid o' then of_int (mt_gid o') else nv_gid env)
        (mt_packing o') (mt_arch o') (mt_force o') (Some (mt_geom o')) (mt_no_lock o') (nv_szh env) (nv_szs env) (nv_lock env))"

definition mount_run :: "mt_env \<Rightarrow> mt_opts \<Rightarrow> filsys \<Rightarrow> filsys_edition \<Rightarrow> tool_run" where
  "mount_run env o' hnd fs =
     (if mt_check o'
      then (case filsys_check_op fs of
              None \<Rightarrow> None
            | Some (crc, _, fs) \<Rightarrow>
                (case filsys_close hnd fs of (cl, fs) \<Rightarrow>
                   Some (if crc = Inl UB then Inl UB else if crc = Inr True \<and> cl = Inr () then Inr 0 else Inr 1, fs_host fs)))
      else let fo = (if mt_readonly o' then fuse_add (mt_fuse_opts o') ''ro'' else mt_fuse_opts o');
               o' = o'\<lparr>mt_fuse_opts := fuse_add fo ''default_permissions''\<rparr> in
        case nv_fuse_run env hnd o' fs of (rc, fs) \<Rightarrow>
          (case filsys_close hnd fs of (cl, fs) \<Rightarrow> Some (Inr (if cl \<noteq> Inr () \<and> rc = 0 then 1 else rc), fs_host fs)))"

definition mount_main :: "mt_env \<Rightarrow> host \<Rightarrow> (bool \<Rightarrow> errno + unit) \<Rightarrow> bool \<Rightarrow> (char \<times> string) list \<Rightarrow> nat \<Rightarrow> tool_run" where
  "mount_main env h opn sized args operands =
     (case mount_options (h_alloc h) mt_defaults args of
        Inl r \<Rightarrow> Some (r, h)
      | Inr o' \<Rightarrow>
          if operands \<noteq> (if mt_check o' then 1 else 2) then Some (Inr 2, h)
          else case mount_detect h opn sized o' of
            Inl r \<Rightarrow> Some (r, h)
          | Inr o' \<Rightarrow>
              (case mount_open env h opn o' of
                 None \<Rightarrow> None
               | Some (Inl e, fs) \<Rightarrow> Some (if e = UB then Inl UB else Inr 1, fs_host fs)
               | Some (Inr hnd, fs) \<Rightarrow> mount_run env o' hnd fs))"

section \<open>What a mount may touch\<close>

lemma mount_fill_fields: "mt_check (mount_fill h det o') = mt_check o'" "mt_ver (mount_fill h det o') = dt_edition det"
  by (simp_all add: mount_fill_def Let_def)

lemma detect_edition:
  assumes "filsys_detect h off n (Some v) = Inr (Inr det)"
  shows "v = FILSYS_UNIX \<or> dt_edition det = v"
proof -
  obtain res cls where "resolve_class cls res (Some v) = Inr det"
    using assms unfolding filsys_detect_def by (auto dest!: detect_first_from)
  from resolve_class_candidate [OF this] show ?thesis by blast
qed

lemma open_arch_handle:
  assumes "filsys_open_arch edn h opened ro offset uid gid packing arch force geom no_lock szh szs lock = Some (Inr hnd, fs)"
  shows "hnd = \<lparr>hd_ver = edn, hd_uid = uid, hd_gid = gid, hd_readonly = ro\<rparr>"
  using assms
  by (auto simp: filsys_open_arch_def open_guarded_def Let_def split: sum.splits if_splits prod.splits option.splits)

text \<open>
  What the options give wins over what the detection found; what they leave open is taken from
  the detection when it was asked for the edition.
\<close>

definition opts_kept :: "mt_opts \<Rightarrow> filsys_detected \<Rightarrow> filsys_geom \<Rightarrow> string option \<Rightarrow> bool" where
  "opts_kept o' det g packing \<longleftrightarrow>
     (let w = mt_geom o'; probed = (mt_ver o' = FILSYS_UNIX \<or> mt_ver o' = FILSYS_V10) in
      g_blocksize g = (if g_blocksize w = 0 \<and> probed then dt_blocksize det else g_blocksize w) \<and>
      g_freemap g = (if g_freemap w = None \<and> probed then dt_freemap det else g_freemap w) \<and>
      (g_byteorder w \<noteq> None \<or> \<not> probed \<longrightarrow> g_byteorder g = g_byteorder w) \<and>
      (mt_packing o' \<noteq> None \<or> \<not> probed \<longrightarrow> packing = mt_packing o'))"

lemma mount_detect_outcome:
  assumes "\<not> mt_force o'" "\<not> mt_readonly o'" "\<not> mt_check o'" "mount_detect h opn sized o' = Inr o2"
  obtains det where "filsys_detect h (mt_offset o') (h_len h) (Some (mt_ver o')) = Inr (Inr det)"
    "mt_ver o2 = dt_edition det" "opts_kept o' det (mt_geom o2) (mt_packing o2)" "mt_offset o2 = mt_offset o'" "mt_arch o2 = mt_arch o'"
    "mt_uid o2 = mt_uid o'" "mt_gid o2 = mt_gid o'" "mt_no_lock o2 = mt_no_lock o'"
    "\<not> mt_force o2" "\<not> mt_readonly o2" "\<not> mt_check o2"
proof -
  obtain det where d: "filsys_detect h (mt_offset o') (h_len h) (Some (mt_ver o')) = Inr (Inr det)"
    and o2: "o2 = (if mt_ver o' \<noteq> FILSYS_UNIX \<and> mt_ver o' \<noteq> FILSYS_V10 then o' else mount_fill h det o')"
    using assms by (auto simp: mount_detect_def Let_def split: if_splits sum.splits)
  have f: "opts_kept o' det (mt_geom o2) (mt_packing o2)"
    unfolding o2 by (cases "mt_geom o'") (auto simp: mount_fill_def opts_kept_def Let_def)
  have "mt_ver o2 = dt_edition det" using detect_edition [OF d] unfolding o2 by (auto simp: mount_fill_fields)
  then show thesis using that d f assms unfolding o2 by (auto simp: mount_fill_def Let_def split: if_splits)
qed

text \<open>The FUSE loop ran on the handle and its mount, and the mount was closed behind it.\<close>

definition served :: "mt_env \<Rightarrow> filsys \<Rightarrow> filsys_edition \<Rightarrow> errno + nat \<Rightarrow> host \<Rightarrow> bool" where
  "served env hnd fs r h' \<longleftrightarrow>
     (\<exists>o' rc fs1 cl fs2. nv_fuse_run env hnd o' fs = (rc, fs1) \<and> filsys_close hnd fs1 = (cl, fs2) \<and>
        r = Inr (if cl \<noteq> Inr () \<and> rc = 0 then 1 else rc) \<and> h' = fs_host fs2)"

lemma mount_run_serves:
  assumes "mount_run env o' hnd fs = Some (r, h')" "\<not> mt_readonly o'" "\<not> mt_check o'"
  shows "served env hnd fs r h'"
proof -
  let ?o = "o'\<lparr>mt_fuse_opts := fuse_add (mt_fuse_opts o') ''default_permissions''\<rparr>"
  obtain rc fs1 where f: "nv_fuse_run env hnd ?o fs = (rc, fs1)" by fastforce
  obtain cl fs2 where c: "filsys_close hnd fs1 = (cl, fs2)" by fastforce
  have "r = Inr (if cl \<noteq> Inr () \<and> rc = 0 then 1 else rc) \<and> h' = fs_host fs2"
    using assms by (simp add: mount_run_def f c Let_def split: if_splits)
  then show ?thesis using f c unfolding served_def by blast
qed

text \<open>A check leaves the image alone.\<close>

lemma open_arch_looks:
  assumes "filsys_open_arch edn h opened True offset uid gid packing arch force geom no_lock szh szs lock = Some (r, fs)"
  shows "fs_host fs = h \<and> (r = Inr hnd \<longrightarrow> fs_readonly fs \<and> hd_readonly hnd)"
proof -
  have "fs_host fs1 = h" if "filsys_fl_alloc (zero_mount h d) d' = (x, fs1)" for d d' x fs1
    using fl_alloc_host [OF that] by simp
  then show ?thesis
    using assms ops_open_host
    by (fastforce simp: filsys_open_arch_def open_guarded_def Let_def split: sum.splits if_splits prod.splits option.splits)
qed

lemma mount_detect_check: "mount_detect h opn sized o' = Inr o2 \<Longrightarrow> mt_check o2 = mt_check o'"
  by (auto simp: mount_detect_def Let_def mount_fill_fields split: if_splits sum.splits)

lemma mount_run_check:
  assumes "mt_check o'" "fs_readonly fs" "hd_readonly hnd" "mount_run env o' hnd fs = Some (r, h')"
  shows "h' = fs_host fs"
proof -
  have "reports_only \<lparr>ck_salvage = False, ck_preen = False, ck_force = False, ck_yes = False, ck_ask = False\<rparr>"
    by (simp add: reports_only_def)
  from check_reports_unchanged [OF this] obtain x rep where c: "filsys_check_op fs = Some (x, rep, fs)"
    unfolding filsys_check_op_def by blast
  have "fs_host (snd (filsys_close hnd fs)) = fs_host fs"
    using assms(2,3) close_readonly [of fs] by (simp add: filsys_close_def split_beta)
  then show ?thesis using assms(1,4) c by (auto simp: mount_run_def split: prod.splits)
qed

lemma mount_check_looks:
  assumes "mount_options (h_alloc h) mt_defaults args = Inr o'" "mt_check o'" "mount_main env h opn sized args operands = Some (r, h')"
  shows "h' = h"
proof (cases "\<exists>o2 hnd fs. mount_detect h opn sized o' = Inr o2 \<and> mount_open env h opn o2 = Some (Inr hnd, fs) \<and> operands = 1")
  case True
  then obtain o2 hnd fs where o2: "mount_detect h opn sized o' = Inr o2" "mount_open env h opn o2 = Some (Inr hnd, fs)" "operands = 1"
    by blast
  have c: "mt_check o2" using mount_detect_check [OF o2(1)] assms(2) by simp
  then have f: "fs_host fs = h" "fs_readonly fs" "hd_readonly hnd"
    using o2(2) open_arch_looks [of _ _ _ _ _ _ _ _ _ _ _ _ _ _ "Inr hnd" fs hnd] by (auto simp: mount_open_def Let_def)
  have "mount_run env o2 hnd fs = Some (r, h')" using assms o2 by (simp add: mount_main_def)
  then show ?thesis using mount_run_check [OF c f(2,3)] f(1) by simp
next
  case False
  have "fs_host fs = h" if "mount_detect h opn sized o' = Inr o2" "mount_open env h opn o2 = Some (Inl e, fs)" for o2 e fs
    using that assms(2) mount_detect_check open_arch_looks by (auto simp: mount_open_def Let_def) 
  then show ?thesis
    using assms(1,3) False by (auto simp: mount_main_def assms(2) split: sum.splits option.splits prod.splits if_splits)
qed

end
