(* ===== verification/Samples_Detect.thy ===== *)
theory Samples_Detect
  imports Mount_Tool Samples
begin

text \<open>
  A small V7 image as the detection sees it: sixteen blocks, one chain block in the free list and
  a root directory inode.
\<close>

definition v7_found :: host where
  "v7_found = sample_host (\<lambda>a. if a = 512 then 3 else if a = 516 then 16 else if a = 518 then 1 else if a = 522 then 5
     else if a = 1089 then 0x40 else if a = 1098 then 32 else if a = 2560 then 1 else 0) 8192"

lemma v7_found_read:
  "io_file_read (zero_mount v7_found d) n off = (if off + n \<le> 8192 then Inr (img_read (h_img v7_found) off n) else Inl EIO)"
  by (simp add: io_file_read_def zero_mount_def v7_found_def sample_host_def)

lemma v7_found_byte:
  "h_img v7_found a = (if a = 512 then 3 else if a = 516 then 16 else if a = 518 then 1 else if a = 522 then 5
     else if a = 1089 then 0x40 else if a = 1098 then 32 else if a = 2560 then 1 else 0)"
  by (simp add: v7_found_def sample_host_def)

lemmas found_eval = v7_found_read v7_found_byte bo_get16le_def bo_get16be_def bo_get16me_def
  bo_get32le_def bo_get32be_def bo_get32me_def

text \<open>Every probe in front of V7's turns the image down.\<close>

lemma found_v8:
  "probe_v8 (zero_mount v7_found d) 0 1024 8192 res = Inr (0, res)"
  "probe_v8 (zero_mount v7_found d) 0 4096 8192 res = Inr (0, res)"
  "probe_v8 (zero_mount v7_found d) 0 8192 8192 res = Inr (0, res)"
  by (simp_all add: probe_v8_def probe_v8_try_def v8_super_plausible_def le_be_def found_eval Let_def)

lemma found_strong:
  "probe_xenix (zero_mount v7_found d) 0 8192 res = Inr (0, res)"
  "probe_sysv (zero_mount v7_found d) 0 8192 res = Inr (0, res)"
  by (simp_all add: probe_xenix_def probe_sysv_def found_eval Let_def)

lemma found_p7: "p7_probe (zero_mount v7_found d) 8192 = None"
  by (simp add: p7_probe_def)

lemma found_v1: "v1_probe (zero_mount v7_found d) 0 8192 res = Inr (0, res)"
proof -
  have "bo_get16 bo (img_read (h_img v7_found) 0 1024) 0 = 0" for bo
    by (cases bo) (simp_all add: v7_found_byte bo_get16le_def bo_get16be_def bo_get16me_def)
  then show ?thesis by (simp add: v1_probe_def v7_found_read Let_def)
qed

lemma found_v6: "probe_v6 (zero_mount v7_found d) 0 8192 res = Inr (0, res)"
proof -
  have "bo_get16le (img_read (h_img v7_found) 512 512) 2 = 0"
    by (simp add: v7_found_byte bo_get16le_def)
  then show ?thesis by (simp add: probe_v6_def v7_found_read Let_def)
qed

lemma found_chain: "probe_walk_chain (zero_mount v7_found d) 5 3 16 0 512 50 4 ME 2 = Inr (1, None)"
proof -
  have "fs_host (zero_mount v7_found d) = v7_found" "h_alloc v7_found n" for n
    by (simp_all add: zero_mount_def v7_found_def sample_host_def)
  then show ?thesis
    by (simp add: probe_walk_chain_def Let_def probe_chain.simps out_of_fs_def seg_nfree_def seg_entry_def found_eval bm_test_def bm_set_def)
qed

lemma found_v7:
  "probe_v7_family (zero_mount v7_found v7_desc) 0 512 8192 res =
    Inr (1, res\<lparr>pr_class := Some ''v7, sysiii or sysvr1'', pr_isize := 3, pr_fsize := 16, pr_segs := 1, pr_blocksize := 512,
      pr_conf := PROBE_STRUCTURAL\<rparr>)"
proof -
  let ?sb = "img_read (h_img v7_found) 512 512"
  have "fs_desc (zero_mount v7_found v7_desc) = v7_desc" by (simp add: zero_mount_def)
  moreover have "bo_get16me ?sb 0 = 3" "bo_get16me ?sb 6 = 1" "bo_get16me ?sb 208 = 0" "bo_get32me ?sb 2 = 16" "bo_get32me ?sb 8 = 5"
    by (simp_all add: v7_found_byte bo_get16le_def bo_get16me_def bo_get32me_def)
  moreover have "probe_root_ok (zero_mount v7_found v7_desc) 0 512 ME = None"
    by (simp add: probe_root_ok_def found_eval)
  ultimately show ?thesis
    using found_chain [of v7_desc]
    by (simp add: probe_v7_family_def v7_found_read Let_def cache_in_fs_def out_of_fs_def v7_class_def sb_off_defs)
qed

lemma v7_found_detected:
  assumes "flt \<in> {None, Some FILSYS_UNIX}"
  shows "filsys_detect v7_found 0 8192 flt =
    Inr (Inr \<lparr>dt_edition = FILSYS_V7, dt_blocksize = 512, dt_freemap = None, dt_byteorder = None, dt_packing = None,
      dt_conf = PROBE_STRUCTURAL\<rparr>)"
proof -
  have d: "fs_desc (zero_mount v7_found d) = d" for d by (simp add: zero_mount_def)
  have "probe_pass True 0 8192 = [(FILSYS_V8, 1024), (FILSYS_V8, 4096), (FILSYS_V9, 8192), (FILSYS_V10, 1024), (FILSYS_V10, 4096),
      (FILSYS_XENIX, 1024), (FILSYS_SVR2, 512), (FILSYS_SVR4, 512)]"
    by (simp add: probe_pass_def formats_def edition_is_strong_def probe_sizes_def edition_bsizes_def)
  moreover have "\<exists>tl. probe_pass False 0 8192 = [(FILSYS_PDP7, 0), (FILSYS_V1, 512), (FILSYS_V6, 512), (FILSYS_V7, 512)] @ tl"
    by (simp add: probe_pass_def formats_def edition_is_strong_def probe_sizes_def edition_bsizes_def)
  ultimately obtain tl where t: "probe_pass True 0 8192 @ probe_pass False 0 8192 =
      [(FILSYS_V8, 1024), (FILSYS_V8, 4096), (FILSYS_V9, 8192), (FILSYS_V10, 1024), (FILSYS_V10, 4096),
       (FILSYS_XENIX, 1024), (FILSYS_SVR2, 512), (FILSYS_SVR4, 512), (FILSYS_PDP7, 0), (FILSYS_V1, 512), (FILSYS_V6, 512),
       (FILSYS_V7, 512)] @ tl" by auto
  show ?thesis
    using assms unfolding filsys_detect_def t
    by (auto simp: ops_probe_def v7_probe_def d found_v8 found_strong found_p7 found_v1 found_v6 found_v7 resolve_class_def
        class_row_def zero_probe_def)
qed

section \<open>Mounting it\<close>

lemma v7_found_opens:
  "\<exists>fs. filsys_open_arch FILSYS_V7 v7_found (Inr ()) False 0 uid gid None None False geom no_lock szh szs (Inr ()) =
     Some (Inr \<lparr>hd_ver = FILSYS_V7, hd_uid = uid, hd_gid = gid, hd_readonly = False\<rparr>, fs)"
proof -
  have h: "h_len v7_found = 8192" "\<forall>off n. \<not> h_rd_err v7_found off n" "\<forall>n. h_alloc v7_found n" "\<forall>k. h_wr_short v7_found k = None"
    by (simp_all add: v7_found_def sample_host_def)
  let ?det = "\<lparr>dt_edition = FILSYS_V7, dt_blocksize = 512, dt_freemap = None, dt_byteorder = None, dt_packing = None,
      dt_conf = PROBE_STRUCTURAL\<rparr>"
  have det: "filsys_detect v7_found 0 (h_len v7_found) None = Inr (Inr ?det)" using v7_found_detected [of None] h(1) by simp
  have e: "FILSYS_V7 \<in> v7_probed" by (simp add: v7_probed_def)
  then have e': "dt_edition ?det \<in> v7_probed" by simp
  obtain fmt res sb where f: "fs_host fmt = v7_found" "d_bo (fs_desc fmt) = ME" "\<not> d_pack4 (fs_desc fmt)" "d_nicfree (fs_desc fmt) = d_nicfree v7_desc"
    and v: "v7_validated fmt 0 (d_bsize v7_desc) (h_len v7_found) res sb"
    using detected_validated [OF det e'] by (metis filsys_detected.select_convs(1) filsys_getformat.simps(5))
  obtain fs where o: "v7fs_open (zero_mount v7_found v7_desc) False v7_desc 0 = Some (Inr (), fs)" "fs_desc fs = v7_desc" "fs_host fs = v7_found"
      "fs_base fs = 0" "fs_imgsize fs = h_len v7_found"
    using validated_opens [OF e _ f v, of False] by (metis filsys_getformat.simps(5))
  let ?m = "fs\<lparr>fs_fmod := 1\<rparr>"
  have "host_ok ?m" "super_in_image ?m" using h by (simp_all add: host_ok_def o super_in_image_def super_off_def super_len_def blk_off_def)
  then have "fst (v7fs_super_write ?m) = Inr ()" if "\<not> fs_readonly ?m" using super_write_ok [of ?m] that by simp
  then have "fst (v7fs_mark_dirty fs) = Inr ()" by (simp add: v7fs_mark_dirty_def flush_fs_def o)
  then obtain fs' where "v7fs_mark_dirty fs = (Inr (), fs')" by (metis prod.collapse)
  then show ?thesis using open_arch_plain [OF e h(3), of False 0 fs] o(1,2) by (simp add: open_guarded_def)
qed

text \<open>A process whose FUSE loop serves nothing and ends with status 3.\<close>

definition sample_env :: mt_env where
  "sample_env = \<lparr>nv_uid = 1, nv_gid = 1, nv_lock = Inr (), nv_szh = 100, nv_szs = 100, nv_fuse_run = (\<lambda>hnd o' fs. (3, fs))\<rparr>"

lemma mt_default_fields:
  "mt_ver mt_defaults = FILSYS_UNIX" "mt_offset mt_defaults = 0" "mt_uid mt_defaults = -1" "mt_gid mt_defaults = -1"
  "mt_packing mt_defaults = None" "mt_arch mt_defaults = None" "mt_geom mt_defaults = no_geom"
  "\<not> mt_no_lock mt_defaults" "\<not> mt_force mt_defaults" "\<not> mt_readonly mt_defaults" "\<not> mt_check mt_defaults"
  by (simp_all add: mt_defaults_def)

lemma sample_env_fields [simp]:
  "nv_uid sample_env = 1" "nv_gid sample_env = 1" "nv_lock sample_env = Inr ()" "nv_szh sample_env = 100" "nv_szs sample_env = 100"
  "nv_fuse_run sample_env hnd o' fs = (3, fs)"
  by (simp_all add: sample_env_def)

lemma v7_found_mounts: "\<exists>h'. mount_main sample_env v7_found (\<lambda>_. Inr ()) True [] 2 = Some (Inr 3, h')"
proof -
  have l: "h_len v7_found = 8192" by (simp add: v7_found_def sample_host_def)
  have "\<exists>g. mount_detect v7_found (\<lambda>_. Inr ()) True mt_defaults = Inr (mt_defaults\<lparr>mt_ver := FILSYS_V7, mt_geom := g\<rparr>)"
    by (simp add: mount_detect_def mt_defaults_def l v7_found_detected mount_fill_def Let_def)
  then obtain g where d: "mount_detect v7_found (\<lambda>_. Inr ()) True mt_defaults = Inr (mt_defaults\<lparr>mt_ver := FILSYS_V7, mt_geom := g\<rparr>)" by blast
  let ?o = "mt_defaults\<lparr>mt_ver := FILSYS_V7, mt_geom := g\<rparr>"
  obtain hnd fs where "mount_open sample_env v7_found (\<lambda>_. Inr ()) ?o = Some (Inr hnd, fs)"
    using v7_found_opens [of 1 1 "Some g" False 100 100] by (auto simp: mount_open_def mt_default_fields)
  then show ?thesis
    by (cases "filsys_close hnd fs") (simp add: mount_main_def d mount_run_def mt_default_fields)
qed

end
