(* ===== verification/Filsys_Path.thy ===== *)
theory Filsys_Path
  imports Filsys
begin

text \<open>
  The path-taking interface (\<^verbatim>\<open>filsys_path.c\<close>): a path is split, walked one component
  at a time from the root, and the operation is delegated to its inode-anchored form.
\<close>

section \<open>Splitting and walking\<close>

abbreviation slash :: byte where "slash \<equiv> 0x2F"

text \<open>
  \<^verbatim>\<open>split_path\<close>: its return value and what it stores in the two buffers; \<open>None\<close> is a
  buffer it leaves alone.
\<close>

definition split_path :: "byte list \<Rightarrow> nat \<Rightarrow> nat \<Rightarrow> (errno + unit) \<times> byte list option \<times> byte list option" where
  "split_path path dirsz namesz =
     (if slash \<notin> set path then (Inl EINVAL, None, None)
      else
        let nm = rev (takeWhile (\<lambda>c. c \<noteq> slash) (rev path));
            dlen = length path - length nm - 1;
            dlen = (if dlen = 0 then 1 else dlen) in
        if dirsz \<le> dlen then (Inl ENAMETOOLONG, None, None)
        else let dir = take dlen path in
          if nm = [] then (Inl EINVAL, Some dir, None)
          else if namesz \<le> length nm then (Inl ENAMETOOLONG, Some dir, None)
          else (Inr (), Some dir, Some nm))"

function path_walk :: "filsys_edition \<Rightarrow> u32 \<Rightarrow> byte list \<Rightarrow> errno + u32" where
  "path_walk fs cur p =
     (if p = [] then Inr cur
      else let name = takeWhile (\<lambda>c. c \<noteq> slash) p in
        if name = [] then path_walk fs cur (tl p)
        else if 64 \<le> length name then Inl ENAMETOOLONG
        else case filsys_walk fs cur name of
          Inl e \<Rightarrow> Inl e
        | Inr nxt \<Rightarrow> path_walk fs nxt (drop (Suc (length name)) p))"
  by auto
termination
  by (relation "measure (\<lambda>(fs, cur, p). length p)") auto

declare path_walk.simps [simp del]

definition path_lookup :: "filsys_edition \<Rightarrow> byte list \<Rightarrow> errno + u32" where
  "path_lookup fs path =
     (if path = [] \<or> hd path \<noteq> slash then Inl EINVAL else path_walk fs (d_rootino (fs_desc fs)) (tl path))"

text \<open>The call that also wants the inode.\<close>

definition filsys_lookup :: "filsys_edition \<Rightarrow> byte list \<Rightarrow> errno + (u32 \<times> filsys_inode)" where
  "filsys_lookup fs path =
     (case path_lookup fs path of
        Inl e \<Rightarrow> Inl e
      | Inr ino \<Rightarrow> (case ops_read_inode fs ino of Inl e \<Rightarrow> Inl e | Inr ip \<Rightarrow> Inr (ino, ip)))"

definition split_for :: "filsys_edition \<Rightarrow> byte list \<Rightarrow> (errno + unit) \<times> byte list option \<times> byte list option" where
  "split_for fs path = split_path path 4096 (d_max_namlen (fs_desc fs) + 1)"

definition resolve_parent :: "filsys_edition \<Rightarrow> byte list \<Rightarrow> errno + (u32 \<times> byte list)" where
  "resolve_parent fs path =
     (case split_for fs path of
        (Inl e, _) \<Rightarrow> Inl e
      | (Inr _, dir, name) \<Rightarrow>
          (case filsys_lookup fs (the dir) of Inl e \<Rightarrow> Inl e | Inr (dino, _) \<Rightarrow> Inr (dino, the name)))"

section \<open>Operations on a path\<close>

definition filsys_read :: "filsys_edition \<Rightarrow> byte list \<Rightarrow> nat \<Rightarrow> int \<Rightarrow> errno + byte list" where
  "filsys_read fs path sz off =
     (case path_lookup fs path of Inl e \<Rightarrow> Inl e | Inr ino \<Rightarrow> filsys_read_ino fs ino sz off)"

definition filsys_readlink :: "filsys_edition \<Rightarrow> byte list \<Rightarrow> nat \<Rightarrow> errno + byte list" where
  "filsys_readlink fs path sz =
     (case path_lookup fs path of Inl e \<Rightarrow> Inl e | Inr ino \<Rightarrow> filsys_readlink_ino fs ino sz)"

definition filsys_write :: "filsys_edition \<Rightarrow> byte list \<Rightarrow> byte list \<Rightarrow> int \<Rightarrow> nat op" where
  "filsys_write fs path buf off = need (path_lookup fs path) fs (\<lambda>ino. filsys_write_ino fs ino buf off)"

definition filsys_truncate :: "filsys_edition \<Rightarrow> byte list \<Rightarrow> int \<Rightarrow> unit op" where
  "filsys_truncate fs path sz = need (path_lookup fs path) fs (\<lambda>ino. filsys_truncate_ino fs ino sz)"

definition filsys_chmod :: "filsys_edition \<Rightarrow> byte list \<Rightarrow> u32 \<Rightarrow> unit op" where
  "filsys_chmod fs path mode = need (path_lookup fs path) fs (\<lambda>ino. filsys_chmod_ino fs ino mode)"

definition filsys_chown :: "filsys_edition \<Rightarrow> byte list \<Rightarrow> u32 \<Rightarrow> u32 \<Rightarrow> unit op" where
  "filsys_chown fs path uid gid = need (path_lookup fs path) fs (\<lambda>ino. filsys_chown_ino fs ino uid gid)"

definition filsys_utimens :: "filsys_edition \<Rightarrow> byte list \<Rightarrow> (int \<times> int) option \<Rightarrow> unit op" where
  "filsys_utimens fs path tv = need (path_lookup fs path) fs (\<lambda>ino. filsys_utimens_ino fs ino tv)"

text \<open>An operation that makes or removes a name in the resolved parent.\<close>

definition in_parent :: "filsys_edition \<Rightarrow> byte list \<Rightarrow> (u32 \<Rightarrow> byte list \<Rightarrow> ('a op) option) \<Rightarrow> ('a op) option" where
  "in_parent fs path k =
     (case resolve_parent fs path of Inl e \<Rightarrow> Some (Inl e, fs) | Inr (dino, name) \<Rightarrow> k dino name)"

definition filsys_create :: "filsys_edition \<Rightarrow> byte list \<Rightarrow> u32 \<Rightarrow> u32 \<Rightarrow> u32 \<Rightarrow> (u32 op) option" where
  "filsys_create fs path mode uid gid =
     in_parent fs path (\<lambda>dino name. filsys_create_in fs dino name mode uid gid)"

definition filsys_mkdir :: "filsys_edition \<Rightarrow> byte list \<Rightarrow> u32 \<Rightarrow> u32 \<Rightarrow> u32 \<Rightarrow> (unit op) option" where
  "filsys_mkdir fs path mode uid gid =
     in_parent fs path (\<lambda>dino name. filsys_mkdir_in fs dino name mode uid gid)"

definition filsys_mknod :: "filsys \<Rightarrow> filsys_edition \<Rightarrow> byte list \<Rightarrow> u32 \<Rightarrow> u32 \<Rightarrow> u32 \<Rightarrow> u32 \<Rightarrow> (unit op) option" where
  "filsys_mknod h fs path mode rdev uid gid =
     (if mode AND 0xF000 = S_IFREG
      then map_option (\<lambda>r. try_op r (\<lambda>_ fs. (Inr (), fs))) (filsys_create fs path (mode AND 0xFFF) uid gid)
      else in_parent fs path (\<lambda>dino name. filsys_mknod_in h fs dino name mode rdev uid gid))"

definition filsys_symlink :: "filsys \<Rightarrow> filsys_edition \<Rightarrow> byte list \<Rightarrow> byte list \<Rightarrow> (unit op) option" where
  "filsys_symlink h fs target linkpath =
     in_parent fs linkpath (\<lambda>dino name. filsys_symlink_in h fs target dino name)"

definition filsys_rmdir :: "filsys_edition \<Rightarrow> byte list \<Rightarrow> (unit op) option" where
  "filsys_rmdir fs path = in_parent fs path (\<lambda>dino name. filsys_rmdir_in fs dino name)"

definition filsys_unlink :: "filsys_edition \<Rightarrow> byte list \<Rightarrow> bool \<Rightarrow> unit op" where
  "filsys_unlink fs path defer =
     (case split_for fs path of
        (Inl e, _) \<Rightarrow> (Inl e, fs)
      | (Inr _, dir, name) \<Rightarrow>
          need (filsys_lookup fs path) fs (\<lambda>(_, ip).
            if mode_is_dir (fs_desc fs) ip then (Inl EISDIR, fs)
            else need (filsys_lookup fs (the dir)) fs (\<lambda>(dino, _).
              filsys_unlink_in fs dino (the name) defer)))"

definition filsys_link :: "filsys_edition \<Rightarrow> byte list \<Rightarrow> byte list \<Rightarrow> unit op" where
  "filsys_link fs from to =
     need (path_lookup fs from) fs (\<lambda>ino.
       need (resolve_parent fs to) fs (\<lambda>(dino, name). filsys_link_in fs ino dino name))"

text \<open>
  Renaming drops what \<^verbatim>\<open>split_path\<close> returned for the old name: the buffers it left
  alone are read uninitialised.
\<close>

definition filsys_rename :: "filsys_edition \<Rightarrow> byte list \<Rightarrow> byte list \<Rightarrow> u32 \<Rightarrow> bool \<Rightarrow> (unit op) option" where
  "filsys_rename fs from to flags defer =
     (if from = to then Some (Inr (), fs)
      else case (split_for fs from, split_for fs to) of
        (_, Inl e, _) \<Rightarrow> Some (Inl e, fs)
      | ((_, fdir, fname), Inr _, tdir, tname) \<Rightarrow>
          (case fdir of
             None \<Rightarrow> Some (Inl UB, fs)
           | Some fdir \<Rightarrow>
               (case (filsys_lookup fs fdir, filsys_lookup fs (the tdir)) of
                  (Inl e, _) \<Rightarrow> Some (Inl e, fs)
                | (_, Inl e) \<Rightarrow> Some (Inl e, fs)
                | (Inr (sdino, _), Inr (tdino, _)) \<Rightarrow>
                    (case fname of
                       None \<Rightarrow> Some (Inl (if flags AND NOT 1 \<noteq> 0 then EINVAL else UB), fs)
                     | Some fname \<Rightarrow> filsys_rename_in fs sdino fname tdino (the tname) flags defer))))"

section \<open>A path and its parts\<close>

lemma path_walk_slash: "path_walk fs cur (slash # p) = path_walk fs cur p"
  by (subst path_walk.simps) simp

text \<open>Walking a path in two parts.\<close>

lemma path_walk_append:
  "path_walk fs cur (p @ slash # q) = (case path_walk fs cur p of Inl e \<Rightarrow> Inl e | Inr c \<Rightarrow> path_walk fs c q)"
proof (induction fs cur p rule: path_walk.induct)
  case (1 fs cur p)
  let ?n = "takeWhile (\<lambda>c. c \<noteq> slash) p"
  show ?case
  proof (cases "p = []")
    case True
    then show ?thesis by (simp add: path_walk_slash path_walk.simps [of fs cur "[]"])
  next
    case ne: False
    show ?thesis
    proof (cases "?n = []")
      case True
      then obtain p' where p: "p = slash # p'" using ne by (cases p) (auto split: if_splits)
      then show ?thesis using 1(1) [OF ne refl True] by (simp add: path_walk_slash)
    next
      case name: False
      have d: "drop (Suc (length ?n)) (p @ slash # q) = (if slash \<in> set p then drop (Suc (length ?n)) p @ slash # q else q)"
      proof (cases "dropWhile (\<lambda>c. c \<noteq> slash) p")
        case Nil
        then have "?n @ [] = p" using takeWhile_dropWhile_id [of "\<lambda>c. c \<noteq> slash" p] by metis
        then have "length ?n = length p" by (metis append_Nil2)
        moreover have "slash \<notin> set p" using Nil by (auto simp: dropWhile_eq_Nil_conv)
        ultimately show ?thesis by simp
      next
        case (Cons x r)
        then have "x = slash" using hd_dropWhile [of "\<lambda>c. c \<noteq> slash" p] by simp
        then obtain a where p: "p = a @ slash # r" "length a = length ?n"
          using Cons takeWhile_dropWhile_id [of "\<lambda>c. c \<noteq> slash" p] by metis
        then show ?thesis by simp
      qed
      have t: "takeWhile (\<lambda>c. c \<noteq> slash) (p @ slash # q) = ?n"
        by (induction p) auto
      show ?thesis
      proof (cases "64 \<le> length ?n")
        case True
        then show ?thesis using ne name t
          unfolding path_walk.simps [of fs cur p] path_walk.simps [of fs cur "p @ slash # q"] by simp
      next
        case False
        show ?thesis
        proof (cases "filsys_walk fs cur ?n")
          case (Inl e)
          then show ?thesis using ne name t False
            unfolding path_walk.simps [of fs cur p] path_walk.simps [of fs cur "p @ slash # q"] by simp
        next
          case (Inr nxt)
          have e: "path_walk fs cur p = path_walk fs nxt (drop (Suc (length ?n)) p)"
            "path_walk fs cur (p @ slash # q) = path_walk fs nxt (drop (Suc (length ?n)) (p @ slash # q))"
            using ne name t False Inr
            unfolding path_walk.simps [of fs cur p] path_walk.simps [of fs cur "p @ slash # q"] by (simp_all add: Let_def del: drop_append)
          have nil: "drop (Suc (length ?n)) p = []" if "slash \<notin> set p"
          proof -
            have "dropWhile (\<lambda>c. c \<noteq> slash) p = []" using that by (auto simp: dropWhile_eq_Nil_conv)
            then have "?n @ [] = p" using takeWhile_dropWhile_id [of "\<lambda>c. c \<noteq> slash" p] by metis
            then have "length ?n = length p" by (metis append_Nil2)
            then show ?thesis by simp
          qed
          show ?thesis unfolding e d using 1(2) [OF ne refl name False Inr] nil
            by (auto simp: path_walk.simps [of fs nxt "[]"])
        qed
      qed
    qed
  qed
qed

text \<open>
  Resolving the parent and walking the last component is walking the path: what the creating
  operations see is what a lookup of the new path will search.
\<close>

lemma path_walk_name:
  assumes "nm \<noteq> []" "slash \<notin> set nm" "length nm < 64"
  shows "path_walk fs cur nm = filsys_walk fs cur nm"
proof -
  have "takeWhile (\<lambda>c. c \<noteq> slash) nm = nm" using assms(2) by (auto simp: takeWhile_eq_all_conv)
  then show ?thesis using assms(1,3) unfolding path_walk.simps [of fs cur nm] Let_def
    by (simp only:) (simp add: path_walk.simps [of fs _ "[]"] split: sum.split)
qed

lemma split_path_parts:
  assumes "split_path path dirsz namesz = (Inr (), Some dir, Some nm)"
  shows "nm \<noteq> []" "slash \<notin> set nm" "length nm < namesz"
    "path = dir @ slash # nm \<or> (dir = [slash] \<and> path = slash # nm) \<or> (length dir = 1 \<and> path = slash # nm)"
proof -
  let ?nm = "rev (takeWhile (\<lambda>c. c \<noteq> slash) (rev path))"
  have s: "slash \<in> set path" and n: "nm = ?nm" "nm \<noteq> []" "length nm < namesz"
    and d: "dir = take (if length path - length nm - 1 = 0 then 1 else length path - length nm - 1) path"
    using assms by (auto simp: split_path_def Let_def split: if_splits)
  show "nm \<noteq> []" "length nm < namesz" using n by blast+
  show "slash \<notin> set nm" unfolding n(1) by (auto dest: set_takeWhileD)
  obtain a where "rev path = takeWhile (\<lambda>c. c \<noteq> slash) (rev path) @ slash # a"
  proof -
    have "dropWhile (\<lambda>c. c \<noteq> slash) (rev path) \<noteq> []" using s by (auto simp: dropWhile_eq_Nil_conv)
    then obtain x a where "dropWhile (\<lambda>c. c \<noteq> slash) (rev path) = x # a" by (cases "dropWhile (\<lambda>c. c \<noteq> slash) (rev path)") auto
    moreover from this have "x = slash" using hd_dropWhile [of "\<lambda>c. c \<noteq> slash" "rev path"] by simp
    ultimately show thesis using that takeWhile_dropWhile_id [of "\<lambda>c. c \<noteq> slash" "rev path"] by metis
  qed
  then have "rev (rev path) = rev a @ slash # nm" unfolding n(1) by (metis rev.simps(2) rev_append append_assoc append_Cons append_Nil)
  then have p: "path = rev a @ slash # nm" by simp
  show "path = dir @ slash # nm \<or> (dir = [slash] \<and> path = slash # nm) \<or> (length dir = 1 \<and> path = slash # nm)"
    using d p by (cases "a = []") auto
qed

lemma resolve_parent_lookup:
  assumes "resolve_parent fs path = Inr (dino, nm)" "d_max_namlen (fs_desc fs) \<le> 63"
  shows "path_lookup fs path = filsys_walk fs dino nm"
proof -
  obtain dir where s: "split_for fs path = (Inr (), Some dir, Some nm)" and l: "path_lookup fs dir = Inr dino"
  proof -
    have "\<exists>dir nm. split_for fs path = (Inr (), Some dir, Some nm)" if "fst (split_for fs path) = Inr ()"
      using that by (auto simp: split_for_def split_path_def Let_def split: if_splits)
    then show thesis using assms(1) that
      by (auto simp: resolve_parent_def filsys_lookup_def split: prod.splits sum.splits)
  qed
  note p = split_path_parts [OF s [unfolded split_for_def]]
  have d: "dir \<noteq> []" "hd dir = slash" and w: "path_walk fs (d_rootino (fs_desc fs)) (tl dir) = Inr dino"
    using l by (auto simp: path_lookup_def split: if_splits)
  have nm: "path_walk fs c nm = filsys_walk fs c nm" for c
    using p(1-3) assms(2) by (intro path_walk_name) auto
  from p(4) show ?thesis
  proof (elim disjE conjE)
    assume "path = dir @ slash # nm"
    then have "path_lookup fs path = path_walk fs (d_rootino (fs_desc fs)) (tl dir @ slash # nm)"
      using d by (simp add: path_lookup_def)
    then show ?thesis using w nm by (simp add: path_walk_append)
  next
    assume "dir = [slash]" "path = slash # nm"
    then show ?thesis using w nm by (simp add: path_lookup_def path_walk.simps [of fs _ "[]"])
  next
    assume "length dir = 1" "path = slash # nm"
    then have "tl dir = []" by (cases dir) auto
    then show ?thesis using w nm \<open>path = slash # nm\<close> by (simp add: path_lookup_def path_walk.simps [of fs _ "[]"])
  qed
qed

end
