(* ===== verification/Fuse_Core.thy ===== *)
theory Fuse_Core
  imports Filsys_Path "HOL-Library.Multiset"
begin

text \<open>
  The callback bodies shared by the FUSE adapters (\<^verbatim>\<open>fuse_core.c\<close>): the table of open
  handles that keeps an unlinked file alive until its last release, and one function per
  callback over the access and path layers.  The table counts the handles of every inode, a name
  removed from an open file only drops a link, and the inode is torn down by the release of its
  last handle.
\<close>

section \<open>The open-handle table\<close>

record fuse_open =
  fo_ino :: u32
  fo_refs :: int

text \<open>\<^verbatim>\<open>fuse_mount_t\<close> with the handle and the mount behind it; \<^verbatim>\<open>nopen\<close> is the length of the table.\<close>

record fuse_mount =
  fm_hnd :: filsys
  fm_fs :: filsys_edition
  fm_open :: "fuse_open list"
  fm_cap :: nat

type_synonym 'a fuse_res = "(fuse_mount, 'a) outcome"

definition on_fs :: "fuse_mount \<Rightarrow> 'a op \<Rightarrow> 'a fuse_res" where
  "on_fs m r = (fst r, m\<lparr>fm_fs := snd r\<rparr>)"

text \<open>The first entry of an inode; an entry takes eight bytes.\<close>

fun find_open :: "fuse_open list \<Rightarrow> u32 \<Rightarrow> nat option" where
  "find_open [] ino = None"
| "find_open (e # es) ino = (if fo_ino e = ino then Some 0 else map_option Suc (find_open es ino))"

definition open_reserve :: "fuse_mount \<Rightarrow> unit fuse_res" where
  "open_reserve m =
     (if length (fm_open m) < fm_cap m then (Inr (), m)
      else let newcap = (if fm_cap m \<noteq> 0 then fm_cap m * 2 else 16) in
        if \<not> h_alloc (fs_host (fm_fs m)) (newcap * 8) then (Inl ENFILE, m)
        else (Inr (), m\<lparr>fm_cap := newcap\<rparr>))"

definition fuse_open_track :: "fuse_mount \<Rightarrow> u32 \<Rightarrow> unit fuse_res" where
  "fuse_open_track m ino =
     (case find_open (fm_open m) ino of
        Some i \<Rightarrow> (Inr (), m\<lparr>fm_open := (fm_open m)[i := (fm_open m ! i)\<lparr>fo_refs := fo_refs (fm_open m ! i) + 1\<rparr>]\<rparr>)
      | None \<Rightarrow>
          try_as ENFILE (open_reserve m)
            (\<lambda>_ m. (Inr (), m\<lparr>fm_open := fm_open m @ [\<lparr>fo_ino = ino, fo_refs = 1\<rparr>]\<rparr>)))"

definition fuse_open_refs :: "fuse_mount \<Rightarrow> u32 \<Rightarrow> int" where
  "fuse_open_refs m ino = (case find_open (fm_open m) ino of Some i \<Rightarrow> fo_refs (fm_open m ! i) | None \<Rightarrow> 0)"

text \<open>Free an inode that has no link left; a read that fails leaves it alone.\<close>

definition free_unlinked :: "filsys_edition \<Rightarrow> u32 \<Rightarrow> unit op" where
  "free_unlinked fs ino =
     (case ops_read_inode fs ino of
        Inl _ \<Rightarrow> (Inr (), fs)
      | Inr ip \<Rightarrow> if sint (ip_nlink ip) \<le> 0 then filsys_free_ino fs ino else (Inr (), fs))"

text \<open>
  The last entry takes the place of the one that goes; the entry stays, with its count at zero,
  when the inode cannot be freed.
\<close>

definition fuse_open_release :: "fuse_mount \<Rightarrow> u32 \<Rightarrow> unit fuse_res" where
  "fuse_open_release m ino =
     (case find_open (fm_open m) ino of
        None \<Rightarrow> (Inr (), m)
      | Some i \<Rightarrow>
          let e = (fm_open m ! i)\<lparr>fo_refs := fo_refs (fm_open m ! i) - 1\<rparr>; m = m\<lparr>fm_open := (fm_open m)[i := e]\<rparr> in
          if 0 < fo_refs e then (Inr (), m)
          else case free_unlinked (fm_fs m) ino of
            (Inl err, fs) \<Rightarrow> (Inl err, m\<lparr>fm_fs := fs\<rparr>)
          | (Inr _, fs) \<Rightarrow>
              (Inr (), m\<lparr>fm_fs := fs, fm_open := butlast ((fm_open m)[i := last (fm_open m)])\<rparr>))"

definition fuse_open_drain :: "fuse_mount \<Rightarrow> fuse_mount" where
  "fuse_open_drain m =
     m\<lparr>fm_fs := foldl (\<lambda>fs e. snd (free_unlinked fs (fo_ino e))) (fm_fs m) (fm_open m), fm_open := [], fm_cap := 0\<rparr>"

section \<open>Attributes\<close>

text \<open>
  The fields of \<^verbatim>\<open>struct stat\<close> the code fills; the device number is the pair given to
  \<^verbatim>\<open>makedev\<close>.
\<close>

record posix_stat =
  ps_ino :: u32
  ps_mode :: u32
  ps_nlink :: u32
  ps_uid :: u32
  ps_gid :: u32
  ps_size :: u32
  ps_rdev :: "(u32 \<times> u32) option"
  ps_atime :: u32
  ps_mtime :: u32
  ps_ctime :: u32
  ps_blksize :: nat
  ps_blocks :: nat

definition zero_stat :: posix_stat where
  "zero_stat = \<lparr>ps_ino = 0, ps_mode = 0, ps_nlink = 0, ps_uid = 0, ps_gid = 0, ps_size = 0, ps_rdev = None,
     ps_atime = 0, ps_mtime = 0, ps_ctime = 0, ps_blksize = 0, ps_blocks = 0\<rparr>"

definition fill_stat :: "fuse_mount \<Rightarrow> filsys_inode \<Rightarrow> errno + posix_stat" where
  "fill_stat m ip =
     (case filsys_stat_inode (fm_hnd m) (fm_fs m) ip of
        Inl e \<Rightarrow> Inl e
      | Inr s \<Rightarrow> Inr
          \<lparr>ps_ino = st_ino s, ps_mode = st_mode s, ps_nlink = st_nlink s, ps_uid = st_uid s, ps_gid = st_gid s,
           ps_size = st_size s,
           ps_rdev = (if st_rdev s \<noteq> 0 then Some (drop_bit 8 (st_rdev s), st_rdev s AND 0xff) else None),
           ps_atime = st_atime s, ps_mtime = st_mtime s, ps_ctime = st_ctime s,
           ps_blksize = st_blksize s, ps_blocks = (st_bytes s + 511) div 512\<rparr>)"

definition fill_stat_ino :: "fuse_mount \<Rightarrow> u32 \<Rightarrow> errno + posix_stat" where
  "fill_stat_ino m ino =
     (case ops_read_inode (fm_fs m) ino of Inl e \<Rightarrow> Inl e | Inr ip \<Rightarrow> fill_stat m ip)"

definition fuse_op_getattr :: "fuse_mount \<Rightarrow> byte list \<Rightarrow> errno + posix_stat" where
  "fuse_op_getattr m path =
     (case filsys_lookup (fm_fs m) path of Inl e \<Rightarrow> Inl e | Inr (_, ip) \<Rightarrow> fill_stat m ip)"

definition fuse_op_getattr_ino :: "fuse_mount \<Rightarrow> u32 \<Rightarrow> errno + posix_stat" where
  "fuse_op_getattr_ino m fh = fill_stat_ino m fh"

section \<open>Listing a directory\<close>

text \<open>
  \<open>emit\<close> is the adapter's callback on its own state \<open>'a\<close>; \<open>True\<close> stops the walk.  The
  attributes are \<open>None\<close> when the inode was read but \<^verbatim>\<open>fill_stat\<close> failed: the record is then
  passed on unset.  A name of 64 bytes or more overruns its buffer.  An error of the iterator ends
  the walk like the end of the directory.
\<close>

partial_function (option) readdir_loop ::
    "fuse_mount \<Rightarrow> ('a \<Rightarrow> byte list \<Rightarrow> posix_stat option \<Rightarrow> nat \<Rightarrow> bool \<times> 'a) \<Rightarrow> filsys_iter_state \<Rightarrow> 'a \<Rightarrow> (errno + 'a) option" where
  "readdir_loop m emit st a =
     (case ops_dir_iter (fm_fs m) st of
        (Inl _, _) \<Rightarrow> Some (Inr a)
      | (Inr None, _) \<Rightarrow> Some (Inr a)
      | (Inr (Some (eino, name, next_off)), st) \<Rightarrow>
          if 64 \<le> length name then Some (Inl UB)
          else case emit a name
                      (case ops_read_inode (fm_fs m) eino of
                         Inl _ \<Rightarrow> Some zero_stat
                       | Inr eip \<Rightarrow> (case fill_stat m eip of Inl _ \<Rightarrow> None | Inr s \<Rightarrow> Some s))
                      next_off of
            (stop, a) \<Rightarrow> if stop then Some (Inr a) else readdir_loop m emit st a)"

definition fuse_op_readdir ::
    "fuse_mount \<Rightarrow> byte list \<Rightarrow> ('a \<Rightarrow> byte list \<Rightarrow> posix_stat option \<Rightarrow> nat \<Rightarrow> bool \<times> 'a) \<Rightarrow> 'a \<Rightarrow> (errno + 'a) option" where
  "fuse_op_readdir m path emit a =
     (case path_lookup (fm_fs m) path of
        Inl e \<Rightarrow> Some (Inl e)
      | Inr ino \<Rightarrow>
          (case filsys_dir_seek (fm_fs m) ino 0 of Inl e \<Rightarrow> Some (Inl e) | Inr st \<Rightarrow> readdir_loop m emit st a))"

section \<open>Open files\<close>

text \<open>\<open>wr\<close> says that the access mode of the open flags is not read-only.  A failed \<^verbatim>\<open>fill_stat\<close> leaves the mode that is tested unset.\<close>

definition fuse_op_open :: "fuse_mount \<Rightarrow> byte list \<Rightarrow> bool \<Rightarrow> u32 fuse_res" where
  "fuse_op_open m path wr =
     (case filsys_lookup (fm_fs m) path of
        Inl e \<Rightarrow> (Inl e, m)
      | Inr (ino, ip) \<Rightarrow>
          (case fill_stat m ip of
             Inl _ \<Rightarrow> (Inl UB, m)
           | Inr st \<Rightarrow>
               if ps_mode st AND 0xF000 = 0x4000 then (Inl EISDIR, m)
               else if wr \<and> hd_readonly (fm_hnd m) then (Inl EROFS, m)
               else try_op (fuse_open_track m ino) (\<lambda>_ m. (Inr ino, m))))"

definition fuse_op_read :: "fuse_mount \<Rightarrow> u32 \<Rightarrow> nat \<Rightarrow> int \<Rightarrow> errno + byte list" where
  "fuse_op_read m fh sz off = filsys_read_ino (fm_fs m) fh sz off"

definition fuse_op_write :: "fuse_mount \<Rightarrow> u32 \<Rightarrow> byte list \<Rightarrow> int \<Rightarrow> nat fuse_res" where
  "fuse_op_write m fh buf off = on_fs m (filsys_write_ino (fm_fs m) fh buf off)"

text \<open>The target with its terminator, which is left out when the target fills the buffer.\<close>

definition fuse_op_readlink :: "fuse_mount \<Rightarrow> byte list \<Rightarrow> nat \<Rightarrow> errno + byte list" where
  "fuse_op_readlink m path sz =
     (case filsys_readlink (fm_fs m) path sz of
        Inl e \<Rightarrow> Inl e
      | Inr t \<Rightarrow> Inr (if length t < sz then t @ [0] else t))"

definition fuse_op_create :: "fuse_mount \<Rightarrow> u32 \<Rightarrow> u32 \<Rightarrow> byte list \<Rightarrow> u32 \<Rightarrow> (u32 fuse_res) option" where
  "fuse_op_create m uid gid path mode =
     map_option (\<lambda>r. try_op (on_fs m r) (\<lambda>ino m. try_op (fuse_open_track m ino) (\<lambda>_ m. (Inr ino, m))))
       (filsys_create (fm_fs m) path mode uid gid)"

definition fuse_op_release :: "fuse_mount \<Rightarrow> u32 \<Rightarrow> unit fuse_res" where
  "fuse_op_release m fh = fuse_open_release m fh"

section \<open>Names\<close>

definition fuse_op_mkdir :: "fuse_mount \<Rightarrow> u32 \<Rightarrow> u32 \<Rightarrow> byte list \<Rightarrow> u32 \<Rightarrow> (unit fuse_res) option" where
  "fuse_op_mkdir m uid gid path mode = map_option (on_fs m) (filsys_mkdir (fm_fs m) path mode uid gid)"

text \<open>The host's device number comes as the pair of its \<^verbatim>\<open>major\<close> and \<^verbatim>\<open>minor\<close>.\<close>

definition fuse_op_mknod :: "fuse_mount \<Rightarrow> u32 \<Rightarrow> u32 \<Rightarrow> byte list \<Rightarrow> u32 \<Rightarrow> u32 \<times> u32 \<Rightarrow> (unit fuse_res) option" where
  "fuse_op_mknod m uid gid path mode rdev =
     (if 255 < fst rdev \<or> 255 < snd rdev then Some (Inl EINVAL, m)
      else map_option (on_fs m)
             (filsys_mknod (fm_hnd m) (fm_fs m) path mode (push_bit 8 (fst rdev) OR snd rdev) uid gid))"

definition fuse_op_symlink :: "fuse_mount \<Rightarrow> byte list \<Rightarrow> byte list \<Rightarrow> (unit fuse_res) option" where
  "fuse_op_symlink m target linkpath = map_option (on_fs m) (filsys_symlink (fm_hnd m) (fm_fs m) target linkpath)"

text \<open>The inode a path names is open.\<close>

definition open_at :: "fuse_mount \<Rightarrow> byte list \<Rightarrow> bool" where
  "open_at m path = (case path_lookup (fm_fs m) path of Inl _ \<Rightarrow> False | Inr ino \<Rightarrow> 0 < fuse_open_refs m ino)"

definition fuse_op_unlink :: "fuse_mount \<Rightarrow> byte list \<Rightarrow> unit fuse_res" where
  "fuse_op_unlink m path = on_fs m (filsys_unlink (fm_fs m) path (open_at m path))"

definition fuse_op_rmdir :: "fuse_mount \<Rightarrow> byte list \<Rightarrow> (unit fuse_res) option" where
  "fuse_op_rmdir m path = map_option (on_fs m) (filsys_rmdir (fm_fs m) path)"

definition fuse_op_link :: "fuse_mount \<Rightarrow> byte list \<Rightarrow> byte list \<Rightarrow> unit fuse_res" where
  "fuse_op_link m from to = on_fs m (filsys_link (fm_fs m) from to)"

definition fuse_op_rename :: "fuse_mount \<Rightarrow> byte list \<Rightarrow> byte list \<Rightarrow> u32 \<Rightarrow> (unit fuse_res) option" where
  "fuse_op_rename m from to flags = map_option (on_fs m) (filsys_rename (fm_fs m) from to flags (open_at m to))"

section \<open>Attributes that are set\<close>

definition fuse_op_chmod :: "fuse_mount \<Rightarrow> byte list \<Rightarrow> u32 \<Rightarrow> unit fuse_res" where
  "fuse_op_chmod m path mode = on_fs m (filsys_chmod (fm_fs m) path mode)"

definition fuse_op_chown :: "fuse_mount \<Rightarrow> byte list \<Rightarrow> u32 \<Rightarrow> u32 \<Rightarrow> unit fuse_res" where
  "fuse_op_chown m path uid gid = on_fs m (filsys_chown (fm_fs m) path uid gid)"

definition fuse_op_truncate :: "fuse_mount \<Rightarrow> byte list \<Rightarrow> int \<Rightarrow> unit fuse_res" where
  "fuse_op_truncate m path sz = on_fs m (filsys_truncate (fm_fs m) path sz)"

definition fuse_op_truncate_ino :: "fuse_mount \<Rightarrow> u32 \<Rightarrow> int \<Rightarrow> unit fuse_res" where
  "fuse_op_truncate_ino m fh sz = on_fs m (filsys_truncate_ino (fm_fs m) fh sz)"

text \<open>A \<^verbatim>\<open>struct timespec\<close>: one of the two special nanosecond values, or a time of which the seconds count.\<close>

datatype timespec = Utime_now | Utime_omit | Utime_sec int

fun time_of :: "timespec \<Rightarrow> int" where
  "time_of Utime_now = -1"
| "time_of Utime_omit = -2"
| "time_of (Utime_sec s) = s"

definition fuse_op_utimens :: "fuse_mount \<Rightarrow> byte list \<Rightarrow> (timespec \<times> timespec) option \<Rightarrow> unit fuse_res" where
  "fuse_op_utimens m path tv = on_fs m (filsys_utimens (fm_fs m) path (map_option (map_prod time_of time_of) tv))"

section \<open>Totals, permissions, flushing\<close>

record posix_statvfs =
  vf_bsize :: nat
  vf_frsize :: nat
  vf_blocks :: nat
  vf_bfree :: nat
  vf_bavail :: nat
  vf_files :: u32
  vf_ffree :: u32
  vf_namemax :: nat

definition fuse_op_statfs :: "fuse_mount \<Rightarrow> posix_statvfs" where
  "fuse_op_statfs m =
     (let s = ops_statfs (fm_fs m); bs = ops_blocksize (fm_fs m) in
      \<lparr>vf_bsize = bs, vf_frsize = bs, vf_blocks = sf_blocks s, vf_bfree = sf_bfree s, vf_bavail = sf_bfree s,
       vf_files = sf_files s, vf_ffree = sf_ffree s, vf_namemax = d_max_namlen (fs_desc (fm_fs m))\<rparr>)"

text \<open>The mask bits: 4 read, 2 write, 1 execute.\<close>

definition perm_bits :: "filsys \<Rightarrow> u32 \<Rightarrow> u32 \<Rightarrow> u32 \<Rightarrow> u32" where
  "perm_bits h uid gid pm =
     (if uid = hd_uid h then drop_bit 6 pm AND 7 else if gid = hd_gid h then drop_bit 3 pm AND 7 else pm AND 7)"

definition fuse_op_access :: "fuse_mount \<Rightarrow> u32 \<Rightarrow> u32 \<Rightarrow> byte list \<Rightarrow> u32 \<Rightarrow> errno + unit" where
  "fuse_op_access m uid gid path msk =
     (case filsys_lookup (fm_fs m) path of
        Inl e \<Rightarrow> Inl e
      | Inr (_, ip) \<Rightarrow>
          if msk AND 2 \<noteq> 0 \<and> hd_readonly (fm_hnd m) then Inl EROFS
          else case fill_stat m ip of
            Inl e \<Rightarrow> Inl e
          | Inr st \<Rightarrow>
              let pm = ps_mode st in
              if uid = 0 then (if msk AND 1 \<noteq> 0 \<and> pm AND 0x49 = 0 then Inl EACCES else Inr ())
              else let bits = perm_bits (fm_hnd m) uid gid pm in
                if msk AND 4 \<noteq> 0 \<and> bits AND 4 = 0 then Inl EACCES
                else if msk AND 2 \<noteq> 0 \<and> bits AND 2 = 0 then Inl EACCES
                else if msk AND 1 \<noteq> 0 \<and> bits AND 1 = 0 then Inl EACCES
                else Inr ())"

definition fuse_op_flush :: "errno + unit \<Rightarrow> fuse_mount \<Rightarrow> unit fuse_res" where
  "fuse_op_flush fsync m = on_fs m (filsys_sync fsync (fm_hnd m) (fm_fs m))"

definition fuse_op_fsync :: "errno + unit \<Rightarrow> fuse_mount \<Rightarrow> unit fuse_res" where
  "fuse_op_fsync fsync m = on_fs m (filsys_sync fsync (fm_hnd m) (fm_fs m))"

section \<open>The table counts handles\<close>

lemma find_open_None: "find_open es ino = None \<longleftrightarrow> ino \<notin> fo_ino ` set es"
  by (induction es) auto

lemma find_open_Some:
  "find_open es ino = Some i \<Longrightarrow> i < length es \<and> fo_ino (es ! i) = ino"
  by (induction es arbitrary: i) (auto split: if_splits)

lemma find_open_distinct:
  assumes "distinct (map fo_ino es)"
  shows "find_open es ino = Some i \<longleftrightarrow> i < length es \<and> fo_ino (es ! i) = ino"
proof
  assume i: "i < length es \<and> fo_ino (es ! i) = ino"
  then have "ino \<in> fo_ino ` set es" by auto
  then obtain j where j: "find_open es ino = Some j" using find_open_None by (metis option.exhaust)
  from find_open_Some [OF j] i assms have "j = i" by (metis distinct_conv_nth length_map nth_map)
  then show "find_open es ino = Some i" using j by simp
qed (rule find_open_Some)

text \<open>
  The count of an inode in a table, as the code reads it, and the table after an entry is
  changed, added, or replaced by the last one.
\<close>

definition refs_of :: "fuse_open list \<Rightarrow> u32 \<Rightarrow> int" where
  "refs_of es ino = (case find_open es ino of Some i \<Rightarrow> fo_refs (es ! i) | None \<Rightarrow> 0)"

lemma refs_of_simps [simp]:
  "refs_of [] ino = 0" "refs_of (e # es) ino = (if fo_ino e = ino then fo_refs e else refs_of es ino)"
  by (auto simp: refs_of_def split: option.split)

lemma refs_of_absent: "k \<notin> fo_ino ` set es \<Longrightarrow> refs_of es k = 0"
  by (induction es) auto

text \<open>With one entry per inode the count is a sum over the entries, whatever their order.\<close>

lemma refs_of_mset:
  "distinct (map fo_ino es) \<Longrightarrow> refs_of es k = sum_mset (image_mset fo_refs (filter_mset (\<lambda>e. fo_ino e = k) (mset es)))"
proof (induction es)
  case (Cons e es)
  then show ?case using refs_of_absent [of "fo_ino e" es] by auto
qed simp

lemma refs_of_nth: "distinct (map fo_ino es) \<Longrightarrow> i < length es \<Longrightarrow> refs_of es (fo_ino (es ! i)) = fo_refs (es ! i)"
  using find_open_distinct [of es "fo_ino (es ! i)" i] by (simp add: refs_of_def)

lemma mset_drop_entry:
  assumes "i < length es"
  shows "mset (butlast (es[i := last es])) = mset es - {#es ! i#}"
proof -
  obtain xs x where es: "es = xs @ [x]" using assms by (cases es rule: rev_cases) auto
  show ?thesis
  proof (cases "i = length xs")
    case False
    then have "i < length xs" using assms es by simp
    then show ?thesis by (simp add: es list_update_append nth_append mset_update)
  qed (simp add: es)
qed

text \<open>The table of a mount is sound for a multiset of handles: one entry per inode, room for them all, the right counts.\<close>

definition table_ok :: "fuse_open list \<Rightarrow> nat \<Rightarrow> u32 multiset \<Rightarrow> bool" where
  "table_ok es cap H \<longleftrightarrow> distinct (map fo_ino es) \<and> length es \<le> cap \<and> (\<forall>k. refs_of es k = int (count H k))"

lemma table_ok_found:
  assumes "table_ok es cap H" "ino \<in># H"
  obtains i where "find_open es ino = Some i" "i < length es" "fo_ino (es ! i) = ino" "fo_refs (es ! i) = int (count H ino)"
proof -
  have r: "refs_of es ino = int (count H ino)" "refs_of es ino \<noteq> 0" using assms by (auto simp: table_ok_def)
  then obtain i where "find_open es ino = Some i" by (cases "find_open es ino") (auto simp: refs_of_def)
  then show thesis using that find_open_Some r(1) by (fastforce simp: refs_of_def)
qed

lemma table_ok_change:
  assumes t: "table_ok es cap H" and i: "i < length es" "fo_ino (es ! i) = ino" and c: "fo_refs (es ! i) + d = int (count H' ino)"
    and o: "\<And>k. k \<noteq> ino \<Longrightarrow> count H' k = count H k"
  shows "table_ok (es[i := (es ! i)\<lparr>fo_refs := fo_refs (es ! i) + d\<rparr>]) cap H'"
proof -
  let ?e = "(es ! i)\<lparr>fo_refs := fo_refs (es ! i) + d\<rparr>"
  have d: "distinct (map fo_ino es)" "length es \<le> cap" "\<And>k. refs_of es k = int (count H k)" using t by (simp_all add: table_ok_def)
  have m: "map fo_ino (es[i := ?e]) = map fo_ino es" using i by (simp add: map_update list_update_same_conv)
  then have d': "distinct (map fo_ino (es[i := ?e]))" using d(1) by simp
  have "refs_of (es[i := ?e]) k = int (count H' k)" for k
  proof (cases "k = ino")
    case True
    then show ?thesis using refs_of_nth [OF d', of i] i c by simp
  next
    case False
    then have "filter_mset (\<lambda>e. fo_ino e = k) (mset (es[i := ?e])) = filter_mset (\<lambda>e. fo_ino e = k) (mset es)"
      using i by (simp add: mset_update)
    then show ?thesis using refs_of_mset [OF d'] refs_of_mset [OF d(1)] d(3) o [OF False] by metis
  qed
  then show ?thesis using d d' i by (simp add: table_ok_def)
qed

lemma table_ok_drop:
  assumes t: "table_ok es cap H" and i: "i < length es" "fo_ino (es ! i) = ino" and c: "count H ino = 0"
  shows "table_ok (butlast (es[i := last es])) cap H"
proof -
  let ?es = "butlast (es[i := last es])"
  have d: "distinct (map fo_ino es)" "length es \<le> cap" "\<And>k. refs_of es k = int (count H k)" using t by (simp_all add: table_ok_def)
  have m: "mset ?es = mset es - {#es ! i#}" by (rule mset_drop_entry [OF i(1)])
  have "mset es = add_mset (es ! i) (mset ?es)" using m i(1) by simp
  then have "mset (map fo_ino es) = mset (ino # map fo_ino ?es)" using i(2) by simp
  then have "distinct (ino # map fo_ino ?es)" using d(1) mset_eq_imp_distinct_iff by blast
  then have d': "distinct (map fo_ino ?es)" "ino \<notin> fo_ino ` set ?es" by simp_all
  have "refs_of ?es k = int (count H k)" for k
  proof (cases "k = ino")
    case True
    then show ?thesis using refs_of_absent [OF d'(2)] c by simp
  next
    case False
    then have "filter_mset (\<lambda>e. fo_ino e = k) (mset ?es) = filter_mset (\<lambda>e. fo_ino e = k) (mset es)"
      using i by (simp add: m)
    then show ?thesis using refs_of_mset [OF d'(1)] refs_of_mset [OF d(1)] d(3) by metis
  qed
  then show ?thesis using d(2) d'(1) i by (simp add: table_ok_def)
qed


lemma track_counts:
  assumes t: "table_ok (fm_open m) (fm_cap m) H"
  shows "(\<exists>m'. fuse_open_track m ino = (Inr (), m') \<and> table_ok (fm_open m') (fm_cap m') (add_mset ino H) \<and>
            fm_fs m' = fm_fs m \<and> fm_hnd m' = fm_hnd m) \<or>
         fuse_open_track m ino = (Inl ENFILE, m)"
proof (cases "find_open (fm_open m) ino")
  case (Some i)
  note f = find_open_Some [OF Some]
  have "refs_of (fm_open m) ino = int (count H ino)" using t by (simp add: table_ok_def)
  then have "fo_refs (fm_open m ! i) + 1 = int (count (add_mset ino H) ino)" using Some by (simp add: refs_of_def)
  from table_ok_change [OF t conjunct1 [OF f] conjunct2 [OF f] this] show ?thesis
    using Some by (simp add: fuse_open_track_def)
next
  case None
  obtain r m1 where r: "open_reserve m = (r, m1)" by fastforce
  show ?thesis
  proof (cases r)
    case (Inl e)
    then have "m1 = m" using r by (auto simp: open_reserve_def Let_def split: if_splits)
    then show ?thesis using None r Inl by (simp add: fuse_open_track_def)
  next
    case (Inr u)
    have m1: "fm_open m1 = fm_open m" "fm_fs m1 = fm_fs m" "fm_hnd m1 = fm_hnd m" "length (fm_open m) < fm_cap m1"
      using r Inr t by (auto simp: open_reserve_def Let_def table_ok_def split: if_splits)
    have n: "ino \<notin> fo_ino ` set (fm_open m)" using None by (simp add: find_open_None)
    then have d: "distinct (map fo_ino (fm_open m @ [\<lparr>fo_ino = ino, fo_refs = 1\<rparr>]))" using t by (simp add: table_ok_def)
    have d0: "distinct (map fo_ino (fm_open m))" using t by (simp add: table_ok_def)
    have "count H ino = 0" using t refs_of_absent [OF n] by (simp add: table_ok_def)
    then have "refs_of (fm_open m @ [\<lparr>fo_ino = ino, fo_refs = 1\<rparr>]) k = int (count (add_mset ino H) k)" for k
      using t refs_of_mset [OF d, of k] refs_of_mset [OF d0, of k] by (simp add: table_ok_def)
    then show ?thesis using None r Inr d m1 by (simp add: fuse_open_track_def table_ok_def)
  qed
qed

text \<open>A release takes one handle off; the file system is touched by the last one only.\<close>

lemma release_counts:
  assumes t: "table_ok (fm_open m) (fm_cap m) H" and h: "ino \<in># H" and r: "fuse_open_release m ino = (r, m')"
  shows "table_ok (fm_open m') (fm_cap m') (H - {#ino#}) \<and> fm_hnd m' = fm_hnd m \<and>
    (if count H ino = 1 then (r, fm_fs m') = free_unlinked (fm_fs m) ino else r = Inr () \<and> fm_fs m' = fm_fs m)"
proof -
  obtain i where i: "find_open (fm_open m) ino = Some i" "i < length (fm_open m)" "fo_ino (fm_open m ! i) = ino"
      "fo_refs (fm_open m ! i) = int (count H ino)"
    by (rule table_ok_found [OF t h])
  let ?es = "(fm_open m)[i := (fm_open m ! i)\<lparr>fo_refs := fo_refs (fm_open m ! i) + - 1\<rparr>]"
  have pos: "0 < count H ino" using h by simp
  have t1: "table_ok ?es (fm_cap m) (H - {#ino#})"
    by (rule table_ok_change [OF t i(2,3)]) (use i(4) pos in \<open>simp_all add: of_nat_diff\<close>)
  show ?thesis
  proof (cases "count H ino = 1")
    case False
    then have "1 < count H ino" using pos by linarith
    then show ?thesis using r t1 False i by (auto simp: fuse_open_release_def Let_def)
  next
    case True
    obtain fr fs where f: "free_unlinked (fm_fs m) ino = (fr, fs)" by fastforce
    have "table_ok (butlast (?es[i := last ?es])) (fm_cap m) (H - {#ino#})"
      by (rule table_ok_drop [OF t1, of _ ino]) (use i True in simp_all)
    then show ?thesis
      using r t1 True i f by (cases fr) (auto simp: fuse_open_release_def Let_def)
  qed
qed

text \<open>
  The states a mount reaches while the kernel keeps its side: a handle is released once for every
  time it was opened.  \<open>H\<close> is the multiset of inodes with an open handle; the engine may do
  anything to the file system in between.
\<close>

inductive fuse_reach :: "fuse_mount \<Rightarrow> u32 multiset \<Rightarrow> bool" where
  start: "fm_open m = [] \<Longrightarrow> fm_cap m = 0 \<Longrightarrow> fuse_reach m {#}"
| opened: "fuse_reach m H \<Longrightarrow> fuse_open_track m ino = (Inr (), m') \<Longrightarrow> fuse_reach m' (add_mset ino H)"
| refused: "fuse_reach m H \<Longrightarrow> fuse_open_track m ino = (Inl e, m') \<Longrightarrow> fuse_reach m' H"
| released: "fuse_reach m H \<Longrightarrow> ino \<in># H \<Longrightarrow> fuse_open_release m ino = (r, m') \<Longrightarrow> fuse_reach m' (H - {#ino#})"
| engine: "fuse_reach m H \<Longrightarrow> fuse_reach (m\<lparr>fm_fs := fs\<rparr>) H"

lemma fuse_reach_table: "fuse_reach m H \<Longrightarrow> table_ok (fm_open m) (fm_cap m) H"
proof (induction rule: fuse_reach.induct)
  case (opened m H ino m')
  then show ?case using track_counts [OF opened.IH, of ino] by auto
next
  case (refused m H ino e m')
  then show ?case using track_counts [OF refused.IH, of ino] by auto
next
  case (released m H ino r m')
  then show ?case using release_counts by blast
qed (simp_all add: table_ok_def)

lemma fuse_refs: "fuse_open_refs m ino = refs_of (fm_open m) ino"
  by (simp add: fuse_open_refs_def refs_of_def)


lemma fuse_reach_refs: "fuse_reach m H \<Longrightarrow> fuse_open_refs m ino = int (count H ino)"
  using fuse_reach_table by (auto simp: fuse_refs table_ok_def)


end
