(* ===== verification/Fuse_Sound.thy ===== *)
theory Fuse_Sound
  imports Fuse_Core
begin

text \<open>
  What holding a file open promises.  Operations keep the descriptor of the mount; an inode write
  that reports success can be read back, on any host; so a name removed from an open file leaves
  its inode as it was but for one link.
\<close>

section \<open>The descriptor is kept\<close>

lemma desc_try:
  assumes "fs_desc (snd m) = fs_desc fs" "\<And>x s. m = (Inr x, s) \<Longrightarrow> fs_desc (snd (k x s)) = fs_desc s"
  shows "fs_desc (snd (try_op m k)) = fs_desc fs" "fs_desc (snd (try_as e m k)) = fs_desc fs"
  using assms by (cases m; cases "fst m"; auto)+

lemma desc_io: "io_only fs fs' \<Longrightarrow> fs_desc fs' = fs_desc fs"
  by (auto simp: io_only_def)

lemmas desc_block = io_only_block [THEN desc_io] and desc_super = io_only_super [THEN desc_io]
  and desc_words = io_only_words [THEN desc_io] and desc_write_inode = io_only_write_inode [THEN desc_io]

lemma desc_v1_block: "fs_desc (snd (v1fs_write_block fs b buf)) = fs_desc fs"
  by (auto simp: v1fs_write_block_def Let_def intro: io_only_io [THEN desc_io])

lemma desc_balloc: "fs_desc (snd (alloc_balloc fs)) = fs_desc fs"
proof -
  have fin: "fs_desc (snd (balloc_finish fs b)) = fs_desc fs" for fs b
    by (auto simp: balloc_finish_def intro!: desc_try desc_block)
  have "fs_desc (snd (v7fs_balloc fs)) = fs_desc fs"
    by (auto simp: v7fs_balloc_def Let_def fl_reload_def fin desc_super intro!: desc_try split: sum.split)
  moreover have "fs_desc (snd (v8_bitmap_balloc fs)) = fs_desc fs"
    by (auto simp: v8_bitmap_balloc_def Let_def desc_block intro!: desc_try split: option.split)
  moreover have "fs_desc (snd (v1fs_balloc fs)) = fs_desc fs"
    by (auto simp: v1fs_balloc_def Let_def desc_v1_block intro!: desc_try split: option.split)
  moreover have "fs_desc (snd (p7fs_balloc fs)) = fs_desc fs"
    by (auto simp: p7fs_balloc_def Let_def desc_words intro!: desc_try split: sum.split)
  ultimately show ?thesis by (auto simp: alloc_balloc_def split: alloc_table.split)
qed

lemma desc_write_block: "fs_desc (snd (ops_write_block fs b buf)) = fs_desc fs"
  by (auto simp: ops_write_block_def p7fs_write_block_def desc_block desc_v1_block desc_words split: option.split backend.split)

lemma desc_blk_put: "fs_desc (snd (ops_blk_put fs b buf)) = fs_desc fs"
  by (auto simp: ops_blk_put_def p7fs_blk_put_def desc_write_block desc_words split: option.split backend.split)

lemma desc_ind_walk: "fs_desc (snd (ind_walk fs blk is create)) = fs_desc fs"
proof (induction fs blk "is" create rule: ind_walk.induct)
  case (2 fs blk i "is" create)
  show ?case
  proof (cases "ops_read_block fs blk")
    case (Inr buf)
    let ?m = "if ind_get fs buf i = 0
      then try_op (alloc_balloc fs) (\<lambda>next fs.
             try_as EIO (ops_write_block fs blk (ind_put fs buf i next)) (\<lambda>_ fs. (Inr next, fs)))
      else (Inr (ind_get fs buf i), fs)"
    have m: "fs_desc (snd ?m) = fs_desc fs" by (auto intro!: desc_try desc_balloc desc_write_block)
    have k: "fs_desc (snd (if is = [] then (Inr nx, s) else ind_walk s nx is create)) = fs_desc s"
      if "\<not> (ind_get fs buf i = 0 \<and> \<not> create)" "?m = (Inr nx, s)" for nx s
      using "2.IH" [OF Inr refl that(1) that(2)] by (cases "is = []") auto
    show ?thesis
      using desc_try(1) [OF m, of "\<lambda>nx s. if is = [] then (Inr nx, s) else ind_walk s nx is create"] k
      by (auto simp: Inr Let_def)
  qed simp
qed simp

text \<open>The same for operations whose state is the mount and the caller's inode.\<close>

lemma desc_try_ip:
  assumes "fs_desc (fst (snd m)) = fs_desc fs" "\<And>x s. m = (Inr x, s) \<Longrightarrow> fs_desc (fst (snd (k x s))) = fs_desc (fst s)"
  shows "fs_desc (fst (snd (try_op m k))) = fs_desc fs"
  using assms by (cases m; cases "fst m"; auto)

lemma desc_ind_follow: "fs_desc (fst (snd (bmap_ind_follow fs ip slot idx create))) = fs_desc fs"
  using desc_balloc [of fs] desc_ind_walk
  by (auto simp: bmap_ind_follow_def Let_def split: sum.split prod.split) (metis snd_conv)+

lemma desc_slots: "fs_desc (fst (snd (bmap_slots fs ip lbn create base slots))) = fs_desc fs"
proof (induction slots arbitrary: base)
  case (Cons slot slots)
  then show ?case using desc_balloc [of fs]
    by (auto simp: Let_def desc_ind_follow split: sum.split prod.split)
qed simp

lemma desc_promote: "fs_desc (fst (snd (bmap_promote fs ip))) = fs_desc fs"
proof -
  obtain r fs1 where b: "alloc_balloc fs = (r, fs1)" by fastforce
  then have d: "fs_desc fs1 = fs_desc fs" using desc_balloc [of fs] by simp
  show ?thesis
  proof (cases r)
    case (Inr iblk)
    let ?buf = "foldl (\<lambda>buf i. ind_put fs1 buf i (ip_addr ip ! i)) (replicate 8192 0) [0..<d_ndaddr (fs_desc fs)]"
    obtain r' fs2 where w: "ops_write_block fs1 iblk ?buf = (r', fs2)" by fastforce
    then have "fs_desc fs2 = fs_desc fs" using desc_write_block [of fs1 iblk ?buf] d by simp
    then show ?thesis using Inr w by (cases r') (simp_all add: bmap_promote_def Let_def b)
  qed (simp add: bmap_promote_def Let_def b d)
qed

lemma desc_bmap: "fs_desc (fst (snd (filsys_bmap fs ip lbn create))) = fs_desc fs"
  unfolding filsys_bmap_def by (rule desc_try_ip) (auto simp: desc_promote desc_slots split: prod.split)

lemma desc_write_loop: "fs_desc (fst (snd (file_write_loop buf off done fs ip))) = fs_desc fs"
proof (induction buf off "done" fs ip rule: file_write_loop.induct)
  case (1 buf off d fs ip)
  show ?case
    unfolding file_write_loop.simps [of buf off d fs ip] Let_def
  proof (split if_split, intro conjI impI, simp, split if_split, intro conjI impI, simp, rule desc_try_ip, rule desc_bmap, goal_cases)
    case (1 pbn s)
    let ?n = "min (d_bsize (fs_desc fs) - (off + d) mod d_bsize (fs_desc fs)) (length buf - d)"
    show ?case
    proof (cases "pbn = 0")
      case False
      show ?thesis
      proof (cases "ops_blk_get (fst s) pbn")
        case (Inr blk)
        obtain r fs' where p: "ops_blk_put (fst s) pbn (memcpy_at blk ((off + d) mod d_bsize (fs_desc fs)) (take ?n (drop d buf))) = (r, fs')" by fastforce
        have d: "fs_desc fs' = fs_desc (fst s)" using desc_blk_put [of "fst s"] p by (metis snd_conv)
        show ?thesis
          using "1.IH" [OF refl 1(1) 1(2) refl refl refl 1(3) False Inr p [symmetric]] False Inr p d
          by (cases r) auto
      qed (simp add: False)
    qed simp
  qed
qed


lemma desc_file_write: "fs_desc (fst (snd (filsys_file_write fs ip buf off))) = fs_desc fs"
proof -
  have "fs_desc (fst (snd (case ops_write_inode fs ino ip' of (Inl e, fs) \<Rightarrow> (Inl e, fs, ip') | (Inr _, fs) \<Rightarrow> (Inr n, fs, ip')))) = fs_desc fs"
    for fs ino ip' and n :: nat
    using desc_write_inode [of fs ino ip'] by (cases "ops_write_inode fs ino ip'"; cases "fst (ops_write_inode fs ino ip')") auto
  then show ?thesis
    by (auto simp: filsys_file_write_def Let_def intro!: desc_try_ip desc_write_loop)
qed

lemma desc_dir_remove:
  assumes "d_ops (fs_desc fs) = Some V7fs_ops"
  shows "fs_desc (fst (snd (ops_dir_remove fs ip name))) = fs_desc fs"
  using assms
  by (auto simp: ops_dir_remove_def v7fs_dir_remove_def written_def intro!: desc_try_ip desc_file_write split: sum.split option.split)

section \<open>A write that succeeds is read back\<close>

text \<open>Without any assumption on the host: the bytes of a block were read before they are written.\<close>

lemma block_reads_back:
  assumes "v7fs_read_block fs b = Inr raw" "v7fs_write_block fs b buf = (Inr (), fs')" "length buf = d_bsize (fs_desc fs)"
  shows "v7fs_read_block fs' b = Inr buf"
proof -
  let ?n = "d_bsize (fs_desc fs)" and ?o = "blk_off fs b"
  have r: "filsys_check_range fs ?o ?n" "?o + ?n \<le> h_len (fs_host fs)" "\<not> h_rd_err (fs_host fs) ?o ?n"
    using assms(1) by (auto simp: v7fs_read_block_def io_file_read_def Let_def split: if_splits)
  have w: "fs' = fs\<lparr>fs_host := host_write (fs_host fs) buf ?o\<rparr>"
    using assms(2,3) r(1)
    by (auto simp: v7fs_write_block_def io_file_write_def Let_def split: if_splits option.splits)
  have "blk_off fs' b = ?o" "filsys_check_range fs' ?o ?n" using r(1) by (simp_all add: w blk_off_def filsys_check_range_def)
  then show ?thesis
    using r assms(3) by (simp add: v7fs_read_block_def io_file_read_def Let_def w host_write_def img_simps)
qed

text \<open>The sizes the slots of an i-list block need.\<close>

definition v7_slots :: "filsys_desc \<Rightarrow> bool" where
  "v7_slots d \<longleftrightarrow> v7_inode_layout d \<and> 64 dvd d_bsize d \<and> 0 < d_bsize d \<and> d_bsize d \<le> 8192"

lemma v7_slots_rows: "e \<in> {FILSYS_V7, FILSYS_V8, FILSYS_V9, FILSYS_V10, FILSYS_32V, FILSYS_COHERENT, FILSYS_XENIX, FILSYS_SYSIII,
    FILSYS_SVR2, FILSYS_SVR4} \<Longrightarrow> v7_slots (filsys_getformat e)"
  by (auto simp: v7_slots_def v7_inode_layout_def)

lemma slot_inside:
  assumes "v7_slots (fs_desc fs)"
  shows "inode_off fs ino + 64 \<le> d_bsize (fs_desc fs)"
proof -
  let ?b = "d_bsize (fs_desc fs)"
  have i: "d_inode_size (fs_desc fs) = 64" "64 dvd ?b" "0 < ?b" "?b \<le> 8192"
    using assms by (simp_all add: v7_slots_def v7_inode_layout_def)
  then obtain k where k: "?b = 64 * k" "0 < k" by auto
  have "unat (of_nat ?b :: u32) = ?b" using i(4) by (intro unat_of_nat_lt) simp
  then have "unat (v7_inopb fs) = k" using i(1) k(1) by (simp add: v7_inopb_def unat_div del: of_nat_mult)
  then have "unat (v7_itoo fs ino) < k" using k(2) by (simp add: v7_itoo_def unat_mod)
  then show ?thesis using i(1) k(1) by (simp add: inode_off_def)
qed

lemma length_v7_encode: "length (v7_inode_encode fs raw o' ip) = length raw"
  by (simp add: v7_inode_encode_def Let_def codec_simps)

lemma v7_write_reads_back:
  assumes s: "v7_slots (fs_desc fs)" and f: "v7_ip_fits (fs_desc fs) ip" and w: "v7fs_write_inode fs ino ip = (Inr (), fs')"
  shows "v7fs_read_inode fs' ino = Inr (ip\<lparr>ip_ino := ino\<rparr>)"
proof -
  have "ino \<noteq> 0" using w by (auto simp: v7fs_write_inode_def)
  then obtain fs1 raw where fl: "flush_dirty fs = (Inr (), fs1)" and lim: "\<not> ucast (fs_isize fs1) \<le> v7_itod fs1 ino"
    and rd: "v7fs_read_block fs1 (v7_itod fs1 ino) = Inr raw"
    and wb: "v7fs_write_block fs1 (v7_itod fs1 ino) (v7_inode_encode fs1 raw (inode_off fs1 ino) ip) = (Inr (), fs')"
    using w by (auto simp: v7fs_write_inode_def Let_def try_op_eq_Inr split: if_splits sum.splits)
  have d1: "fs_desc fs1 = fs_desc fs" using fl desc_super [of fs] by (auto simp: flush_dirty_def split: if_splits)
  have len: "length raw = d_bsize (fs_desc fs1)"
    using rd by (auto simp: v7fs_read_block_def io_file_read_def Let_def split: if_splits)
  have rb: "v7fs_read_block fs' (v7_itod fs1 ino) = Inr (v7_inode_encode fs1 raw (inode_off fs1 ino) ip)"
    by (rule block_reads_back [OF rd wb]) (simp add: length_v7_encode len)
  have d': "fs_desc fs' = fs_desc fs1" "fs_isize fs' = fs_isize fs1"
    using write_block_cases [OF wb] by auto
  then have e: "v7_itod fs' ino = v7_itod fs1 ino" "inode_off fs' ino = inode_off fs1 ino"
    by (simp_all add: v7_itod_def v7_itoo_def v7_inopb_def inode_off_def)
  have "v7_inode_decode fs' ino raw' o' = v7_inode_decode fs1 ino raw' o'" for raw' o' by (simp add: v7_inode_decode_def d')
  moreover have "inode_off fs1 ino + 64 \<le> length raw" using slot_inside [of fs1 ino] s by (simp add: d1 len)
  ultimately have "v7_inode_decode fs' ino (v7_inode_encode fs1 raw (inode_off fs1 ino) ip) (inode_off fs1 ino) = ip\<lparr>ip_ino := ino\<rparr>"
    using v7_inode_roundtrip [of fs1 ip "inode_off fs1 ino" raw ino] s f by (simp add: d1 v7_slots_def)
  then show ?thesis using \<open>ino \<noteq> 0\<close> lim rb by (simp add: v7fs_read_inode_def Let_def e d')
qed

text \<open>An inode that was read is one that can be written back.\<close>

lemma take_bit_24_less: "take_bit 24 v = v \<Longrightarrow> v < (0x1000000 :: u32)"
proof -
  assume "take_bit 24 v = v"
  then have "unat v = take_bit 24 (unat v)" by (metis unsigned_take_bit_eq)
  then have "unat v < 2 ^ 24" by (metis take_bit_nat_less_exp)
  then show ?thesis by (simp add: word_less_nat_alt)
qed

lemma get24_fits: "fits24 (bo_get24 bo p o')"
proof -
  have "take_bit 24 (bo_get24 bo p o') = bo_get24 bo p o'"
    by (cases bo; rule bit_word_eqI)
      (auto simp: bo_get24le_def bo_get24be_def bo_get24me_def bit_simps dest: bit_imp_le_length)
  then show ?thesis unfolding fits24_def by (rule take_bit_24_less)
qed

lemma v7_read_fits:
  assumes "v7fs_read_inode fs ino = Inr ip" "v7_inode_layout (fs_desc fs)"
  shows "v7_ip_fits (fs_desc fs) ip" "ip_ino ip = ino"
proof -
  obtain raw o' where ip: "ip = v7_inode_decode fs ino raw o'"
    using assms(1) by (auto simp: v7fs_read_inode_def Let_def split: if_splits sum.splits)
  have m: "ucast (x :: u16) < (65536 :: u32)" for x using unsigned_less [of x] by (simp add: word_less_nat_alt unsigned_ucast_eq)
  show "v7_ip_fits (fs_desc fs) ip"
    using assms(2) by (auto simp: ip v7_ip_fits_def v7_inode_decode_def Let_def v7_inode_layout_def m get_array_def get24_fits fits24_def [of 0])
  show "ip_ino ip = ino" by (simp add: ip v7_inode_decode_def Let_def zero_inode_def)
qed

section \<open>Removing a name of an open file\<close>

lemma unlink_parts:
  assumes "filsys_unlink fs path defer = (Inr (), fs')"
  obtains dino nm where "resolve_parent fs path = Inr (dino, nm)" "filsys_unlink_in fs dino nm defer = (Inr (), fs')"
  using assms by (auto simp: filsys_unlink_def resolve_parent_def need_def split: prod.splits sum.splits if_splits)

lemma unlink_deferred:
  assumes v: "d_ops (fs_desc fs) = Some V7fs_ops" "v7_slots (fs_desc fs)" "d_max_namlen (fs_desc fs) \<le> 63"
    and l: "path_lookup fs path = Inr ino" and i: "v7fs_read_inode fs ino = Inr ip"
    and u: "filsys_unlink fs path True = (Inr (), fs')"
  shows "v7fs_read_inode fs' ino = Inr (ip\<lparr>ip_nlink := ip_nlink ip - 1\<rparr>)" "fs_desc fs' = fs_desc fs"
proof -
  let ?ip = "ip\<lparr>ip_nlink := ip_nlink ip - 1\<rparr>"
  obtain dino nm where p: "resolve_parent fs path = Inr (dino, nm)" and un: "filsys_unlink_in fs dino nm True = (Inr (), fs')"
    by (rule unlink_parts [OF u])
  from l resolve_parent_lookup [OF p v(3)] have w: "filsys_walk fs dino nm = Inr ino" by simp
  then obtain dip where d: "ops_read_inode fs dino = Inr dip" and dl: "ops_dir_lookup fs dip nm = Inr ino"
    by (auto simp: filsys_walk_def split: if_splits sum.splits)
  have ri: "ops_read_inode fs ino = Inr ip" using v(1) i by (simp add: ops_read_inode_def)
  define fs1 where "fs1 = fst (snd (ops_dir_remove fs dip nm))"
  have wr: "ops_write_inode fs1 ino ?ip = (Inr (), fs')"
    using un d dl ri
    by (auto simp: fs1_def filsys_unlink_in_def need_def need_as_def remove_name_def drop_ip_def Let_def try_op_eq_Inr split: prod.splits)
  have d1: "fs_desc fs1 = fs_desc fs" using desc_dir_remove [OF v(1), of dip nm] by (simp add: fs1_def)
  have "v7_inode_layout (fs_desc fs)" using v(2) by (simp add: v7_slots_def)
  then have "v7_ip_fits (fs_desc fs1) ?ip" "ip_ino ip = ino" using v7_read_fits [OF i] d1 by (simp_all add: v7_ip_fits_def)
  then show "v7fs_read_inode fs' ino = Inr ?ip" "fs_desc fs' = fs_desc fs"
    using v7_write_reads_back [of fs1 ?ip ino fs'] wr v d1 desc_write_inode [of fs1 ino ?ip] by (simp_all add: ops_write_inode_def)
qed

text \<open>
  A handle keeps its inode: whatever opened the file, a name removed from it takes one link and
  nothing else, a release before the last one does not touch the file system, and the last one
  frees the inode exactly if no link is left.
\<close>

lemma held_open:
  assumes r: "fuse_reach m H" "ino \<in># H"
    and v: "d_ops (fs_desc (fm_fs m)) = Some V7fs_ops" "v7_slots (fs_desc (fm_fs m))" "d_max_namlen (fs_desc (fm_fs m)) \<le> 63"
    and l: "path_lookup (fm_fs m) path = Inr ino" and i: "v7fs_read_inode (fm_fs m) ino = Inr ip"
    and u: "fuse_op_unlink m path = (Inr (), m')"
  shows "v7fs_read_inode (fm_fs m') ino = Inr (ip\<lparr>ip_nlink := ip_nlink ip - 1\<rparr>)" "fuse_reach m' H"
    "fuse_op_release m' ino = (s, m'') \<Longrightarrow> fuse_reach m'' (H - {#ino#}) \<and>
       (if 1 < count H ino then s = Inr () \<and> fm_fs m'' = fm_fs m'
        else (s, fm_fs m'') = (if sint (ip_nlink ip - 1) \<le> 0 then filsys_free_ino (fm_fs m') ino else (Inr (), fm_fs m')))"
proof -
  have "refs_of (fm_open m) ino = int (count H ino)" using fuse_reach_table [OF r(1)] by (simp add: table_ok_def)
  then have "open_at m path" using l r(2) by (simp add: open_at_def fuse_refs)
  then obtain fs' where fs': "filsys_unlink (fm_fs m) path True = (Inr (), fs')" and m': "m' = m\<lparr>fm_fs := fs'\<rparr>"
    using u by (cases "filsys_unlink (fm_fs m) path True") (simp add: fuse_op_unlink_def on_fs_def)
  note un = unlink_deferred [OF v l i fs']
  show ip: "v7fs_read_inode (fm_fs m') ino = Inr (ip\<lparr>ip_nlink := ip_nlink ip - 1\<rparr>)" using un(1) by (simp add: m')
  show reach: "fuse_reach m' H" unfolding m' by (rule fuse_reach.engine [OF r(1)])
  assume s: "fuse_op_release m' ino = (s, m'')"
  then have s': "fuse_open_release m' ino = (s, m'')" by (simp add: fuse_op_release_def)
  have "free_unlinked (fm_fs m') ino = (if sint (ip_nlink ip - 1) \<le> 0 then filsys_free_ino (fm_fs m') ino else (Inr (), fm_fs m'))"
    using ip un(2) v(1) by (simp add: free_unlinked_def ops_read_inode_def m')
  moreover have "1 < count H ino \<longleftrightarrow> count H ino \<noteq> 1"
    using r(2) by (metis count_greater_zero_iff less_one linorder_neqE_nat less_irrefl)
  ultimately show "fuse_reach m'' (H - {#ino#}) \<and>
       (if 1 < count H ino then s = Inr () \<and> fm_fs m'' = fm_fs m'
        else (s, fm_fs m'') = (if sint (ip_nlink ip - 1) \<le> 0 then filsys_free_ino (fm_fs m') ino else (Inr (), fm_fs m')))"
    using release_counts [OF fuse_reach_table [OF reach] r(2) s'] fuse_reach.released [OF reach r(2) s'] by (auto split: if_splits)
qed

end
