(* ===== verification/Samples_Fuse.thy ===== *)
theory Samples_Fuse
  imports Fuse_Sound Samples
begin

text \<open>
  A V7 volume with one file in its root directory, mounted with the file open twice, as the
  callbacks see it.
\<close>

text \<open>The root directory in inode 2 and block 20, the empty file \<^verbatim>\<open>a\<close> in inode 3.\<close>

definition fuse_img :: image where
  "fuse_img = (\<lambda>a. if a = 1088 then 0xED else if a = 1089 then 0x41 else if a = 1090 then 2 else if a = 1098 then 16 else if a = 1101 then 20
     else if a = 1152 then 0xA4 else if a = 1153 then 0x81 else if a = 1154 then 1 else if a = 10240 then 3 else if a = 10242 then 97 else 0)"

definition fuse_vol :: filsys_edition where
  "fuse_vol = sample_fs v7_desc 4 64 (sample_fl 3 ([0, 11, 10] @ replicate 47 0) 2) fuse_img"

text \<open>The state such a volume stays in: nothing fails, nothing is dirty.\<close>

definition calm :: "filsys_edition \<Rightarrow> bool" where
  "calm fs \<longleftrightarrow> fs_desc fs = v7_desc \<and> \<not> fs_readonly fs \<and> fs_base fs = 0 \<and> fs_imgsize fs = 32768 \<and> fs_isize fs = 4 \<and> \<not> fs_fl_dirty fs \<and>
     h_len (fs_host fs) = 32768 \<and> h_rd_err (fs_host fs) = (\<lambda>_ _. False) \<and> h_wr_short (fs_host fs) = (\<lambda>_. None)"

lemma calm_vol: "calm fuse_vol"
  by (simp add: calm_def fuse_vol_def) (simp add: sample_fs_def sample_host_def)

lemma calm_read: "calm fs \<Longrightarrow> b < 64 \<Longrightarrow> v7fs_read_block fs b = Inr (img_read (h_img (fs_host fs)) (unat b * 512) 512)"
  by (simp add: calm_def v7fs_read_block_def blk_off_def filsys_check_range_def io_file_read_def word_less_nat_alt Let_def)

lemma calm_write:
  assumes "calm fs" "b < 64" "length buf = 512"
  shows "\<exists>fs'. v7fs_write_block fs b buf = (Inr (), fs') \<and> calm fs'"
  using assms by (simp add: calm_def v7fs_write_block_def blk_off_def filsys_check_range_def io_file_write_def host_write_def word_less_nat_alt Let_def)

lemma calm_write_inode:
  assumes c: "calm fs" and i: "v7_itod fs ino < 4" "ino \<noteq> 0"
  shows "\<exists>fs'. ops_write_inode fs ino ip = (Inr (), fs') \<and> calm fs'"
proof -
  have b: "v7_itod fs ino < 64" using i(1) by (rule less_trans) simp
  have "\<exists>fs'. v7fs_write_block fs (v7_itod fs ino) buf = (Inr (), fs') \<and> calm fs'" if "length buf = 512" for buf
    by (rule calm_write [OF c b that])
  then have "\<exists>fs'. v7fs_write_inode fs ino ip = (Inr (), fs') \<and> calm fs'"
    using c i calm_read [OF c b] by (simp add: v7fs_write_inode_def flush_dirty_def calm_def length_v7_encode not_le Let_def)
  then show ?thesis using c by (simp add: ops_write_inode_def calm_def)
qed

definition fuse_root :: filsys_inode where
  "fuse_root = (zero_inode 2)\<lparr>ip_mode := 0x41ED, ip_nlink := 2, ip_size := 16, ip_addr := 20 # replicate 12 0\<rparr>"

lemma fuse_byte: "h_img (fs_host fuse_vol) = fuse_img" by (simp add: fuse_vol_def sample_host_def)

lemma fuse_inodes:
  "v7fs_read_inode fuse_vol 2 = Inr fuse_root"
  "v7fs_read_inode fuse_vol 3 = Inr ((zero_inode 3)\<lparr>ip_mode := 0x81A4, ip_nlink := 1\<rparr>)"
proof -
  have d: "fs_desc fuse_vol = v7_desc" "fs_isize fuse_vol = 4" by (simp_all add: fuse_vol_def)
  have z: "replicate 12 (0 :: u32) = [0, 0, 0, 0, 0, 0, 0, 0, 0, 0, 0, 0]" "replicate 13 (0 :: u32) = [0, 0, 0, 0, 0, 0, 0, 0, 0, 0, 0, 0, 0]"
    by (simp_all add: numeral_eq_Suc)
  note r = calm_read [OF calm_vol, of 2]
  show "v7fs_read_inode fuse_vol 2 = Inr fuse_root"
    "v7fs_read_inode fuse_vol 3 = Inr ((zero_inode 3)\<lparr>ip_mode := 0x81A4, ip_nlink := 1\<rparr>)"
    using r by (simp_all add: v7fs_read_inode_def d v7_itod_def v7_inopb_def v7_itoo_def inode_off_def v7_inode_decode_def Let_def fuse_byte fuse_img_def
      bo_get16me_def bo_get16le_def bo_get32me_def bo_get24me_def get_array_def upt_rec zero_inode_def fuse_root_def z)
qed

lemma calm_bmap: "calm fs \<Longrightarrow> filsys_bmap fs fuse_root 0 create = (Inr 20, fs, fuse_root)"
  by (simp add: filsys_bmap_def bmap_promotes_def calm_def fuse_root_def upt_rec filsys_slot_level_def level_span_def)

lemma fuse_scan: "fixed_scan fuse_vol fuse_root (fixed_entry_is fuse_vol [97]) (dir_chunks fuse_vol fuse_root) =
    Inr (Some (0, img_read fuse_img 10240 16, 0))"
proof -
  have d: "fs_desc fuse_vol = v7_desc" by (simp add: fuse_vol_def)
  have "ops_blk_get fuse_vol 20 = Inr (img_read fuse_img 10240 512)"
    using calm_read [OF calm_vol, of 20] by (simp add: ops_blk_get_def ops_read_block_def d fuse_byte)
  moreover have "take 16 (img_read fuse_img 10240 512) = img_read fuse_img 10240 16" by (simp add: img_read_def take_map)
  ultimately have "filsys_file_read fuse_vol fuse_root 16 0 = Inr (img_read fuse_img 10240 16)"
    by (simp add: filsys_file_read_def fuse_root_def [THEN arg_cong, of ip_size] file_read_loop.simps calm_bmap [OF calm_vol] d zero_inode_def Let_def)
  moreover have "dir_chunks fuse_vol fuse_root = [0]" "dir_chunk fuse_vol = 512" "unat (ip_size fuse_root) = 16"
    by (simp_all add: dir_chunks_def dir_chunk_def d fuse_root_def)
  moreover have "fixed_entry_is fuse_vol [97] (img_read fuse_img 10240 16) 0"
    by (simp add: fixed_entry_is_def d bo_get16me_def bo_get16le_def fuse_img_def fixed_name_eq_def fixed_name_eq_from.simps)
  ultimately show ?thesis by (simp add: d entry_offsets_def)
qed

lemma fuse_lookup: "ops_dir_lookup fuse_vol fuse_root [97] = Inr 3"
proof -
  have "fs_desc fuse_vol = v7_desc" by (simp add: fuse_vol_def)
  then show ?thesis
    by (simp add: ops_dir_lookup_def v7fs_dir_lookup_def fuse_scan bo_get16me_def bo_get16le_def) (simp add: fuse_img_def)
qed

lemma fuse_remove: "\<exists>fs ip. ops_dir_remove fuse_vol fuse_root [97] = (Inr (), fs, ip) \<and> calm fs"
proof -
  have d: "fs_desc fuse_vol = v7_desc" by (simp add: fuse_vol_def)
  have g: "ops_blk_get fuse_vol 20 = Inr (img_read fuse_img 10240 512)"
    using calm_read [OF calm_vol, of 20] by (simp add: ops_blk_get_def ops_read_block_def d fuse_byte)
  let ?buf = "memcpy_at (img_read fuse_img 10240 512) 0 (replicate 16 0)"
  obtain fs1 where w: "v7fs_write_block fuse_vol 20 ?buf = (Inr (), fs1)" "calm fs1"
    using calm_write [OF calm_vol, of 20 ?buf] by auto
  have p: "ops_blk_put fuse_vol 20 ?buf = (Inr (), fs1)" using w(1) by (simp add: ops_blk_put_def ops_write_block_def d)
  have "file_write_loop (replicate 16 0) 0 0 fuse_vol fuse_root = (Inr (), fs1, fuse_root)"
    by (subst file_write_loop.simps) (simp add: d calm_bmap [OF calm_vol] g p file_write_loop.simps)
  moreover have "v7_itod fs1 2 < 4" using w(2) by (simp add: calm_def v7_itod_def v7_inopb_def)
  then obtain fs2 where "ops_write_inode fs1 2 fuse_root = (Inr (), fs2)" "calm fs2"
    using calm_write_inode [OF w(2), of 2 fuse_root] by auto
  moreover have "unat (ip_size fuse_root) = 16" "ip_ino fuse_root = 2" by (simp_all add: fuse_root_def zero_inode_def)
  ultimately show ?thesis
    by (simp add: ops_dir_remove_def d v7fs_dir_remove_def fuse_scan written_def filsys_file_write_def)
qed

lemma fuse_path: "path_lookup fuse_vol [slash, 97] = Inr 3" "path_lookup fuse_vol [slash] = Inr 2"
proof -
  have d: "fs_desc fuse_vol = v7_desc" by (simp add: fuse_vol_def)
  have "ops_read_inode fuse_vol 2 = Inr fuse_root" using fuse_inodes(1) by (simp add: ops_read_inode_def d)
  moreover have "mode_is_dir v7_desc fuse_root" by (simp add: mode_is_dir_def fuse_root_def)
  ultimately have "filsys_walk fuse_vol 2 [97] = Inr 3" by (simp add: filsys_walk_def d fuse_lookup)
  then show "path_lookup fuse_vol [slash, 97] = Inr 3" "path_lookup fuse_vol [slash] = Inr 2"
    by (simp_all add: path_lookup_def d path_walk.simps)
qed

lemma fuse_unlinks: "\<exists>fs. filsys_unlink fuse_vol [slash, 97] True = (Inr (), fs)"
proof -
  have d: "fs_desc fuse_vol = v7_desc" by (simp add: fuse_vol_def)
  have r: "ops_read_inode fuse_vol 2 = Inr fuse_root"
    "ops_read_inode fuse_vol 3 = Inr ((zero_inode 3)\<lparr>ip_mode := 0x81A4, ip_nlink := 1\<rparr>)"
    using fuse_inodes by (simp_all add: ops_read_inode_def d)
  obtain fs ip where m: "ops_dir_remove fuse_vol fuse_root [97] = (Inr (), fs, ip)" "calm fs" using fuse_remove by blast
  have "v7_itod fs 3 < 4" using m(2) by (simp add: calm_def v7_itod_def v7_inopb_def)
  then have "\<exists>fs'. ops_write_inode fs 3 ip = (Inr (), fs')" for ip using calm_write_inode [OF m(2), of 3 ip] by auto
  then have "\<exists>fs'. filsys_unlink_in fuse_vol 2 [97] True = (Inr (), fs')"
    by (simp add: filsys_unlink_in_def need_def need_as_def r fuse_lookup remove_name_def drop_ip_def m Let_def)
  then show ?thesis
    by (simp add: filsys_unlink_def split_for_def split_path_def d need_def filsys_lookup_def fuse_path r mode_is_dir_def)
qed

text \<open>The mount behind it, with the file opened twice.\<close>

definition fuse_held :: fuse_mount where
  "fuse_held = \<lparr>fm_hnd = \<lparr>hd_ver = FILSYS_V7, hd_uid = 0, hd_gid = 0, hd_readonly = False\<rparr>, fm_fs = fuse_vol,
     fm_open = [\<lparr>fo_ino = 3, fo_refs = 2\<rparr>], fm_cap = 16\<rparr>"

lemma fuse_held_reach: "fuse_reach fuse_held {#3, 3#}"
proof -
  let ?m = "\<lambda>es c. fuse_held\<lparr>fm_open := es, fm_cap := c\<rparr>"
  have a: "h_alloc (fs_host fuse_vol) n" for n by (simp add: fuse_vol_def sample_host_def)
  have "fuse_reach (?m [] 0) {#}" by (rule fuse_reach.start) simp_all
  moreover have "fuse_open_track (?m [] 0) 3 = (Inr (), ?m [\<lparr>fo_ino = 3, fo_refs = 1\<rparr>] 16)"
    by (simp add: fuse_open_track_def open_reserve_def fuse_held_def a)
  moreover have "fuse_open_track (?m [\<lparr>fo_ino = 3, fo_refs = 1\<rparr>] 16) 3 = (Inr (), fuse_held)"
    by (simp add: fuse_open_track_def fuse_held_def)
  ultimately show ?thesis by (blast intro: fuse_reach.opened)
qed

lemma fuse_held_unlinks: "\<exists>m'. fuse_op_unlink fuse_held [slash, 97] = (Inr (), m')"
proof -
  have "open_at fuse_held [slash, 97]" by (simp add: open_at_def fuse_held_def fuse_path fuse_open_refs_def)
  then show ?thesis using fuse_unlinks by (auto simp: fuse_op_unlink_def on_fs_def fuse_held_def)
qed

section \<open>A PDP-7 volume whose host fails every write\<close>

text \<open>The file in inode 9 holds block 900.\<close>

definition p7_short :: filsys_edition where
  "p7_short = p7_sample\<lparr>fs_host := (fs_host p7_sample)\<lparr>h_wr_short := (\<lambda>_. Some 0)\<rparr>\<rparr>"

definition p7_held :: filsys_inode where
  "p7_held = empty_p7_file\<lparr>ip_addr := 900 # replicate 12 0, ip_size := 64\<rparr>"

lemma p7_short_fields:
  "fs_desc p7_short = pdp7_desc" "fs_freelist p7_short = 800" "fs_readonly p7_short = False" "fs_fl_dirty p7_short = False"
  "fs_imgsize p7_short = 2048000" "fs_base p7_short = 0" "h_img (fs_host p7_short) = (\<lambda>_. 0)" "h_alloc (fs_host p7_short) n"
  "h_wr_short (fs_host p7_short) k = Some 0" "h_len (fs_host p7_short) = 2048000" "\<not> h_rd_err (fs_host p7_short) off n"
  by (simp_all add: p7_short_def) (simp_all add: p7_sample_def sample_host_def sample_fs_def)

lemma p7_short_truncates: "\<exists>bl ip. itrunc p7_short p7_held = (Inr bl, ip) \<and> bl_blk bl = [900]"
  by (simp add: itrunc_def filsys_blklist_new_def filsys_itrunc_def p7_short_fields p7_held_def empty_p7_file_def zero_inode_def
      is_data_inode_def mode_is_device_def p7_is_device_def has_def filsys_slot_level_def blklist_push_def upt_rec Let_def)

lemma p7_short_destroy: "\<exists>fs'. inode_destroy p7_short 9 p7_held = (Inl EIO, fs')"
proof -
  have "\<exists>ws. read_words p7_short 3 = Inr ws"
    by (simp add: read_words_def p7_short_fields word_off_def filsys_check_range_def io_file_read_def Let_def)
  moreover have "\<exists>fs'. write_words p7_short 3 ws = (Inl EIO, fs')" for ws
    by (simp add: write_words_def p7_short_fields word_off_def filsys_check_range_def io_file_write_def Let_def flip: length_0_conv)
  ultimately have w: "\<exists>fs'. ops_write_inode p7_short 9 ip = (Inl EIO, fs')" for ip
    by (auto simp: ops_write_inode_def p7_short_fields p7fs_write_inode_def p7_itod_def)
  obtain bl ip where t: "itrunc p7_short p7_held = (Inr bl, ip)" using p7_short_truncates by blast
  then show ?thesis using w [of "ip\<lparr>ip_mode := 0\<rparr>"] by (auto simp: inode_destroy_def)
qed

end
