(* ===== verification/File_Data.thy ===== *)
theory File_Data
  imports File_IO Blocktree_Stores
begin

text \<open>
  File contents.  Over the block tree a file is an array of bytes in which holes are zero;
  \<^verbatim>\<open>filsys_file_read\<close> reads a stretch of it and \<^verbatim>\<open>filsys_file_write\<close> replaces one.  The
  argument is made in the locale \<open>file_store\<close>, which adds the data-block codec to \<open>tree_store\<close>.
\<close>

section \<open>Stretches of a block\<close>

lemma within_block:
  assumes "(i::nat) < min (bs - off mod bs) m" "0 < bs"
  shows "(off + i) div bs = off div bs" "(off + i) mod bs = off mod bs + i"
proof -
  have lt: "off mod bs + i < bs" using assms by (simp add: min_def split: if_splits)
  have e: "off + i = off div bs * bs + (off mod bs + i)" by simp
  show "(off + i) div bs = off div bs" unfolding e using lt assms(2) by (subst div_mult_self3) simp_all
  show "(off + i) mod bs = off mod bs + i" unfolding e using lt by (subst mod_mult_self3) simp
qed

lemma of_nat_block_inj:
  assumes "k < 2 ^ 32" "j < 2 ^ 32" "(of_nat (k div bs) :: u32) = of_nat (j div bs)"
  shows "k div bs = j div bs"
proof -
  have "k div bs < 2 ^ 32" "j div bs < 2 ^ 32" using assms(1,2) by (meson div_le_dividend le_less_trans)+
  then have "unat (of_nat (k div bs) :: u32) = k div bs" "unat (of_nat (j div bs) :: u32) = j div bs"
    by (simp_all add: unat_of_nat_lt)
  then show ?thesis using assms(3) by metis
qed

text \<open>The blocks the bytes from \<open>k\<close> to the end \<open>e\<close> of the request lie in.\<close>

definition blocks_left :: "nat \<Rightarrow> nat \<Rightarrow> nat \<Rightarrow> nat" where
  "blocks_left bs e k = (if e \<le> k then 0 else (e - 1) div bs + 1 - k div bs)"

lemma blocks_left_step:
  assumes "k < e" "0 < bs"
  shows "blocks_left bs e k = Suc (blocks_left bs e (k + min (bs - k mod bs) (e - k)))"
proof (cases "e - k \<le> bs - k mod bs")
  case True
  have "(e - 1) div bs = k div bs"
    using within_block(1) [of "e - 1 - k" bs k "e - k"] True assms by (simp add: min_def)
  then show ?thesis using assms True by (simp add: blocks_left_def min_def)
next
  case False
  have "k + (bs - k mod bs) = k div bs * bs + bs"
    using mod_less_divisor [OF assms(2), of k] div_mult_mod_eq [of k bs] by linarith
  then have "(k + (bs - k mod bs)) div bs = Suc (k div bs)" using assms(2) by (simp add: div_add1_eq)
  moreover have "k + (bs - k mod bs) \<le> e - 1" using False assms by linarith
  then have "(k + (bs - k mod bs)) div bs \<le> (e - 1) div bs" by (rule div_le_mono)
  ultimately show ?thesis using False assms by (simp add: blocks_left_def min_def Suc_diff_le)
qed

section \<open>Data blocks\<close>

locale file_store = tree_store +
  fixes cut :: "byte \<Rightarrow> byte"
  assumes get_ok: "inv fs \<Longrightarrow> b \<in> area fs \<Longrightarrow> ops_blk_get fs b = Inr (data fs b)"
    and data_len: "inv fs \<Longrightarrow> length (data fs b) = d_bsize (fs_desc fs)"
    and data_cut: "inv fs \<Longrightarrow> map cut (data fs b) = data fs b"
    and cut_zero: "cut 0 = 0"
    and bsize_pos: "inv fs \<Longrightarrow> 0 < d_bsize (fs_desc fs)"
    and blk_put_ok: "inv fs \<Longrightarrow> b \<in> area fs - frees fs \<Longrightarrow> length buf = d_bsize (fs_desc fs) \<Longrightarrow>
      \<exists>fs'. ops_blk_put fs b buf = (Inr (), fs') \<and> inv fs' \<and> frees fs' = frees fs \<and> area fs' = area fs \<and>
        fs_desc fs' = fs_desc fs \<and> data fs' b = map cut buf \<and>
        (\<forall>c \<in> area fs. c \<noteq> b \<longrightarrow> ent fs' c = ent fs c \<and> data fs' c = data fs c)"
begin

definition fbyte :: "filsys_edition \<Rightarrow> filsys_inode \<Rightarrow> nat \<Rightarrow> byte" where
  "fbyte fs ip k = fblock fs ip (of_nat (k div d_bsize (fs_desc fs))) ! (k mod d_bsize (fs_desc fs))"

lemma length_fblock: "file_ok fs ip \<Longrightarrow> length (fblock fs ip l) = d_bsize (fs_desc fs)"
  by (simp add: fblock_def data_len file_ok_def tree_ok_def)

lemma fblock_cut: "file_ok fs ip \<Longrightarrow> map cut (fblock fs ip l) = fblock fs ip l"
  by (simp add: fblock_def data_cut file_ok_def tree_ok_def cut_zero)

text \<open>Different logical blocks are different blocks.\<close>

lemma block_of_inj:
  assumes F: "file_ok fs ip" and fit: "spans_fit fs (ip_mode ip)" and b: "block_of fs ip l \<noteq> 0"
    and eq: "block_of fs ip l' = block_of fs ip l"
  shows "l' = l"
proof -
  obtain q where q: "lbn_path fs (ip_mode ip) l = Some q" "q \<in> bpaths fs (ip_mode ip)"
      "block_of fs ip l = node (slots_of ip) (ent fs) q" by (rule block_of_leaf [OF F b])
  have b': "block_of fs ip l' \<noteq> 0" using b eq by simp
  obtain r where r: "lbn_path fs (ip_mode ip) l' = Some r" "r \<in> bpaths fs (ip_mode ip)"
      "block_of fs ip l' = node (slots_of ip) (ent fs) r" by (rule block_of_leaf [OF F b'])
  have "r = q" using F q(2,3) r(2,3) eq b unfolding file_ok_def tree_ok_def no_sharing_def by metis
  then show ?thesis using lbn_path_inj [OF _ fit r(1)] q(1) F by (simp add: file_ok_def)
qed

text \<open>Overwriting a data block leaves the tree and every other block of the file alone.\<close>

lemma put_leaf:
  assumes F: "file_ok fs ip" and fit: "spans_fit fs (ip_mode ip)" and b: "block_of fs ip l \<noteq> 0"
    and len: "length buf = d_bsize (fs_desc fs)"
  obtains fs' where "ops_blk_put fs (block_of fs ip l) buf = (Inr (), fs')" "file_ok fs' ip"
    "fs_desc fs' = fs_desc fs" "frees fs' = frees fs" "area fs' = area fs"
    "\<forall>l'. fblock fs' ip l' = (if l' = l then map cut buf else fblock fs ip l')"
proof -
  let ?b = "block_of fs ip l" and ?P = "bpaths fs (ip_mode ip)" and ?A = "slots_of ip"
  have n: "nindir_ok fs" and T: "tree_ok fs ?P ?A" using F by (simp_all add: file_ok_def)
  obtain p where p: "lbn_path fs (ip_mode ip) l = Some p" "p \<in> ?P" "?b = node ?A (ent fs) p" "?b \<in> area fs - frees fs"
    by (rule block_of_leaf [OF F b])
  have inv: "inv fs" using T by (simp add: tree_ok_def)
  obtain fs' where w: "ops_blk_put fs ?b buf = (Inr (), fs')" "inv fs'" "frees fs' = frees fs" "area fs' = area fs"
      "fs_desc fs' = fs_desc fs" "data fs' ?b = map cut buf"
      "\<forall>c \<in> area fs. c \<noteq> ?b \<longrightarrow> ent fs' c = ent fs c \<and> data fs' c = data fs c"
    using blk_put_ok [OF inv p(4) len] by blast
  have leaf: "r @ [j] \<notin> ?P" if "node ?A (ent fs) r = ?b" "r \<in> ?P" for r j
  proof -
    have "r = p" using T that p(2,3) b unfolding tree_ok_def no_sharing_def by metis
    then show ?thesis using lbn_path_in(2,3) [OF p(1) n] by (cases p) (auto simp: bpaths_def)
  qed
  have nodes: "node ?A (ent fs') q = node ?A (ent fs) q" if "q \<in> ?P" for q
  proof (rule node_cong [OF path_set_bpaths that])
    fix r j assume "r \<in> ?P" "r @ [j] \<in> ?P" "node ?A (ent fs) r \<noteq> 0"
    then show "ent fs' (node ?A (ent fs) r) j = ent fs (node ?A (ent fs) r) j"
      using leaf T w(7) unfolding tree_ok_def by (metis DiffD1)
  qed simp
  have P: "bpaths fs' (ip_mode ip) = ?P" by (rule bpaths_cong [OF w(5)])
  have "no_sharing ?P ?A (ent fs')" using T nodes unfolding tree_ok_def no_sharing_def by metis
  then have T': "tree_ok fs' ?P ?A" using T w(2-5) nodes unfolding tree_ok_def by simp
  have F': "file_ok fs' ip" using F T' unfolding file_ok_def P by (simp add: w(5) nindir_ok_def)
  have same: "block_of fs' ip l' = block_of fs ip l'" for l'
  proof -
    have "lbn_path fs' (ip_mode ip) l' = lbn_path fs (ip_mode ip) l'"
      unfolding lbn_path_def w(5) by (rule bmap_path_cong [OF w(5)])
    then show ?thesis using nodes lbn_path_in(1) [OF _ n] by (auto simp: block_of_def split: option.split)
  qed
  have "fblock fs' ip l' = (if l' = l then map cut buf else fblock fs ip l')" for l'
  proof (cases "l' = l \<or> block_of fs ip l' = 0")
    case True
    then show ?thesis using b w(5,6) by (auto simp: fblock_def same)
  next
    case False
    then have "block_of fs ip l' \<noteq> ?b" "block_of fs ip l' \<in> area fs"
      using block_of_inj [OF F fit b] block_of_leaf [OF F, of l'] by (blast, blast)
    then show ?thesis using False w(7) by (simp add: fblock_def same)
  qed
  then show thesis using that w F' by blast
qed

text \<open>A change elsewhere leaves the file alone.\<close>

lemma file_frame:
  assumes F: "file_ok fs ip" and inv': "inv fs'" and s: "frees fs' = frees fs" "area fs' = area fs" "fs_desc fs' = fs_desc fs"
    and c: "\<And>c. c \<in> area fs - frees fs \<Longrightarrow> ent fs' c = ent fs c \<and> data fs' c = data fs c"
    and ip': "ip_addr ip' = ip_addr ip" "ip_mode ip' = ip_mode ip"
  shows "file_ok fs' ip'" "fblock fs' ip' l = fblock fs ip l"
proof -
  let ?P = "bpaths fs (ip_mode ip)" and ?A = "slots_of ip"
  have n: "nindir_ok fs" and T: "tree_ok fs ?P ?A" using F by (simp_all add: file_ok_def)
  have A: "slots_of ip' = ?A" by (simp add: ip')
  have P: "bpaths fs' (ip_mode ip') = ?P" unfolding ip' by (rule bpaths_cong [OF s(3)])
  have nodes: "node ?A (ent fs') q = node ?A (ent fs) q" if "q \<in> ?P" for q
  proof (rule node_cong [OF path_set_bpaths that])
    fix r j assume "r \<in> ?P" "node ?A (ent fs) r \<noteq> 0"
    then show "ent fs' (node ?A (ent fs) r) j = ent fs (node ?A (ent fs) r) j"
      using T c unfolding tree_ok_def by metis
  qed simp
  have "no_sharing ?P ?A (ent fs')" using T nodes unfolding tree_ok_def no_sharing_def by metis
  then have "tree_ok fs' ?P ?A" using T inv' s nodes unfolding tree_ok_def by simp
  then show F': "file_ok fs' ip'" using F unfolding file_ok_def P A by (simp add: s(3) nindir_ok_def ip')
  have b: "block_of fs' ip' l = block_of fs ip l"
  proof -
    have "lbn_path fs' (ip_mode ip') l = lbn_path fs (ip_mode ip) l"
      unfolding lbn_path_def s(3) ip' by (rule bmap_path_cong [OF s(3)])
    then show ?thesis using nodes lbn_path_in(1) [OF _ n] A by (auto simp: block_of_def split: option.split)
  qed
  show "fblock fs' ip' l = fblock fs ip l"
  proof (cases "block_of fs ip l = 0")
    case False
    then have "block_of fs ip l \<in> area fs - frees fs" using block_of_leaf [OF F] by blast
    then show ?thesis using c b False by (simp add: fblock_def)
  qed (simp add: fblock_def b s(3))
qed

section \<open>Reading\<close>

lemma read_stretch:
  assumes F: "file_ok fs ip" and n: "n = min (d_bsize (fs_desc fs) - k mod d_bsize (fs_desc fs)) m"
  shows "take n (drop (k mod d_bsize (fs_desc fs)) (fblock fs ip (of_nat (k div d_bsize (fs_desc fs))))) =
    map (fbyte fs ip) [k..<k + n]"
proof (rule nth_equalityI)
  have bs: "0 < d_bsize (fs_desc fs)" using F bsize_pos by (simp add: file_ok_def tree_ok_def)
  show len: "length (take n (drop (k mod d_bsize (fs_desc fs)) (fblock fs ip (of_nat (k div d_bsize (fs_desc fs)))))) =
      length (map (fbyte fs ip) [k..<k + n])"
    using n by (simp add: length_fblock [OF F])
  fix i assume "i < length (take n (drop (k mod d_bsize (fs_desc fs)) (fblock fs ip (of_nat (k div d_bsize (fs_desc fs))))))"
  then have i: "i < n" unfolding len by simp
  note w = within_block [OF i [unfolded n] bs]
  show "take n (drop (k mod d_bsize (fs_desc fs)) (fblock fs ip (of_nat (k div d_bsize (fs_desc fs))))) ! i =
      map (fbyte fs ip) [k..<k + n] ! i"
    using i n mod_less_divisor [OF bs, of k] by (simp add: fbyte_def w length_fblock [OF F])
qed

lemma read_block_bytes:
  assumes F: "file_ok fs ip"
  shows "fst (filsys_bmap fs ip l False) = Inr (block_of fs ip l)"
    "(if block_of fs ip l = 0 then Inr (replicate (d_bsize (fs_desc fs)) 0) else ops_blk_get fs (block_of fs ip l)) =
      Inr (fblock fs ip l)"
proof -
  show "fst (filsys_bmap fs ip l False) = Inr (block_of fs ip l)" by (simp add: bmap_lookup [OF F])
  have "ops_blk_get fs (block_of fs ip l) = Inr (data fs (block_of fs ip l))" if "block_of fs ip l \<noteq> 0"
  proof (rule block_of_leaf [OF F that])
    assume "block_of fs ip l \<in> area fs - frees fs"
    then show ?thesis using F get_ok unfolding file_ok_def tree_ok_def by blast
  qed
  then show "(if block_of fs ip l = 0 then Inr (replicate (d_bsize (fs_desc fs)) 0) else ops_blk_get fs (block_of fs ip l)) =
      Inr (fblock fs ip l)" by (simp add: fblock_def)
qed

lemma read_loop:
  assumes F: "file_ok fs ip" and "length acc \<le> sz"
  shows "file_read_loop fs ip off sz acc = Inr (acc @ map (fbyte fs ip) [off + length acc..<off + sz])"
  using assms(2)
proof (induction "sz - length acc" arbitrary: acc rule: less_induct)
  case less
  have bs: "0 < d_bsize (fs_desc fs)" using F bsize_pos by (simp add: file_ok_def tree_ok_def)
  show ?case
  proof (cases "sz \<le> length acc")
    case True
    then show ?thesis using less.prems by (simp add: file_read_loop.simps)
  next
    case False
    let ?k = "off + length acc"
    define n where "n = min (d_bsize (fs_desc fs) - ?k mod d_bsize (fs_desc fs)) (sz - length acc)"
    let ?blk = "fblock fs ip (of_nat (?k div d_bsize (fs_desc fs)))"
    have n: "0 < n" "n \<le> sz - length acc" "?k mod d_bsize (fs_desc fs) + n \<le> d_bsize (fs_desc fs)"
      using False bs mod_less_divisor [OF bs, of ?k] by (auto simp: n_def)
    have take: "take n (drop (?k mod d_bsize (fs_desc fs)) ?blk) = map (fbyte fs ip) [?k..<?k + n]"
      by (rule read_stretch [OF F n_def])
    have step: "file_read_loop fs ip off sz acc = file_read_loop fs ip off sz (acc @ map (fbyte fs ip) [?k..<?k + n])"
      using False bs n(3) length_fblock [OF F]
      by (subst file_read_loop.simps)
        (simp add: Let_def read_block_bytes [OF F] n_def [symmetric] take)
    have "file_read_loop fs ip off sz (acc @ map (fbyte fs ip) [?k..<?k + n]) =
        Inr ((acc @ map (fbyte fs ip) [?k..<?k + n]) @ map (fbyte fs ip) [off + (length acc + n)..<off + sz])"
      using less.hyps [of "acc @ map (fbyte fs ip) [?k..<?k + n]"] n False by simp
    moreover have "[?k..<?k + n] @ [off + (length acc + n)..<off + sz] = [?k..<off + sz]"
      using n upt_add_eq_append [of ?k "?k + n" "sz - length acc - n"] False by (simp add: add.assoc)
    ultimately show ?thesis unfolding step by (metis append_assoc map_append)
  qed
qed

lemma file_read:
  assumes "file_ok fs ip"
  shows "filsys_file_read fs ip sz (int off) = Inr (map (fbyte fs ip) [off..<min (off + sz) (unat (ip_size ip))])"
proof (cases "unat (ip_size ip) \<le> off")
  case False
  have "off + min sz (unat (ip_size ip) - off) = min (off + sz) (unat (ip_size ip))" using False by linarith
  then show ?thesis using False read_loop [OF assms, of "[]" "min sz (unat (ip_size ip) - off)" off]
    unfolding filsys_file_read_def of_nat_le_iff by simp
qed (unfold filsys_file_read_def of_nat_le_iff, simp)

section \<open>Writing\<close>

text \<open>What stays of mount and inode while a file is written.\<close>

definition same_file :: "filsys_edition \<Rightarrow> filsys_inode \<Rightarrow> filsys_edition \<Rightarrow> filsys_inode \<Rightarrow> bool" where
  "same_file fs ip fs' ip' \<longleftrightarrow> file_ok fs' ip' \<and> fs_desc fs' = fs_desc fs \<and> frees fs' \<subseteq> frees fs \<and> area fs' = area fs \<and>
     (\<exists>a. ip' = ip\<lparr>ip_addr := a\<rparr> \<and> length a = length (ip_addr ip))"

lemma same_file_refl: "file_ok fs ip \<Longrightarrow> same_file fs ip fs ip"
  unfolding same_file_def by (auto intro!: exI [of _ "ip_addr ip"])

lemma same_file_trans:
  assumes "same_file fs ip fs1 ip1" "same_file fs1 ip1 fs2 ip2"
  shows "same_file fs ip fs2 ip2"
  using assms unfolding same_file_def by auto

lemma same_file_cong:
  assumes "same_file fs ip fs' ip'"
  shows "ip_mode ip' = ip_mode ip" "lbn_path fs' (ip_mode ip') l = lbn_path fs (ip_mode ip) l"
    "bmap_promotes fs' ip' l c = bmap_promotes fs ip l c" "spans_fit fs' (ip_mode ip') = spans_fit fs (ip_mode ip)"
    "ip_size ip' = ip_size ip" "ip_ino ip' = ip_ino ip"
proof -
  have d: "fs_desc fs' = fs_desc fs" and m: "ip_mode ip' = ip_mode ip" "ip_size ip' = ip_size ip" "ip_ino ip' = ip_ino ip"
    using assms by (auto simp: same_file_def)
  then show "ip_mode ip' = ip_mode ip" "ip_size ip' = ip_size ip" "ip_ino ip' = ip_ino ip" by simp_all
  show "lbn_path fs' (ip_mode ip') l = lbn_path fs (ip_mode ip) l"
    unfolding lbn_path_def m d by (rule bmap_path_cong [OF d])
  show "bmap_promotes fs' ip' l c = bmap_promotes fs ip l c" by (simp add: bmap_promotes_def d m)
  show "spans_fit fs' (ip_mode ip') = spans_fit fs (ip_mode ip)"
    by (simp add: spans_fit_def nat_span_def [abs_def] slot_depth_def filsys_slot_level_def d m)
qed

text \<open>One turn of the loop: map the block, read it, put the bytes in, write it.\<close>

lemma write_step:
  assumes F: "file_ok fs ip" and fit: "spans_fit fs (ip_mode ip)" and np: "\<not> bmap_promotes fs ip l True"
    and p: "lbn_path fs (ip_mode ip) l = Some p" and len: "boff + length c \<le> d_bsize (fs_desc fs)"
  shows "(\<exists>b fs1 ip1 fs2. filsys_bmap fs ip l True = (Inr b, fs1, ip1) \<and> b \<noteq> 0 \<and>
      ops_blk_get fs1 b = Inr (fblock fs ip l) \<and>
      ops_blk_put fs1 b (memcpy_at (fblock fs ip l) boff c) = (Inr (), fs2) \<and> same_file fs ip fs2 ip1 \<and>
      card (frees fs) \<le> card (frees fs2) + length p \<and>
      (\<forall>l'. fblock fs2 ip1 l' = (if l' = l then memcpy_at (fblock fs ip l) boff (map cut c) else fblock fs ip l'))) \<or>
    (\<exists>st. filsys_bmap fs ip l True = (Inl ENOSPC, st) \<and> card (frees fs) < length p)"
proof -
  have inv: "inv fs" using F by (simp add: file_ok_def tree_ok_def)
  from bmap_mapped [OF F np p] show ?thesis
  proof (elim disjE exE conjE)
    fix b fs1 ip1 assume r: "filsys_bmap fs ip l True = (Inr b, fs1, ip1)" and m: "mapped fs ip p b fs1 ip1"
    note f = mapped_frame [OF F p m]
    have fb: "fblock fs1 ip1 l' = fblock fs ip l'" for l' by (rule mapped_data [OF F p m fit])
    have s: "same_file fs ip fs1 ip1" using m f(1) unfolding mapped_def grown_def same_file_def by blast
    have b: "b \<noteq> 0" "block_of fs1 ip1 l = b" using m f(2) by (simp_all add: mapped_def)
    have d: "fs_desc fs1 = fs_desc fs" using s by (simp add: same_file_def)
    have fit1: "spans_fit fs1 (ip_mode ip1)" using fit same_file_cong(4) [OF s] by simp
    have get: "ops_blk_get fs1 b = Inr (fblock fs ip l)"
      using read_block_bytes(2) [OF f(1), of l] b by (simp add: fb)
    have len1: "length (memcpy_at (fblock fs ip l) boff c) = d_bsize (fs_desc fs1)"
      using len length_fblock [OF F, of l] d by simp
    have b1: "block_of fs1 ip1 l \<noteq> 0" using b by simp
    obtain fs2 where w: "ops_blk_put fs1 (block_of fs1 ip1 l) (memcpy_at (fblock fs ip l) boff c) = (Inr (), fs2)"
        "file_ok fs2 ip1" "fs_desc fs2 = fs_desc fs1" "frees fs2 = frees fs1" "area fs2 = area fs1"
        "\<forall>l'. fblock fs2 ip1 l' = (if l' = l then map cut (memcpy_at (fblock fs ip l) boff c) else fblock fs1 ip1 l')"
      by (rule put_leaf [OF f(1) fit1 b1 len1])
    have s2: "same_file fs ip fs2 ip1" using s w(2-5) by (simp add: same_file_def)
    have "map cut (memcpy_at (fblock fs ip l) boff c) = memcpy_at (fblock fs ip l) boff (map cut c)"
      using fblock_cut [OF F, of l] by (simp add: memcpy_at_def take_map [symmetric] drop_map [symmetric])
    then have "\<forall>l'. fblock fs2 ip1 l' = (if l' = l then memcpy_at (fblock fs ip l) boff (map cut c) else fblock fs ip l')"
      using w(6) fb by simp
    moreover have "card (frees fs) \<le> card (frees fs2) + length p"
      using m grown_card [OF _ inv] w(4) unfolding mapped_def by metis
    ultimately show ?thesis using r b get w(1) s2 by blast
  qed blast
qed

lemma spliced_bytes:
  assumes F: "file_ok fs ip" and d: "fs_desc fs' = fs_desc fs"
    and fb: "\<And>l. fblock fs' ip' l = (if l = of_nat (k div d_bsize (fs_desc fs))
      then memcpy_at (fblock fs ip (of_nat (k div d_bsize (fs_desc fs)))) (k mod d_bsize (fs_desc fs)) c else fblock fs ip l)"
    and n: "length c = min (d_bsize (fs_desc fs) - k mod d_bsize (fs_desc fs)) m" and k: "k < 2 ^ 32" "j < 2 ^ 32"
  shows "fbyte fs' ip' j = (if k \<le> j \<and> j < k + length c then c ! (j - k) else fbyte fs ip j)"
proof -
  let ?bs = "d_bsize (fs_desc fs)"
  have bs: "0 < ?bs" using F bsize_pos by (simp add: file_ok_def tree_ok_def)
  have fit: "k mod ?bs + length c \<le> ?bs" using n mod_less_divisor [OF bs, of k] by simp
  show ?thesis
  proof (cases "j div ?bs = k div ?bs")
    case True
    have jk: "j = j div ?bs * ?bs + j mod ?bs" "k = j div ?bs * ?bs + k mod ?bs" by (simp, simp add: True)
    then have iff: "k mod ?bs \<le> j mod ?bs \<longleftrightarrow> k \<le> j" "j mod ?bs < k mod ?bs + length c \<longleftrightarrow> j < k + length c"
      "j mod ?bs - k mod ?bs = j - k" by linarith+
    have "j mod ?bs < length (fblock fs ip (of_nat (k div ?bs)))" using bs by (simp add: length_fblock [OF F])
    then show ?thesis
      using fit nth_memcpy_at [of "k mod ?bs" c "fblock fs ip (of_nat (k div ?bs))" "j mod ?bs"]
      by (simp add: fbyte_def d fb True iff length_fblock [OF F])
  next
    case False
    then have "(of_nat (j div ?bs) :: u32) \<noteq> of_nat (k div ?bs)" using of_nat_block_inj [OF k(2,1)] by blast
    moreover have "\<not> (k \<le> j \<and> j < k + length c)"
    proof
      assume "k \<le> j \<and> j < k + length c"
      then have "j - k < min (?bs - k mod ?bs) m" "k + (j - k) = j" using n by auto
      then show False using within_block(1) [OF _ bs, of "j - k" k m] False by simp
    qed
    ultimately show ?thesis by (auto simp: fbyte_def d fb)
  qed
qed

text \<open>
  Every byte of the request lies in a block the inode can map, at most \<open>d\<close> blocks deep and
  without changing its form.
\<close>

definition writable :: "filsys_edition \<Rightarrow> filsys_inode \<Rightarrow> nat \<Rightarrow> nat \<Rightarrow> nat \<Rightarrow> bool" where
  "writable fs ip d off n \<longleftrightarrow> off + n \<le> 2 ^ 32 \<and> spans_fit fs (ip_mode ip) \<and>
     (\<forall>k. off \<le> k \<and> k < off + n \<longrightarrow>
        (\<exists>p. lbn_path fs (ip_mode ip) (of_nat (k div d_bsize (fs_desc fs))) = Some p \<and> length p \<le> d) \<and>
        \<not> bmap_promotes fs ip (of_nat (k div d_bsize (fs_desc fs))) True)"

lemma writable_same: "same_file fs ip fs' ip' \<Longrightarrow> writable fs' ip' d off n = writable fs ip d off n"
  using same_file_cong [of fs ip fs' ip'] by (simp add: writable_def same_file_def)

lemma write_loop:
  assumes "file_ok fs ip" "writable fs ip d off (length buf)" "m \<le> length buf"
  shows "(\<exists>fs' ip'. file_write_loop buf off m fs ip = (Inr (), fs', ip') \<and> same_file fs ip fs' ip' \<and>
      (\<forall>k < 2 ^ 32. fbyte fs' ip' k =
        (if off + m \<le> k \<and> k < off + length buf then cut (buf ! (k - off)) else fbyte fs ip k))) \<or>
    (\<exists>st. file_write_loop buf off m fs ip = (Inl ENOSPC, st) \<and>
      card (frees fs) < d * blocks_left (d_bsize (fs_desc fs)) (off + length buf) (off + m))"
  using assms
proof (induction "length buf - m" arbitrary: m fs ip rule: less_induct)
  case less
  note F = less.prems(1) and W = less.prems(2)
  let ?bs = "d_bsize (fs_desc fs)"
  have bs: "0 < ?bs" using F bsize_pos by (simp add: file_ok_def tree_ok_def)
  show ?case
  proof (cases "length buf \<le> m")
    case True
    then show ?thesis using less.prems same_file_refl [OF F] by (auto simp: file_write_loop.simps)
  next
    case False
    let ?k = "off + m"
    let ?l = "of_nat (?k div ?bs) :: u32"
    define n where "n = min (?bs - ?k mod ?bs) (length buf - m)"
    let ?c = "take n (drop m buf)"
    have n: "0 < n" "n \<le> length buf - m" "length ?c = n" and fit: "?k mod ?bs + length ?c \<le> ?bs"
      using False bs mod_less_divisor [OF bs, of ?k] by (auto simp: n_def)
    have k: "off \<le> ?k" "?k < off + length buf" "?k < 2 ^ 32" using False W by (auto simp: writable_def)
    then have "\<exists>p. lbn_path fs (ip_mode ip) ?l = Some p \<and> length p \<le> d" and np: "\<not> bmap_promotes fs ip ?l True"
      and sf: "spans_fit fs (ip_mode ip)" using W unfolding writable_def by blast+
    then obtain p where p: "lbn_path fs (ip_mode ip) ?l = Some p" "length p \<le> d" by blast
    have left: "blocks_left ?bs (off + length buf) ?k = Suc (blocks_left ?bs (off + length buf) (?k + n))"
      using blocks_left_step [of ?k "off + length buf" ?bs] False bs by (simp add: n_def)
    have unf: "file_write_loop buf off m fs ip = try_op (filsys_bmap fs ip ?l True)
          (\<lambda>pbn s. if pbn = 0 then (Inl ENOSPC, s)
             else case ops_blk_get (fst s) pbn of
               Inl _ \<Rightarrow> (Inl EIO, s)
             | Inr blk \<Rightarrow>
                 (case ops_blk_put (fst s) pbn (memcpy_at blk (?k mod ?bs) ?c) of
                    (Inl _, fs') \<Rightarrow> (Inl EIO, fs', snd s)
                  | (Inr _, fs') \<Rightarrow> file_write_loop buf off (m + n) fs' (snd s)))"
      using False less_imp_neq [OF bs, symmetric] by (subst file_write_loop.simps) (simp only: Let_def n_def if_False)
    from write_step [OF F sf np p(1) fit] show ?thesis
    proof (elim disjE exE conjE)
      fix b fs1 ip1 fs2
      assume r: "filsys_bmap fs ip ?l True = (Inr b, fs1, ip1)" "b \<noteq> 0" "ops_blk_get fs1 b = Inr (fblock fs ip ?l)"
        "ops_blk_put fs1 b (memcpy_at (fblock fs ip ?l) (?k mod ?bs) ?c) = (Inr (), fs2)" and s: "same_file fs ip fs2 ip1"
        and card: "card (frees fs) \<le> card (frees fs2) + length p" and fb: "\<forall>l'. fblock fs2 ip1 l' =
          (if l' = ?l then memcpy_at (fblock fs ip ?l) (?k mod ?bs) (map cut ?c) else fblock fs ip l')"
      have step: "file_write_loop buf off m fs ip = file_write_loop buf off (m + n) fs2 ip1"
        unfolding unf by (simp add: r)
      have F2: "file_ok fs2 ip1" and ds: "fs_desc fs2 = fs_desc fs" using s by (simp_all add: same_file_def)
      have by1: "fbyte fs2 ip1 j = (if ?k \<le> j \<and> j < ?k + n then cut (buf ! (j - off)) else fbyte fs ip j)" if "j < 2 ^ 32" for j
      proof -
        have c: "map cut ?c ! (j - ?k) = cut (buf ! (j - off))" if "?k \<le> j" "j < ?k + n"
          using that n by (simp add: less_diff_conv2 add.commute)
        have l: "length (map cut ?c) = min (?bs - ?k mod ?bs) (length buf - m)" using n(3) by (simp add: n_def)
        have "length (map cut ?c) = n" using n(3) by simp
        then show ?thesis using spliced_bytes [OF F ds spec [OF fb] l k(3) that] c by auto
      qed
      have "length buf - (m + n) < length buf - m" "m + n \<le> length buf" using n False by linarith+
      from less.hyps [OF this(1) F2 _ this(2)] W writable_same [OF s]
      consider fs' ip' where "file_write_loop buf off (m + n) fs2 ip1 = (Inr (), fs', ip')" "same_file fs2 ip1 fs' ip'"
          "\<forall>k < 2 ^ 32. fbyte fs' ip' k =
            (if off + (m + n) \<le> k \<and> k < off + length buf then cut (buf ! (k - off)) else fbyte fs2 ip1 k)"
        | st where "file_write_loop buf off (m + n) fs2 ip1 = (Inl ENOSPC, st)"
            "card (frees fs2) < d * blocks_left ?bs (off + length buf) (?k + n)"
        by (auto simp: ds add.assoc)
      then show ?thesis
      proof cases
        case 1
        have "fbyte fs' ip' j = (if ?k \<le> j \<and> j < off + length buf then cut (buf ! (j - off)) else fbyte fs ip j)"
          if "j < 2 ^ 32" for j using 1(3) by1 [OF that] that n by auto
        then show ?thesis using 1(1) same_file_trans [OF s 1(2)] unfolding step by blast
      next
        case 2
        then have "card (frees fs) < d * blocks_left ?bs (off + length buf) ?k" unfolding left using card p(2) by simp
        then show ?thesis using 2(1) unfolding step by blast
      qed
    next
      fix st assume "filsys_bmap fs ip ?l True = (Inl ENOSPC, st)" "card (frees fs) < length p"
      moreover from this(2) have "card (frees fs) < d * blocks_left ?bs (off + length buf) ?k" unfolding left using p(2) by simp
      ultimately show ?thesis unfolding unf by simp
    qed
  qed
qed

end

section \<open>The stores hold files\<close>

lemma v7_engine_blk:
  assumes "v7_engine fs"
  shows "ops_blk_get fs b = v7fs_read_block fs b" "ops_blk_put fs b buf = v7fs_write_block fs b buf"
  using assms v7_engine_io [OF assms] by (auto simp: ops_blk_get_def ops_blk_put_def v7_engine_def)

text \<open>Storing a block of the image, whatever the allocator.\<close>

lemma blk_store_data:
  fixes b :: u32
  assumes "length buf = d_bsize (fs_desc fs)"
  shows "blk_data (blk_store fs b buf) b = map (\<lambda>x. x) buf"
    "c \<noteq> b \<Longrightarrow> blk_ent (blk_store fs b buf) c = blk_ent fs c \<and> blk_data (blk_store fs b buf) c = blk_data fs c"
proof -
  show "blk_data (blk_store fs b buf) b = map (\<lambda>x. x) buf" using assms by simp
  show "blk_ent (blk_store fs b buf) c = blk_ent fs c \<and> blk_data (blk_store fs b buf) c = blk_data fs c" if "c \<noteq> b"
    using blk_ent_cong [OF _ blk_data_store_other [OF that]] blk_data_store_other [OF that] by simp
qed

interpretation flfile: file_store fl_store fl_frees fl_area blk_ent blk_data "\<lambda>x. x"
proof
  fix fs assume F: "fl_store fs"
  then obtain bs where bs: "fl_inv fs bs" "fl_frees fs = set bs" and v7: "v7_engine fs" and g: "fl_geom fs"
    and img: "host_ok fs" "\<not> fs_readonly fs" "\<forall>b. in_data fs b \<longrightarrow> blk_in_image fs b"
    by (rule fl_store_facts)
  show "ops_blk_get fs b = Inr (blk_data fs b)" if "b \<in> fl_area fs" for b
    using that img read_block_ok [of fs b] by (simp add: v7_engine_blk [OF v7] fl_area_def)
  show "0 < d_bsize (fs_desc fs)" using g by (simp add: fl_geom_def Let_def)
  show "length (blk_data fs b) = d_bsize (fs_desc fs)" "map (\<lambda>x. x) (blk_data fs b) = blk_data fs b" for b by simp_all
  fix b and buf :: "byte list" assume b: "b \<in> fl_area fs - fl_frees fs" and len: "length buf = d_bsize (fs_desc fs)"
  let ?s = "blk_store fs b buf"
  have ib: "in_data fs b" "b \<notin> set bs" using b bs(2) by (auto simp: fl_area_def)
  have inv': "fl_inv ?s bs" by (rule fl_inv_store [OF bs(1) ib])
  have "fl_store ?s" using F inv' v7_engine_cong [of ?s fs] v7 by (auto simp: fl_store_def)
  moreover have "fl_frees ?s = fl_frees fs" using fl_frees_eq [OF inv'] bs(2) by simp
  moreover have "fl_area ?s = fl_area fs" by (rule fl_area_same) simp
  moreover have "ops_blk_put fs b buf = (Inr (), ?s)"
    using img ib write_block_ok by (simp add: v7_engine_blk [OF v7])
  ultimately show "\<exists>fs'. ops_blk_put fs b buf = (Inr (), fs') \<and> fl_store fs' \<and> fl_frees fs' = fl_frees fs \<and>
        fl_area fs' = fl_area fs \<and> fs_desc fs' = fs_desc fs \<and> blk_data fs' b = map (\<lambda>x. x) buf \<and>
        (\<forall>c \<in> fl_area fs. c \<noteq> b \<longrightarrow> blk_ent fs' c = blk_ent fs c \<and> blk_data fs' c = blk_data fs c)"
    using blk_store_data [OF len] by (intro exI [of _ ?s]) simp
qed simp

interpretation v8file: file_store v8_store v8_frees v8_area blk_ent blk_data "\<lambda>x. x"
proof
  fix fs assume F: "v8_store fs"
  then have v7: "v7_engine fs" and inv: "v8_inv fs" and l: "ind_layout fs" by (auto simp: v8_store_def v7_engine_def)
  have img: "host_ok fs" "\<not> fs_readonly fs" "\<forall>b \<in> v8_area fs. blk_in_image fs b" using inv by (simp_all add: v8_inv_def)
  show "ops_blk_get fs b = Inr (blk_data fs b)" if "b \<in> v8_area fs" for b
    using that img read_block_ok [of fs b] by (simp add: v7_engine_blk [OF v7])
  show "0 < d_bsize (fs_desc fs)" using F by (simp add: v8_store_def)
  show "length (blk_data fs b) = d_bsize (fs_desc fs)" "map (\<lambda>x. x) (blk_data fs b) = blk_data fs b" for b by simp_all
  fix b and buf :: "byte list" assume b: "b \<in> v8_area fs - v8_frees fs" and len: "length buf = d_bsize (fs_desc fs)"
  let ?s = "blk_store fs b buf"
  have same: "v8_area ?s = v8_area fs" "v8_frees ?s = v8_frees fs" by (simp_all add: v8_area_def v8_frees_def)
  have "v8_inv ?s" using inv b img unfolding v8_inv_def same by simp
  then have "v8_store ?s" using F v7 v7_engine_cong [of ?s fs] by (simp add: v8_store_def)
  moreover have "ops_blk_put fs b buf = (Inr (), ?s)"
    using img b write_block_ok by (simp add: v7_engine_blk [OF v7])
  ultimately show "\<exists>fs'. ops_blk_put fs b buf = (Inr (), fs') \<and> v8_store fs' \<and> v8_frees fs' = v8_frees fs \<and>
        v8_area fs' = v8_area fs \<and> fs_desc fs' = fs_desc fs \<and> blk_data fs' b = map (\<lambda>x. x) buf \<and>
        (\<forall>c \<in> v8_area fs. c \<noteq> b \<longrightarrow> blk_ent fs' c = blk_ent fs c \<and> blk_data fs' c = blk_data fs c)"
    using blk_store_data [OF len] same by (intro exI [of _ ?s]) simp
qed simp

interpretation v1file: file_store v1_store v1_frees v1_area blk_ent blk_data "\<lambda>x. x"
proof
  fix fs assume F: "v1_store fs"
  then have inv: "v1_inv fs" by (simp add: v1_store_def)
  have img: "host_ok fs" "\<not> fs_readonly fs" "\<forall>b \<in> v1_area fs. blk_in_image fs b" using inv by (simp_all add: v1_inv_def)
  have io: "ops_blk_get fs b = v7fs_read_block fs b" "ops_blk_put fs b buf = v7fs_write_block fs b buf" for b buf
    using F v1_store_io [OF F] by (auto simp: ops_blk_get_def ops_blk_put_def v1_store_def)
  show "ops_blk_get fs b = Inr (blk_data fs b)" if "b \<in> v1_area fs" for b
    using that img read_block_ok [of fs b] by (simp add: io)
  show "0 < d_bsize (fs_desc fs)" using inv by (simp add: v1_inv_def)
  show "length (blk_data fs b) = d_bsize (fs_desc fs)" "map (\<lambda>x. x) (blk_data fs b) = blk_data fs b" for b by simp_all
  fix b and buf :: "byte list" assume b: "b \<in> v1_area fs - v1_frees fs" and len: "length buf = d_bsize (fs_desc fs)"
  let ?s = "blk_store fs b buf"
  have same: "v1_area ?s = v1_area fs" "v1_frees ?s = v1_frees fs" by (simp_all add: v1_area_def v1_frees_def)
  have "v1_inv ?s" using inv b img unfolding v1_inv_def same by simp
  then have "v1_store ?s" using F by (simp add: v1_store_def ind_layout_def)
  moreover have "ops_blk_put fs b buf = (Inr (), ?s)" using img b write_block_ok by (simp add: io)
  ultimately show "\<exists>fs'. ops_blk_put fs b buf = (Inr (), fs') \<and> v1_store fs' \<and> v1_frees fs' = v1_frees fs \<and>
        v1_area fs' = v1_area fs \<and> fs_desc fs' = fs_desc fs \<and> blk_data fs' b = map (\<lambda>x. x) buf \<and>
        (\<forall>c \<in> v1_area fs. c \<noteq> b \<longrightarrow> blk_ent fs' c = blk_ent fs c \<and> blk_data fs' c = blk_data fs c)"
    using blk_store_data [OF len] same by (intro exI [of _ ?s]) simp
qed simp

text \<open>On the PDP-7 a character keeps seven bits.\<close>

lemma concat_pairs: "concat (map (\<lambda>i. [f (2 * i), f (2 * i + 1)]) [0..<n]) = map f [0..<2 * n]"
  by (induction n) simp_all

lemma word_chars_18: "word_chars (take_bit 18 w) = word_chars w"
proof -
  have m: "(0x7f::u32) = mask 7" by (simp add: mask_eq_exp_minus_1)
  have "drop_bit 9 (take_bit 18 w) AND mask 7 = drop_bit 9 w AND mask 7" "take_bit 18 w AND mask 7 = w AND mask 7"
    by (auto intro!: bit_word_eqI simp: bit_simps)
  then show ?thesis unfolding word_chars_def m by simp
qed

lemma word_chars_7: "map (take_bit 7) (word_chars w) = word_chars w"
proof -
  have m: "(0x7f::u32) = mask 7" by (simp add: mask_eq_exp_minus_1)
  have "take_bit 7 (ucast (v AND mask 7 :: u32) :: byte) = ucast (v AND mask 7)" for v
    by (rule bit_word_eqI) (auto simp: bit_simps)
  then show ?thesis unfolding word_chars_def m by simp
qed

lemma chars_of_words:
  assumes "length buf = 128"
  shows "concat (map word_chars (map (take_bit 18) (map (chars_word buf) [0..<64]))) = map (take_bit 7) buf"
proof -
  have "word_chars (take_bit 18 (chars_word buf i)) = [take_bit 7 (buf ! (2 * i)), take_bit 7 (buf ! (2 * i + 1))]" for i
    unfolding word_chars_18 unfolding word_chars_def chars_word_def char_halves by simp
  then have "map (\<lambda>i. word_chars (take_bit 18 (chars_word buf i))) [0..<64] =
      map (\<lambda>i. [take_bit 7 (buf ! (2 * i)), take_bit 7 (buf ! (2 * i + 1))]) [0..<64]" by simp
  then have "concat (map word_chars (map (take_bit 18) (map (chars_word buf) [0..<64]))) =
      map (\<lambda>i. take_bit 7 (buf ! i)) [0..<2 * 64]"
    unfolding concat_pairs [symmetric] by (simp only: map_map comp_def)
  also have "\<dots> = map (take_bit 7) buf" using assms by (intro nth_equalityI) simp_all
  finally show ?thesis .
qed

interpretation p7file: file_store p7_store p7_frees p7_area p7_ent p7_chars "take_bit 7"
proof
  fix fs assume F: "p7_store fs"
  then obtain ns where ns: "p7_list fs ns" by (auto simp: p7_store_def)
  note fr = p7_frees_eq [OF ns]
  have bs: "d_bsize (fs_desc fs) = 128" and ops: "d_ops (fs_desc fs) = Some P7fs_ops" using F by (simp_all add: p7_store_def)
  have img: "host_ok fs" "\<not> fs_readonly fs" using ns by (simp_all add: p7_list_def)
  show "ops_blk_get fs b = Inr (p7_chars fs b)" if "b \<in> p7_area fs" for b
    using that img ops by (simp add: ops_blk_get_def p7fs_blk_get_def p7_area_def read_words_ok p7_chars_def)
  show "0 < d_bsize (fs_desc fs)" using bs by simp
  have len: "length (concat (map word_chars ws)) = 2 * length ws" for ws
    by (induction ws) (simp_all add: word_chars_def)
  show "length (p7_chars fs b) = d_bsize (fs_desc fs)" for b by (simp add: p7_chars_def len bs)
  show "map (take_bit 7) (p7_chars fs b) = p7_chars fs b" for b
    by (simp add: p7_chars_def map_concat comp_def word_chars_7)
  fix b and buf :: "byte list" assume b: "b \<in> p7_area fs - p7_frees fs" and l: "length buf = d_bsize (fs_desc fs)"
  let ?s = "wstore fs b (map (chars_word buf) [0..<64])"
  have i: "p7_in_image fs b" using b by (simp add: p7_area_def)
  have st: "p7_list ?s ns" "p7_blocks ?s ns = p7_blocks fs ns"
    using b fr i by (auto intro!: p7_list_store [OF ns])
  have "p7_store ?s" using F st(1) by (auto simp: p7_store_def)
  moreover have "ops_blk_put fs b buf = (Inr (), ?s)"
    using img i ops by (simp add: ops_blk_put_def p7fs_blk_put_def write_words_ok)
  moreover have "p7_chars ?s b = map (take_bit 7) buf" using chars_of_words [of buf] l bs by (simp add: p7_chars_def)
  moreover have "p7_ent ?s c = p7_ent fs c \<and> p7_chars ?s c = p7_chars fs c" if "c \<noteq> b" for c
    using that by (simp add: p7_ent_def p7_chars_def fun_eq_iff)
  ultimately show "\<exists>fs'. ops_blk_put fs b buf = (Inr (), fs') \<and> p7_store fs' \<and> p7_frees fs' = p7_frees fs \<and>
        p7_area fs' = p7_area fs \<and> fs_desc fs' = fs_desc fs \<and> p7_chars fs' b = map (take_bit 7) buf \<and>
        (\<forall>c \<in> p7_area fs. c \<noteq> b \<longrightarrow> p7_ent fs' c = p7_ent fs c \<and> p7_chars fs' c = p7_chars fs c)"
    using fr p7_frees_eq [OF st(1)] st(2) by (intro exI [of _ ?s]) simp
qed simp

section \<open>No operation changes the geometry\<close>

text \<open>
  Descriptor, base, sizes and the read-only flag of a mount stay as they are in every operation
  below, whatever it is applied to and whether it fails.
\<close>

lemma same_geom_io: "io_only fs fs' \<Longrightarrow> same_geom fs fs'"
  by (auto simp: io_only_def same_geom_def)

lemma same_geom_upd [simp]:
  "same_geom fs (fs'\<lparr>fs_fl := x\<rparr>) = same_geom fs fs'" "same_geom fs (fs'\<lparr>fs_bm := y\<rparr>) = same_geom fs fs'"
  "same_geom fs (fs'\<lparr>v8_bits := z\<rparr>) = same_geom fs fs'" "same_geom fs (fs'\<lparr>fs_fl_dirty := d\<rparr>) = same_geom fs fs'"
  "same_geom fs (fs'\<lparr>fs_freelist := h\<rparr>) = same_geom fs fs'"
  by (simp_all add: same_geom_def)

lemma same_geom_try:
  assumes "same_geom fs (snd m)" "\<And>x s. m = (Inr x, s) \<Longrightarrow> same_geom fs s \<Longrightarrow> same_geom fs (snd (k x s))"
  shows "same_geom fs (snd (try_op m k))" "same_geom fs (snd (try_as e m k))"
proof -
  obtain r s where m: "m = (r, s)" by fastforce
  show "same_geom fs (snd (try_op m k))" using assms m by (cases r) simp_all
  show "same_geom fs (snd (try_as e m k))" using assms m by (cases r) simp_all
qed

lemma geom_write:
  "same_geom fs (snd (v7fs_write_block fs b buf))" "same_geom fs (snd (v7fs_super_write fs))"
  "same_geom fs (snd (write_words fs b ws))" "same_geom fs (snd (v1fs_write_block fs b buf))"
  "same_geom fs (snd (p7fs_write_block fs b buf))"
proof -
  show "same_geom fs (snd (v7fs_write_block fs b buf))" by (rule same_geom_io [OF io_only_block])
  show "same_geom fs (snd (v7fs_super_write fs))" by (rule same_geom_io [OF io_only_super])
  show w: "same_geom fs (snd (write_words fs b ws))" for ws by (rule same_geom_io [OF io_only_words])
  show "same_geom fs (snd (v1fs_write_block fs b buf))"
    by (auto simp: v1fs_write_block_def Let_def intro: same_geom_io [OF io_only_io])
  show "same_geom fs (snd (p7fs_write_block fs b buf))" using w by (simp add: p7fs_write_block_def)
qed

lemma geom_writeI:
  assumes "same_geom fs s"
  shows "same_geom fs (snd (v7fs_write_block s b buf))" "same_geom fs (snd (v7fs_super_write s))"
    "same_geom fs (snd (write_words s b ws))" "same_geom fs (snd (v1fs_write_block s b buf))"
    "same_geom fs (snd (p7fs_write_block s b buf))"
  using assms geom_write same_geom_trans by blast+

lemma geom_balloc: "same_geom fs (snd (alloc_balloc fs))"
proof -
  have fin: "same_geom fs (snd (balloc_finish s b))" if "same_geom fs s" for s b
    unfolding balloc_finish_def by (rule same_geom_try) (simp_all add: geom_writeI [OF that])
  have "same_geom fs (fl_reload s buf)" if "same_geom fs s" for s buf using that by (simp add: fl_reload_def)
  then have "same_geom fs (snd (v7fs_balloc fs))"
    by (auto simp: v7fs_balloc_def Let_def split: sum.split intro!: fin same_geom_try geom_writeI)
  moreover have "same_geom fs (snd (v8_bitmap_balloc fs))"
    by (auto simp: v8_bitmap_balloc_def Let_def split: option.split intro!: same_geom_try geom_writeI)
  moreover have "same_geom fs (snd (v1fs_balloc fs))"
    by (auto simp: v1fs_balloc_def Let_def split: option.split intro!: same_geom_try geom_writeI)
  moreover have "same_geom fs (snd (p7fs_balloc fs))"
    by (auto simp: p7fs_balloc_def Let_def split: sum.split intro!: same_geom_try geom_writeI)
  ultimately show ?thesis by (simp add: alloc_balloc_def split: alloc_table.split)
qed

lemma geom_ops:
  "same_geom fs (snd (ops_write_block fs b buf))" "same_geom fs (snd (ops_blk_put fs b buf))"
proof -
  show w: "same_geom fs (snd (ops_write_block fs b buf))"
    by (auto simp: ops_write_block_def geom_write split: option.split backend.split)
  show "same_geom fs (snd (ops_blk_put fs b buf))"
    using w geom_write(3) by (simp add: ops_blk_put_def p7fs_blk_put_def)
qed

lemma geom_opsI:
  assumes "same_geom fs s"
  shows "same_geom fs (snd (alloc_balloc s))" "same_geom fs (snd (ops_write_block s b buf))"
    "same_geom fs (snd (ops_blk_put s b buf))"
  using assms geom_balloc geom_ops same_geom_trans by blast+

lemma geom_ind_walk: "same_geom fs s \<Longrightarrow> same_geom fs (snd (ind_walk s blk is create))"
proof (induction "is" arbitrary: s blk)
  case (Cons i rest)
  show ?case
    using Cons by (auto simp: Let_def split: sum.split intro!: same_geom_try geom_opsI)
qed simp

text \<open>The operations that carry the inode along.\<close>

lemma geom_tryi:
  assumes "same_geom fs (fst (snd m))" "\<And>x s ip. m = (Inr x, s, ip) \<Longrightarrow> same_geom fs s \<Longrightarrow> same_geom fs (fst (snd (k x (s, ip))))"
  shows "same_geom fs (fst (snd (try_op m k)))"
proof -
  obtain r s ip where m: "m = (r, s, ip)" using prod_cases3 by blast
  show ?thesis using assms m by (cases r) simp_all
qed

lemma geom_bmap: "same_geom fs (fst (snd (filsys_bmap fs ip lbn create)))"
proof -
  have al: "same_geom fs s'" if "alloc_balloc s = (r, s')" "same_geom fs s" for s r s'
    using geom_opsI(1) [OF that(2)] that(1) by simp
  have wr: "same_geom fs s'" if "ops_write_block s b buf = (r, s')" "same_geom fs s" for s b buf r s'
    using geom_opsI(2) [OF that(2), of b buf] that(1) by simp
  have iw: "same_geom fs s'" if "ind_walk s b is c = (r, s')" "same_geom fs s" for s b "is" c r s'
    using geom_ind_walk [OF that(2), of b "is" c] that(1) by simp
  have fo: "same_geom fs (fst (snd (bmap_ind_follow s ip slot is c)))" if "same_geom fs s" for s ip slot "is" c
    using that by (auto simp: bmap_ind_follow_def Let_def split: prod.split sum.split dest: iw al)
  have sl: "same_geom fs (fst (snd (bmap_slots s ip lbn create base slots)))" if "same_geom fs s" for s ip base slots
    using that by (induction slots arbitrary: base) (auto simp: Let_def split: prod.split sum.split dest: al intro: fo)
  have pr: "same_geom fs (fst (snd (bmap_promote s ip)))" if "same_geom fs s" for s ip
    using that by (auto simp: bmap_promote_def Let_def split: prod.split sum.split dest: al wr)
  show ?thesis unfolding filsys_bmap_def by (rule geom_tryi) (auto intro: sl pr)
qed

lemma geom_write_loop: "same_geom fs s \<Longrightarrow> same_geom fs (fst (snd (file_write_loop buf off m s ip)))"
proof (induction "length buf - m" arbitrary: m s ip rule: less_induct)
  case less
  let ?bs = "d_bsize (fs_desc s)"
  show ?case
  proof (cases "length buf \<le> m \<or> ?bs = 0")
    case True
    then show ?thesis using less.prems by (auto simp: file_write_loop.simps Let_def)
  next
    case False
    let ?l = "of_nat ((off + m) div ?bs) :: u32" and ?o = "(off + m) mod ?bs"
    let ?n = "min (?bs - ?o) (length buf - m)"
    have bs: "?bs \<noteq> 0" "\<not> length buf \<le> m" using False by simp_all
    have b: "same_geom fs (fst (snd (filsys_bmap s ip ?l True)))" using geom_bmap less.prems same_geom_trans by blast
    have "?o < ?bs" using bs(1) by simp
    then have "length buf - (m + ?n) < length buf - m" using bs(2) by linarith
    note IH = less.hyps [OF this]
    have put: "same_geom fs (fst (snd (file_write_loop buf off (m + ?n) s2 ip)))"
      if "ops_blk_put s1 p blk = (q, s2)" "same_geom fs s1" for s1 p blk q s2 ip
      using geom_opsI(3) [OF that(2), of p blk] that(1) by (intro IH) simp
    have put': "same_geom fs s2" if "ops_blk_put s1 p blk = (q, s2)" "same_geom fs s1" for s1 p blk q s2
      using geom_opsI(3) [OF that(2), of p blk] that(1) by simp
    show ?thesis
      unfolding file_write_loop.simps [of buf off m s ip] Let_def if_not_P [OF bs(2)] if_not_P [OF bs(1)]
      by (intro geom_tryi b) (auto split: sum.split prod.split intro: put put')
  qed
qed

section \<open>Writing a file of the V7 engine\<close>

text \<open>Writing the inode, the free list in front of it, leaves data blocks and free list alone.\<close>

lemma fl_stored:
  assumes F: "fltree.file_ok fs ip" and g: "ino_geom v7_limit fs" and i: "v7_itod fs ino < v7_limit fs"
    and ip': "ip_addr ip' = ip_addr ip" "ip_mode ip' = ip_mode ip"
  defines "fs' \<equiv> v7ino.stored fs ino ip'"
  shows "fltree.file_ok fs' ip'" "flfile.fbyte fs' ip' k = flfile.fbyte fs ip k"
proof -
  have S: "fl_store fs" using F by (simp add: fltree.file_ok_def fltree.tree_ok_def)
  then obtain bs where bs: "fl_inv fs bs" "fl_frees fs = set bs" and v7: "v7_engine fs" and fg: "fl_geom fs"
    by (rule fl_store_facts)
  note st = v7ino.stored_facts [OF g i, where ip = ip', folded fs'_def]
  have geom: "same_geom fs fs'" by (simp add: fs'_def v7ino.stored_def flushed_def same_geom_def)
  have fl: "fs_fl fs' = fs_fl fs" by (simp add: fs'_def v7ino.stored_def flushed_def)
  have lim: "v7_limit fs \<le> v7_data_first fs"
  proof -
    have "unat (ucast (fs_isize fs) + 2 :: u32) = unat (fs_isize fs) + 2"
      using unat_u16_bound [of "fs_isize fs"] by (simp add: unat_word_ariths unat_ucast_u16_u32)
    then show ?thesis by (simp add: v7_data_first_def word_le_nat_alt unat_ucast_u16_u32)
  qed
  have data: "blk_data fs' c = blk_data fs c" if "in_data fs c" for c
  proof -
    have "v7_data_first fs \<le> c" using that by (simp add: in_data_def)
    then have "v7_itod fs ino < c" using i lim by (meson less_le_trans)
    then show ?thesis using in_data_ge2 [OF fg that] by (intro st(4)) auto
  qed
  have "fl_geom fs'" using fl_geom_same [OF geom] fg st(3) by (auto simp: ino_geom_def Let_def)
  moreover have "flist fs' (unat (nfree (fs_fl fs))) (free_cache (fs_fl fs)) bs"
    using bs(1) flist_in_data data by (intro flist_cong [OF geom]) (auto simp: fl_inv_def)
  ultimately have inv': "fl_inv fs' bs" using bs(1) st(1) by (simp add: fl_inv_def fl)
  then have S': "fl_store fs'" using S v7_engine_cong [OF st(1)] st(1) by (auto simp: fl_store_def)
  have fr: "fl_frees fs' = fl_frees fs" using fl_frees_eq [OF inv'] bs(2) by simp
  have e: "blk_ent fs' c = blk_ent fs c \<and> blk_data fs' c = blk_data fs c" if "c \<in> fl_area fs - fl_frees fs" for c
    using that data blk_ent_cong [OF st(1)] by (simp add: fl_area_def)
  note f = flfile.file_frame [OF F S' fr fl_area_same [OF geom] st(1) e ip']
  show "fltree.file_ok fs' ip'" by (rule f(1))
  have fb: "fltree.fblock fs' ip' l = fltree.fblock fs ip l" for l by (rule f(2))
  show "flfile.fbyte fs' ip' k = flfile.fbyte fs ip k" unfolding flfile.fbyte_def st(1) fb ..
qed

lemma ino_geom_same: "same_geom fs fs' \<Longrightarrow> host_ok fs' \<Longrightarrow> ino_geom v7_limit fs \<Longrightarrow> ino_geom v7_limit fs'"
  using same_geom_facts [of fs fs'] by (simp add: ino_geom_def Let_def same_geom_def)

text \<open>
  The whole operation: the bytes of the request replace those of the file, the size grows to
  their end, and no other byte changes; the only failure is lack of space.
\<close>

lemma fl_file_write:
  assumes F: "fltree.file_ok fs ip" and W: "flfile.writable fs ip d off (length buf)" and sz: "off + length buf < 2 ^ 32"
    and g: "ino_geom v7_limit fs" and i: "v7_itod fs (ip_ino ip) < v7_limit fs" "ip_ino ip \<noteq> 0"
    and ops: "d_ops (fs_desc fs) \<in> {Some V7fs_ops, Some Bsd211fs_ops}"
  shows "(\<exists>fs' ip'. filsys_file_write fs ip buf (int off) = (Inr (length buf), fs', ip') \<and> fltree.file_ok fs' ip' \<and>
      unat (ip_size ip') = max (unat (ip_size ip)) (off + length buf) \<and>
      (\<forall>k < 2 ^ 32. flfile.fbyte fs' ip' k =
        (if off \<le> k \<and> k < off + length buf then buf ! (k - off) else flfile.fbyte fs ip k))) \<or>
    (\<exists>st. filsys_file_write fs ip buf (int off) = (Inl ENOSPC, st) \<and>
      card (fl_frees fs) < d * blocks_left (d_bsize (fs_desc fs)) (off + length buf) off)"
proof -
  from flfile.write_loop [OF F W le0] show ?thesis
  proof (elim disjE exE conjE)
    fix fs1 ip1 assume l: "file_write_loop buf off 0 fs ip = (Inr (), fs1, ip1)" and s: "flfile.same_file fs ip fs1 ip1"
      and bytes: "\<forall>k < 2 ^ 32. flfile.fbyte fs1 ip1 k =
        (if off + 0 \<le> k \<and> k < off + length buf then buf ! (k - off) else flfile.fbyte fs ip k)"
    let ?e = "off + length buf"
    let ?ip = "if unat (ip_size ip1) < ?e then ip1\<lparr>ip_size := of_nat ?e\<rparr> else ip1"
    let ?fs = "v7ino.stored fs1 (ip_ino ip1) ?ip"
    have F1: "fltree.file_ok fs1 ip1" using s by (simp add: flfile.same_file_def)
    note c = flfile.same_file_cong [OF s]
    have geom: "same_geom fs fs1" using geom_write_loop [of fs fs buf off 0 ip] l by simp
    have ds: "fs_desc fs1 = fs_desc fs" "fs_isize fs1 = fs_isize fs" using geom by (simp_all add: same_geom_def)
    have "host_ok fs1" using F1 by (auto simp: fltree.file_ok_def fltree.tree_ok_def elim: fl_store_facts)
    from ino_geom_same [OF geom this g] have g1: "ino_geom v7_limit fs1" .
    have i1: "v7_itod fs1 (ip_ino ip1) < v7_limit fs1" "ip_ino ip1 \<noteq> 0"
      using i c(6) v7ino.geom_cong [OF ds] by simp_all
    have v: "v7fs_write_inode fs1 (ip_ino ip1) ?ip = (Inr (), ?fs)"
      unfolding v7_inode_gen by (rule v7ino.wr_ok [OF g1 i1(2,1)])
    have n: "ip_ino ?ip = ip_ino ip1" by simp
    have w: "ops_write_inode fs1 (ip_ino ?ip) ?ip = (Inr (), ?fs)"
      unfolding n ops_write_inode_def ds(1) using ops v by auto
    have r: "filsys_file_write fs ip buf (int off) = (Inr (length buf), ?fs, ?ip)"
      unfolding filsys_file_write_def by (simp add: l Let_def w del: of_nat_add if_split)
    have a: "ip_addr ?ip = ip_addr ip1" "ip_mode ?ip = ip_mode ip1" by simp_all
    note st = fl_stored [OF F1 g1 i1(1) a]
    have "unat (of_nat ?e :: u32) = ?e" using sz by (intro unat_of_nat_lt) simp
    then have "unat (ip_size ?ip) = max (unat (ip_size ip)) ?e" using c(5) by (simp add: max_def)
    then show ?thesis using r st bytes by (intro disjI1 exI [of _ ?fs] exI [of _ ?ip]) simp
  next
    fix st assume "file_write_loop buf off 0 fs ip = (Inl ENOSPC, st)"
      "card (fl_frees fs) < d * blocks_left (d_bsize (fs_desc fs)) (off + length buf) (off + 0)"
    then show ?thesis by (simp add: filsys_file_write_def)
  qed
qed

section \<open>Promotion\<close>

lemma slot_layout_rows: "e \<noteq> FILSYS_UNIX \<Longrightarrow> slot_layout (filsys_getformat e)"
  by (cases e) (simp_all add: slot_layout_def)

lemma promote_state:
  assumes "bmap_promote fs ip = (r, fs', ip')"
  shows "fs_desc fs' = fs_desc fs" "r = Inr () \<Longrightarrow> ip_mode ip' = ip_mode ip OR d_ilarg_mask (fs_desc fs)"
proof -
  obtain x fs1 where a: "alloc_balloc fs = (x, fs1)" by fastforce
  then have d: "fs_desc fs1 = fs_desc fs" using geom_balloc [of fs] by (simp add: same_geom_def)
  have w: "fs_desc (snd (ops_write_block fs1 b buf)) = fs_desc fs" for b buf using geom_ops(1) [of fs1 b buf] d by (simp add: same_geom_def)
  let ?buf = "foldl (\<lambda>buf i. ind_put fs1 buf i (ip_addr ip ! i)) (replicate 8192 0) [0..<d_ndaddr (fs_desc fs)]"
  have "fs_desc fs' = fs_desc fs \<and> (r = Inr () \<longrightarrow> ip_mode ip' = ip_mode ip OR d_ilarg_mask (fs_desc fs))"
  proof (cases x)
    case (Inl e)
    then show ?thesis using assms d by (auto simp: bmap_promote_def a Let_def)
  next
    case (Inr b)
    obtain y fs2 where q: "ops_write_block fs1 b ?buf = (y, fs2)" by fastforce
    then have "fs_desc fs2 = fs_desc fs" using w [of b ?buf] by simp
    then show ?thesis using assms q by (cases y) (auto simp: bmap_promote_def a Inr Let_def)
  qed
  then show "fs_desc fs' = fs_desc fs" "r = Inr () \<Longrightarrow> ip_mode ip' = ip_mode ip OR d_ilarg_mask (fs_desc fs)" by blast+
qed

end
