(* ===== verification/Dir_Data.thy ===== *)
theory Dir_Data
  imports File_Data Directory
begin

text \<open>
  Fixed-size directories as lists of entries.  The chunked scan of \<^verbatim>\<open>dir_fixed.c\<close> is a
  search through the list; lookup, insertion and removal refine the list operations below.
\<close>

section \<open>The list of entries\<close>

definition entry_ino :: "filsys_desc \<Rightarrow> byte list \<Rightarrow> u16" where
  "entry_ino d e = bo_get16 (d_bo d) e 0"

definition entry_name :: "filsys_desc \<Rightarrow> byte list \<Rightarrow> byte list" where
  "entry_name d e = takeWhile (\<lambda>c. c \<noteq> 0) (take (d_max_namlen d) (drop 2 e))"

definition entry_is :: "filsys_desc \<Rightarrow> byte list \<Rightarrow> byte list \<Rightarrow> bool" where
  "entry_is d name e \<longleftrightarrow> entry_ino d e \<noteq> 0 \<and> entry_name d e = name"

definition entries_lookup :: "filsys_desc \<Rightarrow> byte list list \<Rightarrow> byte list \<Rightarrow> errno + u32" where
  "entries_lookup d es name =
     (case find (entry_is d name) es of None \<Rightarrow> Inl ENOENT | Some e \<Rightarrow> Inr (ucast (entry_ino d e)))"

text \<open>Replace the first entry with the property, or append.\<close>

fun replace_first :: "('a \<Rightarrow> bool) \<Rightarrow> 'a \<Rightarrow> 'a list \<Rightarrow> 'a list" where
  "replace_first P e [] = [e]"
| "replace_first P e (x # xs) = (if P x then e # xs else x # replace_first P e xs)"

abbreviation entries_add :: "filsys_desc \<Rightarrow> byte list \<Rightarrow> byte list list \<Rightarrow> byte list list" where
  "entries_add d \<equiv> replace_first (\<lambda>e. entry_ino d e = 0)"

lemma replace_first_at:
  "i < length xs \<Longrightarrow> P (xs ! i) \<Longrightarrow> \<forall>j < i. \<not> P (xs ! j) \<Longrightarrow> replace_first P e xs = xs[i := e]"
proof (induction xs arbitrary: i)
  case (Cons x xs)
  show ?case
  proof (cases i)
    case (Suc k)
    have "\<not> P x" using Cons.prems(3) Suc by force
    moreover have "\<forall>j < k. \<not> P (xs ! j)" using Cons.prems(3) Suc by force
    ultimately show ?thesis using Cons Suc by simp
  qed (use Cons.prems in simp)
qed simp

lemma replace_first_none: "\<forall>x \<in> set xs. \<not> P x \<Longrightarrow> replace_first P e xs = xs @ [e]"
  by (induction xs) auto

text \<open>An added name is found, if it was not there before, and no other name is affected.\<close>

lemma lookup_added:
  assumes "entries_lookup d es name = Inl ENOENT" "entry_is d name e"
  shows "entries_lookup d (entries_add d e es) name = Inr (ucast (entry_ino d e))"
  using assms
  by (induction es) (auto simp: entries_lookup_def entry_is_def split: option.splits if_splits)

lemma lookup_other_added:
  assumes "entry_is d name e" "other \<noteq> name"
  shows "entries_lookup d (entries_add d e es) other = entries_lookup d es other"
  using assms by (induction es) (auto simp: entries_lookup_def entry_is_def)

lemma find_index: "find P xs = Some x \<Longrightarrow> \<exists>i < length xs. xs ! i = x \<and> P x \<and> (\<forall>j < i. \<not> P (xs ! j))"
  by (simp add: find_Some_iff) metis

section \<open>The scan is a search\<close>

context file_store
begin

definition slot :: "filsys_edition \<Rightarrow> filsys_inode \<Rightarrow> nat \<Rightarrow> byte list" where
  "slot fs ip i = map (fbyte fs ip)
     [i * d_dirent_size (fs_desc fs)..<i * d_dirent_size (fs_desc fs) + d_dirent_size (fs_desc fs)]"

definition nslots :: "filsys_edition \<Rightarrow> filsys_inode \<Rightarrow> nat" where
  "nslots fs ip = unat (ip_size ip) div d_dirent_size (fs_desc fs)"

definition dir_slots :: "filsys_edition \<Rightarrow> filsys_inode \<Rightarrow> byte list list" where
  "dir_slots fs ip = map (slot fs ip) [0..<nslots fs ip]"

text \<open>What the scan finds: nothing, or the first entry with the property and where it is.\<close>

definition scan_result :: "filsys_edition \<Rightarrow> filsys_inode \<Rightarrow> (byte list \<Rightarrow> bool) \<Rightarrow>
    errno + (nat \<times> byte list \<times> nat) option \<Rightarrow> bool" where
  "scan_result fs ip H r \<longleftrightarrow>
     (case r of
        Inl _ \<Rightarrow> False
      | Inr None \<Rightarrow> \<forall>i < nslots fs ip. \<not> H (slot fs ip i)
      | Inr (Some (off, blk, b)) \<Rightarrow>
          \<exists>i < nslots fs ip. off + b = i * d_dirent_size (fs_desc fs) \<and>
            b + d_dirent_size (fs_desc fs) \<le> length blk \<and>
            take (d_dirent_size (fs_desc fs)) (drop b blk) = slot fs ip i \<and>
            H (slot fs ip i) \<and> (\<forall>j < i. \<not> H (slot fs ip j)))"

lemma chunk_entries:
  assumes e: "0 < d_dirent_size (fs_desc fs)"
  obtains q where "0 < q" "dir_chunk fs = q * d_dirent_size (fs_desc fs)"
proof (cases "d_bsize (fs_desc fs) div d_dirent_size (fs_desc fs) = 0")
  case True
  then show ?thesis using that [of 1] e by (simp add: dir_chunk_def Let_def)
next
  case False
  then show ?thesis using that [of "d_bsize (fs_desc fs) div d_dirent_size (fs_desc fs)"] e
    by (simp add: dir_chunk_def Let_def)
qed

lemma scan_chunk:
  assumes F: "file_ok fs ip" and c: "dir_chunk fs = q * d_dirent_size (fs_desc fs)"
    and k: "k * dir_chunk fs < unat (ip_size ip)"
  defines "g \<equiv> min (dir_chunk fs) (unat (ip_size ip) - k * dir_chunk fs)"
    and "blk \<equiv> map (fbyte fs ip) [k * dir_chunk fs..<k * dir_chunk fs + min (dir_chunk fs) (unat (ip_size ip) - k * dir_chunk fs)]"
  shows "filsys_file_read fs ip g (int (k * dir_chunk fs)) = Inr blk" "length blk = g"
    "j * d_dirent_size (fs_desc fs) + d_dirent_size (fs_desc fs) \<le> g \<Longrightarrow>
      take (d_dirent_size (fs_desc fs)) (drop (j * d_dirent_size (fs_desc fs)) blk) = slot fs ip (k * q + j)"
proof -
  have "min (k * dir_chunk fs + g) (unat (ip_size ip)) = k * dir_chunk fs + g" using k by (simp add: g_def)
  then show "filsys_file_read fs ip g (int (k * dir_chunk fs)) = Inr blk"
    using file_read [OF F, of g "k * dir_chunk fs"] by (simp add: blk_def g_def)
  show len: "length blk = g" by (simp add: blk_def g_def)
  assume j: "j * d_dirent_size (fs_desc fs) + d_dirent_size (fs_desc fs) \<le> g"
  have at: "k * dir_chunk fs + j * d_dirent_size (fs_desc fs) = (k * q + j) * d_dirent_size (fs_desc fs)"
    by (simp add: c add_mult_distrib)
  show "take (d_dirent_size (fs_desc fs)) (drop (j * d_dirent_size (fs_desc fs)) blk) = slot fs ip (k * q + j)"
  proof (rule nth_equalityI)
    show "length (take (d_dirent_size (fs_desc fs)) (drop (j * d_dirent_size (fs_desc fs)) blk)) = length (slot fs ip (k * q + j))"
      using j by (simp add: len slot_def)
    fix i assume "i < length (take (d_dirent_size (fs_desc fs)) (drop (j * d_dirent_size (fs_desc fs)) blk))"
    then have i: "i < d_dirent_size (fs_desc fs)" "j * d_dirent_size (fs_desc fs) + i < g" using j by simp_all
    have "blk ! (j * d_dirent_size (fs_desc fs) + i) = fbyte fs ip (k * dir_chunk fs + (j * d_dirent_size (fs_desc fs) + i))"
      using i(2) by (simp add: blk_def g_def)
    then show "take (d_dirent_size (fs_desc fs)) (drop (j * d_dirent_size (fs_desc fs)) blk) ! i = slot fs ip (k * q + j) ! i"
      using i len by (simp add: slot_def at [symmetric] add.assoc)
  qed
qed

lemma scan_from:
  assumes F: "file_ok fs ip" and e: "0 < d_dirent_size (fs_desc fs)" and q: "0 < q" "dir_chunk fs = q * d_dirent_size (fs_desc fs)"
    and local: "\<And>blk b. b + d_dirent_size (fs_desc fs) \<le> length blk \<Longrightarrow>
      hit blk b = H (take (d_dirent_size (fs_desc fs)) (drop b blk))"
    and M: "unat (ip_size ip) \<le> M * dir_chunk fs" "\<And>k. k < M \<Longrightarrow> k * dir_chunk fs < unat (ip_size ip)"
    and "k \<le> M" and "\<forall>j < nslots fs ip. j < k * q \<longrightarrow> \<not> H (slot fs ip j)"
  shows "scan_result fs ip H (fixed_scan fs ip hit (map (\<lambda>k. k * dir_chunk fs) [k..<M]))"
  using assms(8,9)
proof (induction "M - k" arbitrary: k rule: less_induct)
  case less
  let ?es = "d_dirent_size (fs_desc fs)" and ?c = "dir_chunk fs" and ?N = "nslots fs ip"
  have N: "j < ?N \<longleftrightarrow> j * ?es + ?es \<le> unat (ip_size ip)" for j
    using e by (simp add: nslots_def less_eq_div_iff_mult_less_eq Suc_le_eq [symmetric] add.commute)
  show ?case
  proof (cases "k = M")
    case True
    have "j < k * q" if "j < ?N" for j
    proof -
      have "j * ?es + ?es \<le> (k * q) * ?es" using that N M(1) True q(2) by (simp add: mult.assoc)
      then have "Suc j * ?es \<le> (k * q) * ?es" by simp
      then show ?thesis using e by (simp only: mult_le_cancel2) simp
    qed
    then show ?thesis using less.prems(2) True by (simp add: scan_result_def)
  next
    case False
    then have k: "k < M" using less.prems(1) by simp
    define g where "g = min ?c (unat (ip_size ip) - k * ?c)"
    define blk where "blk = map (fbyte fs ip) [k * ?c..<k * ?c + g]"
    note ch = scan_chunk [OF F q(2) M(2) [OF k], folded g_def, folded blk_def]
    let ?offs = "entry_offsets ?es 0 (length blk)"
    have offs: "?offs = map (\<lambda>j. j * ?es) [0..<g div ?es]" by (simp add: entry_offsets_def ch(2))
    have inj: "j < g div ?es \<longleftrightarrow> j * ?es + ?es \<le> g" for j
      using e by (simp add: less_eq_div_iff_mult_less_eq Suc_le_eq [symmetric] add.commute)
    have hit: "hit blk (j * ?es) = H (slot fs ip (k * q + j))" if "j < g div ?es" for j
      using local [of "j * ?es" blk] ch(2,3) that inj by simp
    have up: "[k..<M] = k # [Suc k..<M]" using k by (rule upt_conv_Cons)
    have step: "fixed_scan fs ip hit (map (\<lambda>k. k * ?c) [k..<M]) =
        (case find (hit blk) ?offs of Some b \<Rightarrow> Inr (Some (k * ?c, blk, b))
         | None \<Rightarrow> fixed_scan fs ip hit (map (\<lambda>k. k * ?c) [Suc k..<M]))"
      using ch(1) by (simp add: up g_def)
    show ?thesis
    proof (cases "find (hit blk) ?offs")
      case None
      then have no: "\<not> H (slot fs ip (k * q + j))" if "j < g div ?es" for j
        using that hit by (auto simp: find_None_iff offs)
      have "\<not> H (slot fs ip j)" if "j < ?N" "j < Suc k * q" for j
      proof (cases "j < k * q")
        case True
        then show ?thesis using less.prems(2) that(1) by blast
      next
        case False
        define i where "i = j - k * q"
        have i: "j = k * q + i" "i < q" using False that(2) by (simp_all add: i_def)
        have "Suc i * ?es \<le> q * ?es" using i(2) by (intro mult_le_mono1) simp
        moreover have "k * ?c + (i * ?es + ?es) \<le> unat (ip_size ip)"
          using that(1) unfolding N i(1) q(2) by (simp add: add_mult_distrib mult.assoc)
        ultimately have "i * ?es + ?es \<le> g" unfolding g_def q(2) by simp
        then show ?thesis using no inj i(1) by blast
      qed
      then show ?thesis using less.hyps [of "Suc k"] k None step by simp
    next
      case (Some b)
      then obtain i where i: "i < g div ?es" "b = i * ?es" "hit blk b" "\<forall>j < i. \<not> hit blk (j * ?es)"
        using find_index [OF Some] by (auto simp: offs)
      let ?i = "k * q + i"
      have in_g: "i * ?es + ?es \<le> g" using i(1) inj by blast
      have at: "k * ?c + b = ?i * ?es" by (simp add: i(2) q(2) add_mult_distrib)
      have "?i * ?es + ?es \<le> unat (ip_size ip)" using in_g M(2) [OF k] unfolding at [symmetric] i(2) g_def by linarith
      then have "?i < ?N" using N by blast
      moreover have "\<not> H (slot fs ip j)" if "j < ?i" for j
      proof (cases "j < k * q")
        case True
        then show ?thesis using less.prems(2) \<open>?i < ?N\<close> by simp
      next
        case False
        then have "j = k * q + (j - k * q)" "j - k * q < i" using that by simp_all
        then show ?thesis using i(1,4) hit [of "j - k * q"] by (metis less_trans)
      qed
      moreover have "take ?es (drop b blk) = slot fs ip ?i" "H (slot fs ip ?i)" "b + ?es \<le> length blk"
        using ch(2,3) in_g i hit by simp_all
      ultimately show ?thesis using step Some at unfolding scan_result_def by auto
    qed
  qed
qed

lemma scan_all:
  assumes F: "file_ok fs ip" and e: "0 < d_dirent_size (fs_desc fs)"
    and local: "\<And>blk b. b + d_dirent_size (fs_desc fs) \<le> length blk \<Longrightarrow>
      hit blk b = H (take (d_dirent_size (fs_desc fs)) (drop b blk))"
  shows "scan_result fs ip H (fixed_scan fs ip hit (dir_chunks fs ip))"
proof -
  obtain q where q: "0 < q" "dir_chunk fs = q * d_dirent_size (fs_desc fs)" by (rule chunk_entries [OF e])
  let ?c = "dir_chunk fs" and ?s = "unat (ip_size ip)"
  let ?M = "(?s + ?c - 1) div ?c"
  have c: "0 < ?c" using q e by simp
  have "?s \<le> ?M * ?c"
    using div_mult_mod_eq [of "?s + ?c - 1" ?c] mod_less_divisor [OF c, of "?s + ?c - 1"] c by linarith
  moreover have "k * ?c < ?s" if "k < ?M" for k
  proof -
    have "Suc k * ?c \<le> ?s + ?c - 1" using that c by (simp add: less_eq_div_iff_mult_less_eq Suc_le_eq [symmetric])
    then show ?thesis using c by simp
  qed
  ultimately show ?thesis
    unfolding dir_chunks_def by (intro scan_from [where M = ?M and k = 0 and q = q] F e) (simp_all add: local q)
qed

end

end
