(* ===== verification/Instrument.thy ===== *)
theory Instrument
  imports Alloc_Freelist Alloc_V8bitmap V1fs Pdp7_Words
begin

text \<open>
  The instrumented build (\<^verbatim>\<open>instrument.c\<close>): a table that knows the owner of every block and a ring
  with the last mutations, fed by hooks in the allocators and the access layer.  The number of
  violations is the number of steps that break the life cycle of some block, so a block claimed
  twice is always reported and a correct allocator never; the ring prints the most recent events
  in order.
\<close>

section \<open>The table and the trace\<close>

record block_owner =
  ow_ino :: u32
  ow_lbn :: u32
  ow_kind :: byte

abbreviation INO_ALLOC :: u32 where "INO_ALLOC \<equiv> 0xffffffff"

text \<open>One constructor per format string of the trace.\<close>

datatype instr_event =
    Ev_alloc_block u32
  | Ev_free_block u32
  | Ev_assign u32 u32 u32 int
  | Ev_release_block u32
  | Ev_alloc_inode u32
  | Ev_free_inode u32
  | Ev_dir_add u32 "byte list" u32
  | Ev_dir_remove u32 "byte list"
  | Ev_link u32 u32 u32
  | Ev_truncate u32

record trace_ent =
  te_seq :: nat
  te_what :: "instr_event option"

text \<open>The globals; the table is \<open>None\<close> when \<^verbatim>\<open>calloc\<close> had no memory for it, which \<^verbatim>\<open>filsys_instr_reset\<close> does not look at.\<close>

record instr =
  g_owner :: "block_owner list option"
  g_nblk :: u32
  g_trace :: "trace_ent list"
  g_seq :: nat
  g_violations :: nat

abbreviation TRACE_MAX :: nat where "TRACE_MAX \<equiv> 4096"

definition filsys_instr_reset :: "bool \<Rightarrow> u32 \<Rightarrow> instr" where
  "filsys_instr_reset mem nblk =
     \<lparr>g_owner = (if mem then Some (replicate (unat nblk) \<lparr>ow_ino = 0, ow_lbn = 0, ow_kind = 0\<rparr>) else None),
      g_nblk = nblk, g_trace = replicate TRACE_MAX \<lparr>te_seq = 0, te_what = None\<rparr>, g_seq = 0, g_violations = 0\<rparr>"

definition trace :: "instr \<Rightarrow> instr_event \<Rightarrow> instr" where
  "trace g ev =
     g\<lparr>g_trace := (g_trace g)[g_seq g mod TRACE_MAX := \<lparr>te_seq = g_seq g, te_what = Some ev\<rparr>], g_seq := Suc (g_seq g)\<rparr>"

text \<open>The entries in the order they are printed.\<close>

definition filsys_instr_dump :: "instr \<Rightarrow> trace_ent list" where
  "filsys_instr_dump g =
     map (\<lambda>i. g_trace g ! (i mod TRACE_MAX)) [(if TRACE_MAX < g_seq g then g_seq g - TRACE_MAX else 0)..<g_seq g]"

section \<open>The hooks\<close>

text \<open>Violations are counted and printed, never fatal.  Blocks past the table are ignored.\<close>

definition owner_violation :: "bool \<Rightarrow> instr \<Rightarrow> instr" where
  "owner_violation bad g = (if bad then g\<lparr>g_violations := Suc (g_violations g)\<rparr> else g)"

definition tracked :: "instr \<Rightarrow> u32 \<Rightarrow> (block_owner \<Rightarrow> bool \<times> block_owner) \<Rightarrow> instr_event \<Rightarrow> errno + instr" where
  "tracked g bno f ev =
     (if g_nblk g \<le> bno then Inr g
      else case g_owner g of
        None \<Rightarrow> Inl UB
      | Some os \<Rightarrow>
          let (bad, ow) = f (os ! unat bno) in
          Inr (trace ((owner_violation bad g)\<lparr>g_owner := Some (os[unat bno := ow])\<rparr>) ev))"

definition filsys_instr_balloc :: "instr \<Rightarrow> u32 \<Rightarrow> errno + instr" where
  "filsys_instr_balloc g bno =
     tracked g bno (\<lambda>ow. (ow_ino ow \<noteq> 0, \<lparr>ow_ino = INO_ALLOC, ow_lbn = 0, ow_kind = 3\<rparr>)) (Ev_alloc_block bno)"

definition filsys_instr_bfree :: "instr \<Rightarrow> u32 \<Rightarrow> errno + instr" where
  "filsys_instr_bfree g bno =
     tracked g bno (\<lambda>ow. (ow_ino ow \<noteq> INO_ALLOC, \<lparr>ow_ino = 0, ow_lbn = 0, ow_kind = 0\<rparr>)) (Ev_free_block bno)"

definition filsys_instr_assign :: "instr \<Rightarrow> u32 \<Rightarrow> u32 \<Rightarrow> u32 \<Rightarrow> int \<Rightarrow> errno + instr" where
  "filsys_instr_assign g ino lbn bno kind =
     tracked g bno (\<lambda>ow. (ow_ino ow \<noteq> INO_ALLOC, \<lparr>ow_ino = ino, ow_lbn = lbn, ow_kind = of_int kind\<rparr>))
       (Ev_assign ino lbn bno kind)"

definition filsys_instr_release :: "instr \<Rightarrow> u32 \<Rightarrow> errno + instr" where
  "filsys_instr_release g bno =
     tracked g bno
       (\<lambda>ow. (False, if ow_ino ow \<noteq> 0 \<and> ow_ino ow \<noteq> INO_ALLOC then ow\<lparr>ow_ino := INO_ALLOC\<rparr> else ow))
       (Ev_release_block bno)"

text \<open>The hooks on inodes and directories only trace.\<close>

fun instr_step :: "instr \<Rightarrow> instr_event \<Rightarrow> errno + instr" where
  "instr_step g (Ev_alloc_block bno) = filsys_instr_balloc g bno"
| "instr_step g (Ev_free_block bno) = filsys_instr_bfree g bno"
| "instr_step g (Ev_assign ino lbn bno kind) = filsys_instr_assign g ino lbn bno kind"
| "instr_step g (Ev_release_block bno) = filsys_instr_release g bno"
| "instr_step g ev = Inr (trace g ev)"

fun instr_run :: "instr \<Rightarrow> instr_event list \<Rightarrow> errno + instr" where
  "instr_run g [] = Inr g"
| "instr_run g (ev # evs) = (case instr_step g ev of Inl e \<Rightarrow> Inl e | Inr g \<Rightarrow> instr_run g evs)"

section \<open>The life of a block\<close>

datatype owner_state = Free | Taken | Owned

definition owner_state_of :: "u32 \<Rightarrow> owner_state" where
  "owner_state_of ino = (if ino = 0 then Free else if ino = INO_ALLOC then Taken else Owned)"

text \<open>What an event does to one block: whether the step is legal, and the state it leaves.\<close>

fun life_step :: "u32 \<Rightarrow> owner_state \<Rightarrow> instr_event \<Rightarrow> bool \<times> owner_state" where
  "life_step b s (Ev_alloc_block b') = (if b' = b then (s = Free, Taken) else (True, s))"
| "life_step b s (Ev_free_block b') = (if b' = b then (s = Taken, Free) else (True, s))"
| "life_step b s (Ev_assign ino lbn b' kind) = (if b' = b then (s = Taken, owner_state_of ino) else (True, s))"
| "life_step b s (Ev_release_block b') = (True, if b' = b \<and> s = Owned then Taken else s)"
| "life_step b s ev = (True, s)"

fun life_faults :: "u32 \<Rightarrow> owner_state \<Rightarrow> instr_event list \<Rightarrow> nat" where
  "life_faults b s [] = 0"
| "life_faults b s (ev # evs) = of_bool (\<not> fst (life_step b s ev)) + life_faults b (snd (life_step b s ev)) evs"

definition owner_at :: "instr \<Rightarrow> u32 \<Rightarrow> owner_state" where
  "owner_at g b = owner_state_of (ow_ino (the (g_owner g) ! unat b))"

definition table_wf :: "instr \<Rightarrow> bool" where
  "table_wf g \<longleftrightarrow> (\<exists>os. g_owner g = Some os \<and> length os = unat (g_nblk g))"

lemma trace_fields [simp]:
  "g_owner (trace g ev) = g_owner g" "g_nblk (trace g ev) = g_nblk g" "g_violations (trace g ev) = g_violations g"
  by (simp_all add: trace_def)

lemma owner_violation_fields [simp]:
  "g_nblk (owner_violation bad g) = g_nblk g" "g_violations (owner_violation bad g) = of_bool bad + g_violations g"
  "g_seq (owner_violation bad g) = g_seq g" "g_trace (owner_violation bad g) = g_trace g"
  by (simp_all add: owner_violation_def)

text \<open>One hook on a block follows the cycle of that block and leaves the others alone.\<close>

lemma tracked_step:
  assumes "table_wf g" "bno < g_nblk g" "f (the (g_owner g) ! unat bno) = (bad, ow)"
  shows "\<exists>g'. tracked g bno f ev = Inr g' \<and> table_wf g' \<and> g_nblk g' = g_nblk g \<and> g_violations g' = of_bool bad + g_violations g \<and>
    (\<forall>b < g_nblk g. owner_at g' b = (if b = bno then owner_state_of (ow_ino ow) else owner_at g b))"
proof -
  obtain os where os: "g_owner g = Some os" "length os = unat (g_nblk g)" using assms(1) by (auto simp: table_wf_def)
  have "unat bno < length os" using assms(2) os(2) by (simp add: word_less_nat_alt)
  moreover have "unat bno \<noteq> unat b" if "b \<noteq> bno" for b using that by (metis word_unat_eq_iff)
  ultimately show ?thesis using assms os by (auto simp: tracked_def not_le table_wf_def owner_at_def)
qed

definition follows_life :: "instr \<Rightarrow> instr_event \<Rightarrow> errno + instr \<Rightarrow> bool" where
  "follows_life g ev r \<longleftrightarrow> (\<exists>g'. r = Inr g' \<and> table_wf g' \<and> g_nblk g' = g_nblk g \<and>
    g_violations g' = (\<Sum>b | b < g_nblk g. of_bool (\<not> fst (life_step b (owner_at g b) ev))) + g_violations g \<and>
    (\<forall>b < g_nblk g. owner_at g' b = snd (life_step b (owner_at g b) ev)))"

lemma tracked_life:
  assumes wf: "table_wf g"
    and step: "\<And>b s. life_step b s ev = (if b = bno then (\<not> bad s, nxt s) else (True, s))"
    and f: "\<And>ow. fst (f ow) = bad (owner_state_of (ow_ino ow))" "\<And>ow. owner_state_of (ow_ino (snd (f ow))) = nxt (owner_state_of (ow_ino ow))"
  shows "follows_life g ev (tracked g bno f ev')"
proof (cases "bno < g_nblk g")
  case False
  then have "life_step b s ev = (True, s)" if "b < g_nblk g" for b s using step that by auto
  then show ?thesis using False wf by (simp add: follows_life_def tracked_def not_less)
next
  case True
  have "(\<Sum>b | b < g_nblk g. of_bool (\<not> fst (life_step b (owner_at g b) ev)) :: nat) =
      (\<Sum>b | b < g_nblk g. if b = bno then of_bool (bad (owner_at g bno)) else 0)"
    by (rule sum.cong) (auto simp: step)
  also have "\<dots> = of_bool (bad (owner_at g bno))" using True by (simp add: sum.delta')
  finally show ?thesis
    using tracked_step [OF wf True prod.collapse [symmetric], of f ev']
    by (auto simp: follows_life_def step f owner_at_def)
qed

lemma instr_step_life:
  assumes "table_wf g"
  shows "follows_life g ev (instr_step g ev)"
proof -
  have s: "owner_state_of ino = Free \<longleftrightarrow> ino = 0" "owner_state_of ino = Taken \<longleftrightarrow> ino = INO_ALLOC"
    "owner_state_of ino = Owned \<longleftrightarrow> ino \<noteq> 0 \<and> ino \<noteq> INO_ALLOC" "owner_state_of 0 = Free" "owner_state_of INO_ALLOC = Taken" for ino
    by (simp_all add: owner_state_of_def)
  have t: "follows_life g ev (Inr (trace g ev))" if "\<And>b s. life_step b s ev = (True, s)" for ev
    using assms that by (simp add: follows_life_def table_wf_def owner_at_def)
  show ?thesis
  proof (cases ev)
    case (Ev_alloc_block b)
    show ?thesis unfolding Ev_alloc_block instr_step.simps filsys_instr_balloc_def
      by (rule tracked_life [OF assms, where bad = "\<lambda>s. s \<noteq> Free" and nxt = "\<lambda>_. Taken"]) (simp_all add: s)
  next
    case (Ev_free_block b)
    show ?thesis unfolding Ev_free_block instr_step.simps filsys_instr_bfree_def
      by (rule tracked_life [OF assms, where bad = "\<lambda>s. s \<noteq> Taken" and nxt = "\<lambda>_. Free"]) (simp_all add: s)
  next
    case (Ev_assign ino lbn b kind)
    show ?thesis unfolding Ev_assign instr_step.simps filsys_instr_assign_def
      by (rule tracked_life [OF assms, where bad = "\<lambda>s. s \<noteq> Taken" and nxt = "\<lambda>_. owner_state_of ino"]) (simp_all add: s)
  next
    case (Ev_release_block b)
    show ?thesis unfolding Ev_release_block instr_step.simps filsys_instr_release_def
      by (rule tracked_life [OF assms, where bad = "\<lambda>_. False" and nxt = "\<lambda>s. if s = Owned then Taken else s"]) (auto simp: s)
  qed (simp_all add: t)
qed

text \<open>The violations of a run are the illegal steps, block by block.\<close>

lemma violations_are_faults:
  assumes "table_wf g"
  shows "\<exists>g'. instr_run g evs = Inr g' \<and> table_wf g' \<and> g_nblk g' = g_nblk g \<and>
    g_violations g' = (\<Sum>b | b < g_nblk g. life_faults b (owner_at g b) evs) + g_violations g"
  using assms
proof (induction evs arbitrary: g)
  case (Cons ev evs)
  obtain g1 where g1: "instr_step g ev = Inr g1" "table_wf g1" "g_nblk g1 = g_nblk g"
      "g_violations g1 = (\<Sum>b | b < g_nblk g. of_bool (\<not> fst (life_step b (owner_at g b) ev))) + g_violations g"
      "\<forall>b < g_nblk g. owner_at g1 b = snd (life_step b (owner_at g b) ev)"
    using instr_step_life [OF Cons.prems, of ev] by (auto simp: follows_life_def)
  have "(\<Sum>b | b < g_nblk g. life_faults b (owner_at g1 b) evs) = (\<Sum>b | b < g_nblk g. life_faults b (snd (life_step b (owner_at g b) ev)) evs)"
    by (rule sum.cong) (simp_all add: g1(5))
  then show ?case using Cons.IH [OF g1(2)] g1 by (auto simp: sum.distrib)
qed simp

lemma reset_table: "table_wf (filsys_instr_reset True n)" "g_nblk (filsys_instr_reset True n) = n"
  "b < n \<Longrightarrow> owner_at (filsys_instr_reset True n) b = Free" "g_violations (filsys_instr_reset mem n) = 0"
  by (simp_all add: filsys_instr_reset_def table_wf_def owner_at_def owner_state_of_def word_less_nat_alt)

text \<open>A block claimed twice with no release in between is reported.\<close>

lemma life_stays_claimed:
  assumes "s \<noteq> Free" "Ev_free_block b \<notin> set ys" "\<And>lbn kind. Ev_assign 0 lbn b kind \<notin> set ys"
  shows "0 < life_faults b s (ys @ Ev_alloc_block b # zs)"
  using assms
proof (induction ys arbitrary: s)
  case (Cons ev ys)
  have "snd (life_step b s ev) \<noteq> Free"
    using Cons.prems by (cases ev) (auto simp: owner_state_of_def split: if_splits)
  then show ?case using Cons.IH [of "snd (life_step b s ev)"] Cons.prems by simp
qed simp

lemma life_faults_append:
  "life_faults b s (xs @ ys) = life_faults b s xs + life_faults b (foldl (\<lambda>s ev. snd (life_step b s ev)) s xs) ys"
  by (induction xs arbitrary: s) simp_all

lemma reset_run:
  assumes "instr_run (filsys_instr_reset True n) evs = Inr g"
  shows "g_violations g = (\<Sum>b | b < n. life_faults b Free evs)"
  using violations_are_faults [OF reset_table(1), of n evs] assms reset_table by (auto intro!: sum.cong)

lemma claimed_twice_is_reported:
  assumes "b < n" "Ev_free_block b \<notin> set ys" "\<And>lbn kind. Ev_assign 0 lbn b kind \<notin> set ys"
    and "instr_run (filsys_instr_reset True n) (xs @ Ev_alloc_block b # ys @ Ev_alloc_block b # zs) = Inr g"
  shows "0 < g_violations g"
proof -
  let ?evs = "xs @ Ev_alloc_block b # ys @ Ev_alloc_block b # zs"
  have "0 < life_faults b Taken (ys @ Ev_alloc_block b # zs)" by (rule life_stays_claimed) (use assms in auto)
  then have "0 < life_faults b Free ?evs" by (simp add: life_faults_append [of b Free xs])
  also have "\<dots> \<le> (\<Sum>c | c < n. life_faults c Free ?evs)" by (rule member_le_sum) (use assms(1) in auto)
  finally show ?thesis by (simp add: reset_run [OF assms(4)])
qed

section \<open>Allocators that are never reported\<close>

text \<open>
  Runs of an allocator as the engine uses it, with the events its hooks see: a block is handed
  out, assigned to an inode, released by it, and given back, in this order.  \<open>T\<close> are the blocks
  handed out and not assigned, \<open>W\<close> those an inode owns.
\<close>

inductive alloc_run ::
    "('s \<Rightarrow> ('s, u32) outcome) \<Rightarrow> ('s \<Rightarrow> u32 \<Rightarrow> 's) \<Rightarrow> 's \<Rightarrow> 's \<Rightarrow> u32 set \<Rightarrow> u32 set \<Rightarrow> instr_event list \<Rightarrow> bool"
  for balloc bfree s0 where
  run_start: "alloc_run balloc bfree s0 s0 {} {} []"
| run_alloc: "alloc_run balloc bfree s0 s T W evs \<Longrightarrow> balloc s = (Inr b, s') \<Longrightarrow>
    alloc_run balloc bfree s0 s' (insert b T) W (evs @ [Ev_alloc_block b])"
| run_assign: "alloc_run balloc bfree s0 s T W evs \<Longrightarrow> b \<in> T \<Longrightarrow> ino \<noteq> 0 \<Longrightarrow> ino \<noteq> INO_ALLOC \<Longrightarrow>
    alloc_run balloc bfree s0 s (T - {b}) (insert b W) (evs @ [Ev_assign ino lbn b kind])"
| run_release: "alloc_run balloc bfree s0 s T W evs \<Longrightarrow> b \<in> W \<Longrightarrow>
    alloc_run balloc bfree s0 s (insert b T) (W - {b}) (evs @ [Ev_release_block b])"
| run_free: "alloc_run balloc bfree s0 s T W evs \<Longrightarrow> b \<in> T \<Longrightarrow>
    alloc_run balloc bfree s0 (bfree s b) (T - {b}) W (evs @ [Ev_free_block b])"

abbreviation life_after :: "u32 \<Rightarrow> instr_event list \<Rightarrow> owner_state" where
  "life_after b evs \<equiv> foldl (\<lambda>s ev. snd (life_step b s ev)) Free evs"

definition life_of :: "u32 set \<Rightarrow> u32 set \<Rightarrow> u32 \<Rightarrow> owner_state" where
  "life_of T W b = (if b \<in> T then Taken else if b \<in> W then Owned else Free)"

definition unreported :: "u32 \<Rightarrow> instr_event list \<Rightarrow> bool" where
  "unreported n evs \<longleftrightarrow>
     (case instr_run (filsys_instr_reset True n) evs of Inl _ \<Rightarrow> False | Inr g \<Rightarrow> g_violations g = 0)"

text \<open>The blocks free at the start are now free, handed out or owned, each in one way.\<close>

definition books_balance :: "u32 set \<Rightarrow> u32 set \<Rightarrow> u32 set \<Rightarrow> u32 set \<Rightarrow> bool" where
  "books_balance F F' T W \<longleftrightarrow> F' \<inter> (T \<union> W) = {} \<and> T \<inter> W = {} \<and> F' \<union> T \<union> W = F"

context block_allocator
begin

lemma run_conserves:
  assumes "alloc_run balloc bfree s0 s T W evs" "inv s0"
  shows "inv s \<and> area s = area s0 \<and> frees s \<inter> (T \<union> W) = {} \<and> T \<inter> W = {} \<and> frees s \<union> T \<union> W = frees s0 \<and>
    (\<forall>b. life_faults b Free evs = 0 \<and> life_after b evs = life_of T W b)"
  using assms
proof (induction rule: alloc_run.induct)
  case (run_alloc s T W evs b s')
  have "frees s \<noteq> {}" using run_alloc balloc_empty [of s] by force
  then have "b \<in> frees s" "inv s'" "frees s' = frees s - {b}" "area s' = area s"
    using balloc_some [of s] run_alloc by auto
  then show ?case using run_alloc by (auto simp: life_faults_append life_of_def)
next
  case (run_free s T W evs b)
  then have "b \<in> area s" "b \<notin> frees s" using frees_area [of s0] by auto
  then show ?case using run_free bfree_free [of s b] by (auto simp: life_faults_append life_of_def)
qed (auto simp: life_faults_append life_of_def owner_state_of_def)

lemma run_unreported:
  assumes "alloc_run balloc bfree s0 s T W evs" "inv s0"
  shows "unreported n evs"
proof -
  obtain g where "instr_run (filsys_instr_reset True n) evs = Inr g"
    using violations_are_faults [OF reset_table(1)] by blast
  then show ?thesis using reset_run run_conserves [OF assms] by (force simp: unreported_def)
qed

lemma run_books:
  "inv s0 \<and> alloc_run balloc bfree s0 s T W evs \<longrightarrow> books_balance (frees s0) (frees s) T W \<and> unreported n evs"
  using run_conserves run_unreported unfolding books_balance_def by blast

end

section \<open>The ring keeps the last events, numbered\<close>

definition ring_ok :: "instr \<Rightarrow> instr_event list \<Rightarrow> bool" where
  "ring_ok g es \<longleftrightarrow> g_seq g = length es \<and> length (g_trace g) = TRACE_MAX \<and>
     (\<forall>i < length es. length es \<le> i + TRACE_MAX \<longrightarrow> g_trace g ! (i mod TRACE_MAX) = \<lparr>te_seq = i, te_what = Some (es ! i)\<rparr>)"

lemma ring_trace:
  assumes "ring_ok g es"
  shows "ring_ok (trace g ev) (es @ [ev])"
proof -
  have r: "g_seq g = length es" "length (g_trace g) = TRACE_MAX" using assms by (simp_all add: ring_ok_def)
  have "g_trace (trace g ev) ! (i mod TRACE_MAX) = \<lparr>te_seq = i, te_what = Some ((es @ [ev]) ! i)\<rparr>"
    if i: "i < Suc (length es)" "Suc (length es) \<le> i + TRACE_MAX" for i
  proof (cases "i = length es")
    case True
    then show ?thesis using r by (simp add: trace_def)
  next
    case False
    then have "i < length es" using i by simp
    moreover have "length es mod TRACE_MAX \<noteq> i mod TRACE_MAX"
    proof
      assume "length es mod TRACE_MAX = i mod TRACE_MAX"
      then have "TRACE_MAX dvd length es - i" using \<open>i < length es\<close> by (simp add: mod_eq_dvd_iff_nat)
      then show False using i \<open>i < length es\<close> by (auto dest: dvd_imp_le)
    qed
    ultimately show ?thesis using assms r i by (simp add: trace_def ring_ok_def nth_append)
  qed
  then show ?thesis using r by (simp add: ring_ok_def trace_def)
qed

text \<open>Events on blocks past the table are not traced.\<close>

fun traced :: "u32 \<Rightarrow> instr_event \<Rightarrow> bool" where
  "traced n (Ev_alloc_block b) \<longleftrightarrow> b < n"
| "traced n (Ev_free_block b) \<longleftrightarrow> b < n"
| "traced n (Ev_assign ino lbn b kind) \<longleftrightarrow> b < n"
| "traced n (Ev_release_block b) \<longleftrightarrow> b < n"
| "traced n ev \<longleftrightarrow> True"

lemma tracked_ring:
  assumes "ring_ok g es" "tracked g bno f ev = Inr g'"
  shows "ring_ok g' (if bno < g_nblk g then es @ [ev] else es) \<and> g_nblk g' = g_nblk g"
proof -
  have "ring_ok ((owner_violation bad g)\<lparr>g_owner := x\<rparr>) es" for bad x using assms(1) by (simp add: ring_ok_def)
  then show ?thesis
    using assms by (auto simp: tracked_def not_less Let_def ring_trace split: if_splits option.splits prod.splits)
qed

lemma step_ring:
  assumes "ring_ok g es" "instr_step g ev = Inr g'"
  shows "ring_ok g' (es @ filter (traced (g_nblk g)) [ev])" "g_nblk g' = g_nblk g"
  using assms ring_trace [OF assms(1), of ev]
  by (cases ev; auto simp: filsys_instr_balloc_def filsys_instr_bfree_def filsys_instr_assign_def filsys_instr_release_def
      dest: tracked_ring split: if_splits)+

lemma run_ring:
  "ring_ok g es \<Longrightarrow> instr_run g evs = Inr g' \<Longrightarrow> ring_ok g' (es @ filter (traced (g_nblk g)) evs)"
proof (induction evs arbitrary: g es)
  case (Cons ev evs)
  obtain g1 where g1: "instr_step g ev = Inr g1" "instr_run g1 evs = Inr g'" using Cons.prems(2) by (auto split: sum.splits)
  from Cons.IH [OF step_ring(1) [OF Cons.prems(1) g1(1)] g1(2)] show ?case
    by (simp add: step_ring(2) [OF Cons.prems(1) g1(1)] split: if_splits)
qed simp

lemma ring_dump:
  assumes "ring_ok g es"
  shows "filsys_instr_dump g = drop (length es - TRACE_MAX) (map2 (\<lambda>i ev. \<lparr>te_seq = i, te_what = Some ev\<rparr>) [0..<length es] es)"
  using assms by (intro nth_equalityI) (auto simp: filsys_instr_dump_def ring_ok_def)

lemma dump_is_last_events:
  assumes "instr_run (filsys_instr_reset mem n) evs = Inr g"
  defines "es \<equiv> filter (traced n) evs"
  shows "map (the \<circ> te_what) (filsys_instr_dump g) = drop (length es - TRACE_MAX) es"
proof -
  have "ring_ok (filsys_instr_reset mem n) []" "g_nblk (filsys_instr_reset mem n) = n" by (simp_all add: ring_ok_def filsys_instr_reset_def)
  from run_ring [OF this(1) assms(1)] this(2) have "ring_ok g es" by (simp add: es_def)
  then show ?thesis by (simp add: ring_dump flip: drop_map) (simp add: comp_def split_def map_snd_zip)
qed

end
