(* ===== verification/Findfs.thy ===== *)
theory Findfs
  imports Detect "HOL-Library.Product_Lexorder" "HOL-Library.Multiset"
begin

text \<open>
  The command \<^verbatim>\<open>findfs.filsys\<close>: the scan of an image for volumes, the trace back from inode
  blocks, and the report.  The volumes it reports do not overlap; a volume that starts where
  another ends is stepped over.
\<close>

section \<open>Names\<close>

text \<open>The \<^verbatim>\<open>-v\<close> token of a class: some are compared by prefix, some as a whole.\<close>

definition canonical_token :: "string \<Rightarrow> string" where
  "canonical_token cls =
     (if take 3 cls = ''v1,'' then ''v1''
      else if take 3 cls = ''v4,'' then ''v6''
      else if take 3 cls = ''v7,'' then ''v7''
      else if take 9 cls = ''v8 or v10'' then ''v8''
      else if take 4 cls = ''v10,'' then ''v10''
      else if take 6 cls = ''sysvr2'' then ''sysvr2''
      else if take 3 cls = ''32V'' then ''vax32''
      else if cls = ''Coherent'' then ''coherent''
      else if cls = ''Xenix'' then ''xenix''
      else if cls = ''2.9BSD'' then ''bsd29''
      else if cls = ''2.11BSD'' then ''bsd211''
      else if cls = ''sysvr4'' then ''sysvr4''
      else if cls = ''v9'' then ''v9''
      else cls)"

definition edition_selector :: "string \<Rightarrow> edition option" where
  "edition_selector cls = filsys_edition_by_name (Some (canonical_token cls))"

text \<open>No filter is the edition -1 of the code.\<close>

definition matches :: "edition option \<Rightarrow> string \<Rightarrow> bool" where
  "matches flt cls =
     (case flt of None \<Rightarrow> True | Some e \<Rightarrow> e = FILSYS_UNIX \<or> edition_selector cls = Some e)"

section \<open>Blocks of inodes\<close>

definition inode_ok :: "byte list \<Rightarrow> nat \<Rightarrow> bool" where
  "inode_ok b o' \<longleftrightarrow>
     (let mode = bo_get16le b o'; t = mode AND 0xF000 in
      mode = 0 \<or>
      (t = 0x8000 \<or> t = 0x4000 \<or> t = 0x2000 \<or> t = 0x6000) \<and>
      bo_get16le b (o' + 2) < 128 \<and> bo_get16le b (o' + 4) < 256 \<and> bo_get16le b (o' + 6) < 256)"

definition inode_block :: "byte list \<Rightarrow> bool" where
  "inode_block b \<longleftrightarrow>
     6 \<le> length (filter (\<lambda>i. inode_ok b (i * 64)) [0..<8]) \<and> (\<exists>i \<in> set [0..<8]. bo_get16le b (i * 64) \<noteq> 0)"

section \<open>Candidates\<close>

record cand =
  cd_blk :: u32
  cd_byte :: nat
  cd_class_desc :: string
  cd_ed :: string
  cd_note :: string
  cd_isz :: u16
  cd_fsz :: u32
  cd_segs :: u32
  cd_root :: bool
  cd_bitmap :: bool
  cd_valid :: bool
  cd_end :: nat
  cd_why :: "string option"
  cd_drop :: bool

abbreviation MAXCAND :: nat where "MAXCAND \<equiv> 256"

text \<open>The strings are cut to their arrays; candidates past the table are forgotten.\<close>

definition add_cand :: "cand list \<Rightarrow> u32 \<Rightarrow> nat \<Rightarrow> string \<Rightarrow> filsys_probe \<Rightarrow> u32 \<Rightarrow> bool \<Rightarrow> bool \<Rightarrow> nat \<Rightarrow> string option \<Rightarrow> cand list" where
  "add_cand cands blk byte cls res segs root valid en why =
     (if MAXCAND \<le> length cands then cands
      else cands @ [\<lparr>cd_blk = blk, cd_byte = byte, cd_class_desc = take 47 cls, cd_ed = take 15 (canonical_token cls),
        cd_note = (case pr_note res of None \<Rightarrow> [] | Some s \<Rightarrow> take 47 s), cd_isz = pr_isize res, cd_fsz = pr_fsize res,
        cd_segs = segs, cd_root = root, cd_bitmap = pr_bitmap res, cd_valid = valid, cd_end = en, cd_why = why, cd_drop = False\<rparr>])"

text \<open>
  The report: a volume that stands drops every other candidate that starts inside it, the rest is
  sorted, volumes in front, and printed; rejected candidates only if asked for.
\<close>

definition drop_inside :: "cand list \<Rightarrow> nat \<Rightarrow> cand list" where
  "drop_inside cands i =
     (if \<not> cd_valid (cands ! i) \<or> cd_drop (cands ! i) then cands
      else map (\<lambda>j. let c = cands ! j in
             if j \<noteq> i \<and> cd_byte (cands ! i) \<le> cd_byte c \<and> cd_byte c < cd_end (cands ! i) then c\<lparr>cd_drop := True\<rparr> else c)
           [0..<length cands])"

definition cand_key :: "cand \<Rightarrow> bool \<times> nat" where
  "cand_key c = (\<not> cd_valid c, cd_byte c)"

definition emit :: "bool \<Rightarrow> cand list \<Rightarrow> cand list" where
  "emit verbose cands =
     filter (\<lambda>c. \<not> cd_drop c \<and> (cd_valid c \<or> verbose))
       (sort_key cand_key (foldl drop_inside cands [0..<length cands]))"

section \<open>The scan\<close>

record find_state =
  fd_cands :: "cand list"
  fd_found :: nat
  fd_skip :: nat
  fd_strong :: bool
  fd_traced :: "(u32 \<times> string \<times> u16 \<times> u32) list"

text \<open>A probe on a fresh state; an edition without operations finds nothing.\<close>

definition probe_one :: "host \<Rightarrow> edition \<Rightarrow> nat \<Rightarrow> nat \<Rightarrow> nat \<Rightarrow> probed" where
  "probe_one h e base bsize sz =
     (case d_ops (filsys_getformat e) of
        None \<Rightarrow> Inr (0, zero_probe)
      | Some ops \<Rightarrow> ops_probe ops (zero_mount h (filsys_getformat e)) base bsize sz zero_probe)"

text \<open>One edition with one block size.  A report without a class has no string to compare or copy.\<close>

definition find_try :: "host \<Rightarrow> nat \<Rightarrow> edition option \<Rightarrow> u32 \<Rightarrow> bool \<Rightarrow> find_state \<Rightarrow> edition \<times> nat \<Rightarrow> errno + find_state" where
  "find_try h sz flt base512 strong st x =
     (case x of (e, bsize) \<Rightarrow>
        let base = unat base512 * 512 in
        case probe_one h e base bsize sz of
          Inl err \<Rightarrow> Inl err
        | Inr (r, res) \<Rightarrow>
            if r \<noteq> 1 \<and> r \<noteq> 2 then Inr st
            else case pr_class res of
              None \<Rightarrow> Inl UB
            | Some cls \<Rightarrow>
                if \<not> matches flt cls then Inr st
                else if r = 1
                then let de = base + unat (pr_fsize res) * pr_blocksize res in
                  Inr (st\<lparr>fd_cands := add_cand (fd_cands st) base512 base cls res (pr_segs res)
                                         (cls \<noteq> ''v4, v5, v6 or usgpg3'') True de None,
                          fd_skip := max (fd_skip st) de, fd_strong := fd_strong st \<or> strong, fd_found := fd_found st + 1\<rparr>)
                else Inr (st\<lparr>fd_cands := add_cand (fd_cands st) base512 base cls res 0 False False 0 (pr_why res),
                             fd_found := fd_found st + 1\<rparr>))"

fun find_tries :: "(find_state \<Rightarrow> edition \<times> nat \<Rightarrow> errno + find_state) \<Rightarrow> (edition \<times> nat) list \<Rightarrow> find_state \<Rightarrow> errno + find_state" where
  "find_tries f [] st = Inr st"
| "find_tries f (x # xs) st = (case f st x of Inl e \<Rightarrow> Inl e | Inr st \<Rightarrow> find_tries f xs st)"

definition find_pass :: "bool \<Rightarrow> nat \<Rightarrow> nat \<Rightarrow> (edition \<times> nat) list" where
  "find_pass strong base sz =
     concat (map (\<lambda>(e, _). if e = FILSYS_PDP7 \<or> strong \<noteq> edition_is_strong e then []
                          else map (Pair e) (filter (\<lambda>b. base mod b = 0 \<and> base + b \<le> sz) (edition_bsizes e))) formats)"

text \<open>The trace back: the first of V6 and V7, in the order of the table, whose probe at the offset reports anything.\<close>

fun trace_probe :: "host \<Rightarrow> nat \<Rightarrow> nat \<Rightarrow> edition list \<Rightarrow> errno + filsys_probe option" where
  "trace_probe h sz base [] = Inr None"
| "trace_probe h sz base (e # es) =
     (case probe_one h e base 512 sz of
        Inl err \<Rightarrow> Inl err
      | Inr (r, res) \<Rightarrow> if 1 \<le> r then Inr (Some res) else trace_probe h sz base es)"

definition find_trace :: "host \<Rightarrow> nat \<Rightarrow> edition option \<Rightarrow> u32 \<Rightarrow> find_state \<Rightarrow> errno + find_state" where
  "find_trace h sz flt base512 st =
     (let base = unat base512 * 512 in
      if sz < base + 1024 then Inr st
      else case io_file_read (zero_mount h zero_desc) 512 (base + 1024) of
        Inl _ \<Rightarrow> Inr st
      | Inr b \<Rightarrow>
          if \<not> inode_block b then Inr st
          else case trace_probe h sz base (filter (\<lambda>e. e = FILSYS_V7 \<or> e = FILSYS_V6) (map fst formats)) of
            Inl err \<Rightarrow> Inl err
          | Inr None \<Rightarrow> Inr st
          | Inr (Some res) \<Rightarrow>
              (case pr_class res of
                 None \<Rightarrow> Inl UB
               | Some cls \<Rightarrow>
                   Inr (if matches flt cls then st\<lparr>fd_traced := fd_traced st @ [(base512, cls, pr_isize res, pr_fsize res)], fd_found := fd_found st + 1\<rparr> else st)))"

definition find_at :: "host \<Rightarrow> nat \<Rightarrow> edition option \<Rightarrow> bool \<Rightarrow> u32 \<Rightarrow> find_state \<Rightarrow> errno + find_state" where
  "find_at h sz flt backtrace base512 st =
     (let base = unat base512 * 512 in
      case find_tries (find_try h sz flt base512 True) (find_pass True base sz) (st\<lparr>fd_strong := False\<rparr>) of
        Inl e \<Rightarrow> Inl e
      | Inr st \<Rightarrow>
          (case (if fd_strong st then Inr st else find_tries (find_try h sz flt base512 False) (find_pass False base sz) st) of
             Inl e \<Rightarrow> Inl e
           | Inr st \<Rightarrow> if backtrace then find_trace h sz flt base512 st else Inr st))"

text \<open>
  The loop over the starting blocks.  Inside a volume that was found it moves to the volume's end
  and then takes the step of the loop as well.  The counter has 32 bits and may wrap.
\<close>

partial_function (option) find_loop ::
    "host \<Rightarrow> nat \<Rightarrow> edition option \<Rightarrow> bool \<Rightarrow> u32 \<Rightarrow> u32 \<Rightarrow> find_state \<Rightarrow> (errno + find_state) option" where
  "find_loop h sz flt backtrace stride base512 st =
     (if of_nat (sz div 512) \<le> base512 then Some (Inr st)
      else if unat base512 * 512 < fd_skip st
      then find_loop h sz flt backtrace stride (of_nat (fd_skip st div 512) + stride) st
      else case find_at h sz flt backtrace base512 st of
        Inl e \<Rightarrow> Some (Inl e)
      | Inr st \<Rightarrow> find_loop h sz flt backtrace stride (base512 + stride) st)"

text \<open>What is printed: traced blocks, candidates, the PDP-7 volume with its offset and packing; and the exit status.\<close>

record find_report =
  fr_traced :: "(u32 \<times> string \<times> u16 \<times> u32) list"
  fr_cands :: "cand list"
  fr_pdp7 :: "(nat \<times> string) option"
  fr_status :: nat

definition find_pdp7 :: "host \<Rightarrow> nat \<Rightarrow> edition option \<Rightarrow> (nat \<times> string) option" where
  "find_pdp7 h sz flt =
     (case probe_one h FILSYS_PDP7 0 0 sz of
        Inl _ \<Rightarrow> None
      | Inr (r, res) \<Rightarrow>
          if r = 1 \<and> matches flt (the (pr_class res))
          then Some (pr_base res, case pr_packing res of None \<Rightarrow> ''rb09'' | Some p \<Rightarrow> p) else None)"

definition findfs_main :: "host \<Rightarrow> edition option \<Rightarrow> u32 \<Rightarrow> bool \<Rightarrow> bool \<Rightarrow> (errno + find_report) option" where
  "findfs_main h flt stride backtrace verbose =
     (if h_len h < 512 then Some (Inr \<lparr>fr_traced = [], fr_cands = [], fr_pdp7 = None, fr_status = 1\<rparr>)
      else case find_loop h (h_len h) flt backtrace stride 0
             \<lparr>fd_cands = [], fd_found = 0, fd_skip = 0, fd_strong = False, fd_traced = []\<rparr> of
        None \<Rightarrow> None
      | Some (Inl e) \<Rightarrow> Some (Inl e)
      | Some (Inr st) \<Rightarrow>
          let p7 = find_pdp7 h (h_len h) flt in
          Some (Inr \<lparr>fr_traced = fd_traced st, fr_cands = emit verbose (fd_cands st), fr_pdp7 = p7,
                     fr_status = (if fd_found st = 0 \<and> p7 = None then 1 else 0)\<rparr>))"

section \<open>The volumes reported do not overlap\<close>

text \<open>Two positions of a list, read off its multiset.\<close>

lemma positions_mset:
  assumes "i < length xs" "j < length xs" "i \<noteq> j"
  shows "{#xs ! i, xs ! j#} \<subseteq># mset xs"
proof -
  have less: "{#xs ! i, xs ! j#} \<subseteq># mset xs" if "i < j" "j < length xs" for i j
  proof -
    have "xs ! i \<in># mset (take j xs)" using that by (auto simp: in_set_conv_nth intro!: exI [of _ i])
    then have "{#xs ! i#} \<subseteq># mset (take j xs)" by simp
    moreover have "mset xs = mset (take j xs) + add_mset (xs ! j) (mset (drop (Suc j) xs))"
      using that by (metis id_take_nth_drop mset.simps(2) mset_append)
    ultimately show ?thesis by (simp add: mset_subset_eq_add_mset_cancel subset_mset.add_increasing2)
  qed
  show ?thesis using less [of i j] less [of j i] assms by (cases "i < j") (simp_all add: add_mset_commute)
qed

lemma mset_positions:
  assumes "{#c, d#} \<subseteq># mset xs"
  obtains i j where "i < length xs" "j < length xs" "i \<noteq> j" "xs ! i = c" "xs ! j = d"
proof -
  have "c \<in># mset xs" using assms by (metis insert_subset_eq_iff)
  then obtain i where i: "i < length xs" "xs ! i = c" by (metis in_set_conv_nth set_mset_mset)
  have "mset xs - {#c#} = mset (take i xs @ drop (Suc i) xs)"
    using i by (metis add_mset_remove_trivial id_take_nth_drop mset.simps(2) mset_append union_mset_add_mset_right)
  moreover have "d \<in># mset xs - {#c#}" using assms by (metis insert_subset_eq_iff single_subset_iff)
  ultimately have "d \<in> set (take i xs) \<or> d \<in> set (drop (Suc i) xs)" by (metis Un_iff set_append set_mset_mset)
  then obtain j where "j < length xs" "j \<noteq> i" "xs ! j = d"
  proof
    assume "d \<in> set (take i xs)"
    then obtain k where "k < i" "xs ! k = d" using i by (auto simp: in_set_conv_nth)
    then show thesis using that [of k] i by simp
  next
    assume "d \<in> set (drop (Suc i) xs)"
    then obtain k where "k < length xs - Suc i" "xs ! (Suc i + k) = d" by (auto simp: in_set_conv_nth)
    then show thesis using that [of "Suc i + k"] by simp
  qed
  then show thesis using that i by blast
qed

definition inside :: "cand \<Rightarrow> cand \<Rightarrow> bool" where
  "inside c d \<longleftrightarrow> cd_byte c \<le> cd_byte d \<and> cd_byte d < cd_end c"

text \<open>After the candidates up to \<open>n\<close> had their turn.\<close>

definition dropped_upto :: "nat \<Rightarrow> cand list \<Rightarrow> bool" where
  "dropped_upto n cs \<longleftrightarrow> (\<forall>i j. i < n \<and> i < length cs \<and> j < length cs \<and> j \<noteq> i \<and> cd_valid (cs ! i) \<and> \<not> cd_drop (cs ! i) \<and>
     inside (cs ! i) (cs ! j) \<longrightarrow> cd_drop (cs ! j))"

lemma drop_inside_nth:
  assumes "j < length cs"
  shows "drop_inside cs i ! j =
    (if cd_valid (cs ! i) \<and> \<not> cd_drop (cs ! i) \<and> j \<noteq> i \<and> inside (cs ! i) (cs ! j) then (cs ! j)\<lparr>cd_drop := True\<rparr> else cs ! j)"
    "length (drop_inside cs i) = length cs"
  using assms by (auto simp: drop_inside_def inside_def Let_def)

lemma dropped_step:
  assumes "dropped_upto n cs"
  shows "dropped_upto (Suc n) (drop_inside cs n)"
proof -
  let ?cs = "drop_inside cs n"
  have same: "cd_valid (?cs ! k) = cd_valid (cs ! k)" "inside (?cs ! k) (?cs ! l) = inside (cs ! k) (cs ! l)" "cd_drop (cs ! k) \<Longrightarrow> cd_drop (?cs ! k)"
    if "k < length cs" "l < length cs" for k l
    using that by (simp_all add: drop_inside_nth inside_def)
  have len: "length ?cs = length cs" by (simp add: drop_inside_def)
  have "cd_drop (?cs ! j)"
    if i: "i < Suc n" "i < length cs" "j < length cs" "j \<noteq> i" "cd_valid (cs ! i)" "\<not> cd_drop (?cs ! i)" "inside (cs ! i) (cs ! j)" for i j
  proof (cases "i = n")
    case True
    then show ?thesis using i by (auto simp: drop_inside_nth split: if_splits)
  next
    case False
    then have "i < n" "\<not> cd_drop (cs ! i)" using i(1,6) same(3) [OF i(2) i(2)] by auto
    then have "cd_drop (cs ! j)" using i assms unfolding dropped_upto_def by blast
    then show ?thesis using same(3) [OF i(3) i(3)] by simp
  qed
  then show ?thesis using same unfolding dropped_upto_def len by blast
qed

lemma dropped_all: "dropped_upto (length cs) (foldl drop_inside cs [0..<length cs])"
proof -
  have "dropped_upto n (foldl drop_inside cs [0..<n]) \<and> length (foldl drop_inside cs [0..<n]) = length cs" for n
  proof (induction n)
    case (Suc n)
    then show ?case using dropped_step by (simp add: drop_inside_def)
  qed (simp add: dropped_upto_def)
  then show ?thesis by blast
qed

lemma emit_disjoint:
  assumes "i < length (emit verbose cs)" "j < length (emit verbose cs)" "i \<noteq> j" "cd_valid (emit verbose cs ! i)"
  shows "\<not> inside (emit verbose cs ! i) (emit verbose cs ! j)"
proof -
  let ?out = "emit verbose cs" and ?ds = "foldl drop_inside cs [0..<length cs]"
  have len: "length (foldl drop_inside cs [0..<n]) = length cs" for n by (induction n) (simp_all add: drop_inside_def)
  have "{#?out ! i, ?out ! j#} \<subseteq># mset ?out" by (rule positions_mset [OF assms(1-3)])
  also have "mset ?out \<subseteq># mset ?ds" by (simp add: emit_def)
  finally obtain k l where kl: "k < length ?ds" "l < length ?ds" "k \<noteq> l" "?ds ! k = ?out ! i" "?ds ! l = ?out ! j"
    by (rule mset_positions)
  have "\<not> cd_drop c" if "c \<in> set ?out" for c using that by (simp add: emit_def)
  then have "\<not> cd_drop (?out ! i)" "\<not> cd_drop (?out ! j)" using assms(1,2) by simp_all
  then show ?thesis using dropped_all [of cs] kl assms(4) len unfolding dropped_upto_def by metis
qed

text \<open>They come in the order of their place, the rejected ones last.\<close>

lemma emit_sorted: "sorted (map cand_key (emit verbose cs))"
  by (simp add: emit_def sorted_filter)

section \<open>Volumes that are missed\<close>

text \<open>
  The scan that has found a volume ending at block \<open>n\<close> goes on at \<open>n + stride\<close>: a volume that
  starts where the other ends is not probed.
\<close>

lemma find_loop_steps_over:
  assumes "base512 < of_nat (sz div 512)" "unat base512 * 512 < fd_skip st" "fd_skip st = n * 512"
  shows "find_loop h sz flt backtrace stride base512 st = find_loop h sz flt backtrace stride (of_nat n + stride) st"
proof -
  have "\<not> of_nat (sz div 512) \<le> base512" "fd_skip st div 512 = n" using assms by (simp_all add: not_le)
  then show ?thesis using assms(2) by (subst find_loop.simps) simp
qed

text \<open>The class of a PDP-7 volume is not the name of its edition, so the filter for it turns it down.\<close>

lemma findfs_pdp7_filtered: "find_pdp7 h sz (Some FILSYS_PDP7) = None"
proof -
  have "canonical_token ''PDP-7'' = ''PDP-7''" by (simp add: canonical_token_def)
  moreover have "filsys_edition_by_name (Some ''PDP-7'') = None" by (simp add: filsys_edition_by_name_def formats_def)
  ultimately have "\<not> matches (Some FILSYS_PDP7) ''PDP-7''" by (simp add: matches_def edition_selector_def)
  then show ?thesis by (auto simp: find_pdp7_def probe_one_def ops_probe_def split: option.splits)
qed

end
