(* ===== verification/Mkfs_Tool.thy ===== *)
theory Mkfs_Tool
  imports Fsck_Tool Mkfs
begin

text \<open>
  The command \<^verbatim>\<open>mkfs.filsys\<close> around \<open>filsys_mkfs\<close>: its options, the boot program, the size of the
  volume and the resizing of the image before and after.
\<close>

section \<open>The boot program\<close>

text \<open>
  \<^verbatim>\<open>read_boot\<close> on the bytes of the file: text and data of an a.out with magic 0407, at most one
  512-byte block of them, in a zeroed buffer of the largest block size.  \<open>None\<close> is the exit.
\<close>

definition read_boot :: "byte list \<Rightarrow> byte list option" where
  "read_boot f =
     (let c = unat (bo_get16le f 2) + unat (bo_get16le f 4); body = take c (drop 16 f) in
      if length f < 16 \<or> bo_get16le f 0 \<noteq> 0x107 \<or> 512 < c \<or> length body \<noteq> c then None
      else Some (body @ replicate (8192 - c) 0))"

section \<open>The options\<close>

record mk_opts =
  mk_edition :: "edition option"
  mk_offblock :: nat
  mk_bootfile :: "string option"
  mk_m :: u16
  mk_n :: u16
  mk_packing :: "string option"
  mk_arch :: "string option"
  mk_bsize :: nat
  mk_geom_spec :: "string option"

definition mk_defaults :: mk_opts where
  "mk_defaults =
     \<lparr>mk_edition = None, mk_offblock = 0, mk_bootfile = None, mk_m = 1, mk_n = 1, mk_packing = None, mk_arch = None,
      mk_bsize = 0, mk_geom_spec = None\<rparr>"

definition mk_option :: "mk_opts \<Rightarrow> char \<times> string \<Rightarrow> mk_opts option" where
  "mk_option o' x =
     (case x of (c, arg) \<Rightarrow>
        if c = CHR ''v'' then map_option (\<lambda>e. o'\<lparr>mk_edition := Some e\<rparr>) (filsys_edition_by_name (Some arg))
        else if c = CHR ''o'' then Some (o'\<lparr>mk_offblock := fst (strtoull arg)\<rparr>)
        else if c = CHR ''b'' then Some (o'\<lparr>mk_bootfile := Some arg\<rparr>)
        else if c = CHR ''m'' then Some (o'\<lparr>mk_m := of_nat (fst (strtoull arg))\<rparr>)
        else if c = CHR ''n'' then Some (o'\<lparr>mk_n := of_nat (fst (strtoull arg))\<rparr>)
        else if c = CHR ''P'' then Some (o'\<lparr>mk_packing := Some arg\<rparr>)
        else if c = CHR ''a'' then Some (o'\<lparr>mk_arch := Some arg\<rparr>)
        else if c = CHR ''B'' then Some (o'\<lparr>mk_bsize := fst (strtoull arg) mod 2 ^ 32\<rparr>)
        else if c = CHR ''g'' then Some (o'\<lparr>mk_geom_spec := Some arg\<rparr>)
        else None)"

fun mk_options :: "mk_opts \<Rightarrow> (char \<times> string) list \<Rightarrow> mk_opts option" where
  "mk_options o' [] = Some o'"
| "mk_options o' (x # xs) = (case mk_option o' x of None \<Rightarrow> None | Some o' \<Rightarrow> mk_options o' xs)"

section \<open>The image\<close>

text \<open>\<^verbatim>\<open>ftruncate\<close>: what lies past the new end is gone, a longer image is filled with zeroes.\<close>

definition host_truncate :: "host \<Rightarrow> nat \<Rightarrow> host" where
  "host_truncate h n = h\<lparr>h_img := (\<lambda>a. if a < min n (h_len h) then h_img h a else 0), h_len := n\<rparr>"

text \<open>
  The outside: is the image a regular file (after \<^verbatim>\<open>open_image\<close>, which creates a missing one), can
  it be sized, which lengths does \<^verbatim>\<open>ftruncate\<close> refuse, what other files hold.
\<close>

record mk_env =
  me_opened :: bool
  me_regular :: bool
  me_sized :: bool
  me_trunc_ok :: "nat \<Rightarrow> bool"
  me_file :: "string \<Rightarrow> byte list option"

definition resolve_blocks :: "mk_env \<Rightarrow> host \<Rightarrow> nat \<Rightarrow> nat \<Rightarrow> u32 \<Rightarrow> errno + u32" where
  "resolve_blocks env h base bsize blocks =
     (if blocks \<noteq> 0 then Inr blocks
      else let fits = (me_sized env \<and> (base + bsize) mod 2 ^ 64 \<le> h_len h) in
        if fits \<and> bsize = 0 then Inl UB
        else let b = (if fits then of_nat ((h_len h - base) div bsize) else 0) in
          Inr (if b < 16 then 4000 else b))"

definition mk_resize :: "mk_env \<Rightarrow> host \<Rightarrow> nat \<Rightarrow> host option" where
  "mk_resize env h n =
     (if \<not> me_regular env then Some h else if me_trunc_ok env n then Some (host_truncate h n) else None)"

section \<open>Running it\<close>

text \<open>
  The checks on \<^verbatim>\<open>-B\<close> and \<^verbatim>\<open>-g\<close> before the image is opened, then the size in the block size of
  \<^verbatim>\<open>-B\<close> or of the row (the one of \<^verbatim>\<open>-g\<close> is not looked at).  The volume's size ends up in the
  options of \<open>filsys_mkfs\<close>.
\<close>

definition mk_checked :: "host \<Rightarrow> mk_opts \<Rightarrow> edition \<Rightarrow> filsys_geom option option" where
  "mk_checked h o' e =
     (case (case mk_geom_spec o' of
              None \<Rightarrow> Inr None
            | Some spec \<Rightarrow> (case parse_geom (h_alloc h) spec no_geom of Inl m \<Rightarrow> Inl m | Inr g \<Rightarrow> Inr (Some g))) of
        Inl _ \<Rightarrow> None
      | Inr geom \<Rightarrow>
          if mk_bsize o' \<noteq> 0 \<and> (\<not> d_dyn_bsize (filsys_getformat e) \<or> mk_bsize o' \<notin> {512, 1024, 2048}) then None
          else Some geom)"

definition mk_image :: "mk_env \<Rightarrow> host \<Rightarrow> mk_opts \<Rightarrow> edition \<Rightarrow> nat \<Rightarrow> nat \<Rightarrow> u32 \<Rightarrow> (errno + nat) + (u32 \<times> host)" where
  "mk_image env h o' e base bsize blocks =
     (if e = FILSYS_PDP7
      then (case (case mk_packing o' of None \<Rightarrow> d_word (filsys_getformat e) | Some p \<Rightarrow> filsys_word_codec_by_name p) of
              None \<Rightarrow> Inl (Inr 1)
            | Some wc \<Rightarrow>
                if \<not> me_opened env then Inl (Inr 1)
                else case mk_resize env h (base + 8000 * block_bytes wc) of None \<Rightarrow> Inl (Inr 1) | Some h \<Rightarrow> Inr (blocks, h))
      else if \<not> me_opened env then Inl (Inr 1)
      else case resolve_blocks env h base bsize blocks of
        Inl e \<Rightarrow> Inl (Inl e)
      | Inr blocks \<Rightarrow>
          (case mk_resize env h (base + unat blocks * bsize) of None \<Rightarrow> Inl (Inr 1) | Some h \<Rightarrow> Inr (blocks, h)))"

definition mk_boot :: "mk_env \<Rightarrow> mk_opts \<Rightarrow> byte list option option" where
  "mk_boot env o' =
     (case mk_bootfile o' of
        None \<Rightarrow> Some None
      | Some path \<Rightarrow> (case me_file env path of None \<Rightarrow> None | Some f \<Rightarrow> map_option Some (read_boot f)))"

text \<open>The exit status and the image; \<open>blocks\<close> is the second operand, 0 without one.\<close>

definition mkfs_main :: "mk_env \<Rightarrow> host \<Rightarrow> (char \<times> string) list \<Rightarrow> bool \<Rightarrow> u32 \<Rightarrow> (errno + nat) \<times> host" where
  "mkfs_main env h args operand blocks =
     (case mk_options mk_defaults args of
        None \<Rightarrow> (Inr 1, h)
      | Some o' \<Rightarrow>
          if \<not> operand then (Inr 1, h)
          else case mk_edition o' of
            None \<Rightarrow> (Inr 1, h)
          | Some e \<Rightarrow>
              (case mk_checked h o' e of
                 None \<Rightarrow> (Inr 1, h)
               | Some geom \<Rightarrow>
                   let bsize = (if mk_bsize o' \<noteq> 0 then mk_bsize o' else d_bsize (filsys_getformat e));
                       base = mul64 (mk_offblock o') bsize in
                   (case mk_image env h o' e base bsize blocks of
                      Inl r \<Rightarrow> (r, h)
                    | Inr (blocks, h) \<Rightarrow>
                        (case mk_boot env o' of
                           None \<Rightarrow> (Inr 1, h)
                         | Some boot \<Rightarrow>
                             (case filsys_mkfs e h base
                                     \<lparr>mo_blocks = blocks, mo_bsize = mk_bsize o', mo_packing = mk_packing o', mo_arch = mk_arch o',
                                      mo_geom = geom, mo_m = mk_m o', mo_n = mk_n o', mo_boot = boot\<rparr> of
                                (r, fs) \<Rightarrow>
                                  let h = fs_host fs; w = mr_written r in
                                  if mr_err r \<noteq> None then (Inr 1, h)
                                  else if w \<noteq> 0 \<and> w \<noteq> base + unat blocks * bsize
                                  then (case mk_resize env h (base + w) of None \<Rightarrow> (Inr 1, h) | Some h \<Rightarrow> (Inr 0, h))
                                  else (Inr 0, h))))))"

section \<open>What it does to the image\<close>

text \<open>The boot buffer is a whole block whatever the block size, with nothing behind the program.\<close>

lemma read_boot_block:
  assumes "read_boot f = Some buf"
  shows "length buf = 8192" "\<exists>c \<le> 512. c + 16 \<le> length f \<and> buf = take c (drop 16 f) @ replicate (8192 - c) 0"
proof -
  let ?c = "unat (bo_get16le f 2) + unat (bo_get16le f 4)"
  have c: "?c \<le> 512" "length (take ?c (drop 16 f)) = ?c" "16 \<le> length f" "buf = take ?c (drop 16 f) @ replicate (8192 - ?c) 0"
    using assms by (auto simp: read_boot_def Let_def split: if_splits)
  then show "length buf = 8192" by simp
  have "?c + 16 \<le> length f" using c(2,3) by simp
  then show "\<exists>c \<le> 512. c + 16 \<le> length f \<and> buf = take c (drop 16 f) @ replicate (8192 - c) 0" using c(1,4) by blast
qed

text \<open>
  With a number of blocks the image is cut behind the volume: what a longer image holds there
  (other partitions, when a volume is made at an offset) is lost.
\<close>

lemma mkfs_cuts_image:
  assumes "e \<noteq> FILSYS_PDP7" "blocks \<noteq> 0" "me_regular env" "mk_image env h o' e base bsize blocks = Inr (b, h')"
  shows "b = blocks \<and> h_len h' = base + unat blocks * bsize \<and> (\<forall>a \<ge> base + unat blocks * bsize. h_img h' a = 0)"
  using assms by (auto simp: mk_image_def resolve_blocks_def mk_resize_def host_truncate_def split: if_splits option.splits)

text \<open>The row of \<^verbatim>\<open>unix\<close> has no block size to divide by.\<close>

lemma mkfs_unix_divides_by_zero:
  assumes "me_opened env" "me_sized env"
  shows "mkfs_main env h [(CHR ''v'', ''unix'')] True 0 = (Inl UB, h)"
proof -
  have "mk_options mk_defaults [(CHR ''v'', ''unix'')] = Some (mk_defaults\<lparr>mk_edition := Some FILSYS_UNIX\<rparr>)"
    by (simp add: mk_option_def filsys_edition_by_name_def)
  then show ?thesis
    using assms by (simp add: mkfs_main_def mk_checked_def mk_defaults_def mk_image_def resolve_blocks_def zero_desc_def mul64_def Let_def)
qed

text \<open>
  A V8 volume with 4096-byte blocks is counted in blocks of 1024: on an image of \<open>n\<close> such blocks
  \<open>n\<close> blocks of 4096 are asked for.
\<close>

lemma mkfs_geom_counts_small:
  assumes "me_sized env" "h_len h = n * 1024" "16 \<le> n" "n < 2 ^ 32"
  shows "resolve_blocks env h 0 (d_bsize (filsys_getformat FILSYS_V8)) 0 = Inr (of_nat n)"
    "\<exists>d. filsys_apply_geom (filsys_getformat FILSYS_V8) FILSYS_V8 (no_geom\<lparr>g_blocksize := 4096\<rparr>) = Inr d \<and> d_bsize d = 4096"
proof -
  have "\<not> (of_nat n :: u32) < 16" using assms(3,4) by (simp add: word_less_nat_alt unat_of_nat_lt)
  moreover have "1024 mod 2 ^ 64 \<le> n * 1024" using assms(3) by simp
  ultimately show "resolve_blocks env h 0 (d_bsize (filsys_getformat FILSYS_V8)) 0 = Inr (of_nat n)"
    using assms by (simp add: resolve_blocks_def Let_def)
  show "\<exists>d. filsys_apply_geom (filsys_getformat FILSYS_V8) FILSYS_V8 (no_geom\<lparr>g_blocksize := 4096\<rparr>) = Inr d \<and> d_bsize d = 4096"
    by (simp add: filsys_apply_geom_def no_geom_def geom_check_def)
qed

end
