(* ===== verification/Spec2Isabelle.thy ===== *)
theory Spec2Isabelle
  imports Samples_Check Samples_Detect Samples_Fuse Dir_Data Instrument Findfs Mkfs_Tool Mount_Tool
begin

text \<open>
  A verification development of filsys, a library that reads, writes, checks and makes the
  file systems of Research Unix (PDP-7, V1, V6, V7, V8 to V10), 32V, Coherent, Xenix, 2.9BSD,
  2.11BSD, System III and System V on disk images.

  \<^bold>\<open>The program.\<close>  An image is opened with a descriptor (\<^verbatim>\<open>filsys_format.c\<close>) that says which
  backend serves it.  A backend is a table of operations over blocks, inodes and directories:
  \<^verbatim>\<open>v7fs.c\<close> with \<^verbatim>\<open>alloc_freelist.c\<close> or \<^verbatim>\<open>alloc_v8bitmap.c\<close> for V6, the V7 family and V8 to V10,
  \<^verbatim>\<open>v1fs.c\<close> for V1, \<^verbatim>\<open>pdp7fs.c\<close> for the PDP-7.  Above them \<^verbatim>\<open>blocktree.c\<close> maps the logical
  blocks of a file through indirect blocks, \<^verbatim>\<open>dir_fixed.c\<close> and \<^verbatim>\<open>dir_bsd211.c\<close> keep directories
  in file data, \<^verbatim>\<open>filsys.c\<close> builds the operations a file system offers with their rollbacks,
  and \<^verbatim>\<open>filsys_path.c\<close> resolves paths for them.  \<^verbatim>\<open>filsys_detect.c\<close> asks the probes of the
  backends which edition an image holds, and \<^verbatim>\<open>fuse_core.c\<close> has the bodies of the FUSE callbacks.

  \<^bold>\<open>The model.\<close>  The mount (\<^verbatim>\<open>filsys_edition_t\<close>) is a record, the image and the ways the host
  can fail (read errors, short writes, exhausted memory) are a part of it, and every write is
  entered in a log, so that orders of writes can be stated.  On-disk values are words of their
  width, descriptor constants and host offsets are natural numbers.  A read returns
  \<open>errno + 'a\<close>; an operation that changes the mount returns a result and the new mount, with
  the inode where the code updates that too.  \<open>UB\<close> is the result of a C access out of its
  array or of an uninitialised value.  The function tables are constructors, dispatched by case.

  \<^item> Prelude, Byteorder (\<^verbatim>\<open>byteorder.c\<close>), Engine (\<^verbatim>\<open>filsys_common.h\<close>, \<^verbatim>\<open>v7fs.h\<close>, host I/O),
    Block\_IO and Superblock (\<^verbatim>\<open>v7fs.c\<close>, \<^verbatim>\<open>alloc_v8bitmap.c\<close>), Formats (\<^verbatim>\<open>filsys_format.c\<close>,
    \<^verbatim>\<open>filsys_names.c\<close>, mode conversion of \<^verbatim>\<open>filsys.c\<close>).
  \<^item> Allocator is the contract of a block allocator: an invariant, the set of free blocks, what
    allocation and release do to it.  Alloc\_Freelist, Alloc\_V8bitmap, V1fs and Pdp7\_Words
    interpret it with the free list and chain, the two bitmaps and the PDP-7 list.
  \<^item> Inode\_IO holds the inode records behind one contract of a codec, interpreted for V6 and V7;
    Alloc\_Inode the inode allocator of \<^verbatim>\<open>alloc_freelist.c\<close>, which returns \<open>None\<close> when its
    refill loop does not end.
  \<^item> Backend dispatches the tables; Blocktree is \<^verbatim>\<open>blocktree.c\<close>; Blocktree\_Map proves the tree
    once over a contract of a block store, which Blocktree\_Stores interprets for the free-list,
    bitmap, V1 and PDP-7 stores.
  \<^item> Pdp7fs is the rest of \<^verbatim>\<open>pdp7fs.c\<close>; File\_IO file reads and writes of \<^verbatim>\<open>v7fs.c\<close>; Directory
    the two directory forms; Filsys the inode-anchored operations of \<^verbatim>\<open>filsys.c\<close>; Filsys\_Path
    the path layer.  File\_Data reads a file as the bytes its tree holds, over one contract
    interpreted for the four stores; Dir\_Data reads the scan of a fixed-entry directory on it.
  \<^item> Freespace has the rebuild, the check walk and the counting of the free space; Mount opens
    an image (\<^verbatim>\<open>v7fs_open\<close>, \<^verbatim>\<open>filsys_open_arch\<close>); Check is \<^verbatim>\<open>check.c\<close> and Salvage what its
    phases add up to; Mkfs is \<^verbatim>\<open>filsys_mkfs.c\<close> and Mkfs\_Sound what it leaves on the image.
  \<^item> Probe has the probes of \<^verbatim>\<open>v7fs.c\<close> and \<^verbatim>\<open>v1fs.c\<close> with what their walk of the free chain
    decides; Detect is \<^verbatim>\<open>filsys_detect.c\<close> and joins a verdict with the open that follows it.
  \<^item> Fuse\_Core is \<^verbatim>\<open>fuse_core.c\<close>: the table of open handles, the callbacks, and the mounts that
    opens and releases reach (an inductive relation, with the multiset of handles); Fuse\_Sound shows what
    a handle promises.
  \<^item> Instrument is \<^verbatim>\<open>instrument.c\<close>, the ownership table and trace of the test build.  Its hooks do
    nothing in production builds, so they are not called in the model; the runs of an allocator
    (an inductive relation) carry the events its hooks see.
  \<^item> Fsck\_Tool, Mkfs\_Tool, Mount\_Tool and Findfs are the four commands, from their options to the exit
    status and the image they leave.
  \<^item> Samples, Samples\_Check, Samples\_Detect and Samples\_Fuse have concrete images and mounts
    for the witnesses.

  \<^bold>\<open>What is shown.\<close>  Allocators hand out each free block once and refuse when none is left;
  mapping a block keeps every other mapping and the soundness of the tree, and blocks are refused
  exactly from the capacity of the inode on, a count that does not follow the slot walk (C7); inode and superblock
  records survive a write and a read; inode writes put a dirty free list in front; inode
  allocation returns a free inode, returns at all below 65536 inodes, and need not above;
  directory comparison, records and iteration are exact, inside their buffers and terminating;
  a failed teardown has written nothing but a due superblock and the one inode block (C27), a refused
  creation nothing at all (C29); path splitting and walking agree.  What is written to a file is read back (C31); a rebuilt free list holds exactly the
  unused blocks (C32); the counts of a check on a free-list volume add up to the data area and
  it changes nothing unless it repairs (C33), and finds nothing missing after a salvage (C34); its link counters stop at 255
  (C35); a volume survives being closed and opened (C36), counting its free space ends (C37),
  the descriptors in use are well formed (C38) and a new PDP-7 volume is sound (C39).  A volume
  that detection names opens as that edition, with a free list that ends and a root directory
  (C40), the four allocators keep their books in any interleaving, so that the ownership table
  reports nothing (C16), while a block claimed twice is always reported (lemma
  \<open>claimed_twice_is_reported\<close>), and a file held open through FUSE outlives its names (C17).  \<^verbatim>\<open>fsck.filsys\<close> changes nothing
  unless a repair is asked for (C9), \<^verbatim>\<open>mount.filsys\<close> opens for writing only the edition that
  the detection finds and serves that handle (C22), and the volumes \<^verbatim>\<open>findfs.filsys\<close> reports do not overlap (lemma
  \<open>emit_disjoint\<close>).

  \<^bold>\<open>Loops.\<close>  Loops over ranges are structural.  The refill loop of inode allocation and the
  scan of a directory, and the scan of \<^verbatim>\<open>findfs.filsys\<close>, are \<open>partial_function (option)\<close>, as is the counting of the free list at
  open; C11, C26 and C37 show when they return.  The loops the code bounds itself (the climb to
  the root, the PDP-7 free-list walks, the walk of the check, the depth of \<^verbatim>\<open>ncheck\<close>) carry the
  code's bound as their fuel.  The directory scans of the check get the size of the directory
  and three more steps; lemma \<open>check_entries_complete\<close> shows that more steps find no more.

  \<^bold>\<open>Not modelled.\<close>  The advisory lock of an image, whose verdict is a parameter; the text of the
  trace and of what the commands print; the parsing of \<^verbatim>\<open>getopt\<close>, which hands over the list of
  options; the FUSE library and the adapters (\<^verbatim>\<open>fuseops.c\<close> and its variants), which translate
  signatures, so that the FUSE loop is a parameter of the mount command; the allocation arm
  (\<^verbatim>\<open>filsys_alloc_user.c\<close>), which is \<^verbatim>\<open>malloc\<close>; and the test programs.
\<close>

section \<open>The free-list allocator\<close>

text \<open>
  C1. Allocation pops the free list: with free blocks \<open>b # bs\<close> (cache and on-disk chain
  together) \<^verbatim>\<open>v7fs_balloc\<close> returns \<open>b\<close>, leaves exactly \<open>bs\<close> free, hands the
  block out zeroed, touches no other data block and marks the list dirty.
\<close>

theorem balloc_pops_free_list:
  assumes "fl_inv fs (b # bs)"
  shows "\<exists>fs'. v7fs_balloc fs = (Inr b, fs') \<and> fl_inv fs' bs \<and>
    blk_data fs' b = replicate (d_bsize (fs_desc fs)) 0 \<and>
    (\<forall>c. in_data fs c \<and> c \<noteq> b \<longrightarrow> blk_data fs' c = blk_data fs c) \<and> fs_fl_dirty fs'"
  using balloc_cons [OF assms] balloc_post_data [OF assms] by blast

theorem balloc_pops_free_list_witness:
  "\<exists>fs'. v7fs_balloc v7_sample = (Inr 10, fs') \<and> fl_inv fs' [11]"
  using balloc_pops_free_list [OF v7_sample_inv] by blast

text \<open>
  C2. Freeing pushes onto the free list: a data block that is not free becomes the next one to
  be allocated, the rest of the list stays (also when the full cache is dumped into the freed
  block), and the total of free blocks goes up by one.
\<close>

theorem bfree_pushes_free_list:
  assumes "fl_inv fs bs" and "in_data fs b" and "b \<notin> set bs"
  shows "fl_inv (v7fs_bfree fs b) (b # bs) \<and> tfree (fs_fl (v7fs_bfree fs b)) = tfree (fs_fl fs) + 1 \<and>
    fst (v7fs_balloc (v7fs_bfree fs b)) = Inr b"
  using bfree_ok [OF assms] balloc_cons(1) [of "v7fs_bfree fs b" b bs] by simp

theorem bfree_pushes_free_list_witness:
  "fl_inv (v7fs_bfree v7_sample 20) [20, 10, 11]"
proof -
  have "in_data v7_sample 20" by (simp add: v7_sample_def in_data_def v7_data_first_def)
  then show ?thesis using bfree_pushes_free_list [OF v7_sample_inv, of 20] by simp
qed

text \<open>
  C3. No block is handed out twice, and none is lost: as many allocations as there are free
  blocks succeed with pairwise distinct free blocks, and one more is refused for lack of space.
\<close>

theorem balloc_hands_out_each_free_block_once:
  assumes "fl_inv fs bs"
  shows "(\<exists>cs fs'. freelist.balloc_n (length bs) fs = (Inr cs, fs') \<and> distinct cs \<and> set cs = set bs) \<and>
    (\<exists>fs'. freelist.balloc_n (Suc (length bs)) fs = (Inl ENOSPC, fs'))"
  using balloc_all_distinct [OF assms] balloc_too_many [OF assms] by blast+

theorem balloc_hands_out_each_free_block_once_witness:
  "\<exists>cs fs'. freelist.balloc_n 2 v7_sample = (Inr cs, fs') \<and> distinct cs \<and> set cs = {10, 11}"
  using balloc_hands_out_each_free_block_once [OF v7_sample_inv] by (simp add: numeral_2_eq_2)

section \<open>Mapping logical blocks\<close>





text \<open>
  C6. A lookup changes neither the mount nor the inode, on any volume, damaged or not.
\<close>

theorem bmap_lookup_changes_nothing:
  "snd (filsys_bmap fs ip lbn False) = (fs, ip)"
  by (rule bmap_pure)



section \<open>Inodes\<close>

text \<open>
  C8. Writing a 64-byte inode: it is read back as written, every other inode is left alone, and
  a dirty free list reaches the disk in front of it, so that no block is on the stored free
  list and referenced by a stored inode at once.
\<close>

theorem v7_inode_write:
  assumes "ino_geom v7_limit fs" and "v7_inode_layout (fs_desc fs)" and "ino \<noteq> 0"
    and "v7_itod fs ino < v7_limit fs" and "v7_ip_fits (fs_desc fs) ip"
  shows "\<exists>fs' blk. v7fs_write_inode fs ino ip = (Inr (), fs') \<and>
    v7fs_read_inode fs' ino = Inr (ip\<lparr>ip_ino := ino\<rparr>) \<and>
    (\<forall>other. other \<noteq> ino \<longrightarrow> v7fs_read_inode fs' other = v7fs_read_inode fs other) \<and>
    h_wlog (fs_host fs') = h_wlog (fs_host fs) @
      (if fs_fl_dirty fs then [(super_off fs, super_encode fs (super_data fs))] else []) @
      [(blk_off fs (v7_itod fs ino), blk)]"
proof -
  have len: "length (ip_addr ip) = 13" using assms(5) by (simp add: v7_ip_fits_def)
  obtain blk where "h_wlog (fs_host (snd (v7fs_write_inode fs ino ip))) = h_wlog (fs_host fs) @
      (if fs_fl_dirty fs then [(super_off fs, super_encode fs (super_data fs))] else []) @
      [(blk_off fs (v7_itod fs ino), blk)]"
    using v7ino.write_order [OF assms(1,3,4), of ip] unfolding v7_inode_gen by blast
  then show ?thesis
    using v7ino.wr_ok [OF assms(1,3,4), of ip] v7ino.read_after_write [OF assms(1,3,4,2,5)]
      v7ino.read_other [OF assms(1,3,4,2) len]
    unfolding v7_inode_gen by auto
qed

theorem v7_inode_write_witness:
  "\<exists>fs'. v7fs_write_inode v7_sample 5 empty_file = (Inr (), fs') \<and> v7fs_read_inode fs' 5 = Inr empty_file"
proof -
  have e: "empty_file\<lparr>ip_ino := 5\<rparr> = empty_file" by (simp add: empty_file_def zero_inode_def)
  have fit: "v7_ip_fits (fs_desc v7_sample) empty_file"
    by (simp add: v7_ip_fits_def empty_file_def zero_inode_def v7_sample_def fits24_def)
  have "v7_inode_layout (fs_desc v7_sample)" by (simp add: v7_inode_layout_def v7_sample_def)
  from v7_inode_write [OF v7_sample_ino_geom this _ v7_sample_itod fit] e show ?thesis by auto
qed

text \<open>
  The 32-byte inode of V6 is read back like that of V7, up to the change time it does not store.
\<close>

theorem v6_inode_write:
  assumes "ino_geom v6_limit fs" and "v6_inode_layout (fs_desc fs)" and "ino \<noteq> 0"
    and "v7_itod fs ino < v6_limit fs" and "v6_ip_fits (fs_desc fs) ip"
  shows "\<exists>fs'. v6_write_inode fs ino ip = (Inr (), fs') \<and>
    v6_read_inode fs' ino = Inr (ip\<lparr>ip_ino := ino, ip_ctime := ip_mtime ip\<rparr>) \<and>
    (\<forall>other. other \<noteq> ino \<longrightarrow> v6_read_inode fs' other = v6_read_inode fs other)"
proof -
  have len: "length (ip_addr ip) = 13" using assms(5) by (simp add: v6_ip_fits_def)
  show ?thesis
    using v6ino.wr_ok [OF assms(1,3,4), of ip] v6ino.read_after_write [OF assms(1,3,4,2,5)]
      v6ino.read_other [OF assms(1,3,4,2) len]
    unfolding v6_inode_gen by auto
qed

theorem v6_inode_write_witness:
  "\<exists>fs'. v6_write_inode v6_sample 5 empty_file = (Inr (), fs') \<and> v6_read_inode fs' 5 = Inr empty_file"
proof -
  have e: "empty_file\<lparr>ip_ino := 5, ip_ctime := ip_mtime empty_file\<rparr> = empty_file"
    by (simp add: empty_file_def zero_inode_def)
  have fit: "v6_ip_fits (fs_desc v6_sample) empty_file"
    by (simp add: v6_ip_fits_def empty_file_def zero_inode_def v6_sample_def)
  have "v6_inode_layout (fs_desc v6_sample)" by (simp add: v6_inode_layout_def v6_sample_def)
  from v6_inode_write [OF v6_sample_ino_geom this _ v6_sample_itod fit] e show ?thesis by auto
qed

text \<open>
  C10. Inode allocation in the V7 engine hands out an inode number of the i-list that was free,
  clears that inode on disk and leaves every other inode as it was.
\<close>

theorem ialloc_hands_out_a_free_inode:
  assumes "engine_geom fs" and "v7fs_ialloc fs = Some (Inr ino, fs')"
  shows "2 \<le> ino \<and> ino \<le> v7_maxinode fs \<and> ino_free fs ino \<and>
    engine_read_inode fs' ino = Inr (zero_inode ino) \<and>
    (\<forall>other. other \<noteq> ino \<longrightarrow> engine_read_inode fs' other = engine_read_inode fs other) \<and> fs_fl_dirty fs'"
  by (rule ialloc_success [OF assms])

theorem ialloc_hands_out_a_free_inode_witness:
  "\<exists>ino fs'. v7fs_ialloc v7_icache_sample = Some (Inr ino, fs') \<and> 2 \<le> ino \<and> ino \<le> v7_maxinode v7_icache_sample"
proof -
  obtain ino fs' where "v7fs_ialloc v7_icache_sample = Some (Inr ino, fs')" using v7_icache_sample_ialloc by blast
  then show ?thesis using ialloc_hands_out_a_free_inode [OF v7_icache_sample_geom] by blast
qed

text \<open>
  C11. With at most 65535 inodes the refill loop of inode allocation ends: every call returns.
\<close>

theorem ialloc_returns:
  assumes "d_nicinod (fs_desc fs) \<le> 65535" and "unat (v7_maxinode fs) < 65536"
  shows "\<exists>res. v7fs_ialloc fs = Some res"
  by (rule ialloc_total [OF assms])

theorem ialloc_returns_witness: "\<exists>res. v7fs_ialloc v7_sample = Some res"
  by (rule ialloc_returns) (simp_all add: v7_sample_def v7_maxinode_def v7_inopb_def)

text \<open>
  C12. With more inodes it need not: the cache keeps 16 bits of an inode number, so when the
  inodes below 65536 are in use and one above is free, the loop refills the cache with numbers
  it rejects, for ever.
\<close>

theorem ialloc_loops_on_wrapped_inodes:
  assumes "inodes_wrapped fs"
  shows "v7fs_ialloc fs = None"
  by (rule ialloc_diverges [OF assms])

theorem ialloc_loops_on_wrapped_inodes_witness: "v7fs_ialloc wrapped_sample = None"
  by (rule ialloc_loops_on_wrapped_inodes [OF wrapped_sample_inodes])

section \<open>Superblocks\<close>

text \<open>
  C13. For every row of the descriptor table with the V7 superblock, in the packing of either
  machine, the superblock that \<^verbatim>\<open>v7_super_encode\<close> writes is decoded to the same counts,
  sizes and caches: nothing overlaps and nothing is cut, whatever the buffer held before.
\<close>

theorem v7_family_superblock_roundtrip:
  assumes "e \<in> set v7_family"
    and "fs_desc fs = filsys_getformat e \<or> fs_desc fs = (filsys_getformat e)\<lparr>d_pack4 := False\<rparr>"
    and "length sb = desc_super_len (filsys_getformat e)" and "caches_wf fs" and "fs_desc fs0 = fs_desc fs"
  shows "v7_super_decode fs0 (v7_super_encode fs sb) =
    fs0\<lparr>fs_isize := fs_isize fs, fs_fsize := fs_fsize fs,
        fs_fl := (fs_fl fs0)\<lparr>nfree := nfree (fs_fl fs), free_cache := free_cache (fs_fl fs),
          ninode := ninode (fs_fl fs), inode_cache := inode_cache (fs_fl fs)\<rparr>,
        fs_time := h_now (fs_host fs), fs_fmod := fmod_flag (fs_fmod fs)\<rparr>"
proof -
  have "v7_layout (fs_desc fs) (length sb)"
    using assms(2) bspec [OF v7_family_layout assms(1)] bspec [OF v7_family_layout_pdp11 assms(1)]
    by (elim disjE) (simp_all only: assms(3))
  then show ?thesis using assms(4,5) by (rule v7_super_roundtrip)
qed

theorem v7_family_superblock_roundtrip_witness:
  "nfree (fs_fl (v7_super_decode v7_chain_sample (v7_super_encode v7_sample (replicate 512 0xAA)))) = 3"
proof -
  have "FILSYS_V7 \<in> set v7_family" by (simp add: v7_family_def)
  moreover have "fs_desc v7_sample = filsys_getformat FILSYS_V7" "fs_desc v7_chain_sample = fs_desc v7_sample"
    by (simp_all add: v7_sample_def v7_chain_sample_def)
  moreover have "length (replicate 512 0xAA :: byte list) = desc_super_len (filsys_getformat FILSYS_V7)"
    by (simp add: desc_super_len_def)
  moreover have "caches_wf v7_sample" by (simp add: caches_wf_def v7_sample_def sample_fl_def)
  ultimately show ?thesis
    using v7_family_superblock_roundtrip [of FILSYS_V7 v7_sample "replicate 512 0xAA" v7_chain_sample]
    by (simp add: v7_sample_def)
qed

text \<open>
  C14. The in-superblock bitmap of V8 survives a write and a load: each data block is free
  after the load exactly when it was free before the write.
\<close>

theorem v8_free_map_roundtrip:
  assumes "4096 \<le> length sb" and "d_freemap (fs_desc fs) = Freemap_bitmap"
    and "v8_nbits fs \<le> 30752" and "fs_desc fs0 = fs_desc fs" "v8_nbits fs0 = v8_nbits fs"
    and "i < unat (v8_nbits fs)"
  shows "bm_test (v8_load_words fs0 (v8_sb_encode fs sb)
      [0..<unat ((v8_nbits fs0 + 31) div 32)] (replicate (unat (v8_nbits fs0 + 7) div 8) 0)) i
    = bm_test (v8_bits fs) i"
  by (rule v8_bits_roundtrip [OF assms])

theorem v8_free_map_roundtrip_witness:
  "bm_test (v8_load_words (v8_sample\<lparr>fs_desc := v8_desc\<lparr>d_freemap := Freemap_bitmap\<rparr>\<rparr>)
      (v8_sb_encode (v8_sample\<lparr>fs_desc := v8_desc\<lparr>d_freemap := Freemap_bitmap\<rparr>\<rparr>) (replicate 4096 0))
      [0..<2] (replicate 7 0)) 12"
  using v8_free_map_roundtrip [of "replicate 4096 0" "v8_sample\<lparr>fs_desc := v8_desc\<lparr>d_freemap := Freemap_bitmap\<rparr>\<rparr>"
      "v8_sample\<lparr>fs_desc := v8_desc\<lparr>d_freemap := Freemap_bitmap\<rparr>\<rparr>" 12]
  by (simp add: bm_test_def)

section \<open>The other block allocators\<close>

text \<open>
  C15. The bitmap allocator of the V8 family hands out the lowest free block of the map, zeroed,
  and takes only that block out of the free set; it reports \<open>ENOSPC\<close>, changing nothing, exactly
  when no block is free.
\<close>

theorem v8_balloc_takes_lowest:
  assumes "v8_inv fs"
  shows "(v8_frees fs = {} \<and> v8_bitmap_balloc fs = (Inl ENOSPC, fs)) \<or>
    (\<exists>b fs'. v8_bitmap_balloc fs = (Inr b, fs') \<and> b \<in> v8_frees fs \<and> (\<forall>c \<in> v8_frees fs. b \<le> c) \<and>
      v8_inv fs' \<and> v8_frees fs' = v8_frees fs - {b} \<and> blk_data fs' b = replicate (d_bsize (fs_desc fs)) 0)"
  by (rule v8_balloc_least [OF assms])

theorem v8_balloc_takes_lowest_witness:
  "\<exists>b fs'. v8_bitmap_balloc v8_sample = (Inr b, fs') \<and> b \<in> v8_frees v8_sample \<and> b \<notin> v8_frees fs'"
  using v8_balloc_takes_lowest [OF v8_sample_inv] v8_sample_free by auto

text \<open>
  C16. In any run that hands out blocks, assigns them to inodes, releases and gives them back, in any
  interleaving, each of the four allocators keeps its books: the free blocks, the blocks
  handed out and the blocks owned by inodes are disjoint and together the blocks that were
  free at the start, and the ownership table of the instrumented build reports no violation.
\<close>

theorem allocators_keep_their_books:
  "((\<exists>bs. fl_inv fs bs) \<and> alloc_run v7fs_balloc v7fs_bfree fs fs' T W evs \<longrightarrow>
      books_balance (fl_frees fs) (fl_frees fs') T W \<and> unreported n evs) \<and>
   (v8_inv fs \<and> alloc_run v8_bitmap_balloc v8_bitmap_bfree fs fs' T W evs \<longrightarrow>
      books_balance (v8_frees fs) (v8_frees fs') T W \<and> unreported n evs) \<and>
   (v1_inv fs \<and> alloc_run v1fs_balloc v1fs_bfree fs fs' T W evs \<longrightarrow>
      books_balance (v1_frees fs) (v1_frees fs') T W \<and> unreported n evs) \<and>
   ((\<exists>ns. p7_list fs ns) \<and> alloc_run p7fs_balloc p7fs_bfree fs fs' T W evs \<longrightarrow>
      books_balance (p7_frees fs) (p7_frees fs') T W \<and> unreported n evs)"
  by (intro conjI freelist.run_books v8map.run_books v1map.run_books p7list.run_books)

theorem allocators_keep_their_books_witness:
  "\<exists>fs'. v7fs_balloc v7_sample = (Inr 10, fs') \<and> books_balance {10, 11} (fl_frees fs') {} {10} \<and>
     unreported 64 [Ev_alloc_block 10, Ev_assign 5 0 10 1]"
proof -
  obtain fs' where b: "v7fs_balloc v7_sample = (Inr 10, fs')" using balloc_cons [OF v7_sample_inv] by auto
  have "alloc_run v7fs_balloc v7fs_bfree v7_sample fs' {10} {} [Ev_alloc_block 10]"
    using alloc_run.run_alloc [of v7fs_balloc v7fs_bfree, OF alloc_run.run_start, of v7_sample 10 fs'] b by simp
  from alloc_run.run_assign [OF this, of 10 5 0 1]
  have r: "alloc_run v7fs_balloc v7fs_bfree v7_sample fs' {} {10} [Ev_alloc_block 10, Ev_assign 5 0 10 1]" by simp
  have "fl_frees v7_sample = {10, 11}" using fl_frees_eq [OF v7_sample_inv] by simp
  moreover have "\<exists>bs. fl_inv v7_sample bs" using v7_sample_inv by blast
  ultimately show ?thesis using allocators_keep_their_books [of v7_sample fs' "{}" "{10}" _ 64] r b by auto
qed

text \<open>
  First Edition: the allocator hands out the lowest free block of the map and takes only
  that block out of the free set.
\<close>

theorem v1_balloc_takes_lowest:
  assumes "v1_inv fs"
  shows "(v1_frees fs = {} \<and> v1fs_balloc fs = (Inl ENOSPC, fs)) \<or>
    (\<exists>b fs'. v1fs_balloc fs = (Inr b, fs') \<and> b \<in> v1_frees fs \<and> (\<forall>c \<in> v1_frees fs. b \<le> c) \<and>
      v1_inv fs' \<and> v1_frees fs' = v1_frees fs - {b})"
proof (rule v1_balloc_cases [OF assms])
  fix b assume b: "b \<in> v1_frees fs" "\<forall>c \<in> v1_frees fs. b \<le> c" "v1fs_balloc fs = (Inr b, v1_taken fs b)"
  then have "b \<in> v1_area fs" by (simp add: v1_frees_def)
  with b assms show ?thesis using v1_taken_inv v1_frees_taken by blast
qed simp

theorem v1_balloc_takes_lowest_witness: "\<exists>fs'. v1fs_balloc v1_sample = (Inr 10, fs') \<and> 10 \<notin> v1_frees fs'"
proof -
  have "v1_frees v1_sample \<noteq> {}" unfolding v1_sample_free by auto
  then obtain b fs' where b: "v1fs_balloc v1_sample = (Inr b, fs')" "b \<in> v1_frees v1_sample"
      "\<forall>c \<in> v1_frees v1_sample. b \<le> c" "v1_frees fs' = v1_frees v1_sample - {b}"
    using v1_balloc_takes_lowest [OF v1_sample_inv] by blast
  have "b \<le> 10" "10 \<le> b" using b(2,3) unfolding v1_sample_free by auto
  then have "b = 10" by (rule order.antisym)
  with b show ?thesis by auto
qed

text \<open>
  C17. FUSE: a V7 file that some handle holds open outlives its names.  Removing a name of it takes one
  link off the inode on disk and changes nothing else of it; the table still counts every handle; a
  release before the last one leaves the file system alone; and the last one frees the inode
  exactly if no link is left.  The mount is any that opens and releases can reach, whatever the
  file system did in between, and the host may fail.
\<close>

theorem unlinked_file_lives_while_open:
  assumes "fuse_reach m H" "ino \<in># H"
    and "d_ops (fs_desc (fm_fs m)) = Some V7fs_ops" "v7_slots (fs_desc (fm_fs m))" "d_max_namlen (fs_desc (fm_fs m)) \<le> 63"
    and "path_lookup (fm_fs m) path = Inr ino" "v7fs_read_inode (fm_fs m) ino = Inr ip"
    and "fuse_op_unlink m path = (Inr (), m')"
  shows "v7fs_read_inode (fm_fs m') ino = Inr (ip\<lparr>ip_nlink := ip_nlink ip - 1\<rparr>) \<and> fuse_open_refs m' ino = int (count H ino) \<and>
    (\<forall>s m''. fuse_op_release m' ino = (s, m'') \<longrightarrow> fuse_open_refs m'' ino = int (count H ino) - 1 \<and>
      (if 1 < count H ino then s = Inr () \<and> fm_fs m'' = fm_fs m'
       else (s, fm_fs m'') = (if sint (ip_nlink ip - 1) \<le> 0 then filsys_free_ino (fm_fs m') ino else (Inr (), fm_fs m'))))"
proof -
  note h = held_open [OF assms]
  have "0 < count H ino" using assms(2) by simp
  then show ?thesis using h(1) fuse_reach_refs [OF h(2)] h(3) [THEN conjunct2] fuse_reach_refs [OF h(3) [THEN conjunct1]]
    by (auto simp: of_nat_diff)
qed

theorem unlinked_file_lives_while_open_witness:
  "\<exists>m' ip. fuse_op_unlink fuse_held [slash, 97] = (Inr (), m') \<and> v7fs_read_inode (fm_fs m') 3 = Inr ip \<and> ip_nlink ip = 0 \<and>
    (\<forall>s m''. fuse_op_release m' 3 = (s, m'') \<longrightarrow> fuse_open_refs m'' 3 = 1 \<and> fm_fs m'' = fm_fs m')"
proof -
  obtain m' where u: "fuse_op_unlink fuse_held [slash, 97] = (Inr (), m')" using fuse_held_unlinks by blast
  have f: "fm_fs fuse_held = fuse_vol" "fs_desc fuse_vol = v7_desc" by (simp_all add: fuse_held_def fuse_vol_def)
  have "v7_slots v7_desc" using v7_slots_rows [of FILSYS_V7] by simp
  with unlinked_file_lives_while_open [OF fuse_held_reach, of 3 "[slash, 97]" _ m'] u f fuse_path(1) fuse_inodes(2) show ?thesis
    by auto
qed

text \<open>
  First Edition: inode allocation returns the lowest free inode from 41 on and takes only
  it; \<open>ENOSPC\<close> means that every inode is in use.
\<close>

theorem v1_ialloc_takes_lowest:
  assumes "v1_imap_wf fs"
  shows "((\<forall>i. \<not> v1_ino_free fs i) \<and> v1fs_ialloc fs = (Inl ENOSPC, fs)) \<or>
    (\<exists>i fs'. v1fs_ialloc fs = (Inr i, fs') \<and> v1_ino_free fs i \<and> (\<forall>j. v1_ino_free fs j \<longrightarrow> i \<le> j) \<and>
      (\<forall>j. v1_ino_free fs' j \<longleftrightarrow> v1_ino_free fs j \<and> j \<noteq> i) \<and> v1_imap_wf fs')"
  by (rule v1_ialloc_cases [OF assms]) blast+

theorem v1_ialloc_takes_lowest_witness:
  "\<exists>i fs'. v1fs_ialloc v1_sample = (Inr i, fs') \<and> i \<le> 41 \<and> \<not> v1_ino_free fs' i"
  using v1_ialloc_takes_lowest [OF v1_sample_imap] v1_sample_ino by blast

text \<open>
  C18. First Edition: the maps survive \<^verbatim>\<open>v1fs_sync\<close> and a second \<^verbatim>\<open>v1fs_open\<close> of the
  image, which also finds the same geometry.
\<close>

theorem v1_maps_survive_reopen:
  assumes "v1_super_geom fs" "v1_maps_wf fs" "v1_lens_ok fs (v1_super_data fs)"
    and "fs_base fs + unat (fs_fsize fs) * 512 \<le> fs_imgsize fs"
      "fs_fsize fs = ucast (freemap_bytes (fs_bm fs)) * 8" "fs_maxino fs = ucast (inodemap_bytes (fs_bm fs)) * 8"
      "v1_data_start (fs_maxino fs) < fs_fsize fs"
    and "\<forall>n. h_alloc (fs_host fs) n"
  shows "\<exists>fs' fs''. v1fs_sync fs = (Inr (), fs') \<and>
    v1fs_open (fs'\<lparr>fs_imgsize := 0\<rparr>) ro (fs_desc fs) (fs_base fs) = (Inr (), fs'') \<and>
    freemap (fs_bm fs'') = freemap (fs_bm fs) \<and> inodemap (fs_bm fs'') = inodemap (fs_bm fs) \<and>
    fs_fsize fs'' = fs_fsize fs \<and> fs_maxino fs'' = fs_maxino fs"
  by (rule v1_reopen [OF assms])

theorem v1_maps_survive_reopen_witness:
  "\<exists>fs' fs''. v1fs_sync v1_sample = (Inr (), fs') \<and>
    v1fs_open (fs'\<lparr>fs_imgsize := 0\<rparr>) True v1_desc 0 = (Inr (), fs'') \<and> freemap (fs_bm fs'') = replicate 64 0xFF"
  using v1_maps_survive_reopen [OF v1_sample_maps(2,1,3), of True]
  by (simp add: v1_sample_start sample_host_def) blast

text \<open>
  C19. PDP-7: as many allocations as the free list has blocks succeed with pairwise distinct
  blocks of it, list nodes included, and one more is refused.
\<close>

theorem pdp7_balloc_hands_out_each_free_block_once:
  assumes "p7_list fs ns"
  shows "(\<exists>cs fs'. p7list.balloc_n (card (p7_frees fs)) fs = (Inr cs, fs') \<and> distinct cs \<and>
      set cs = set (p7_blocks fs ns) \<and> p7_frees fs' = {}) \<and>
    (\<exists>fs'. p7list.balloc_n (Suc (card (p7_frees fs))) fs = (Inl ENOSPC, fs'))"
proof -
  have i: "\<exists>ns. p7_list fs ns" using assms by blast
  obtain cs fs' where c: "p7list.balloc_n (card (p7_frees fs)) fs = (Inr cs, fs')"
    using p7list.balloc_n_total [OF i] by blast
  note d = p7list.balloc_n_distinct [OF i c]
  have "card (set cs) = card (p7_frees fs)" using d distinct_card [of cs] by simp
  then have s: "set cs = p7_frees fs" using d card_subset_eq [OF p7list.frees_finite [OF i]] by simp
  show ?thesis
  proof (intro conjI)
    show "\<exists>cs fs'. p7list.balloc_n (card (p7_frees fs)) fs = (Inr cs, fs') \<and> distinct cs \<and>
      set cs = set (p7_blocks fs ns) \<and> p7_frees fs' = {}"
      using c d s p7_frees_eq [OF assms] by (intro exI [of _ cs] exI [of _ fs']) simp
    show "\<exists>fs'. p7list.balloc_n (Suc (card (p7_frees fs))) fs = (Inl ENOSPC, fs')"
      by (rule p7list.balloc_n_exhausts [OF i lessI])
  qed
qed

theorem pdp7_balloc_hands_out_each_free_block_once_witness:
  "\<exists>cs fs'. p7list.balloc_n 1 p7_sample = (Inr cs, fs') \<and> set cs = {800}"
proof -
  have "card (p7_frees p7_sample) = 1" by (simp add: p7_sample_frees)
  then show ?thesis
    using conjunct1 [OF pdp7_balloc_hands_out_each_free_block_once [OF p7_sample_list(1)]]
    unfolding p7_sample_list(2) by (elim exE) (simp only: list.set, blast)
qed

text \<open>
  C20. PDP-7 words: whichever of the three containers an image uses, a block of 64 words is
  read back from its encoding, each word cut to 18 bits.
\<close>

theorem pdp7_words_roundtrip:
  assumes "length ws = 64"
  shows "words_decode c (words_encode c ws) = map (take_bit 18) ws"
  by (rule words_decode_encode [OF assms])

theorem pdp7_words_roundtrip_witness:
  "words_decode Word_rim (words_encode Word_rim (replicate 64 0x3FFFF)) = replicate 64 0x3FFFF"
  using pdp7_words_roundtrip [of "replicate 64 0x3FFFF" Word_rim] by (simp add: take_bit_eq_mod)

text \<open>
  C21. PDP-7 inodes: twelve words written for an inode are decoded to it, the negative link
  count and the word count of the size included.
\<close>

theorem pdp7_inode_roundtrip:
  assumes "p7_ip_fits ip" "o' + 12 \<le> length ws"
  shows "p7_inode_decode ino (p7_inode_encode ws o' ip) o' = ip\<lparr>ip_ino := ino\<rparr>"
  by (rule p7_inode_roundtrip [OF assms])

theorem pdp7_inode_roundtrip_witness:
  "p7_inode_decode 9 (p7_inode_encode (replicate 64 0) 12 (empty_p7_file\<lparr>ip_nlink := 3, ip_size := 128\<rparr>)) 12 =
     empty_p7_file\<lparr>ip_nlink := 3, ip_size := 128\<rparr>"
  using pdp7_inode_roundtrip [of "empty_p7_file\<lparr>ip_nlink := 3, ip_size := 128\<rparr>" 12 "replicate 64 0" 9]
  by (simp add: p7_ip_fits_def empty_p7_file_def zero_inode_def)

text \<open>
  PDP-7 names: a name of at most eight 7-bit characters that does not end in a blank is
  read back from the four words it is packed into.
\<close>

theorem pdp7_name_roundtrip:
  assumes "length name \<le> 8" "\<forall>c \<in> set name. c \<noteq> 0 \<and> c < 0x80" "name \<noteq> [] \<longrightarrow> last name \<noteq> 0x20"
  shows "unpack_name (pack_name name) = name"
  by (rule unpack_pack_name [OF assms])

theorem pdp7_name_roundtrip_witness: "unpack_name (pack_name [0x64, 0x64]) = [0x64, 0x64]"
  by (rule pdp7_name_roundtrip) simp_all

section \<open>Directories\<close>

text \<open>
  C23. The comparison loop over a fixed-size entry accepts the entry exactly when its bytes up to the
  first NUL, or all of them, are the name.  The comment at \<^verbatim>\<open>dir_fixed.c:15-18\<close> asks for more, zero bytes
  everywhere beyond the name; the loop looks at the first of them only, and the two agree on entries that
  are zero-filled, as \<^verbatim>\<open>dir_add\<close> writes them.
\<close>

theorem fixed_name_compare:
  assumes "0 \<notin> set name" "length name \<le> mx" "off + mx \<le> length p"
  shows "let f = take mx (drop off p) in
    (fixed_name_eq p off name mx \<longleftrightarrow> takeWhile (\<lambda>c. c \<noteq> 0) f = name) \<and>
    ((\<forall>c \<in> set (dropWhile (\<lambda>c. c \<noteq> 0) f). c = 0) \<longrightarrow>
      (fixed_name_eq p off name mx \<longleftrightarrow> f = name @ replicate (mx - length name) 0))"
proof -
  let ?f = "take mx (drop off p)"
  have l: "length ?f = mx" using assms(3) by simp
  have a: "fixed_name_eq p off name mx \<longleftrightarrow> takeWhile (\<lambda>c. c \<noteq> 0) ?f = name" by (rule fixed_name_eq_iff [OF assms])
  have "takeWhile (\<lambda>c. c \<noteq> 0) ?f = name \<longleftrightarrow> ?f = name @ replicate (mx - length name) 0"
    if "\<forall>c \<in> set (dropWhile (\<lambda>c. c \<noteq> 0) ?f). c = 0"
    using zero_filled_name [OF assms(1) _ that] assms(2) unfolding l by blast
  then show ?thesis using a unfolding Let_def by blast
qed

theorem fixed_name_compare_witness:
  "fixed_name_eq [2, 0, 0x61, 0x62, 0, 0] 2 [0x61, 0x62] 4 \<and> \<not> fixed_name_eq [2, 0, 0x61, 0x62, 0, 0] 2 [0x61] 4 \<and>
   fixed_name_eq [2, 0, 0x61, 0x62, 0, 0x63] 2 [0x61, 0x62] 4"
  using fixed_name_compare [of "[0x61, 0x62]" 4 2 "[2, 0, 0x61, 0x62, 0, 0]"]
    fixed_name_compare [of "[0x61]" 4 2 "[2, 0, 0x61, 0x62, 0, 0]"]
    fixed_name_compare [of "[0x61, 0x62]" 4 2 "[2, 0, 0x61, 0x62, 0, 0x63]"]
  by (simp add: Let_def)

text \<open>
  C24. 2.11BSD: a record that \<^verbatim>\<open>bsd211_dir_add\<close> writes at an aligned place of a 512-byte
  chunk is the record the iterator finds there, with its inode number, length and name.
\<close>

theorem bsd211_record_roundtrip:
  assumes "off mod 4 = 0" "reclen mod 4 = 0" "bsd211_dirsiz (length name) \<le> reclen" "off + reclen \<le> length buf"
    "off mod 512 + reclen \<le> 512" "length name \<le> d_max_namlen d"
    and "buf' = memcpy_at buf off (bsd211_entry d ino reclen name)"
  shows "\<exists>r. bsd211_iter_next d buf' off = Some r \<and> r_ino r = ucast ino \<and> r_reclen r = reclen \<and> rec_name buf' r = name"
  using bsd211_entry_found [OF assms] by (metis bsd211_rec.select_convs(2,3))

theorem bsd211_record_roundtrip_witness:
  "\<exists>r. bsd211_iter_next bsd211_desc (memcpy_at (replicate 512 0) 24 (bsd211_entry bsd211_desc 7 488 [0x61])) 24 = Some r \<and>
     r_ino r = 7 \<and> rec_name (memcpy_at (replicate 512 0) 24 (bsd211_entry bsd211_desc 7 488 [0x61])) r = [0x61]"
  using bsd211_record_roundtrip [of 24 488 "[0x61]" "replicate 512 0" bsd211_desc
      "memcpy_at (replicate 512 0) 24 (bsd211_entry bsd211_desc 7 488 [0x61])" 7]
  by (auto simp: bsd211_dirsiz_def)

text \<open>
  C25. 2.11BSD: on any bytes, however damaged, the records the iterator yields lie inside the
  buffer and inside one 512-byte chunk each, hold their names, and do not overlap.
\<close>

theorem bsd211_records_bounded:
  "(\<forall>r \<in> set (bsd211_records d buf off). off \<le> r_off r \<and> r_off r + r_reclen r \<le> length buf \<and>
      r_off r mod 512 + r_reclen r \<le> 512 \<and> r_namlen r + 7 \<le> r_reclen r \<and> length (rec_name buf r) = r_namlen r) \<and>
   sorted_wrt (\<lambda>r s. r_off r + r_reclen r \<le> r_off s) (bsd211_records d buf off)"
proof -
  have "off \<le> r_off r \<and> r_off r + r_reclen r \<le> length buf \<and> r_off r mod 512 + r_reclen r \<le> 512 \<and>
      r_namlen r + 7 \<le> r_reclen r \<and> length (rec_name buf r) = r_namlen r" if "r \<in> set (bsd211_records d buf off)" for r
  proof -
    note i = bsd211_records_inside [OF that]
    note f = bsd211_iter_next_facts [OF conjunct2 [OF i]]
    have "length (rec_name buf r) = r_namlen r" using f(3,4) by (simp add: rec_name_def)
    then show ?thesis using i f(3,4,6) by blast
  qed
  then show ?thesis using bsd211_records_disjoint by blast
qed

theorem bsd211_records_bounded_witness:
  "\<exists>r \<in> set (bsd211_records bsd211_desc (memcpy_at (replicate 512 0) 0 (bsd211_entry bsd211_desc 7 512 [0x61])) 0).
     r_ino r = 7 \<and> r_reclen r = 512 \<and> r_off r mod 512 + r_reclen r \<le> 512 \<and> r_namlen r + 7 \<le> r_reclen r"
proof -
  let ?b = "memcpy_at (replicate 512 0) 0 (bsd211_entry bsd211_desc 7 512 [0x61])"
  obtain r where r: "bsd211_iter_next bsd211_desc ?b 0 = Some r" "r_ino r = 7" "r_reclen r = 512"
    using bsd211_entry_found [of 0 512 "[0x61]" "replicate 512 0" bsd211_desc ?b 7] by (auto simp: bsd211_dirsiz_def)
  then have "r \<in> set (bsd211_records bsd211_desc ?b 0)" by (subst bsd211_records.simps) simp
  then show ?thesis using r conjunct1 [OF bsd211_records_bounded [of bsd211_desc ?b 0]] by blast
qed

text \<open>
  C26. The test for an empty directory returns on every volume and every inode, in particular
  on directories with records that do not advance.
\<close>

theorem dir_is_empty_terminates: "\<exists>r. dir_is_empty fs ino = Some r"
  by (rule dir_is_empty_returns)

section \<open>The access layer\<close>



text \<open>
  C28. The cycle test of \<^verbatim>\<open>filsys_link_in\<close>, \<^verbatim>\<open>filsys_rename_in\<close>: whenever it answers, it
  answers whether climbing the parent entries from \<open>dir\<close> meets \<open>anc\<close>, except that the root is
  never reported.
\<close>

theorem dir_ancestor_decides:
  assumes "dir_ancestor fs anc dir = Inr a"
  shows "a \<longleftrightarrow> climbs fs dir anc \<and> anc \<noteq> d_rootino (fs_desc fs) \<and> anc \<noteq> 0"
  by (rule dir_ancestor_exact [OF assms])

theorem dir_ancestor_decides_witness: "dir_ancestor v7_sample 2 2 = Inr False \<and> climbs v7_sample 2 2"
proof -
  have "dir_ancestor v7_sample 2 2 = Inr False"
    by (simp add: dir_ancestor_def dir_ancestor_from.simps v7_sample_def)
  moreover have "\<not> (climbs v7_sample 2 2 \<and> 2 \<noteq> d_rootino (fs_desc v7_sample) \<and> (2::u32) \<noteq> 0)"
    using dir_ancestor_decides [OF calculation] by simp
  ultimately show ?thesis using climbs.here by blast
qed

text \<open>
  C29. A creation that is refused in front of the \<^verbatim>\<open>validation/mutation line\<close> changes nothing, and
  with the error that is documented: an unreadable parent with the error of the read, a parent that is no
  directory with \<open>ENOTDIR\<close>, the names \<open>.\<close> and \<open>..\<close> and a name that is already there with \<open>EEXIST\<close>, and an
  error of the lookup other than \<open>ENOENT\<close> as it is, never as a free name.  It holds of create and mkdir, of
  mknod where the edition and the type allow it and of symlink where the edition has symbolic links.
\<close>

theorem refused_creation_changes_nothing:
  assumes "ops_read_inode fs dir = Inl e \<or> (\<exists>ddir. ops_read_inode fs dir = Inr ddir \<and>
      (if \<not> mode_is_dir (fs_desc fs) ddir then e = ENOTDIR
       else if name \<in> {str_dot, str_dotdot} \<or> (\<exists>n. ops_dir_lookup fs ddir name = Inr n) then e = EEXIST
       else ops_dir_lookup fs ddir name = Inl e \<and> e \<noteq> ENOENT))"
    and "uidgid_fit uid gid = Inr ()"
  shows "filsys_create_in fs dir name mode uid gid = Some (Inl e, fs) \<and>
    filsys_mkdir_in fs dir name mode uid gid = Some (Inl e, fs) \<and>
    (hd_ver h \<noteq> FILSYS_V1 \<and> mode AND 0xF000 \<in> {S_IFCHR, S_IFBLK, S_IFREG} \<longrightarrow>
      filsys_mknod_in h fs dir name mode rdev uid gid = Some (Inl e, fs)) \<and>
    (d_iflnk (fs_desc fs) \<noteq> 0 \<and> uidgid_fit (hd_uid h) (hd_gid h) = Inr () \<longrightarrow>
      filsys_symlink_in h fs target dir name = Some (Inl e, fs))"
  using create_refused [OF create_parent_refuses [OF assms(1)] assms(2)] by blast

theorem refused_creation_changes_nothing_witness:
  "filsys_create_in fuse_vol 2 [97] S_IFREG 0 0 = Some (Inl EEXIST, fuse_vol) \<and>
   filsys_mkdir_in fuse_vol 2 [97] 0x1ED 0 0 = Some (Inl EEXIST, fuse_vol) \<and>
   filsys_create_in fuse_vol 3 [98] S_IFREG 0 0 = Some (Inl ENOTDIR, fuse_vol)"
proof -
  have d: "fs_desc fuse_vol = v7_desc" by (simp add: fuse_vol_def)
  have r: "ops_read_inode fuse_vol 2 = Inr fuse_root"
    "ops_read_inode fuse_vol 3 = Inr ((zero_inode 3)\<lparr>ip_mode := 0x81A4, ip_nlink := 1\<rparr>)"
    using fuse_inodes by (simp_all add: ops_read_inode_def d)
  have "mode_is_dir v7_desc fuse_root" "\<not> mode_is_dir v7_desc ((zero_inode 3)\<lparr>ip_mode := 0x81A4, ip_nlink := 1\<rparr>)"
    by (simp_all add: mode_is_dir_def fuse_root_def)
  then show ?thesis
    using refused_creation_changes_nothing [where fs = fuse_vol and dir = 2 and e = EEXIST and name = "[97]" and uid = 0 and gid = 0 and mode = S_IFREG]
      refused_creation_changes_nothing [where fs = fuse_vol and dir = 2 and e = EEXIST and name = "[97]" and uid = 0 and gid = 0 and mode = "0x1ED"]
      refused_creation_changes_nothing [where fs = fuse_vol and dir = 3 and e = ENOTDIR and name = "[98]" and uid = 0 and gid = 0 and mode = S_IFREG]
    by (simp add: r d fuse_lookup uidgid_fit_def)
qed

text \<open>
  C30. Splitting a path and walking it agree: looking up the whole path is looking up its last
  component in the parent that \<^verbatim>\<open>resolve_parent\<close> found.
\<close>

theorem resolve_parent_agrees:
  assumes "resolve_parent fs path = Inr (dino, nm)" "d_max_namlen (fs_desc fs) \<le> 63"
  shows "path_lookup fs path = filsys_walk fs dino nm"
  by (rule resolve_parent_lookup [OF assms])

theorem resolve_parent_agrees_witness:
  "path_lookup v7_sample [0x2F, 0x61] = filsys_walk v7_sample 2 [0x61]"
proof -
  have "v7_itod v7_sample 2 < v7_limit v7_sample" by (simp add: v7_sample_def v7_itod_def v7_inopb_def)
  then obtain ip where "ops_read_inode v7_sample 2 = Inr ip"
    using v7_sample_ino_free [of 2] by (auto simp: ops_read_inode_def engine_read_inode_def v7_sample_def)
  then have "resolve_parent v7_sample [0x2F, 0x61] = Inr (2, [0x61])"
    by (simp add: v7_sample_fields resolve_parent_def split_for_def split_path_def filsys_lookup_def path_lookup_def path_walk.simps)
  then show ?thesis using resolve_parent_agrees by (simp add: v7_sample_def)
qed

section \<open>File data\<close>



section \<open>Rebuilding and checking the free space\<close>

text \<open>
  C32. Rebuilding the free list from a map of the used blocks (the salvage of the check, and the
  free space of a new volume): the list afterwards holds exactly the data blocks the map leaves
  unused, each once, whatever the interleave factors are; the stored total agrees and no other
  block is touched.
\<close>

theorem makefree_rebuilds_free_list:
  assumes "fl_geom fs" "length (free_cache (fs_fl fs)) = d_nicfree (fs_desc fs)" "d_freemap (fs_desc fs) = Freemap_list"
    and "\<not> d_isize_count (fs_desc fs)" "d_daddr_wid (fs_desc fs) = 4" "cx_fits fs cx"
  shows "\<exists>fs' bs. v7fs_makefree fs cx = (of_nat (length bs), fs') \<and> fl_inv fs' bs \<and> set bs = unused fs cx \<and>
    tfree (fs_fl fs') = of_nat (length bs) \<and> (\<forall>b. 2 \<le> b \<and> b \<notin> unused fs cx \<longrightarrow> blk_data fs' b = blk_data fs b)"
  by (rule makefree_rebuilds [OF assms]) blast

theorem makefree_rebuilds_free_list_witness:
  "\<exists>fs' bs. v7fs_makefree v7_sample (zero_chkctx 60) = (of_nat (length bs), fs') \<and> fl_inv fs' bs \<and>
     set bs = unused v7_sample (zero_chkctx 60)"
proof -
  have d: "fs_desc v7_sample = v7_desc" "fl_geom v7_sample" "length (free_cache (fs_fl v7_sample)) = 50"
    using v7_sample_inv by (simp_all add: fl_inv_def v7_sample_def)
  have "cx_fits v7_sample (zero_chkctx 60)" by (simp add: cx_fits_def zero_chkctx_def v7_sample_def v7_data_first_def)
  with makefree_rebuilds_free_list [of v7_sample "zero_chkctx 60"] d show ?thesis by auto
qed

text \<open>
  C33. A full check without a repair mode on a volume of the V7 engine with a free list (V6, V7 and
  2.11BSD and their relatives), however damaged the list and the inodes are, as long as memory can be had,
  the cached count is within the cache and the check meets no more than the ten bad addresses it tolerates:
  it returns, the used, free and missing blocks it reports add up to the data area, and the mount comes
  back unchanged.
\<close>

theorem check_accounts_for_every_block:
  assumes "list_area fs" "\<forall>n. h_alloc (fs_host fs) n" "reports_only m" "cx_bad_blocks (fst (pass1_of fs)) \<le> 10"
    and "unat (nfree (fs_fl fs)) \<le> length (free_cache (fs_fl fs))"
  shows "\<exists>ok rep. filsys_check_common m ask fs = Some (Inr ok, rep, fs) \<and>
    ck_used_blocks rep + ck_free_blocks rep + ck_missing_blocks rep = fs_fsize fs - v7_data_first fs"
  using check_accounts_total [OF assms] .

theorem check_accounts_for_every_block_witness:
  "\<exists>ok rep. filsys_invariants v7_sample = Some (Inr ok, rep, v7_sample) \<and>
     ck_used_blocks rep + ck_free_blocks rep + ck_missing_blocks rep = 60"
proof -
  let ?m = "\<lparr>ck_salvage = False, ck_preen = False, ck_force = True, ck_yes = False, ck_ask = False\<rparr>"
  have few: "cx_bad_blocks (fst (pass1_of v7_sample)) \<le> 10" using v7_sample_pass1 by simp
  have n: "unat (nfree (fs_fl v7_sample)) \<le> length (free_cache (fs_fl v7_sample))" by (simp add: v7_sample_def)
  have "reports_only ?m" by (simp add: reports_only_def)
  from check_accounts_for_every_block [OF v7_sample_area v7_sample_alloc this few n, of "\<lambda>_. False"] show ?thesis
    by (simp add: filsys_invariants_def v7_sample_def v7_data_first_def)
qed



text \<open>
  C35. The link counters of the check are one byte wide and stop at 255: a directory scan leaves
  in the counter of an inode the smaller of 255 and the entries that name it, so a larger link
  count is never confirmed.
\<close>

theorem link_counts_saturate:
  assumes "length ecount = Suc (unat (ops_maxino fs))" "0 < d" "d \<le> ops_maxino fs"
  shows "unat (fst (foldl (count_entry fs state) (ecount, rep) es) ! unat d) =
    min 255 (unat (ecount ! unat d) + length (filter (names_ino fs d) es))"
  using count_entries_saturate [OF assms] .

theorem link_counts_saturate_witness:
  "unat (fst (foldl (count_entry v7_sample (replicate 17 2)) (replicate 17 0, zero_check) (replicate 300 (5, [0x61]))) ! 5) = 255"
proof -
  have m: "ops_maxino v7_sample = 16" by (simp add: ops_maxino_def v7_maxinode_def v7_inopb_def v7_sample_def)
  have "filter (names_ino v7_sample 5) (replicate 300 (5, [0x61])) = replicate 300 (5, [0x61])"
    by (simp add: names_ino_def v7_sample_def)
  with link_counts_saturate [of "replicate 17 0" v7_sample 5 "replicate 17 2" zero_check "replicate 300 (5, [0x61])"] m
  show ?thesis by simp
qed

section \<open>Opening and making volumes\<close>

text \<open>
  C36. Flushing a V7 volume and opening the image again: the open succeeds, finds the same free
  list and the same totals, and every block from the i-list on as it was.
\<close>

theorem reopen_keeps_free_list:
  assumes "fl_inv fs bs" "v7_plain (fs_desc fs)" "openable fs" "caches_wf fs"
  shows "\<exists>fs'. v7fs_open (zero_mount (fs_host (snd (v7fs_sync fs))) (fs_desc fs)) False (fs_desc fs) (fs_base fs) = Some (Inr (), fs') \<and>
    fl_inv fs' bs \<and> fs_fl fs' = fs_fl fs \<and> (\<forall>b. 2 \<le> b \<longrightarrow> blk_data fs' b = blk_data fs b)"
  by (rule fl_reopen [OF assms]) blast

theorem reopen_keeps_free_list_witness:
  "\<exists>fs'. v7fs_open (zero_mount (fs_host (snd (v7fs_sync v7_sample))) v7_desc) False v7_desc 0 = Some (Inr (), fs') \<and>
     fl_inv fs' [10, 11]"
proof -
  have "fs_desc v7_sample = v7_desc" "fs_base v7_sample = 0" by (simp_all add: v7_sample_def)
  with reopen_keeps_free_list [OF v7_sample_inv v7_sample_openable(2,1,3)] show ?thesis by auto
qed

text \<open>
  C37. Counting the free space at open ends on every volume, however its chain is linked, unless
  the size plus the depth of the cache is the largest 32-bit number, which the guard cannot pass.
\<close>

theorem count_free_returns:
  assumes "fs_fsize fs + of_nat (d_nicfree (fs_desc fs)) \<noteq> - 1"
  shows "(\<exists>r. v7_count_free fs = Some r) \<and> (\<exists>r. v6_count_free fs = Some r)"
  using count_chain_returns [OF assms, of 0 "ucast (nfree (fs_fl fs))" "free_cache (fs_fl fs)" 0]
    v6_count_chain_returns [OF assms, of 0 "ucast (nfree (fs_fl fs))" "free_cache (fs_fl fs)" 0]
  by (auto simp: v7_count_free_def v6_count_free_def Let_def split: sum.split)

theorem count_free_returns_witness: "\<exists>r. v7_count_free v7_chain_sample = Some r"
proof -
  have "fs_fsize v7_chain_sample + of_nat (d_nicfree (fs_desc v7_chain_sample)) \<noteq> - 1" by (simp add: v7_chain_sample_def)
  from count_free_returns [OF this] show ?thesis by blast
qed

text \<open>
  C38. Every descriptor an open hands to the engine is well formed, whatever edition, byte
  order, packing and geometry are asked for.
\<close>

theorem opened_descriptors_well_formed:
  assumes "open_desc edn opened offset packing arch force geom = Inr d"
  shows "desc_ok d"
  using open_desc_ok [OF assms] .

theorem opened_descriptors_well_formed_witness:
  "\<exists>d. open_desc FILSYS_V10 (Inl EIO) 0 None None False
      (Some \<lparr>g_blocksize = 4096, g_freemap = Some Freemap_bigmap, g_byteorder = Some ''be''\<rparr>) = Inr d \<and> desc_ok d"
proof -
  have "\<exists>d. open_desc FILSYS_V10 (Inl EIO) 0 None None False
      (Some \<lparr>g_blocksize = 4096, g_freemap = Some Freemap_bigmap, g_byteorder = Some ''be''\<rparr>) = Inr d"
    by (simp add: open_desc_def filsys_apply_geom_def geom_check_def filsys_resolve_byteorder_def filsys_arch_bo_def Let_def)
  then show ?thesis using opened_descriptors_well_formed by blast
qed

text \<open>
  C39. Making a PDP-7 volume on an image large enough and opening it: the free list holds the
  blocks 712 to 6398 exactly once, and inode 4 is the empty root directory in block 6399.
\<close>

theorem new_pdp7_volume:
  assumes "quiet fs" "d_word (fs_desc fs) = Some wc" "fs_base fs + 8000 * block_bytes wc \<le> h_len (fs_host fs)"
  shows "\<exists>fs' fs2 ns ip. mkfs_pdp7 fs wc = (Inr (), fs') \<and>
    p7fs_open (zero_mount (fs_host fs') (fs_desc fs)) False (fs_desc fs) (fs_base fs) = (Inr (), fs2) \<and>
    p7_list fs2 ns \<and> p7_frees fs2 = {b. 712 \<le> b \<and> b < 6399} \<and>
    p7fs_read_inode fs2 P7_ROOTINO = Inr ip \<and> ip_mode ip = 0x2001E \<and> ip_nlink ip = 1 \<and> ip_size ip = 0 \<and> ip_addr ip ! 0 = 6399"
  using p7_new_volume [OF assms] .

theorem new_pdp7_volume_witness:
  "\<exists>fs' fs2 ns. mkfs_pdp7 p7_blank Word_rb09 = (Inr (), fs') \<and>
     p7fs_open (zero_mount (fs_host fs') pdp7_desc) False pdp7_desc 0 = (Inr (), fs2) \<and> p7_list fs2 ns \<and>
     p7_frees fs2 = {b. 712 \<le> b \<and> b < 6399}"
proof -
  have "fs_desc p7_blank = pdp7_desc" "fs_base p7_blank = 0" by (simp_all add: p7_blank_def zero_mount_def)
  with new_pdp7_volume [OF p7_blank_facts] show ?thesis by auto
qed

text \<open>
  C40.  Detection and opening agree.  On a host without read faults, when \<^verbatim>\<open>filsys_detect\<close> names
  V7, Coherent, 2.9BSD or 2.11BSD at an offset, opening the image there with that edition and no
  options succeeds; every cached free block is in the data area, the chain of free blocks ends,
  visits no block twice and stays in the data area, and the root inode is a directory.
\<close>

theorem detected_volume_opens:
  assumes det: "filsys_detect h offset (h_len h) flt = Inr (Inr out)"
    and e: "dt_edition out \<in> {FILSYS_V7, FILSYS_COHERENT, FILSYS_BSD29, FILSYS_BSD211}"
    and h: "\<forall>off n. \<not> h_rd_err h off n" "\<forall>n. h_alloc h n"
  shows "\<exists>fs bs ip.
    filsys_open_arch (dt_edition out) h (Inr ()) True offset uid gid None None False None no_lock szh szs lock =
      Some (Inr \<lparr>hd_ver = dt_edition out, hd_uid = uid, hd_gid = gid, hd_readonly = True\<rparr>, fs) \<and>
    fs_host fs = h \<and> v7_data_first fs < fs_fsize fs \<and>
    (\<forall>i < unat (nfree (fs_fl fs)). free_cache (fs_fl fs) ! i = 0 \<or> in_data fs (free_cache (fs_fl fs) ! i)) \<and>
    free_chain fs (free_cache (fs_fl fs) ! 0) bs \<and> distinct bs \<and>
    v7fs_read_inode fs 2 = Inr ip \<and> ip_mode ip AND 0xF000 = 0x4000"
proof -
  let ?d = "filsys_getformat (dt_edition out)"
  have e': "dt_edition out \<in> v7_probed" using e by (simp add: v7_probed_def)
  obtain fmt res sb where f: "fs_host fmt = h" "d_bo (fs_desc fmt) = ME" "\<not> d_pack4 (fs_desc fmt)" "d_nicfree (fs_desc fmt) = d_nicfree ?d"
    and v: "v7_validated fmt offset (d_bsize ?d) (h_len h) res sb"
    using detected_validated [OF det e'] by metis
  obtain fs where o: "v7fs_open (zero_mount h ?d) True ?d offset = Some (Inr (), fs)" "fs_desc fs = ?d" "fs_host fs = h"
      "fs_base fs = offset" "fs_imgsize fs = h_len h" "fs_isize fs = pr_isize res" "fs_fsize fs = pr_fsize res"
      "nfree (fs_fl fs) = bo_get16 ME sb (sb_nfree_off False)"
      "free_cache (fs_fl fs) = get_array (bo_get32 ME) 4 sb (sb_free_off False) (d_nicfree ?d)"
    by (rule validated_opens [OF e' refl f v])
  note rows = v7_probed_rows [OF e']
  have p: "\<not> d_pack4 ?d" "\<not> d_isize_count ?d" using rows(1) by (simp_all add: v7_plain_def)
  have s: "3 \<le> pr_isize res" "ucast (pr_isize res) < pr_fsize res" "offset + unat (pr_fsize res) * d_bsize ?d \<le> h_len h"
      "unat (nfree (fs_fl fs)) \<le> d_nicfree ?d" "probe_root_ok fmt offset (d_bsize ?d) ME = None"
      "cache_in_fs (\<lambda>i. bo_get32 ME sb (sb_free_off False + 4 * i)) (ucast (pr_isize res)) (pr_fsize res) (unat (nfree (fs_fl fs)))"
      "probe_walk_chain fmt (bo_get32 ME sb (sb_free_off False)) (ucast (pr_isize res)) (pr_fsize res) offset (d_bsize ?d)
         (d_nicfree ?d) 4 ME 2 = Inr (pr_segs res, None)"
    using v f unfolding v7_validated_def Let_def o(8) by (elim conjE, simp)+
  have df: "v7_data_first fs = ucast (pr_isize res)" using p by (simp add: v7_data_first_def o)
  have entry: "free_cache (fs_fl fs) ! i = bo_get32 ME sb (sb_free_off False + 4 * i)" if "i < d_nicfree ?d" for i
    using that by (simp add: o get_array_def)
  have cache: "free_cache (fs_fl fs) ! i = 0 \<or> in_data fs (free_cache (fs_fl fs) ! i)" if "i < unat (nfree (fs_fl fs))" for i
    using that s(4,6) entry [of i] by (auto simp: cache_in_fs_def out_of_fs_def in_data_def df o(7))
  obtain bs where "seg_chain fmt (ucast (pr_isize res)) (pr_fsize res) offset (d_bsize ?d) (d_nicfree ?d) 4 ME 2
      (bo_get32 ME sb (sb_free_off False)) bs" "distinct bs"
    using probe_walk_chain_sound [OF s(7)] by blast
  then have chain: "free_chain fs (free_cache (fs_fl fs) ! 0) bs" "distinct bs"
    using rows p s(3) f(1) entry [of 0] by (auto intro!: seg_free_chain [of fs fmt] simp: o)
  obtain ip where "v7fs_read_inode fs 2 = Inr ip" "ip_mode ip AND 0xF000 = 0x4000"
    by (rule validated_root [of fs fmt]) (use rows f(1) h s in \<open>simp_all add: o\<close>)
  then show ?thesis
    using open_arch_readonly [OF e' h(2) o(1)] cache chain o(3) s(2) by (auto simp: df o(7))
qed

theorem detected_volume_opens_witness:
  "\<exists>fs bs ip.
    filsys_open_arch FILSYS_V7 v7_found (Inr ()) True 0 1 1 None None False None False 100 100 (Inr ()) =
      Some (Inr \<lparr>hd_ver = FILSYS_V7, hd_uid = 1, hd_gid = 1, hd_readonly = True\<rparr>, fs) \<and>
    free_chain fs (free_cache (fs_fl fs) ! 0) bs \<and> distinct bs \<and> v7fs_read_inode fs 2 = Inr ip"
proof -
  have "h_len v7_found = 8192" "\<forall>off n. \<not> h_rd_err v7_found off n" "\<forall>n. h_alloc v7_found n"
    by (simp_all add: v7_found_def sample_host_def)
  then show ?thesis
    using detected_volume_opens [of v7_found 0 None _ 1 1 False 100 100 "Inr ()"] v7_found_detected [of None] by fastforce
qed

section \<open>The commands\<close>

text \<open>
  C9. \<^verbatim>\<open>fsck.filsys\<close> without one of the repair options \<^verbatim>\<open>-s -p -i -y -C\<close>, and with \<^verbatim>\<open>-n\<close> whatever
  the other options are, leaves the image as it was: for every edition, every image and every
  way the host can fail, however the command ends.
\<close>

theorem fsck_without_repairs_changes_nothing:
  assumes "CHR ''n'' \<in> fst ` set args \<or> fst ` set args \<inter> {CHR ''s'', CHR ''p'', CHR ''i'', CHR ''y'', CHR ''C''} = {}"
  shows "pred_option (\<lambda>(status, h'). h' = h) (fsck_main h opn sized ask args operand)"
  using fsck_main_looks [OF assms [folded repair_opts_def]] by (auto simp: pred_option_def)

theorem fsck_without_repairs_changes_nothing_witness:
  "fsck_main v7_found (\<lambda>_. Inr ()) True (\<lambda>_. True) [(CHR ''n'', []), (CHR ''s'', [])] True = Some (Inr 2, v7_found)"
proof -
  let ?args = "[(CHR ''n'', []), (CHR ''s'', [])]" and ?r = "fsck_main v7_found (\<lambda>_. Inr ()) True (\<lambda>_. True) [(CHR ''n'', []), (CHR ''s'', [])] True"
  have "h_len v7_found = 8192" by (simp add: v7_found_def sample_host_def)
  then have "map_option fst ?r = Some (Inr 2)"
    by (simp add: fsck_main_def fsck_option_def fsck_defaults_def fsck_detect_def mul64_def v7_found_detected fsck_repairs_def)
  then show ?thesis
    using fsck_without_repairs_changes_nothing [of ?args v7_found "\<lambda>_. Inr ()" True "\<lambda>_. True" True] by (cases ?r) auto
qed


end
